(* ===== verification/Prelude.thy ===== *)
theory Prelude
  imports Main "HOL-Library.Char_ord" "HOL-Library.List_Lexorder"
begin

text \<open>
  The prelude of the development: the collections the component theories fill
  (\<open>keeps\<close>: what an operation leaves alone or preserves; \<open>bounds\<close>: value ranges),
  the generic lemmas on lists, maps and folds they share, and two interfaces.
  \<open>step_system\<close> is the contract of every component that is a state machine (a step
  function and an invariant each step keeps); its lemmas lift the one-step facts to
  whole runs. \<open>monotone_step\<close> extends it with a measure no step lowers.
\<close>

named_theorems keeps "facts about what an operation preserves or leaves unchanged"
named_theorems bounds "value ranges of the model's numbers"

section \<open>Runs of a step function\<close>

fun run_steps :: "('s \<Rightarrow> 'e \<Rightarrow> 's) \<Rightarrow> 's \<Rightarrow> 'e list \<Rightarrow> 's" where
  "run_steps step s [] = s"
| "run_steps step s (e # es) = run_steps step (step s e) es"

lemma run_steps_append: "run_steps step s (xs @ ys) = run_steps step (run_steps step s xs) ys"
  by (induction xs arbitrary: s) auto

locale step_system =
  fixes step :: "'s \<Rightarrow> 'e \<Rightarrow> 's"
    and inv :: "'s \<Rightarrow> bool"
  assumes step_inv: "inv s \<Longrightarrow> inv (step s e)"
begin

lemma run_inv: "inv s \<Longrightarrow> inv (run_steps step s es)"
  by (induction es arbitrary: s) (auto intro: step_inv)

end

locale monotone_step = step_system +
  fixes m :: "'s \<Rightarrow> nat"
  assumes step_mono: "inv s \<Longrightarrow> m s \<le> m (step s e)"
begin

lemma run_mono: "inv s \<Longrightarrow> m s \<le> m (run_steps step s es)"
proof (induction es arbitrary: s)
  case (Cons e es)
  then have "m (step s e) \<le> m (run_steps step (step s e) es)"
    using step_inv by blast
  with step_mono [OF Cons.prems, of e] show ?case by simp
qed simp

end

section \<open>Lists\<close>

lemma sorted_wrt_less_iff:
  "sorted_wrt (<) (xs :: 'a::linorder list) \<longleftrightarrow> sorted xs \<and> distinct xs"
  by (rule strict_sorted_iff)

lemma map_snd_distinct_inj: "distinct (map f xs) \<Longrightarrow> inj_on f (set xs)"
  by (simp add: distinct_map)

lemma filter_empty_if: "(\<And>x. x \<in> set xs \<Longrightarrow> \<not> P x) \<Longrightarrow> filter P xs = []"
  by (induction xs) auto

lemma find_Some_mem: "List.find P xs = Some x \<Longrightarrow> x \<in> set xs \<and> P x"
  by (auto simp: find_Some_iff)

end
