(* ===== verification/GoLib.thy ===== *)
theory GoLib
  imports Prelude "HOL-Library.Word"
begin

text \<open>
  The parts of Go and of its standard library that the modelled code calls, as pure
  functions: strings are byte strings (\<open>string\<close>, one \<open>char\<close> per byte), compared
  bytewise as Go compares them; white space is the ASCII white space of
  \<^verbatim>\<open>strings.TrimSpace\<close>. Functions of packages \<^verbatim>\<open>strings\<close>, \<^verbatim>\<open>strconv\<close>, \<^verbatim>\<open>net\<close> and
  \<^verbatim>\<open>sort\<close> keep their names in lower case. Nothing here is mapped to a source file of
  the repository: these definitions state the documented behaviour of the library.
\<close>

section \<open>Package strings\<close>

definition is_space :: "char \<Rightarrow> bool" where
  "is_space c \<longleftrightarrow> c \<in> {CHR '' '', CHR 0x09, CHR 0x0A, CHR 0x0B, CHR 0x0C, CHR 0x0D}"

definition trim_space :: "string \<Rightarrow> string" where
  "trim_space s = rev (dropWhile is_space (rev (dropWhile is_space s)))"

definition has_prefix :: "string \<Rightarrow> string \<Rightarrow> bool" where
  "has_prefix s p \<longleftrightarrow> take (length p) s = p"

definition has_suffix :: "string \<Rightarrow> string \<Rightarrow> bool" where
  "has_suffix s p \<longleftrightarrow> has_prefix (rev s) (rev p)"

definition trim_prefix :: "string \<Rightarrow> string \<Rightarrow> string" where
  "trim_prefix s p = (if has_prefix s p then drop (length p) s else s)"

definition trim_suffix :: "string \<Rightarrow> string \<Rightarrow> string" where
  "trim_suffix s p = (if has_suffix s p then take (length s - length p) s else s)"

definition cut_prefix :: "string \<Rightarrow> string \<Rightarrow> string option" where
  "cut_prefix s p = (if has_prefix s p then Some (drop (length p) s) else None)"

text \<open>\<^verbatim>\<open>strings.Cut\<close> with a one-byte separator: \<open>None\<close> for \<open>ok = false\<close>.\<close>

definition cut :: "char \<Rightarrow> string \<Rightarrow> string \<times> string option" where
  "cut c s = (let a = takeWhile (\<lambda>x. x \<noteq> c) s
              in (a, if c \<in> set s then Some (drop (Suc (length a)) s) else None))"

text \<open>\<^verbatim>\<open>strings.Split\<close> with a one-byte separator; the result is never empty.\<close>

fun split_on :: "char \<Rightarrow> string \<Rightarrow> string list" where
  "split_on c [] = [[]]"
| "split_on c (x # xs) =
     (if x = c then [] # split_on c xs
      else case split_on c xs of [] \<Rightarrow> [[x]] | y # ys \<Rightarrow> (x # y) # ys)"

fun join :: "string \<Rightarrow> string list \<Rightarrow> string" where
  "join sep [] = []"
| "join sep [x] = x"
| "join sep (x # y # ys) = x @ sep @ join sep (y # ys)"

fun contains :: "string \<Rightarrow> string \<Rightarrow> bool" where
  "contains [] sub \<longleftrightarrow> sub = []"
| "contains (c # s) sub \<longleftrightarrow> has_prefix (c # s) sub \<or> contains s sub"

definition contains_any :: "string \<Rightarrow> string \<Rightarrow> bool" where
  "contains_any s cs \<longleftrightarrow> (\<exists>c \<in> set s. c \<in> set cs)"

text \<open>\<^verbatim>\<open>strings.Fields\<close>: the maximal runs of bytes that are not white space.\<close>

fun fields_acc :: "string \<Rightarrow> string \<Rightarrow> string list" where
  "fields_acc cur [] = (if cur = [] then [] else [cur])"
| "fields_acc cur (c # s) =
     (if is_space c then (if cur = [] then fields_acc [] s else cur # fields_acc [] s)
      else fields_acc (cur @ [c]) s)"

definition fields :: "string \<Rightarrow> string list" where
  "fields s = fields_acc [] s"

text \<open>\<^verbatim>\<open>strings.ToLower\<close> on ASCII.\<close>

definition to_lower :: "string \<Rightarrow> string" where
  "to_lower s = map (\<lambda>c. let n = (of_char c :: nat) in if 65 \<le> n \<and> n \<le> 90 then char_of (n + 32) else c) s"

section \<open>Package strconv\<close>

definition digit_char :: "nat \<Rightarrow> char" where
  "digit_char d = char_of (48 + d)"

fun nat_digits :: "nat \<Rightarrow> string" where
  "nat_digits n = (if n < 10 then [digit_char n] else nat_digits (n div 10) @ [digit_char (n mod 10)])"

declare nat_digits.simps [simp del]

definition itoa :: "int \<Rightarrow> string" where
  "itoa i = (if i < 0 then CHR ''-'' # nat_digits (nat (- i)) else nat_digits (nat i))"

definition is_digit :: "char \<Rightarrow> bool" where
  "is_digit c \<longleftrightarrow> 48 \<le> (of_char c :: nat) \<and> (of_char c :: nat) \<le> 57"

definition digit_val :: "char \<Rightarrow> nat" where
  "digit_val c = of_char c - 48"

definition digits_val :: "string \<Rightarrow> nat" where
  "digits_val s = foldl (\<lambda>a c. 10 * a + digit_val c) 0 s"

definition max_int64 :: int where "max_int64 = 2 ^ 63 - 1"
definition min_int64 :: int where "min_int64 = - (2 ^ 63)"

text \<open>\<^verbatim>\<open>strconv.Atoi\<close> on a 64-bit host: an optional sign, at least one digit, in range.\<close>

definition atoi :: "string \<Rightarrow> int option" where
  "atoi s =
     (let neg = (s \<noteq> [] \<and> hd s = CHR ''-'');
          ds = (if s \<noteq> [] \<and> (hd s = CHR ''-'' \<or> hd s = CHR ''+'') then tl s else s)
      in if ds = [] \<or> \<not> list_all is_digit ds then None
         else let v = (if neg then - int (digits_val ds) else int (digits_val ds))
              in if min_int64 \<le> v \<and> v \<le> max_int64 then Some v else None)"

text \<open>The verb \<^verbatim>\<open>%q\<close> on texts that need no escaping.\<close>

definition quote :: "string \<Rightarrow> string" where
  "quote s = CHR 0x22 # s @ [CHR 0x22]"

section \<open>Package net\<close>

definition join_host_port :: "string \<Rightarrow> string \<Rightarrow> string" where
  "join_host_port host port =
     (if CHR '':'' \<in> set host then ''['' @ host @ '']:'' @ port else host @ '':'' @ port)"

section \<open>Go maps that are iterated\<close>

text \<open>A Go map as an association list with one pair per key. \<^verbatim>\<open>range\<close> over it has no fixed
  order in Go; the modelled code sorts the keys first.\<close>

type_synonym ('k, 'v) gomap = "('k \<times> 'v) list"

definition gm_del :: "'k \<Rightarrow> ('k, 'v) gomap \<Rightarrow> ('k, 'v) gomap" where
  "gm_del k m = filter (\<lambda>p. fst p \<noteq> k) m"

definition gm_put :: "'k \<Rightarrow> 'v \<Rightarrow> ('k, 'v) gomap \<Rightarrow> ('k, 'v) gomap" where
  "gm_put k v m = (k, v) # gm_del k m"

definition gm_of :: "('a \<Rightarrow> 'k) \<Rightarrow> 'a list \<Rightarrow> ('k, 'a) gomap" where
  "gm_of f xs = foldl (\<lambda>m x. gm_put (f x) x m) [] xs"

lemma map_of_gm_del: "map_of (gm_del k m) = (map_of m)(k := None)"
  by (induction m) (auto simp: gm_del_def fun_eq_iff)

lemma map_of_gm_put [simp]: "map_of (gm_put k v m) = (map_of m)(k \<mapsto> v)"
  by (simp add: gm_put_def map_of_gm_del fun_eq_iff)

lemma set_gm_del: "set (gm_del k m) = {p \<in> set m. fst p \<noteq> k}"
  by (auto simp: gm_del_def)

lemma keys_gm_del [simp]: "fst ` set (gm_del k m) = fst ` set m - {k}"
  by (auto simp: set_gm_del)

lemma keys_gm_put [simp]: "fst ` set (gm_put k v m) = insert k (fst ` set m)"
  by (auto simp: gm_put_def)

lemma gm_of_fold_keys: "fst ` set (foldl (\<lambda>m x. gm_put (f x) x m) m xs) = fst ` set m \<union> f ` set xs"
  by (induction xs arbitrary: m) auto

lemma keys_gm_of [simp]: "fst ` set (gm_of f xs) = f ` set xs"
  by (simp add: gm_of_def gm_of_fold_keys)

lemma gm_of_fold_get:
  "map_of (foldl (\<lambda>m x. gm_put (f x) x m) m xs) k = Some x \<Longrightarrow>
   map_of m k = Some x \<or> (x \<in> set xs \<and> f x = k)"
  by (induction xs arbitrary: m) (fastforce split: if_splits)+

lemma gm_of_get: "map_of (gm_of f xs) k = Some x \<Longrightarrow> x \<in> set xs \<and> f x = k"
  using gm_of_fold_get [of f "[]" xs k x] by (simp add: gm_of_def)

lemma gm_of_get_ex: "k \<in> f ` set xs \<Longrightarrow> \<exists>x. map_of (gm_of f xs) k = Some x"
  using keys_gm_of [of f xs] by (metis map_of_eq_None_iff not_Some_eq)

section \<open>Lemmas\<close>

lemma trim_space_id:
  assumes "s \<noteq> []" "\<not> is_space (hd s)" "\<not> is_space (last s)"
  shows "trim_space s = s"
proof -
  have "dropWhile is_space s = s" using assms(1,2) by (cases s) auto
  moreover have "dropWhile is_space (rev s) = rev s" using assms(1,3) by (cases s rule: rev_cases) auto
  ultimately show ?thesis by (simp add: trim_space_def)
qed

lemma has_prefix_append [simp]: "has_prefix (p @ s) p"
  by (simp add: has_prefix_def)

lemma has_prefixE: "has_prefix s p \<Longrightarrow> \<exists>t. s = p @ t"
  by (metis append_take_drop_id has_prefix_def)

lemma has_prefix_iff: "has_prefix s p \<longleftrightarrow> (\<exists>t. s = p @ t)"
  by (auto dest: has_prefixE)

lemma contains_append_left: "contains b sub \<Longrightarrow> contains (a @ b) sub"
  by (induction a) auto

lemma contains_iff: "contains s sub \<longleftrightarrow> (\<exists>a b. s = a @ sub @ b)"
proof (induction s)
  case (Cons c s)
  show ?case
  proof
    assume "contains (c # s) sub"
    then show "\<exists>a b. c # s = a @ sub @ b"
      using Cons.IH by (metis append_Cons append_Nil contains.simps(2) has_prefixE)
  next
    assume "\<exists>a b. c # s = a @ sub @ b"
    then obtain a b where "c # s = a @ sub @ b" by blast
    then have "has_prefix (c # s) sub \<or> (\<exists>a' b. s = a' @ sub @ b)"
      by (cases a) (auto simp: has_prefix_iff)
    then show "contains (c # s) sub"
      using Cons.IH by simp
  qed
qed simp

lemma split_on_nonempty [simp]: "split_on c s \<noteq> []"
  by (induction s) (auto split: list.splits)

lemma split_on_no_sep: "x \<in> set (split_on c s) \<Longrightarrow> c \<notin> set x"
proof (induction s arbitrary: x)
  case (Cons a s)
  then show ?case
    by (cases "split_on c s") (auto split: if_splits)
qed simp

lemma join_Cons: "ys \<noteq> [] \<Longrightarrow> join sep (x # ys) = x @ sep @ join sep ys"
  by (cases ys) auto

lemma join_split_on: "join [c] (split_on c s) = s"
proof (induction s)
  case (Cons a s)
  show ?case
  proof (cases "a = c")
    case True
    then show ?thesis using Cons.IH by (simp add: join_Cons)
  next
    case False
    obtain y ys where ys: "split_on c s = y # ys"
      by (cases "split_on c s") auto
    then show ?thesis using Cons.IH False by (cases ys) auto
  qed
qed simp

lemma split_on_free: "c \<notin> set s \<Longrightarrow> split_on c s = [s]"
  by (induction s) auto

lemma split_on_append: "c \<notin> set x \<Longrightarrow> split_on c (x @ c # s) = x # split_on c s"
  by (induction x) auto

lemma split_on_join:
  "xs \<noteq> [] \<Longrightarrow> (\<And>x. x \<in> set xs \<Longrightarrow> c \<notin> set x) \<Longrightarrow> split_on c (join [c] xs) = xs"
proof (induction xs)
  case (Cons x xs)
  show ?case
  proof (cases xs)
    case Nil
    then show ?thesis using Cons.prems by (simp add: split_on_free)
  next
    case (Cons y ys)
    have "split_on c (join [c] xs) = xs"
      using Cons.IH Cons.prems local.Cons by simp
    then show ?thesis using Cons.prems local.Cons by (simp add: split_on_append)
  qed
qed simp

lemma cut_join: "c \<notin> set a \<Longrightarrow> cut c (a @ c # b) = (a, Some b)"
proof -
  assume "c \<notin> set a"
  then have "\<forall>x\<in>set a. x \<noteq> c" by blast
  then have "takeWhile (\<lambda>x. x \<noteq> c) (a @ c # b) = a"
    by (simp add: takeWhile_append2 takeWhile_tail)
  then show ?thesis by (simp add: cut_def)
qed

lemma cut_none: "c \<notin> set s \<Longrightarrow> cut c s = (s, None)"
  unfolding cut_def Let_def by (simp add: takeWhile_eq_all_conv) blast

subsection \<open>Decimal numbers\<close>

lemma of_char_digit: "d < 10 \<Longrightarrow> (of_char (digit_char d) :: nat) = 48 + d"
  by (simp add: digit_char_def)

lemma is_digit_digit_char [simp]: "d < 10 \<Longrightarrow> is_digit (digit_char d)"
  by (simp add: is_digit_def of_char_digit)

lemma digit_val_digit_char [simp]: "d < 10 \<Longrightarrow> digit_val (digit_char d) = d"
  by (simp add: digit_val_def of_char_digit)

lemma digits_val_snoc: "digits_val (s @ [c]) = 10 * digits_val s + digit_val c"
  by (simp add: digits_val_def)

lemma nat_digits_nonempty [simp]: "nat_digits n \<noteq> []"
  by (subst nat_digits.simps) simp

lemma nat_digits_digits: "list_all is_digit (nat_digits n)"
proof (induction n rule: nat_digits.induct)
  case (1 n)
  then show ?case
    by (cases "n < 10") (simp_all add: nat_digits.simps [of n])
qed

lemma digits_val_nat_digits: "digits_val (nat_digits n) = n"
proof (induction n rule: nat_digits.induct)
  case (1 n)
  show ?case
  proof (cases "n < 10")
    case True
    then show ?thesis by (simp add: nat_digits.simps [of n]) (simp add: digits_val_def)
  next
    case False
    with "1.IH" have "digits_val (nat_digits (n div 10)) = n div 10" by simp
    with False show ?thesis by (simp add: nat_digits.simps [of n] digits_val_snoc)
  qed
qed

lemma hd_nat_digits: "is_digit (hd (nat_digits n))"
  using nat_digits_digits [of n] by (cases "nat_digits n") auto

lemma not_digit_sign: "\<not> is_digit (CHR ''-'')" "\<not> is_digit (CHR ''+'')"
  by (simp_all add: is_digit_def)

lemma atoi_itoa: "min_int64 \<le> i \<Longrightarrow> i \<le> max_int64 \<Longrightarrow> atoi (itoa i) = Some i"
  using hd_nat_digits [of "nat i"] not_digit_sign
  by (auto simp: atoi_def itoa_def Let_def nat_digits_digits digits_val_nat_digits)

lemma itoa_inj: "itoa i = itoa j \<Longrightarrow> i = j"
proof -
  assume e: "itoa i = itoa j"
  have s: "i < 0 \<longleftrightarrow> j < 0"
    using e hd_nat_digits not_digit_sign(1) by (auto simp: itoa_def split: if_splits) (metis list.sel(1))+
  from e s have "nat_digits (nat \<bar>i\<bar>) = nat_digits (nat \<bar>j\<bar>)"
    by (auto simp: itoa_def split: if_splits)
  then have "nat \<bar>i\<bar> = nat \<bar>j\<bar>" by (metis digits_val_nat_digits)
  with s show ?thesis by auto
qed

lemma itoa_eq_iff [simp]: "itoa i = itoa j \<longleftrightarrow> i = j"
  by (auto dest: itoa_inj)

lemma itoa_chars: "x \<in> set (itoa i) \<Longrightarrow> is_digit x \<or> x = CHR ''-''"
  using nat_digits_digits by (auto simp: itoa_def list_all_iff split: if_splits)

lemma itoa_nonempty [simp]: "itoa i \<noteq> []"
  by (simp add: itoa_def)

lemma itoa_no_char: "\<not> is_digit c \<Longrightarrow> c \<noteq> CHR ''-'' \<Longrightarrow> c \<notin> set (itoa i)"
  using itoa_chars by blast

subsection \<open>Words of a command line\<close>

text \<open>\<open>spaced\<close>: a command line as \<^verbatim>\<open>ps\<close> prints it, with a space at either end, as the
  process checks compare it.\<close>

definition spaced :: "string list \<Rightarrow> string" where
  "spaced ws = '' '' @ join '' '' ws @ '' ''"

lemma split_on_mid: "split_on c (xs @ c # ys) = split_on c xs @ split_on c ys"
proof (induction xs)
  case (Cons x xs)
  then show ?case by (cases "split_on c xs") (auto split: list.splits)
qed simp

lemma split_on_spaced:
  assumes "ws \<noteq> []" "\<And>w. w \<in> set ws \<Longrightarrow> CHR '' '' \<notin> set w"
  shows "split_on CHR '' '' (spaced ws) = [] # ws @ [[]]"
proof -
  have "split_on CHR '' '' (spaced ws) = [] # split_on CHR '' '' (join [CHR '' ''] ws @ CHR '' '' # [])"
    by (simp add: spaced_def)
  also have "\<dots> = [] # split_on CHR '' '' (join [CHR '' ''] ws) @ [[]]"
    by (simp only: split_on_mid split_on.simps)
  finally show ?thesis using split_on_join [of ws "CHR '' ''"] assms by simp
qed

text \<open>Two words in a row occur in a command line of space-free words only as neighbours.\<close>

lemma contains_pair:
  assumes "ws \<noteq> []" "\<And>w. w \<in> set ws \<Longrightarrow> CHR '' '' \<notin> set w" "CHR '' '' \<notin> set a" "CHR '' '' \<notin> set b"
    and "contains (spaced ws) ('' '' @ a @ '' '' @ b @ '' '')"
  shows "\<exists>us vs. ([] # ws @ [[]]) = us @ a # b # vs"
proof -
  obtain p q where pq: "spaced ws = p @ ('' '' @ a @ '' '' @ b @ '' '') @ q"
    using assms(5) contains_iff by blast
  have "split_on CHR '' '' (spaced ws) = split_on CHR '' '' p @ a # b # split_on CHR '' '' q"
    unfolding pq using assms(3,4) by (simp add: split_on_mid split_on_append split_on_free)
  moreover have "split_on CHR '' '' (spaced ws) = [] # ws @ [[]]"
    by (rule split_on_spaced) (use assms in auto)
  ultimately show ?thesis by metis
qed

lemma contains_word:
  assumes "ws \<noteq> []" "\<And>w. w \<in> set ws \<Longrightarrow> CHR '' '' \<notin> set w" "CHR '' '' \<notin> set a"
    and "contains (spaced ws) ('' '' @ a @ '' '')"
  shows "a \<in> set ws \<or> a = []"
proof -
  obtain p q where pq: "spaced ws = p @ ('' '' @ a @ '' '') @ q"
    using assms(4) contains_iff by blast
  have "split_on CHR '' '' (spaced ws) = split_on CHR '' '' p @ a # split_on CHR '' '' q"
    unfolding pq using assms(3) by (simp add: split_on_mid split_on_append split_on_free)
  moreover have "split_on CHR '' '' (spaced ws) = [] # ws @ [[]]"
    by (rule split_on_spaced) (use assms in auto)
  ultimately have "a \<in> set ([] # ws @ [[]])" by (metis in_set_conv_decomp)
  then show ?thesis by auto
qed

end
