(* ===== verification/Forwarder_Desired.thy ===== *)
theory Forwarder_Desired
  imports GoLib "HOL-Library.Product_Lexorder"
begin

text \<open>
  Port publishing, the policy half (\<^verbatim>\<open>internal/forwarder/desired.go\<close>, with the entry type of
  \<^verbatim>\<open>state.go\<close> and \<^verbatim>\<open>netprov.Mapping\<close>): the desired host mappings, guest redirects and
  pending reasons computed from one container listing, the resolution of container
  addresses, and the text of the guest's pf anchor. JSON decoding is a parameter
  (\<open>unmarshal\<close>); \<open>uint16\<close> fields are \<open>16 word\<close>; Go maps that are only looked up are maps
  \<open>'k \<rightharpoonup> 'v\<close>, a Go map that is iterated is an association list with distinct keys.
\<close>

section \<open>Data\<close>

record pmapping =
  m_proto :: string
  m_local :: string
  m_remote :: string

record entry =
  e_proto :: string
  e_local :: string
  e_remote :: string
  e_error :: string
  e_since :: int

definition entry_mapping :: "entry \<Rightarrow> pmapping" where
  "entry_mapping e = \<lparr>m_proto = e_proto e, m_local = e_local e, m_remote = e_remote e\<rparr>"

definition entry_status :: "entry \<Rightarrow> string" where
  "entry_status e = (if e_error e \<noteq> [] then ''error: '' @ e_error e else ''ok'')"

record ps_port =
  pp_hostIP :: string
  pp_hostPort :: "16 word"
  pp_containerPort :: "16 word"
  pp_protocol :: string
  pp_range :: "16 word"

record ps_container =
  pc_id :: string
  pc_names :: "string list"
  pc_state :: string
  pc_exited :: bool
  pc_ports :: "ps_port list"

record rule =
  r_proto :: string
  r_guestIP :: string
  r_guestPort :: int
  r_containerID :: string
  r_containerIP :: string
  r_containerPort :: int
  r_keys :: "string list"

record plan =
  pl_mappings :: "pmapping list"
  pl_rules :: "rule list"
  pl_unpublishable :: "entry list"
  pl_pending :: "string \<rightharpoonup> string"

record published =
  p_proto :: string
  p_containerID :: string
  p_hostPort :: int
  p_containerPort :: int
  p_bind :: string
  p_needsRule :: bool

section \<open>Operations\<close>

definition default_host_ip :: string where
  "default_host_ip = ''0.0.0.0''"

text \<open>\<open>parse_ip\<close> stands for \<^verbatim>\<open>net.ParseIP\<close> followed by \<^verbatim>\<open>IP.String\<close>: the canonical form,
  or \<open>None\<close> for a text that is not an address.\<close>

definition parse_publish_addr :: "(string \<Rightarrow> string option) \<Rightarrow> string \<Rightarrow> string + string" where
  "parse_publish_addr parse_ip v0 =
     (let v = trim_space v0
      in if v = [] then Inr []
         else case parse_ip v of
             None \<Rightarrow> Inl (quote v @ '' is not an IP address ('' @ default_host_ip
                        @ '' publishes on every interface, 127.0.0.1 on the loopback only)'')
           | Some ip \<Rightarrow> Inr ip)"

definition host_ip :: "string \<Rightarrow> string" where
  "host_ip configured = (let v = trim_space configured in if v \<noteq> [] then v else default_host_ip)"

definition key :: "pmapping \<Rightarrow> string" where
  "key m = (if m_proto m = [] then ''tcp'' else m_proto m) @ '' '' @ m_local m @ '' '' @ m_remote m"

definition rule_string :: "rule \<Rightarrow> string" where
  "rule_string r =
     ''rdr pass inet proto '' @ r_proto r @ '' from any to '' @ r_guestIP r @ '' port = ''
     @ itoa (r_guestPort r) @ '' -> '' @ r_containerIP r @ '' port '' @ itoa (r_containerPort r)"

definition short_id :: "string \<Rightarrow> string" where
  "short_id i = (if length i > 12 then take 12 i else i)"

definition port_clash :: "int \<Rightarrow> string \<Rightarrow> string \<Rightarrow> string \<Rightarrow> string" where
  "port_clash port proto owner self =
     (let who = (if owner = self then ''this container's own publish of a different port''
                 else ''container '' @ short_id owner @ '''s publish'')
      in ''port '' @ itoa port @ ''/'' @ proto @ '' on the guest already carries '' @ who
         @ ''; use a different host port'')"

definition published_mapping :: "published \<Rightarrow> string \<Rightarrow> pmapping" where
  "published_mapping p guestIP =
     \<lparr>m_proto = p_proto p,
      m_local = join_host_port (p_bind p) (itoa (p_hostPort p)),
      m_remote = join_host_port guestIP (itoa (p_hostPort p))\<rparr>"

definition guest_key :: "published \<Rightarrow> string" where
  "guest_key p = p_proto p @ ''/'' @ itoa (p_hostPort p)"

definition bind_for :: "string \<Rightarrow> string \<Rightarrow> string \<Rightarrow> string \<times> bool" where
  "bind_for portHostIP guestIP hostIP =
     (if portHostIP = [] then (hostIP, False)
      else if portHostIP = guestIP then (hostIP, False)
      else if portHostIP = ''0.0.0.0'' \<or> portHostIP = ''::'' then (default_host_ip, True)
      else (portHostIP, True))"

text \<open>The unrolling loop of \<^verbatim>\<open>expand\<close>: it stops at the first port past 65535.\<close>

fun expand_from :: "ps_container \<Rightarrow> ps_port \<Rightarrow> string \<Rightarrow> string \<times> bool \<Rightarrow> int \<Rightarrow> nat \<Rightarrow> published list" where
  "expand_from c p proto b i 0 = []"
| "expand_from c p proto b i (Suc n) =
     (let hp = uint (pp_hostPort p) + i
      in if hp > 65535 then []
         else \<lparr>p_proto = proto, p_containerID = pc_id c, p_hostPort = hp,
               p_containerPort = uint (pp_containerPort p) + i,
               p_bind = fst b, p_needsRule = snd b\<rparr>
              # expand_from c p proto b (i + 1) n)"

definition expand :: "ps_container \<Rightarrow> ps_port \<Rightarrow> string \<Rightarrow> string \<Rightarrow> published list" where
  "expand c p guestIP hostIP =
     (let proto = (if pp_protocol p = [] then ''tcp'' else pp_protocol p);
          b = bind_for (pp_hostIP p) guestIP hostIP;
          n = (if unat (pp_range p) < 1 then 1 else unat (pp_range p))
      in expand_from c p proto b 0 n)"

definition container_skipped :: "ps_container \<Rightarrow> bool" where
  "container_skipped c \<longleftrightarrow>
     pc_exited c \<or> (pc_state c \<noteq> [] \<and> pc_state c \<noteq> ''running'' \<and> pc_state c \<noteq> ''paused'')"

definition container_ports :: "string \<Rightarrow> string \<Rightarrow> ps_container \<Rightarrow> published list" where
  "container_ports guestIP hostIP c =
     (if container_skipped c then []
      else concat (map (\<lambda>p. if pp_hostPort p = 0 then [] else expand c p guestIP hostIP) (pc_ports c)))"

definition published_ports :: "string \<Rightarrow> string \<Rightarrow> ps_container list \<Rightarrow> published list" where
  "published_ports guestIP hostIP cs = concat (map (container_ports guestIP hostIP) cs)"

definition engine_owns :: "published list \<Rightarrow> string \<rightharpoonup> string" where
  "engine_owns ps =
     foldl (\<lambda>m p. if m (guest_key p) = None \<and> \<not> p_needsRule p
                  then m(guest_key p \<mapsto> p_containerID p) else m) Map.empty ps"

record cstate =
  cs_seen :: "string set"
  cs_ruleAt :: "string \<rightharpoonup> nat"
  cs_mappings :: "pmapping list"
  cs_rules :: "rule list"
  cs_pending :: "string \<rightharpoonup> string"

text \<open>The tail of one pass of the main loop: a port that needs a redirect gets a new rule,
  joins its container's rule for the same guest port, or is marked pending.\<close>

definition place_rule :: "(string \<rightharpoonup> string) \<Rightarrow> string \<Rightarrow> published \<Rightarrow> string \<Rightarrow> cstate \<Rightarrow> cstate" where
  "place_rule owns guestIP p k st =
     (let gk = guest_key p in
      case owns gk of
        Some owner \<Rightarrow>
          st\<lparr>cs_pending := (cs_pending st)(k \<mapsto> port_clash (p_hostPort p) (p_proto p) owner (p_containerID p))\<rparr>
      | None \<Rightarrow>
         (case cs_ruleAt st gk of
            Some i \<Rightarrow>
              (let r = cs_rules st ! i in
               if r_containerID r \<noteq> p_containerID p
               then st\<lparr>cs_pending := (cs_pending st)(k \<mapsto>
                       port_clash (p_hostPort p) (p_proto p) (r_containerID r) (p_containerID p))\<rparr>
               else st\<lparr>cs_rules := (cs_rules st)[i := r\<lparr>r_keys := r_keys r @ [k]\<rparr>]\<rparr>)
          | None \<Rightarrow>
              st\<lparr>cs_ruleAt := (cs_ruleAt st)(gk \<mapsto> length (cs_rules st)),
                 cs_rules := cs_rules st @
                   [\<lparr>r_proto = p_proto p, r_guestIP = guestIP, r_guestPort = p_hostPort p,
                     r_containerID = p_containerID p, r_containerIP = [],
                     r_containerPort = p_containerPort p, r_keys = [k]\<rparr>]\<rparr>))"

definition compute_step :: "(string \<rightharpoonup> string) \<Rightarrow> string \<Rightarrow> cstate \<Rightarrow> published \<Rightarrow> cstate" where
  "compute_step owns guestIP st p =
     (let mp = published_mapping p guestIP; k = key mp in
      if k \<in> cs_seen st then st
      else let st1 = st\<lparr>cs_seen := insert k (cs_seen st), cs_mappings := cs_mappings st @ [mp]\<rparr>
           in if \<not> p_needsRule p then st1 else place_rule owns guestIP p k st1)"

definition compute_init :: cstate where
  "compute_init = \<lparr>cs_seen = {}, cs_ruleAt = Map.empty, cs_mappings = [], cs_rules = [], cs_pending = Map.empty\<rparr>"

definition compute_loop :: "string \<Rightarrow> published list \<Rightarrow> cstate" where
  "compute_loop guestIP ps = foldl (compute_step (engine_owns ps) guestIP) compute_init ps"

definition plan_of :: "cstate \<Rightarrow> plan" where
  "plan_of st =
     \<lparr>pl_mappings = sort_key key (cs_mappings st),
      pl_rules = sort_key (\<lambda>r. (r_guestPort r, r_proto r)) (cs_rules st),
      pl_unpublishable = [],
      pl_pending = cs_pending st\<rparr>"

definition compute :: "(string \<Rightarrow> string + ps_container list) \<Rightarrow> string \<Rightarrow> string \<Rightarrow> string \<Rightarrow> string + plan" where
  "compute unmarshal psJSON guestIP hostIP0 =
     (let hostIP = host_ip hostIP0 in
      case (if psJSON = [] then Inr [] else unmarshal psJSON) of
        Inl err \<Rightarrow> Inl (''parsing podman ps output: '' @ err)
      | Inr cs \<Rightarrow> Inr (plan_of (compute_loop guestIP (published_ports guestIP hostIP cs))))"

definition desired :: "(string \<Rightarrow> string + ps_container list) \<Rightarrow> string \<Rightarrow> string \<Rightarrow> string \<Rightarrow> string + pmapping list" where
  "desired unmarshal psJSON guestIP hostIP = map_sum id pl_mappings (compute unmarshal psJSON guestIP hostIP)"

subsection \<open>Container addresses\<close>

fun rule_ids :: "string set \<Rightarrow> rule list \<Rightarrow> string list" where
  "rule_ids seen [] = []"
| "rule_ids seen (r # rs) =
     (if r_containerID r = [] \<or> r_containerID r \<in> seen then rule_ids seen rs
      else r_containerID r # rule_ids (insert (r_containerID r) seen) rs)"

definition container_ids :: "plan \<Rightarrow> string list" where
  "container_ids pl = sort (rule_ids {} (pl_rules pl))"

definition block_rule :: "(string \<rightharpoonup> string) \<Rightarrow> rule \<Rightarrow> string \<Rightarrow> (string \<rightharpoonup> string)" where
  "block_rule pend r why = foldl (\<lambda>m k. m(k \<mapsto> why)) pend (r_keys r)"

definition no_address :: string where
  "no_address = ''the container has no address on the guest's container network yet''"

text \<open>\<open>ips\<close> is the Go map from container id to address; a missing id reads as the empty
  string, as in Go.\<close>

definition ip_of :: "(string \<rightharpoonup> string) \<Rightarrow> rule \<Rightarrow> string" where
  "ip_of ips r = (case ips (r_containerID r) of None \<Rightarrow> [] | Some ip \<Rightarrow> ip)"

definition resolve :: "(string \<rightharpoonup> string) \<Rightarrow> plan \<Rightarrow> plan" where
  "resolve ips pl =
     (let step = (\<lambda>(kept, pend) r.
            if ip_of ips r = [] then (kept, block_rule pend r no_address)
            else (kept @ [r\<lparr>r_containerIP := ip_of ips r\<rparr>], pend));
          (kept, pend) = foldl step ([], pl_pending pl) (pl_rules pl)
      in pl\<lparr>pl_rules := kept, pl_pending := pend\<rparr>)"

definition block_plan :: "string \<Rightarrow> plan \<Rightarrow> plan" where
  "block_plan why pl =
     pl\<lparr>pl_pending := foldl (\<lambda>m r. block_rule m r why) (pl_pending pl) (pl_rules pl), pl_rules := []\<rparr>"

definition anchor_text :: "rule list \<Rightarrow> string" where
  "anchor_text rs =
     concat (map (\<lambda>r. if r_containerIP r = [] then [] else rule_string r @ [CHR 0x0A]) rs)"

definition anchor_script :: "string \<Rightarrow> string" where
  "anchor_script text =
     ''pfctl -a rdr/jm -f - <<'' @ [CHR 0x27] @ ''JM_RULES_EOF'' @ [CHR 0x27, CHR 0x0A] @ text
     @ ''JM_RULES_EOF'' @ [CHR 0x0A]"

record inspect_container =
  ic_id :: string
  ic_ipAddress :: string
  ic_networks :: "(string \<times> string) list"

definition sorted_keys :: "('k::linorder \<times> 'v) list \<Rightarrow> 'k list" where
  "sorted_keys m = sort (remdups (map fst m))"

definition inspect_ip :: "inspect_container \<Rightarrow> string" where
  "inspect_ip c =
     (if ic_ipAddress c \<noteq> [] then ic_ipAddress c
      else case List.find (\<lambda>name. map_of (ic_networks c) name \<noteq> Some [])
                  (sorted_keys (ic_networks c)) of
             None \<Rightarrow> []
           | Some name \<Rightarrow> the (map_of (ic_networks c) name))"

definition parse_inspect :: "(string \<Rightarrow> string + inspect_container list) \<Rightarrow> string \<Rightarrow> string + (string \<rightharpoonup> string)" where
  "parse_inspect unmarshal data =
     (if data = [] then Inr Map.empty
      else case unmarshal data of
          Inl err \<Rightarrow> Inl (''parsing podman inspect output: '' @ err)
        | Inr cs \<Rightarrow> Inr (foldl (\<lambda>out c. if ic_id c = [] then out
                                 else if inspect_ip c \<noteq> [] then out(ic_id c \<mapsto> inspect_ip c) else out)
                         Map.empty cs))"

section \<open>What the loop keeps\<close>

definition rule_gk :: "rule \<Rightarrow> string" where
  "rule_gk r = r_proto r @ ''/'' @ itoa (r_guestPort r)"

text \<open>Every mapping of the plan is served by the engine's own redirect, by a rule of jm, or is
  marked pending.\<close>

definition covered :: "published list \<Rightarrow> string \<Rightarrow> cstate \<Rightarrow> string \<Rightarrow> bool" where
  "covered ps guestIP st k \<longleftrightarrow>
     k \<in> dom (cs_pending st) \<or> (\<exists>r \<in> set (cs_rules st). k \<in> set (r_keys r)) \<or>
     (\<exists>p \<in> set ps. key (published_mapping p guestIP) = k \<and> \<not> p_needsRule p)"

definition rule_from :: "published \<Rightarrow> string \<Rightarrow> rule \<Rightarrow> bool" where
  "rule_from p guestIP r \<longleftrightarrow>
     p_needsRule p \<and> r_proto r = p_proto p \<and> r_guestIP r = guestIP \<and> r_guestPort r = p_hostPort p \<and>
     r_containerID r = p_containerID p \<and> r_containerPort r = p_containerPort p \<and> r_containerIP r = []"

definition rules_ok :: "published list \<Rightarrow> string \<Rightarrow> (string \<rightharpoonup> string) \<Rightarrow> cstate \<Rightarrow> bool" where
  "rules_ok ps guestIP owns st \<longleftrightarrow>
     (\<forall>r \<in> set (cs_rules st). owns (rule_gk r) = None \<and> set (r_keys r) \<subseteq> cs_seen st \<and>
        set (r_keys r) \<inter> dom (cs_pending st) = {} \<and> (\<exists>p \<in> set ps. rule_from p guestIP r))"

definition index_ok :: "cstate \<Rightarrow> bool" where
  "index_ok st \<longleftrightarrow>
     (\<forall>gk i. cs_ruleAt st gk = Some i \<longleftrightarrow> i < length (cs_rules st) \<and> rule_gk (cs_rules st ! i) = gk) \<and>
     (\<forall>i < length (cs_rules st). \<forall>j < length (cs_rules st). i \<noteq> j \<longrightarrow>
        set (r_keys (cs_rules st ! i)) \<inter> set (r_keys (cs_rules st ! j)) = {})"

definition seen_ok :: "published list \<Rightarrow> string \<Rightarrow> cstate \<Rightarrow> bool" where
  "seen_ok ps guestIP st \<longleftrightarrow>
     cs_seen st = key ` set (cs_mappings st) \<and> distinct (map key (cs_mappings st)) \<and>
     dom (cs_pending st) \<subseteq> cs_seen st \<and>
     set (cs_mappings st) \<subseteq> (\<lambda>p. published_mapping p guestIP) ` set ps \<and>
     (\<forall>k \<in> cs_seen st. covered ps guestIP st k)"

definition compute_inv :: "published list \<Rightarrow> string \<Rightarrow> (string \<rightharpoonup> string) \<Rightarrow> cstate \<Rightarrow> bool" where
  "compute_inv ps guestIP owns st \<longleftrightarrow> seen_ok ps guestIP st \<and> index_ok st \<and> rules_ok ps guestIP owns st"

lemmas compute_inv_defs = compute_inv_def seen_ok_def index_ok_def rules_ok_def covered_def

lemma rule_gk_keys [simp]: "rule_gk (r\<lparr>r_keys := ks\<rparr>) = rule_gk r"
  by (simp add: rule_gk_def)

lemma rule_from_keys [simp]: "rule_from p g (r\<lparr>r_keys := ks\<rparr>) = rule_from p g r"
  by (simp add: rule_from_def)

lemma compute_inv_init [simp]: "compute_inv ps guestIP owns compute_init"
  by (simp add: compute_inv_defs compute_init_def)

text \<open>The first half of a pass: recording a new mapping.\<close>

lemma index_ok_seen [simp]: "index_ok (st\<lparr>cs_seen := A, cs_mappings := B\<rparr>) = index_ok st"
  by (simp add: index_ok_def)

lemma rules_ok_seen:
  "rules_ok ps g owns st \<Longrightarrow> rules_ok ps g owns (st\<lparr>cs_seen := insert k (cs_seen st), cs_mappings := B\<rparr>)"
  by (auto simp: rules_ok_def)

text \<open>Between the two halves of a pass: \<open>k\<close> is recorded and not yet placed.\<close>

definition placing :: "published list \<Rightarrow> string \<Rightarrow> (string \<rightharpoonup> string) \<Rightarrow> string \<Rightarrow> cstate \<Rightarrow> bool" where
  "placing ps guestIP owns k st \<longleftrightarrow>
     cs_seen st = key ` set (cs_mappings st) \<and> distinct (map key (cs_mappings st)) \<and>
     set (cs_mappings st) \<subseteq> (\<lambda>p. published_mapping p guestIP) ` set ps \<and>
     index_ok st \<and> rules_ok ps guestIP owns st \<and>
     k \<in> cs_seen st \<and> dom (cs_pending st) \<subseteq> cs_seen st - {k} \<and>
     (\<forall>r \<in> set (cs_rules st). k \<notin> set (r_keys r)) \<and>
     (\<forall>k' \<in> cs_seen st - {k}. covered ps guestIP st k')"

lemma placing_start:
  assumes inv: "compute_inv ps g owns st" and p: "p \<in> set ps"
    and k: "k = key (published_mapping p g)" "k \<notin> cs_seen st"
  shows "placing ps g owns k
    (st\<lparr>cs_seen := insert k (cs_seen st), cs_mappings := cs_mappings st @ [published_mapping p g]\<rparr>)"
  using assms unfolding placing_def compute_inv_def seen_ok_def
  by (auto simp: rules_ok_seen) (auto simp: rules_ok_def covered_def)

lemma placing_done:
  assumes "placing ps g owns k st" "covered ps g st k"
  shows "compute_inv ps g owns st"
  using assms unfolding placing_def compute_inv_def seen_ok_def by blast

lemma placingD:
  assumes "placing ps g owns k st"
  shows "index_ok st" "rules_ok ps g owns st" "k \<in> cs_seen st" "dom (cs_pending st) \<subseteq> cs_seen st - {k}"
    "\<And>r. r \<in> set (cs_rules st) \<Longrightarrow> k \<notin> set (r_keys r)"
  using assms unfolding placing_def by blast+

lemma placing_seen_ok:
  assumes "placing ps g owns k st" "covered ps g st' k"
    "\<And>k'. covered ps g st k' \<Longrightarrow> covered ps g st' k'"
    "cs_seen st' = cs_seen st" "cs_mappings st' = cs_mappings st" "dom (cs_pending st') \<subseteq> cs_seen st"
  shows "seen_ok ps g st'"
  using assms unfolding placing_def seen_ok_def by (metis Diff_iff singletonD)

lemma placing_pending:
  assumes pl: "placing ps g owns k st"
  shows "compute_inv ps g owns (st\<lparr>cs_pending := (cs_pending st)(k \<mapsto> v)\<rparr>)"
    (is "compute_inv ps g owns ?st")
proof -
  have "index_ok ?st"
    using placingD(1) [OF pl] by (simp add: index_ok_def)
  moreover have "rules_ok ps g owns ?st"
    using placingD(2,5) [OF pl] by (simp add: rules_ok_def)
  moreover have "seen_ok ps g ?st"
    using placingD(3,4) [OF pl] by (intro placing_seen_ok [OF pl]) (auto simp: covered_def)
  ultimately show ?thesis by (simp add: compute_inv_def)
qed

lemma placing_new:
  assumes pl: "placing ps g owns k st" and none: "cs_ruleAt st (rule_gk r) = None" "owns (rule_gk r) = None"
    and r: "r_keys r = [k]" "p \<in> set ps" "rule_from p g r"
  shows "compute_inv ps g owns
    (st\<lparr>cs_ruleAt := (cs_ruleAt st)(rule_gk r \<mapsto> length (cs_rules st)), cs_rules := cs_rules st @ [r]\<rparr>)"
    (is "compute_inv ps g owns ?st")
proof -
  have at: "\<And>gk i. cs_ruleAt st gk = Some i \<longleftrightarrow> i < length (cs_rules st) \<and> rule_gk (cs_rules st ! i) = gk"
    using pl by (simp add: placing_def index_ok_def)
  have dis: "\<And>i j. i < length (cs_rules st) \<Longrightarrow> j < length (cs_rules st) \<Longrightarrow> i \<noteq> j \<Longrightarrow>
      set (r_keys (cs_rules st ! i)) \<inter> set (r_keys (cs_rules st ! j)) = {}"
    using pl by (simp add: placing_def index_ok_def)
  have new: "\<And>i. i < length (cs_rules st) \<Longrightarrow> rule_gk (cs_rules st ! i) \<noteq> rule_gk r"
    using at none(1) by (metis option.distinct(1))
  have k: "\<And>i. i < length (cs_rules st) \<Longrightarrow> k \<notin> set (r_keys (cs_rules st ! i))"
    using pl by (simp add: placing_def)
  have "index_ok ?st"
    unfolding index_ok_def
    using at dis new k r(1) by (auto simp: nth_append less_Suc_eq)
  moreover have "rules_ok ps g owns ?st"
    using placingD(2-4) [OF pl] none r by (auto simp: rules_ok_def)
  moreover have "seen_ok ps g ?st"
    using placingD(3,4) [OF pl] r(1) by (intro placing_seen_ok [OF pl]) (auto simp: covered_def)
  ultimately show ?thesis by (simp add: compute_inv_def)
qed

lemma placing_join:
  assumes pl: "placing ps g owns k st" and i: "i < length (cs_rules st)"
  defines "r \<equiv> cs_rules st ! i"
  shows "compute_inv ps g owns (st\<lparr>cs_rules := (cs_rules st)[i := r\<lparr>r_keys := r_keys r @ [k]\<rparr>]\<rparr>)"
    (is "compute_inv ps g owns ?st")
proof -
  have gk: "\<And>j. j < length (cs_rules st) \<Longrightarrow> rule_gk (cs_rules ?st ! j) = rule_gk (cs_rules st ! j)"
    using i by (simp add: nth_list_update r_def)
  have ks: "\<And>j. j < length (cs_rules st) \<Longrightarrow> set (r_keys (cs_rules ?st ! j)) =
      (if j = i then insert k (set (r_keys r)) else set (r_keys (cs_rules st ! j)))"
    by (auto simp: nth_list_update r_def)
  have k: "\<And>j. j < length (cs_rules st) \<Longrightarrow> k \<notin> set (r_keys (cs_rules st ! j))"
    using pl by (simp add: placing_def)
  have at: "\<And>gk j. cs_ruleAt st gk = Some j \<longleftrightarrow> j < length (cs_rules st) \<and> rule_gk (cs_rules st ! j) = gk"
    and dis: "\<And>j j'. j < length (cs_rules st) \<Longrightarrow> j' < length (cs_rules st) \<Longrightarrow> j \<noteq> j' \<Longrightarrow>
      set (r_keys (cs_rules st ! j)) \<inter> set (r_keys (cs_rules st ! j')) = {}"
    using placingD(1) [OF pl] by (simp_all add: index_ok_def)
  have "cs_ruleAt ?st gk = Some j \<longleftrightarrow> j < length (cs_rules ?st) \<and> rule_gk (cs_rules ?st ! j) = gk" for gk j
    using at gk by auto
  moreover have "set (r_keys (cs_rules ?st ! j)) \<inter> set (r_keys (cs_rules ?st ! j')) = {}"
    if "j < length (cs_rules ?st)" "j' < length (cs_rules ?st)" "j \<noteq> j'" for j j'
  proof -
    have jj: "j < length (cs_rules st)" "j' < length (cs_rules st)" using that by simp_all
    show ?thesis
    proof (cases "j = i")
      case True
      then have "j' \<noteq> i" using that(3) by simp
      with True show ?thesis
        using dis [OF jj that(3)] k [OF jj(2)] i by (simp add: r_def)
    next
      case False
      then show ?thesis
        using dis [OF jj that(3)] k [OF jj(1)] i by (cases "j' = i") (simp_all add: r_def)
    qed
  qed
  ultimately have "index_ok ?st" by (simp add: index_ok_def)
  moreover have "rules_ok ps g owns ?st"
  proof -
    have sub: "set (cs_rules ?st) \<subseteq> insert (r\<lparr>r_keys := r_keys r @ [k]\<rparr>) (set (cs_rules st))"
      using set_update_subset_insert [of "cs_rules st" i] by simp
    have ok: "\<And>r'. r' \<in> set (cs_rules st) \<Longrightarrow> owns (rule_gk r') = None \<and> set (r_keys r') \<subseteq> cs_seen st \<and>
        set (r_keys r') \<inter> dom (cs_pending st) = {} \<and> (\<exists>p \<in> set ps. rule_from p g r')"
      using placingD(2) [OF pl] by (simp add: rules_ok_def)
    have rr: "r \<in> set (cs_rules st)" using i by (simp add: r_def)
    show ?thesis
      unfolding rules_ok_def
    proof
      fix r'
      assume "r' \<in> set (cs_rules ?st)"
      with sub consider "r' \<in> set (cs_rules st)" | "r' = r\<lparr>r_keys := r_keys r @ [k]\<rparr>" by blast
      then show "owns (rule_gk r') = None \<and> set (r_keys r') \<subseteq> cs_seen ?st \<and>
        set (r_keys r') \<inter> dom (cs_pending ?st) = {} \<and> (\<exists>p \<in> set ps. rule_from p g r')"
        using ok ok [OF rr] placingD(3,4) [OF pl] by cases auto
    qed
  qed
  moreover have "seen_ok ps g ?st"
  proof -
    have keep: "\<exists>r' \<in> set (cs_rules ?st). k' \<in> set (r_keys r')"
      if "r'' \<in> set (cs_rules st)" "k' \<in> set (r_keys r'')" for r'' k'
    proof -
      from that(1) obtain j where j: "j < length (cs_rules st)" "r'' = cs_rules st ! j"
        by (metis in_set_conv_nth)
      then have "k' \<in> set (r_keys (cs_rules ?st ! j))" using ks that(2) by (auto simp: r_def)
      moreover have "cs_rules ?st ! j \<in> set (cs_rules ?st)" using j by (intro nth_mem) simp
      ultimately show ?thesis by blast
    qed
    have "\<exists>r' \<in> set (cs_rules ?st). k \<in> set (r_keys r')"
      using i by (auto intro!: bexI [of _ "r\<lparr>r_keys := r_keys r @ [k]\<rparr>"] simp: set_update_memI)
    then have "covered ps g ?st k" by (simp add: covered_def)
    moreover have "covered ps g ?st k'" if "covered ps g st k'" for k'
      using that keep by (auto simp: covered_def)
    ultimately show ?thesis
      using placingD(4) [OF pl] by (intro placing_seen_ok [OF pl]) auto
  qed
  ultimately show ?thesis by (simp add: compute_inv_def)
qed

lemma compute_step_inv:
  assumes inv: "compute_inv ps g owns st" and p: "p \<in> set ps"
  shows "compute_inv ps g owns (compute_step owns g st p)"
proof -
  define k where "k = key (published_mapping p g)"
  define st1 where "st1 = st\<lparr>cs_seen := insert k (cs_seen st), cs_mappings := cs_mappings st @ [published_mapping p g]\<rparr>"
  consider (old) "k \<in> cs_seen st" | (plain) "k \<notin> cs_seen st" "\<not> p_needsRule p"
    | (rule) "k \<notin> cs_seen st" "p_needsRule p" by blast
  then show ?thesis
  proof cases
    case old
    then show ?thesis using inv by (simp add: compute_step_def k_def Let_def)
  next
    case plain
    then have "placing ps g owns k st1" using inv p placing_start k_def st1_def by blast
    moreover have "covered ps g st1 k" using plain p by (auto simp: covered_def k_def)
    ultimately have "compute_inv ps g owns st1" by (rule placing_done)
    then show ?thesis using plain by (simp add: compute_step_def k_def st1_def Let_def)
  next
    case rule
    then have pl: "placing ps g owns k st1" using inv p placing_start k_def st1_def by blast
    have at: "i < length (cs_rules st1)" if "cs_ruleAt st1 (guest_key p) = Some i" for i
      using placingD(1) [OF pl] that by (simp add: index_ok_def)
    have gk: "rule_gk \<lparr>r_proto = p_proto p, r_guestIP = g, r_guestPort = p_hostPort p,
        r_containerID = p_containerID p, r_containerIP = [], r_containerPort = p_containerPort p,
        r_keys = [k]\<rparr> = guest_key p" (is "rule_gk ?r = _")
      by (simp add: rule_gk_def guest_key_def)
    have rf: "rule_from p g ?r" using rule(2) by (simp add: rule_from_def)
    have "compute_inv ps g owns (place_rule owns g p k st1)"
    proof (cases "owns (guest_key p)")
      case (Some owner)
      then show ?thesis using placing_pending [OF pl] by (simp add: place_rule_def Let_def)
    next
      case o: None
      show ?thesis
      proof (cases "cs_ruleAt st1 (guest_key p)")
        case None
        then show ?thesis
          using placing_new [OF pl, of ?r] o p rf gk by (simp add: place_rule_def Let_def)
      next
        case (Some i)
        then show ?thesis
          using o placing_pending [OF pl] placing_join [OF pl at [OF Some]]
          by (simp add: place_rule_def Let_def)
      qed
    qed
    then show ?thesis using rule by (simp add: compute_step_def k_def st1_def Let_def)
  qed
qed

lemma compute_fold_inv:
  "compute_inv ps g owns st \<Longrightarrow> set qs \<subseteq> set ps \<Longrightarrow>
   compute_inv ps g owns (foldl (compute_step owns g) st qs)"
  by (induction qs arbitrary: st) (auto intro: compute_step_inv)

lemma compute_loop_inv: "compute_inv ps g (engine_owns ps) (compute_loop g ps)"
  by (simp add: compute_loop_def compute_fold_inv)

text \<open>The loop records the key of every port it has passed.\<close>

lemma place_rule_seen [simp]:
  "cs_seen (place_rule owns g p k st) = cs_seen st" "cs_mappings (place_rule owns g p k st) = cs_mappings st"
  by (simp_all add: place_rule_def Let_def split: option.splits)

lemma compute_step_seen: "cs_seen (compute_step owns g st p) = insert (key (published_mapping p g)) (cs_seen st)"
  by (auto simp: compute_step_def Let_def)

lemma compute_fold_seen:
  "cs_seen (foldl (compute_step owns g) st qs) = cs_seen st \<union> (\<lambda>p. key (published_mapping p g)) ` set qs"
  by (induction qs arbitrary: st) (auto simp: compute_step_seen)

lemma compute_loop_seen: "cs_seen (compute_loop g ps) = (\<lambda>p. key (published_mapping p g)) ` set ps"
  by (simp add: compute_loop_def compute_fold_seen) (simp add: compute_init_def)

text \<open>The engine owns exactly the guest ports some publish needs no rule for.\<close>

lemma engine_owns_fold_dom:
  "dom (foldl (\<lambda>m p. if m (guest_key p) = None \<and> \<not> p_needsRule p
                     then m(guest_key p \<mapsto> p_containerID p) else m) m ps) =
   dom m \<union> guest_key ` {p \<in> set ps. \<not> p_needsRule p}"
  by (induction ps arbitrary: m) (auto split: if_splits)

lemma dom_engine_owns: "dom (engine_owns ps) = guest_key ` {p \<in> set ps. \<not> p_needsRule p}"
  by (simp add: engine_owns_def engine_owns_fold_dom)

section \<open>The plan\<close>

lemma set_plan [simp]:
  "set (pl_mappings (plan_of st)) = set (cs_mappings st)"
  "set (pl_rules (plan_of st)) = set (cs_rules st)"
  "pl_pending (plan_of st) = cs_pending st"
  by (simp_all add: plan_of_def)

lemma index_ok_distinct:
  assumes "index_ok st"
  shows "distinct (map rule_gk (cs_rules st))"
proof -
  have at: "cs_ruleAt st (rule_gk (cs_rules st ! i)) = Some i" if "i < length (cs_rules st)" for i
    using assms that by (simp add: index_ok_def)
  show ?thesis
    unfolding distinct_conv_nth
  proof (intro allI impI)
    fix i j
    assume "i < length (map rule_gk (cs_rules st))" "j < length (map rule_gk (cs_rules st))" "i \<noteq> j"
    then show "map rule_gk (cs_rules st) ! i \<noteq> map rule_gk (cs_rules st) ! j"
      using at [of i] at [of j] by auto
  qed
qed

lemma index_ok_unique:
  assumes "index_ok st" "r \<in> set (cs_rules st)" "r' \<in> set (cs_rules st)" "k \<in> set (r_keys r)" "k \<in> set (r_keys r')"
  shows "r = r'"
proof -
  obtain i j where ij: "i < length (cs_rules st)" "j < length (cs_rules st)" "r = cs_rules st ! i" "r' = cs_rules st ! j"
    using assms(2,3) by (metis in_set_conv_nth)
  have dis: "i \<noteq> j \<Longrightarrow> set (r_keys (cs_rules st ! i)) \<inter> set (r_keys (cs_rules st ! j)) = {}"
    using assms(1) ij(1,2) by (simp add: index_ok_def)
  then show ?thesis using ij assms(4,5) by (cases "i = j") auto
qed

lemma sorted_wrt_key: "distinct (map f xs) \<Longrightarrow> sorted_wrt (<) (map f (sort_key f xs))"
  by (simp add: sorted_wrt_less_iff distinct_map)

text \<open>Fact (functional): the host legs of the plan are exactly the mappings of the published
  ports, one per key, in strictly ascending order of the key.\<close>

theorem plan_mappings_exact:
  fixes ps :: "published list" and g :: string
  defines "pl \<equiv> plan_of (compute_loop g ps)"
  shows "sorted_wrt (<) (map key (pl_mappings pl))
    \<and> set (pl_mappings pl) \<subseteq> (\<lambda>p. published_mapping p g) ` set ps
    \<and> key ` set (pl_mappings pl) = (\<lambda>p. key (published_mapping p g)) ` set ps"
  using compute_loop_inv [of ps g] compute_loop_seen [of g ps]
  unfolding compute_inv_def seen_ok_def pl_def
  by (simp add: sorted_wrt_key plan_of_def del: set_map)

text \<open>Fact (safety): no two redirects of the plan claim one guest port, none is written over a
  port the engine already redirects, and each comes from a published port that needs it.\<close>

theorem plan_rules_exclusive:
  fixes ps :: "published list" and g :: string
  defines "pl \<equiv> plan_of (compute_loop g ps)"
  shows "distinct (map rule_gk (pl_rules pl))
    \<and> rule_gk ` set (pl_rules pl) \<inter> guest_key ` {p \<in> set ps. \<not> p_needsRule p} = {}
    \<and> (\<forall>r \<in> set (pl_rules pl). \<exists>p \<in> set ps. rule_from p g r)"
proof -
  have inv: "index_ok (compute_loop g ps)" "rules_ok ps g (engine_owns ps) (compute_loop g ps)"
    using compute_loop_inv [of ps g] by (simp_all add: compute_inv_def)
  have "rule_gk r \<notin> guest_key ` {p \<in> set ps. \<not> p_needsRule p}" if "r \<in> set (cs_rules (compute_loop g ps))" for r
    using inv(2) that dom_engine_owns [of ps] unfolding rules_ok_def by (metis domIff)
  then show ?thesis
    using inv index_ok_distinct [OF inv(1)] unfolding pl_def rules_ok_def
    by (auto simp: plan_of_def distinct_map)
qed

text \<open>Fact (safety): every host leg of the plan is accounted for: the engine's own redirect
  serves it, or it is marked pending with a reason, or exactly one redirect of the plan
  serves it, and no leg with a redirect is marked pending.\<close>

theorem plan_accounts_for_every_mapping:
  fixes ps :: "published list" and g :: string
  defines "pl \<equiv> plan_of (compute_loop g ps)"
  shows "(\<forall>mp \<in> set (pl_mappings pl).
      (\<exists>p \<in> set ps. key (published_mapping p g) = key mp \<and> \<not> p_needsRule p)
      \<or> key mp \<in> dom (pl_pending pl)
      \<or> (\<exists>!r. r \<in> set (pl_rules pl) \<and> key mp \<in> set (r_keys r)))
    \<and> (\<forall>r \<in> set (pl_rules pl). set (r_keys r) \<inter> dom (pl_pending pl) = {})"
proof (intro conjI ballI)
  have inv: "index_ok (compute_loop g ps)" "rules_ok ps g (engine_owns ps) (compute_loop g ps)"
    "seen_ok ps g (compute_loop g ps)"
    using compute_loop_inv [of ps g] by (simp_all add: compute_inv_def)
  fix mp
  assume "mp \<in> set (pl_mappings pl)"
  then have "covered ps g (compute_loop g ps) (key mp)"
    using inv(3) by (simp add: seen_ok_def pl_def)
  then show "(\<exists>p \<in> set ps. key (published_mapping p g) = key mp \<and> \<not> p_needsRule p)
    \<or> key mp \<in> dom (pl_pending pl) \<or> (\<exists>!r. r \<in> set (pl_rules pl) \<and> key mp \<in> set (r_keys r))"
    unfolding covered_def pl_def by simp (metis index_ok_unique [OF inv(1)])
next
  fix r
  assume "r \<in> set (pl_rules pl)"
  then show "set (r_keys r) \<inter> dom (pl_pending pl) = {}"
    using compute_loop_inv [of ps g] by (simp add: compute_inv_def rules_ok_def pl_def)
qed

text \<open>A plan with one redirect, on which the properties are applied.\<close>

definition demo_published :: published where
  "demo_published = \<lparr>p_proto = ''tcp'', p_containerID = ''c1'', p_hostPort = 8, p_containerPort = 9,
     p_bind = ''127.0.0.1'', p_needsRule = True\<rparr>"

definition demo_rule :: rule where
  "demo_rule = \<lparr>r_proto = ''tcp'', r_guestIP = ''g'', r_guestPort = 8, r_containerID = ''c1'', r_containerIP = [],
     r_containerPort = 9, r_keys = [key (published_mapping demo_published ''g'')]\<rparr>"

lemma demo_published_plan:
  "pl_mappings (plan_of (compute_loop ''g'' [demo_published])) = [published_mapping demo_published ''g'']"
  "pl_rules (plan_of (compute_loop ''g'' [demo_published])) = [demo_rule]"
  "pl_pending (plan_of (compute_loop ''g'' [demo_published])) = Map.empty"
  by (simp_all add: plan_of_def compute_loop_def compute_step_def place_rule_def compute_init_def engine_owns_def
      demo_published_def demo_rule_def Let_def)

theorem plan_rules_exclusive_witness:
  "distinct (map rule_gk (pl_rules (plan_of (compute_loop ''g'' [demo_published])))) \<and>
   rule_from demo_published ''g'' demo_rule"
  using plan_rules_exclusive [of "''g''" "[demo_published]"] by (simp add: demo_published_plan)

theorem plan_accounts_for_every_mapping_witness:
  "\<exists>!r. r \<in> {demo_rule} \<and> key (published_mapping demo_published ''g'') \<in> set (r_keys r)"
  using plan_accounts_for_every_mapping [of "''g''" "[demo_published]"]
  unfolding demo_published_plan by (simp add: demo_published_def)

section \<open>Bounds of the published ports\<close>

lemma expand_from_bounds:
  "q \<in> set (expand_from c p proto b i n) \<Longrightarrow> 0 \<le> i \<Longrightarrow>
   uint (pp_hostPort p) + i \<le> p_hostPort q \<and> p_hostPort q \<le> 65535 \<and> p_containerID q = pc_id c \<and>
   p_hostPort q < uint (pp_hostPort p) + i + int n \<and>
   p_containerPort q - uint (pp_containerPort p) = p_hostPort q - uint (pp_hostPort p)"
  by (induction n arbitrary: i) (force simp: Let_def split: if_splits)+

lemma length_expand_from: "length (expand_from c p proto b i n) \<le> n"
  by (induction n arbitrary: i) (auto simp: Let_def)

lemma expand_from_numeral [simp]:
  "expand_from c p proto b i (numeral k) =
     (let hp = uint (pp_hostPort p) + i
      in if hp > 65535 then []
         else \<lparr>p_proto = proto, p_containerID = pc_id c, p_hostPort = hp,
               p_containerPort = uint (pp_containerPort p) + i,
               p_bind = fst b, p_needsRule = snd b\<rparr>
              # expand_from c p proto b (i + 1) (pred_numeral k))"
  by (simp add: numeral_eq_Suc)

text \<open>Fact (bounds): a published port is between 1 and 65535 whatever range the engine reports,
  lies inside that range, comes from a container that is not skipped, and its container port
  is as far into its range as the host port is.\<close>

theorem published_port_bounds:
  assumes "q \<in> set (published_ports guestIP hostIP cs)"
  shows "0 < p_hostPort q \<and> p_hostPort q \<le> 65535 \<and>
    (\<exists>c \<in> set cs. \<exists>p \<in> set (pc_ports c). \<not> container_skipped c \<and> p_containerID q = pc_id c \<and>
       uint (pp_hostPort p) \<le> p_hostPort q \<and>
       p_hostPort q < uint (pp_hostPort p) + max 1 (uint (pp_range p)) \<and>
       p_containerPort q - uint (pp_containerPort p) = p_hostPort q - uint (pp_hostPort p))"
proof -
  obtain c p where cp: "c \<in> set cs" "\<not> container_skipped c" "p \<in> set (pc_ports c)" "pp_hostPort p \<noteq> 0"
      "q \<in> set (expand c p guestIP hostIP)"
    using assms by (auto simp: published_ports_def container_ports_def split: if_splits)
  define n where "n = (if unat (pp_range p) < 1 then 1 else unat (pp_range p))"
  have n: "int n = max 1 (uint (pp_range p))"
  proof -
    have "int (if u < 1 then 1 else u) = max 1 (int u)" for u :: nat by auto
    from this [of "unat (pp_range p)"] show ?thesis unfolding n_def by simp
  qed
  have pos: "0 < uint (pp_hostPort p)"
    using cp(4) by (metis uint_0_iff uint_ge_0 order_le_imp_less_or_eq)
  have "q \<in> set (expand_from c p (if pp_protocol p = [] then ''tcp'' else pp_protocol p)
      (bind_for (pp_hostIP p) guestIP hostIP) 0 n)"
    using cp(5) by (simp only: expand_def n_def Let_def)
  from expand_from_bounds [OF this] have b: "uint (pp_hostPort p) \<le> p_hostPort q" "p_hostPort q \<le> 65535"
      "p_containerID q = pc_id c" "p_hostPort q < uint (pp_hostPort p) + int n"
      "p_containerPort q - uint (pp_containerPort p) = p_hostPort q - uint (pp_hostPort p)"
    by simp_all
  have "\<not> container_skipped c \<and> p_containerID q = pc_id c \<and> uint (pp_hostPort p) \<le> p_hostPort q \<and>
       p_hostPort q < uint (pp_hostPort p) + max 1 (uint (pp_range p)) \<and>
       p_containerPort q - uint (pp_containerPort p) = p_hostPort q - uint (pp_hostPort p)"
    using cp(2) b(1,3,5) b(4) [unfolded n] by simp
  then show ?thesis using cp(1,3) pos b(1,2) by (meson less_le_trans)
qed

theorem published_port_bounds_witness:
  "0 < p_hostPort \<lparr>p_proto = ''udp'', p_containerID = ''c'', p_hostPort = 65535, p_containerPort = 7,
        p_bind = ''0.0.0.0'', p_needsRule = False\<rparr>"
proof -
  let ?p = "\<lparr>pp_hostIP = [], pp_hostPort = 65535, pp_containerPort = 7, pp_protocol = ''udp'', pp_range = 3\<rparr>"
  let ?c = "\<lparr>pc_id = ''c'', pc_names = [], pc_state = ''running'', pc_exited = False, pc_ports = [?p]\<rparr>"
  have "published_ports ''10.0.0.2'' ''0.0.0.0'' [?c] = [\<lparr>p_proto = ''udp'', p_containerID = ''c'', p_hostPort = 65535,
      p_containerPort = 7, p_bind = ''0.0.0.0'', p_needsRule = False\<rparr>]"
    by (simp add: published_ports_def container_ports_def container_skipped_def expand_def bind_for_def
        Let_def)
  then show ?thesis using published_port_bounds [of _ "''10.0.0.2''" "''0.0.0.0''" "[?c]"] by simp
qed

section \<open>Resolving and blocking redirects\<close>

lemma block_rule_apply: "block_rule pend r why k = (if k \<in> set (r_keys r) then Some why else pend k)"
proof -
  have "foldl (\<lambda>m k. m(k \<mapsto> why)) pend ks k = (if k \<in> set ks then Some why else pend k)" for ks
    by (induction ks arbitrary: pend) auto
  then show ?thesis by (simp add: block_rule_def)
qed

abbreviation resolve_step :: "(string \<rightharpoonup> string) \<Rightarrow> rule list \<times> (string \<rightharpoonup> string) \<Rightarrow> rule \<Rightarrow> rule list \<times> (string \<rightharpoonup> string)" where
  "resolve_step ips \<equiv> \<lambda>(kept, pend) r.
     if ip_of ips r = [] then (kept, block_rule pend r no_address)
     else (kept @ [r\<lparr>r_containerIP := ip_of ips r\<rparr>], pend)"

lemma resolve_fold:
  "foldl (resolve_step ips) (kept, pend) rs =
     (kept @ map (\<lambda>r. r\<lparr>r_containerIP := ip_of ips r\<rparr>) (filter (\<lambda>r. ip_of ips r \<noteq> []) rs),
      foldl (\<lambda>m r. block_rule m r no_address) pend (filter (\<lambda>r. ip_of ips r = []) rs))"
  by (induction rs arbitrary: kept pend) auto

lemma block_fold_apply:
  "foldl (\<lambda>m r. block_rule m r why) pend rs k = (if \<exists>r \<in> set rs. k \<in> set (r_keys r) then Some why else pend k)"
  by (induction rs arbitrary: pend) (auto simp: block_rule_apply)

lemma resolve_rules:
  "pl_rules (resolve ips pl) =
     map (\<lambda>r. r\<lparr>r_containerIP := ip_of ips r\<rparr>) (filter (\<lambda>r. ip_of ips r \<noteq> []) (pl_rules pl))"
  by (simp add: resolve_def resolve_fold Let_def)

lemma resolve_pending:
  "pl_pending (resolve ips pl) k =
     (if \<exists>r \<in> set (pl_rules pl). ip_of ips r = [] \<and> k \<in> set (r_keys r) then Some no_address else pl_pending pl k)"
  by (auto simp: resolve_def resolve_fold Let_def block_fold_apply)

text \<open>Fact (safety): resolving addresses loses no mapping: a mapping a redirect served is still
  served by the redirect, now with the address of its own container, or is marked pending;
  the reasons already recorded for other mappings stay; the host legs are untouched; and
  every redirect that is left appears in the anchor text.\<close>

theorem resolve_loses_nothing:
  "pl_mappings (resolve ips pl) = pl_mappings pl \<and>
   (\<forall>r \<in> set (pl_rules pl). \<forall>k \<in> set (r_keys r).
     (\<exists>r' \<in> set (pl_rules (resolve ips pl)). k \<in> set (r_keys r') \<and> r_containerIP r' \<noteq> []
        \<and> ips (r_containerID r') = Some (r_containerIP r'))
     \<or> pl_pending (resolve ips pl) k = Some no_address) \<and>
   (\<forall>k. (\<forall>r \<in> set (pl_rules pl). k \<notin> set (r_keys r)) \<longrightarrow> pl_pending (resolve ips pl) k = pl_pending pl k) \<and>
   anchor_text (pl_rules (resolve ips pl)) =
     concat (map (\<lambda>r. rule_string r @ [CHR 0x0A]) (pl_rules (resolve ips pl)))"
proof (intro conjI ballI)
  show "pl_mappings (resolve ips pl) = pl_mappings pl"
    by (simp add: resolve_def Let_def split: prod.splits)
next
  fix r k
  assume r: "r \<in> set (pl_rules pl)" "k \<in> set (r_keys r)"
  show "(\<exists>r' \<in> set (pl_rules (resolve ips pl)). k \<in> set (r_keys r') \<and> r_containerIP r' \<noteq> []
      \<and> ips (r_containerID r') = Some (r_containerIP r'))
   \<or> pl_pending (resolve ips pl) k = Some no_address"
  proof (cases "ip_of ips r = []")
    case True
    then show ?thesis using r by (auto simp: resolve_pending)
  next
    case False
    then have "ips (r_containerID r) = Some (ip_of ips r)" by (simp add: ip_of_def split: option.splits)
    then show ?thesis using False r by (intro disjI1) (force simp: resolve_rules)
  qed
next
  show "\<forall>k. (\<forall>r \<in> set (pl_rules pl). k \<notin> set (r_keys r)) \<longrightarrow> pl_pending (resolve ips pl) k = pl_pending pl k"
    by (auto simp: resolve_pending)
  show "anchor_text (pl_rules (resolve ips pl)) =
     concat (map (\<lambda>r. rule_string r @ [CHR 0x0A]) (pl_rules (resolve ips pl)))"
    by (auto simp: anchor_text_def resolve_rules intro!: arg_cong [where f = concat])
qed

theorem resolve_loses_nothing_witness:
  "\<exists>r' \<in> set (pl_rules (resolve [''c1'' \<mapsto> ''10.88.0.5''] (plan_of (compute_loop ''g'' [demo_published])))).
     r_containerIP r' = ''10.88.0.5''"
proof -
  let ?pl = "plan_of (compute_loop ''g'' [demo_published])" and ?ips = "[''c1'' \<mapsto> ''10.88.0.5'']"
  let ?k = "key (published_mapping demo_published ''g'')"
  have "pl_pending (resolve ?ips ?pl) ?k \<noteq> Some no_address"
    unfolding resolve_pending demo_published_plan by (simp add: ip_of_def demo_rule_def)
  moreover have "demo_rule \<in> set (pl_rules ?pl)" "?k \<in> set (r_keys demo_rule)"
    by (simp add: demo_published_plan) (simp add: demo_rule_def)
  ultimately have "\<exists>r' \<in> set (pl_rules (resolve ?ips ?pl)). ?k \<in> set (r_keys r') \<and> r_containerIP r' \<noteq> []
      \<and> ?ips (r_containerID r') = Some (r_containerIP r')"
    using resolve_loses_nothing [of ?ips ?pl] by blast
  then show ?thesis by (auto split: if_splits)
qed

lemma block_plan_pending:
  "pl_pending (block_plan why pl) k =
     (if \<exists>r \<in> set (pl_rules pl). k \<in> set (r_keys r) then Some why else pl_pending pl k)"
  "pl_rules (block_plan why pl) = []" "pl_mappings (block_plan why pl) = pl_mappings pl"
  by (auto simp: block_plan_def block_fold_apply)

lemma rule_ids_set: "set (rule_ids seen rs) = (r_containerID ` set rs) - {[]} - seen"
  by (induction rs arbitrary: seen) auto

lemma rule_ids_distinct: "distinct (rule_ids seen rs)"
  by (induction rs arbitrary: seen) (auto simp: rule_ids_set)

lemma container_ids_spec:
  "sorted_wrt (<) (container_ids pl)" "set (container_ids pl) = r_containerID ` set (pl_rules pl) - {[]}"
  by (auto simp: container_ids_def sorted_wrt_less_iff rule_ids_set rule_ids_distinct)

end
