(* ===== verification/Forwarder_Converge.thy ===== *)
theory Forwarder_Converge
  imports Forwarder_Desired
begin

text \<open>
  Port publishing, the mechanics (\<^verbatim>\<open>internal/forwarder/converge.go\<close> and the owned set of
  \<^verbatim>\<open>state.go\<close>). The network provider, the clock and the file system are parameters: an
  environment \<open>fenv\<close> over an arbitrary world \<open>'w\<close> answers \<^verbatim>\<open>List\<close>, \<^verbatim>\<open>Expose\<close>,
  \<^verbatim>\<open>Unexpose\<close> and the write of \<^verbatim>\<open>forwards.json\<close>, each with an error or a success. The
  model's world carries the log of the calls made, oldest first, so that a property can say
  in which order they happen. Each loop of \<^verbatim>\<open>ConvergeWith\<close> is a fold of a step function.
\<close>

section \<open>State and environment\<close>

record fstate =
  st_version :: int
  st_updated :: int
  st_publishAddr :: string
  st_owned :: "entry list"

record perr =
  pe_unsupported :: bool
  pe_msg :: string

datatype call = CList | CExpose pmapping | CUnexpose pmapping | CSave fstate

record 'w fenv =
  fe_list :: "'w \<Rightarrow> (perr + pmapping list) \<times> 'w"
  fe_expose :: "pmapping \<Rightarrow> 'w \<Rightarrow> perr option \<times> 'w"
  fe_unexpose :: "pmapping \<Rightarrow> 'w \<Rightarrow> perr option \<times> 'w"
  fe_write :: "fstate \<Rightarrow> 'w \<Rightarrow> perr option \<times> 'w"
  fe_now :: "'w \<Rightarrow> int"

record 'w fworld =
  fw_env :: 'w
  fw_calls :: "call list"

definition do_list :: "'w fenv \<Rightarrow> 'w fworld \<Rightarrow> (perr + pmapping list) \<times> 'w fworld" where
  "do_list E w = (let (r, s) = fe_list E (fw_env w)
                  in (r, w\<lparr>fw_env := s, fw_calls := fw_calls w @ [CList]\<rparr>))"

definition do_expose :: "'w fenv \<Rightarrow> pmapping \<Rightarrow> 'w fworld \<Rightarrow> perr option \<times> 'w fworld" where
  "do_expose E mp w = (let (r, s) = fe_expose E mp (fw_env w)
                       in (r, w\<lparr>fw_env := s, fw_calls := fw_calls w @ [CExpose mp]\<rparr>))"

definition do_unexpose :: "'w fenv \<Rightarrow> pmapping \<Rightarrow> 'w fworld \<Rightarrow> perr option \<times> 'w fworld" where
  "do_unexpose E mp w = (let (r, s) = fe_unexpose E mp (fw_env w)
                         in (r, w\<lparr>fw_env := s, fw_calls := fw_calls w @ [CUnexpose mp]\<rparr>))"

text \<open>\<^verbatim>\<open>State.Save\<close>: the version and time are stamped first, then the file is replaced.\<close>

definition state_version :: int where "state_version = 1"

definition save_state :: "'w fenv \<Rightarrow> fstate \<Rightarrow> 'w fworld \<Rightarrow> perr option \<times> fstate \<times> 'w fworld" where
  "save_state E st w =
     (let st' = st\<lparr>st_version := state_version, st_updated := fe_now E (fw_env w)\<rparr>;
          (r, s) = fe_write E st' (fw_env w)
      in (r, st', w\<lparr>fw_env := s, fw_calls := fw_calls w @ [CSave st']\<rparr>))"

text \<open>\<^verbatim>\<open>Load\<close>: a missing file is an empty state; version 0 reads as the current one.
  \<open>read\<close> is what \<^verbatim>\<open>os.ReadFile\<close> and \<^verbatim>\<open>json.Unmarshal\<close> give: an error, no file, or a record.\<close>

definition load_state :: "perr + fstate option \<Rightarrow> perr + fstate" where
  "load_state read =
     (case read of
        Inl e \<Rightarrow> Inl e
      | Inr None \<Rightarrow> Inr \<lparr>st_version = state_version, st_updated = 0, st_publishAddr = [], st_owned = []\<rparr>
      | Inr (Some st) \<Rightarrow> Inr (if st_version st = 0 then st\<lparr>st_version := state_version\<rparr> else st))"

definition state_errors :: "fstate \<Rightarrow> entry list" where
  "state_errors st = filter (\<lambda>e. e_error e \<noteq> []) (st_owned st)"

text \<open>\<^verbatim>\<open>State.index\<close>: the position of the entry for a key, the last one if there were several.\<close>

abbreviation ekey :: "entry \<Rightarrow> string" where
  "ekey e \<equiv> key (entry_mapping e)"

definition owned_index :: "entry list \<Rightarrow> string \<Rightarrow> nat option" where
  "owned_index owned k =
     (case filter (\<lambda>i. ekey (owned ! i) = k) [0..<length owned] of
        [] \<Rightarrow> None
      | i # is \<Rightarrow> Some (last (i # is)))"

record cresult =
  res_exposed :: "pmapping list"
  res_unexposed :: "pmapping list"
  res_failed :: "pmapping list"
  res_external :: "pmapping list"
  res_skipped :: "entry list"

definition empty_result :: cresult where
  "empty_result = \<lparr>res_exposed = [], res_unexposed = [], res_failed = [], res_external = [], res_skipped = []\<rparr>"

definition result_changed :: "cresult \<Rightarrow> bool" where
  "result_changed r \<longleftrightarrow>
     length (res_exposed r) + length (res_unexposed r) + length (res_failed r) + length (res_skipped r) > 0"

section \<open>ConvergeWith\<close>

subsection \<open>Owned but no longer desired\<close>

record 'w sacc =
  sa_keep :: "entry list"
  sa_skip :: "(string, entry) gomap"
  sa_dirty :: bool
  sa_res :: cresult
  sa_world :: "'w fworld"

definition stale_step ::
  "'w fenv \<Rightarrow> string set \<Rightarrow> (string, pmapping) gomap \<Rightarrow> int \<Rightarrow> 'w sacc \<Rightarrow> entry \<Rightarrow> 'w sacc" where
  "stale_step E live want now a e =
     (let k = ekey e in
      if map_of want k \<noteq> None then a\<lparr>sa_keep := sa_keep a @ [e]\<rparr>
      else case map_of (sa_skip a) k of
        Some s \<Rightarrow>
          (if e_error e \<noteq> e_error s
           then a\<lparr>sa_keep := sa_keep a @ [e\<lparr>e_error := e_error s, e_since := now\<rparr>],
                  sa_skip := gm_del k (sa_skip a), sa_dirty := True\<rparr>
           else a\<lparr>sa_keep := sa_keep a @ [e], sa_skip := gm_del k (sa_skip a)\<rparr>)
      | None \<Rightarrow>
          (let a1 = a\<lparr>sa_dirty := True\<rparr> in
           if e_remote e = [] then a1
           else if k \<in> live then
             (case do_unexpose E (entry_mapping e) (sa_world a1) of
                (Some err, w) \<Rightarrow>
                  (let msg = ''unexpose: '' @ pe_msg err in
                   if e_error e \<noteq> msg
                   then a1\<lparr>sa_keep := sa_keep a1 @ [e\<lparr>e_error := msg, e_since := now\<rparr>], sa_world := w,
                           sa_res := (sa_res a1)\<lparr>res_failed := res_failed (sa_res a1) @ [entry_mapping e]\<rparr>\<rparr>
                   else a1\<lparr>sa_keep := sa_keep a1 @ [e], sa_world := w\<rparr>)
              | (None, w) \<Rightarrow>
                  a1\<lparr>sa_world := w,
                     sa_res := (sa_res a1)\<lparr>res_unexposed := res_unexposed (sa_res a1) @ [entry_mapping e]\<rparr>\<rparr>)
           else a1\<lparr>sa_res := (sa_res a1)\<lparr>res_unexposed := res_unexposed (sa_res a1) @ [entry_mapping e]\<rparr>\<rparr>))"

definition skip_step :: "int \<Rightarrow> 'w sacc \<Rightarrow> entry \<Rightarrow> 'w sacc" where
  "skip_step now a s0 =
     (let s = s0\<lparr>e_since := now\<rparr>
      in a\<lparr>sa_keep := sa_keep a @ [s], sa_dirty := True,
           sa_res := (sa_res a)\<lparr>res_skipped := res_skipped (sa_res a) @ [s]\<rparr>\<rparr>)"

subsection \<open>Desired but not live\<close>

record macc =
  ma_owned :: "entry list"
  ma_dirty :: bool
  ma_external :: "pmapping list"
  ma_todo :: "pmapping list"
  ma_added :: "entry list"

definition pending_text :: "(string \<rightharpoonup> string) \<Rightarrow> string \<Rightarrow> string" where
  "pending_text pend k = (case pend k of None \<Rightarrow> [] | Some w \<Rightarrow> w)"

definition missing_step ::
  "(string \<rightharpoonup> string) \<Rightarrow> string set \<Rightarrow> (string \<Rightarrow> nat option) \<Rightarrow> int \<Rightarrow> macc \<Rightarrow> string \<times> pmapping \<Rightarrow> macc" where
  "missing_step pend live idx now a kmp =
     (let k = fst kmp; mp = snd kmp in
      if k \<in> live then
        (case idx k of
           None \<Rightarrow> a\<lparr>ma_external := ma_external a @ [mp]\<rparr>
         | Some i \<Rightarrow>
            (let want = pending_text pend k; e = ma_owned a ! i in
             if e_error e \<noteq> want
             then a\<lparr>ma_owned := (ma_owned a)[i := e\<lparr>e_error := want, e_since := now\<rparr>], ma_dirty := True\<rparr>
             else a))
      else
        (case idx k of
           None \<Rightarrow> a\<lparr>ma_added := ma_added a @ [\<lparr>e_proto = m_proto mp, e_local = m_local mp,
                       e_remote = m_remote mp, e_error = [], e_since = now\<rparr>],
                     ma_dirty := True, ma_todo := ma_todo a @ [mp]\<rparr>
         | Some i \<Rightarrow> a\<lparr>ma_todo := ma_todo a @ [mp]\<rparr>))"

subsection \<open>Exposing what is missing\<close>

record 'w eacc =
  ea_owned :: "entry list"
  ea_dirty :: bool
  ea_res :: cresult
  ea_world :: "'w fworld"

text \<open>\<open>set_error\<close>: the status change both branches make through the entry's pointer.\<close>

definition set_error :: "int \<Rightarrow> nat option \<Rightarrow> string \<Rightarrow> entry list \<Rightarrow> entry list" where
  "set_error now i msg owned =
     (case i of None \<Rightarrow> owned
      | Some i \<Rightarrow> owned[i := (owned ! i)\<lparr>e_error := msg, e_since := now\<rparr>])"

definition error_at :: "nat option \<Rightarrow> entry list \<Rightarrow> string" where
  "error_at i owned = (case i of None \<Rightarrow> [] | Some i \<Rightarrow> e_error (owned ! i))"

definition expose_step ::
  "'w fenv \<Rightarrow> (string \<rightharpoonup> string) \<Rightarrow> (string \<Rightarrow> nat option) \<Rightarrow> int \<Rightarrow> 'w eacc \<Rightarrow> pmapping \<Rightarrow> 'w eacc" where
  "expose_step E pend idx now a mp =
     (let i = idx (key mp) in
      case do_expose E mp (ea_world a) of
        (Some err, w) \<Rightarrow>
          (let msg = pe_msg err in
           if error_at i (ea_owned a) \<noteq> msg
           then a\<lparr>ea_owned := set_error now i msg (ea_owned a), ea_dirty := True, ea_world := w,
                  ea_res := (ea_res a)\<lparr>res_failed := res_failed (ea_res a) @ [mp]\<rparr>\<rparr>
           else a\<lparr>ea_world := w\<rparr>)
      | (None, w) \<Rightarrow>
          (let want = pending_text pend (key mp);
               a1 = (if error_at i (ea_owned a) \<noteq> want
                     then a\<lparr>ea_owned := set_error now i want (ea_owned a), ea_dirty := True\<rparr> else a)
           in a1\<lparr>ea_world := w, ea_res := (ea_res a1)\<lparr>res_exposed := res_exposed (ea_res a1) @ [mp]\<rparr>\<rparr>))"

subsection \<open>The whole pass\<close>

definition saving_error :: "perr \<Rightarrow> perr" where
  "saving_error e = e\<lparr>pe_msg := ''saving forwards.json: '' @ pe_msg e\<rparr>"

definition stale_phase ::
  "'w fenv \<Rightarrow> string set \<Rightarrow> (string, pmapping) gomap \<Rightarrow> (string, entry) gomap \<Rightarrow> int \<Rightarrow> entry list \<Rightarrow> 'w fworld \<Rightarrow> 'w sacc" where
  "stale_phase E live want skip now owned w =
     (let a = foldl (stale_step E live want now)
                \<lparr>sa_keep = [], sa_skip = skip, sa_dirty = False, sa_res = empty_result, sa_world = w\<rparr> owned
      in foldl (skip_step now) a (map (\<lambda>k. the (map_of (sa_skip a) k)) (sorted_keys (sa_skip a))))"

definition missing_phase ::
  "(string \<rightharpoonup> string) \<Rightarrow> string set \<Rightarrow> (string, pmapping) gomap \<Rightarrow> int \<Rightarrow> bool \<Rightarrow> entry list \<Rightarrow> macc" where
  "missing_phase pend live want now dirty owned =
     foldl (missing_step pend live (owned_index owned) now)
       \<lparr>ma_owned = owned, ma_dirty = dirty, ma_external = [], ma_todo = [], ma_added = []\<rparr>
       (map (\<lambda>k. (k, the (map_of want k))) (sorted_keys want))"

definition expose_phase ::
  "'w fenv \<Rightarrow> (string \<rightharpoonup> string) \<Rightarrow> int \<Rightarrow> entry list \<Rightarrow> cresult \<Rightarrow> pmapping list \<Rightarrow> 'w fworld \<Rightarrow> 'w eacc" where
  "expose_phase E pend now owned res todo w =
     foldl (expose_step E pend (owned_index owned) now)
       \<lparr>ea_owned = owned, ea_dirty = False, ea_res = res, ea_world = w\<rparr> todo"

text \<open>The rest of the pass after the listing: the owned set is saved when it changed, then
  what is missing is exposed, then the statuses are saved when they changed.\<close>

definition save_and_expose ::
  "'w fenv \<Rightarrow> plan \<Rightarrow> fstate \<Rightarrow> int \<Rightarrow> 'w sacc \<Rightarrow> macc \<Rightarrow> (cresult \<times> perr option) \<times> fstate \<times> 'w fworld" where
  "save_and_expose E pl st now a m =
     (let res = (sa_res a)\<lparr>res_external := ma_external m\<rparr>;
          st1 = st\<lparr>st_owned := ma_owned m @ ma_added m\<rparr>
      in case (if ma_dirty m then save_state E st1 (sa_world a) else (None, st1, sa_world a)) of
           (Some err, st2, w2) \<Rightarrow> ((res, Some (saving_error err)), st2, w2)
         | (None, st2, w2) \<Rightarrow>
            (let x = expose_phase E (pl_pending pl) now (st_owned st2) res (ma_todo m) w2;
                 st3 = st2\<lparr>st_owned := ea_owned x\<rparr>
             in if ea_dirty x then
                  (case save_state E st3 (ea_world x) of
                     (Some err, st4, w4) \<Rightarrow> ((ea_res x, Some (saving_error err)), st4, w4)
                   | (None, st4, w4) \<Rightarrow> ((ea_res x, None), st4, w4))
                else ((ea_res x, None), st3, ea_world x)))"

definition converge_with ::
  "'w fenv \<Rightarrow> plan \<Rightarrow> fstate \<Rightarrow> 'w fworld \<Rightarrow> (cresult \<times> perr option) \<times> fstate \<times> 'w fworld" where
  "converge_with E pl st w =
     (case do_list E w of
        (Inl err, w1) \<Rightarrow>
          ((empty_result, Some (err\<lparr>pe_msg := ''listing provider mappings: '' @ pe_msg err\<rparr>)), st, w1)
      | (Inr liveList, w1) \<Rightarrow>
          (let live = key ` set liveList;
               want = gm_of key (pl_mappings pl);
               skip = gm_of ekey (pl_unpublishable pl);
               now = fe_now E (fw_env w1);
               a = stale_phase E live want skip now (st_owned st) w1;
               m = missing_phase (pl_pending pl) live want now (sa_dirty a) (sa_keep a)
           in save_and_expose E pl st now a m))"

definition converge ::
  "'w fenv \<Rightarrow> pmapping list \<Rightarrow> fstate \<Rightarrow> 'w fworld \<Rightarrow> (cresult \<times> perr option) \<times> fstate \<times> 'w fworld" where
  "converge E ms st w =
     converge_with E \<lparr>pl_mappings = ms, pl_rules = [], pl_unpublishable = [], pl_pending = Map.empty\<rparr> st w"

section \<open>Release\<close>

fun release_loop :: "'w fenv \<Rightarrow> string set \<Rightarrow> entry list \<Rightarrow> string list \<Rightarrow> 'w fworld \<Rightarrow> string list \<times> 'w fworld" where
  "release_loop E live [] errs w = (errs, w)"
| "release_loop E live (e # es) errs w =
     (if e_remote e = [] \<or> ekey e \<notin> live then release_loop E live es errs w
      else case do_unexpose E (entry_mapping e) w of
          (Some err, w') \<Rightarrow>
            release_loop E live es
              (errs @ [e_proto e @ '' '' @ e_local e @ '' -> '' @ e_remote e @ '': '' @ pe_msg err]) w'
        | (None, w') \<Rightarrow> release_loop E live es errs w')"

definition release :: "'w fenv \<Rightarrow> perr + fstate \<Rightarrow> 'w fworld \<Rightarrow> perr option \<times> fstate option \<times> 'w fworld" where
  "release E loaded w =
     (case loaded of
        Inl e \<Rightarrow> (Some e, None, w)
      | Inr st \<Rightarrow>
         (if st_owned st = [] then (None, None, w)
          else case do_list E w of
              (Inl err, w1) \<Rightarrow> (Some (err\<lparr>pe_msg := ''forwarder: listing provider mappings: '' @ pe_msg err\<rparr>), None, w1)
            | (Inr liveList, w1) \<Rightarrow>
                (let (errs, w2) = release_loop E (key ` set liveList) (st_owned st) [] w1;
                     (serr, st', w3) = save_state E (st\<lparr>st_owned := []\<rparr>) w2;
                     errs' = errs @ (case serr of None \<Rightarrow> [] | Some e \<Rightarrow> [pe_msg e])
                 in (if errs' = [] then None
                     else Some \<lparr>pe_unsupported = False,
                                pe_msg = ''forwarder: releasing mappings: '' @ join ''; '' errs'\<rparr>,
                     Some st', w3))))"

section \<open>What each phase does\<close>

lemma do_simps [simp]:
  "fw_calls (snd (do_list E w)) = fw_calls w @ [CList]"
  "fw_calls (snd (do_expose E mp w)) = fw_calls w @ [CExpose mp]"
  "fw_calls (snd (do_unexpose E mp w)) = fw_calls w @ [CUnexpose mp]"
  by (auto simp: do_list_def do_expose_def do_unexpose_def Let_def split: prod.splits)

lemma do_calls:
  "do_list E w = (r, w') \<Longrightarrow> fw_calls w' = fw_calls w @ [CList]"
  "do_expose E mp w = (x, w') \<Longrightarrow> fw_calls w' = fw_calls w @ [CExpose mp]"
  "do_unexpose E mp w = (x, w') \<Longrightarrow> fw_calls w' = fw_calls w @ [CUnexpose mp]"
  by (auto simp: do_list_def do_expose_def do_unexpose_def Let_def split: prod.splits)

lemma save_state_simps:
  "save_state E st w = (r, st', w') \<Longrightarrow>
     fw_calls w' = fw_calls w @ [CSave st'] \<and> st_owned st' = st_owned st \<and> st_publishAddr st' = st_publishAddr st"
  by (auto simp: save_state_def Let_def split: prod.splits)

subsection \<open>The index\<close>

lemma owned_index_Some:
  assumes "owned_index owned k = Some i"
  shows "i < length owned \<and> ekey (owned ! i) = k"
proof -
  let ?l = "filter (\<lambda>i. ekey (owned ! i) = k) [0..<length owned]"
  have "?l \<noteq> [] \<and> last ?l = i"
    using assms by (auto simp: owned_index_def split: list.splits if_splits)
  then have "i \<in> set ?l" using last_in_set by blast
  then show ?thesis by simp
qed

lemma owned_index_None: "owned_index owned k = None \<longleftrightarrow> k \<notin> ekey ` set owned"
proof -
  have "owned_index owned k = None \<longleftrightarrow> filter (\<lambda>i. ekey (owned ! i) = k) [0..<length owned] = []"
    by (simp add: owned_index_def split: list.splits)
  also have "\<dots> \<longleftrightarrow> (\<forall>i < length owned. ekey (owned ! i) \<noteq> k)"
    by (auto simp: filter_empty_conv)
  also have "\<dots> \<longleftrightarrow> k \<notin> ekey ` set owned"
    by (metis (mono_tags, lifting) image_iff in_set_conv_nth)
  finally show ?thesis .
qed

lemma owned_index_ex: "k \<in> ekey ` set owned \<Longrightarrow> \<exists>i. owned_index owned k = Some i"
  using owned_index_None by (metis not_Some_eq)

text \<open>A status change keeps the mapping of every entry.\<close>

lemma entry_mapping_status [simp]:
  "entry_mapping (e\<lparr>e_error := x\<rparr>) = entry_mapping e" "entry_mapping (e\<lparr>e_since := t\<rparr>) = entry_mapping e"
  by (simp_all add: entry_mapping_def)

lemma map_entry_mapping_update [simp]:
  "map entry_mapping (owned[i := (owned ! i)\<lparr>e_error := x, e_since := t\<rparr>]) = map entry_mapping owned"
proof (cases "i < length owned")
  case True
  then show ?thesis by (simp add: map_update list_update_same_conv)
next
  case False
  then have "owned[i := (owned ! i)\<lparr>e_error := x, e_since := t\<rparr>] = owned"
    by (simp add: list_update_beyond)
  then show ?thesis by simp
qed

lemma set_error_mappings [simp]: "map entry_mapping (set_error now i msg owned) = map entry_mapping owned"
  by (simp add: set_error_def split: option.splits)

subsection \<open>The stale phase\<close>

text \<open>\<open>unexposes\<close>: calls that remove entries of \<open>owned\<close> that are live and not wanted.\<close>

definition unexposes :: "entry list \<Rightarrow> string set \<Rightarrow> (string, pmapping) gomap \<Rightarrow> call list \<Rightarrow> bool" where
  "unexposes owned live want cs \<longleftrightarrow>
     (\<forall>c \<in> set cs. \<exists>e \<in> set owned. c = CUnexpose (entry_mapping e) \<and> ekey e \<in> live \<and>
        map_of want (ekey e) = None \<and> e_remote e \<noteq> [])"

lemma unexposes_Nil [simp]: "unexposes owned live want []"
  by (simp add: unexposes_def)

lemma unexposes_append [simp]:
  "unexposes owned live want (xs @ ys) \<longleftrightarrow> unexposes owned live want xs \<and> unexposes owned live want ys"
  by (auto simp: unexposes_def)

text \<open>One stale step: what it keeps, and what it calls.\<close>

lemma stale_step_effect:
  "\<exists>cs. fw_calls (sa_world (stale_step E live want now a e)) = fw_calls (sa_world a) @ cs \<and>
      (cs = [] \<or> cs = [CUnexpose (entry_mapping e)] \<and> ekey e \<in> live \<and> map_of want (ekey e) = None \<and> e_remote e \<noteq> [])"
  "\<exists>ks. map entry_mapping (sa_keep (stale_step E live want now a e)) = map entry_mapping (sa_keep a) @ ks \<and>
      (ks = [] \<or> ks = [entry_mapping e]) \<and> (map_of want (ekey e) \<noteq> None \<longrightarrow> ks = [entry_mapping e])"
  by (auto simp: stale_step_def Let_def dest: do_calls split: option.splits prod.splits if_splits)

lemma stale_fold_calls:
  "set es \<subseteq> set owned \<Longrightarrow>
   \<exists>cs. fw_calls (sa_world (foldl (stale_step E live want now) a es)) = fw_calls (sa_world a) @ cs \<and>
        unexposes owned live want cs"
proof (induction es arbitrary: a)
  case (Cons e es)
  obtain c1 where c1: "fw_calls (sa_world (stale_step E live want now a e)) = fw_calls (sa_world a) @ c1"
      "unexposes owned live want c1"
    using stale_step_effect(1) [of E live want now a e] Cons.prems unfolding unexposes_def by fastforce
  obtain c2 where "fw_calls (sa_world (foldl (stale_step E live want now) (stale_step E live want now a e) es))
      = fw_calls (sa_world (stale_step E live want now a e)) @ c2" "unexposes owned live want c2"
    using Cons.IH Cons.prems by (metis insert_subset list.simps(15))
  with c1 show ?case by (intro exI [of _ "c1 @ c2"]) simp
qed simp

lemma set_chain:
  "A \<subseteq> K \<union> B \<Longrightarrow> B \<union> S' \<subseteq> R \<Longrightarrow> S' = S \<union> K \<Longrightarrow> A \<union> S \<subseteq> R"
  "R \<subseteq> S' \<union> B \<Longrightarrow> S' = S \<union> K \<Longrightarrow> K \<subseteq> {x} \<Longrightarrow> R \<subseteq> S \<union> insert x B"
  by blast+

lemma stale_step_keep:
  obtains ks where "map ekey (sa_keep (stale_step E live want now a e)) = map ekey (sa_keep a) @ map key ks"
    and "entry_mapping ` set (sa_keep (stale_step E live want now a e)) = entry_mapping ` set (sa_keep a) \<union> set ks"
    and "set ks \<subseteq> {entry_mapping e}" "ks = [] \<or> ks = [entry_mapping e]"
    and "map_of want (ekey e) \<noteq> None \<longrightarrow> ks = [entry_mapping e]"
proof -
  let ?a = "stale_step E live want now a e"
  obtain ks where ks: "map entry_mapping (sa_keep ?a) = map entry_mapping (sa_keep a) @ ks"
      "ks = [] \<or> ks = [entry_mapping e]" "map_of want (ekey e) \<noteq> None \<longrightarrow> ks = [entry_mapping e]"
    using stale_step_effect(2) by blast
  have "map ekey (sa_keep ?a) = map ekey (sa_keep a) @ map key ks"
    using arg_cong [OF ks(1), of "map key"] by (simp add: comp_def)
  moreover have "entry_mapping ` set (sa_keep ?a) = entry_mapping ` set (sa_keep a) \<union> set ks"
    using arg_cong [OF ks(1), of set] by simp
  ultimately show ?thesis using that [of ks] ks(2,3) by auto
qed

lemma stale_fold_keep_sub:
  "entry_mapping ` set (sa_keep (foldl (stale_step E live want now) a es))
     \<subseteq> entry_mapping ` set (sa_keep a) \<union> entry_mapping ` set es"
proof (induction es arbitrary: a)
  case (Cons e es)
  obtain ks where ks: "entry_mapping ` set (sa_keep (stale_step E live want now a e)) = entry_mapping ` set (sa_keep a) \<union> set ks"
      "set ks \<subseteq> {entry_mapping e}"
    by (rule stale_step_keep)
  show ?case
    unfolding foldl.simps list.set image_insert by (rule set_chain(2) [OF Cons.IH ks])
qed simp

lemma stale_fold_keep_sup:
  "entry_mapping ` {e \<in> set es. map_of want (ekey e) \<noteq> None} \<union> entry_mapping ` set (sa_keep a)
     \<subseteq> entry_mapping ` set (sa_keep (foldl (stale_step E live want now) a es))"
proof (induction es arbitrary: a)
  case (Cons e es)
  obtain ks where ks: "entry_mapping ` set (sa_keep (stale_step E live want now a e)) = entry_mapping ` set (sa_keep a) \<union> set ks"
      "map_of want (ekey e) \<noteq> None \<longrightarrow> ks = [entry_mapping e]"
    by (rule stale_step_keep)
  have "entry_mapping ` {e' \<in> set (e # es). map_of want (ekey e') \<noteq> None} \<subseteq>
      set ks \<union> entry_mapping ` {e' \<in> set es. map_of want (ekey e') \<noteq> None}"
    using ks(2) by auto
  then show ?case
    unfolding foldl.simps using Cons.IH ks(1) by (rule set_chain(1))
qed simp

lemma distinct_chain:
  "distinct (A @ x # B) \<Longrightarrow> K = [] \<or> K = [x] \<Longrightarrow> distinct ((A @ K) @ B)"
  by auto

lemma stale_fold_distinct:
  "distinct (map ekey (sa_keep a) @ map ekey es) \<Longrightarrow>
     distinct (map ekey (sa_keep (foldl (stale_step E live want now) a es)))"
proof (induction es arbitrary: a)
  case (Cons e es)
  obtain ks where ks: "map ekey (sa_keep (stale_step E live want now a e)) = map ekey (sa_keep a) @ map key ks"
      "ks = [] \<or> ks = [entry_mapping e]"
    by (rule stale_step_keep)
  have "distinct ((map ekey (sa_keep a) @ map key ks) @ map ekey es)"
    by (rule distinct_chain [of _ "ekey e"]) (use Cons.prems ks(2) in auto)
  then show ?case unfolding foldl.simps by (intro Cons.IH) (simp only: ks(1))
qed simp

text \<open>The tracked flag: an owned entry is dropped or changed only together with the dirty bit.\<close>

subsection \<open>The missing phase\<close>

text \<open>A key whose entry is owned, looked up through the index.\<close>

definition owned_keys :: "entry list \<Rightarrow> string set" where
  "owned_keys owned = ekey ` set owned"

definition new_entry :: "int \<Rightarrow> pmapping \<Rightarrow> entry" where
  "new_entry now mp = \<lparr>e_proto = m_proto mp, e_local = m_local mp, e_remote = m_remote mp, e_error = [], e_since = now\<rparr>"

lemma entry_mapping_new [simp]: "entry_mapping (new_entry now mp) = mp"
  by (simp add: entry_mapping_def new_entry_def)

lemma missing_step_fields:
  "ma_todo (missing_step pend live (owned_index o0) now a kmp) =
     ma_todo a @ (if fst kmp \<in> live then [] else [snd kmp])"
  "ma_added (missing_step pend live (owned_index o0) now a kmp) =
     ma_added a @ (if fst kmp \<in> live \<or> fst kmp \<in> owned_keys o0 then [] else [new_entry now (snd kmp)])"
  "ma_external (missing_step pend live (owned_index o0) now a kmp) =
     ma_external a @ (if fst kmp \<in> live \<and> fst kmp \<notin> owned_keys o0 then [snd kmp] else [])"
  "map entry_mapping (ma_owned (missing_step pend live (owned_index o0) now a kmp)) = map entry_mapping (ma_owned a)"
  using owned_index_None [of o0 "fst kmp"]
  by (auto simp: missing_step_def Let_def new_entry_def owned_keys_def split: option.splits)

lemma missing_fold_fields:
  "ma_todo (foldl (missing_step pend live (owned_index o0) now) a kmps) =
     ma_todo a @ map snd (filter (\<lambda>km. fst km \<notin> live) kmps)"
  "ma_added (foldl (missing_step pend live (owned_index o0) now) a kmps) =
     ma_added a @ map (new_entry now \<circ> snd) (filter (\<lambda>km. fst km \<notin> live \<and> fst km \<notin> owned_keys o0) kmps)"
  "ma_external (foldl (missing_step pend live (owned_index o0) now) a kmps) =
     ma_external a @ map snd (filter (\<lambda>km. fst km \<in> live \<and> fst km \<notin> owned_keys o0) kmps)"
  "map entry_mapping (ma_owned (foldl (missing_step pend live (owned_index o0) now) a kmps)) = map entry_mapping (ma_owned a)"
  by (induction kmps arbitrary: a) (auto simp: missing_step_fields)

lemma missing_fold_dirty:
  "ma_dirty a \<Longrightarrow> ma_dirty (foldl (missing_step pend live idx now) a kmps)"
  "ma_added a = [] \<or> ma_dirty a \<Longrightarrow>
     ma_added (foldl (missing_step pend live idx now) a kmps) = [] \<or> ma_dirty (foldl (missing_step pend live idx now) a kmps)"
  by (induction kmps arbitrary: a) (auto simp: missing_step_def Let_def split: option.splits)

subsection \<open>The expose phase\<close>

lemma expose_step_fields:
  "fw_calls (ea_world (expose_step E pend idx now a mp)) = fw_calls (ea_world a) @ [CExpose mp]"
  "map entry_mapping (ea_owned (expose_step E pend idx now a mp)) = map entry_mapping (ea_owned a)"
  by (auto simp: expose_step_def Let_def dest: do_calls split: prod.splits option.splits)

lemma expose_fold_fields:
  "fw_calls (ea_world (foldl (expose_step E pend idx now) a todo)) = fw_calls (ea_world a) @ map CExpose todo"
  "map entry_mapping (ea_owned (foldl (expose_step E pend idx now) a todo)) = map entry_mapping (ea_owned a)"
  by (induction todo arbitrary: a) (auto simp: expose_step_fields)

section \<open>The calls of a pass\<close>

definition live_keys :: "'w fenv \<Rightarrow> 'w fworld \<Rightarrow> string set" where
  "live_keys E w = (case fst (do_list E w) of Inl _ \<Rightarrow> {} | Inr l \<Rightarrow> key ` set l)"

definition wanted :: "plan \<Rightarrow> (string, pmapping) gomap" where
  "wanted pl = gm_of key (pl_mappings pl)"

lemma wanted_get: "map_of (wanted pl) k = Some mp \<Longrightarrow> mp \<in> set (pl_mappings pl) \<and> key mp = k"
  unfolding wanted_def by (rule gm_of_get)

lemma wanted_None: "map_of (wanted pl) k = None \<longleftrightarrow> k \<notin> key ` set (pl_mappings pl)"
  unfolding wanted_def map_of_eq_None_iff keys_gm_of by (rule refl)

text \<open>The mappings still to expose, in the order of their keys.\<close>

definition todo_of :: "'w fenv \<Rightarrow> plan \<Rightarrow> 'w fworld \<Rightarrow> pmapping list" where
  "todo_of E pl w =
     map (\<lambda>k. the (map_of (wanted pl) k)) (filter (\<lambda>k. k \<notin> live_keys E w) (sorted_keys (wanted pl)))"

lemma set_sorted_keys [simp]: "set (sorted_keys m) = fst ` set m"
  by (simp add: sorted_keys_def)

lemma sorted_keys_sorted: "sorted_wrt (<) (sorted_keys m)"
  by (simp add: sorted_keys_def sorted_wrt_less_iff)

lemma wanted_the: "k \<in> fst ` set (wanted pl) \<Longrightarrow> key (the (map_of (wanted pl) k)) = k \<and> the (map_of (wanted pl) k) \<in> set (pl_mappings pl)"
proof -
  assume "k \<in> fst ` set (wanted pl)"
  then obtain mp where "map_of (wanted pl) k = Some mp"
    using gm_of_get_ex [of k key "pl_mappings pl"] unfolding wanted_def keys_gm_of by blast
  then show ?thesis using wanted_get [of pl k mp] by simp
qed

lemma todo_of_spec:
  "map key (todo_of E pl w) = filter (\<lambda>k. k \<notin> live_keys E w) (sorted_keys (wanted pl))"
  "set (todo_of E pl w) \<subseteq> set (pl_mappings pl)"
proof -
  have "map key (todo_of E pl w) = map (\<lambda>k. key (the (map_of (wanted pl) k))) (filter (\<lambda>k. k \<notin> live_keys E w) (sorted_keys (wanted pl)))"
    by (simp add: todo_of_def comp_def)
  also have "\<dots> = map id (filter (\<lambda>k. k \<notin> live_keys E w) (sorted_keys (wanted pl)))"
    by (rule map_cong [OF refl]) (simp add: wanted_the)
  finally show "map key (todo_of E pl w) = filter (\<lambda>k. k \<notin> live_keys E w) (sorted_keys (wanted pl))" by simp
  show "set (todo_of E pl w) \<subseteq> set (pl_mappings pl)"
    unfolding todo_of_def set_map set_filter set_sorted_keys using wanted_the [of _ pl] by blast
qed

lemma todo_of_keys:
  "sorted_wrt (<) (map key (todo_of E pl w))"
  "key ` set (todo_of E pl w) = key ` set (pl_mappings pl) - live_keys E w"
proof -
  show "sorted_wrt (<) (map key (todo_of E pl w))"
    by (simp add: todo_of_spec sorted_wrt_filter sorted_keys_sorted)
  have "set (map key (todo_of E pl w)) = fst ` set (wanted pl) - live_keys E w"
    by (auto simp: todo_of_spec(1))
  then show "key ` set (todo_of E pl w) = key ` set (pl_mappings pl) - live_keys E w"
    by (simp add: wanted_def)
qed

text \<open>The stale phase without the dirty flag dropped nothing.\<close>

lemma stale_fold_clean:
  "\<not> sa_dirty (foldl (stale_step E live want now) a es) \<Longrightarrow>
     \<not> sa_dirty a \<and> map entry_mapping (sa_keep (foldl (stale_step E live want now) a es)) = map entry_mapping (sa_keep a @ es)"
proof (induction es arbitrary: a)
  case (Cons e es)
  have "\<not> sa_dirty (stale_step E live want now a e) \<and>
      map entry_mapping (sa_keep (foldl (stale_step E live want now) (stale_step E live want now a e) es))
      = map entry_mapping (sa_keep (stale_step E live want now a e) @ es)"
    using Cons by simp
  moreover have "\<not> sa_dirty (stale_step E live want now a e) \<Longrightarrow>
      \<not> sa_dirty a \<and> map entry_mapping (sa_keep (stale_step E live want now a e)) = map entry_mapping (sa_keep a) @ [entry_mapping e]"
    by (auto simp: stale_step_def Let_def split: option.splits prod.splits if_splits)
  ultimately show ?case by simp
qed simp

lemma skip_fold_fields:
  "fw_calls (sa_world (foldl (skip_step now) a ss)) = fw_calls (sa_world a)"
  "sa_dirty (foldl (skip_step now) a ss) \<longleftrightarrow> sa_dirty a \<or> ss \<noteq> []"
  by (induction ss arbitrary: a) (auto simp: skip_step_def Let_def)

lemma stale_phase_calls:
  "\<exists>us. fw_calls (sa_world (stale_phase E live want skip now owned w)) = fw_calls w @ us \<and> unexposes owned live want us"
  unfolding stale_phase_def Let_def skip_fold_fields
  using stale_fold_calls [OF order_refl, of E live want now "\<lparr>sa_keep = [], sa_skip = skip, sa_dirty = False, sa_res = empty_result, sa_world = w\<rparr>" owned]
  by simp

lemma stale_phase_clean:
  "\<not> sa_dirty (stale_phase E live want skip now owned w) \<Longrightarrow>
     map entry_mapping (sa_keep (stale_phase E live want skip now owned w)) = map entry_mapping owned"
  using stale_fold_clean [of E live want now "\<lparr>sa_keep = [], sa_skip = skip, sa_dirty = False, sa_res = empty_result, sa_world = w\<rparr>" owned]
  by (simp add: stale_phase_def Let_def skip_fold_fields)

text \<open>The shape of a pass. The disk is what the last save of \<open>cs\<close> wrote, or the record the
  pass started from.\<close>

definition saved_in :: "call list \<Rightarrow> entry list \<Rightarrow> entry list" where
  "saved_in cs owned = (case cs of [CSave s] \<Rightarrow> st_owned s | _ \<Rightarrow> owned)"

lemma saved_in_simps: "saved_in [] owned = owned" "saved_in [CSave s] owned = st_owned s"
  by (simp_all add: saved_in_def)

definition pass_shape :: "entry list \<Rightarrow> string set \<Rightarrow> (string, pmapping) gomap \<Rightarrow> pmapping list \<Rightarrow> call list \<Rightarrow> bool" where
  "pass_shape owned live want todo cs \<longleftrightarrow>
     (\<exists>us mid xs fin. cs = CList # us @ mid @ map CExpose xs @ fin \<and> unexposes owned live want us \<and>
        (mid = [] \<or> (\<exists>s. mid = [CSave s])) \<and> (fin = [] \<or> (\<exists>s. fin = [CSave s])) \<and>
        (xs = [] \<or> xs = todo) \<and> key ` set xs \<subseteq> ekey ` set (saved_in mid owned))"

text \<open>What the bookkeeping between the listing and the first expose gives.\<close>

lemma missing_phase_fields:
  "ma_todo (missing_phase pend (live_keys E w) (wanted pl) now d owned) = todo_of E pl w"
  "map entry_mapping (ma_owned (missing_phase pend live want now d owned)) = map entry_mapping owned"
  "map entry_mapping (ma_added (missing_phase pend live (wanted pl) now d owned)) =
     map (\<lambda>k. the (map_of (wanted pl) k)) (filter (\<lambda>k. k \<notin> live \<and> k \<notin> owned_keys owned) (sorted_keys (wanted pl)))"
  "d \<Longrightarrow> ma_dirty (missing_phase pend live want now d owned)"
  by (simp_all add: missing_phase_def missing_fold_fields(1,2,4) missing_fold_dirty(1) todo_of_def filter_map comp_def)

lemma missing_phase_dirty:
  "ma_added (missing_phase pend live want now d owned) = [] \<or> ma_dirty (missing_phase pend live want now d owned)"
  unfolding missing_phase_def by (rule missing_fold_dirty(2)) simp

lemma ekeys_mapping: "map entry_mapping xs = map entry_mapping ys \<Longrightarrow> ekey ` set xs = ekey ` set ys"
proof -
  assume "map entry_mapping xs = map entry_mapping ys"
  then have "entry_mapping ` set xs = entry_mapping ` set ys" by (metis set_map)
  then have "key ` entry_mapping ` set xs = key ` entry_mapping ` set ys" by simp
  then show ?thesis by (simp add: image_image)
qed

lemma todo_recorded:
  assumes m_def: "m = missing_phase pend (live_keys E w) (wanted pl) now d owned"
  shows "key ` set (todo_of E pl w) \<subseteq> ekey ` set (ma_owned m @ ma_added m)"
proof
  fix k
  assume "k \<in> key ` set (todo_of E pl w)"
  then have k: "k \<in> fst ` set (wanted pl)" "k \<notin> live_keys E w"
    unfolding todo_of_keys(2) by (simp_all add: wanted_def)
  show "k \<in> ekey ` set (ma_owned m @ ma_added m)"
  proof (cases "k \<in> owned_keys owned")
    case True
    then have "k \<in> ekey ` set (ma_owned m)"
      unfolding owned_keys_def m_def using ekeys_mapping [OF missing_phase_fields(2)] by blast
    then show ?thesis by auto
  next
    case False
    then have "the (map_of (wanted pl) k) \<in> set (map entry_mapping (ma_added m))"
      using k unfolding m_def missing_phase_fields(3) by auto
    moreover have "key (the (map_of (wanted pl) k)) = k"
      using wanted_the [OF k(1)] by simp
    ultimately show ?thesis by (auto simp: image_iff)
  qed
qed

lemma pass_shapeI:
  "unexposes owned live want us \<Longrightarrow> mid = [] \<or> (\<exists>s. mid = [CSave s]) \<Longrightarrow> fin = [] \<or> (\<exists>s. fin = [CSave s]) \<Longrightarrow>
   xs = [] \<or> xs = todo \<Longrightarrow> key ` set xs \<subseteq> ekey ` set (saved_in mid owned) \<Longrightarrow>
   cs = CList # us @ mid @ map CExpose xs @ fin \<Longrightarrow> pass_shape owned live want todo cs"
  unfolding pass_shape_def by blast

lemma pass_shape_list: "pass_shape owned live want todo [CList]"
  by (rule pass_shapeI [of _ _ _ "[]" "[]" "[]" "[]"]) simp_all

lemma expose_phase_fields:
  "fw_calls (ea_world (expose_phase E pend now owned res todo w)) = fw_calls w @ map CExpose todo"
  "map entry_mapping (ea_owned (expose_phase E pend now owned res todo w)) = map entry_mapping owned"
  by (simp_all add: expose_phase_def expose_fold_fields)

text \<open>The calls after the removals.\<close>

lemma save_and_expose_calls:
  "\<exists>mid xs fin. fw_calls (snd (snd (save_and_expose E pl st now a m))) = fw_calls (sa_world a) @ mid @ map CExpose xs @ fin \<and>
     (mid = [] \<and> \<not> ma_dirty m \<or> (\<exists>s. mid = [CSave s] \<and> st_owned s = ma_owned m @ ma_added m)) \<and>
     (fin = [] \<or> (\<exists>s. fin = [CSave s])) \<and> (xs = [] \<or> xs = ma_todo m)"
proof -
  define st1 where "st1 = st\<lparr>st_owned := ma_owned m @ ma_added m\<rparr>"
  define sv where "sv = (if ma_dirty m then save_state E st1 (sa_world a) else (None, st1, sa_world a))"
  obtain e st2 w2 where svd: "sv = (e, st2, w2)" by (cases sv) auto
  obtain mid where mid: "fw_calls w2 = fw_calls (sa_world a) @ mid"
      "mid = [] \<and> \<not> ma_dirty m \<or> (\<exists>s. mid = [CSave s] \<and> st_owned s = ma_owned m @ ma_added m)"
    using svd save_state_simps [of E st1 "sa_world a" e st2 w2] unfolding sv_def st1_def
    by (auto split: if_splits)
  show ?thesis
  proof (cases e)
    case (Some err)
    then have "snd (snd (save_and_expose E pl st now a m)) = w2"
      using svd unfolding save_and_expose_def Let_def st1_def [symmetric] sv_def [symmetric] by simp
    then show ?thesis using mid by (intro exI [of _ mid] exI [of _ "[]"]) simp
  next
    case None
    define x where "x = expose_phase E (pl_pending pl) now (st_owned st2) ((sa_res a)\<lparr>res_external := ma_external m\<rparr>) (ma_todo m) w2"
    obtain e4 st4 w4 where s4: "save_state E (st2\<lparr>st_owned := ea_owned x\<rparr>) (ea_world x) = (e4, st4, w4)"
      by (metis prod_cases3)
    have "snd (snd (save_and_expose E pl st now a m)) = (if ea_dirty x then w4 else ea_world x)"
      using svd s4 None
      unfolding save_and_expose_def Let_def st1_def [symmetric] sv_def [symmetric]
      by (simp add: x_def [symmetric] split: option.splits)
    moreover have "fw_calls (ea_world x) = fw_calls (sa_world a) @ mid @ map CExpose (ma_todo m)"
      unfolding x_def by (simp add: expose_phase_fields mid)
    moreover have "fw_calls w4 = fw_calls (ea_world x) @ [CSave st4]"
      using save_state_simps [OF s4] by simp
    ultimately show ?thesis using mid(2)
      by (intro exI [of _ mid] exI [of _ "ma_todo m"] exI [of _ "if ea_dirty x then [CSave st4] else []"]) simp
  qed
qed

lemma converge_with_cases:
  obtains (failed) err w1 where "do_list E w = (Inl err, w1)" "snd (converge_with E pl st w) = (st, w1)"
      "fst (converge_with E pl st w) = (empty_result, Some (err\<lparr>pe_msg := ''listing provider mappings: '' @ pe_msg err\<rparr>))"
  | (listed) liveList w1 now a m where "do_list E w = (Inr liveList, w1)" "live_keys E w = key ` set liveList"
      "a = stale_phase E (live_keys E w) (wanted pl) (gm_of ekey (pl_unpublishable pl)) now (st_owned st) w1"
      "m = missing_phase (pl_pending pl) (live_keys E w) (wanted pl) now (sa_dirty a) (sa_keep a)"
      "converge_with E pl st w = save_and_expose E pl st now a m"
proof (cases "do_list E w")
  case (Pair r w1)
  show thesis
  proof (cases r)
    case (Inl err)
    then show thesis using Pair by (intro failed [of err w1]) (simp_all add: converge_with_def)
  next
    case (Inr liveList)
    have live: "live_keys E w = key ` set liveList"
      unfolding live_keys_def Pair Inr by simp
    show thesis
    proof (rule listed [OF _ live refl refl])
      show "do_list E w = (Inr liveList, w1)" using Pair Inr by simp
      show "converge_with E pl st w = save_and_expose E pl st (fe_now E (fw_env w1))
          (stale_phase E (live_keys E w) (wanted pl) (gm_of ekey (pl_unpublishable pl)) (fe_now E (fw_env w1)) (st_owned st) w1)
          (missing_phase (pl_pending pl) (live_keys E w) (wanted pl) (fe_now E (fw_env w1))
            (sa_dirty (stale_phase E (live_keys E w) (wanted pl) (gm_of ekey (pl_unpublishable pl)) (fe_now E (fw_env w1)) (st_owned st) w1))
            (sa_keep (stale_phase E (live_keys E w) (wanted pl) (gm_of ekey (pl_unpublishable pl)) (fe_now E (fw_env w1)) (st_owned st) w1)))"
        unfolding converge_with_def Pair Inr Let_def live wanted_def by simp
    qed
  qed
qed


section \<open>Provider tables\<close>

lemma do_env:
  "do_list E w = (r, w') \<Longrightarrow> fe_list E (fw_env w) = (r, fw_env w')"
  "do_expose E mp w = (x, w') \<Longrightarrow> fe_expose E mp (fw_env w) = (x, fw_env w')"
  "do_unexpose E mp w = (x, w') \<Longrightarrow> fe_unexpose E mp (fw_env w) = (x, fw_env w')"
  "save_state E st w = (x, st', w') \<Longrightarrow> fe_write E st' (fw_env w) = (x, fw_env w')"
  by (auto simp: do_list_def do_expose_def do_unexpose_def save_state_def Let_def split: prod.splits)

lemma save_and_expose_cases:
  assumes "save_and_expose E pl st now a m = ((res, err), st', w')"
  obtains (unsaved) e st2 w2 e' where
      "(if ma_dirty m then save_state E (st\<lparr>st_owned := ma_owned m @ ma_added m\<rparr>) (sa_world a)
         else (None, st\<lparr>st_owned := ma_owned m @ ma_added m\<rparr>, sa_world a)) = (e, st2, w2)"
      "e = Some e'" "res = (sa_res a)\<lparr>res_external := ma_external m\<rparr>" "w' = w2" "st' = st2" "err = Some (saving_error e')"
  | (clean) e st2 w2 x where
      "(if ma_dirty m then save_state E (st\<lparr>st_owned := ma_owned m @ ma_added m\<rparr>) (sa_world a)
         else (None, st\<lparr>st_owned := ma_owned m @ ma_added m\<rparr>, sa_world a)) = (e, st2, w2)"
      "e = None" "x = expose_phase E (pl_pending pl) now (st_owned st2) ((sa_res a)\<lparr>res_external := ma_external m\<rparr>) (ma_todo m) w2"
      "res = ea_res x" "w' = ea_world x" "st' = st2\<lparr>st_owned := ea_owned x\<rparr>" "err = None" "\<not> ea_dirty x"
  | (resaved) e st2 w2 x e4 where
      "(if ma_dirty m then save_state E (st\<lparr>st_owned := ma_owned m @ ma_added m\<rparr>) (sa_world a)
         else (None, st\<lparr>st_owned := ma_owned m @ ma_added m\<rparr>, sa_world a)) = (e, st2, w2)"
      "e = None" "x = expose_phase E (pl_pending pl) now (st_owned st2) ((sa_res a)\<lparr>res_external := ma_external m\<rparr>) (ma_todo m) w2"
      "res = ea_res x" "save_state E (st2\<lparr>st_owned := ea_owned x\<rparr>) (ea_world x) = (e4, st', w')"
      "err = map_option saving_error e4" "ea_dirty x"
proof -
  define st1 where "st1 = st\<lparr>st_owned := ma_owned m @ ma_added m\<rparr>"
  define res1 where "res1 = (sa_res a)\<lparr>res_external := ma_external m\<rparr>"
  obtain e st2 w2 where sv: "(if ma_dirty m then save_state E st1 (sa_world a) else (None, st1, sa_world a)) = (e, st2, w2)"
    by (metis prod_cases3)
  define x where "x = expose_phase E (pl_pending pl) now (st_owned st2) res1 (ma_todo m) w2"
  obtain e4 st4 w4 where s4: "save_state E (st2\<lparr>st_owned := ea_owned x\<rparr>) (ea_world x) = (e4, st4, w4)"
    by (metis prod_cases3)
  have eq: "(case (e, st2, w2) of (Some err, st2, w2) \<Rightarrow> ((res1, Some (saving_error err)), st2, w2)
      | (None, st2, w2) \<Rightarrow>
         (let x = expose_phase E (pl_pending pl) now (st_owned st2) res1 (ma_todo m) w2;
                 st3 = st2\<lparr>st_owned := ea_owned x\<rparr>
             in if ea_dirty x then
                  (case save_state E st3 (ea_world x) of
                     (Some err, st4, w4) \<Rightarrow> ((ea_res x, Some (saving_error err)), st4, w4)
                   | (None, st4, w4) \<Rightarrow> ((ea_res x, None), st4, w4))
                else ((ea_res x, None), st3, ea_world x))) = ((res, err), st', w')"
    using assms unfolding save_and_expose_def Let_def st1_def [symmetric] res1_def [symmetric] sv .
  show thesis
  proof (cases e)
    case (Some e')
    with eq show thesis by (intro unsaved [OF sv [unfolded st1_def] Some]) (simp_all add: res1_def)
  next
    case None
    have eq2: "(if ea_dirty x then (case (e4, st4, w4) of
           (Some err, st4, w4) \<Rightarrow> ((ea_res x, Some (saving_error err)), st4, w4)
         | (None, st4, w4) \<Rightarrow> ((ea_res x, None), st4, w4))
         else ((ea_res x, None), st2\<lparr>st_owned := ea_owned x\<rparr>, ea_world x)) = ((res, err), st', w')"
      using eq unfolding None prod.case option.case Let_def x_def [symmetric] s4 .
    show thesis
    proof (cases "ea_dirty x")
      case True
      have "ea_res x = res \<and> st4 = st' \<and> w4 = w' \<and> err = map_option saving_error e4"
        using eq2 True by (cases e4) auto
      then show thesis using s4 True by (intro resaved [OF sv [unfolded st1_def] None x_def [unfolded res1_def]]) auto
    next
      case False
      with eq2 show thesis by (intro clean [OF sv [unfolded st1_def] None x_def [unfolded res1_def]]) auto
    qed
  qed
qed

text \<open>The contract of a provider whose mapping table is \<open>tbl\<close>, a set of mapping keys: a
  listing shows the table, a successful call changes it by exactly its mapping, a failed
  call and a write of the record leave it alone.\<close>

locale provider_table =
  fixes E :: "'w fenv" and tbl :: "'w \<Rightarrow> string set"
  assumes list_table: "fe_list E s = (Inr l, s') \<Longrightarrow> key ` set l = tbl s"
    and list_keeps: "fe_list E s = (r, s') \<Longrightarrow> tbl s' = tbl s"
    and expose_table: "fe_expose E mp s = (None, s') \<Longrightarrow> tbl s' = insert (key mp) (tbl s)"
    and expose_failed: "fe_expose E mp s = (Some e, s') \<Longrightarrow> tbl s' = tbl s"
    and unexpose_table: "fe_unexpose E mp s = (None, s') \<Longrightarrow> tbl s' = tbl s - {key mp}"
    and unexpose_failed: "fe_unexpose E mp s = (Some e, s') \<Longrightarrow> tbl s' = tbl s"
    and write_table: "fe_write E st s = (x, s') \<Longrightarrow> tbl s' = tbl s"
begin

lemmas do_tables =
  list_table [OF do_env(1)] list_keeps [OF do_env(1)]
  expose_table [OF do_env(2)] expose_failed [OF do_env(2)]
  unexpose_table [OF do_env(3)] unexpose_failed [OF do_env(3)] write_table [OF do_env(4)]

text \<open>\<open>accounts\<close>: the table is the one at the start, less what the result reports as removed,
  with what it reports as exposed.\<close>

definition accounts :: "string set \<Rightarrow> cresult \<Rightarrow> 'w fworld \<Rightarrow> bool" where
  "accounts t0 res w \<longleftrightarrow> tbl (fw_env w) = (t0 - key ` set (res_unexposed res)) \<union> key ` set (res_exposed res)"

lemma accounts_fields [simp]:
  "accounts t0 (res\<lparr>res_external := xs\<rparr>) w = accounts t0 res w"
  "accounts t0 (res\<lparr>res_skipped := es\<rparr>) w = accounts t0 res w"
  "accounts t0 (res\<lparr>res_failed := xs\<rparr>) w = accounts t0 res w"
  by (simp_all add: accounts_def)

lemma accounts_same: "accounts t0 res w \<Longrightarrow> tbl (fw_env w') = tbl (fw_env w) \<Longrightarrow> accounts t0 res w'"
  by (simp add: accounts_def)

lemma accounts_unexposed:
  assumes "accounts t0 res w" "res_exposed res = []" "tbl (fw_env w') = tbl (fw_env w) - {key mp}"
  shows "accounts t0 (res\<lparr>res_unexposed := res_unexposed res @ [mp]\<rparr>) w'"
  using assms by (auto simp: accounts_def)

lemma accounts_gone:
  assumes "accounts t0 res w" "res_exposed res = []" "key mp \<notin> t0"
  shows "accounts t0 (res\<lparr>res_unexposed := res_unexposed res @ [mp]\<rparr>) w"
  using assms by (auto simp: accounts_def)

lemma accounts_exposed:
  assumes "accounts t0 res w" "tbl (fw_env w') = insert (key mp) (tbl (fw_env w))"
  shows "accounts t0 (res\<lparr>res_exposed := res_exposed res @ [mp]\<rparr>) w'"
  using assms by (simp add: accounts_def)

lemma stale_step_accounts:
  assumes "live = t0" "accounts t0 (sa_res a) (sa_world a)" "res_exposed (sa_res a) = []"
  shows "accounts t0 (sa_res (stale_step E live want now a e)) (sa_world (stale_step E live want now a e)) \<and>
    res_exposed (sa_res (stale_step E live want now a e)) = []"
proof (cases "do_unexpose E (entry_mapping e) (sa_world a)")
  case (Pair r w')
  show ?thesis
  proof (cases r)
    case None
    have "tbl (fw_env w') = tbl (fw_env (sa_world a)) - {ekey e}"
      by (rule do_tables(5) [OF Pair [unfolded None]])
    note un = accounts_unexposed [OF assms(2,3) this]
    show ?thesis
      using assms Pair None un accounts_gone [OF assms(2,3), of "entry_mapping e"]
      by (simp add: stale_step_def Let_def split: option.splits)
  next
    case (Some x)
    have "tbl (fw_env w') = tbl (fw_env (sa_world a))"
      by (rule do_tables(6) [OF Pair [unfolded Some]])
    note un = accounts_same [OF assms(2) this]
    show ?thesis
      using assms Pair Some un accounts_gone [OF assms(2,3), of "entry_mapping e"]
      by (simp add: stale_step_def Let_def split: option.splits)
  qed
qed

lemma stale_fold_accounts:
  assumes "live = t0" "accounts t0 (sa_res a) (sa_world a)" "res_exposed (sa_res a) = []"
  shows "accounts t0 (sa_res (foldl (stale_step E live want now) a es)) (sa_world (foldl (stale_step E live want now) a es)) \<and>
    res_exposed (sa_res (foldl (stale_step E live want now) a es)) = []"
  using assms by (induction es arbitrary: a) (simp_all add: stale_step_accounts)

lemma skip_fold_accounts:
  "accounts t0 (sa_res (foldl (skip_step now) a ss)) (sa_world (foldl (skip_step now) a ss)) \<longleftrightarrow>
     accounts t0 (sa_res a) (sa_world a)"
  "res_exposed (sa_res (foldl (skip_step now) a ss)) = res_exposed (sa_res a)"
  by (induction ss arbitrary: a) (simp_all add: skip_step_def Let_def)

lemma stale_phase_accounts:
  assumes "tbl (fw_env w) = live"
  shows "accounts live (sa_res (stale_phase E live want skip now owned w)) (sa_world (stale_phase E live want skip now owned w))"
proof -
  have "accounts live empty_result w"
    using assms by (simp add: accounts_def empty_result_def)
  then show ?thesis
    unfolding stale_phase_def Let_def skip_fold_accounts
    using stale_fold_accounts [OF refl, of live "\<lparr>sa_keep = [], sa_skip = skip, sa_dirty = False, sa_res = empty_result, sa_world = w\<rparr>"]
    by (simp add: empty_result_def)
qed

lemma expose_step_accounts:
  assumes "accounts t0 (ea_res a) (ea_world a)"
  shows "accounts t0 (ea_res (expose_step E pend idx now a mp)) (ea_world (expose_step E pend idx now a mp))"
proof (cases "do_expose E mp (ea_world a)")
  case (Pair r w')
  show ?thesis
  proof (cases r)
    case None
    have "tbl (fw_env w') = insert (key mp) (tbl (fw_env (ea_world a)))"
      by (rule do_tables(3) [OF Pair [unfolded None]])
    from accounts_exposed [OF assms this] show ?thesis
      using Pair None by (simp add: expose_step_def Let_def)
  next
    case (Some x)
    have "tbl (fw_env w') = tbl (fw_env (ea_world a))"
      by (rule do_tables(4) [OF Pair [unfolded Some]])
    from accounts_same [OF assms this] show ?thesis
      using Pair Some by (simp add: expose_step_def Let_def)
  qed
qed

lemma expose_phase_accounts:
  assumes "accounts t0 res w"
  shows "accounts t0 (ea_res (expose_phase E pend now owned res todo w)) (ea_world (expose_phase E pend now owned res todo w))"
proof -
  have "accounts t0 (ea_res a) (ea_world a) \<Longrightarrow>
      accounts t0 (ea_res (foldl (expose_step E pend idx now) a todo)) (ea_world (foldl (expose_step E pend idx now) a todo))" for a idx
    by (induction todo arbitrary: a) (simp_all add: expose_step_accounts)
  then show ?thesis using assms by (simp add: expose_phase_def)
qed

lemma accounts_save: "accounts t0 res w \<Longrightarrow> save_state E st w = (x, st', w') \<Longrightarrow> accounts t0 res w'"
  by (rule accounts_same [OF _ do_tables(7)])

lemma save_and_expose_accounts:
  assumes acc: "accounts t0 (sa_res a) (sa_world a)"
    and pass: "save_and_expose E pl st now a m = ((res, err), st', w')"
  shows "accounts t0 res w'"
proof (rule save_and_expose_cases [OF pass])
  fix e st2 w2
  assume sv: "(if ma_dirty m then save_state E (st\<lparr>st_owned := ma_owned m @ ma_added m\<rparr>) (sa_world a)
         else (None, st\<lparr>st_owned := ma_owned m @ ma_added m\<rparr>, sa_world a)) = (e, st2, w2)"
  have acc2: "accounts t0 ((sa_res a)\<lparr>res_external := ma_external m\<rparr>) w2"
  proof (cases "ma_dirty m")
    case True
    with sv have "save_state E (st\<lparr>st_owned := ma_owned m @ ma_added m\<rparr>) (sa_world a) = (e, st2, w2)" by simp
    then show ?thesis using accounts_save [OF acc] by simp
  next
    case False
    then show ?thesis using sv acc by simp
  qed
  {
    assume "res = (sa_res a)\<lparr>res_external := ma_external m\<rparr>" "w' = w2"
    then show ?thesis using acc2 by simp
  next
    fix x
    assume x: "x = expose_phase E (pl_pending pl) now (st_owned st2) ((sa_res a)\<lparr>res_external := ma_external m\<rparr>) (ma_todo m) w2"
      and res: "res = ea_res x"
    have accx: "accounts t0 (ea_res x) (ea_world x)"
      unfolding x by (rule expose_phase_accounts [OF acc2])
    {
      assume "w' = ea_world x"
      then show ?thesis using accx res by simp
    next
      fix e4
      assume "save_state E (st2\<lparr>st_owned := ea_owned x\<rparr>) (ea_world x) = (e4, st', w')"
      then show ?thesis using accounts_save [OF accx] res by simp
    }
  }
qed

lemma converge_accounts:
  assumes "converge_with E pl st w = ((res, err), st', w')"
  shows "accounts (tbl (fw_env w)) res w'"
proof (cases rule: converge_with_cases [of E w pl st])
  case (failed e w1)
  then have "res = empty_result" "w' = w1" using assms by auto
  moreover have "tbl (fw_env w1) = tbl (fw_env w)" by (rule do_tables(2) [OF failed(1)])
  ultimately show ?thesis by (simp add: accounts_def empty_result_def)
next
  case (listed liveList w1 now a m)
  have "live_keys E w = tbl (fw_env w)"
    unfolding listed(2) by (rule do_tables(1) [OF listed(1)])
  moreover have "tbl (fw_env w1) = tbl (fw_env w)" by (rule do_tables(2) [OF listed(1)])
  ultimately have "accounts (tbl (fw_env w)) (sa_res a) (sa_world a)"
    unfolding listed(3) by (metis stale_phase_accounts)
  then show ?thesis
    using save_and_expose_accounts assms listed(5) by metis
qed

end

section \<open>A pass over a provider that does not fail\<close>

definition never_fails :: "'w fenv \<Rightarrow> bool" where
  "never_fails E \<longleftrightarrow>
     (\<forall>s. \<exists>l. fst (fe_list E s) = Inr l) \<and> (\<forall>mp s. fst (fe_expose E mp s) = None) \<and>
     (\<forall>mp s. fst (fe_unexpose E mp s) = None) \<and> (\<forall>st s. fst (fe_write E st s) = None)"

lemma never_fails_do:
  assumes "never_fails E"
  shows "fst (do_list E w) \<noteq> Inl err" "fst (do_expose E mp w) = None" "fst (do_unexpose E mp w) = None"
    "fst (save_state E st w) = None"
proof -
  have f: "fst (fe_expose E mp s) = None" "fst (fe_unexpose E mp s) = None" "fst (fe_write E st s) = None" for mp st s
    using assms by (simp_all add: never_fails_def)
  obtain l where "fst (fe_list E (fw_env w)) = Inr l" using assms unfolding never_fails_def by blast
  then show "fst (do_list E w) \<noteq> Inl err" by (cases "fe_list E (fw_env w)") (simp add: do_list_def)
  show "fst (do_expose E mp w) = None"
    using f(1) [of mp "fw_env w"] by (cases "fe_expose E mp (fw_env w)") (simp add: do_expose_def)
  show "fst (do_unexpose E mp w) = None"
    using f(2) [of mp "fw_env w"] by (cases "fe_unexpose E mp (fw_env w)") (simp add: do_unexpose_def)
  let ?st = "st\<lparr>st_version := state_version, st_updated := fe_now E (fw_env w)\<rparr>"
  show "fst (save_state E st w) = None"
    using f(3) [of ?st "fw_env w"] by (cases "fe_write E ?st (fw_env w)") (simp add: save_state_def Let_def)
qed

text \<open>The mappings a pass has to remove.\<close>

definition stale_of :: "(string, pmapping) gomap \<Rightarrow> entry list \<Rightarrow> pmapping list" where
  "stale_of want owned = map entry_mapping (filter (\<lambda>e. map_of want (ekey e) = None \<and> e_remote e \<noteq> []) owned)"

lemma stale_step_ok:
  assumes "never_fails E" "sa_skip a = []"
  shows "sa_skip (stale_step E live want now a e) = []"
    "res_unexposed (sa_res (stale_step E live want now a e)) = res_unexposed (sa_res a) @ stale_of want [e]"
    "sa_keep (stale_step E live want now a e) = sa_keep a @ (if map_of want (ekey e) = None then [] else [e])"
proof -
  obtain w' where "do_unexpose E (entry_mapping e) (sa_world a) = (None, w')"
    using never_fails_do(3) [OF assms(1)] by (metis prod.collapse)
  then show "sa_skip (stale_step E live want now a e) = []"
    "res_unexposed (sa_res (stale_step E live want now a e)) = res_unexposed (sa_res a) @ stale_of want [e]"
    "sa_keep (stale_step E live want now a e) = sa_keep a @ (if map_of want (ekey e) = None then [] else [e])"
    using assms(2) by (simp_all add: stale_step_def stale_of_def Let_def)
qed

lemma stale_fold_ok:
  assumes "never_fails E" "sa_skip a = []"
  shows "sa_skip (foldl (stale_step E live want now) a es) = [] \<and>
    res_unexposed (sa_res (foldl (stale_step E live want now) a es)) = res_unexposed (sa_res a) @ stale_of want es \<and>
    sa_keep (foldl (stale_step E live want now) a es) = sa_keep a @ filter (\<lambda>e. map_of want (ekey e) \<noteq> None) es"
  using assms(2)
proof (induction es arbitrary: a)
  case (Cons e es)
  note s = stale_step_ok [OF assms(1) Cons.prems, of live want now e]
  show ?case using Cons.IH [OF s(1)] s(2,3) by (simp add: stale_of_def)
qed (simp add: stale_of_def)

lemma stale_phase_ok:
  assumes "never_fails E"
  shows "res_unexposed (sa_res (stale_phase E live want [] now owned w)) = stale_of want owned"
    "sa_keep (stale_phase E live want [] now owned w) = filter (\<lambda>e. map_of want (ekey e) \<noteq> None) owned"
  using stale_fold_ok [OF assms, of "\<lparr>sa_keep = [], sa_skip = [], sa_dirty = False, sa_res = empty_result, sa_world = w\<rparr>"]
  by (simp_all add: stale_phase_def Let_def sorted_keys_def empty_result_def)

lemma expose_step_ok:
  assumes "never_fails E"
  shows "res_exposed (ea_res (expose_step E pend idx now a mp)) = res_exposed (ea_res a) @ [mp]"
    "res_unexposed (ea_res (expose_step E pend idx now a mp)) = res_unexposed (ea_res a)"
proof -
  obtain w' where "do_expose E mp (ea_world a) = (None, w')"
    using never_fails_do(2) [OF assms] by (metis prod.collapse)
  then show "res_exposed (ea_res (expose_step E pend idx now a mp)) = res_exposed (ea_res a) @ [mp]"
    "res_unexposed (ea_res (expose_step E pend idx now a mp)) = res_unexposed (ea_res a)"
    by (simp_all add: expose_step_def Let_def)
qed

lemma expose_phase_ok:
  assumes "never_fails E"
  shows "res_exposed (ea_res (expose_phase E pend now owned res todo w)) = res_exposed res @ todo"
    "res_unexposed (ea_res (expose_phase E pend now owned res todo w)) = res_unexposed res"
proof -
  have "res_exposed (ea_res (foldl (expose_step E pend idx now) a todo)) = res_exposed (ea_res a) @ todo \<and>
    res_unexposed (ea_res (foldl (expose_step E pend idx now) a todo)) = res_unexposed (ea_res a)" for a idx
    by (induction todo arbitrary: a) (simp_all add: expose_step_ok [OF assms])
  then show "res_exposed (ea_res (expose_phase E pend now owned res todo w)) = res_exposed res @ todo"
    "res_unexposed (ea_res (expose_phase E pend now owned res todo w)) = res_unexposed res"
    by (simp_all add: expose_phase_def)
qed

lemma save_and_expose_owned:
  assumes "save_and_expose E pl st now a m = ((res, err), st', w')"
  shows "map entry_mapping (st_owned st') = map entry_mapping (ma_owned m @ ma_added m)"
proof (rule save_and_expose_cases [OF assms])
  fix e st2 w2
  assume sv: "(if ma_dirty m then save_state E (st\<lparr>st_owned := ma_owned m @ ma_added m\<rparr>) (sa_world a)
         else (None, st\<lparr>st_owned := ma_owned m @ ma_added m\<rparr>, sa_world a)) = (e, st2, w2)"
  have o2: "st_owned st2 = ma_owned m @ ma_added m"
    using sv save_state_simps [of E "st\<lparr>st_owned := ma_owned m @ ma_added m\<rparr>" "sa_world a" e st2 w2]
    by (auto split: if_splits)
  {
    assume "st' = st2"
    then show ?thesis using o2 by simp
  next
    fix x
    assume x: "x = expose_phase E (pl_pending pl) now (st_owned st2) ((sa_res a)\<lparr>res_external := ma_external m\<rparr>) (ma_todo m) w2"
    have o: "map entry_mapping (ea_owned x) = map entry_mapping (ma_owned m @ ma_added m)"
      unfolding x expose_phase_fields o2 by (rule refl)
    {
      assume "st' = st2\<lparr>st_owned := ea_owned x\<rparr>"
      then show ?thesis using o by simp
    next
      fix e4
      assume "save_state E (st2\<lparr>st_owned := ea_owned x\<rparr>) (ea_world x) = (e4, st', w')"
      from save_state_simps [OF this] show ?thesis using o by simp
    }
  }
qed

lemma save_and_expose_ok:
  assumes "never_fails E" "save_and_expose E pl st now a m = ((res, err), st', w')"
  shows "err = None \<and> res_unexposed res = res_unexposed (sa_res a) \<and> res_exposed res = res_exposed (sa_res a) @ ma_todo m"
proof (rule save_and_expose_cases [OF assms(2)])
  fix e st2 w2
  assume sv: "(if ma_dirty m then save_state E (st\<lparr>st_owned := ma_owned m @ ma_added m\<rparr>) (sa_world a)
         else (None, st\<lparr>st_owned := ma_owned m @ ma_added m\<rparr>, sa_world a)) = (e, st2, w2)"
  have e: "e = None"
    using sv never_fails_do(4) [OF assms(1), of "st\<lparr>st_owned := ma_owned m @ ma_added m\<rparr>" "sa_world a"]
    by (auto split: if_splits)
  {
    fix e' assume "e = Some e'"
    then show ?thesis using e by simp
  next
    fix x
    assume x: "x = expose_phase E (pl_pending pl) now (st_owned st2) ((sa_res a)\<lparr>res_external := ma_external m\<rparr>) (ma_todo m) w2"
      and res: "res = ea_res x"
    have r: "res_unexposed res = res_unexposed (sa_res a)" "res_exposed res = res_exposed (sa_res a) @ ma_todo m"
      unfolding res x by (simp_all add: expose_phase_ok [OF assms(1)])
    {
      assume "err = None"
      then show ?thesis using r by simp
    next
      fix e4
      assume sv4: "save_state E (st2\<lparr>st_owned := ea_owned x\<rparr>) (ea_world x) = (e4, st', w')" "err = map_option saving_error e4"
      have "e4 = None" using never_fails_do(4) [OF assms(1)] sv4(1) by (metis fst_conv)
      then show ?thesis using sv4(2) r by simp
    }
  }
qed

text \<open>The owned keys after a pass.\<close>

lemma stale_phase_keep_sub:
  "entry_mapping ` set (sa_keep (stale_phase E live want [] now owned w)) \<subseteq> entry_mapping ` set owned"
  "entry_mapping ` {e \<in> set owned. map_of want (ekey e) \<noteq> None} \<subseteq>
     entry_mapping ` set (sa_keep (stale_phase E live want [] now owned w))"
  "distinct (map ekey owned) \<Longrightarrow> distinct (map ekey (sa_keep (stale_phase E live want [] now owned w)))"
proof -
  let ?a = "\<lparr>sa_keep = [], sa_skip = [], sa_dirty = False, sa_res = empty_result, sa_world = w\<rparr>"
  have sk: "sa_skip (foldl (stale_step E live want now) a es) = []" if "sa_skip a = []" for a es
    using that by (induction es arbitrary: a) (auto simp: stale_step_def Let_def split: option.splits prod.splits)
  have eq: "stale_phase E live want [] now owned w = foldl (stale_step E live want now) ?a owned"
    unfolding stale_phase_def Let_def using sk [of ?a owned] by (simp add: sorted_keys_def)
  show "entry_mapping ` set (sa_keep (stale_phase E live want [] now owned w)) \<subseteq> entry_mapping ` set owned"
    unfolding eq using stale_fold_keep_sub [of E live want now ?a owned] by simp
  show "entry_mapping ` {e \<in> set owned. map_of want (ekey e) \<noteq> None} \<subseteq>
     entry_mapping ` set (sa_keep (stale_phase E live want [] now owned w))"
    unfolding eq using stale_fold_keep_sup [of owned want ?a E live now] by simp
  show "distinct (map ekey (sa_keep (stale_phase E live want [] now owned w)))" if "distinct (map ekey owned)"
    unfolding eq by (rule stale_fold_distinct) (use that in simp)
qed

lemma ekeys_image: "ekey ` A = key ` entry_mapping ` A"
  by (simp add: image_image)

lemma added_keys:
  "map ekey (ma_added (missing_phase pend live (wanted pl) now d owned)) =
     filter (\<lambda>k. k \<notin> live \<and> k \<notin> owned_keys owned) (sorted_keys (wanted pl))"
proof -
  let ?ks = "filter (\<lambda>k. k \<notin> live \<and> k \<notin> owned_keys owned) (sorted_keys (wanted pl))"
  have "map ekey (ma_added (missing_phase pend live (wanted pl) now d owned)) =
      map key (map entry_mapping (ma_added (missing_phase pend live (wanted pl) now d owned)))" by simp
  also have "\<dots> = map (\<lambda>k. key (the (map_of (wanted pl) k))) ?ks"
    unfolding missing_phase_fields(3) by simp
  also have "\<dots> = map id ?ks"
    by (rule map_cong [OF refl]) (simp add: wanted_the)
  finally show ?thesis by simp
qed

lemma missing_phase_ekeys:
  "map ekey (ma_owned (missing_phase pend live want now d owned)) = map ekey owned"
  using arg_cong [OF missing_phase_fields(2), of "map key" pend live want now d owned]
  by (simp add: comp_def)

lemma set_ekeys: "set (map ekey xs) = owned_keys xs"
  by (simp add: owned_keys_def)

lemma wanted_keys: "set (sorted_keys (wanted pl)) = key ` set (pl_mappings pl)"
  by (simp add: wanted_def)

lemma pass_owned_keys:
  fixes keep :: "entry list"
  assumes "m = missing_phase pend live (wanted pl) now d keep"
  shows "set (map ekey (ma_owned m @ ma_added m)) = owned_keys keep \<union> (key ` set (pl_mappings pl) - live)"
    "distinct (map ekey keep) \<Longrightarrow> distinct (map ekey (ma_owned m @ ma_added m))"
proof -
  have l: "map ekey (ma_owned m @ ma_added m) =
      map ekey keep @ filter (\<lambda>k. k \<notin> live \<and> k \<notin> owned_keys keep) (sorted_keys (wanted pl))"
    unfolding assms map_append missing_phase_ekeys added_keys by (rule refl)
  show "set (map ekey (ma_owned m @ ma_added m)) = owned_keys keep \<union> (key ` set (pl_mappings pl) - live)"
    unfolding l set_append set_filter set_ekeys wanted_keys by blast
  show "distinct (map ekey (ma_owned m @ ma_added m))" if "distinct (map ekey keep)"
    unfolding l distinct_append set_ekeys set_filter using that
    by (auto simp: sorted_keys_def)
qed

section \<open>Ownership and refinement\<close>

text \<open>The owned keys of any pass whose plan reports nothing unpublishable.\<close>

lemma listed_owned:
  assumes a: "a = stale_phase E live (wanted pl) [] now owned w1"
    and m: "m = missing_phase pend live (wanted pl) now d (sa_keep a)"
    and out: "map entry_mapping xs = map entry_mapping (ma_owned m @ ma_added m)"
  shows "owned_keys xs = owned_keys (sa_keep a) \<union> (key ` set (pl_mappings pl) - live)"
    and "distinct (map ekey owned) \<Longrightarrow> distinct (map ekey xs)"
    and "owned_keys (sa_keep a) \<subseteq> owned_keys owned"
    and "owned_keys owned \<inter> key ` set (pl_mappings pl) \<subseteq> owned_keys (sa_keep a)"
proof -
  have k: "map ekey xs = map ekey (ma_owned m @ ma_added m)"
    using arg_cong [OF out, of "map key"] by (simp add: comp_def)
  show "owned_keys xs = owned_keys (sa_keep a) \<union> (key ` set (pl_mappings pl) - live)"
    using arg_cong [OF k, of set] pass_owned_keys(1) [OF m] unfolding set_ekeys by (rule trans)
  show "distinct (map ekey xs)" if "distinct (map ekey owned)"
    unfolding k by (rule pass_owned_keys(2) [OF m]) (unfold a, rule stale_phase_keep_sub(3) [OF that])
  show "owned_keys (sa_keep a) \<subseteq> owned_keys owned"
    unfolding owned_keys_def ekeys_image a by (rule image_mono [OF stale_phase_keep_sub(1)])
  have "owned_keys owned \<inter> key ` set (pl_mappings pl) \<subseteq> key ` entry_mapping ` {e \<in> set owned. map_of (wanted pl) (ekey e) \<noteq> None}"
    unfolding owned_keys_def wanted_None by (auto simp: image_image)
  also have "\<dots> \<subseteq> owned_keys (sa_keep a)"
    unfolding owned_keys_def a
    using image_mono [OF stale_phase_keep_sub(2) [of owned "wanted pl" E live now w1], of key] by (simp only: image_image)
  finally show "owned_keys owned \<inter> key ` set (pl_mappings pl) \<subseteq> owned_keys (sa_keep a)" .
qed

lemma pass_ownership:
  assumes "converge_with E pl st w = ((res, err), st', w')" and "pl_unpublishable pl = []"
    and "distinct (map ekey (st_owned st))"
  shows "distinct (map ekey (st_owned st')) \<and>
    owned_keys (st_owned st') \<subseteq> owned_keys (st_owned st) \<union> (key ` set (pl_mappings pl) - live_keys E w) \<and>
    owned_keys (st_owned st) \<inter> key ` set (pl_mappings pl) \<subseteq> owned_keys (st_owned st')"
proof (cases rule: converge_with_cases [of E w pl st])
  case (failed e w1)
  then have "st' = st" using assms(1) by simp
  then show ?thesis using assms(3) by blast
next
  case (listed liveList w1 now a m)
  have a: "a = stale_phase E (live_keys E w) (wanted pl) [] now (st_owned st) w1"
    using listed(3) assms(2) by (simp add: gm_of_def)
  have out: "map entry_mapping (st_owned st') = map entry_mapping (ma_owned m @ ma_added m)"
    by (rule save_and_expose_owned [OF trans [OF listed(5) [symmetric] assms(1)]])
  note l = listed_owned [OF a listed(4) out]
  show ?thesis using l(1,3,4) l(2) [OF assms(3)] by blast
qed

text \<open>Fact (invariant): a pass keeps the owned set free of duplicates, adopts no mapping that was
  already live without being owned, and forgets no owned mapping that is still wanted,
  whatever the provider and the disk answer.\<close>

theorem ownership_kept:
  assumes "converge_with E pl st w = ((res, err), st', w')" and "pl_unpublishable pl = []"
    and "distinct (map ekey (st_owned st))"
  shows "distinct (map ekey (st_owned st')) \<and>
    owned_keys (st_owned st') \<subseteq> owned_keys (st_owned st) \<union> (key ` set (pl_mappings pl) - live_keys E w) \<and>
    owned_keys (st_owned st) \<inter> key ` set (pl_mappings pl) \<subseteq> owned_keys (st_owned st')"
  by (rule pass_ownership [OF assms])

lemma stale_phase_exposed: "res_exposed (sa_res (stale_phase E live want [] now owned w)) = []"
proof -
  have st: "res_exposed (sa_res (stale_step E live want now a e)) = res_exposed (sa_res a)" for a e
    by (auto simp: stale_step_def Let_def split: option.splits prod.splits)
  have fold: "res_exposed (sa_res (foldl (stale_step E live want now) a es)) = res_exposed (sa_res a)" for a es
    by (induction es arbitrary: a) (simp_all add: st)
  have skip: "res_exposed (sa_res (foldl (skip_step now) a es)) = res_exposed (sa_res a)" for a es
    by (induction es arbitrary: a) (simp_all add: skip_step_def Let_def)
  show ?thesis unfolding stale_phase_def Let_def skip fold by (simp add: empty_result_def)
qed

context provider_table begin

lemma converge_table:
  assumes "converge_with E pl st w = ((res, err), st', w')"
  shows "tbl (fw_env w') = (tbl (fw_env w) - key ` set (res_unexposed res)) \<union> key ` set (res_exposed res)"
  using converge_accounts [OF assms] by (simp add: accounts_def)

end

text \<open>C30 (refinement): over any provider that keeps its table as promised and does not fail, one
  pass turns the table into the plan: what jm owns and no longer wants is gone, everything
  the plan wants is there, every other mapping is as it was; the pass reports no error and
  owns what it owned before and wants, with what it added itself.\<close>

theorem converge_reaches_plan:
  assumes tab: "provider_table E tbl" and ok: "never_fails E" and unp: "pl_unpublishable pl = []"
    and pass: "converge_with E pl st w = ((res, err), st', w')"
  shows "err = None \<and>
    tbl (fw_env w') = (tbl (fw_env w) - key ` set (stale_of (wanted pl) (st_owned st))) \<union> key ` set (pl_mappings pl) \<and>
    owned_keys (st_owned st') = key ` set (pl_mappings pl) \<inter> (owned_keys (st_owned st) \<union> - tbl (fw_env w))"
proof -
  have nf: "do_list E w \<noteq> (Inl e, w1)" for e w1
    using never_fails_do(1) [OF ok] by (metis fst_conv)
  show "err = None \<and>
    tbl (fw_env w') = (tbl (fw_env w) - key ` set (stale_of (wanted pl) (st_owned st))) \<union> key ` set (pl_mappings pl) \<and>
    owned_keys (st_owned st') = key ` set (pl_mappings pl) \<inter> (owned_keys (st_owned st) \<union> - tbl (fw_env w))"
  proof (cases rule: converge_with_cases [of E w pl st])
    case (failed e w1)
    then show ?thesis using nf by blast
  next
    case (listed liveList w1 now a m)
    let ?W = "key ` set (pl_mappings pl)" and ?T = "tbl (fw_env w)"
    have a: "a = stale_phase E (live_keys E w) (wanted pl) [] now (st_owned st) w1"
      using listed(3) unp by (simp add: gm_of_def)
    have live: "live_keys E w = ?T"
      unfolding listed(2) by (rule provider_table.do_tables(1) [OF tab listed(1)])
    note sx = trans [OF listed(5) [symmetric] pass]
    note res = save_and_expose_ok [OF ok sx]
    have un: "res_unexposed res = stale_of (wanted pl) (st_owned st)"
      using res unfolding a stale_phase_ok(1) [OF ok] by simp
    have "res_exposed (sa_res a) = []"
      unfolding a by (rule stale_phase_exposed)
    then have ex: "key ` set (res_exposed res) = ?W - ?T"
      using res unfolding listed(4) missing_phase_fields(1) by (simp add: todo_of_keys(2) live)
    have T: "tbl (fw_env w') = (?T - key ` set (stale_of (wanted pl) (st_owned st))) \<union> (?W - ?T)"
      using provider_table.converge_table [OF tab pass] unfolding un ex .
    have stale: "key ` set (stale_of (wanted pl) (st_owned st)) \<inter> ?W = {}"
      by (auto simp: stale_of_def wanted_None)
    have keep: "owned_keys (sa_keep a) = owned_keys (st_owned st) \<inter> ?W"
      unfolding a stale_phase_ok(2) [OF ok] owned_keys_def by (auto simp: wanted_None)
    have "owned_keys (st_owned st') = owned_keys (sa_keep a) \<union> (?W - live_keys E w)"
      by (rule listed_owned(1) [OF a listed(4) save_and_expose_owned [OF sx]])
    then show ?thesis using T stale res unfolding keep live by blast
  qed
qed

end
