(* ===== verification/Netprov.thy ===== *)
theory Netprov
  imports Forwarder_Converge
begin

text \<open>
  The network providers as the forwarder sees them: the gvproxy control API client
  (\<^verbatim>\<open>internal/netprov/gvproxy/client.go\<close>) over an HTTP server that is a parameter, the
  \<^verbatim>\<open>user\<close> (slirp) provider, the provider registry of \<^verbatim>\<open>internal/netprov/provider.go\<close>,
  and the interpretation of the provider contract on the gvproxy client. The JSON decoding of
  a response body is part of the response (\<open>hr_json\<close>: what \<^verbatim>\<open>json.Unmarshal\<close> makes of it).
\<close>

section \<open>The gvproxy client\<close>

record wire =
  wi_local :: string
  wi_remote :: string
  wi_protocol :: string

record http_resp =
  hr_code :: int
  hr_status :: string
  hr_body :: string
  hr_json :: "string + wire list"

type_synonym 's http_server = "string \<Rightarrow> string \<Rightarrow> wire option \<Rightarrow> 's \<Rightarrow> (string + http_resp) \<times> 's"

definition expose_path :: string where "expose_path = ''/services/forwarder/expose''"
definition unexpose_path :: string where "unexpose_path = ''/services/forwarder/unexpose''"
definition list_path :: string where "list_path = ''/services/forwarder/all''"
definition in_use_text :: string where "in_use_text = ''address already in use''"

definition to_wire :: "pmapping \<Rightarrow> wire" where
  "to_wire m = \<lparr>wi_local = m_local m, wi_remote = m_remote m,
     wi_protocol = (if m_proto m = [] then ''tcp'' else m_proto m)\<rparr>"

definition of_wire :: "wire \<Rightarrow> pmapping" where
  "of_wire w = \<lparr>m_proto = (if wi_protocol w = [] then ''tcp'' else wi_protocol w),
     m_local = wi_local w, m_remote = wi_remote w\<rparr>"

definition gv_do :: "'s http_server \<Rightarrow> string \<Rightarrow> string \<Rightarrow> wire option \<Rightarrow> 's \<Rightarrow> (string + http_resp) \<times> 's" where
  "gv_do srv mth path body s =
     (case srv mth path body s of
        (Inl err, s') \<Rightarrow> (Inl (''gvproxy api: '' @ err), s')
      | (Inr r, s') \<Rightarrow>
          (if hr_code r div 100 \<noteq> 2
           then (Inl (''gvproxy api: '' @ mth @ '' '' @ path @ '': '' @ hr_status r @ '': ''
                   @ trim_space (take 1048576 (hr_body r))), s')
           else (Inr r, s')))"

text \<open>\<open>split_port\<close> stands for the port part \<^verbatim>\<open>net.SplitHostPort\<close> gives, if it splits;
  \<open>to_upper\<close> for \<^verbatim>\<open>strings.ToUpper\<close> on the protocol name.\<close>

definition expose_err :: "(string \<Rightarrow> string option) \<Rightarrow> (string \<Rightarrow> string) \<Rightarrow> pmapping \<Rightarrow> string option \<Rightarrow> string option" where
  "expose_err split_port to_upper m err =
     (case err of
        None \<Rightarrow> None
      | Some e \<Rightarrow>
          (if \<not> contains e in_use_text then Some e
           else Some (''another process on this Mac already holds this host port (lsof -nP -i''
                  @ to_upper (if m_proto m = [] then ''tcp'' else m_proto m) @ '':''
                  @ (case split_port (m_local m) of None \<Rightarrow> m_local m | Some p \<Rightarrow> p)
                  @ ''); publish the container on a different host port'')))"

definition err_of :: "string + 'a \<Rightarrow> string option" where
  "err_of r = (case r of Inl e \<Rightarrow> Some e | Inr _ \<Rightarrow> None)"

definition gv_expose ::
  "'s http_server \<Rightarrow> (string \<Rightarrow> string option) \<Rightarrow> (string \<Rightarrow> string) \<Rightarrow> pmapping \<Rightarrow> 's \<Rightarrow> string option \<times> 's" where
  "gv_expose srv split_port to_upper m s =
     (let (r, s') = gv_do srv ''POST'' expose_path (Some (to_wire m)) s
      in (expose_err split_port to_upper m (err_of r), s'))"

definition gv_unexpose :: "'s http_server \<Rightarrow> pmapping \<Rightarrow> 's \<Rightarrow> string option \<times> 's" where
  "gv_unexpose srv m s =
     (let (r, s') = gv_do srv ''POST'' unexpose_path (Some (to_wire m)) s in (err_of r, s'))"

definition gv_list :: "'s http_server \<Rightarrow> 's \<Rightarrow> (string + pmapping list) \<times> 's" where
  "gv_list srv s =
     (case gv_do srv ''GET'' list_path None s of
        (Inl err, s') \<Rightarrow> (Inl err, s')
      | (Inr r, s') \<Rightarrow>
          (case hr_json r of
             Inl err \<Rightarrow> (Inl (''gvproxy api: decoding '' @ list_path @ '': '' @ err), s')
           | Inr ws \<Rightarrow> (Inr (map of_wire ws), s')))"

definition plain_err :: "string \<Rightarrow> perr" where
  "plain_err e = \<lparr>pe_unsupported = False, pe_msg = e\<rparr>"

text \<open>The environment of the forwarder over the gvproxy client; the clock and the write of the
  record are parameters.\<close>

definition gv_env ::
  "'s http_server \<Rightarrow> (string \<Rightarrow> string option) \<Rightarrow> (string \<Rightarrow> string) \<Rightarrow>
   (fstate \<Rightarrow> 's \<Rightarrow> perr option \<times> 's) \<Rightarrow> ('s \<Rightarrow> int) \<Rightarrow> 's fenv" where
  "gv_env srv split_port to_upper wr clock =
     \<lparr>fe_list = \<lambda>s. let (r, s') = gv_list srv s in (map_sum plain_err id r, s'),
      fe_expose = \<lambda>m s. let (r, s') = gv_expose srv split_port to_upper m s in (map_option plain_err r, s'),
      fe_unexpose = \<lambda>m s. let (r, s') = gv_unexpose srv m s in (map_option plain_err r, s'),
      fe_write = wr, fe_now = clock\<rparr>"

section \<open>The user provider\<close>

definition err_unsupported :: perr where
  "err_unsupported = \<lparr>pe_unsupported = True, pe_msg = ''netprov: operation not supported by this network provider''\<rparr>"

definition user_env :: "(fstate \<Rightarrow> 's \<Rightarrow> perr option \<times> 's) \<Rightarrow> ('s \<Rightarrow> int) \<Rightarrow> 's fenv" where
  "user_env wr clock =
     \<lparr>fe_list = \<lambda>s. (Inl err_unsupported, s), fe_expose = \<lambda>m s. (Some err_unsupported, s),
      fe_unexpose = \<lambda>m s. (Some err_unsupported, s), fe_write = wr, fe_now = clock\<rparr>"

section \<open>Capabilities and the registry\<close>

record capabilities =
  ca_supervised :: bool
  ca_mtu :: int

definition max_datagram :: "capabilities \<Rightarrow> int" where
  "max_datagram c = (if ca_mtu c \<le> 20 + 8 then 0 else ca_mtu c - 20 - 8)"

definition default_for_host :: "string \<Rightarrow> string" where
  "default_for_host jm_network = (if jm_network \<noteq> [] then jm_network else ''gvproxy'')"

text \<open>\<^verbatim>\<open>Register\<close> panics on a duplicate name (\<open>None\<close>).\<close>

definition prov_register :: "string \<Rightarrow> 'p \<Rightarrow> (string, 'p) gomap \<Rightarrow> (string, 'p) gomap option" where
  "prov_register name p reg = (if map_of reg name \<noteq> None then None else Some (gm_put name p reg))"

definition prov_names :: "(string, 'p) gomap \<Rightarrow> string list" where
  "prov_names reg = sort (map fst reg)"

definition prov_get :: "string \<Rightarrow> (string, 'p) gomap \<Rightarrow> string + 'p" where
  "prov_get name reg =
     (case map_of reg name of
        None \<Rightarrow> Inl (''netprov: unknown network provider '' @ quote name @ '' (known: ['' @ join '' '' (prov_names reg) @ ''])'')
      | Some p \<Rightarrow> Inr p)"

section \<open>What the client promises\<close>

lemma to_wire_roundtrip: "key (of_wire (to_wire m)) = key m"
  by (simp add: of_wire_def to_wire_def key_def)

text \<open>A server that keeps a mapping table, as the control API is documented to.\<close>

definition wire_key :: "wire \<Rightarrow> string" where
  "wire_key w = key (of_wire w)"

definition http_ok :: "wire list \<Rightarrow> http_resp" where
  "http_ok ws = \<lparr>hr_code = 200, hr_status = ''200 OK'', hr_body = [], hr_json = Inr ws\<rparr>"

definition http_not_found :: http_resp where
  "http_not_found = \<lparr>hr_code = 404, hr_status = ''404 Not Found'', hr_body = ''404 page not found'', hr_json = Inl ''''\<rparr>"

definition table_srv :: "wire list http_server" where
  "table_srv mth path body ws =
     (case body of
        None \<Rightarrow> (if mth = ''GET'' \<and> path = list_path then (Inr (http_ok ws), ws) else (Inr http_not_found, ws))
      | Some w \<Rightarrow>
          (if path = expose_path then (Inr (http_ok []), ws @ [w])
           else if path = unexpose_path then (Inr (http_ok []), filter (\<lambda>x. wire_key x \<noteq> wire_key w) ws)
           else (Inr http_not_found, ws)))"

definition no_write :: "fstate \<Rightarrow> 's \<Rightarrow> perr option \<times> 's" where
  "no_write st s = (None, s)"

abbreviation table_env :: "wire list fenv" where
  "table_env \<equiv> gv_env table_srv (\<lambda>_. None) id no_write (\<lambda>_. 0)"

lemma paths_differ [simp]: "unexpose_path \<noteq> expose_path" "expose_path \<noteq> unexpose_path"
  by (simp_all add: unexpose_path_def expose_path_def)

lemma table_env_ops:
  "fe_list table_env ws = (Inr (map of_wire ws), ws)"
  "fe_expose table_env m ws = (None, ws @ [to_wire m])"
  "fe_unexpose table_env m ws = (None, filter (\<lambda>x. wire_key x \<noteq> key m) ws)"
  "fe_write table_env st ws = (None, ws)"
  by (simp_all add: gv_env_def gv_list_def gv_expose_def gv_unexpose_def gv_do_def table_srv_def http_ok_def
      no_write_def err_of_def expose_err_def wire_key_def to_wire_roundtrip)

interpretation gv: provider_table table_env "\<lambda>ws. wire_key ` set ws"
proof
  fix s l s' r mp e st x
  show "fe_list table_env s = (Inr l, s') \<Longrightarrow> key ` set l = wire_key ` set s"
    unfolding table_env_ops by (auto simp: wire_key_def)
  show "fe_list table_env s = (r, s') \<Longrightarrow> wire_key ` set s' = wire_key ` set s"
    unfolding table_env_ops by simp
  show "fe_expose table_env mp s = (None, s') \<Longrightarrow> wire_key ` set s' = insert (key mp) (wire_key ` set s)"
    unfolding table_env_ops by (auto simp: wire_key_def to_wire_roundtrip)
  show "fe_expose table_env mp s = (Some e, s') \<Longrightarrow> wire_key ` set s' = wire_key ` set s"
    unfolding table_env_ops by simp
  show "fe_unexpose table_env mp s = (None, s') \<Longrightarrow> wire_key ` set s' = wire_key ` set s - {key mp}"
    unfolding table_env_ops by auto
  show "fe_unexpose table_env mp s = (Some e, s') \<Longrightarrow> wire_key ` set s' = wire_key ` set s"
    unfolding table_env_ops by simp
  show "fe_write table_env st s = (x, s') \<Longrightarrow> wire_key ` set s' = wire_key ` set s"
    unfolding table_env_ops by simp
qed

lemma table_env_never_fails: "never_fails table_env"
  unfolding never_fails_def table_env_ops by simp

text \<open>The table contract also holds of the user provider, which refuses every operation.\<close>

interpretation user: provider_table "user_env no_write (\<lambda>_. 0)" "\<lambda>_::unit. {}"
  by unfold_locales (simp_all add: user_env_def no_write_def)

lemma user_converge:
  "fst (converge_with (user_env wr clock) pl st w) =
     (empty_result, Some (err_unsupported\<lparr>pe_msg := ''listing provider mappings: '' @ pe_msg err_unsupported\<rparr>))"
  by (simp add: converge_with_def do_list_def user_env_def Let_def)

section \<open>Witnesses over the gvproxy client\<close>

definition demo_mapping :: pmapping where
  "demo_mapping = \<lparr>m_proto = ''tcp'', m_local = ''0.0.0.0:80'', m_remote = ''10.0.0.2:80''\<rparr>"

definition demo_plan :: plan where
  "demo_plan = \<lparr>pl_mappings = [demo_mapping], pl_rules = [], pl_unpublishable = [], pl_pending = Map.empty\<rparr>"

definition demo_old :: entry where
  "demo_old = \<lparr>e_proto = ''tcp'', e_local = ''0.0.0.0:81'', e_remote = ''10.0.0.2:81'', e_error = [], e_since = 0\<rparr>"

definition demo_state :: fstate where
  "demo_state = \<lparr>st_version = 1, st_updated = 0, st_publishAddr = [], st_owned = [demo_old]\<rparr>"

definition demo_world :: "wire list fworld" where
  "demo_world = \<lparr>fw_env = [to_wire (entry_mapping demo_old), to_wire \<lparr>m_proto = ''tcp'', m_local = ''127.0.0.1:2222'', m_remote = ''10.0.0.2:22''\<rparr>],
     fw_calls = []\<rparr>"

abbreviation demo_pass :: "(cresult \<times> perr option) \<times> fstate \<times> wire list fworld" where
  "demo_pass \<equiv> converge_with table_env demo_plan demo_state demo_world"

lemma demo_pass_eq: "demo_pass = ((fst (fst demo_pass), snd (fst demo_pass)), fst (snd demo_pass), snd (snd demo_pass))"
  by simp

lemma demo_keys:
  "key demo_mapping = ''tcp 0.0.0.0:80 10.0.0.2:80''"
  "ekey demo_old = ''tcp 0.0.0.0:81 10.0.0.2:81''"
  by (simp_all add: demo_mapping_def demo_old_def entry_mapping_def key_def)

theorem ownership_kept_witness:
  "distinct (map ekey (st_owned (fst (snd demo_pass))))"
proof -
  have "pl_unpublishable demo_plan = []" "distinct (map ekey (st_owned demo_state))"
    by (simp_all add: demo_plan_def demo_state_def)
  from ownership_kept [OF demo_pass_eq this] show ?thesis by (rule conjunct1)
qed

theorem converge_reaches_plan_witness:
  "wire_key ` set (fw_env (snd (snd demo_pass))) =
     {''tcp 127.0.0.1:2222 10.0.0.2:22'', ''tcp 0.0.0.0:80 10.0.0.2:80''}"
proof -
  have u: "pl_unpublishable demo_plan = []" by (simp add: demo_plan_def)
  have "map_of (wanted demo_plan) (ekey demo_old) = None"
    unfolding wanted_None by (simp add: demo_plan_def demo_keys)
  then have s: "key ` set (stale_of (wanted demo_plan) (st_owned demo_state)) = {''tcp 0.0.0.0:81 10.0.0.2:81''}"
    by (simp add: stale_of_def demo_state_def demo_keys) (simp add: demo_old_def)
  have m: "key ` set (pl_mappings demo_plan) = {''tcp 0.0.0.0:80 10.0.0.2:80''}"
    by (simp add: demo_plan_def demo_keys)
  have t: "wire_key ` set (fw_env demo_world) = {''tcp 0.0.0.0:81 10.0.0.2:81'', ''tcp 127.0.0.1:2222 10.0.0.2:22''}"
    by (simp add: demo_world_def wire_key_def to_wire_roundtrip demo_keys) (simp add: key_def)
  have "wire_key ` set (fw_env (snd (snd demo_pass))) =
      (wire_key ` set (fw_env demo_world) - key ` set (stale_of (wanted demo_plan) (st_owned demo_state))) \<union> key ` set (pl_mappings demo_plan)"
    using converge_reaches_plan [OF gv.provider_table_axioms table_env_never_fails u demo_pass_eq] by blast
  then show ?thesis unfolding s m t by auto
qed

section \<open>Release\<close>

lemma release_loop_calls:
  "set es \<subseteq> set owned \<Longrightarrow>
   \<exists>cs. fw_calls (snd (release_loop E live es errs w)) = fw_calls w @ cs \<and> unexposes owned live [] cs"
proof (induction es arbitrary: errs w)
  case (Cons e es)
  show ?case
  proof (cases "e_remote e = [] \<or> ekey e \<notin> live")
    case True
    then show ?thesis using Cons by simp
  next
    case False
    obtain x w' where d: "do_unexpose E (entry_mapping e) w = (x, w')" by (cases "do_unexpose E (entry_mapping e) w")
    have c: "fw_calls w' = fw_calls w @ [CUnexpose (entry_mapping e)]" by (rule do_calls(3) [OF d])
    have u: "unexposes owned live [] [CUnexpose (entry_mapping e)]"
      using False Cons.prems by (auto simp: unexposes_def)
    obtain errs' where r: "release_loop E live (e # es) errs w = release_loop E live es errs' w'"
      using False d by (cases x) auto
    obtain cs where "fw_calls (snd (release_loop E live es errs' w')) = fw_calls w' @ cs" "unexposes owned live [] cs"
      using Cons.IH [of errs' w'] Cons.prems by auto
    then show ?thesis using c u unfolding r by (intro exI [of _ "CUnexpose (entry_mapping e) # cs"]) (simp add: unexposes_def)
  qed
qed simp

text \<open>Fact (safety): releasing a machine's mappings lists the table, removes only owned, live
  mappings, and records the empty owned set last, also when some removals failed; with
  nothing owned, or when the record or the table cannot be read, it changes nothing.\<close>

theorem release_only_owned:
  "(\<exists>e. loaded = Inl e \<and> release E loaded w = (Some e, None, w))
   \<or> (\<exists>st. loaded = Inr st \<and> st_owned st = [] \<and> release E loaded w = (None, None, w))
   \<or> (\<exists>st err w1. loaded = Inr st \<and> do_list E w = (Inl err, w1) \<and> fst (snd (release E loaded w)) = None \<and>
        fw_calls (snd (snd (release E loaded w))) = fw_calls w @ [CList])
   \<or> (\<exists>st st' us. loaded = Inr st \<and> fst (snd (release E loaded w)) = Some st' \<and> st_owned st' = [] \<and>
        fw_calls (snd (snd (release E loaded w))) = fw_calls w @ [CList] @ us @ [CSave st'] \<and>
        unexposes (st_owned st) (live_keys E w) [] us)"
proof (cases loaded)
  case (Inl e)
  then show ?thesis by (simp add: release_def)
next
  case (Inr st)
  obtain r w1 where l: "do_list E w = (r, w1)" by (cases "do_list E w")
  have c1: "fw_calls w1 = fw_calls w @ [CList]" by (rule do_calls(1) [OF l])
  consider "st_owned st = []" | err where "st_owned st \<noteq> []" "r = Inl err" | ms where "st_owned st \<noteq> []" "r = Inr ms"
    by (cases r) auto
  then show ?thesis
  proof cases
    case 1
    then show ?thesis using Inr by (simp add: release_def)
  next
    case (2 err)
    then show ?thesis using Inr l c1 by (simp add: release_def)
  next
    case (3 ms)
    have live: "live_keys E w = key ` set ms" unfolding live_keys_def l 3 by simp
    obtain errs w2 where rl: "release_loop E (key ` set ms) (st_owned st) [] w1 = (errs, w2)" by (cases "release_loop E (key ` set ms) (st_owned st) [] w1")
    obtain us where us: "fw_calls w2 = fw_calls w1 @ us" "unexposes (st_owned st) (live_keys E w) [] us"
      using release_loop_calls [OF order_refl, of E "key ` set ms" "st_owned st" "[]" w1] unfolding rl live by auto
    obtain serr st' w3 where sv: "save_state E (st\<lparr>st_owned := []\<rparr>) w2 = (serr, st', w3)" by (metis prod_cases3)
    have "st_owned st' = []" "fw_calls w3 = fw_calls w2 @ [CSave st']"
      using save_state_simps [OF sv] by simp_all
    moreover have "fst (snd (release E loaded w)) = Some st'" "snd (snd (release E loaded w)) = w3"
      using Inr 3 l rl sv by (simp_all add: release_def Let_def)
    ultimately show ?thesis using Inr us c1 by (intro disjI2) (rule exI [of _ st], rule exI [of _ st'], rule exI [of _ us], simp)
  qed
qed

section \<open>A failed save is not repeated\<close>

text \<open>A provider with an empty table over a disk whose first write fails.\<close>

definition bad_disk :: "nat fenv" where
  "bad_disk =
     \<lparr>fe_list = \<lambda>s. (Inr [], s), fe_expose = \<lambda>m s. (None, s), fe_unexpose = \<lambda>m s. (None, s),
      fe_write = \<lambda>st n. (if n = 0 then Some (plain_err ''disk full'') else None, Suc n), fe_now = \<lambda>s. 0\<rparr>"

definition empty_state :: fstate where
  "empty_state = \<lparr>st_version = 1, st_updated = 0, st_publishAddr = [], st_owned = []\<rparr>"

text \<open>Fact (error): after a pass whose save failed, the next pass over the same in-memory record
  exposes the mapping with no save before or after it: the entry was added to the record in
  memory by the failed pass, so the second pass takes it for recorded. The provider then
  holds a mapping that no record on disk owns.\<close>

theorem failed_save_is_not_retried:
  "let (r1, st1, w1) = converge_with bad_disk demo_plan empty_state \<lparr>fw_env = 0, fw_calls = []\<rparr>;
       (r2, st2, w2) = converge_with bad_disk demo_plan st1 w1
   in snd r1 \<noteq> None \<and> snd r2 = None \<and> fw_calls w2 = [CList, CSave st1, CList, CExpose demo_mapping]
      \<and> st_owned st1 = [new_entry 0 demo_mapping] \<and> st_owned st2 = st_owned st1"
proof -
  let ?k = "key demo_mapping"
  have want: "gm_of key (pl_mappings demo_plan) = [(?k, demo_mapping)]"
    by (simp add: demo_plan_def gm_of_def gm_put_def gm_del_def)
  have k: "ekey (new_entry 0 demo_mapping) = ?k" by simp
  have e: "e_error (new_entry 0 demo_mapping) = []" by (simp add: new_entry_def)
  have n: "\<lparr>e_proto = m_proto demo_mapping, e_local = m_local demo_mapping, e_remote = m_remote demo_mapping,
      e_error = [], e_since = 0\<rparr> = new_entry 0 demo_mapping"
    by (simp add: new_entry_def)
  have p1: "converge_with bad_disk demo_plan empty_state \<lparr>fw_env = 0, fw_calls = []\<rparr> =
      ((empty_result, Some (saving_error (plain_err ''disk full''))),
       empty_state\<lparr>st_owned := [new_entry 0 demo_mapping]\<rparr>,
       \<lparr>fw_env = 1, fw_calls = [CList, CSave (empty_state\<lparr>st_owned := [new_entry 0 demo_mapping]\<rparr>)]\<rparr>)"
    unfolding converge_with_def Let_def want
    by (simp add: demo_plan_def gm_of_def do_list_def bad_disk_def stale_phase_def empty_state_def sorted_keys_def
        missing_phase_def missing_step_def owned_index_def save_and_expose_def save_state_def state_version_def
        Let_def n empty_result_def)
  have p2: "converge_with bad_disk demo_plan (empty_state\<lparr>st_owned := [new_entry 0 demo_mapping]\<rparr>)
        \<lparr>fw_env = 1, fw_calls = [CList, CSave (empty_state\<lparr>st_owned := [new_entry 0 demo_mapping]\<rparr>)]\<rparr> =
      ((empty_result\<lparr>res_exposed := [demo_mapping]\<rparr>, None), empty_state\<lparr>st_owned := [new_entry 0 demo_mapping]\<rparr>,
       \<lparr>fw_env = 1, fw_calls = [CList, CSave (empty_state\<lparr>st_owned := [new_entry 0 demo_mapping]\<rparr>), CList, CExpose demo_mapping]\<rparr>)"
    unfolding converge_with_def Let_def want
    by (simp add: demo_plan_def gm_of_def do_list_def bad_disk_def stale_phase_def stale_step_def empty_state_def sorted_keys_def
        missing_phase_def missing_step_def owned_index_def save_and_expose_def expose_phase_def expose_step_def
        do_expose_def error_at_def pending_text_def e Let_def empty_result_def)
  show ?thesis unfolding p1 Let_def prod.case p2 by (simp add: empty_result_def)
qed

end
