(* ===== verification/Forwarder_Run.thy ===== *)
theory Forwarder_Run
  imports Netprov
begin

text \<open>
  The forwarder's loop (\<^verbatim>\<open>internal/forwarder/forwarder.go\<close>, \<^verbatim>\<open>debounce.go\<close> and the argv
  match of \<^verbatim>\<open>process.go\<close>): configuration defaults, event relevance, the memo of the guest's
  pf anchor, one resync, the loop over timer ticks and debounced events, the debouncer as a
  state machine, and the event stream with its backoff. Durations are integers
  (nanoseconds); the engine and the guest are parameters of the model, functions of the
  same world \<open>'w\<close> the provider works on.
\<close>

section \<open>Configuration\<close>

record config =
  cf_guestIP :: string
  cf_hostIP :: string
  cf_sshLocal :: string
  cf_resync :: int
  cf_debounce :: int
  cf_minBackoff :: int
  cf_maxBackoff :: int
  cf_reloadEvery :: int

definition nsec :: int where "nsec = 1000000000"
definition default_resync :: int where "default_resync = 30 * nsec"
definition default_debounce :: int where "default_debounce = 300 * 1000000"
definition default_min_backoff :: int where "default_min_backoff = nsec"
definition default_max_backoff :: int where "default_max_backoff = 10 * nsec"
definition default_reload_every :: int where "default_reload_every = 10"

definition cfg_defaults :: "config \<Rightarrow> config" where
  "cfg_defaults c0 =
     (let c = c0\<lparr>cf_hostIP := host_ip (cf_hostIP c0)\<rparr>;
          c = (if cf_resync c \<le> 0 then c\<lparr>cf_resync := default_resync\<rparr> else c);
          c = (if cf_debounce c \<le> 0 then c\<lparr>cf_debounce := default_debounce\<rparr> else c);
          c = (if cf_minBackoff c \<le> 0 then c\<lparr>cf_minBackoff := default_min_backoff\<rparr> else c);
          c = (if cf_maxBackoff c < cf_minBackoff c then c\<lparr>cf_maxBackoff := default_max_backoff\<rparr> else c);
          c = (if cf_reloadEvery c \<le> 0 then c\<lparr>cf_reloadEvery := default_reload_every\<rparr> else c)
      in c)"

section \<open>Events and leaked mappings\<close>

record event =
  ev_type :: string
  ev_status :: string

definition relevant_actions :: "string list" where
  "relevant_actions = [''start'', ''died'', ''stop'', ''remove'', ''restart'', ''pause'', ''unpause'']"

definition relevant :: "(string \<Rightarrow> event option) \<Rightarrow> string \<Rightarrow> bool" where
  "relevant unmarshal line =
     (case unmarshal line of
        None \<Rightarrow> False
      | Some e \<Rightarrow> (if ev_type e \<noteq> [] \<and> ev_type e \<noteq> ''container'' then False
                  else ev_status e \<in> set relevant_actions))"

text \<open>\<open>split_host_port\<close> stands for \<^verbatim>\<open>net.SplitHostPort\<close>.\<close>

definition leaked :: "(string \<Rightarrow> (string \<times> string) option) \<Rightarrow> pmapping list \<Rightarrow> string \<Rightarrow> string \<Rightarrow> pmapping list" where
  "leaked split_host_port live guestIP sshLocal =
     filter (\<lambda>mp. case split_host_port (m_remote mp) of
                    None \<Rightarrow> False
                  | Some (h, p) \<Rightarrow> h = guestIP \<and> \<not> (p = ''22'' \<or> (sshLocal \<noteq> [] \<and> m_local mp = sshLocal))) live"

section \<open>The guest's anchor\<close>

record 'w engine =
  en_ps :: "'w \<Rightarrow> (string + string) \<times> 'w"
  en_inspect :: "string list \<Rightarrow> 'w \<Rightarrow> (string + string) \<times> 'w"
  en_guest :: bool
  en_apply :: "string \<Rightarrow> 'w \<Rightarrow> string option \<times> 'w"
  en_ps_json :: "string \<Rightarrow> string + ps_container list"
  en_inspect_json :: "string \<Rightarrow> string + inspect_container list"

record anchor =
  an_text :: string
  an_loaded :: bool

definition no_channel :: string where
  "no_channel = ''jm has no control channel to the guest to install the redirect this publish needs''"

text \<open>The address lookup: \<open>None\<close> when the plan was blocked and the anchor is left alone.\<close>

definition anchor_lookup :: "'w engine \<Rightarrow> plan \<Rightarrow> 'w \<Rightarrow> plan option \<times> plan \<times> 'w" where
  "anchor_lookup G pl w =
     (if pl_rules pl \<noteq> [] then
        (case en_inspect G (container_ids pl) w of
           (Inl err, w1) \<Rightarrow>
             (None, block_plan (''looking up the container''@ [CHR 0x27] @ ''s address in the guest: '' @ err) pl, w1)
         | (Inr raw, w1) \<Rightarrow>
             (case parse_inspect (en_inspect_json G) raw of
                Inl err \<Rightarrow> (None, block_plan err pl, w1)
              | Inr ips \<Rightarrow> (Some (resolve ips pl), resolve ips pl, w1)))
      else (Some pl, pl, w))"

definition anchor_apply :: "'w engine \<Rightarrow> bool \<Rightarrow> anchor \<Rightarrow> plan \<Rightarrow> 'w \<Rightarrow> anchor \<times> plan \<times> 'w" where
  "anchor_apply G force a pl w =
     (if \<not> en_guest G then
        (if pl_rules pl \<noteq> [] then (a, block_plan no_channel pl, w) else (a, pl, w))
      else
        (case anchor_lookup G pl w of
           (None, pl1, w1) \<Rightarrow> (a, pl1, w1)
         | (Some pl1, _, w1) \<Rightarrow>
            (let text = anchor_text (pl_rules pl1) in
             if \<not> force \<and> an_loaded a \<and> text = an_text a then (a, pl1, w1)
             else case en_apply G text w1 of
                 (Some err, w2) \<Rightarrow>
                   (a\<lparr>an_loaded := False\<rparr>, block_plan (''installing the redirect in the guest: '' @ err) pl1, w2)
               | (None, w2) \<Rightarrow> (\<lparr>an_text = text, an_loaded = True\<rparr>, pl1, w2))))"

section \<open>One resync\<close>

record loop_state =
  lo_st :: fstate
  lo_anchor :: anchor
  lo_ticks :: int

text \<open>A resync stops the loop only when the provider has no mapping API at all.\<close>

definition resync ::
  "'w fenv \<Rightarrow> 'w engine \<Rightarrow> config \<Rightarrow> bool \<Rightarrow> loop_state \<Rightarrow> 'w fworld \<Rightarrow> perr option \<times> loop_state \<times> 'w fworld" where
  "resync E G cfg force s w =
     (case en_ps G (fw_env w) of
        (Inl err, w1) \<Rightarrow> (None, s, w\<lparr>fw_env := w1\<rparr>)
      | (Inr data, w1) \<Rightarrow>
         (case compute (en_ps_json G) data (cf_guestIP cfg) (cf_hostIP cfg) of
            Inl err \<Rightarrow> (None, s, w\<lparr>fw_env := w1\<rparr>)
          | Inr pl \<Rightarrow>
             (let (a, pl1, w2) = anchor_apply G force (lo_anchor s) pl w1;
                  ((res, err), st, w3) = converge_with E pl1 (lo_st s) (w\<lparr>fw_env := w2\<rparr>);
                  s' = s\<lparr>lo_anchor := a, lo_st := st\<rparr>
              in (case err of
                    Some e \<Rightarrow> (if pe_unsupported e then (Some e, s', w3) else (None, s', w3))
                  | None \<Rightarrow> (None, s', w3)))))"

text \<open>What wakes the loop: a tick, a debounced event (with the force flag it carries), or the
  end of the context.\<close>

datatype wake = Tick | Event bool

fun run_loop ::
  "'w fenv \<Rightarrow> 'w engine \<Rightarrow> config \<Rightarrow> wake list \<Rightarrow> loop_state \<Rightarrow> 'w fworld \<Rightarrow> perr option \<times> loop_state \<times> 'w fworld" where
  "run_loop E G cfg [] s w = (None, s, w)"
| "run_loop E G cfg (Tick # es) s w =
     (let s1 = s\<lparr>lo_ticks := lo_ticks s + 1\<rparr> in
      case resync E G cfg (lo_ticks s1 mod cf_reloadEvery cfg = 0) s1 w of
        (Some e, s2, w2) \<Rightarrow> (Some e, s2, w2)
      | (None, s2, w2) \<Rightarrow> run_loop E G cfg es s2 w2)"
| "run_loop E G cfg (Event f # es) s w =
     (case resync E G cfg f s w of
        (Some e, s2, w2) \<Rightarrow> (Some e, s2, w2)
      | (None, s2, w2) \<Rightarrow> run_loop E G cfg es s2 w2)"

definition run_start :: "perr + fstate \<Rightarrow> fstate" where
  "run_start loaded =
     (case loaded of
        Inl e \<Rightarrow> \<lparr>st_version = 0, st_updated = 0, st_publishAddr = [], st_owned = []\<rparr>
      | Inr st \<Rightarrow> st)"

definition run ::
  "'w fenv \<Rightarrow> 'w engine \<Rightarrow> config \<Rightarrow> perr + fstate \<Rightarrow> wake list \<Rightarrow> 'w fworld \<Rightarrow> perr option \<times> loop_state option \<times> 'w fworld" where
  "run E G cfg0 loaded es w =
     (let cfg = cfg_defaults cfg0 in
      if cf_guestIP cfg = [] then
        (Some (plain_err ''forwarder: provider gives the guest no address reachable from the host''), None, w)
      else
        (let st0 = run_start loaded;
             w1 = (if st_owned st0 = [] then snd (do_list E w) else w);
             (st1, w2) = (if st_publishAddr st0 \<noteq> cf_hostIP cfg
                          then snd (save_state E (st0\<lparr>st_publishAddr := cf_hostIP cfg\<rparr>) w1)
                          else (st0, w1));
             s0 = \<lparr>lo_st = st1, lo_anchor = \<lparr>an_text = [], an_loaded = False\<rparr>, lo_ticks = 0\<rparr>
         in case resync E G cfg True s0 w2 of
              (Some e, s1, w3) \<Rightarrow> (Some e, Some s1, w3)
            | (None, s1, w3) \<Rightarrow>
               (case run_loop E G cfg es s1 w3 of (r, s2, w4) \<Rightarrow> (r, Some s2, w4))))"

section \<open>The debouncer\<close>

text \<open>\<open>db_timer\<close> is the running timer's due time; \<open>db_signal\<close> the one-slot channel; \<open>db_taken\<close>
  that the loop has received a signal and not yet read the force flag.\<close>

record deb =
  db_timer :: "int option"
  db_signal :: bool
  db_force :: bool
  db_taken :: bool

datatype deb_event = Trigger bool int | Fire int | Recv | Take

definition deb_init :: deb where
  "deb_init = \<lparr>db_timer = None, db_signal = False, db_force = False, db_taken = False\<rparr>"

definition deb_step :: "int \<Rightarrow> deb \<Rightarrow> deb_event \<Rightarrow> deb" where
  "deb_step delay d e =
     (case e of
        Trigger f now \<Rightarrow> d\<lparr>db_force := db_force d \<or> f, db_timer := Some (now + delay)\<rparr>
      | Fire now \<Rightarrow> (case db_timer d of
                      Some t \<Rightarrow> (if t \<le> now then d\<lparr>db_timer := None, db_signal := True\<rparr> else d)
                    | None \<Rightarrow> d)
      | Recv \<Rightarrow> (if db_signal d then d\<lparr>db_signal := False, db_taken := True\<rparr> else d)
      | Take \<Rightarrow> d\<lparr>db_force := False, db_taken := False\<rparr>)"

definition deb_stop :: "deb \<Rightarrow> deb" where
  "deb_stop d = d\<lparr>db_timer := None\<rparr>"

section \<open>The event stream\<close>

definition next_backoff :: "int \<Rightarrow> int \<Rightarrow> int" where
  "next_backoff mx b = (if b * 2 > mx then mx else b * 2)"

datatype conn = OpenFailed | Stream "string list"
datatype stream_act = TriggerAct bool | Sleep int

fun read_events :: "(string \<Rightarrow> bool) \<Rightarrow> int \<Rightarrow> int \<Rightarrow> string list \<Rightarrow> stream_act list \<times> int" where
  "read_events rel mn b [] = ([TriggerAct False], b)"
| "read_events rel mn b (l # ls) =
     (let (acts, b') = read_events rel mn mn ls in (if rel l then TriggerAct False # acts else acts, b'))"

fun stream_events :: "(string \<Rightarrow> bool) \<Rightarrow> config \<Rightarrow> bool \<Rightarrow> int \<Rightarrow> conn list \<Rightarrow> stream_act list" where
  "stream_events rel cfg reconnect b [] = []"
| "stream_events rel cfg reconnect b (OpenFailed # cs) =
     Sleep b # stream_events rel cfg True (next_backoff (cf_maxBackoff cfg) b) cs"
| "stream_events rel cfg reconnect b (Stream ls # cs) =
     (let (acts, b1) = read_events rel (cf_minBackoff cfg) b ls
      in (if reconnect then [TriggerAct True] else []) @ acts @
         Sleep b1 # stream_events rel cfg True (next_backoff (cf_maxBackoff cfg) b1) cs)"

section \<open>Recognising the process\<close>

record fproc =
  fp_root :: string
  fp_name :: string

definition fwd_command :: string where "fwd_command = ''_forwarder''"

definition fwd_args :: "fproc \<Rightarrow> string list" where
  "fwd_args p = [''--state-root'', fp_root p, fwd_command, fp_name p]"

definition fwd_is_ours :: "string \<Rightarrow> fproc \<Rightarrow> bool" where
  "fwd_is_ours argv0 p =
     (let argv = '' '' @ argv0 @ '' '' in
      contains argv ('' --state-root '' @ fp_root p @ '' '') \<and>
      contains argv ('' '' @ fwd_command @ '' '' @ fp_name p @ '' ''))"

definition fwd_read_pid :: "string + string \<Rightarrow> string + int" where
  "fwd_read_pid f =
     (case f of
        Inl err \<Rightarrow> Inl err
      | Inr data \<Rightarrow> (case atoi (trim_space data) of
                      None \<Rightarrow> Inl (''forwarder: bad pid file: '' @ quote (trim_space data))
                    | Some pid \<Rightarrow> (if pid \<le> 0 then Inl (''forwarder: bad pid file: '' @ quote (trim_space data))
                                  else Inr pid)))"

definition fwd_alive :: "string + string \<Rightarrow> (int \<Rightarrow> string) \<Rightarrow> fproc \<Rightarrow> int \<times> bool" where
  "fwd_alive pidfile command_line p =
     (case fwd_read_pid pidfile of Inl _ \<Rightarrow> (0, False) | Inr pid \<Rightarrow> (pid, fwd_is_ours (command_line pid) p))"

section \<open>The anchor\<close>

text \<open>\<open>memo_right\<close>: what the forwarder believes it loaded is what the guest holds.\<close>

definition memo_right :: "('w \<Rightarrow> string) \<Rightarrow> anchor \<Rightarrow> 'w \<Rightarrow> bool" where
  "memo_right content a w \<longleftrightarrow> (an_loaded a \<longrightarrow> content w = an_text a)"

definition keeps_legs :: "plan \<Rightarrow> plan \<Rightarrow> bool" where
  "keeps_legs pl pl' \<longleftrightarrow> pl_mappings pl' = pl_mappings pl \<and>
     (\<forall>r \<in> set (pl_rules pl). \<forall>k \<in> set (r_keys r).
        (\<exists>r' \<in> set (pl_rules pl'). k \<in> set (r_keys r')) \<or> k \<in> dom (pl_pending pl'))"

lemma keeps_legs_refl [simp]: "keeps_legs pl pl"
  by (auto simp: keeps_legs_def)

lemma keeps_legs_block: "keeps_legs pl (block_plan why pl)"
  by (auto simp: keeps_legs_def block_plan_pending dom_def)

lemma keeps_legs_resolve: "keeps_legs pl (resolve ips pl)"
proof -
  have m: "pl_mappings (resolve ips pl) = pl_mappings pl"
    by (simp add: resolve_def Let_def split: prod.splits)
  have "(\<exists>r' \<in> set (pl_rules (resolve ips pl)). k \<in> set (r_keys r')) \<or> k \<in> dom (pl_pending (resolve ips pl))"
    if "r \<in> set (pl_rules pl)" "k \<in> set (r_keys r)" for r k
    using that by (cases "ip_of ips r = []") (auto simp: resolve_rules resolve_pending dom_def)
  then show ?thesis using m by (simp add: keeps_legs_def)
qed

lemma keeps_legs_trans_block: "keeps_legs pl pl' \<Longrightarrow> (\<And>k. k \<in> dom (pl_pending pl') \<Longrightarrow> True) \<Longrightarrow> keeps_legs pl (block_plan why pl')"
  by (fastforce simp: keeps_legs_def block_plan_pending dom_def)

lemma anchor_lookup_cases:
  assumes "anchor_lookup G pl w = (r, pl1, w1)" and "\<And>ids w x w'. en_inspect G ids w = (x, w') \<Longrightarrow> content w' = content w"
  shows "content w1 = content w \<and> keeps_legs pl pl1 \<and> (r = Some pl1 \<or> r = None \<and> pl_rules pl1 = [])"
  using assms
  by (auto simp: anchor_lookup_def keeps_legs_block keeps_legs_resolve block_plan_pending
      split: if_splits sum.splits prod.splits)

text \<open>Fact (safety): applying the guest anchor keeps every host leg, serves each redirected
  mapping by a rule of the plan or marks it pending with a reason, and whenever rules remain
  the guest's anchor holds exactly their text, provided the memo was right or the apply was
  forced; a right memo stays right, also when the lookup or the load fails.\<close>

theorem anchor_in_step:
  assumes load: "\<And>t w w'. en_apply G t w = (None, w') \<Longrightarrow> content w' = t"
    and inspect: "\<And>ids w x w'. en_inspect G ids w = (x, w') \<Longrightarrow> content w' = content w"
    and run: "anchor_apply G force a pl w = (a', pl', w')"
    and belief: "force \<or> memo_right content a w" "en_guest G"
  shows "keeps_legs pl pl' \<and> (pl_rules pl' \<noteq> [] \<longrightarrow> content w' = anchor_text (pl_rules pl')) \<and>
    (memo_right content a w \<longrightarrow> memo_right content a' w')"
proof -
  obtain r pl1 w1 where l: "anchor_lookup G pl w = (r, pl1, w1)" by (metis prod_cases3)
  note lk = anchor_lookup_cases [of G pl w r pl1 w1 content, OF l inspect]
  show ?thesis
  proof (cases r)
    case None
    then have "a' = a" "pl' = pl1" "w' = w1" "pl_rules pl1 = []"
      using run l belief(2) lk by (auto simp: anchor_apply_def)
    then show ?thesis using lk by (simp add: memo_right_def)
  next
    case (Some p)
    then have p: "p = pl1" using lk by simp
    show ?thesis
    proof (cases "\<not> force \<and> an_loaded a \<and> anchor_text (pl_rules pl1) = an_text a")
      case True
      then have "a' = a" "pl' = pl1" "w' = w1"
        using run l belief(2) Some p by (auto simp: anchor_apply_def Let_def)
      then show ?thesis using lk True belief by (auto simp: memo_right_def)
    next
      case False
      obtain e w2 where ap: "en_apply G (anchor_text (pl_rules pl1)) w1 = (e, w2)"
        by (cases "en_apply G (anchor_text (pl_rules pl1)) w1")
      show ?thesis
      proof (cases e)
        case None
        then have "a' = \<lparr>an_text = anchor_text (pl_rules pl1), an_loaded = True\<rparr>" "pl' = pl1" "w' = w2"
          using run l belief(2) Some p False ap by (auto simp: anchor_apply_def Let_def)
        then show ?thesis using lk load [OF ap [unfolded None]] by (simp add: memo_right_def)
      next
        case (Some err)
        then have "a' = a\<lparr>an_loaded := False\<rparr>" "pl' = block_plan (''installing the redirect in the guest: '' @ err) pl1"
          using run l belief(2) \<open>r = Some p\<close> p False ap by (auto simp: anchor_apply_def Let_def)
        then show ?thesis using lk keeps_legs_trans_block
          by (auto simp: memo_right_def block_plan_pending)
      qed
    qed
  qed
qed

text \<open>A guest whose anchor is one text, and one redirect to load.\<close>

definition text_guest :: "string engine" where
  "text_guest = \<lparr>en_ps = \<lambda>w. (Inr [], w), en_inspect = \<lambda>ids w. (Inr ''x'', w), en_guest = True,
     en_apply = \<lambda>t w. (None, t), en_ps_json = \<lambda>_. Inr [],
     en_inspect_json = \<lambda>_. Inr [\<lparr>ic_id = ''c1'', ic_ipAddress = ''10.88.0.5'', ic_networks = []\<rparr>]\<rparr>"

definition redirect_plan :: plan where
  "redirect_plan = \<lparr>pl_mappings = [], pl_rules = [demo_rule], pl_unpublishable = [], pl_pending = Map.empty\<rparr>"

definition stale_anchor :: anchor where
  "stale_anchor = \<lparr>an_text = anchor_text [demo_rule\<lparr>r_containerIP := ''10.88.0.5''\<rparr>], an_loaded = True\<rparr>"

lemma redirect_plan_applied:
  "anchor_apply text_guest True stale_anchor redirect_plan [] =
     (stale_anchor, resolve [''c1'' \<mapsto> ''10.88.0.5''] redirect_plan,
      anchor_text [demo_rule\<lparr>r_containerIP := ''10.88.0.5''\<rparr>])"
proof -
  have r: "pl_rules (resolve [''c1'' \<mapsto> ''10.88.0.5''] redirect_plan) = [demo_rule\<lparr>r_containerIP := ''10.88.0.5''\<rparr>]"
    by (simp add: resolve_rules redirect_plan_def ip_of_def demo_rule_def)
  have i: "parse_inspect (\<lambda>_. Inr [\<lparr>ic_id = ''c1'', ic_ipAddress = ''10.88.0.5'', ic_networks = []\<rparr>]) ''x'' = Inr [''c1'' \<mapsto> ''10.88.0.5'']"
    by (simp add: parse_inspect_def inspect_ip_def)
  have n: "pl_rules redirect_plan \<noteq> []" by (simp add: redirect_plan_def)
  show ?thesis
    using n by (simp add: anchor_apply_def anchor_lookup_def text_guest_def i r Let_def stale_anchor_def)
qed

theorem anchor_in_step_witness:
  "anchor_text [demo_rule\<lparr>r_containerIP := ''10.88.0.5''\<rparr>] =
     anchor_text (pl_rules (resolve [''c1'' \<mapsto> ''10.88.0.5''] redirect_plan))"
proof -
  have r: "pl_rules (resolve [''c1'' \<mapsto> ''10.88.0.5''] redirect_plan) \<noteq> []"
    by (simp add: resolve_rules redirect_plan_def ip_of_def demo_rule_def)
  have "en_guest text_guest" by (simp add: text_guest_def)
  from anchor_in_step [of text_guest id, OF _ _ redirect_plan_applied _ this] show ?thesis
    using r by (auto simp: text_guest_def)
qed

section \<open>The loop\<close>

lemma compute_unpublishable: "compute u js g h = Inr pl \<Longrightarrow> pl_unpublishable pl = []"
  by (auto simp: compute_def plan_of_def Let_def split: sum.splits if_splits)

lemma block_plan_unpublishable [simp]: "pl_unpublishable (block_plan why pl) = pl_unpublishable pl"
  by (simp add: block_plan_def)

lemma resolve_unpublishable [simp]: "pl_unpublishable (resolve ips pl) = pl_unpublishable pl"
  by (simp add: resolve_def Let_def split: prod.splits)

lemma anchor_lookup_unpublishable:
  "anchor_lookup G pl w = (r, pl1, w1) \<Longrightarrow>
     pl_unpublishable pl1 = pl_unpublishable pl \<and> (\<forall>p. r = Some p \<longrightarrow> pl_unpublishable p = pl_unpublishable pl)"
  by (auto simp: anchor_lookup_def split: if_splits sum.splits prod.splits)

lemma anchor_apply_unpublishable:
  assumes "anchor_apply G force a pl w = (a', pl', w')"
  shows "pl_unpublishable pl' = pl_unpublishable pl"
proof -
  obtain r pl1 w1 where l: "anchor_lookup G pl w = (r, pl1, w1)" by (metis prod_cases3)
  show ?thesis
    using assms anchor_lookup_unpublishable [OF l]
    by (auto simp: anchor_apply_def l Let_def split: if_splits option.splits prod.splits)
qed

definition owns_distinct :: "loop_state \<Rightarrow> bool" where
  "owns_distinct s \<longleftrightarrow> distinct (map ekey (st_owned (lo_st s)))"

lemma resync_owns:
  assumes "owns_distinct s" "resync E G cfg force s w = (r, s', w')"
  shows "owns_distinct s'" "\<And>e. r = Some e \<Longrightarrow> pe_unsupported e"
proof -
  obtain p w1 where ps: "en_ps G (fw_env w) = (p, w1)" by (cases "en_ps G (fw_env w)")
  have "owns_distinct s' \<and> (\<forall>e. r = Some e \<longrightarrow> pe_unsupported e)"
  proof (cases p)
    case (Inl e)
    then show ?thesis using assms ps by (simp add: resync_def)
  next
    case (Inr data)
    show ?thesis
    proof (cases "compute (en_ps_json G) data (cf_guestIP cfg) (cf_hostIP cfg)")
      case (Inl e)
      then show ?thesis using assms ps Inr by (simp add: resync_def)
    next
      case c: (Inr pl)
      obtain a pl1 w2 where an: "anchor_apply G force (lo_anchor s) pl w1 = (a, pl1, w2)" by (metis prod_cases3)
      obtain res err st w3 where cv: "converge_with E pl1 (lo_st s) (w\<lparr>fw_env := w2\<rparr>) = ((res, err), st, w3)"
        by (metis prod.collapse)
      have "distinct (map ekey (st_owned st))"
        using pass_ownership [OF cv] compute_unpublishable [OF c] anchor_apply_unpublishable [OF an] assms(1)
        by (simp add: owns_distinct_def)
      then show ?thesis using assms(2) ps Inr c an cv
        by (cases err) (auto simp: resync_def owns_distinct_def Let_def split: if_splits)
    qed
  qed
  then show "owns_distinct s'" "\<And>e. r = Some e \<Longrightarrow> pe_unsupported e" by simp_all
qed

text \<open>Fact (invariant): however long the loop runs and whatever wakes it, the owned set stays free
  of duplicates, and the loop ends by itself only when the provider has no mapping API.\<close>

theorem run_loop_owns:
  assumes "distinct (map ekey (st_owned (lo_st s)))" and "run_loop E G cfg es s w = (r, s', w')"
  shows "distinct (map ekey (st_owned (lo_st s'))) \<and> (case r of None \<Rightarrow> True | Some e \<Rightarrow> pe_unsupported e)"
  using assms
proof (induction es arbitrary: s w)
  case (Cons e es)
  define s0 where "s0 = (case e of Tick \<Rightarrow> s\<lparr>lo_ticks := lo_ticks s + 1\<rparr> | Event f \<Rightarrow> s)"
  define f where "f = (case e of Tick \<Rightarrow> lo_ticks s0 mod cf_reloadEvery cfg = 0 | Event f \<Rightarrow> f)"
  obtain r1 s1 w1 where rs: "resync E G cfg f s0 w = (r1, s1, w1)" by (metis prod_cases3)
  have d: "owns_distinct s0" using Cons.prems(1) by (cases e) (simp_all add: s0_def owns_distinct_def)
  have run: "(case r1 of Some e \<Rightarrow> (Some e, s1, w1) | None \<Rightarrow> run_loop E G cfg es s1 w1) = (r, s', w')"
    using Cons.prems(2) rs by (cases e) (auto simp: s0_def f_def Let_def split: option.splits)
  show ?case
  proof (cases r1)
    case None
    then show ?thesis using run Cons.IH resync_owns(1) [OF d rs] by (simp add: owns_distinct_def)
  next
    case (Some x)
    then show ?thesis using run resync_owns [OF d rs] by (auto simp: owns_distinct_def)
  qed
qed simp

lemma surj_triple: "t = (fst t, fst (snd t), snd (snd t))"
  by simp

theorem run_loop_owns_witness:
  "distinct (map ekey (st_owned (lo_st (fst (snd (run_loop table_env
     \<lparr>en_ps = \<lambda>w. (Inr [], w), en_inspect = \<lambda>ids w. (Inr [], w), en_guest = False, en_apply = \<lambda>t w. (None, w),
       en_ps_json = \<lambda>_. Inr [], en_inspect_json = \<lambda>_. Inr []\<rparr>
     (cfg_defaults \<lparr>cf_guestIP = ''10.0.0.2'', cf_hostIP = [], cf_sshLocal = [], cf_resync = 0, cf_debounce = 0,
        cf_minBackoff = 0, cf_maxBackoff = 0, cf_reloadEvery = 0\<rparr>)
     [Tick, Event True] \<lparr>lo_st = demo_state, lo_anchor = stale_anchor, lo_ticks = 0\<rparr> demo_world))))))"
  by (rule run_loop_owns [THEN conjunct1, OF _ surj_triple]) (simp add: demo_state_def)

section \<open>The debouncer\<close>

text \<open>A forced resync that was asked for is on its way: a timer runs, a signal waits, or the
  loop has taken a signal and is about to read the flag.\<close>

definition force_pending :: "deb \<Rightarrow> bool" where
  "force_pending d \<longleftrightarrow> (db_force d \<longrightarrow> db_timer d \<noteq> None \<or> db_signal d \<or> db_taken d)"

interpretation deb: step_system "deb_step delay" force_pending for delay
  by unfold_locales (auto simp: deb_step_def force_pending_def split: deb_event.splits option.splits if_splits)

text \<open>Fact (liveness): a trigger that asks for a forced resync is never lost to coalescing: after
  any sequence of triggers, timer expiries and receptions the flag is either unset, read by
  the resync it asked for, or a signal that leads to reading it is due.\<close>

theorem force_never_lost:
  "force_pending (run_steps (deb_step delay) deb_init es)"
  by (rule deb.run_inv) (simp add: force_pending_def deb_init_def)

text \<open>A trigger always leads to a signal: once its delay has passed the channel is full.\<close>

lemma trigger_signals:
  assumes "now + delay \<le> later"
  shows "db_signal (deb_step delay (deb_step delay d (Trigger f now)) (Fire later))"
    "db_force (deb_step delay (deb_step delay d (Trigger True now)) (Fire later))"
  using assms by (simp_all add: deb_step_def)

section \<open>The backoff\<close>

lemma cfg_defaults_pos:
  "0 < cf_resync (cfg_defaults c)" "0 < cf_debounce (cfg_defaults c)" "0 < cf_minBackoff (cfg_defaults c)"
  "0 < cf_maxBackoff (cfg_defaults c)" "0 < cf_reloadEvery (cfg_defaults c)" "cf_hostIP (cfg_defaults c) \<noteq> []"
  by (auto simp: cfg_defaults_def Let_def default_resync_def default_debounce_def default_min_backoff_def
      default_max_backoff_def default_reload_every_def nsec_def host_ip_def default_host_ip_def)

lemma read_events_backoff: "snd (read_events rel mn b ls) = (if ls = [] then b else mn)"
  by (induction ls arbitrary: b) (auto simp: case_prod_unfold Let_def)

lemma read_events_no_sleep: "Sleep x \<notin> set (fst (read_events rel mn b ls))"
  by (induction ls arbitrary: b) (auto simp: case_prod_unfold Let_def)

definition in_backoff :: "config \<Rightarrow> int \<Rightarrow> bool" where
  "in_backoff cfg b \<longleftrightarrow> min (cf_minBackoff cfg) (cf_maxBackoff cfg) \<le> b \<and> b \<le> max (cf_minBackoff cfg) (cf_maxBackoff cfg)"

lemma in_backoff_next: "0 < cf_minBackoff cfg \<Longrightarrow> in_backoff cfg b \<Longrightarrow> 0 < b \<Longrightarrow> in_backoff cfg (next_backoff (cf_maxBackoff cfg) b)"
  by (auto simp: in_backoff_def next_backoff_def)

lemma stream_sleeps:
  assumes "0 < cf_minBackoff cfg" "0 < cf_maxBackoff cfg" "in_backoff cfg b" "0 < b"
    and "Sleep x \<in> set (stream_events rel cfg rc b cs)"
  shows "in_backoff cfg x \<and> 0 < x"
  using assms(3-)
proof (induction cs arbitrary: rc b)
  case (Cons c cs)
  have nx: "in_backoff cfg (next_backoff (cf_maxBackoff cfg) b) \<and> 0 < next_backoff (cf_maxBackoff cfg) b"
    if "in_backoff cfg b" "0 < b" for b
    using that assms(1,2) in_backoff_next by (auto simp: next_backoff_def)
  show ?case
  proof (cases c)
    case OpenFailed
    then show ?thesis using Cons nx by auto
  next
    case (Stream ls)
    obtain acts b1 where r: "read_events rel (cf_minBackoff cfg) b ls = (acts, b1)" by (cases "read_events rel (cf_minBackoff cfg) b ls")
    have b1: "in_backoff cfg b1 \<and> 0 < b1"
      using read_events_backoff [of rel "cf_minBackoff cfg" b ls] r Cons.prems assms(1)
      by (auto simp: in_backoff_def split: if_splits)
    have "Sleep x \<notin> set acts" using read_events_no_sleep [of x rel "cf_minBackoff cfg" b ls] r by simp
    then show ?thesis using Stream r Cons.prems(3) Cons.IH [of "next_backoff (cf_maxBackoff cfg) b1" True] b1 nx [of b1]
      by (auto split: if_splits)
  qed
qed simp

text \<open>Fact (bounds): every wait of the event stream, over any sequence of connections, lies
  between the configured backoffs, which the defaults make positive.\<close>

theorem stream_sleep_bounds:
  assumes "Sleep x \<in> set (stream_events rel (cfg_defaults c) False (cf_minBackoff (cfg_defaults c)) cs)"
  shows "0 < x \<and> in_backoff (cfg_defaults c) x"
  using stream_sleeps [OF cfg_defaults_pos(3,4) _ cfg_defaults_pos(3) assms] by (auto simp: in_backoff_def)

definition zero_config :: config where
  "zero_config = \<lparr>cf_guestIP = ''10.0.0.2'', cf_hostIP = [], cf_sshLocal = [], cf_resync = 0, cf_debounce = 0,
     cf_minBackoff = 0, cf_maxBackoff = 0, cf_reloadEvery = 0\<rparr>"

theorem stream_sleep_bounds_witness:
  "in_backoff (cfg_defaults zero_config) 2000000000"
  using stream_sleep_bounds [of 2000000000 "\<lambda>_. True" zero_config "[OpenFailed, OpenFailed]"]
  by (simp add: zero_config_def cfg_defaults_def Let_def next_backoff_def default_min_backoff_def default_max_backoff_def nsec_def
      default_resync_def default_debounce_def default_reload_every_def)

text \<open>A reconnect always asks for a forced resync, before the lines of the new connection.\<close>

lemma reconnect_forces:
  "stream_events rel cfg True b (Stream ls # cs) =
     TriggerAct True # fst (read_events rel (cf_minBackoff cfg) b ls) @
     Sleep (snd (read_events rel (cf_minBackoff cfg) b ls)) #
     stream_events rel cfg True (next_backoff (cf_maxBackoff cfg) (snd (read_events rel (cf_minBackoff cfg) b ls))) cs"
  by (simp add: Let_def split: prod.splits)

section \<open>Recognising the process\<close>

lemma fwd_is_ours_spaced:
  "fwd_is_ours (join '' '' ws) p \<longleftrightarrow>
     contains (spaced ws) ('' '' @ ''--state-root'' @ '' '' @ fp_root p @ '' '') \<and>
     contains (spaced ws) ('' '' @ fwd_command @ '' '' @ fp_name p @ '' '')"
  by (simp add: fwd_is_ours_def spaced_def Let_def)

text \<open>Fact (functional): the command line the forwarder is started with is recognised as this
  machine's forwarder.\<close>

theorem fwd_recognised:
  "fwd_is_ours (join '' '' (exe # fwd_args p)) p"
proof -
  have "spaced (exe # fwd_args p) = '' '' @ exe @ ('' '' @ ''--state-root'' @ '' '' @ fp_root p @ '' '') @ fwd_command @ '' '' @ fp_name p @ '' ''"
    by (simp add: spaced_def fwd_args_def)
  then have a: "contains (spaced (exe # fwd_args p)) ('' '' @ ''--state-root'' @ '' '' @ fp_root p @ '' '')"
    unfolding contains_iff by (metis append.assoc)
  have "spaced (exe # fwd_args p) = ('' '' @ exe @ '' '' @ ''--state-root'' @ '' '' @ fp_root p) @ ('' '' @ fwd_command @ '' '' @ fp_name p @ '' '') @ []"
    by (simp add: spaced_def fwd_args_def)
  then have "contains (spaced (exe # fwd_args p)) ('' '' @ fwd_command @ '' '' @ fp_name p @ '' '')"
    unfolding contains_iff by blast
  with a show ?thesis unfolding fwd_is_ours_spaced by blast
qed

end
