(* ===== verification/Idle.thy ===== *)
theory Idle
  imports GoLib Complex_Main
begin

text \<open>
  Idle detection (\<^verbatim>\<open>internal/idle/idle.go\<close> and \<^verbatim>\<open>probe.go\<close>): the tracker that turns samples
  into idle time, with its flap guard, and the parser of the guest probe's output and of
  \<^verbatim>\<open>ps\<close>'s CPU times. Durations are integers (nanoseconds); the CPU percentages, floats in
  the source, are rationals, so a comparison is exact; a product of durations that Go computes
  in 64 bits is wrapped with \<open>wrap64\<close>. The text of a percentage (\<open>fmt\<close>) and
  \<^verbatim>\<open>strconv.ParseFloat\<close> followed by the conversion to nanoseconds (\<open>sec_ns\<close>) are
  parameters.
\<close>

section \<open>Samples\<close>

record sample =
  sm_jails :: int
  sm_engine :: int
  sm_engineBaseline :: int
  sm_sessions :: int
  sm_sshd :: int
  sm_inhibit :: bool
  sm_activity :: bool
  sm_cpuPercent :: rat
  sm_cpuKnown :: bool

definition empty_sample :: sample where
  "empty_sample = \<lparr>sm_jails = 0, sm_engine = 0, sm_engineBaseline = 0, sm_sessions = 0, sm_sshd = 0,
     sm_inhibit = False, sm_activity = False, sm_cpuPercent = 0, sm_cpuKnown = False\<rparr>"

definition guest_no_sleep :: string where "guest_no_sleep = ''/var/run/jm-nosleep''"
definition inhibit_blocker :: string where "inhibit_blocker = guest_no_sleep @ '' exists''"

text \<open>\<open>many\<close> is the plural's text after the number.\<close>

definition count_text :: "int \<Rightarrow> string \<Rightarrow> string \<Rightarrow> string" where
  "count_text n one many = (if n \<le> 0 then [] else if n = 1 then one else itoa n @ many)"

definition jails_blocker :: "int \<Rightarrow> string" where
  "jails_blocker n = count_text n ''1 jail or container running'' '' jails or containers running''"

definition engine_blocker :: "int \<Rightarrow> string" where
  "engine_blocker n = count_text n ''1 engine client connected'' '' engine clients connected''"

definition sessions_blocker :: "int \<Rightarrow> string" where
  "sessions_blocker n = count_text n ''1 command session open'' '' command sessions open''"

definition sample_blockers :: "sample \<Rightarrow> string list" where
  "sample_blockers s =
     (let b1 = jails_blocker (sm_jails s);
          b2 = engine_blocker (sm_engine s - sm_engineBaseline s);
          b3 = sessions_blocker (sm_sessions s)
      in (if b1 \<noteq> [] then [b1] else []) @ (if b2 \<noteq> [] then [b2] else []) @
         (if b3 \<noteq> [] then [b3] else []) @ (if sm_inhibit s then [inhibit_blocker] else []))"

section \<open>The tracker\<close>

definition second :: int where "second = 1000000000"
definition minute :: int where "minute = 60 * second"
definition hour :: int where "hour = 60 * minute"

definition probe_interval :: int where "probe_interval = 15 * second"
definition busy_cpu_percent :: rat where "busy_cpu_percent = 25"
definition flap_window :: int where "flap_window = 10 * minute"
definition max_penalty :: int where "max_penalty = 8"
definition penalty_reset_after :: int where "penalty_reset_after = hour"
definition consecutive :: int where "consecutive = 2"

record tracker =
  tk_interval :: int
  tk_busyCPU :: rat
  tk_idle :: int
  tk_engineRun :: int
  tk_sessionsRun :: int
  tk_penalty :: int
  tk_blockers :: "string list"

definition new_tracker :: tracker where
  "new_tracker = \<lparr>tk_interval = 0, tk_busyCPU = 0, tk_idle = 0, tk_engineRun = 0, tk_sessionsRun = 0,
     tk_penalty = 0, tk_blockers = []\<rparr>"

definition interval :: "tracker \<Rightarrow> int" where
  "interval t = (if tk_interval t > 0 then tk_interval t else probe_interval)"

definition busy_cpu :: "tracker \<Rightarrow> rat" where
  "busy_cpu t = (if tk_busyCPU t > 0 then tk_busyCPU t else busy_cpu_percent)"

text \<open>The host signals of a sample, which block even when the guest could not be read.\<close>

definition host_blockers :: "(rat \<Rightarrow> string) \<Rightarrow> tracker \<Rightarrow> sample \<Rightarrow> string list" where
  "host_blockers fmt t s =
     (if sm_activity s then [''a jm command used the machine''] else []) @
     (if sm_cpuKnown s \<and> sm_cpuPercent s > busy_cpu t then [''guest CPU '' @ fmt (sm_cpuPercent s) @ ''%''] else [])"

definition observe :: "(rat \<Rightarrow> string) \<Rightarrow> tracker \<Rightarrow> sample \<Rightarrow> string option \<Rightarrow> int \<Rightarrow> tracker" where
  "observe fmt t s err elapsed =
     (let now = host_blockers fmt t s in
      case err of
        Some e \<Rightarrow>
          t\<lparr>tk_blockers := now @ [''guest activity unreadable: '' @ e],
            tk_idle := (if now \<noteq> [] then 0 else tk_idle t)\<rparr>
      | None \<Rightarrow>
         (let b = jails_blocker (sm_jails s);
              now1 = now @ (if b \<noteq> [] then [b] else []) @ (if sm_inhibit s then [inhibit_blocker] else []);
              n = sm_engine s - sm_engineBaseline s;
              er = (if n > 0 then tk_engineRun t + 1 else 0);
              (now2, p2) = (if n > 0 then (if er \<ge> consecutive then (now1 @ [engine_blocker n], False) else (now1, True))
                            else (now1, False));
              sr = (if sm_sessions s > 0 then tk_sessionsRun t + 1 else 0);
              (now3, p3) = (if sm_sessions s > 0
                            then (if sr \<ge> consecutive then (now2 @ [sessions_blocker (sm_sessions s)], p2) else (now2, True))
                            else (now2, p2))
          in t\<lparr>tk_engineRun := er, tk_sessionsRun := sr, tk_blockers := now3,
               tk_idle := (if length now3 > 0 then 0
                           else if p3 then tk_idle t
                           else tk_idle t + min (max elapsed 0) (2 * interval t))\<rparr>))"

definition penalty :: "tracker \<Rightarrow> int" where
  "penalty t = max (tk_penalty t) 1"

definition wrap64 :: "int \<Rightarrow> int" where
  "wrap64 x = signed_take_bit 63 x"

definition threshold :: "tracker \<Rightarrow> int \<Rightarrow> int" where
  "threshold t after = (if after \<le> 0 then 0 else wrap64 (after * penalty t))"

definition reset :: "tracker \<Rightarrow> tracker" where
  "reset t = t\<lparr>tk_idle := 0\<rparr>"

definition due :: "tracker \<Rightarrow> int \<Rightarrow> bool \<times> tracker" where
  "due t after = (if after \<le> 0 then (False, reset t) else (tk_idle t \<ge> threshold t after, t))"

definition restart :: "tracker \<Rightarrow> tracker" where
  "restart t = t\<lparr>tk_idle := 0, tk_engineRun := 0, tk_sessionsRun := 0, tk_blockers := []\<rparr>"

definition woke :: "tracker \<Rightarrow> int \<Rightarrow> tracker" where
  "woke t asleepFor =
     (if asleepFor < flap_window then t\<lparr>tk_penalty := min (penalty t * 2) max_penalty\<rparr>
      else if asleepFor \<ge> penalty_reset_after then t\<lparr>tk_penalty := 1\<rparr>
      else t)"

section \<open>The probe\<close>

definition probe_version :: int where "probe_version = 1"

definition probe_keys :: "string list" where
  "probe_keys = [''v'', ''jails'', ''engine'', ''sessions'', ''sshd'', ''inhibit'']"

definition parse_line :: "string \<Rightarrow> (string \<rightharpoonup> int) \<Rightarrow> string + (string \<rightharpoonup> int)" where
  "parse_line l0 vals =
     (let l = trim_space l0 in
      if l = [] then Inr vals
      else case cut CHR ''='' l of
          (k, None) \<Rightarrow> Inl (''unexpected line '' @ quote l @ '' in the idle probe'')
        | (k, Some v) \<Rightarrow>
            (case atoi v of
               None \<Rightarrow> Inl (''unexpected '' @ quote l @ '' in the idle probe'')
             | Some n \<Rightarrow> (if n < 0 then Inl (''unexpected '' @ quote l @ '' in the idle probe'')
                         else Inr (vals(k \<mapsto> n)))))"

fun parse_lines :: "string list \<Rightarrow> (string \<rightharpoonup> int) \<Rightarrow> string + (string \<rightharpoonup> int)" where
  "parse_lines [] vals = Inr vals"
| "parse_lines (l # ls) vals = (case parse_line l vals of Inl e \<Rightarrow> Inl e | Inr v \<Rightarrow> parse_lines ls v)"

definition val_of :: "(string \<rightharpoonup> int) \<Rightarrow> string \<Rightarrow> int" where
  "val_of vals k = (case vals k of None \<Rightarrow> 0 | Some n \<Rightarrow> n)"

definition parse_probe :: "string \<Rightarrow> string + sample" where
  "parse_probe out =
     (case parse_lines (split_on CHR 0x0A out) Map.empty of
        Inl e \<Rightarrow> Inl e
      | Inr vals \<Rightarrow>
         (case List.find (\<lambda>k. vals k = None) probe_keys of
            Some k \<Rightarrow> Inl (''the idle probe did not report '' @ k @ '': '' @ quote (trim_space out))
          | None \<Rightarrow>
             (if val_of vals ''v'' \<noteq> probe_version
              then Inl (''the idle probe reported version '' @ itoa (val_of vals ''v'') @ '', want '' @ itoa probe_version)
              else if val_of vals ''sshd'' = 0
              then Inl ''the idle probe saw no sshd session, not even its own; guest process titles have changed''
              else Inr (empty_sample\<lparr>sm_jails := val_of vals ''jails'', sm_engine := val_of vals ''engine'',
                     sm_sessions := val_of vals ''sessions'', sm_sshd := val_of vals ''sshd'',
                     sm_inhibit := val_of vals ''inhibit'' \<noteq> 0\<rparr>))))"

text \<open>What \<^verbatim>\<open>ProbeScript\<close> prints for a guest with these counts.\<close>

definition probe_output :: "int \<Rightarrow> int \<Rightarrow> int \<Rightarrow> int \<Rightarrow> bool \<Rightarrow> string" where
  "probe_output jails engine sessions sshd inhibit =
     join [CHR 0x0A] [''v='' @ itoa probe_version, ''jails='' @ itoa jails, ''engine='' @ itoa engine,
       ''sessions='' @ itoa sessions, ''sshd='' @ itoa sshd, ''inhibit='' @ itoa (if inhibit then 1 else 0), []]"

section \<open>CPU time\<close>

definition cpu_unit :: "nat \<Rightarrow> int" where
  "cpu_unit j = (if j = 0 then minute else hour)"

text \<open>The loop over the parts before the seconds, from the last one backwards.\<close>

fun cpu_parts :: "nat \<Rightarrow> string list \<Rightarrow> int \<Rightarrow> int option" where
  "cpu_parts j [] tot = Some tot"
| "cpu_parts j (p # ps) tot =
     (case atoi p of
        None \<Rightarrow> None
      | Some n \<Rightarrow> (if n < 0 then None else cpu_parts (j + 1) ps (wrap64 (tot + wrap64 (n * cpu_unit j)))))"

definition cpu_clock :: "(string \<Rightarrow> int option) \<Rightarrow> string \<Rightarrow> int \<Rightarrow> int option" where
  "cpu_clock sec_ns s tot =
     (let parts = split_on CHR '':'' s in
      if length parts < 1 \<or> length parts > 3 then None
      else case sec_ns (last parts) of
          None \<Rightarrow> None
        | Some ns \<Rightarrow>
            (if contains_any (last parts) ''eE+-'' then None
             else cpu_parts 0 (rev (butlast parts)) (wrap64 (tot + ns))))"

definition parse_cpu_time :: "(string \<Rightarrow> int option) \<Rightarrow> string \<Rightarrow> int option" where
  "parse_cpu_time sec_ns s0 =
     (let s = trim_space s0 in
      if s = [] then None
      else case cut CHR ''-'' s of
          (_, None) \<Rightarrow> cpu_clock sec_ns s 0
        | (d, Some rest) \<Rightarrow>
            (case atoi d of
               None \<Rightarrow> None
             | Some days \<Rightarrow>
                 (if days < 0 then None
                  else cpu_clock sec_ns rest (wrap64 (wrap64 (days * 24) * hour)))))"

definition cpu_percent :: "int \<Rightarrow> int \<Rightarrow> rat" where
  "cpu_percent cpu elapsed =
     (if elapsed \<le> 0 \<or> cpu < 0 then 0 else rat_of_int cpu / rat_of_int elapsed * 100)"

section \<open>What one sample does\<close>

text \<open>\<open>blocking\<close>: the sample resets the idle time; \<open>quiet\<close>: every signal is quiet.\<close>

definition quiet :: "tracker \<Rightarrow> sample \<Rightarrow> string option \<Rightarrow> bool" where
  "quiet t s err \<longleftrightarrow> err = None \<and> \<not> sm_activity s \<and> \<not> (sm_cpuKnown s \<and> sm_cpuPercent s > busy_cpu t) \<and>
     sm_jails s \<le> 0 \<and> \<not> sm_inhibit s \<and> sm_engine s \<le> sm_engineBaseline s \<and> sm_sessions s \<le> 0"

definition blocking :: "tracker \<Rightarrow> sample \<Rightarrow> string option \<Rightarrow> bool" where
  "blocking t s err \<longleftrightarrow> sm_activity s \<or> (sm_cpuKnown s \<and> sm_cpuPercent s > busy_cpu t) \<or>
     (err = None \<and> (sm_jails s > 0 \<or> sm_inhibit s \<or>
        (sm_engine s > sm_engineBaseline s \<and> tk_engineRun t + 1 \<ge> consecutive) \<or>
        (sm_sessions s > 0 \<and> tk_sessionsRun t + 1 \<ge> consecutive)))"

lemma count_text_Nil [simp]: "one \<noteq> [] \<Longrightarrow> many \<noteq> [] \<Longrightarrow> count_text n one many = [] \<longleftrightarrow> n \<le> 0"
  by (simp add: count_text_def)

lemma blocker_Nil [simp]:
  "jails_blocker n = [] \<longleftrightarrow> n \<le> 0" "engine_blocker n = [] \<longleftrightarrow> n \<le> 0" "sessions_blocker n = [] \<longleftrightarrow> n \<le> 0"
  by (simp_all add: jails_blocker_def engine_blocker_def sessions_blocker_def)

lemma observe_params [simp]:
  "tk_interval (observe fmt t s err e) = tk_interval t" "tk_busyCPU (observe fmt t s err e) = tk_busyCPU t"
  "tk_penalty (observe fmt t s err e) = tk_penalty t"
  by (simp_all add: observe_def Let_def split: option.splits prod.splits)

lemma observe_idle:
  "tk_idle (observe fmt t s err e) =
     (if blocking t s err then 0 else if quiet t s err then tk_idle t + min (max e 0) (2 * interval t) else tk_idle t)"
proof (cases err)
  case None
  then show ?thesis
    by (auto simp: observe_def Let_def host_blockers_def blocking_def quiet_def)
next
  case (Some x)
  then show ?thesis
    by (auto simp: observe_def Let_def host_blockers_def blocking_def quiet_def)
qed

lemma quiet_not_blocking: "quiet t s err \<Longrightarrow> \<not> blocking t s err"
  by (auto simp: quiet_def blocking_def)

lemma observe_runs:
  "tk_engineRun (observe fmt t s err e) =
     (if err \<noteq> None then tk_engineRun t else if sm_engine s > sm_engineBaseline s then tk_engineRun t + 1 else 0)"
  "tk_sessionsRun (observe fmt t s err e) =
     (if err \<noteq> None then tk_sessionsRun t else if sm_sessions s > 0 then tk_sessionsRun t + 1 else 0)"
  by (auto simp: observe_def Let_def split: option.splits prod.splits)

text \<open>Fact (safety): one sample lengthens the idle time only when the guest was read and every
  signal was quiet, then by no more than twice the interval; a blocker sets it to zero; any
  other sample (unreadable guest, first sighting of a client or a session) leaves it alone.\<close>

theorem observe_spec:
  "tk_idle (observe fmt t s err e) =
     (if blocking t s err then 0 else if quiet t s err then tk_idle t + min (max e 0) (2 * interval t) else tk_idle t)
   \<and> (tk_blockers (observe fmt t s err e) = [] \<longleftrightarrow> err = None \<and> \<not> blocking t s err)"
proof (rule conjI [OF observe_idle])
  show "tk_blockers (observe fmt t s err e) = [] \<longleftrightarrow> err = None \<and> \<not> blocking t s err"
  proof (cases err)
    case None
    then show ?thesis by (simp add: observe_def Let_def host_blockers_def blocking_def)
  next
    case (Some x)
    then show ?thesis by (simp add: observe_def Let_def)
  qed
qed

section \<open>Runs\<close>

text \<open>What the sleeper does to a tracker, in any order.\<close>

datatype tk_op = Observe sample "string option" int | Reset | Restart | Woke int | Due int

definition tk_step :: "(rat \<Rightarrow> string) \<Rightarrow> tracker \<Rightarrow> tk_op \<Rightarrow> tracker" where
  "tk_step fmt t op =
     (case op of
        Observe s err e \<Rightarrow> observe fmt t s err e
      | Reset \<Rightarrow> reset t
      | Restart \<Rightarrow> restart t
      | Woke d \<Rightarrow> woke t d
      | Due after \<Rightarrow> snd (due t after))"

lemma tk_step_simps [simp]:
  "tk_step fmt t (Observe s err e) = observe fmt t s err e" "tk_step fmt t Reset = reset t"
  "tk_step fmt t Restart = restart t" "tk_step fmt t (Woke d) = woke t d" "tk_step fmt t (Due after) = snd (due t after)"
  by (simp_all add: tk_step_def)

definition tk_inv :: "tracker \<Rightarrow> bool" where
  "tk_inv t \<longleftrightarrow> 0 \<le> tk_idle t \<and> tk_penalty t \<in> {0, 1, 2, 4, 8} \<and> 0 \<le> tk_engineRun t \<and> 0 \<le> tk_sessionsRun t"

lemma interval_pos [simp]: "0 < interval t"
  by (simp add: interval_def probe_interval_def second_def)

lemma observe_inv: "tk_inv t \<Longrightarrow> tk_inv (observe fmt t s err e)"
proof -
  assume i: "tk_inv t"
  have "0 \<le> min (max e 0) (2 * interval t)" using less_imp_le [OF interval_pos [of t]] by simp
  then show ?thesis using i by (auto simp: tk_inv_def observe_idle observe_runs)
qed

lemma woke_inv: "tk_inv t \<Longrightarrow> tk_inv (woke t d)"
  by (auto simp: tk_inv_def woke_def penalty_def max_penalty_def)

lemma tk_step_inv: "tk_inv t \<Longrightarrow> tk_inv (tk_step fmt t op)"
  by (cases op) (simp_all add: observe_inv woke_inv, simp_all add: tk_inv_def reset_def restart_def due_def)

interpretation tk: step_system "tk_step fmt" tk_inv for fmt
  by unfold_locales (rule tk_step_inv)

text \<open>Fact (invariant): over any sequence of operations on a new tracker the idle time is never
  negative, and the flap guard multiplies the idle period by 1, 2, 4 or 8.\<close>

theorem tracker_invariant:
  "tk_inv (run_steps (tk_step fmt) new_tracker ops) \<and> penalty (run_steps (tk_step fmt) new_tracker ops) \<in> {1, 2, 4, 8}"
proof -
  have i: "tk_inv (run_steps (tk_step fmt) new_tracker ops)"
    by (rule tk.run_inv) (simp add: tk_inv_def new_tracker_def)
  then show ?thesis by (auto simp: tk_inv_def penalty_def)
qed

subsection \<open>Idle time is earned by quiet samples\<close>

text \<open>\<open>earned\<close>: the quiet samples since the last operation that set the idle time to zero.\<close>

fun earned :: "(rat \<Rightarrow> string) \<Rightarrow> tracker \<Rightarrow> nat \<Rightarrow> tk_op list \<Rightarrow> nat" where
  "earned fmt t n [] = n"
| "earned fmt t n (op # ops) =
     earned fmt (tk_step fmt t op)
       (case op of
          Observe s err e \<Rightarrow> (if blocking t s err then 0 else if quiet t s err then n + 1 else n)
        | Reset \<Rightarrow> 0 | Restart \<Rightarrow> 0
        | Woke d \<Rightarrow> n
        | Due after \<Rightarrow> (if after \<le> 0 then 0 else n)) ops"

lemma step_interval [simp]: "interval (tk_step fmt t op) = interval t"
  by (simp add: tk_step_def interval_def reset_def restart_def woke_def due_def split: tk_op.splits)

lemma earned_bound:
  "tk_idle t \<le> 2 * interval t * int n \<Longrightarrow>
   tk_idle (run_steps (tk_step fmt) t ops) \<le> 2 * interval t * int (earned fmt t n ops)"
proof (induction ops arbitrary: t n)
  case (Cons op ops)
  let ?n = "case op of
          Observe s err e \<Rightarrow> (if blocking t s err then 0 else if quiet t s err then n + 1 else n)
        | Reset \<Rightarrow> 0 | Restart \<Rightarrow> 0 | Woke d \<Rightarrow> n | Due after \<Rightarrow> (if after \<le> 0 then 0 else n)"
  have "tk_idle (tk_step fmt t op) \<le> 2 * interval t * int ?n"
  proof (cases op)
    case (Observe s err e)
    have "min (max e 0) (2 * interval t) \<le> 2 * interval t" by simp
    then have "tk_idle t + min (max e 0) (2 * interval t) \<le> 2 * interval t * int (n + 1)"
      using Cons.prems by (simp only: of_nat_add of_nat_1 distrib_left mult_1_right)
    then show ?thesis using Observe Cons.prems by (simp add: observe_idle)
  qed (use Cons.prems interval_pos [of t] in \<open>simp_all add: reset_def restart_def woke_def due_def\<close>)
  then show ?case using Cons.IH [of "tk_step fmt t op" ?n] by simp
qed simp

text \<open>Fact (safety): a machine is due for suspension only after enough quiet samples in a row: if
  after any history of a new tracker \<open>Due\<close> answers yes for an idle period that does not
  overflow, the quiet samples since the idle time was last zero cover the period at two
  intervals each. A slept host, a stalled probe or an unreadable guest cannot make it due.\<close>

theorem due_needs_quiet_samples:
  assumes "fst (due (run_steps (tk_step fmt) tr ops) after)" "tr = new_tracker\<lparr>tk_interval := iv\<rparr>"
    and "after * 8 \<le> max_int64"
  shows "after \<le> 2 * interval tr * int (earned fmt tr 0 ops)"
proof -
  let ?t = "run_steps (tk_step fmt) tr ops"
  have pos: "after > 0" and th: "threshold ?t after \<le> tk_idle ?t"
    using assms(1) by (auto simp: due_def split: if_splits)
  have "tk_inv ?t" by (rule tk.run_inv) (simp add: assms(2) tk_inv_def new_tracker_def)
  then have pen: "1 \<le> penalty ?t" "penalty ?t \<le> 8" by (auto simp: tk_inv_def penalty_def)
  have le: "after \<le> after * penalty ?t" "after * penalty ?t \<le> after * 8" using pos pen by simp_all
  have "wrap64 (after * penalty ?t) = after * penalty ?t"
    unfolding wrap64_def
  proof (rule signed_take_bit_int_eq_self)
    have "(0::int) \<le> 2 ^ 63" by simp
    then show "- (2 ^ 63) \<le> after * penalty ?t" using pos le by linarith
    show "after * penalty ?t < 2 ^ 63" using le(2) assms(3) unfolding max_int64_def by linarith
  qed
  then have "after * penalty ?t \<le> tk_idle ?t" using th pos by (simp add: threshold_def)
  then have "after \<le> tk_idle ?t" using le(1) by linarith
  also have "\<dots> \<le> 2 * interval tr * int (earned fmt tr 0 ops)"
    by (rule earned_bound) (simp add: assms(2) new_tracker_def)
  finally show ?thesis .
qed

definition quiet_sample :: sample where
  "quiet_sample = empty_sample\<lparr>sm_sshd := 1\<rparr>"

theorem due_needs_quiet_samples_witness:
  "60 * second \<le> 2 * interval new_tracker * int (earned (\<lambda>_. []) new_tracker 0 (replicate 2 (Observe quiet_sample None (100 * second))))"
proof (rule due_needs_quiet_samples [where tr = new_tracker and iv = 0])
  show "new_tracker = new_tracker\<lparr>tk_interval := 0\<rparr>" by (simp add: new_tracker_def)
  show "60 * second * 8 \<le> max_int64" by (simp add: second_def max_int64_def)
  show "fst (due (run_steps (tk_step (\<lambda>_. [])) new_tracker (replicate 2 (Observe quiet_sample None (100 * second)))) (60 * second))"
    by (simp add: numeral_2_eq_2 due_def observe_idle threshold_def penalty_def blocking_def quiet_def quiet_sample_def
        empty_sample_def new_tracker_def interval_def probe_interval_def second_def wrap64_def)
qed

subsection \<open>A quiet machine becomes due\<close>

lemma quiet_run_idle:
  assumes "\<And>t. quiet t s None" "interval t \<le> e"
  shows "tk_idle t + int n * interval t \<le> tk_idle (run_steps (tk_step fmt) t (replicate n (Observe s None e)))"
  using assms(2)
proof (induction n arbitrary: t)
  case (Suc n)
  let ?t = "observe fmt t s None e"
  have i: "interval ?t = interval t" by (simp add: interval_def)
  have "tk_idle t + interval t \<le> tk_idle ?t"
    using assms(1) [of t] quiet_not_blocking [OF assms(1), of t] Suc.prems interval_pos [of t] by (simp add: observe_idle)
  moreover have "tk_idle ?t + int n * interval ?t \<le> tk_idle (run_steps (tk_step fmt) ?t (replicate n (Observe s None e)))"
    by (rule Suc.IH) (simp add: i Suc.prems)
  ultimately show ?case by (simp add: i distrib_right)
qed simp

section \<open>The probe round trip\<close>

lemma last_itoa_not_space: "0 \<le> n \<Longrightarrow> \<not> is_space (last (itoa n))"
proof -
  assume "0 \<le> n"
  then have i: "itoa n = nat_digits (nat n)" by (simp add: itoa_def)
  have "last (nat_digits (nat n)) \<in> set (nat_digits (nat n))" by simp
  then have "is_digit (last (nat_digits (nat n)))" using nat_digits_digits by (metis list_all_iff)
  then show ?thesis unfolding i by (auto simp: is_digit_def is_space_def)
qed

definition key_word :: "string \<Rightarrow> bool" where
  "key_word k \<longleftrightarrow> k \<noteq> [] \<and> \<not> is_space (hd k) \<and> CHR ''='' \<notin> set k"

lemma parse_line_key:
  assumes "key_word k" "0 \<le> n" "n \<le> max_int64"
  shows "parse_line (k @ ''='' @ itoa n) vals = Inr (vals(k \<mapsto> n))"
proof -
  let ?l = "k @ ''='' @ itoa n"
  have "trim_space ?l = ?l"
    by (rule trim_space_id) (use assms in \<open>auto simp: key_word_def last_itoa_not_space\<close>)
  moreover have "cut CHR ''='' ?l = (k, Some (itoa n))"
    using cut_join [of "CHR ''=''" k "itoa n"] assms(1) by (simp add: key_word_def)
  moreover have "atoi (itoa n) = Some n"
    using assms by (intro atoi_itoa) (simp_all add: min_int64_def)
  ultimately show ?thesis using assms(1,2) by (simp add: parse_line_def Let_def key_word_def)
qed

lemma itoa_no_newline: "CHR 0x0A \<notin> set (itoa n)"
proof
  assume "CHR 0x0A \<in> set (itoa n)"
  then have "is_digit (CHR 0x0A) \<or> CHR 0x0A = CHR ''-''" by (rule itoa_chars)
  then show False by (simp add: is_digit_def)
qed

lemma parse_line_Nil [simp]: "parse_line [] vals = Inr vals"
  by (simp add: parse_line_def trim_space_def)

text \<open>Fact (roundtrip): the sample parsed from what the probe script prints is the guest's counts,
  for every count a 64-bit host can hold and at least one sshd session.\<close>

theorem probe_roundtrip:
  assumes "0 \<le> j" "j \<le> max_int64" "0 \<le> e" "e \<le> max_int64" "0 \<le> s" "s \<le> max_int64" "0 < d" "d \<le> max_int64"
  shows "parse_probe (probe_output j e s d inh) =
    Inr (empty_sample\<lparr>sm_jails := j, sm_engine := e, sm_sessions := s, sm_sshd := d, sm_inhibit := inh\<rparr>)"
proof -
  let ?ls = "[''v='' @ itoa probe_version, ''jails='' @ itoa j, ''engine='' @ itoa e,
       ''sessions='' @ itoa s, ''sshd='' @ itoa d, ''inhibit='' @ itoa (if inh then 1 else 0), []]"
  have split: "split_on CHR 0x0A (probe_output j e s d inh) = ?ls"
    unfolding probe_output_def by (rule split_on_join) (auto simp: itoa_no_newline)
  have k: "key_word ''v''" "key_word ''jails''" "key_word ''engine''" "key_word ''sessions''" "key_word ''sshd''" "key_word ''inhibit''"
    by (simp_all add: key_word_def is_space_def)
  have one: "(0::int) \<le> probe_version" "probe_version \<le> max_int64"
      "0 \<le> (if inh then 1 else 0 :: int)" "(if inh then 1 else 0 :: int) \<le> max_int64"
    by (simp_all add: probe_version_def max_int64_def)
  note l = parse_line_key [OF k(1) one(1,2)] parse_line_key [OF k(2) assms(1,2)] parse_line_key [OF k(3) assms(3,4)]
    parse_line_key [OF k(4) assms(5,6)] parse_line_key [OF k(5) less_imp_le [OF assms(7)] assms(8)]
    parse_line_key [OF k(6) one(3,4)]
  have "parse_lines ?ls Map.empty = Inr [''v'' \<mapsto> probe_version, ''jails'' \<mapsto> j, ''engine'' \<mapsto> e, ''sessions'' \<mapsto> s,
      ''sshd'' \<mapsto> d, ''inhibit'' \<mapsto> (if inh then 1 else 0)]"
    unfolding append.simps parse_lines.simps l [unfolded append.simps] sum.case parse_line_Nil by (rule refl)
  then show ?thesis using assms(7)
    unfolding parse_probe_def split by (simp add: probe_keys_def val_of_def)
qed

theorem probe_roundtrip_witness:
  "parse_probe (probe_output 2 1 0 3 True) =
    Inr (empty_sample\<lparr>sm_jails := 2, sm_engine := 1, sm_sessions := 0, sm_sshd := 3, sm_inhibit := True\<rparr>)"
  by (rule probe_roundtrip) (simp_all add: max_int64_def)

section \<open>CPU times\<close>

lemma wrap64_id: "min_int64 \<le> x \<Longrightarrow> x \<le> max_int64 \<Longrightarrow> wrap64 x = x"
  unfolding wrap64_def
  by (rule signed_take_bit_int_eq_self) (simp_all add: min_int64_def max_int64_def)

lemma wrap64_nonneg: "0 \<le> x \<Longrightarrow> x \<le> max_int64 \<Longrightarrow> wrap64 x = x"
  by (rule wrap64_id) (simp_all add: min_int64_def)

lemma digits_free: "list_all is_digit s \<Longrightarrow> CHR '':'' \<notin> set s \<and> CHR ''-'' \<notin> set s"
  by (auto simp: list_all_iff is_digit_def)

lemma itoa_nat_free:
  assumes "0 \<le> n"
  shows "CHR '':'' \<notin> set (itoa n)" "CHR ''-'' \<notin> set (itoa n)" "\<not> is_space (hd (itoa n))"
proof -
  have i: "itoa n = nat_digits (nat n)" using assms by (simp add: itoa_def)
  have d: "list_all is_digit (itoa n)" unfolding i by (rule nat_digits_digits)
  then show "CHR '':'' \<notin> set (itoa n)" "CHR ''-'' \<notin> set (itoa n)" using digits_free by blast+
  have "hd (itoa n) \<in> set (itoa n)" by simp
  then have "is_digit (hd (itoa n))" using d by (metis list_all_iff)
  then show "\<not> is_space (hd (itoa n))" by (auto simp: is_digit_def is_space_def)
qed

text \<open>\<open>sec_text\<close>: a seconds part as \<^verbatim>\<open>ps\<close> prints it.\<close>

definition sec_text :: "string \<Rightarrow> bool" where
  "sec_text s \<longleftrightarrow> s \<noteq> [] \<and> \<not> is_space (last s) \<and> CHR '':'' \<notin> set s \<and> \<not> contains_any s ''eE+-''"

lemma sec_text_no_dash: "sec_text s \<Longrightarrow> CHR ''-'' \<notin> set s"
  by (auto simp: sec_text_def contains_any_def)

lemma split_three:
  assumes "CHR '':'' \<notin> set a" "CHR '':'' \<notin> set b" "CHR '':'' \<notin> set c"
  shows "split_on CHR '':'' (a @ '':'' @ b @ '':'' @ c) = [a, b, c]"
  using assms by (simp add: split_on_append split_on_free)

text \<open>Fact (functional): the two forms \<^verbatim>\<open>ps\<close> prints with days and with hours parse to the time
  they denote, when it fits a duration.\<close>

theorem cpu_time_days:
  assumes "0 \<le> d" "0 \<le> h" "0 \<le> m" "sec_ns s = Some ns" "0 \<le> ns" "sec_text s"
    and "d * 24 * hour + h * hour + m * minute + ns \<le> max_int64"
  shows "parse_cpu_time sec_ns (itoa d @ ''-'' @ itoa h @ '':'' @ itoa m @ '':'' @ s) = Some (d * 24 * hour + h * hour + m * minute + ns)"
proof -
  let ?t = "itoa d @ ''-'' @ itoa h @ '':'' @ itoa m @ '':'' @ s"
  have u: "0 < minute" "0 < hour" "1 \<le> hour" "1 \<le> minute" by (simp_all add: minute_def hour_def second_def)
  have nn: "0 \<le> d * 24 * hour" "0 \<le> h * hour" "0 \<le> m * minute" using assms u by simp_all
  have dd: "d * 24 \<le> d * 24 * hour" "h \<le> h * hour" "m \<le> m * minute" "d \<le> d * 24"
    using assms(1-3) u by (simp_all add: mult_le_cancel_left1)
  have b: "d * 24 \<le> max_int64" "d * 24 * hour \<le> max_int64" "d * 24 * hour + ns \<le> max_int64" "m * minute \<le> max_int64"
    "h * hour \<le> max_int64" "d * 24 * hour + ns + m * minute \<le> max_int64"
    "d * 24 * hour + ns + m * minute + h * hour \<le> max_int64" "d \<le> max_int64" "h \<le> max_int64" "m \<le> max_int64"
    using assms(1,5,7) nn dd by linarith+
  have p: "0 \<le> d * 24" "0 \<le> d * 24 * hour + ns" "0 \<le> d * 24 * hour + ns + m * minute" "0 \<le> d * 24 * hour + ns + m * minute + h * hour"
    using assms(1,5) nn by linarith+
  note w = wrap64_nonneg [OF p(1) b(1)] wrap64_nonneg [OF nn(1) b(2)] wrap64_nonneg [OF p(2) b(3)] wrap64_nonneg [OF nn(3) b(4)]
    wrap64_nonneg [OF nn(2) b(5)] wrap64_nonneg [OF p(3) b(6)] wrap64_nonneg [OF p(4) b(7)]
  have at: "atoi (itoa d) = Some d" "atoi (itoa h) = Some h" "atoi (itoa m) = Some m"
    by (rule atoi_itoa; use assms(1-3) b(8-10) in \<open>simp add: min_int64_def\<close>)+
  have tr: "trim_space ?t = ?t"
    by (rule trim_space_id) (use assms itoa_nat_free(3) [OF assms(1)] in \<open>auto simp: sec_text_def\<close>)
  have ct: "cut CHR ''-'' ?t = (itoa d, Some (itoa h @ '':'' @ itoa m @ '':'' @ s))"
    using cut_join [OF itoa_nat_free(2) [OF assms(1)]] by simp
  have sp: "split_on CHR '':'' (itoa h @ '':'' @ itoa m @ '':'' @ s) = [itoa h, itoa m, s]"
    by (rule split_three) (use assms itoa_nat_free in \<open>auto simp: sec_text_def\<close>)
  have ne: "?t \<noteq> []" by simp
  have ck: "cpu_clock sec_ns (itoa h @ '':'' @ itoa m @ '':'' @ s) (d * 24 * hour) = Some (d * 24 * hour + ns + m * minute + h * hour)"
    unfolding cpu_clock_def sp using assms(2-4,6) at w
    by (simp add: Let_def cpu_unit_def sec_text_def)
  show ?thesis
    unfolding parse_cpu_time_def Let_def tr ct using ne at(1) assms(1) ck w(1,2) by (simp add: algebra_simps)
qed

theorem cpu_time_days_witness:
  "parse_cpu_time (\<lambda>_. Some (4 * second)) (itoa 1 @ ''-'' @ itoa 2 @ '':'' @ itoa 3 @ '':'' @ ''04'') =
     Some (1 * 24 * hour + 2 * hour + 3 * minute + 4 * second)"
  by (rule cpu_time_days)
     (simp_all add: second_def minute_def hour_def max_int64_def sec_text_def is_space_def contains_any_def)

end
