(* ===== verification/Machine.thy ===== *)
theory Machine
  imports GoLib
begin

text \<open>
  The machine record and its pure operations (\<^verbatim>\<open>internal/machine\<close>): the record and its
  defaults, what \<^verbatim>\<open>Store.Load\<close> and \<^verbatim>\<open>Store.Save\<close> do to a record, names, image references,
  the pending disk grow, and the host shares of \<^verbatim>\<open>share.go\<close>. The host's file system is a
  parameter: \<open>host\<close> answers \<^verbatim>\<open>filepath.Abs\<close> with \<^verbatim>\<open>Clean\<close>, \<^verbatim>\<open>EvalSymlinks\<close> and
  \<^verbatim>\<open>os.Stat\<close>; \<open>hash8\<close> stands for the first eight hex digits of the SHA-256 of a path.
  Paths are byte strings; in a tag's slug a multi-byte character gives one underscore.
\<close>

section \<open>The record\<close>

record share =
  sh_hostPath :: string
  sh_guestPath :: string
  sh_readOnly :: bool
  sh_tag :: string

record machine =
  mc_version :: int
  mc_name :: string
  mc_backend :: string
  mc_image :: string
  mc_cpus :: int
  mc_memoryMiB :: int
  mc_diskGiB :: int
  mc_arcMiB :: int
  mc_idleSuspendMin :: int
  mc_mac :: string
  mc_sshPort :: int
  mc_sshUser :: string
  mc_network :: string
  mc_guestIP :: string
  mc_publishAddr :: string
  mc_mtu :: int
  mc_provisioned :: bool
  mc_imageTrusted :: bool
  mc_shares :: "share list"
  mc_backendOpts :: "(string, string) gomap"
  mc_dir :: string

definition record_version :: int where "record_version = 1"
definition default_arc_mib :: int where "default_arc_mib = 512"
definition min_arc_mib :: int where "min_arc_mib = 64"
definition default_idle_suspend_min :: int where "default_idle_suspend_min = 30"

text \<open>Go's integer division truncates toward zero.\<close>

definition default_arc_for :: "int \<Rightarrow> int" where
  "default_arc_for memoryMiB =
     (let half = (if memoryMiB < 0 then - ((- memoryMiB) div 2) else memoryMiB div 2);
          arc = min default_arc_mib half
      in if arc < min_arc_mib then 0 else arc)"

definition machine_defaults :: machine where
  "machine_defaults =
     \<lparr>mc_version = record_version, mc_name = ''jailmachine'', mc_backend = [], mc_image = ''prebaked'',
      mc_cpus = 4, mc_memoryMiB = 2048, mc_diskGiB = 64, mc_arcMiB = default_arc_mib,
      mc_idleSuspendMin = default_idle_suspend_min, mc_mac = ''5a:94:ef:e4:0c:ee'', mc_sshPort = 2222,
      mc_sshUser = ''root'', mc_network = [], mc_guestIP = [], mc_publishAddr = [], mc_mtu = 0,
      mc_provisioned = False, mc_imageTrusted = True, mc_shares = [], mc_backendOpts = [], mc_dir = []\<rparr>"

section \<open>Names\<close>

definition is_lower :: "char \<Rightarrow> bool" where
  "is_lower c \<longleftrightarrow> 97 \<le> (of_char c :: nat) \<and> (of_char c :: nat) \<le> 122"

definition is_upper :: "char \<Rightarrow> bool" where
  "is_upper c \<longleftrightarrow> 65 \<le> (of_char c :: nat) \<and> (of_char c :: nat) \<le> 90"

definition is_alnum :: "char \<Rightarrow> bool" where
  "is_alnum c \<longleftrightarrow> is_lower c \<or> is_upper c \<or> is_digit c"

text \<open>The two regular expressions: \<^verbatim>\<open>[A-Za-z0-9][A-Za-z0-9_.-]{0,63}\<close> and \<^verbatim>\<open>[a-z0-9][a-z0-9-]*\<close>.\<close>

definition validate_name :: "string \<Rightarrow> bool" where
  "validate_name s \<longleftrightarrow> s \<noteq> [] \<and> is_alnum (hd s) \<and>
     list_all (\<lambda>c. is_alnum c \<or> c \<in> set ''_.-'') (tl s) \<and> length (tl s) \<le> 63"

definition validate_cli_name :: "string \<Rightarrow> bool" where
  "validate_cli_name s \<longleftrightarrow> s \<noteq> [] \<and> (is_lower (hd s) \<or> is_digit (hd s)) \<and>
     list_all (\<lambda>c. is_lower c \<or> is_digit c \<or> c = CHR ''-'') (tl s) \<and> validate_name s"

definition resolve_name :: "string list \<Rightarrow> string option" where
  "resolve_name args =
     (let name = (if length args > 0 \<and> args ! 0 \<noteq> [] then args ! 0 else ''jailmachine'')
      in if validate_cli_name name then Some name else None)"

section \<open>Load and save\<close>

datatype load_error = InvalidName | NotFound | ReadError string | ParseError string | NewerVersion

text \<open>What the record's file decodes to: the fields it has (absent ones at their zero value but
  \<^verbatim>\<open>image_trusted\<close>, which the target presets to true), and whether the two keys probed for
  are present.\<close>

record decoded =
  de_machine :: machine
  de_hasArc :: bool
  de_hasIdle :: bool

definition machines_dir :: "string \<Rightarrow> string \<Rightarrow> string" where
  "machines_dir root name = root @ ''/machines/'' @ name"

definition store_load :: "string \<Rightarrow> string \<Rightarrow> string option + string \<Rightarrow> (string \<Rightarrow> string + decoded) \<Rightarrow> load_error + machine" where
  "store_load root name file unmarshal =
     (if \<not> validate_name name then Inl InvalidName
      else case file of
          Inl None \<Rightarrow> Inl NotFound
        | Inl (Some e) \<Rightarrow> Inl (ReadError e)
        | Inr data \<Rightarrow>
            (case unmarshal data of
               Inl e \<Rightarrow> Inl (ParseError e)
             | Inr d \<Rightarrow>
                 (let m = de_machine d in
                  if mc_version m > record_version then Inl NewerVersion
                  else let m1 = (if mc_name m = [] then m\<lparr>mc_name := name\<rparr> else m);
                           m2 = (if \<not> de_hasArc d then m1\<lparr>mc_arcMiB := default_arc_for (mc_memoryMiB m1)\<rparr> else m1);
                           m3 = (if \<not> de_hasIdle d then m2\<lparr>mc_idleSuspendMin := default_idle_suspend_min\<rparr> else m2)
                       in Inr (m3\<lparr>mc_dir := machines_dir root name\<rparr>))))"

definition store_save_record :: "string \<Rightarrow> machine \<Rightarrow> machine option" where
  "store_save_record root m =
     (if \<not> validate_name (mc_name m) then None
      else let m1 = (if mc_version m = 0 then m\<lparr>mc_version := record_version\<rparr> else m)
           in Some (m1\<lparr>mc_dir := machines_dir root (mc_name m)\<rparr>))"

section \<open>Lifecycle helpers\<close>

definition ssh_endpoint :: "machine \<Rightarrow> string" where
  "ssh_endpoint m = ''127.0.0.1:'' @ itoa (mc_sshPort m)"

definition network_name :: "machine \<Rightarrow> string" where
  "network_name m = (if mc_network m = [] then ''user'' else mc_network m)"

definition podman_uri :: "machine \<Rightarrow> string" where
  "podman_uri m = ''ssh://'' @ mc_sshUser m @ ''@127.0.0.1:'' @ itoa (mc_sshPort m) @ ''/var/run/podman/podman.sock''"

definition socket_uri :: "string \<Rightarrow> string" where
  "socket_uri s = (if s = [] then [] else ''unix://'' @ s)"

record image_ref =
  ir_source :: string
  ir_release :: string

definition parse_image_ref :: "string \<Rightarrow> image_ref option" where
  "parse_image_ref ref0 =
     (let ref = (if ref0 = [] then ''prebaked'' else ref0);
          (src, r) = cut CHR '':'' ref;
          rel = (case r of None \<Rightarrow> [] | Some x \<Rightarrow> x)
      in if src = [] then None
         else if contains_any rel [CHR ''/'', CHR '' '', CHR 0x09, CHR 0x0A] then None
         else Some \<lparr>ir_source = src, ir_release = rel\<rparr>)"

definition image_ref_string :: "image_ref \<Rightarrow> string" where
  "image_ref_string r = (if ir_release r = [] then ir_source r else ir_source r @ '':'' @ ir_release r)"

definition stage_error :: "string \<Rightarrow> string \<Rightarrow> string \<Rightarrow> string" where
  "stage_error stage hint err =
     (let msg = ''stage '' @ quote stage @ '' failed: '' @ err
      in if hint \<noteq> [] then msg @ '' ('' @ hint @ '')'' else msg)"

definition pending_grow :: "machine \<Rightarrow> bool" where
  "pending_grow m \<longleftrightarrow> map_of (mc_backendOpts m) ''pending_grow'' = Some ''1''"

definition set_pending_grow :: "bool \<Rightarrow> machine \<Rightarrow> machine" where
  "set_pending_grow pending m =
     m\<lparr>mc_backendOpts := (if pending then gm_put ''pending_grow'' ''1'' (mc_backendOpts m)
                          else gm_del ''pending_grow'' (mc_backendOpts m))\<rparr>"

section \<open>Shares\<close>

definition max_shares :: nat where "max_shares = 16"
definition max_tag_len :: nat where "max_tag_len = 31"
definition share_tag_prefix :: string where "share_tag_prefix = ''jm''"
definition guest_conf_tag :: string where "guest_conf_tag = ''jmconf''"

record host =
  ho_abs :: "string \<Rightarrow> string option"
  ho_eval :: "string \<Rightarrow> string option"
  ho_stat :: "string \<Rightarrow> bool option"
  ho_hash8 :: "string \<Rightarrow> string"

definition share_mode :: "share \<Rightarrow> string" where
  "share_mode s = (if sh_readOnly s then ''ro'' else ''rw'')"

definition firmlink_roots :: "string list" where
  "firmlink_roots = [''/var'']"

definition short_firmlink_path :: "string \<Rightarrow> string" where
  "short_firmlink_path real =
     (if \<exists>r \<in> set firmlink_roots. has_prefix real (''/private'' @ r @ ''/'')
      then trim_prefix real ''/private'' else real)"

definition canonical_host_path :: "host \<Rightarrow> string \<Rightarrow> string option" where
  "canonical_host_path H p =
     (if trim_space p = [] then None
      else if contains_any p [CHR 0x09, CHR 0x0D, CHR 0x0A] then None
      else case ho_abs H p of
          None \<Rightarrow> None
        | Some a \<Rightarrow>
            (let a1 = (case ho_eval H a of Some real \<Rightarrow> short_firmlink_path real | None \<Rightarrow> a)
             in if a1 = ''/'' then None else if \<not> has_prefix a1 ''/'' then None else Some a1))"

definition path_base :: "string \<Rightarrow> string" where
  "path_base p =
     (if p = [] then ''.''
      else let q = rev (dropWhile (\<lambda>c. c = CHR ''/'') (rev p))
           in if q = [] then ''/'' else last (split_on CHR ''/'' q))"

definition is_continuation :: "char \<Rightarrow> bool" where
  "is_continuation c \<longleftrightarrow> 128 \<le> (of_char c :: nat) \<and> (of_char c :: nat) < 192"

definition tag_slug :: "string \<Rightarrow> string" where
  "tag_slug s =
     (let b = map (\<lambda>c. if is_alnum c then c else CHR ''_'') (filter (\<lambda>c. \<not> is_continuation c) s);
          out = rev (dropWhile (\<lambda>c. c = CHR ''_'') (rev (dropWhile (\<lambda>c. c = CHR ''_'') b)))
      in if out = [] then ''share'' else out)"

definition share_tag :: "host \<Rightarrow> string \<Rightarrow> string" where
  "share_tag H p =
     (let hash = ho_hash8 H p;
          slug = tag_slug (path_base p);
          mx = max_tag_len - length share_tag_prefix - length hash - 2
      in share_tag_prefix @ ''-'' @ take mx slug @ ''-'' @ hash)"

definition new_share :: "host \<Rightarrow> string \<Rightarrow> bool \<Rightarrow> share option" where
  "new_share H p ro =
     map_option (\<lambda>q. \<lparr>sh_hostPath = q, sh_guestPath = q, sh_readOnly = ro, sh_tag = share_tag H q\<rparr>)
       (canonical_host_path H p)"

definition is_under :: "string \<Rightarrow> string \<Rightarrow> bool" where
  "is_under child parent = has_prefix child (trim_suffix parent ''/'' @ ''/'')"

text \<open>The tag loop: the first \<^verbatim>\<open>~n\<close> suffix that is free. \<open>fuel\<close> bounds the search; one more
  than the number of used tags is enough (\<open>free_tag_fresh\<close>).\<close>

fun free_tag :: "nat \<Rightarrow> nat \<Rightarrow> string set \<Rightarrow> string \<Rightarrow> string \<Rightarrow> string" where
  "free_tag 0 n used base0 tag = tag"
| "free_tag (Suc fuel) n used base0 tag =
     (if tag \<notin> used then tag
      else let suffix = ''~'' @ itoa (int n);
               base = (if length base0 + length suffix > max_tag_len then take (max_tag_len - length suffix) base0 else base0)
           in free_tag fuel (n + 1) used base0 (base @ suffix))"

fun assign_tags_loop :: "host \<Rightarrow> string list \<Rightarrow> share list \<Rightarrow> share list" where
  "assign_tags_loop H used [] = []"
| "assign_tags_loop H used (s # ss) =
     (let tag0 = (if sh_tag s = [] then share_tag H (sh_hostPath s) else sh_tag s);
          tag = free_tag (length used + 2) 2 (set used) (sh_tag s) tag0
      in s\<lparr>sh_tag := tag\<rparr> # assign_tags_loop H (tag # used) ss)"

definition assign_tags :: "host \<Rightarrow> share list \<Rightarrow> share list" where
  "assign_tags H ss = assign_tags_loop H [guest_conf_tag] ss"

fun canon_shares :: "host \<Rightarrow> string set \<Rightarrow> share list \<Rightarrow> share list option" where
  "canon_shares H seen [] = Some []"
| "canon_shares H seen (s # ss) =
     (case canonical_host_path H (sh_hostPath s) of
        None \<Rightarrow> None
      | Some p \<Rightarrow>
          (if p \<in> seen then canon_shares H seen ss
           else map_option (\<lambda>r. \<lparr>sh_hostPath = p, sh_guestPath = p, sh_readOnly = sh_readOnly s, sh_tag = share_tag H p\<rparr> # r)
                  (canon_shares H (insert p seen) ss)))"

text \<open>The nesting filter, over the kept shares in order.\<close>

fun drop_nested :: "share list \<Rightarrow> share list \<Rightarrow> share list" where
  "drop_nested kept [] = kept"
| "drop_nested kept (s # ss) =
     (if \<exists>p \<in> set kept. is_under (sh_hostPath s) (sh_hostPath p) \<and> sh_readOnly p = sh_readOnly s
      then drop_nested kept ss else drop_nested (kept @ [s]) ss)"

definition normalise_shares :: "host \<Rightarrow> share list \<Rightarrow> share list option" where
  "normalise_shares H ss =
     (case canon_shares H {} ss of
        None \<Rightarrow> None
      | Some out \<Rightarrow>
          (let kept = drop_nested [] (sort_key sh_hostPath out)
           in if length kept > max_shares then None else Some (assign_tags H kept)))"

definition add_share :: "host \<Rightarrow> share list \<Rightarrow> share \<Rightarrow> share list option" where
  "add_share H l s = normalise_shares H (filter (\<lambda>e. sh_hostPath e \<noteq> sh_hostPath s) l @ [s])"

definition remove_share :: "host \<Rightarrow> share list \<Rightarrow> string \<Rightarrow> (share list \<times> bool) option" where
  "remove_share H l hp =
     (case canonical_host_path H hp of
        None \<Rightarrow> None
      | Some p \<Rightarrow> Some (filter (\<lambda>e. sh_hostPath e \<noteq> p) l, \<exists>e \<in> set l. sh_hostPath e = p))"

text \<open>\<open>ho_stat\<close>: \<open>None\<close> when \<^verbatim>\<open>os.Stat\<close> fails, otherwise whether it is a directory.\<close>

definition usable_shares :: "host \<Rightarrow> share list \<Rightarrow> share list \<times> (share \<times> string) list" where
  "usable_shares H l =
     (filter (\<lambda>s. ho_stat H (sh_hostPath s) = Some True) l,
      map (\<lambda>s. (s, if ho_stat H (sh_hostPath s) = None then ''host path is gone'' else ''host path is not a directory''))
        (filter (\<lambda>s. ho_stat H (sh_hostPath s) \<noteq> Some True) l))"

definition tab :: string where "tab = [CHR 0x09]"
definition nl :: string where "nl = [CHR 0x0A]"

definition shares_tab :: "string \<Rightarrow> share list \<Rightarrow> string" where
  "shares_tab header l =
     header @ concat (map (\<lambda>s. sh_tag s @ tab @ sh_guestPath s @ tab @ share_mode s @ nl) l)"

section \<open>Unique tags\<close>

definition tag_cand :: "string \<Rightarrow> nat \<Rightarrow> string" where
  "tag_cand base0 n =
     (let suffix = ''~'' @ itoa (int n)
      in (if length base0 + length suffix > max_tag_len then take (max_tag_len - length suffix) base0 else base0) @ suffix)"

lemma free_tag_step:
  "free_tag (Suc fuel) n used b t = (if t \<notin> used then t else free_tag fuel (n + 1) used b (tag_cand b n))"
  by (simp add: tag_cand_def Let_def)

declare free_tag.simps [simp del]

lemma takeWhile_stop: "\<forall>c \<in> set xs. P c \<Longrightarrow> \<not> P y \<Longrightarrow> takeWhile P (xs @ y # ys) = xs"
  by (induction xs) auto

lemma tag_cand_inj: "tag_cand b n = tag_cand b m \<Longrightarrow> n = m"
proof -
  assume e: "tag_cand b n = tag_cand b m"
  have tw: "takeWhile (\<lambda>c. c \<noteq> CHR ''~'') (rev (tag_cand b k)) = rev (itoa (int k))" for k
  proof -
    have d: "\<forall>c \<in> set (rev (itoa (int k))). c \<noteq> CHR ''~''"
    proof
      fix c
      assume "c \<in> set (rev (itoa (int k)))"
      then have "is_digit c \<or> c = CHR ''-''" using itoa_chars by simp
      then show "c \<noteq> CHR ''~''" by (auto simp: is_digit_def)
    qed
    have "\<exists>p. tag_cand b k = p @ CHR ''~'' # itoa (int k)"
      by (auto simp: tag_cand_def Let_def)
    then obtain p where "tag_cand b k = p @ CHR ''~'' # itoa (int k)" ..
    then have r: "rev (tag_cand b k) = rev (itoa (int k)) @ CHR ''~'' # rev p"
      by (simp only: rev_append rev.simps append_assoc append.simps)
    show ?thesis unfolding r by (rule takeWhile_stop [OF d]) simp
  qed
  have "itoa (int n) = itoa (int m)" by (metis tw e rev_rev_ident)
  then show "n = m" by simp
qed

lemma free_tag_stuck:
  "free_tag fuel n used b t \<in> used \<Longrightarrow> (\<forall>i < fuel. tag_cand b (n + i) \<in> used) \<and> t \<in> used"
proof (induction fuel arbitrary: n t)
  case (Suc fuel)
  have t: "t \<in> used" and r: "free_tag fuel (n + 1) used b (tag_cand b n) \<in> used"
    using Suc.prems unfolding free_tag_step by (auto split: if_splits)
  have ih: "\<forall>i < fuel. tag_cand b (n + 1 + i) \<in> used" "tag_cand b n \<in> used"
    using Suc.IH [OF r] by auto
  have "tag_cand b (n + i) \<in> used" if "i < Suc fuel" for i
    using that ih by (cases i) auto
  then show ?case using t by blast
qed (simp add: free_tag.simps)

lemma free_tag_fresh:
  assumes "finite used" "card used < fuel"
  shows "free_tag fuel n used b t \<notin> used"
proof
  assume "free_tag fuel n used b t \<in> used"
  then have "(\<lambda>i. tag_cand b (n + i)) ` {..<fuel} \<subseteq> used" using free_tag_stuck by blast
  then have "card ((\<lambda>i. tag_cand b (n + i)) ` {..<fuel}) \<le> card used"
    by (rule card_mono [OF assms(1)])
  moreover have "inj_on (\<lambda>i. tag_cand b (n + i)) {..<fuel}"
    by (rule inj_onI) (drule tag_cand_inj, simp)
  ultimately show False using assms(2) by (simp add: card_image)
qed

definition new_tag :: "host \<Rightarrow> string list \<Rightarrow> share \<Rightarrow> string" where
  "new_tag H used s = free_tag (length used + 2) 2 (set used) (sh_tag s)
     (if sh_tag s = [] then share_tag H (sh_hostPath s) else sh_tag s)"

lemma new_tag_fresh: "new_tag H used s \<notin> set used"
  unfolding new_tag_def by (rule free_tag_fresh) (use card_length [of used] in \<open>simp_all add: le_less_trans\<close>)

lemma assign_tags_step:
  "assign_tags_loop H used (s # ss) = s\<lparr>sh_tag := new_tag H used s\<rparr> # assign_tags_loop H (new_tag H used s # used) ss"
  by (simp add: new_tag_def Let_def)

declare assign_tags_loop.simps(2) [simp del]

lemma assign_tags_loop_fields:
  "map sh_hostPath (assign_tags_loop H used ss) = map sh_hostPath ss"
  "map sh_guestPath (assign_tags_loop H used ss) = map sh_guestPath ss"
  "map sh_readOnly (assign_tags_loop H used ss) = map sh_readOnly ss"
  by (induction ss arbitrary: used) (simp_all add: assign_tags_step)

lemma assign_tags_loop_tags:
  "distinct (map sh_tag (assign_tags_loop H used ss)) \<and> set (map sh_tag (assign_tags_loop H used ss)) \<inter> set used = {}"
proof (induction ss arbitrary: used)
  case (Cons s ss)
  show ?case using Cons.IH [of "new_tag H used s # used"] new_tag_fresh [of H used s] by (auto simp: assign_tags_step)
qed simp

section \<open>The normalised set\<close>

lemma drop_nested_keeps: "set kept \<subseteq> set (drop_nested kept ss)" "set (drop_nested kept ss) \<subseteq> set kept \<union> set ss"
proof -
  show "set kept \<subseteq> set (drop_nested kept ss)" by (induction kept ss rule: drop_nested.induct) auto
  show "set (drop_nested kept ss) \<subseteq> set kept \<union> set ss" by (induction kept ss rule: drop_nested.induct) auto
qed

lemma drop_nested_covers:
  "s \<in> set ss \<Longrightarrow>
     s \<in> set (drop_nested kept ss) \<or>
     (\<exists>p \<in> set (drop_nested kept ss). is_under (sh_hostPath s) (sh_hostPath p) \<and> sh_readOnly p = sh_readOnly s)"
proof (induction kept ss rule: drop_nested.induct)
  case (2 kept x ss)
  show ?case
  proof (cases "\<exists>p \<in> set kept. is_under (sh_hostPath x) (sh_hostPath p) \<and> sh_readOnly p = sh_readOnly x")
    case True
    then have "drop_nested kept (x # ss) = drop_nested kept ss" by simp
    then show ?thesis using 2(1) [OF True] 2(3) True drop_nested_keeps(1) [of kept ss] by auto
  next
    case False
    then have "drop_nested kept (x # ss) = drop_nested (kept @ [x]) ss" by auto
    then show ?thesis using 2(2) [OF False] 2(3) drop_nested_keeps(1) [of "kept @ [x]" ss] by auto
  qed
qed simp

lemma drop_nested_sorted:
  "sorted_wrt (<) (map sh_hostPath (kept @ ss)) \<Longrightarrow> sorted_wrt (<) (map sh_hostPath (drop_nested kept ss))"
proof (induction kept ss rule: drop_nested.induct)
  case (2 kept x ss)
  show ?case
  proof (cases "\<exists>p \<in> set kept. is_under (sh_hostPath x) (sh_hostPath p) \<and> sh_readOnly p = sh_readOnly x")
    case True
    then have "drop_nested kept (x # ss) = drop_nested kept ss" by simp
    then show ?thesis using 2(1) [OF True] 2(3) by (auto simp: sorted_wrt_append)
  next
    case False
    then have "drop_nested kept (x # ss) = drop_nested (kept @ [x]) ss" by auto
    then show ?thesis using 2(2) [OF False] 2(3) by simp
  qed
qed simp

lemma canon_shares_spec:
  assumes "canon_shares H seen ss = Some out"
  shows "distinct (map sh_hostPath out) \<and> set (map sh_hostPath out) \<inter> seen = {} \<and>
    (\<forall>x \<in> set out. sh_guestPath x = sh_hostPath x \<and> sh_tag x = share_tag H (sh_hostPath x)) \<and>
    (\<forall>s \<in> set ss. \<exists>p. canonical_host_path H (sh_hostPath s) = Some p \<and> (p \<in> seen \<or> p \<in> sh_hostPath ` set out)) \<and>
    (\<forall>x \<in> set out. \<exists>s \<in> set ss. canonical_host_path H (sh_hostPath s) = Some (sh_hostPath x) \<and> sh_readOnly s = sh_readOnly x)"
  using assms
proof (induction ss arbitrary: seen out)
  case (Cons s ss)
  obtain p where p: "canonical_host_path H (sh_hostPath s) = Some p"
    using Cons.prems by (auto split: option.splits)
  show ?case
  proof (cases "p \<in> seen")
    case True
    then have "canon_shares H seen ss = Some out" using Cons.prems p by simp
    from Cons.IH [OF this] show ?thesis using p True by auto
  next
    case False
    then obtain r where r: "canon_shares H (insert p seen) ss = Some r"
      "out = \<lparr>sh_hostPath = p, sh_guestPath = p, sh_readOnly = sh_readOnly s, sh_tag = share_tag H p\<rparr> # r"
      using Cons.prems p by (auto split: option.splits)
    note ih = Cons.IH [OF r(1)]
    have "p \<notin> sh_hostPath ` set r" using ih by auto
    then show ?thesis using ih p False unfolding r(2) by (auto; metis)
  qed
qed simp

text \<open>C28 (functional): a normalised share set is ordered by path (a parent before what is nested
  in it), has no path and no mount tag twice, never uses the tag of the configuration share,
  keeps the identity path, fits the device slots, and covers every requested directory by
  itself or by a share above it.\<close>

theorem normalise_shares_spec:
  assumes "normalise_shares H ss = Some out"
  shows "sorted_wrt (<) (map sh_hostPath out) \<and> distinct (map sh_tag out) \<and> guest_conf_tag \<notin> set (map sh_tag out) \<and>
    map sh_guestPath out = map sh_hostPath out \<and> length out \<le> max_shares \<and>
    (\<forall>s \<in> set ss. \<exists>p q. canonical_host_path H (sh_hostPath s) = Some p \<and> q \<in> set (map sh_hostPath out) \<and> (p = q \<or> is_under p q))"
proof -
  obtain c where c: "canon_shares H {} ss = Some c"
    using assms by (auto simp: normalise_shares_def split: option.splits)
  define kept where "kept = drop_nested [] (sort_key sh_hostPath c)"
  have len: "length kept \<le> max_shares" and out: "out = assign_tags H kept"
    using assms c by (auto simp: normalise_shares_def kept_def Let_def split: if_splits)
  note cs = canon_shares_spec [OF c]
  note tg = assign_tags_loop_fields [of H "[guest_conf_tag]" kept, folded assign_tags_def, folded out]
    assign_tags_loop_tags [of H "[guest_conf_tag]" kept, folded assign_tags_def, folded out]
  have "sorted_wrt (<) (map sh_hostPath (sort_key sh_hostPath c))"
    using cs by (simp add: sorted_wrt_less_iff distinct_map)
  then have srt: "sorted_wrt (<) (map sh_hostPath kept)"
    unfolding kept_def using drop_nested_sorted [of "[]"] by simp
  have sub: "set kept \<subseteq> set c" unfolding kept_def using drop_nested_keeps(2) [of "[]" "sort_key sh_hostPath c"] by simp
  have g: "map sh_guestPath kept = map sh_hostPath kept"
    using cs sub by (intro map_cong) auto
  have cov: "\<exists>p q. canonical_host_path H (sh_hostPath s) = Some p \<and> q \<in> set (map sh_hostPath kept) \<and> (p = q \<or> is_under p q)"
    if mem: "s \<in> set ss" for s
  proof -
    obtain p where p: "canonical_host_path H (sh_hostPath s) = Some p" "p \<in> sh_hostPath ` set c"
      using bspec [OF cs [THEN conjunct2, THEN conjunct2, THEN conjunct2, THEN conjunct1] mem] by auto
    from p(2) obtain x where "p = sh_hostPath x" "x \<in> set c" by (rule imageE)
    then have x: "x \<in> set (sort_key sh_hostPath c)" "p = sh_hostPath x" by simp_all
    from drop_nested_covers [OF x(1), of "[]"] show ?thesis
      unfolding kept_def [symmetric] using p(1) x(2) by auto
  qed
  have "length out = length kept" using arg_cong [OF tg(1), of length] by simp
  then have "length out \<le> max_shares" using len by simp
  moreover have "guest_conf_tag \<notin> set (map sh_tag out)" using tg(4) by auto
  moreover have "map sh_guestPath out = map sh_hostPath out" using tg(1,2) g by simp
  ultimately show ?thesis using srt tg(4) cov unfolding tg(1) by blast
qed

text \<open>A host where every path is its own canonical form, and three nested shares.\<close>

definition plain_host :: host where
  "plain_host = \<lparr>ho_abs = Some, ho_eval = (\<lambda>_. None), ho_stat = (\<lambda>_. Some True), ho_hash8 = (\<lambda>_. ''01234567'')\<rparr>"

definition wish :: "string \<Rightarrow> bool \<Rightarrow> share" where
  "wish p ro = \<lparr>sh_hostPath = p, sh_guestPath = p, sh_readOnly = ro, sh_tag = []\<rparr>"

text \<open>The access mode the guest sees at a path: that of the innermost exported directory.\<close>

definition covers :: "string \<Rightarrow> share \<Rightarrow> bool" where
  "covers p s \<longleftrightarrow> p = sh_hostPath s \<or> is_under p (sh_hostPath s)"

definition effective_ro :: "share list \<Rightarrow> string \<Rightarrow> bool option" where
  "effective_ro ss p =
     (case sort_key (\<lambda>s. length (sh_hostPath s)) (filter (covers p) ss) of
        [] \<Rightarrow> None
      | x # xs \<Rightarrow> Some (sh_readOnly (last (x # xs))))"

lemma plain_canonical [simp]:
  "p \<noteq> [] \<Longrightarrow> hd p = CHR ''/'' \<Longrightarrow> p \<noteq> ''/'' \<Longrightarrow> \<not> contains_any p [CHR 0x09, CHR 0x0D, CHR 0x0A] \<Longrightarrow>
     canonical_host_path plain_host p = Some p"
  by (cases p) (simp_all add: canonical_host_path_def plain_host_def trim_space_def is_space_def has_prefix_def)

text \<open>Fact (error): a read-only directory inside a writable one inside a read-only one loses its
  own mode: it is dropped as redundant against the outermost share, and the guest sees it
  through the writable share between them.\<close>

theorem nested_readonly_lost:
  "let asked = [wish ''/a'' True, wish ''/a/b'' False, wish ''/a/b/c'' True]
   in map_option (map sh_hostPath) (normalise_shares plain_host asked) = Some [''/a'', ''/a/b'']
      \<and> effective_ro asked ''/a/b/c'' = Some True
      \<and> map_option (\<lambda>ss. effective_ro ss ''/a/b/c'') (normalise_shares plain_host asked) = Some (Some False)"
proof -
  let ?s = "\<lambda>p ro. \<lparr>sh_hostPath = p, sh_guestPath = p, sh_readOnly = ro, sh_tag = share_tag plain_host p\<rparr>"
  have c: "canon_shares plain_host {} [wish ''/a'' True, wish ''/a/b'' False, wish ''/a/b/c'' True] =
      Some [?s ''/a'' True, ?s ''/a/b'' False, ?s ''/a/b/c'' True]"
    by (simp add: wish_def contains_any_def)
  have d: "drop_nested [] [?s ''/a'' True, ?s ''/a/b'' False, ?s ''/a/b/c'' True] = [?s ''/a'' True, ?s ''/a/b'' False]"
    by (simp add: is_under_def has_prefix_def trim_suffix_def has_suffix_def)
  have srt: "sort_key sh_hostPath [?s ''/a'' True, ?s ''/a/b'' False, ?s ''/a/b/c'' True] = [?s ''/a'' True, ?s ''/a/b'' False, ?s ''/a/b/c'' True]"
    by (rule sort_key_id_if_sorted) simp
  have n: "normalise_shares plain_host [wish ''/a'' True, wish ''/a/b'' False, wish ''/a/b/c'' True] =
      Some (assign_tags plain_host [?s ''/a'' True, ?s ''/a/b'' False])"
    unfolding normalise_shares_def c option.case srt d Let_def by (simp add: max_shares_def)
  define out where "out = assign_tags plain_host [?s ''/a'' True, ?s ''/a/b'' False]"
  have o: "map sh_hostPath out = [''/a'', ''/a/b'']" "map sh_readOnly out = [True, False]"
    unfolding out_def assign_tags_def by (simp_all add: assign_tags_loop_fields)
  then obtain x y where xy: "out = [x, y]" "sh_hostPath x = ''/a''" "sh_hostPath y = ''/a/b''" "sh_readOnly y = False"
    by (auto simp: map_eq_Cons_conv)
  have e: "effective_ro out ''/a/b/c'' = Some False"
    using xy by (simp add: effective_ro_def covers_def is_under_def has_prefix_def trim_suffix_def has_suffix_def)
  have a: "effective_ro [wish ''/a'' True, wish ''/a/b'' False, wish ''/a/b/c'' True] ''/a/b/c'' = Some True"
    by (simp add: effective_ro_def covers_def wish_def is_under_def has_prefix_def trim_suffix_def has_suffix_def)
  show ?thesis unfolding Let_def n out_def [symmetric] using o(1) e a by simp
qed

theorem normalise_shares_spec_witness:
  "\<exists>out. normalise_shares plain_host [wish ''/w'' False] = Some out \<and> distinct (map sh_tag out) \<and> guest_conf_tag \<notin> set (map sh_tag out)"
proof -
  let ?s = "\<lparr>sh_hostPath = ''/w'', sh_guestPath = ''/w'', sh_readOnly = False, sh_tag = share_tag plain_host ''/w''\<rparr>"
  have n: "normalise_shares plain_host [wish ''/w'' False] = Some (assign_tags plain_host [?s])"
    by (simp add: normalise_shares_def wish_def contains_any_def max_shares_def)
  from normalise_shares_spec [OF n] n show ?thesis by blast
qed

section \<open>Names, references and defaults\<close>

lemma rev_dropWhile_last: "ys \<noteq> [] \<Longrightarrow> \<not> P (last ys) \<Longrightarrow> rev (dropWhile P (rev (xs @ ys))) = xs @ ys"
  by (cases ys rule: rev_cases) simp_all

text \<open>Fact (safety): a valid machine name is one path component: it is not empty, has no slash
  and is neither the current nor the parent directory, so a machine's directory is a child
  of the machines directory.\<close>

theorem validate_name_one_component:
  assumes "validate_name name"
  shows "name \<noteq> [] \<and> CHR ''/'' \<notin> set name \<and> name \<noteq> ''.'' \<and> name \<noteq> ''..'' \<and>
    path_base (machines_dir root name) = name"
proof -
  obtain c cs where n: "name = c # cs" using assms by (cases name) (auto simp: validate_name_def)
  have c: "is_alnum c" "list_all (\<lambda>c. is_alnum c \<or> c \<in> set ''_.-'') cs"
    using assms by (simp_all add: validate_name_def n)
  have al: "is_alnum x \<Longrightarrow> x \<noteq> CHR ''/'' \<and> x \<noteq> CHR ''.''" for x
    by (auto simp: is_alnum_def is_lower_def is_upper_def is_digit_def)
  have sl: "CHR ''/'' \<notin> set name" using c al by (auto simp: n list_all_iff)
  have l: "last name \<noteq> CHR ''/''" using sl n by (metis last_in_set list.distinct(1))
  have "rev (dropWhile (\<lambda>c. c = CHR ''/'') (rev (machines_dir root name))) = machines_dir root name"
    unfolding machines_dir_def append_assoc [symmetric] using l n by (intro rev_dropWhile_last) simp_all
  moreover have "split_on CHR ''/'' (machines_dir root name) = split_on CHR ''/'' (root @ ''/machines'') @ [name]"
    unfolding machines_dir_def using split_on_mid [of "CHR ''/''" "root @ ''/machines''" name] split_on_free [OF sl] by simp
  ultimately have "path_base (machines_dir root name) = name"
    by (simp add: path_base_def Let_def machines_dir_def)
  then show ?thesis using n sl al [OF c(1)] by auto
qed

theorem validate_name_one_component_witness:
  "path_base (machines_dir ''/r'' ''vm-1'') = ''vm-1''"
proof -
  have "validate_name ''vm-1''" by (simp add: validate_name_def is_alnum_def is_lower_def is_digit_def)
  from validate_name_one_component [OF this] show ?thesis by blast
qed

text \<open>Fact (roundtrip): an image reference that parses prints to a text that parses to the same
  reference.\<close>

theorem image_ref_roundtrip:
  assumes "parse_image_ref s = Some r"
  shows "parse_image_ref (image_ref_string r) = Some r"
proof -
  obtain src rr where ct: "cut CHR '':'' (if s = [] then ''prebaked'' else s) = (src, rr)" by fastforce
  have r: "r = \<lparr>ir_source = src, ir_release = (case rr of None \<Rightarrow> [] | Some x \<Rightarrow> x)\<rparr>" "src \<noteq> []"
    "\<not> contains_any (case rr of None \<Rightarrow> [] | Some x \<Rightarrow> x) [CHR ''/'', CHR '' '', CHR 0x09, CHR 0x0A]"
    using assms ct by (auto simp: parse_image_ref_def Let_def split: if_splits)
  have free: "CHR '':'' \<notin> set src"
    using ct by (auto simp: cut_def Let_def dest: set_takeWhileD)
  show ?thesis
  proof (cases "ir_release r = []")
    case True
    then have "image_ref_string r = src" "cut CHR '':'' src = (src, None)"
      using r(1) cut_none [OF free] by (simp_all add: image_ref_string_def)
    then show ?thesis using r True by (simp add: parse_image_ref_def contains_any_def)
  next
    case False
    then have "image_ref_string r = src @ CHR '':'' # ir_release r" using r(1) by (simp add: image_ref_string_def)
    then show ?thesis using r False cut_join [OF free] by (simp add: parse_image_ref_def)
  qed
qed

theorem image_ref_roundtrip_witness:
  "parse_image_ref (image_ref_string \<lparr>ir_source = ''official'', ir_release = ''15.1-RELEASE''\<rparr>) =
     Some \<lparr>ir_source = ''official'', ir_release = ''15.1-RELEASE''\<rparr>"
  by (rule image_ref_roundtrip [of "''official:15.1-RELEASE''"])
     (simp add: parse_image_ref_def cut_def contains_any_def Let_def)

lemma default_arc_bounds [bounds]:
  "default_arc_for n = 0 \<or> min_arc_mib \<le> default_arc_for n \<and> default_arc_for n \<le> default_arc_mib \<and> 2 * default_arc_for n \<le> n"
  by (auto simp: default_arc_for_def Let_def min_arc_mib_def default_arc_mib_def)

end
