(* ===== verification/Qemu_Argv.thy ===== *)
theory Qemu_Argv
  imports Machine
begin

text \<open>
  The hypervisor's command line across a suspend
  (\<^verbatim>\<open>internal/backend/qemu/argvpin.go\<close>, with \<^verbatim>\<open>escapeComma\<close> of \<^verbatim>\<open>argv.go\<close>): QEMU
  option strings, the machine type and its pinning, the argv of a resume, and the adaptation
  of a saved argv to a changed host. The file system (\<open>exists\<close>, \<open>mkdir\<close>) and the running
  QEMU's alias table (\<open>alias_target\<close>) are parameters.
\<close>

section \<open>Option strings\<close>

text \<open>A comma ends an element unless another comma follows it; the pair stays in the element.\<close>

fun split_opts :: "string \<Rightarrow> string list" where
  "split_opts [] = [[]]"
| "split_opts [c] = (if c = CHR '','' then [[], []] else [[c]])"
| "split_opts (c # d # s) =
     (if c = CHR '','' then
        (if d = CHR '','' then
           (case split_opts s of [] \<Rightarrow> [[c, d]] | x # xs \<Rightarrow> (c # d # x) # xs)
         else [] # split_opts (d # s))
      else case split_opts (d # s) of [] \<Rightarrow> [[c]] | x # xs \<Rightarrow> (c # x) # xs)"

fun unescape_comma :: "string \<Rightarrow> string" where
  "unescape_comma [] = []"
| "unescape_comma [c] = [c]"
| "unescape_comma (c # d # s) =
     (if c = CHR '','' \<and> d = CHR '','' then CHR '','' # unescape_comma s else c # unescape_comma (d # s))"

fun escape_comma :: "string \<Rightarrow> string" where
  "escape_comma [] = []"
| "escape_comma (c # s) = (if c = CHR '','' then CHR '','' # CHR '','' # escape_comma s else c # escape_comma s)"

fun opt_get :: "string list \<Rightarrow> string \<Rightarrow> string" where
  "opt_get [] key = []"
| "opt_get (x # xs) key =
     (case cut_prefix x (key @ ''='') of Some v \<Rightarrow> unescape_comma v | None \<Rightarrow> opt_get xs key)"

fun opt_set :: "string list \<Rightarrow> string \<Rightarrow> string \<Rightarrow> string list" where
  "opt_set [] key v = [key @ ''='' @ escape_comma v]"
| "opt_set (x # xs) key v =
     (if has_prefix x (key @ ''='') then (key @ ''='' @ escape_comma v) # xs else x # opt_set xs key v)"

section \<open>The machine type\<close>

fun machine_flag_index :: "string list \<Rightarrow> nat option" where
  "machine_flag_index (x # y # r) =
     (if x = ''-M'' \<or> x = ''-machine'' then Some 1 else map_option Suc (machine_flag_index (y # r)))"
| "machine_flag_index _ = None"

definition machine_type_of :: "string list \<Rightarrow> string + string" where
  "machine_type_of argv =
     (case machine_flag_index argv of
        None \<Rightarrow> Inl ''qemu: argv has no -M''
      | Some i \<Rightarrow>
          (let t = trim_prefix (hd (split_opts (argv ! i))) ''type='' in
           if t = [] then Inl (''qemu: argv has an empty machine type (-M '' @ argv ! i @ '')'') else Inr t))"

definition last_index_of :: "char \<Rightarrow> string \<Rightarrow> nat option" where
  "last_index_of c s = (case filter (\<lambda>i. s ! i = c) [0..<length s] of [] \<Rightarrow> None | x # xs \<Rightarrow> Some (last (x # xs)))"

definition versioned_machine_type :: "string \<Rightarrow> bool" where
  "versioned_machine_type t =
     (case last_index_of CHR ''-'' t of
        None \<Rightarrow> False
      | Some i \<Rightarrow> i > 0 \<and> i + 1 < length t \<and> is_digit (t ! (i + 1)))"

definition pin_machine_type :: "(string \<Rightarrow> string + string) \<Rightarrow> string list \<Rightarrow> string + string" where
  "pin_machine_type alias_target argv =
     (case machine_type_of argv of
        Inl e \<Rightarrow> Inl e
      | Inr t \<Rightarrow>
          (if versioned_machine_type t then Inr t
           else case alias_target t of
               Inl e \<Rightarrow> Inl (''qemu: resolving machine type '' @ quote t @ '': '' @ e)
             | Inr target \<Rightarrow>
                 (if \<not> versioned_machine_type target
                  then Inl (''qemu: machine type '' @ quote t @ '' resolves to '' @ quote target @ '', which has no version'')
                  else Inr target)))"

definition with_machine_type :: "string list \<Rightarrow> string \<Rightarrow> string + string list" where
  "with_machine_type argv mt =
     (case machine_flag_index argv of
        None \<Rightarrow> Inl ''qemu: argv has no -M''
      | Some i \<Rightarrow> Inr (argv[i := join '','' ((split_opts (argv ! i))[0 := mt])]))"

definition has_incoming :: "string list \<Rightarrow> bool" where
  "has_incoming argv \<longleftrightarrow> ''-incoming'' \<in> set argv"

fun strip_incoming :: "string list \<Rightarrow> string + string list" where
  "strip_incoming [] = Inr []"
| "strip_incoming (x # r) =
     (if x = ''-incoming'' then
        (case r of
           y # r' \<Rightarrow> (if y = ''defer'' then strip_incoming r'
                      else Inl (''qemu: saved argv already has -incoming '' @ quote y))
         | [] \<Rightarrow> Inl (''qemu: saved argv already has -incoming '' @ quote []))
      else map_sum id (\<lambda>r'. x # r') (strip_incoming r))"

definition incoming_argv :: "string list \<Rightarrow> string \<Rightarrow> string + string list" where
  "incoming_argv saved mt =
     (if ''-daemonize'' \<in> set saved then Inl ''qemu: saved argv daemonises QEMU''
      else case strip_incoming saved of
          Inl e \<Rightarrow> Inl e
        | Inr stripped \<Rightarrow>
            (case with_machine_type stripped mt of
               Inl e \<Rightarrow> Inl e
             | Inr out \<Rightarrow> Inr (out @ [''-incoming'', ''defer''])))"

section \<open>A saved argv on a changed host\<close>

text \<open>The first loop: fsdev id to mount tag, from the \<^verbatim>\<open>-device virtio-9p\<close> values.\<close>

fun fsdev_tags :: "string list \<Rightarrow> (string \<rightharpoonup> string) \<Rightarrow> (string \<rightharpoonup> string)" where
  "fsdev_tags (x # y # r) tags =
     (let opts = split_opts y; i = opt_get opts ''fsdev''; t = opt_get opts ''mount_tag''
      in fsdev_tags (y # r)
           (if x = ''-device'' \<and> has_prefix (hd opts) ''virtio-9p'' \<and> i \<noteq> [] \<and> t \<noteq> [] then tags(i \<mapsto> t) else tags))"
| "fsdev_tags _ tags = tags"

record argv_fs =
  af_exists :: "string \<Rightarrow> bool"
  af_mkdir :: "string \<Rightarrow> string option"

definition absent_dir :: "string \<Rightarrow> string \<Rightarrow> string" where
  "absent_dir dir tag = dir @ ''/guest/absent/'' @ tag"

datatype rewrite = Keep | Fail string | Absent string string | Move string

definition rewrite_fsdev :: "argv_fs \<Rightarrow> string \<Rightarrow> (string \<rightharpoonup> string) \<Rightarrow> string \<Rightarrow> rewrite" where
  "rewrite_fsdev F dir tags y =
     (let opts = split_opts y; p = opt_get opts ''path'' in
      if p = [] then Keep
      else if af_exists F p then Keep
      else let i = opt_get opts ''id'';
               t0 = (case tags i of Some t \<Rightarrow> t | None \<Rightarrow> []);
               t = (if t0 = [] then i else t0)
           in if t = [] \<or> contains_any t [CHR ''/'', CHR 0x5C]
              then Fail (''qemu: saved share '' @ p @ '' has no usable tag'')
              else case af_mkdir F (absent_dir dir t) of
                  Some e \<Rightarrow> Fail (''qemu: creating share placeholder: '' @ e)
                | None \<Rightarrow>
                    (let o1 = opt_set opts ''path'' (absent_dir dir t);
                         o2 = (if opt_get o1 ''readonly'' \<noteq> ''on'' then opt_set o1 ''readonly'' ''on'' else o1)
                     in Absent t (join '','' o2)))"

definition rewrite_drive :: "argv_fs \<Rightarrow> string \<Rightarrow> string \<Rightarrow> rewrite" where
  "rewrite_drive F fwDir y =
     (let opts = split_opts y; file = opt_get opts ''file'' in
      if opt_get opts ''if'' \<noteq> ''pflash'' \<or> opt_get opts ''readonly'' \<noteq> ''on'' \<or> file = [] \<or> fwDir = [] then Keep
      else if af_exists F file then Keep
      else let m1 = fwDir @ ''/'' @ path_base file;
               m2 = (if af_exists F m1 then m1 else fwDir @ ''/edk2-aarch64-code.fd'')
           in Move (join '','' (opt_set opts ''file'' m2)))"

fun resolve_loop :: "argv_fs \<Rightarrow> string \<Rightarrow> string \<Rightarrow> (string \<rightharpoonup> string) \<Rightarrow> string list \<Rightarrow> string + (string list \<times> string list)" where
  "resolve_loop F dir fwDir tags (x # y # r) =
     (let act = (if x = ''-fsdev'' then rewrite_fsdev F dir tags y
                 else if x = ''-drive'' then rewrite_drive F fwDir y else Keep)
      in case act of
           Fail e \<Rightarrow> Inl e
         | Keep \<Rightarrow> map_sum id (\<lambda>(out, ab). (x # out, ab)) (resolve_loop F dir fwDir tags (y # r))
         | Absent t y' \<Rightarrow> map_sum id (\<lambda>(out, ab). (x # out, t # ab)) (resolve_loop F dir fwDir tags (y' # r))
         | Move y' \<Rightarrow> map_sum id (\<lambda>(out, ab). (x # out, ab)) (resolve_loop F dir fwDir tags (y' # r)))"
| "resolve_loop F dir fwDir tags xs = Inr (xs, [])"

definition resolve_saved_argv :: "argv_fs \<Rightarrow> string list \<Rightarrow> string \<Rightarrow> string \<Rightarrow> string + (string list \<times> string list)" where
  "resolve_saved_argv F argv dir fwDir = resolve_loop F dir fwDir (fsdev_tags argv Map.empty) argv"

section \<open>Option strings\<close>

lemma split_opts_nonempty [simp]: "split_opts s \<noteq> []"
  by (induction s rule: split_opts.induct) (auto split: list.splits)

lemma join_Cons_char: "xs \<noteq> [] \<Longrightarrow> join sep ((c # x) # xs) = c # join sep (x # xs)"
  by (cases xs) auto

lemma join_hd_char: "join sep ((c # x) # xs) = c # join sep (x # xs)"
  by (cases xs) auto

lemma join_split_opts': "join '','' (split_opts s) = s"
proof (induction s rule: split_opts.induct)
  case (3 c d s)
  obtain x xs where x: "split_opts s = x # xs" using split_opts_nonempty [of s] by (cases "split_opts s") auto
  obtain y ys where y: "split_opts (d # s) = y # ys" using split_opts_nonempty [of "d # s"] by (cases "split_opts (d # s)") auto
  have a: "join '','' (x # xs) = s" if "c = CHR '',''" "d = CHR '',''" using 3(1) [OF that] x by simp
  show ?case using 3 x y a by (auto simp: join_hd_char)
qed simp_all

text \<open>Fact (roundtrip): splitting an option string and joining the elements gives it back.\<close>

theorem join_split_opts: "join '','' (split_opts s) = s"
  by (rule join_split_opts')

lemma unescape_escape: "unescape_comma (escape_comma v) = v"
proof (induction v)
  case (Cons c v)
  then show ?case by (cases "escape_comma v") auto
qed simp

text \<open>\<open>plain_opt\<close>: an element as \<^verbatim>\<open>splitOpts\<close> leaves it, every comma doubled.\<close>

fun plain_opt :: "string \<Rightarrow> bool" where
  "plain_opt [] \<longleftrightarrow> True"
| "plain_opt [c] \<longleftrightarrow> c \<noteq> CHR '',''"
| "plain_opt (c # d # s) \<longleftrightarrow> (if c = CHR '','' then d = CHR '','' \<and> plain_opt s else plain_opt (d # s))"

lemma plain_escape [simp]: "plain_opt (escape_comma v)"
proof (induction v)
  case (Cons c v)
  then show ?case by (cases "escape_comma v") auto
qed simp

lemma plain_append_left: "CHR '','' \<notin> set k \<Longrightarrow> plain_opt (k @ s) \<longleftrightarrow> plain_opt s"
proof (induction k)
  case (Cons c k)
  then show ?case by (cases "k @ s") auto
qed simp

lemma split_opts_plain_append:
  "plain_opt x \<Longrightarrow> s \<noteq> [] \<Longrightarrow> hd s \<noteq> CHR '','' \<or> s = [] \<Longrightarrow> split_opts (x @ CHR '','' # s) = x # split_opts s"
proof (induction x rule: plain_opt.induct)
  case 1
  then show ?case by (cases s) auto
next
  case (2 c)
  then show ?case by (cases s) auto
next
  case (3 c d x)
  then show ?case by (cases x) (auto split: if_splits)
qed

lemma split_opts_plain: "plain_opt x \<Longrightarrow> split_opts x = [x]"
  by (induction x rule: plain_opt.induct) (auto split: if_splits)

lemma opt_get_set_same: "opt_get (opt_set opts k v) k = v"
  by (induction opts) (auto simp: cut_prefix_def has_prefix_def unescape_escape)

lemma cut_prefix_other:
  "k \<noteq> k' \<Longrightarrow> CHR ''='' \<notin> set k \<Longrightarrow> CHR ''='' \<notin> set k' \<Longrightarrow> cut_prefix (k @ ''='' @ w) (k' @ ''='') = None"
proof -
  assume a: "k \<noteq> k'" "CHR ''='' \<notin> set k" "CHR ''='' \<notin> set k'"
  have "\<not> has_prefix (k @ ''='' @ w) (k' @ ''='')"
  proof
    assume "has_prefix (k @ ''='' @ w) (k' @ ''='')"
    then obtain t where "k @ CHR ''='' # w = k' @ CHR ''='' # t" using has_prefixE by fastforce
    then have "takeWhile (\<lambda>c. c \<noteq> CHR ''='') (k @ CHR ''='' # w) = takeWhile (\<lambda>c. c \<noteq> CHR ''='') (k' @ CHR ''='' # t)" by simp
    moreover have "\<forall>c \<in> set k. c \<noteq> CHR ''=''" "\<forall>c \<in> set k'. c \<noteq> CHR ''=''" using a(2,3) by blast+
    ultimately have "k = k'" by (simp add: takeWhile_stop)
    then show False using a(1) by simp
  qed
  then show ?thesis by (simp add: cut_prefix_def)
qed

text \<open>Fact (functional): setting an option and reading it back gives the value, whatever commas
  it holds, and leaves every other option alone.\<close>

theorem opt_set_spec:
  assumes "CHR ''='' \<notin> set k" "CHR ''='' \<notin> set k'" "k \<noteq> k'"
  shows "opt_get (opt_set opts k v) k = v \<and> opt_get (opt_set opts k v) k' = opt_get opts k'"
proof
  show "opt_get (opt_set opts k v) k = v" by (rule opt_get_set_same)
  show "opt_get (opt_set opts k v) k' = opt_get opts k'"
  proof (induction opts)
    case Nil
    then show ?case using cut_prefix_other [OF assms(3,1,2)] by simp
  next
    case (Cons x opts)
    show ?case
    proof (cases "has_prefix x (k @ ''='')")
      case True
      then obtain t where "x = k @ ''='' @ t" using has_prefixE by fastforce
      then have "cut_prefix x (k' @ ''='') = None" using cut_prefix_other [OF assms(3,1,2)] by simp
      then show ?thesis using True cut_prefix_other [OF assms(3,1,2)] by simp
    next
      case False
      then show ?thesis using Cons by (cases "cut_prefix x (k' @ ''='')") simp_all
    qed
  qed
qed

theorem opt_set_spec_witness:
  "opt_get (opt_set (split_opts ''local,id=x,path=/old'') ''path'' ''/a,b'') ''path'' = ''/a,b'' \<and>
   opt_get (opt_set (split_opts ''local,id=x,path=/old'') ''path'' ''/a,b'') ''id'' = opt_get (split_opts ''local,id=x,path=/old'') ''id''"
  by (rule opt_set_spec) simp_all

section \<open>The argv of a resume\<close>

lemma machine_flag_index_bound: "machine_flag_index argv = Some i \<Longrightarrow> 0 < i \<and> i < length argv"
  by (induction argv arbitrary: i rule: machine_flag_index.induct) (auto split: if_splits)

lemma machine_flag_index_update:
  "machine_flag_index argv = Some i \<Longrightarrow> machine_flag_index (argv[i := v]) = Some i"
proof (induction argv arbitrary: i rule: machine_flag_index.induct)
  case (1 x y r)
  show ?case
  proof (cases "x = ''-M'' \<or> x = ''-machine''")
    case True
    then show ?thesis using 1(2) by auto
  next
    case False
    then obtain j where j: "machine_flag_index (y # r) = Some j" "i = Suc j" using 1(2) by (auto split: if_splits)
    have "0 < j" using machine_flag_index_bound [OF j(1)] by simp
    then show ?thesis using 1(1) [OF False j(1)] False j by (cases j) auto
  qed
qed simp_all

lemma machine_flag_index_append:
  "machine_flag_index argv = Some i \<Longrightarrow> machine_flag_index (argv @ ys) = Some i"
  by (induction argv arbitrary: i rule: machine_flag_index.induct) (auto split: if_splits)

lemma hd_join_first: "xs \<noteq> [] \<Longrightarrow> join '','' (xs[0 := mt]) = (if tl xs = [] then mt else mt @ '','' @ join '','' (tl xs))"
  by (cases xs; cases "tl xs") auto

lemma hd_split_opts_append: "plain_opt x \<Longrightarrow> s = [] \<or> hd s \<noteq> CHR '','' \<Longrightarrow> hd (split_opts (x @ CHR '','' # s)) = x"
proof (induction x rule: plain_opt.induct)
  case 1 then show ?case by (cases s) auto
next
  case (2 c) then show ?case by (cases s) auto
next
  case (3 c d x)
  then show ?case by (cases "split_opts (d # x @ CHR '','' # s)"; cases "split_opts (x @ CHR '','' # s)") (auto split: if_splits)
qed

lemma split_opts_tail: "join '','' (tl (split_opts s)) = [] \<or> hd (join '','' (tl (split_opts s))) \<noteq> CHR '',''"
proof (induction s rule: split_opts.induct)
  case (3 c d s)
  consider "c = CHR '',''" "d = CHR '',''" | "c = CHR '',''" "d \<noteq> CHR '',''" | "c \<noteq> CHR '',''" by blast
  then show ?case
  proof cases
    case 1
    then show ?thesis using 3(1) by (cases "split_opts s") auto
  next
    case 2
    then have "tl (split_opts (c # d # s)) = split_opts (d # s)" by simp
    then show ?thesis using join_split_opts' [of "d # s"] 2(2) by simp
  next
    case c3: 3
    then show ?thesis using 3(3) by (cases "split_opts (d # s)") auto
  qed
qed simp_all

lemma join_update_hd:
  "join '','' ((split_opts v)[0 := mt]) =
     (if tl (split_opts v) = [] then mt else mt @ CHR '','' # join '','' (tl (split_opts v)))"
  by (cases "split_opts v"; cases "tl (split_opts v)") auto

text \<open>Replacing the machine type twice is replacing it once, and the type reads back.\<close>

lemma machine_value:
  assumes "plain_opt mt"
  defines "f \<equiv> \<lambda>v. join '','' ((split_opts v)[0 := mt])"
  shows "hd (split_opts (f v)) = mt" "f (f v) = f v"
proof -
  have "hd (split_opts (f v)) = mt \<and> f (f v) = f v"
  proof (cases "tl (split_opts v) = []")
    case True
    then have "f v = mt" by (simp add: f_def join_update_hd)
    moreover have "f mt = mt" using split_opts_plain [OF assms(1)] by (simp add: f_def)
    ultimately show ?thesis using split_opts_plain [OF assms(1)] by simp
  next
    case False
    define r where "r = join '','' (tl (split_opts v))"
    have fv: "f v = mt @ CHR '','' # r" using False by (simp add: f_def join_update_hd r_def)
    have h: "hd (split_opts (mt @ CHR '','' # r)) = mt"
      by (rule hd_split_opts_append [OF assms(1)]) (use split_opts_tail [of v] in \<open>simp add: r_def\<close>)
    have "join '','' (split_opts (mt @ CHR '','' # r)) = mt @ CHR '','' # r" by (rule join_split_opts')
    moreover have "(split_opts (mt @ CHR '','' # r))[0 := mt] = split_opts (mt @ CHR '','' # r)"
      using h by (cases "split_opts (mt @ CHR '','' # r)") auto
    ultimately have "f (mt @ CHR '','' # r) = mt @ CHR '','' # r" by (simp add: f_def)
    then show ?thesis using h fv by simp
  qed
  then show "hd (split_opts (f v)) = mt" "f (f v) = f v" by simp_all
qed

lemma strip_incoming_spec:
  "strip_incoming saved = Inr st \<Longrightarrow> ''-incoming'' \<notin> set st \<and> set st \<subseteq> set saved"
proof (induction saved arbitrary: st rule: strip_incoming.induct)
  case (2 x r)
  show ?case
  proof (cases "x = ''-incoming''")
    case True
    then obtain r' where r: "r = ''defer'' # r'" "strip_incoming r' = Inr st"
      using 2(3) by (auto split: list.splits if_splits)
    then show ?thesis using 2(1) [OF True r(1)] by auto
  next
    case False
    then obtain st' where "strip_incoming r = Inr st'" "st = x # st'"
      using 2(3) by (cases "strip_incoming r") auto
    then show ?thesis using 2(2) [OF False] False by auto
  qed
qed simp

lemma unversioned:
  "\<not> versioned_machine_type []" "\<not> versioned_machine_type ''-incoming''" "\<not> versioned_machine_type ''-daemonize''"
  by (simp_all add: versioned_machine_type_def last_index_of_def upt_rec is_digit_def)

lemma strip_incoming_append:
  "''-incoming'' \<notin> set st \<Longrightarrow> strip_incoming (st @ [''-incoming'', ''defer'']) = Inr st"
  by (induction st) auto

text \<open>Fact (functional): the argv of a resume waits for the saved state exactly once, does not
  daemonise, names the pinned machine type, and is a fixed point: a machine resumed from it
  is resumed from the same argv again.\<close>

theorem incoming_argv_spec:
  assumes "incoming_argv saved mt = Inr argv"
    and "versioned_machine_type mt" "plain_opt mt" "\<not> has_prefix mt ''type=''"
  shows "machine_type_of argv = Inr mt \<and> incoming_argv argv mt = Inr argv \<and>
    ''-daemonize'' \<notin> set argv \<and> (\<exists>a. argv = a @ [''-incoming'', ''defer''] \<and> \<not> has_incoming a)"
proof -
  obtain st out where s: "strip_incoming saved = Inr st" "with_machine_type st mt = Inr out"
      "argv = out @ [''-incoming'', ''defer'']" "''-daemonize'' \<notin> set saved"
    using assms(1) by (auto simp: incoming_argv_def split: if_splits sum.splits)
  obtain i where i: "machine_flag_index st = Some i" "out = st[i := join '','' ((split_opts (st ! i))[0 := mt])]"
    using s(2) by (auto simp: with_machine_type_def split: option.splits)
  define v where "v = join '','' ((split_opts (st ! i))[0 := mt])"
  note b = machine_flag_index_bound [OF i(1)]
  have out: "out = st[i := v]" using i(2) by (simp add: v_def)
  have hv: "hd (split_opts v) = mt" "join '','' ((split_opts v)[0 := mt]) = v"
    using machine_value [OF assms(3), of "st ! i"] by (simp_all add: v_def)
  have mt: "mt \<noteq> []" "mt \<noteq> ''-incoming''" "mt \<noteq> ''-daemonize''"
    using assms(2) unversioned by auto
  have vn: "v \<noteq> ''-incoming''" "v \<noteq> ''-daemonize''"
    using hv(1) mt by auto
  have no: "''-incoming'' \<notin> set out" "''-daemonize'' \<notin> set out"
    using strip_incoming_spec [OF s(1)] s(4) vn set_update_subset_insert [of st i v] unfolding out by blast+
  have fo: "machine_flag_index out = Some i" unfolding out by (rule machine_flag_index_update [OF i(1)])
  have fa: "machine_flag_index argv = Some i" unfolding s(3) by (rule machine_flag_index_append [OF fo])
  have ai: "argv ! i = v" using b by (simp add: s(3) out nth_append)
  have oi: "out ! i = v" using b by (simp add: out)
  have t: "machine_type_of argv = Inr mt"
    using fa ai hv(1) assms(4) mt(1) by (simp add: machine_type_of_def trim_prefix_def Let_def)
  have w: "with_machine_type out mt = Inr out"
    using fo oi hv(2) list_update_id [of out i] by (simp add: with_machine_type_def)
  have "incoming_argv argv mt = Inr argv"
    using no strip_incoming_append [OF no(1)] w by (simp add: incoming_argv_def s(3))
  then show ?thesis using t no s(3) by (auto simp: has_incoming_def)
qed

theorem incoming_argv_spec_witness:
  "machine_type_of [''q'', ''-M'', ''virt-11.1,accel=hvf'', ''-incoming'', ''defer''] = Inr ''virt-11.1''"
proof -
  have a: "incoming_argv [''q'', ''-M'', ''virt,accel=hvf''] ''virt-11.1'' = Inr [''q'', ''-M'', ''virt-11.1,accel=hvf'', ''-incoming'', ''defer'']"
    by (simp add: incoming_argv_def with_machine_type_def)
  have "versioned_machine_type ''virt-11.1''"
    by (simp add: versioned_machine_type_def last_index_of_def upt_rec is_digit_def)
  from incoming_argv_spec [OF a this] show ?thesis by (simp add: has_prefix_def)
qed

text \<open>Fact (safety): pinning yields a versioned machine type, and keeps the type of an argv that
  already has one, whatever the running hypervisor's alias table says.\<close>

theorem pin_machine_type_spec:
  "(case pin_machine_type al argv of Inl _ \<Rightarrow> True | Inr t \<Rightarrow> versioned_machine_type t) \<and>
   (case machine_type_of argv of Inl _ \<Rightarrow> True
    | Inr t \<Rightarrow> if versioned_machine_type t then pin_machine_type al argv = Inr t else True)"
  by (auto simp: pin_machine_type_def split: sum.splits)

section \<open>Resolving\<close>

text \<open>\<open>same_device_model\<close>: the two argvs differ at most in the values of \<^verbatim>\<open>-fsdev\<close> and
  \<^verbatim>\<open>-drive\<close>.\<close>

fun same_shape :: "string \<Rightarrow> string list \<Rightarrow> string list \<Rightarrow> bool" where
  "same_shape p [] [] \<longleftrightarrow> True"
| "same_shape p (x # xs) (y # ys) \<longleftrightarrow> (x = y \<or> p = ''-fsdev'' \<or> p = ''-drive'') \<and> same_shape y xs ys"
| "same_shape p _ _ \<longleftrightarrow> False"

lemma resolve_loop_shape:
  "resolve_loop F dir fwDir tags (x # r) = Inr (out, ab) \<Longrightarrow> \<exists>out'. out = x # out' \<and> same_shape x r out'"
proof (induction r arbitrary: x out ab)
  case Nil
  then show ?case by auto
next
  case (Cons y r)
  define act where "act = (if x = ''-fsdev'' then rewrite_fsdev F dir tags y
                 else if x = ''-drive'' then rewrite_drive F fwDir y else Keep)"
  define y' where "y' = (case act of Absent t z \<Rightarrow> z | Move z \<Rightarrow> z | _ \<Rightarrow> y)"
  have same: "y = y' \<or> x = ''-fsdev'' \<or> x = ''-drive''"
    by (auto simp: y'_def act_def)
  obtain o' ab' where o: "resolve_loop F dir fwDir tags (y' # r) = Inr (o', ab')" "out = x # o'"
    using Cons.prems
    by (cases act; cases "resolve_loop F dir fwDir tags (y' # r)")
       (auto simp: act_def [symmetric] y'_def Let_def)
  obtain o2 where "o' = y' # o2" "same_shape y' r o2" using Cons.IH [OF o(1)] by blast
  then show ?case using o(2) same by simp
qed

text \<open>Fact (safety): adapting a saved argv to the host never changes the device model: the result
  has the same elements in the same places, except for values of \<^verbatim>\<open>-fsdev\<close> and
  \<^verbatim>\<open>-drive\<close>.\<close>

theorem resolve_keeps_devices:
  assumes "resolve_saved_argv F argv dir fwDir = Inr (out, ab)"
  shows "same_shape [] argv out"
proof (cases argv)
  case Nil
  then show ?thesis using assms by (simp add: resolve_saved_argv_def)
next
  case (Cons x r)
  from assms obtain out' where "out = x # out'" "same_shape x r out'"
    unfolding resolve_saved_argv_def Cons using resolve_loop_shape by blast
  then show ?thesis using Cons by simp
qed

theorem resolve_keeps_devices_witness:
  "same_shape [] [''q'', ''-fsdev'', ''local,id=a,path=/gone'', ''-name'', ''x'']
     [''q'', ''-fsdev'', ''local,id=a,path=/m/guest/absent/a,readonly=on'', ''-name'', ''x'']"
proof (rule resolve_keeps_devices)
  show "resolve_saved_argv \<lparr>af_exists = \<lambda>_. False, af_mkdir = \<lambda>_. None\<rparr>
      [''q'', ''-fsdev'', ''local,id=a,path=/gone'', ''-name'', ''x''] ''/m'' [] =
    Inr ([''q'', ''-fsdev'', ''local,id=a,path=/m/guest/absent/a,readonly=on'', ''-name'', ''x''], [''a''])"
    by (simp add: resolve_saved_argv_def rewrite_fsdev_def absent_dir_def cut_prefix_def has_prefix_def contains_any_def Let_def)
qed

end
