(* ===== verification/Qemu_World.thy ===== *)
theory Qemu_World
  imports Qemu_Argv "HOL-Library.State_Monad"
begin

text \<open>
  The world the QEMU backend works on, and its primitive operations
  (\<^verbatim>\<open>internal/backend/qemu/journal.go\<close>, \<^verbatim>\<open>qmp.go\<close>, \<^verbatim>\<open>process.go\<close>). The model keeps
  what jm itself writes: the suspend journal as other processes see it (\<open>q_jour\<close>), the
  journals a power cut could leave behind (\<open>q_disk\<close>: a rename or an unlink adds one, a
  successful directory sync leaves only the current one), the saved image's size, and a log of
  the events whose order matters, each \<^verbatim>\<open>cont\<close> with the journals at that moment.
  Everything else (QEMU, the process table, the clock, every other file, and whether a file
  operation fails) is a parameter: an environment \<open>qenv\<close> of functions on an arbitrary
  world \<open>'w\<close>. Programs are values of the library's state monad.
\<close>

section \<open>Journals\<close>

record hardware =
  hw_cpus :: int
  hw_memoryMiB :: int
  hw_mac :: string
  hw_sshPort :: int
  hw_shareTags :: "string list"

record fingerprint =
  fi_size :: int
  fi_mtime :: int

record fingerprints =
  fp_disk :: fingerprint
  fp_efivars :: fingerprint

record stats =
  ss_totalMS :: int
  ss_downtimeMS :: int
  ss_transferred :: int

record journal =
  jn_version :: int
  jn_phase :: string
  jn_reason :: string
  jn_ownerPID :: int
  jn_startedAt :: int
  jn_savedAt :: int
  jn_argv :: "string list"
  jn_machineType :: string
  jn_qemuVersion :: string
  jn_qemuBinary :: string
  jn_hw :: hardware
  jn_imageBytes :: int
  jn_imageAllocated :: int
  jn_fingerprints :: "fingerprints option"
  jn_meta :: "(string, string) gomap"
  jn_stats :: "stats option"

definition journal_version :: int where "journal_version = 1"
definition saving :: string where "saving = ''saving''"
definition saved :: string where "saved = ''saved''"

text \<open>A journal file: absent, not decodable, or decoded (any version and phase).\<close>

datatype jfile = JNone | JBad string | JFile journal

definition hardware_of :: "machine \<Rightarrow> hardware" where
  "hardware_of m =
     \<lparr>hw_cpus = mc_cpus m, hw_memoryMiB = mc_memoryMiB m, hw_mac = mc_mac m, hw_sshPort = mc_sshPort m,
      hw_shareTags = map sh_tag (mc_shares m)\<rparr>"

fun tags_diff :: "string list \<Rightarrow> string list \<Rightarrow> string" where
  "tags_diff (x # xs) (y # ys) = (if x \<noteq> y then ''share '' @ x @ '', saved with '' @ y else tags_diff xs ys)"
| "tags_diff _ _ = []"

definition hardware_diff :: "hardware \<Rightarrow> hardware \<Rightarrow> string" where
  "hardware_diff h want =
     (if hw_cpus h \<noteq> hw_cpus want then ''cpus '' @ itoa (hw_cpus h) @ '', saved with '' @ itoa (hw_cpus want)
      else if hw_memoryMiB h \<noteq> hw_memoryMiB want
      then ''memory '' @ itoa (hw_memoryMiB h) @ '' MiB, saved with '' @ itoa (hw_memoryMiB want) @ '' MiB''
      else if hw_mac h \<noteq> hw_mac want then ''MAC '' @ hw_mac h @ '', saved with '' @ hw_mac want
      else if hw_sshPort h \<noteq> hw_sshPort want
      then ''ssh port '' @ itoa (hw_sshPort h) @ '', saved with '' @ itoa (hw_sshPort want)
      else if length (hw_shareTags h) \<noteq> length (hw_shareTags want)
      then itoa (int (length (hw_shareTags h))) @ '' shares, saved with '' @ itoa (int (length (hw_shareTags want)))
      else tags_diff (hw_shareTags h) (hw_shareTags want))"

section \<open>Errors\<close>

datatype qerr = EPlain string | EUnavailable string | EBlocked string | EAborted | ECrashed string
  | EIncompatible string | ERunning | ESuspended | ENoDir

fun err_text :: "qerr \<Rightarrow> string" where
  "err_text (EPlain t) = t"
| "err_text (EUnavailable t) = ''backend: suspend unavailable: '' @ t"
| "err_text (EBlocked t) = ''backend: suspend blocked: '' @ t"
| "err_text EAborted = ''backend: suspend aborted''"
| "err_text (ECrashed t) = ''backend: hypervisor exited while suspending: '' @ t"
| "err_text (EIncompatible t) = ''backend: saved state cannot be restored: '' @ t"
| "err_text ERunning = ''qemu: machine is already running''"
| "err_text ESuspended = ''backend: machine is suspended; wake or discard it first''"
| "err_text ENoDir = ''qemu: machine record has no directory (load it through the machine store)''"

text \<open>\<^verbatim>\<open>fmt.Errorf("%w...", err)\<close> keeps the sentinel and adds text.\<close>

fun err_note :: "qerr \<Rightarrow> string \<Rightarrow> qerr" where
  "err_note (EPlain t) n = EPlain (t @ n)"
| "err_note (EUnavailable t) n = EUnavailable (t @ n)"
| "err_note (EBlocked t) n = EBlocked (t @ n)"
| "err_note (ECrashed t) n = ECrashed (t @ n)"
| "err_note (EIncompatible t) n = EIncompatible (t @ n)"
| "err_note e n = e"

text \<open>A QMP error is a reply of QEMU (\<^verbatim>\<open>QMPError\<close>) or a broken session.\<close>

datatype merr = Reply string | Session string

fun merr_text :: "merr \<Rightarrow> string" where
  "merr_text (Reply t) = t"
| "merr_text (Session t) = t"

section \<open>The environment\<close>

datatype qcmd = CStop | CCont | CQuit | CPowerdown | CMigrate string | CMigrateIncoming string | CMigrateCancel
  | CSetFileMigration int | CFileCapable

datatype rfile = RPid | RQmp | RImage | RTmp

datatype fsop = FJournalRead | FJournalStat | FJournalWrite | FJournalRemove | FJournalAside | FDirSync
  | FRemove rfile | FTmpCreate | FTmpOpen | FTmpSync | FTmpStat | FImageRename | FImageStat
  | FArgvWrite | FShareTable | FDiskStat | FEfivars string | FConsole | FBinary string | FPidWrite int

datatype pidfile = PidMissing | PidBad string | PidIs int
datatype argvfile = ArgvMissing | ArgvError string | ArgvIs "string list"

record mig_info =
  mi_status :: string
  mi_error :: string
  mi_blocked :: "string list"
  mi_total :: int
  mi_downtime :: int
  mi_transferred :: "int option"

record 'w qenv =
  qe_dial :: "'w \<Rightarrow> merr option \<times> 'w"
  qe_status :: "'w \<Rightarrow> (merr + string) \<times> 'w"
  qe_migration :: "'w \<Rightarrow> (merr + mig_info) \<times> 'w"
  qe_cmd :: "qcmd \<Rightarrow> 'w \<Rightarrow> merr option \<times> 'w"
  qe_version :: "'w \<Rightarrow> (merr + string) \<times> 'w"
  qe_alias :: "string \<Rightarrow> 'w \<Rightarrow> (string + string) \<times> 'w"
  qe_alive :: "int \<Rightarrow> 'w \<Rightarrow> bool \<times> 'w"
  qe_ours :: "int \<Rightarrow> 'w \<Rightarrow> bool \<times> 'w"
  qe_daemonized :: "int \<Rightarrow> 'w \<Rightarrow> bool \<times> 'w"
  qe_term :: "int \<Rightarrow> 'w \<Rightarrow> bool \<times> 'w"
  qe_kill :: "int \<Rightarrow> 'w \<Rightarrow> bool \<times> 'w"
  qe_wait :: "int \<Rightarrow> int \<Rightarrow> 'w \<Rightarrow> bool \<times> 'w"
  qe_pidfile :: "'w \<Rightarrow> pidfile \<times> 'w"
  qe_argvfile :: "'w \<Rightarrow> argvfile \<times> 'w"
  qe_fs :: "fsop \<Rightarrow> 'w \<Rightarrow> string option \<times> 'w"
  qe_tmp_size :: "'w \<Rightarrow> (int \<times> int) \<times> 'w"
  qe_fingerprints :: "'w \<Rightarrow> (string + fingerprints) \<times> 'w"
  qe_late :: "'w \<Rightarrow> bool \<times> 'w"
  qe_cancelled :: "'w \<Rightarrow> string option \<times> 'w"
  qe_now :: "'w \<Rightarrow> int \<times> 'w"
  qe_getpid :: "'w \<Rightarrow> int \<times> 'w"
  qe_launch :: "string list \<Rightarrow> 'w \<Rightarrow> (string + int) \<times> 'w"
  qe_tail :: "'w \<Rightarrow> string \<times> 'w"
  qe_argv_fs :: "'w \<Rightarrow> argv_fs \<times> 'w"
  qe_firmware :: "string \<Rightarrow> 'w \<Rightarrow> (string + string) \<times> 'w"
  qe_lookup :: "'w \<Rightarrow> (string + string) \<times> 'w"

section \<open>The world\<close>

datatype qevent = LCont jfile "jfile list" | LStop | LQuit | LMigrate | LLoad | LKill int | LTerm int
  | LLaunch "string list"
  | LJournal jfile | LSync | LUnlink | LImage "int option"

record 'w qw =
  q_env :: 'w
  q_jour :: jfile
  q_disk :: "jfile list"
  q_image :: "int option"
  q_log :: "qevent list"

type_synonym ('w, 'a) qm = "('w qw, 'a) state"

abbreviation ret :: "'a \<Rightarrow> ('w, 'a) qm" where "ret \<equiv> State_Monad.return"

definition env :: "('w \<Rightarrow> 'a \<times> 'w) \<Rightarrow> ('w, 'a) qm" where
  "env f = State (\<lambda>w. let (x, s) = f (q_env w) in (x, w\<lparr>q_env := s\<rparr>))"

definition reads :: "('w qw \<Rightarrow> 'a) \<Rightarrow> ('w, 'a) qm" where
  "reads f = State (\<lambda>w. (f w, w))"

definition modify :: "('w qw \<Rightarrow> 'w qw) \<Rightarrow> ('w, unit) qm" where
  "modify f = State (\<lambda>w. ((), f w))"

definition log_event :: "qevent \<Rightarrow> ('w, unit) qm" where
  "log_event e = modify (\<lambda>w. w\<lparr>q_log := q_log w @ [e]\<rparr>)"

section \<open>QMP\<close>

definition m_cont :: "'w qenv \<Rightarrow> ('w, merr option) qm" where
  "m_cont E = do {
     j \<leftarrow> reads q_jour;
     d \<leftarrow> reads q_disk;
     log_event (LCont j d);
     env (qe_cmd E CCont) }"

definition m_cmd :: "'w qenv \<Rightarrow> qcmd \<Rightarrow> ('w, merr option) qm" where
  "m_cmd E c = do {
     log_event (case c of CStop \<Rightarrow> LStop | CQuit \<Rightarrow> LQuit | CPowerdown \<Rightarrow> LQuit | CMigrateIncoming _ \<Rightarrow> LLoad | _ \<Rightarrow> LMigrate);
     env (qe_cmd E c) }"

section \<open>Files\<close>

datatype jread = ReadMissing | ReadBad string | ReadIo string | ReadJournal journal

definition valid_phase :: "journal \<Rightarrow> bool" where
  "valid_phase j \<longleftrightarrow> jn_version j = journal_version \<and> (jn_phase j = saving \<or> jn_phase j = saved)"

definition read_journal :: "'w qenv \<Rightarrow> ('w, jread) qm" where
  "read_journal E = do {
     e \<leftarrow> env (qe_fs E FJournalRead);
     f \<leftarrow> reads q_jour;
     ret (case f of
            JNone \<Rightarrow> (case e of Some t \<Rightarrow> ReadIo t | None \<Rightarrow> ReadMissing)
          | JBad t \<Rightarrow> (case e of Some t \<Rightarrow> ReadIo t | None \<Rightarrow> ReadBad t)
          | JFile j \<Rightarrow>
              (case e of Some t \<Rightarrow> ReadIo t
               | None \<Rightarrow>
                  (if jn_version j \<noteq> journal_version
                   then ReadBad (''qemu: unreadable suspend journal: version '' @ itoa (jn_version j))
                   else if jn_phase j \<noteq> saving \<and> jn_phase j \<noteq> saved
                   then ReadBad (''qemu: unreadable suspend journal: phase '' @ quote (jn_phase j))
                   else ReadJournal j))) }"

definition sync_dir :: "'w qenv \<Rightarrow> ('w, string option) qm" where
  "sync_dir E = do {
     e \<leftarrow> env (qe_fs E FDirSync);
     case e of
       Some t \<Rightarrow> ret (Some (''qemu: syncing: '' @ t))
     | None \<Rightarrow> do { modify (\<lambda>w. w\<lparr>q_disk := [q_jour w], q_log := q_log w @ [LSync]\<rparr>); ret None } }"

definition write_journal :: "'w qenv \<Rightarrow> journal \<Rightarrow> ('w, string option) qm" where
  "write_journal E j0 = do {
     let j = j0\<lparr>jn_version := journal_version\<rparr>;
     e \<leftarrow> env (qe_fs E FJournalWrite);
     case e of
       Some t \<Rightarrow> ret (Some (''qemu: writing: '' @ t))
     | None \<Rightarrow> do {
         modify (\<lambda>w. w\<lparr>q_jour := JFile j, q_disk := JFile j # q_disk w, q_log := q_log w @ [LJournal (JFile j)]\<rparr>);
         sync_dir E } }"

text \<open>\<^verbatim>\<open>os.Remove\<close> of the journal alone; a missing file is not an error.\<close>

definition unlink_journal :: "'w qenv \<Rightarrow> ('w, string option) qm" where
  "unlink_journal E = do {
     e \<leftarrow> env (qe_fs E FJournalRemove);
     f \<leftarrow> reads q_jour;
     case (f, e) of
       (JNone, _) \<Rightarrow> ret None
     | (_, Some t) \<Rightarrow> ret (Some t)
     | (_, None) \<Rightarrow> do {
         modify (\<lambda>w. w\<lparr>q_jour := JNone, q_disk := JNone # q_disk w, q_log := q_log w @ [LUnlink]\<rparr>);
         ret None } }"

definition remove_journal :: "'w qenv \<Rightarrow> ('w, string option) qm" where
  "remove_journal E = do {
     e \<leftarrow> unlink_journal E;
     case e of Some t \<Rightarrow> ret (Some (''qemu: removing: '' @ t)) | None \<Rightarrow> sync_dir E }"

text \<open>Renaming a bad journal aside.\<close>

definition aside_journal :: "'w qenv \<Rightarrow> ('w, string option) qm" where
  "aside_journal E = do {
     e \<leftarrow> env (qe_fs E FJournalAside);
     f \<leftarrow> reads q_jour;
     case (f, e) of
       (JNone, _) \<Rightarrow> ret None
     | (_, Some t) \<Rightarrow> ret (Some (''qemu: setting aside a bad suspend journal: '' @ t))
     | (_, None) \<Rightarrow> do {
         modify (\<lambda>w. w\<lparr>q_jour := JNone, q_disk := JNone # q_disk w, q_log := q_log w @ [LUnlink]\<rparr>);
         ret None } }"

definition join_errs :: "string option list \<Rightarrow> string option" where
  "join_errs es = (case concat (map (\<lambda>e. case e of None \<Rightarrow> [] | Some t \<Rightarrow> [t]) es) of [] \<Rightarrow> None | ts \<Rightarrow> Some (join [CHR 0x0A] ts))"

definition remove_file :: "'w qenv \<Rightarrow> rfile \<Rightarrow> ('w, string option) qm" where
  "remove_file E f = do {
     e \<leftarrow> env (qe_fs E (FRemove f));
     case e of
       Some t \<Rightarrow> ret (Some t)
     | None \<Rightarrow> (if f = RImage
               then do { modify (\<lambda>w. w\<lparr>q_image := None, q_log := q_log w @ [LImage None]\<rparr>); ret None }
               else ret None) }"

fun remove_each :: "'w qenv \<Rightarrow> rfile list \<Rightarrow> ('w, string option list) qm" where
  "remove_each E [] = ret []"
| "remove_each E (f # fs) = do { e \<leftarrow> remove_file E f; es \<leftarrow> remove_each E fs; ret (e # es) }"

definition remove_all :: "'w qenv \<Rightarrow> rfile list \<Rightarrow> ('w, string option) qm" where
  "remove_all E fs = do { es \<leftarrow> remove_each E fs; ret (join_errs es) }"

definition remove_images :: "'w qenv \<Rightarrow> ('w, string option) qm" where
  "remove_images E = remove_all E [RImage, RTmp]"

definition discard_journal_then_image :: "'w qenv \<Rightarrow> ('w, string option) qm" where
  "discard_journal_then_image E = do {
     e \<leftarrow> remove_journal E;
     case e of Some t \<Rightarrow> ret (Some t) | None \<Rightarrow> remove_images E }"

text \<open>\<^verbatim>\<open>checkImage\<close>: invalid, valid, or an error that tells nothing.\<close>

definition check_image :: "'w qenv \<Rightarrow> journal \<Rightarrow> ('w, string + bool) qm" where
  "check_image E j =
     (if jn_phase j \<noteq> saved \<or> jn_imageBytes j \<le> 0 then ret (Inr False)
      else do {
        e \<leftarrow> env (qe_fs E FImageStat);
        i \<leftarrow> reads q_image;
        ret (case (e, i) of
               (Some t, _) \<Rightarrow> Inl (''qemu: examining the saved image: '' @ t)
             | (None, None) \<Rightarrow> Inr False
             | (None, Some n) \<Rightarrow> Inr (n = jn_imageBytes j)) })"

definition valid_image :: "'w qenv \<Rightarrow> journal \<Rightarrow> ('w, bool) qm" where
  "valid_image E j = do { r \<leftarrow> check_image E j; ret (case r of Inl _ \<Rightarrow> False | Inr b \<Rightarrow> b) }"

section \<open>Processes\<close>

definition term_timeout :: int where "term_timeout = 5000"

definition kill_and_wait :: "'w qenv \<Rightarrow> int \<Rightarrow> ('w, bool) qm" where
  "kill_and_wait E pid = do {
     log_event (LKill pid);
     _ \<leftarrow> env (qe_kill E pid);
     env (qe_wait E pid term_timeout) }"

definition end_process :: "'w qenv \<Rightarrow> int \<Rightarrow> int \<Rightarrow> ('w, bool) qm" where
  "end_process E pid grace = do {
     g \<leftarrow> env (qe_wait E pid grace);
     if g then ret True
     else do {
       log_event (LTerm pid);
       _ \<leftarrow> env (qe_term E pid);
       t \<leftarrow> env (qe_wait E pid term_timeout);
       if t then ret True else kill_and_wait E pid } }"

definition end_process_kill :: "'w qenv \<Rightarrow> int \<Rightarrow> int \<Rightarrow> ('w, bool) qm" where
  "end_process_kill E pid grace =
     (if grace > 0 then do { g \<leftarrow> env (qe_wait E pid grace); if g then ret True else kill_and_wait E pid }
      else kill_and_wait E pid)"

end
