(* ===== verification/Qemu_Rules.thy ===== *)
theory Qemu_Rules
  imports Qemu_World
begin

text \<open>
  How the QEMU programs are reasoned about. \<open>hoare P m Q\<close> is total: every program of the
  model returns. \<open>keeps R m\<close> says that \<open>m\<close> moves the world along the relation \<open>R\<close>; the
  locale \<open>state_order\<close> states what such a relation has to satisfy (it is a preorder), \<open>world_order\<close>
  adds that a move of the environment stays in it, and gives its client the composition rules once. Its
  interpretations are the three relations the proofs use: \<open>quiet\<close> (nothing jm owns changed
  and no guest was continued), \<open>steady\<close> (the journal did not change and every \<^verbatim>\<open>cont\<close> saw
  it), and \<open>silent\<close> (no guest was continued).
\<close>

section \<open>Triples\<close>

definition hoare :: "('s \<Rightarrow> bool) \<Rightarrow> ('s, 'a) state \<Rightarrow> ('a \<Rightarrow> 's \<Rightarrow> bool) \<Rightarrow> bool" where
  "hoare P m Q \<longleftrightarrow> (\<forall>s. P s \<longrightarrow> (case run_state m s of (x, t) \<Rightarrow> Q x t))"

definition keeps :: "('s \<Rightarrow> 's \<Rightarrow> bool) \<Rightarrow> ('s, 'a) state \<Rightarrow> bool" where
  "keeps R m \<longleftrightarrow> (\<forall>s. R s (snd (run_state m s)))"

lemma hoareD: "hoare P m Q \<Longrightarrow> P s \<Longrightarrow> run_state m s = (x, t) \<Longrightarrow> Q x t"
  by (auto simp: hoare_def)

lemma hoareI: "(\<And>s x t. P s \<Longrightarrow> run_state m s = (x, t) \<Longrightarrow> Q x t) \<Longrightarrow> hoare P m Q"
  by (auto simp: hoare_def)

lemma hoare_ret: "(\<And>s. P s \<Longrightarrow> Q x s) \<Longrightarrow> hoare P (State_Monad.return x) Q"
  by (simp add: hoare_def State_Monad.return_def)

lemma hoare_bind: "hoare P m R \<Longrightarrow> (\<And>x. hoare (R x) (f x) Q) \<Longrightarrow> hoare P (State_Monad.bind m f) Q"
  by (fastforce simp: hoare_def State_Monad.bind_def split: prod.splits)

lemma hoare_then_ret:
  "(\<And>s x t. P s \<Longrightarrow> run_state m s = (x, t) \<Longrightarrow> Q (f x) t) \<Longrightarrow>
   hoare P (State_Monad.bind m (\<lambda>x. State_Monad.return (f x))) Q"
  by (simp add: hoare_def State_Monad.bind_def State_Monad.return_def split: prod.splits)

lemma hoare_weaken: "hoare P' m Q' \<Longrightarrow> (\<And>s. P s \<Longrightarrow> P' s) \<Longrightarrow> (\<And>x s. Q' x s \<Longrightarrow> Q x s) \<Longrightarrow> hoare P m Q"
  by (fastforce simp: hoare_def)

lemma hoare_pre: "hoare P' m Q \<Longrightarrow> (\<And>s. P s \<Longrightarrow> P' s) \<Longrightarrow> hoare P m Q"
  by (rule hoare_weaken)

lemma hoare_pure: "(A \<Longrightarrow> hoare P m Q) \<Longrightarrow> hoare (\<lambda>s. P s \<and> A) m Q"
  by (simp add: hoare_def)

lemma hoare_if: "(b \<Longrightarrow> hoare P m Q) \<Longrightarrow> (\<not> b \<Longrightarrow> hoare P n Q) \<Longrightarrow> hoare P (if b then m else n) Q"
  by simp

lemma hoare_option:
  "(x = None \<Longrightarrow> hoare P m Q) \<Longrightarrow> (\<And>y. x = Some y \<Longrightarrow> hoare P (f y) Q) \<Longrightarrow>
   hoare P (case x of None \<Rightarrow> m | Some y \<Rightarrow> f y) Q"
  by (cases x) auto

lemma hoare_sum:
  "(\<And>e. x = Inl e \<Longrightarrow> hoare P (m e) Q) \<Longrightarrow> (\<And>y. x = Inr y \<Longrightarrow> hoare P (f y) Q) \<Longrightarrow>
   hoare P (case x of Inl e \<Rightarrow> m e | Inr y \<Rightarrow> f y) Q"
  by (cases x) auto

lemma hoare_prod: "(\<And>a b. x = (a, b) \<Longrightarrow> hoare P (f a b) Q) \<Longrightarrow> hoare P (case x of (a, b) \<Rightarrow> f a b) Q"
  by (cases x) auto

lemma hoare_pidfile:
  "(x = PidMissing \<Longrightarrow> hoare P a Q) \<Longrightarrow> (\<And>t. x = PidBad t \<Longrightarrow> hoare P (b t) Q) \<Longrightarrow>
   (\<And>p. x = PidIs p \<Longrightarrow> hoare P (c p) Q) \<Longrightarrow>
   hoare P (case x of PidMissing \<Rightarrow> a | PidBad t \<Rightarrow> b t | PidIs p \<Rightarrow> c p) Q"
  by (cases x) auto

lemma hoare_argvfile:
  "(x = ArgvMissing \<Longrightarrow> hoare P a Q) \<Longrightarrow> (\<And>t. x = ArgvError t \<Longrightarrow> hoare P (b t) Q) \<Longrightarrow>
   (\<And>p. x = ArgvIs p \<Longrightarrow> hoare P (c p) Q) \<Longrightarrow>
   hoare P (case x of ArgvMissing \<Rightarrow> a | ArgvError t \<Rightarrow> b t | ArgvIs p \<Rightarrow> c p) Q"
  by (cases x) auto

lemma hoare_jread:
  "(x = ReadMissing \<Longrightarrow> hoare P a Q) \<Longrightarrow> (\<And>t. x = ReadBad t \<Longrightarrow> hoare P (b t) Q) \<Longrightarrow>
   (\<And>t. x = ReadIo t \<Longrightarrow> hoare P (c t) Q) \<Longrightarrow> (\<And>j. x = ReadJournal j \<Longrightarrow> hoare P (d j) Q) \<Longrightarrow>
   hoare P (case x of ReadMissing \<Rightarrow> a | ReadBad t \<Rightarrow> b t | ReadIo t \<Rightarrow> c t | ReadJournal j \<Rightarrow> d j) Q"
  by (cases x) auto

lemmas hoare_rules = hoare_ret hoare_bind hoare_if hoare_option hoare_sum hoare_prod hoare_pidfile hoare_argvfile hoare_jread

lemma hoare_env: "(\<And>w x s. P w \<Longrightarrow> Q x (w\<lparr>q_env := s\<rparr>)) \<Longrightarrow> hoare P (env f) Q"
  by (auto simp: hoare_def env_def split: prod.splits)

lemma hoare_reads: "(\<And>w. P w \<Longrightarrow> Q (f w) w) \<Longrightarrow> hoare P (reads f) Q"
  by (simp add: hoare_def reads_def)

lemma hoare_modify: "(\<And>w. P w \<Longrightarrow> Q () (f w)) \<Longrightarrow> hoare P (modify f) Q"
  by (simp add: hoare_def modify_def)

lemma hoare_keeps: "keeps R m \<Longrightarrow> (\<And>s x t. P s \<Longrightarrow> R s t \<Longrightarrow> Q x t) \<Longrightarrow> hoare P m Q"
  by (fastforce simp: hoare_def keeps_def split: prod.splits)

lemma keeps_hoare: "(\<And>w. hoare (\<lambda>s. s = w) m (\<lambda>_. R w)) \<Longrightarrow> keeps R m"
  by (auto simp: hoare_def keeps_def case_prod_unfold)

lemma keepsD: "keeps R m \<Longrightarrow> run_state m s = (x, t) \<Longrightarrow> R s t"
  by (metis keeps_def snd_conv)

lemma keeps_mono: "keeps R m \<Longrightarrow> (\<And>s t. R s t \<Longrightarrow> S s t) \<Longrightarrow> keeps S m"
  by (auto simp: keeps_def)

section \<open>Relations between worlds\<close>

locale state_order =
  fixes R :: "'s \<Rightarrow> 's \<Rightarrow> bool"
  assumes refl: "R w w"
    and trans: "R u v \<Longrightarrow> R v w \<Longrightarrow> R u w"
begin

lemma ret: "keeps R (State_Monad.return x)"
  by (simp add: keeps_def State_Monad.return_def refl)

lemma bind: "keeps R m \<Longrightarrow> (\<And>x. keeps R (f x)) \<Longrightarrow> keeps R (State_Monad.bind m f)"
  unfolding keeps_def State_Monad.bind_def by (fastforce intro: trans split: prod.splits)

lemma choice: "keeps R m \<Longrightarrow> keeps R n \<Longrightarrow> keeps R (if b then m else n)"
  by simp

lemma option: "keeps R m \<Longrightarrow> (\<And>y. keeps R (f y)) \<Longrightarrow> keeps R (case x of None \<Rightarrow> m | Some y \<Rightarrow> f y)"
  by (cases x) auto

lemma sum: "(\<And>e. keeps R (m e)) \<Longrightarrow> (\<And>y. keeps R (f y)) \<Longrightarrow> keeps R (case x of Inl e \<Rightarrow> m e | Inr y \<Rightarrow> f y)"
  by (cases x) auto

lemma pair: "(\<And>a b. keeps R (f a b)) \<Longrightarrow> keeps R (case x of (a, b) \<Rightarrow> f a b)"
  by (cases x) auto

lemmas basic = ret bind choice option sum pair

lemma step: "keeps R m \<Longrightarrow> hoare (R w) m (\<lambda>_. R w)"
  by (rule hoareI) (metis keepsD trans)

end

locale world_order = state_order R for R :: "'w qw \<Rightarrow> 'w qw \<Rightarrow> bool" +
  assumes move: "R w (w\<lparr>q_env := s\<rparr>)"
begin

lemma env: "keeps R (env f)"
  by (simp add: keeps_def env_def move split: prod.splits)

lemma reads: "keeps R (reads f)"
  by (simp add: keeps_def reads_def refl)

lemma pidfile:
  "keeps R a \<Longrightarrow> (\<And>t. keeps R (b t)) \<Longrightarrow> (\<And>p. keeps R (c p)) \<Longrightarrow>
   keeps R (case x of PidMissing \<Rightarrow> a | PidBad t \<Rightarrow> b t | PidIs p \<Rightarrow> c p)"
  by (cases x) auto

lemma argvfile:
  "keeps R a \<Longrightarrow> (\<And>t. keeps R (b t)) \<Longrightarrow> (\<And>p. keeps R (c p)) \<Longrightarrow>
   keeps R (case x of ArgvMissing \<Rightarrow> a | ArgvError t \<Rightarrow> b t | ArgvIs p \<Rightarrow> c p)"
  by (cases x) auto

lemma jread:
  "keeps R a \<Longrightarrow> (\<And>t. keeps R (b t)) \<Longrightarrow> (\<And>t. keeps R (c t)) \<Longrightarrow> (\<And>j. keeps R (d j)) \<Longrightarrow>
   keeps R (case x of ReadMissing \<Rightarrow> a | ReadBad t \<Rightarrow> b t | ReadIo t \<Rightarrow> c t | ReadJournal j \<Rightarrow> d j)"
  by (cases x) auto

lemma merr: "(\<And>t. keeps R (m t)) \<Longrightarrow> (\<And>t. keeps R (f t)) \<Longrightarrow> keeps R (case x of Reply t \<Rightarrow> m t | Session t \<Rightarrow> f t)"
  by (cases x) auto

lemmas rules = ret bind env reads choice option sum pair pidfile argvfile jread merr

end

definition is_saved :: "jfile \<Rightarrow> bool" where
  "is_saved f = (case f of JFile j \<Rightarrow> jn_phase j = saved | _ \<Rightarrow> False)"

fun is_cont :: "qevent \<Rightarrow> bool" where
  "is_cont (LCont _ _) = True"
| "is_cont _ = False"

fun file_event :: "qevent \<Rightarrow> bool" where
  "file_event (LJournal _) = True"
| "file_event LSync = True"
| "file_event LUnlink = True"
| "file_event (LImage _) = True"
| "file_event _ = False"

definition steady_event :: "jfile \<Rightarrow> jfile list \<Rightarrow> qevent \<Rightarrow> bool" where
  "steady_event f disk e =
     (case e of LCont j d \<Rightarrow> j = f \<and> d = disk | LJournal _ \<Rightarrow> False | LSync \<Rightarrow> False | LUnlink \<Rightarrow> False | _ \<Rightarrow> True)"

text \<open>What a run appended to the log.\<close>

definition grown :: "'w qw \<Rightarrow> 'w qw \<Rightarrow> qevent list \<Rightarrow> bool" where
  "grown w w' es \<longleftrightarrow> q_log w' = q_log w @ es"

definition quiet :: "'w qw \<Rightarrow> 'w qw \<Rightarrow> bool" where
  "quiet w w' \<longleftrightarrow>
     q_jour w' = q_jour w \<and> q_disk w' = q_disk w \<and> q_image w' = q_image w \<and>
     (\<exists>es. grown w w' es \<and> (\<forall>e \<in> set es. \<not> is_cont e \<and> \<not> file_event e))"

definition steady :: "'w qw \<Rightarrow> 'w qw \<Rightarrow> bool" where
  "steady w w' \<longleftrightarrow>
     q_jour w' = q_jour w \<and> q_disk w' = q_disk w \<and>
     (\<exists>es. grown w w' es \<and> (\<forall>e \<in> set es. steady_event (q_jour w) (q_disk w) e))"

definition silent :: "'w qw \<Rightarrow> 'w qw \<Rightarrow> bool" where
  "silent w w' \<longleftrightarrow> (\<exists>es. grown w w' es \<and> (\<forall>e \<in> set es. \<not> is_cont e))"

lemma grown_refl [simp]: "grown w w es \<longleftrightarrow> es = []"
  by (auto simp: grown_def)

lemma grown_env [simp]: "grown w (w'\<lparr>q_env := s\<rparr>) es \<longleftrightarrow> grown w w' es"
  by (simp add: grown_def)

lemma grown_trans: "grown u v es \<Longrightarrow> grown v w fs \<Longrightarrow> grown u w (es @ fs)"
  by (simp add: grown_def)

lemma is_cont_iff: "is_cont e \<longleftrightarrow> (\<exists>j d. e = LCont j d)"
  by (cases e) auto

interpretation qt: world_order quiet
proof
  fix u v w :: "'w qw"
  assume "quiet u v" "quiet v w"
  then obtain es fs where "grown u v es" "grown v w fs" "\<forall>e \<in> set (es @ fs). \<not> is_cont e \<and> \<not> file_event e"
    by (auto simp: quiet_def)
  with \<open>quiet u v\<close> \<open>quiet v w\<close> show "quiet u w"
    unfolding quiet_def using grown_trans by fastforce
qed (auto simp: quiet_def)

interpretation sy: world_order steady
proof
  fix u v w :: "'w qw"
  assume "steady u v" "steady v w"
  then obtain es fs where "grown u v es" "grown v w fs" "\<forall>e \<in> set (es @ fs). steady_event (q_jour u) (q_disk u) e"
    by (auto simp: steady_def)
  with \<open>steady u v\<close> \<open>steady v w\<close> show "steady u w"
    unfolding steady_def using grown_trans by fastforce
qed (auto simp: steady_def)

interpretation si: world_order silent
proof
  fix u v w :: "'w qw"
  assume "silent u v" "silent v w"
  then obtain es fs where "grown u v es" "grown v w fs" "\<forall>e \<in> set (es @ fs). \<not> is_cont e"
    by (auto simp: silent_def)
  then show "silent u w" unfolding silent_def using grown_trans by blast
qed (auto simp: silent_def)

lemma quiet_event: "\<not> is_cont e \<Longrightarrow> \<not> file_event e \<Longrightarrow> steady_event f d e"
  by (cases e) (auto simp: steady_event_def)

lemma quiet_steady: "quiet w w' \<Longrightarrow> steady w w'"
  by (auto simp: quiet_def steady_def intro: quiet_event)

lemma quiet_silent: "quiet w w' \<Longrightarrow> silent w w'"
  by (auto simp: quiet_def silent_def)

lemma keeps_quiet_steady: "keeps quiet m \<Longrightarrow> keeps steady m"
  by (erule keeps_mono, rule quiet_steady)

lemma keeps_quiet_silent: "keeps quiet m \<Longrightarrow> keeps silent m"
  by (erule keeps_mono, rule quiet_silent)

section \<open>Primitives\<close>

lemma quiet_log: "\<not> is_cont e \<Longrightarrow> \<not> file_event e \<Longrightarrow> keeps quiet (log_event e)"
  by (simp add: keeps_def log_event_def modify_def quiet_def grown_def)

lemma quiet_cmd: "keeps quiet (m_cmd E c)"
  unfolding m_cmd_def by (rule qt.bind [OF quiet_log qt.env]) (auto split: qcmd.splits)

lemma quiet_read_journal: "keeps quiet (read_journal E)"
  unfolding read_journal_def by (intro qt.rules)

lemma quiet_check_image: "keeps quiet (check_image E j)"
  unfolding check_image_def by (intro qt.rules)

lemma quiet_valid_image: "keeps quiet (valid_image E j)"
  unfolding valid_image_def by (intro qt.rules quiet_check_image)

lemma quiet_kill_and_wait: "keeps quiet (kill_and_wait E pid)"
  unfolding kill_and_wait_def by (intro qt.rules quiet_log) auto

lemma quiet_end_process: "keeps quiet (end_process E pid g)"
  unfolding end_process_def by (intro qt.rules quiet_kill_and_wait quiet_log) auto

lemma quiet_end_process_kill: "keeps quiet (end_process_kill E pid g)"
  unfolding end_process_kill_def by (intro qt.rules quiet_kill_and_wait)

lemma steady_cont: "keeps steady (m_cont E)"
  by (rule keeps_hoare)
    (auto simp: m_cont_def hoare_def State_Monad.bind_def reads_def env_def log_event_def modify_def
       steady_def steady_event_def grown_def split: prod.splits)

lemma steady_remove_file: "keeps steady (remove_file E f)"
  by (rule keeps_hoare)
    (auto simp: remove_file_def hoare_def State_Monad.bind_def env_def modify_def State_Monad.return_def
       steady_def steady_event_def grown_def split: prod.splits option.splits if_splits)

lemma silent_remove_file: "keeps silent (remove_file E f)"
  by (rule keeps_hoare)
    (auto simp: remove_file_def hoare_def State_Monad.bind_def env_def modify_def State_Monad.return_def
       silent_def grown_def split: prod.splits option.splits if_splits)

lemma quiet_remove_file: "f \<noteq> RImage \<Longrightarrow> keeps quiet (remove_file E f)"
  unfolding remove_file_def by (simp cong: option.case_cong) (intro qt.rules)

lemma steady_remove_each: "keeps steady (remove_each E fs)"
  by (induction fs) (auto intro!: sy.rules steady_remove_file)

lemma silent_remove_each: "keeps silent (remove_each E fs)"
  by (induction fs) (auto intro!: si.rules silent_remove_file)

lemma quiet_remove_each: "RImage \<notin> set fs \<Longrightarrow> keeps quiet (remove_each E fs)"
  by (induction fs) (auto intro!: qt.rules quiet_remove_file)

lemma steady_remove_all: "keeps steady (remove_all E fs)"
  unfolding remove_all_def by (intro sy.rules steady_remove_each)

lemma silent_remove_all: "keeps silent (remove_all E fs)"
  unfolding remove_all_def by (intro si.rules silent_remove_each)

lemma quiet_remove_all: "RImage \<notin> set fs \<Longrightarrow> keeps quiet (remove_all E fs)"
  unfolding remove_all_def by (intro qt.rules quiet_remove_each)

lemma steady_remove_images: "keeps steady (remove_images E)"
  unfolding remove_images_def by (rule steady_remove_all)

lemma silent_sync_dir: "keeps silent (sync_dir E)"
  by (rule keeps_hoare)
    (auto simp: sync_dir_def hoare_def State_Monad.bind_def env_def modify_def State_Monad.return_def
       silent_def grown_def split: prod.splits option.splits if_splits)

lemma silent_write_journal: "keeps silent (write_journal E j)"
  unfolding write_journal_def Let_def
  by (intro si.rules silent_sync_dir) (simp add: keeps_def modify_def silent_def grown_def)

lemma silent_unlink: "keeps silent (unlink_journal E)"
  by (rule keeps_hoare)
    (auto simp: unlink_journal_def hoare_def State_Monad.bind_def env_def reads_def modify_def State_Monad.return_def
       silent_def grown_def split: prod.splits option.splits if_splits jfile.splits)

lemma silent_remove_journal: "keeps silent (remove_journal E)"
  unfolding remove_journal_def by (intro si.rules silent_unlink silent_sync_dir)

lemma silent_aside: "keeps silent (aside_journal E)"
  by (rule keeps_hoare)
    (auto simp: aside_journal_def hoare_def State_Monad.bind_def env_def reads_def modify_def State_Monad.return_def
       silent_def grown_def split: prod.splits option.splits if_splits jfile.splits)

lemma silent_remove_images: "keeps silent (remove_images E)"
  unfolding remove_images_def by (rule silent_remove_all)

lemma silent_discard: "keeps silent (discard_journal_then_image E)"
  unfolding discard_journal_then_image_def by (intro si.rules silent_remove_journal silent_remove_images)

lemmas quiet_ops = quiet_log quiet_cmd quiet_read_journal quiet_check_image quiet_valid_image quiet_kill_and_wait
  quiet_end_process quiet_end_process_kill quiet_remove_all
lemmas quiet_rules = qt.rules quiet_ops
lemmas steady_rules = sy.rules steady_cont steady_remove_all steady_remove_images quiet_ops [THEN keeps_quiet_steady]
lemmas silent_rules = si.rules silent_remove_all silent_remove_images silent_sync_dir silent_write_journal silent_unlink
  silent_remove_journal silent_aside silent_discard quiet_ops [THEN keeps_quiet_silent]

text \<open>What the journal operations do.\<close>

lemma sync_dir_spec:
  "hoare (\<lambda>s. s = w) (sync_dir E)
     (\<lambda>e s. q_jour s = q_jour w \<and> q_image s = q_image w \<and> q_disk s = (if e = None then [q_jour w] else q_disk w))"
  by (auto simp: sync_dir_def hoare_def State_Monad.bind_def env_def modify_def State_Monad.return_def
       split: prod.splits option.splits)

lemma unlink_spec:
  "hoare (\<lambda>s. s = w) (unlink_journal E)
     (\<lambda>e s. q_image s = q_image w \<and> (if e = None then q_jour s = JNone else q_jour s = q_jour w \<and> q_disk s = q_disk w))"
  by (auto simp: unlink_journal_def hoare_def State_Monad.bind_def env_def reads_def modify_def State_Monad.return_def
       split: prod.splits option.splits jfile.splits)

lemma read_journal_spec:
  "hoare (\<lambda>s. s = w) (read_journal E)
     (\<lambda>r s. quiet w s \<and> (case r of ReadMissing \<Rightarrow> q_jour s = JNone | ReadJournal j \<Rightarrow> q_jour s = JFile j \<and> valid_phase j
        | ReadBad _ \<Rightarrow> (case q_jour s of JFile j \<Rightarrow> \<not> valid_phase j | JBad _ \<Rightarrow> True | JNone \<Rightarrow> False) | ReadIo _ \<Rightarrow> True))"
  by (auto simp: read_journal_def hoare_def State_Monad.bind_def env_def reads_def State_Monad.return_def valid_phase_def
       quiet_def split: prod.splits option.splits jfile.splits)

lemma remove_journal_spec:
  "hoare (\<lambda>s. s = w) (remove_journal E)
     (\<lambda>e s. q_image s = q_image w \<and> (e = None \<longrightarrow> q_jour s = JNone \<and> q_disk s = [JNone]) \<and> (q_jour s = q_jour w \<or> q_jour s = JNone))"
  by (auto simp: remove_journal_def unlink_journal_def sync_dir_def hoare_def State_Monad.bind_def env_def reads_def modify_def State_Monad.return_def
       split: prod.splits option.splits jfile.splits)

lemma write_journal_spec:
  "hoare (\<lambda>s. s = w) (write_journal E j)
     (\<lambda>e s. q_image s = q_image w \<and>
        (let f = JFile (j\<lparr>jn_version := journal_version\<rparr>) in
         (q_jour s = f \<and> set (q_disk s) \<subseteq> insert f (set (q_disk w)) \<and> (e = None \<longrightarrow> q_disk s = [f])) \<or>
         (e \<noteq> None \<and> q_jour s = q_jour w \<and> q_disk s = q_disk w)))"
  by (auto simp: write_journal_def Let_def sync_dir_def hoare_def State_Monad.bind_def env_def reads_def modify_def State_Monad.return_def
       split: prod.splits option.splits jfile.splits)

lemma discard_spec:
  "hoare (\<lambda>s. s = w) (discard_journal_then_image E)
     (\<lambda>e s. (e = None \<or> q_image s \<noteq> q_image w \<longrightarrow> q_jour s = JNone \<and> q_disk s = [JNone]) \<and> (q_jour s = q_jour w \<or> q_jour s = JNone))"
  unfolding discard_journal_then_image_def
  apply (rule hoare_bind [OF remove_journal_spec])
  apply (rule hoare_option)
   apply (rule hoare_keeps [OF steady_remove_images])
   apply (auto simp: steady_def)[1]
  apply (rule hoare_ret)
  apply auto
  done

section \<open>Two more relations\<close>

text \<open>\<open>calm\<close> is \<open>steady\<close> with directory syncs; \<open>gentle\<close> is a run that ends no process.\<close>

definition calm_event :: "jfile \<Rightarrow> jfile set \<Rightarrow> qevent \<Rightarrow> bool" where
  "calm_event f D e = (case e of LCont j d \<Rightarrow> j = f \<and> set d \<subseteq> insert f D | LJournal _ \<Rightarrow> False | LUnlink \<Rightarrow> False | _ \<Rightarrow> True)"

definition calm :: "'w qw \<Rightarrow> 'w qw \<Rightarrow> bool" where
  "calm w w' \<longleftrightarrow>
     q_jour w' = q_jour w \<and> set (q_disk w') \<subseteq> insert (q_jour w) (set (q_disk w)) \<and>
     (\<exists>es. grown w w' es \<and> (\<forall>e \<in> set es. calm_event (q_jour w) (set (q_disk w)) e))"

fun ends_process :: "qevent \<Rightarrow> bool" where
  "ends_process LQuit = True"
| "ends_process (LKill _) = True"
| "ends_process (LTerm _) = True"
| "ends_process _ = False"

definition gentle :: "'w qw \<Rightarrow> 'w qw \<Rightarrow> bool" where
  "gentle w w' \<longleftrightarrow> (\<exists>es. grown w w' es \<and> (\<forall>e \<in> set es. \<not> ends_process e))"

lemma calm_event_mono: "calm_event f D e \<Longrightarrow> D \<subseteq> insert f D' \<Longrightarrow> calm_event f D' e"
  by (cases e) (auto simp: calm_event_def)

interpretation ca: world_order calm
proof
  fix u v w :: "'w qw"
  assume uv: "calm u v" and vw: "calm v w"
  then obtain es fs where es: "grown u v es" "\<forall>e \<in> set es. calm_event (q_jour u) (set (q_disk u)) e"
      and fs: "grown v w fs" "\<forall>e \<in> set fs. calm_event (q_jour v) (set (q_disk v)) e"
    by (auto simp: calm_def)
  have "\<forall>e \<in> set (es @ fs). calm_event (q_jour u) (set (q_disk u)) e"
    using es(2) fs(2) uv calm_event_mono unfolding calm_def by (metis UnE set_append)
  moreover have "grown u w (es @ fs)" using es(1) fs(1) by (rule grown_trans)
  ultimately show "calm u w" using uv vw unfolding calm_def by (metis (no_types, opaque_lifting) insert_absorb2 insert_mono subset_trans)
qed (auto simp: calm_def)

interpretation ge: world_order gentle
proof
  fix u v w :: "'w qw"
  assume "gentle u v" "gentle v w"
  then obtain es fs where "grown u v es" "grown v w fs" "\<forall>e \<in> set (es @ fs). \<not> ends_process e"
    by (auto simp: gentle_def)
  then show "gentle u w" unfolding gentle_def using grown_trans by blast
qed (auto simp: gentle_def)

lemma steady_calm: "steady w w' \<Longrightarrow> calm w w'"
  by (fastforce simp: steady_def calm_def steady_event_def calm_event_def split: qevent.splits)

lemma quiet_calm: "quiet w w' \<Longrightarrow> calm w w'"
  by (rule steady_calm [OF quiet_steady])

lemma calm_sync_dir: "keeps calm (sync_dir E)"
  by (rule keeps_hoare)
    (auto simp: sync_dir_def hoare_def State_Monad.bind_def env_def modify_def State_Monad.return_def
       calm_def calm_event_def grown_def split: prod.splits option.splits if_splits)

lemma gentle_log: "\<not> ends_process e \<Longrightarrow> keeps gentle (log_event e)"
  by (simp add: keeps_def log_event_def modify_def gentle_def grown_def)

lemma gentle_cont: "keeps gentle (m_cont E)"
  unfolding m_cont_def by (intro ge.rules gentle_log) simp

lemma gentle_cmd: "c \<noteq> CQuit \<Longrightarrow> c \<noteq> CPowerdown \<Longrightarrow> keeps gentle (m_cmd E c)"
  unfolding m_cmd_def by (rule ge.bind [OF gentle_log ge.env]) (auto split: qcmd.splits)

lemma gentle_read_journal: "keeps gentle (read_journal E)"
  unfolding read_journal_def by (intro ge.rules)

lemma gentle_modify: "(\<And>w. \<exists>e. \<not> ends_process e \<and> q_log (f w) = q_log w @ [e]) \<Longrightarrow> keeps gentle (modify f)"
  by (simp add: keeps_def modify_def gentle_def grown_def) (metis empty_iff empty_set set_ConsD)

lemma gentle_remove_file: "keeps gentle (remove_file E f)"
  unfolding remove_file_def by (intro ge.rules gentle_modify) auto

lemma gentle_remove_each: "keeps gentle (remove_each E fs)"
  by (induction fs) (auto intro!: ge.rules gentle_remove_file)

lemma gentle_remove_all: "keeps gentle (remove_all E fs)"
  unfolding remove_all_def by (intro ge.rules gentle_remove_each)

lemma gentle_remove_images: "keeps gentle (remove_images E)"
  unfolding remove_images_def by (rule gentle_remove_all)

lemma gentle_sync_dir: "keeps gentle (sync_dir E)"
  unfolding sync_dir_def by (intro ge.rules gentle_modify) auto

lemma gentle_write_journal: "keeps gentle (write_journal E j)"
  unfolding write_journal_def Let_def by (intro ge.rules gentle_sync_dir gentle_modify) auto

lemma gentle_unlink: "keeps gentle (unlink_journal E)"
  by (rule keeps_hoare)
    (auto simp: unlink_journal_def hoare_def State_Monad.bind_def env_def reads_def modify_def State_Monad.return_def
       gentle_def grown_def split: prod.splits option.splits if_splits jfile.splits)

lemmas gentle_rules = ge.rules gentle_cont gentle_cmd gentle_read_journal gentle_remove_all gentle_remove_images gentle_sync_dir
  gentle_write_journal gentle_unlink

lemma write_journal_outcome:
  "hoare (\<lambda>s. s = w) (write_journal E j)
     (\<lambda>e s. (e \<noteq> None \<and> quiet w s) \<or>
        (silent w s \<and> q_jour s = JFile (j\<lparr>jn_version := journal_version\<rparr>) \<and> q_image s = q_image w))"
  by (auto simp: write_journal_def Let_def sync_dir_def hoare_def State_Monad.bind_def env_def modify_def State_Monad.return_def
       quiet_def silent_def grown_def split: prod.splits option.splits)

end
