(* ===== verification/Qemu_State.thy ===== *)
theory Qemu_State
  imports Qemu_Rules
begin

text \<open>
  The state of a machine and its repair (\<^verbatim>\<open>internal/backend/qemu/qemu.go\<close>: \<^verbatim>\<open>State\<close>,
  \<^verbatim>\<open>stateFromFiles\<close>, \<^verbatim>\<open>stateFromPIDFile\<close>, \<^verbatim>\<open>Repair\<close>, \<^verbatim>\<open>repairSuspend\<close>; the state is computed
  from the pid file, the process behind it, the suspend journal and the image's size, and never cached).
  The specification is \<open>state_table\<close>, the table of ADR 0009 as a function of what the files
  hold; \<open>state_from_files\<close> meets it whenever the files can be read.
\<close>

datatype bstate = Stopped | Running | Broken | Suspended

fun bstate_text :: "bstate \<Rightarrow> string" where
  "bstate_text Stopped = ''stopped''"
| "bstate_text Running = ''running''"
| "bstate_text Broken = ''broken''"
| "bstate_text Suspended = ''suspended''"

definition state_from_pid_file :: "'w qenv \<Rightarrow> ('w, bstate) qm" where
  "state_from_pid_file E = do {
     f \<leftarrow> env (qe_pidfile E);
     case f of
       PidMissing \<Rightarrow> ret Stopped
     | PidBad _ \<Rightarrow> ret Broken
     | PidIs pid \<Rightarrow> do { o1 \<leftarrow> env (qe_ours E pid); ret (if o1 then Running else Broken) } }"

definition state_from_files :: "'w qenv \<Rightarrow> ('w, bstate) qm" where
  "state_from_files E = do {
     p \<leftarrow> state_from_pid_file E;
     if p = Running then ret p
     else do {
       r \<leftarrow> read_journal E;
       case r of
         ReadMissing \<Rightarrow> ret p
       | ReadBad _ \<Rightarrow> ret Broken
       | ReadIo _ \<Rightarrow> ret Broken
       | ReadJournal j \<Rightarrow>
           (if jn_phase j = saved
            then do { v \<leftarrow> valid_image E j; ret (if v then Suspended else Broken) }
            else ret Broken) } }"

definition q_state :: "'w qenv \<Rightarrow> machine \<Rightarrow> ('w, qerr + bstate) qm" where
  "q_state E m = (if mc_dir m = [] then ret (Inl ENoDir) else do { s \<leftarrow> state_from_files E; ret (Inr s) })"

definition repair_suspend :: "'w qenv \<Rightarrow> ('w, qerr option) qm" where
  "repair_suspend E = do {
     r \<leftarrow> read_journal E;
     case r of
       ReadMissing \<Rightarrow> do { e \<leftarrow> remove_images E; ret (map_option EPlain e) }
     | ReadBad _ \<Rightarrow> do {
         e \<leftarrow> aside_journal E;
         case e of
           Some t \<Rightarrow> ret (Some (EPlain t))
         | None \<Rightarrow> do {
             e2 \<leftarrow> sync_dir E;
             case e2 of
               Some t \<Rightarrow> ret (Some (EPlain t))
             | None \<Rightarrow> do { e3 \<leftarrow> remove_images E; ret (map_option EPlain e3) } } }
     | ReadIo t \<Rightarrow> ret (Some (EPlain (''qemu: reading the suspend journal (nothing was changed): '' @ t)))
     | ReadJournal j \<Rightarrow> do {
         v \<leftarrow> check_image E j;
         case v of
           Inl t \<Rightarrow> ret (Some (EPlain (t @ '' (nothing was changed)'')))
         | Inr ok \<Rightarrow> do {
             e \<leftarrow> (if jn_phase j = saved \<and> ok then remove_all E [RTmp] else discard_journal_then_image E);
             ret (map_option EPlain e) } } }"

definition repair :: "'w qenv \<Rightarrow> machine \<Rightarrow> ('w, qerr option) qm" where
  "repair E m =
     (if mc_dir m = [] then ret (Some ENoDir)
      else do {
        e \<leftarrow> remove_all E [RPid, RQmp];
        case e of Some t \<Rightarrow> ret (Some (EPlain t)) | None \<Rightarrow> repair_suspend E })"

section \<open>The state table\<close>

text \<open>A journal and an image size that together are a saved machine.\<close>

definition pair_ok :: "jfile \<Rightarrow> int option \<Rightarrow> bool" where
  "pair_ok f img \<longleftrightarrow>
     (case f of JFile j \<Rightarrow> valid_phase j \<and> jn_phase j = saved \<and> 0 < jn_imageBytes j \<and> img = Some (jn_imageBytes j) | _ \<Rightarrow> False)"

definition state_table :: "pidfile \<Rightarrow> (int \<Rightarrow> bool) \<Rightarrow> jfile \<Rightarrow> int option \<Rightarrow> bstate" where
  "state_table p ours f img =
     (if case p of PidIs pid \<Rightarrow> ours pid | _ \<Rightarrow> False then Running
      else if pair_ok f img then Suspended
      else if p = PidMissing \<and> f = JNone then Stopped
      else Broken)"

text \<open>An environment whose journal and image can be read, at a world that no read changes.\<close>

definition readable :: "'w qenv \<Rightarrow> 'w \<Rightarrow> bool" where
  "readable E s \<longleftrightarrow>
     qe_fs E FJournalRead s = (None, s) \<and> qe_fs E FImageStat s = (None, s) \<and>
     (\<exists>p. qe_pidfile E s = (p, s)) \<and> (\<forall>p. \<exists>b. qe_ours E p s = (b, s))"

lemma state_table_helper:
  assumes "readable E (q_env w)"
  shows "run_state (state_from_files E) w =
    (state_table (fst (qe_pidfile E (q_env w))) (\<lambda>p. fst (qe_ours E p (q_env w))) (q_jour w) (q_image w), w)"
proof -
  let ?s = "q_env w"
  have fs: "qe_fs E FJournalRead ?s = (None, ?s)" "qe_fs E FImageStat ?s = (None, ?s)"
    using assms by (auto simp: readable_def)
  obtain p where p: "qe_pidfile E ?s = (p, ?s)" using assms by (auto simp: readable_def)
  obtain b where o1: "\<And>q. qe_ours E q ?s = (b q, ?s)"
    using assms unfolding readable_def by metis
  have w: "w\<lparr>q_env := ?s\<rparr> = w" by simp
  note [simp] = State_Monad.bind_def State_Monad.return_def env_def reads_def w fs p
  have pid: "run_state (state_from_pid_file E) w =
      ((case p of PidMissing \<Rightarrow> Stopped | PidBad _ \<Rightarrow> Broken | PidIs q \<Rightarrow> if b q then Running else Broken), w)"
    by (cases p) (auto simp: state_from_pid_file_def o1)
  have img: "run_state (valid_image E j) w =
      (jn_phase j = saved \<and> 0 < jn_imageBytes j \<and> q_image w = Some (jn_imageBytes j), w)" for j
    by (auto simp: valid_image_def check_image_def split: option.splits)
  show ?thesis
    by (cases p; cases "q_jour w")
      (auto simp: state_from_files_def pid img state_table_def read_journal_def valid_phase_def pair_ok_def o1)
qed


section \<open>Repair\<close>

lemma quiet_state: "keeps quiet (state_from_files E)"
  unfolding state_from_files_def state_from_pid_file_def by (intro quiet_rules)

lemma quiet_q_state: "keeps quiet (q_state E m)"
  unfolding q_state_def by (intro quiet_rules quiet_state)

lemma silent_repair_suspend: "keeps silent (repair_suspend E)"
  unfolding repair_suspend_def by (intro silent_rules)

lemma silent_repair: "keeps silent (repair E m)"
  unfolding repair_def by (intro silent_rules silent_repair_suspend) simp

definition saved_pair :: "'w qw \<Rightarrow> bool" where
  "saved_pair w \<longleftrightarrow> pair_ok (q_jour w) (q_image w)"

definition same_pair :: "'w qw \<Rightarrow> 'w qw \<Rightarrow> bool" where
  "same_pair w w' \<longleftrightarrow> q_jour w' = q_jour w \<and> q_disk w' = q_disk w \<and> q_image w' = q_image w"

lemma quiet_same: "quiet w w' \<Longrightarrow> same_pair w w'"
  by (simp add: quiet_def same_pair_def)

lemma same_pair_trans: "same_pair u v \<Longrightarrow> same_pair v w \<Longrightarrow> same_pair u w"
  by (simp add: same_pair_def)

lemma quiet_hoare: "keeps quiet m \<Longrightarrow> hoare (same_pair w) m (\<lambda>_. same_pair w)"
  by (erule hoare_keeps) (metis quiet_same same_pair_trans)

lemma read_journal_pair:
  "hoare (same_pair w) (read_journal E)
     (\<lambda>r s. same_pair w s \<and> (case r of ReadMissing \<Rightarrow> q_jour w = JNone
        | ReadBad _ \<Rightarrow> q_jour w \<noteq> JNone \<and> \<not> saved_pair w
        | ReadJournal j \<Rightarrow> q_jour w = JFile j \<and> valid_phase j | ReadIo _ \<Rightarrow> True))"
  by (auto simp: read_journal_def hoare_def State_Monad.bind_def env_def reads_def State_Monad.return_def valid_phase_def
       same_pair_def saved_pair_def pair_ok_def split: prod.splits option.splits jfile.splits)

lemma check_image_pair:
  "hoare (same_pair w) (check_image E j)
     (\<lambda>r s. same_pair w s \<and>
        (case r of Inr b \<Rightarrow> b = (jn_phase j = saved \<and> 0 < jn_imageBytes j \<and> q_image w = Some (jn_imageBytes j)) | Inl _ \<Rightarrow> True))"
  by (auto simp: check_image_def hoare_def State_Monad.bind_def env_def reads_def State_Monad.return_def
       same_pair_def split: prod.splits option.splits)

text \<open>An image goes only after its journal has gone for good.\<close>

definition journal_first :: "'w qw \<Rightarrow> 'w qw \<Rightarrow> bool" where
  "journal_first w w' \<longleftrightarrow>
     (q_image w' \<noteq> q_image w \<longrightarrow> q_jour w \<noteq> JNone \<longrightarrow> q_jour w' = JNone \<and> q_disk w' = [JNone]) \<and>
     (q_jour w' = q_jour w \<or> q_jour w' = JNone)"

lemma same_journal_first: "same_pair w w' \<Longrightarrow> journal_first w w'"
  by (simp add: same_pair_def journal_first_def)

lemma discard_first: "hoare (same_pair w) (discard_journal_then_image E) (\<lambda>e s. journal_first w s \<and> (e = None \<longrightarrow> q_jour s = JNone \<and> q_disk s = [JNone]))"
proof (rule hoareI)
  fix s e t
  assume "same_pair w s" "run_state (discard_journal_then_image E) s = (e, t)"
  with discard_spec [of s E] show "journal_first w t \<and> (e = None \<longrightarrow> q_jour t = JNone \<and> q_disk t = [JNone])"
    by (auto simp: hoare_def same_pair_def journal_first_def)
qed

lemma images_first: "q_jour w = JNone \<Longrightarrow> hoare (same_pair w) (remove_images E) (\<lambda>_. journal_first w)"
  by (rule hoare_keeps [OF steady_remove_images]) (auto simp: same_pair_def journal_first_def steady_def)

lemma aside_spec:
  "hoare (same_pair w) (aside_journal E)
     (\<lambda>e s. q_image s = q_image w \<and> (if e = None then q_jour s = JNone else q_jour s = q_jour w \<and> q_disk s = q_disk w))"
  by (auto simp: aside_journal_def hoare_def State_Monad.bind_def env_def reads_def modify_def State_Monad.return_def
       same_pair_def split: prod.splits option.splits jfile.splits)

lemma repair_bad:
  assumes "\<not> saved_pair w"
  shows "hoare (same_pair w)
     (do { e \<leftarrow> aside_journal E;
           case e of
             Some t \<Rightarrow> ret (Some (EPlain t))
           | None \<Rightarrow> do {
               e2 \<leftarrow> sync_dir E;
               case e2 of
                 Some t \<Rightarrow> ret (Some (EPlain t))
               | None \<Rightarrow> do { e3 \<leftarrow> remove_images E; ret (map_option EPlain e3) } } })
     (\<lambda>_ s. journal_first w s \<and> (saved_pair w \<longrightarrow> same_pair w s))"
  apply (rule hoare_bind [OF aside_spec], rule hoare_option)
   apply (rule hoare_bind [where R = "\<lambda>e s. q_image s = q_image w \<and> q_jour s = JNone \<and> (e = None \<longrightarrow> q_disk s = [JNone])"])
    apply (auto simp: hoare_def sync_dir_def State_Monad.bind_def env_def modify_def State_Monad.return_def split: prod.splits option.splits)[1]
   apply (rule hoare_option)
    apply (rule hoare_bind [where R = "\<lambda>_ s. q_jour s = JNone \<and> q_disk s = [JNone]"])
     apply (rule hoare_keeps [OF steady_remove_images])
     apply (simp add: steady_def)
    apply (rule hoare_ret, simp add: journal_first_def assms)
   apply (rule hoare_ret, simp add: journal_first_def assms)
  apply (rule hoare_ret, simp add: journal_first_def assms)
  done

text \<open>What the repair of a suspend may do to a world.\<close>

definition repaired :: "'w qw \<Rightarrow> 'w qw \<Rightarrow> bool" where
  "repaired w s \<longleftrightarrow> journal_first w s \<and> (saved_pair w \<longrightarrow> same_pair w s)"

lemma same_repaired: "same_pair w s \<Longrightarrow> repaired w s"
  by (simp add: repaired_def same_journal_first)

lemma repaired_return: "hoare (repaired w) (ret x) (\<lambda>_. repaired w)"
  by (rule hoare_ret)

lemma missing_not_pair: "q_jour w = JNone \<Longrightarrow> \<not> saved_pair w"
  by (simp add: saved_pair_def pair_ok_def)

lemma repair_suspend_spec: "hoare (same_pair w) (repair_suspend E) (\<lambda>_. repaired w)"
  unfolding repair_suspend_def
proof (rule hoare_bind [OF read_journal_pair], rule hoare_jread, goal_cases)
  case (1 x)
  show ?case
    by (simp add: 1, rule hoare_pure, rule hoare_bind [OF images_first], assumption, rule hoare_ret)
      (simp add: repaired_def missing_not_pair)
next
  case (2 x t)
  show ?case
    by (simp add: 2, rule hoare_pure, erule conjE, rule hoare_weaken [OF repair_bad]) (auto simp: repaired_def)
next
  case (3 x t)
  show ?case by (simp add: 3, rule hoare_ret) (simp add: same_repaired)
next
  case (4 x j)
  have "hoare (\<lambda>s. same_pair w s \<and> ok = (jn_phase j = saved \<and> 0 < jn_imageBytes j \<and> q_image w = Some (jn_imageBytes j)))
      (do { e \<leftarrow> (if jn_phase j = saved \<and> ok then remove_all E [RTmp] else discard_journal_then_image E);
            ret (map_option EPlain e) }) (\<lambda>_. repaired w)" if q: "q_jour w = JFile j \<and> valid_phase j" for ok
  proof (cases "jn_phase j = saved \<and> ok")
    case True
    then show ?thesis
      by (simp add: True, intro hoare_bind [where R = "\<lambda>_. same_pair w"] hoare_ret)
        (auto intro: same_repaired hoare_pre [OF quiet_hoare [OF quiet_remove_all]])
  next
    case False
    show ?thesis
      by (simp only: False if_False, rule hoare_pure, rule hoare_bind [OF discard_first], rule hoare_ret)
        (use False q in \<open>auto simp: repaired_def saved_pair_def pair_ok_def\<close>)
  qed
  then show ?case
    by (simp add: 4, intro hoare_pure, intro hoare_bind [OF check_image_pair] hoare_sum)
      (auto intro: hoare_ret same_repaired)
qed

lemma repair_spec: "hoare (same_pair w) (repair E m) (\<lambda>_. repaired w)"
  unfolding repair_def
  by (intro hoare_if hoare_ret hoare_bind [OF quiet_hoare [OF quiet_remove_all]] hoare_option repair_suspend_spec)
    (auto simp: same_repaired)

text \<open>Fact (safety): repairing a machine never loses a valid saved state: whatever fails on the way (a
  journal or an image that cannot be read, a pid file that cannot be removed), a saved journal and its image of
  the committed size are the same afterwards.\<close>

theorem repair_keeps_saved:
  assumes "saved_pair w"
  shows "case run_state (repair E m) w of (_, w') \<Rightarrow> q_jour w' = q_jour w \<and> q_disk w' = q_disk w \<and> q_image w' = q_image w"
proof (cases "run_state (repair E m) w")
  case (Pair e w')
  have "repaired w w'" by (rule hoareD [OF repair_spec _ Pair]) (simp add: same_pair_def)
  with assms show ?thesis by (simp add: Pair repaired_def same_pair_def)
qed

section \<open>A concrete world\<close>

text \<open>A host whose files all work, with a QEMU that answers and exits when it is told to.\<close>

definition demo_env :: "unit qenv" where
  "demo_env =
     \<lparr>qe_dial = \<lambda>s. (None, s), qe_status = \<lambda>s. (Inr ''running'', s),
      qe_migration = \<lambda>s. (Inr \<lparr>mi_status = ''completed'', mi_error = [], mi_blocked = [], mi_total = 900, mi_downtime = 40, mi_transferred = Some 7\<rparr>, s),
      qe_cmd = \<lambda>c s. (None, s), qe_version = \<lambda>s. (Inr ''9.1.0'', s), qe_alias = \<lambda>t s. (Inr ''virt-9.1'', s),
      qe_alive = \<lambda>p s. (True, s), qe_ours = \<lambda>p s. (p = 77, s), qe_daemonized = \<lambda>p s. (False, s),
      qe_term = \<lambda>p s. (True, s), qe_kill = \<lambda>p s. (True, s), qe_wait = \<lambda>p g s. (True, s),
      qe_pidfile = \<lambda>s. (PidIs 77, s), qe_argvfile = \<lambda>s. (ArgvIs [''qemu-system-aarch64'', ''-M'', ''virt''], s),
      qe_fs = \<lambda>op s. (None, s), qe_tmp_size = \<lambda>s. ((2 ^ 21, 4096), s),
      qe_fingerprints = \<lambda>s. (Inl ''no disk'', s), qe_late = \<lambda>s. (False, s), qe_cancelled = \<lambda>s. (None, s),
      qe_now = \<lambda>s. (5, s), qe_getpid = \<lambda>s. (42, s), qe_launch = \<lambda>argv s. (Inr 78, s), qe_tail = \<lambda>s. ([], s),
      qe_argv_fs = \<lambda>s. (\<lparr>af_exists = \<lambda>p. True, af_mkdir = \<lambda>p. None\<rparr>, s), qe_firmware = \<lambda>b s. (Inr ''/fw'', s), qe_lookup = \<lambda>s. (Inr ''qemu-system-aarch64'', s)\<rparr>"

definition demo_machine :: machine where
  "demo_machine = machine_defaults\<lparr>mc_dir := ''/m'', mc_memoryMiB := 2\<rparr>"

definition demo_journal :: "string \<Rightarrow> int \<Rightarrow> journal" where
  "demo_journal ph n =
     \<lparr>jn_version = 1, jn_phase = ph, jn_reason = [], jn_ownerPID = 42, jn_startedAt = 5, jn_savedAt = 5,
      jn_argv = [''qemu-system-aarch64'', ''-M'', ''virt''], jn_machineType = ''virt-9.1'', jn_qemuVersion = ''9.1.0'',
      jn_qemuBinary = ''qemu-system-aarch64'', jn_hw = hardware_of demo_machine, jn_imageBytes = n, jn_imageAllocated = 4096,
      jn_fingerprints = None, jn_meta = [], jn_stats = None\<rparr>"

definition demo_world :: "jfile \<Rightarrow> int option \<Rightarrow> unit qw" where
  "demo_world f img = \<lparr>q_env = (), q_jour = f, q_disk = [f], q_image = img, q_log = []\<rparr>"

lemmas demo_defs = demo_env_def demo_machine_def demo_journal_def demo_world_def

lemma demo_saved_pair: "saved_pair (demo_world (JFile (demo_journal saved 9)) (Some 9))"
  by (simp add: saved_pair_def pair_ok_def demo_defs valid_phase_def journal_version_def)

lemma demo_readable: "readable demo_env s"
  by (simp add: readable_def demo_env_def)


theorem repair_keeps_saved_witness:
  "case run_state (repair demo_env demo_machine) (demo_world (JFile (demo_journal saved 9)) (Some 9)) of
     (_, w') \<Rightarrow> q_image w' = Some 9"
  using repair_keeps_saved [OF demo_saved_pair, of demo_env demo_machine] by (auto simp: demo_world_def split: prod.splits)

end
