(* ===== verification/Qemu_Suspend.thy ===== *)
theory Qemu_Suspend
  imports Qemu_State
begin

text \<open>
  Suspending (\<^verbatim>\<open>internal/backend/qemu/suspend.go\<close>): the checks, \<^verbatim>\<open>PrepareSuspend\<close>,
  \<^verbatim>\<open>CommitSuspend\<close> with its rollback, \<^verbatim>\<open>CancelSuspend\<close> and \<^verbatim>\<open>DiscardSuspend\<close>. A polling loop takes
  the number of polls its timeout leaves room for (every turn sleeps at least one interval on a
  monotonic clock, so after \<open>timeout / interval + 1\<close> turns the deadline has passed); the clock
  may say so earlier. The theorems state the rule the file rests on: a guest is continued only while
  no saved journal is visible or could come back after a power cut, and a commit either
  continues the guest or commits, never both.
\<close>

section \<open>Checks\<close>

definition migration_active :: "string \<Rightarrow> bool" where
  "migration_active st \<longleftrightarrow> st \<notin> {[], ''none'', ''completed'', ''failed'', ''cancelled''}"

definition legacy_reason :: string where
  "legacy_reason = ''hypervisor was started by an older jm; restart it once: jm stop && jm start''"

definition suspendable :: "'w qenv \<Rightarrow> machine \<Rightarrow> ('w, string) qm" where
  "suspendable E m =
     (if mc_dir m = [] then ret (err_text ENoDir)
      else if CHR '','' \<in> set (mc_dir m)
      then ret ''the machine directory path contains a comma, which a migration file URI cannot carry''
      else do {
        a \<leftarrow> env (qe_argvfile E);
        case a of
          ArgvMissing \<Rightarrow> ret legacy_reason
        | ArgvError t \<Rightarrow> ret t
        | ArgvIs argv \<Rightarrow>
            (if ''-daemonize'' \<in> set argv then ret legacy_reason
             else do {
               p \<leftarrow> env (qe_pidfile E);
               case p of
                 PidMissing \<Rightarrow> ret []
               | PidBad _ \<Rightarrow> ret []
               | PidIs pid \<Rightarrow> do {
                   d \<leftarrow> env (qe_daemonized E pid);
                   ret (if d then legacy_reason else []) } }) })"

record suspend_status =
  su_phase :: string
  su_reason :: string
  su_savedAt :: int
  su_imageBytes :: int
  su_allocatedBytes :: int
  su_meta :: "(string, string) gomap"

definition no_suspend :: suspend_status where
  "no_suspend = \<lparr>su_phase = [], su_reason = [], su_savedAt = 0, su_imageBytes = 0, su_allocatedBytes = 0, su_meta = []\<rparr>"

definition suspend_status_of :: "'w qenv \<Rightarrow> machine \<Rightarrow> ('w, qerr + suspend_status) qm" where
  "suspend_status_of E m =
     (if mc_dir m = [] then ret (Inl ENoDir)
      else do {
        r \<leftarrow> read_journal E;
        ret (case r of
               ReadMissing \<Rightarrow> Inr no_suspend
             | ReadBad t \<Rightarrow> Inl (EPlain t)
             | ReadIo t \<Rightarrow> Inl (EPlain t)
             | ReadJournal j \<Rightarrow>
                 Inr \<lparr>su_phase = jn_phase j, su_reason = jn_reason j, su_savedAt = jn_savedAt j,
                      su_imageBytes = jn_imageBytes j, su_allocatedBytes = jn_imageAllocated j, su_meta = jn_meta j\<rparr>) })"

section \<open>PrepareSuspend\<close>

record suspend_plan =
  sp_reason :: string
  sp_meta :: "(string, string) gomap"

text \<open>The resolver of a machine type alias is asked at most once, and only for an unversioned type.\<close>

definition pin_type :: "'w qenv \<Rightarrow> string list \<Rightarrow> ('w, string + string) qm" where
  "pin_type E argv = env (\<lambda>s.
     (pin_machine_type (\<lambda>t. fst (qe_alias E t s)) argv,
      case machine_type_of argv of Inl _ \<Rightarrow> s | Inr t \<Rightarrow> if versioned_machine_type t then s else snd (qe_alias E t s)))"

definition unavailable :: "string \<Rightarrow> ('w, qerr option) qm" where
  "unavailable t = ret (Some (EUnavailable t))"

definition new_journal :: "machine \<Rightarrow> suspend_plan \<Rightarrow> string list \<Rightarrow> string list \<Rightarrow> string \<Rightarrow> string \<Rightarrow> int \<Rightarrow> int \<Rightarrow> journal" where
  "new_journal m pl argv pinned mt ver owner now =
     \<lparr>jn_version = 0, jn_phase = saving, jn_reason = sp_reason pl, jn_ownerPID = owner, jn_startedAt = now,
      jn_savedAt = 0, jn_argv = pinned, jn_machineType = mt, jn_qemuVersion = ver, jn_qemuBinary = hd argv,
      jn_hw = hardware_of m, jn_imageBytes = 0, jn_imageAllocated = 0, jn_fingerprints = None,
      jn_meta = sp_meta pl, jn_stats = None\<rparr>"

text \<open>From the QMP session on; the monitor is open.\<close>

definition prepare_checks :: "'w qenv \<Rightarrow> string list \<Rightarrow> ('w, string + string \<times> string \<times> string list) qm" where
  "prepare_checks E argv = do {
     st \<leftarrow> env (qe_status E);
     case st of
       Inl e \<Rightarrow> ret (Inl (merr_text e))
     | Inr status \<Rightarrow>
         (if status \<noteq> ''running'' then ret (Inl (''the guest is '' @ status @ '', not running''))
          else do {
            cap \<leftarrow> m_cmd E CFileCapable;
            case cap of
              Some e \<Rightarrow> ret (Inl (merr_text e))
            | None \<Rightarrow> do {
                v \<leftarrow> env (qe_version E);
                case v of
                  Inl e \<Rightarrow> ret (Inl (merr_text e))
                | Inr ver \<Rightarrow> do {
                    t \<leftarrow> pin_type E argv;
                    case t of
                      Inl e \<Rightarrow> ret (Inl e)
                    | Inr mt \<Rightarrow> do {
                        i \<leftarrow> env (qe_migration E);
                        case i of
                          Inl e \<Rightarrow> ret (Inl (merr_text e))
                        | Inr info \<Rightarrow>
                            (if migration_active (mi_status info) then ret (Inl (''a migration is already '' @ mi_status info))
                             else ret (case with_machine_type argv mt of
                                         Inl e \<Rightarrow> Inl e | Inr pinned \<Rightarrow> Inr (mt, ver, pinned))) } } } }) }"

definition prepare_suspend :: "'w qenv \<Rightarrow> machine \<Rightarrow> suspend_plan \<Rightarrow> ('w, qerr option) qm" where
  "prepare_suspend E m pl = do {
     reason \<leftarrow> suspendable E m;
     if reason \<noteq> [] then unavailable reason
     else do {
       st \<leftarrow> q_state E m;
       case st of
         Inl e \<Rightarrow> ret (Some e)
       | Inr b \<Rightarrow>
           (if b \<noteq> Running then unavailable (''machine is '' @ bstate_text b @ '', not running'')
            else do {
              ls \<leftarrow> env (qe_fs E FJournalStat);
              f \<leftarrow> reads q_jour;
              if ls = None \<and> f \<noteq> JNone then unavailable ''a suspend is already in progress''
              else do {
                a \<leftarrow> env (qe_argvfile E);
                case (case a of ArgvIs argv \<Rightarrow> argv | _ \<Rightarrow> []) of
                  [] \<Rightarrow> unavailable ''reading qemu.argv''
                | x # xs \<Rightarrow> do {
                    d \<leftarrow> env (qe_dial E);
                    case d of
                      Some e \<Rightarrow> unavailable (merr_text e)
                    | None \<Rightarrow> do {
                        c \<leftarrow> prepare_checks E (x # xs);
                        case c of
                          Inl e \<Rightarrow> unavailable e
                        | Inr r \<Rightarrow> do {
                            pid \<leftarrow> env (qe_getpid E);
                            now \<leftarrow> env (qe_now E);
                            e \<leftarrow> write_journal E (case r of (mt, ver, pinned) \<Rightarrow> new_journal m pl (x # xs) pinned mt ver pid now);
                            ret (map_option EPlain e) } } } } }) } }"

section \<open>Rolling back\<close>

definition crashed :: "'w qenv \<Rightarrow> int \<Rightarrow> string \<Rightarrow> ('w, qerr option) qm" where
  "crashed E pid cause = do {
     _ \<leftarrow> remove_all E [RTmp];
     a \<leftarrow> env (qe_alive E pid);
     _ \<leftarrow> (if a then ret None else remove_all E [RPid, RQmp]);
     ret (Some (ECrashed cause)) }"

definition before_freeze :: "'w qenv \<Rightarrow> int \<Rightarrow> qerr \<Rightarrow> ('w, qerr option) qm" where
  "before_freeze E pid err = do {
     a \<leftarrow> env (qe_ours E pid);
     if a then ret (Some err) else crashed E pid (err_text err) }"

text \<open>The polls a timeout leaves room for, in milliseconds.\<close>

definition polls :: "int \<Rightarrow> int \<Rightarrow> nat" where
  "polls timeout interval = nat (timeout div interval) + 1"

definition migrate_poll :: int where "migrate_poll = 200"
definition status_poll :: int where "status_poll = 50"
definition cancel_timeout :: int where "cancel_timeout = 30000"
definition quit_timeout :: int where "quit_timeout = 10000"
definition cont_timeout :: int where "cont_timeout = 5000"
definition load_timeout :: int where "load_timeout = 120000"
definition launch_timeout :: int where "launch_timeout = 10000"

definition save_timeout :: "int \<Rightarrow> int" where
  "save_timeout memoryMiB = max 60000 (memoryMiB * 30000 div 1024)"

text \<open>One turn's end: past the deadline, cancelled, or another turn.\<close>

datatype pause = Late | Cancelled string | Again

definition pause :: "'w qenv \<Rightarrow> bool \<Rightarrow> ('w, pause) qm" where
  "pause E last_turn = do {
     l \<leftarrow> env (qe_late E);
     if l \<or> last_turn then ret Late
     else do { c \<leftarrow> env (qe_cancelled E); ret (case c of Some t \<Rightarrow> Cancelled t | None \<Rightarrow> Again) } }"

fun wait_cancelled :: "'w qenv \<Rightarrow> nat \<Rightarrow> ('w, string option) qm" where
  "wait_cancelled E n = do {
     i \<leftarrow> env (qe_migration E);
     case i of
       Inl e \<Rightarrow> ret (Some (merr_text e))
     | Inr info \<Rightarrow>
         (if \<not> migration_active (mi_status info) then ret None
          else do {
            p \<leftarrow> pause E (n = 0);
            case p of
              Late \<Rightarrow> ret (Some (''the migration is still '' @ mi_status info @ '' after migrate_cancel''))
            | Cancelled t \<Rightarrow> ret (Some t)
            | Again \<Rightarrow> (case n of 0 \<Rightarrow> ret None | Suc k \<Rightarrow> wait_cancelled E k) }) }"

definition cancel_migration :: "'w qenv \<Rightarrow> ('w, string option) qm" where
  "cancel_migration E = do {
     i \<leftarrow> env (qe_migration E);
     case i of
       Inl e \<Rightarrow> ret (Some (merr_text e))
     | Inr info \<Rightarrow>
         (if \<not> migration_active (mi_status info) then ret None
          else do {
            c \<leftarrow> (if mi_status info \<noteq> ''cancelling'' then m_cmd E CMigrateCancel else ret None);
            case c of
              Some e \<Rightarrow> ret (Some (merr_text e))
            | None \<Rightarrow> wait_cancelled E (polls cancel_timeout migrate_poll) }) }"

fun wait_status :: "'w qenv \<Rightarrow> nat \<Rightarrow> string list \<Rightarrow> ('w, string option) qm" where
  "wait_status E n want = do {
     s \<leftarrow> env (qe_status E);
     case s of
       Inl e \<Rightarrow> ret (Some (merr_text e))
     | Inr status \<Rightarrow>
         (if status \<in> set want then ret None
          else do {
            p \<leftarrow> pause E (n = 0);
            case p of
              Late \<Rightarrow> ret (Some (''the guest is '' @ status @ '', not '' @ join '' or '' want))
            | Cancelled t \<Rightarrow> ret (Some t)
            | Again \<Rightarrow> (case n of 0 \<Rightarrow> ret None | Suc k \<Rightarrow> wait_status E k want) }) }"

definition cont_and_confirm :: "'w qenv \<Rightarrow> ('w, string option) qm" where
  "cont_and_confirm E = do {
     e \<leftarrow> m_cont E;
     case e of
       Some x \<Rightarrow> ret (Some (merr_text x))
     | None \<Rightarrow> wait_status E (polls cont_timeout status_poll) [''running''] }"

definition rollback :: "'w qenv \<Rightarrow> int \<Rightarrow> qerr \<Rightarrow> ('w, qerr option) qm" where
  "rollback E pid cause = do {
     a \<leftarrow> env (qe_ours E pid);
     if \<not> a then crashed E pid (err_text cause)
     else do {
       d \<leftarrow> env (qe_dial E);
       case d of
         Some e \<Rightarrow> do {
           a2 \<leftarrow> env (qe_ours E pid);
           if \<not> a2 then crashed E pid (err_text cause)
           else ret (Some (err_note cause (''; rolling back: '' @ merr_text e @ '' (the guest may still be paused)''))) }
       | None \<Rightarrow> do {
           c \<leftarrow> cancel_migration E;
           case c of
             Some t \<Rightarrow> ret (Some (err_note cause (''; rolling back: '' @ t @ '' (the guest is still paused)'')))
           | None \<Rightarrow> do {
               _ \<leftarrow> remove_images E;
               r \<leftarrow> cont_and_confirm E;
               case r of
                 None \<Rightarrow> ret (Some cause)
               | Some t \<Rightarrow> do {
                   a3 \<leftarrow> env (qe_ours E pid);
                   if \<not> a3 then crashed E pid (err_text cause)
                   else ret (Some (err_note cause (''; rolling back: '' @ t))) } } } } }"

declare wait_cancelled.simps [simp del] wait_status.simps [simp del]

section \<open>CommitSuspend\<close>

text \<open>S10 and S11: set up the migration, refuse a blocked one, offer the abort, stop the guest. \<open>None\<close>
  means the guest is stopped.\<close>

datatype freeze = Refused "qerr option" | Frozen

definition commit_setup :: "'w qenv \<Rightarrow> ('w \<Rightarrow> bool \<times> 'w) option \<Rightarrow> int \<Rightarrow> ('w, freeze) qm" where
  "commit_setup E abort pid = do {
     d \<leftarrow> env (qe_dial E);
     case d of
       Some e \<Rightarrow> do { r \<leftarrow> before_freeze E pid (EUnavailable (merr_text e)); ret (Refused r) }
     | None \<Rightarrow> do {
         s \<leftarrow> m_cmd E (CSetFileMigration 4);
         case s of
           Some e \<Rightarrow> do { r \<leftarrow> before_freeze E pid (EUnavailable (merr_text e)); ret (Refused r) }
         | None \<Rightarrow> do {
             i \<leftarrow> env (qe_migration E);
             case i of
               Inl e \<Rightarrow> do { r \<leftarrow> before_freeze E pid (EUnavailable (merr_text e)); ret (Refused r) }
             | Inr info \<Rightarrow>
                 (if mi_blocked info \<noteq> [] then ret (Refused (Some (EBlocked (''blocked: '' @ join ''; '' (mi_blocked info)))))
                  else do {
                    ab \<leftarrow> (case abort of None \<Rightarrow> ret False | Some f \<Rightarrow> env f);
                    if ab then ret (Refused (Some EAborted))
                    else do {
                      st \<leftarrow> m_cmd E CStop;
                      case st of
                        Some e \<Rightarrow> do { r \<leftarrow> rollback E pid (EPlain (''qemu: stopping the guest: '' @ merr_text e)); ret (Refused r) }
                      | None \<Rightarrow> ret Frozen } }) } } }"

text \<open>S12: the save. The loop returns the completed migration or why it failed.\<close>

datatype save_end = Completed mig_info | SaveCrash string | SaveFail string

fun watch_save :: "'w qenv \<Rightarrow> int \<Rightarrow> nat \<Rightarrow> ('w, save_end) qm" where
  "watch_save E pid n = do {
     i \<leftarrow> env (qe_migration E);
     case i of
       Inl e \<Rightarrow> do {
         a \<leftarrow> env (qe_ours E pid);
         ret (if \<not> a then SaveCrash (merr_text e) else SaveFail (''qemu: watching the save: '' @ merr_text e)) }
     | Inr info \<Rightarrow>
         (if mi_status info = ''completed'' then ret (Completed info)
          else if mi_status info = ''failed'' then ret (SaveFail (''qemu: the save failed: '' @ mi_error info))
          else if mi_status info = ''cancelled'' then ret (SaveFail ''qemu: the save was cancelled'')
          else do {
            p \<leftarrow> pause E (n = 0);
            case p of
              Late \<Rightarrow> ret (SaveFail ''qemu: the save did not finish in time'')
            | Cancelled t \<Rightarrow> ret (SaveFail (''qemu: the save was interrupted: '' @ t))
            | Again \<Rightarrow> (case n of 0 \<Rightarrow> ret (SaveFail []) | Suc k \<Rightarrow> watch_save E pid k) }) }"

declare watch_save.simps [simp del]

definition commit_save :: "'w qenv \<Rightarrow> int \<Rightarrow> int \<Rightarrow> ('w, save_end) qm" where
  "commit_save E memoryMiB pid = do {
     f \<leftarrow> env (qe_fs E FTmpCreate);
     case f of
       Some t \<Rightarrow> ret (SaveFail (''qemu: creating the image: '' @ t))
     | None \<Rightarrow> do {
         g \<leftarrow> m_cmd E (CMigrate ''file:suspend.state.tmp'');
         case g of
           Some e \<Rightarrow> ret (SaveFail (''qemu: starting the save: '' @ merr_text e))
         | None \<Rightarrow> watch_save E pid (polls (save_timeout memoryMiB) migrate_poll) } }"

text \<open>S13: the image is synced, measured, renamed, and the directory synced.\<close>

definition make_durable :: "'w qenv \<Rightarrow> int \<Rightarrow> ('w, string + int \<times> int) qm" where
  "make_durable E memoryMiB = do {
     o1 \<leftarrow> env (qe_fs E FTmpOpen);
     case o1 of
       Some t \<Rightarrow> ret (Inl (''qemu: opening the saved image: '' @ t))
     | None \<Rightarrow> do {
         s \<leftarrow> env (qe_fs E FTmpSync);
         case s of
           Some t \<Rightarrow> ret (Inl (''qemu: syncing the saved image: '' @ t))
         | None \<Rightarrow> do {
             st \<leftarrow> env (qe_fs E FTmpStat);
             sz \<leftarrow> env (qe_tmp_size E);
             case st of
               Some t \<Rightarrow> ret (Inl (''qemu: reading the saved image: '' @ t))
             | None \<Rightarrow>
                 (if fst sz < memoryMiB * 2 ^ 20
                  then ret (Inl (''qemu: the saved image is '' @ itoa (fst sz) @ '' bytes, less than the guest's '' @ itoa memoryMiB @ '' MiB''))
                  else do {
                    r \<leftarrow> env (qe_fs E FImageRename);
                    case r of
                      Some t \<Rightarrow> ret (Inl (''qemu: renaming the saved image: '' @ t))
                    | None \<Rightarrow> do {
                        modify (\<lambda>w. w\<lparr>q_image := Some (fst sz), q_log := q_log w @ [LImage (Some (fst sz))]\<rparr>);
                        d \<leftarrow> sync_dir E;
                        ret (case d of Some t \<Rightarrow> Inl t | None \<Rightarrow> Inr sz) } }) } } }"

definition saved_journal :: "journal \<Rightarrow> int \<times> int \<Rightarrow> mig_info \<Rightarrow> int \<Rightarrow> journal" where
  "saved_journal j sz info now =
     j\<lparr>jn_phase := saved, jn_savedAt := now, jn_imageBytes := fst sz, jn_imageAllocated := snd sz,
       jn_stats := Some \<lparr>ss_totalMS = mi_total info, ss_downtimeMS = mi_downtime info,
                         ss_transferred = (case mi_transferred info of Some t \<Rightarrow> t | None \<Rightarrow> 0)\<rparr>\<rparr>"

text \<open>The commit point: the journal is rewritten as saved. A failed write is settled by reading the
  journal back.\<close>

datatype commit_state = Committed | NotCommitted string | Unknown string

definition commit_point :: "'w qenv \<Rightarrow> journal \<Rightarrow> ('w, commit_state) qm" where
  "commit_point E j = do {
     e \<leftarrow> write_journal E j;
     case e of
       None \<Rightarrow> ret Committed
     | Some t \<Rightarrow> do {
         r \<leftarrow> read_journal E;
         ret (case r of
                ReadJournal cur \<Rightarrow> (if jn_phase cur = saving then NotCommitted t
                                    else if jn_phase cur = saved then Committed else Unknown t)
              | _ \<Rightarrow> Unknown t) } }"

text \<open>S14: end QEMU, tidy, and record the fingerprints.\<close>

definition commit_end :: "'w qenv \<Rightarrow> journal \<Rightarrow> int \<Rightarrow> ('w, qerr option) qm" where
  "commit_end E j pid = do {
     d \<leftarrow> env (qe_dial E);
     _ \<leftarrow> (if d = None then m_cmd E CQuit else ret None);
     g \<leftarrow> end_process E pid quit_timeout;
     if \<not> g then ret (Some (EPlain (''qemu: the machine is suspended, but QEMU (pid '' @ itoa pid @ '') did not exit after SIGKILL'')))
     else do {
       _ \<leftarrow> remove_all E [RPid, RQmp];
       fp \<leftarrow> env (qe_fingerprints E);
       _ \<leftarrow> (case fp of Inl _ \<Rightarrow> ret None | Inr f \<Rightarrow> write_journal E (j\<lparr>jn_fingerprints := Some f\<rparr>));
       ret None } }"

text \<open>S13 and S14 once the migration has completed.\<close>

definition commit_saved :: "'w qenv \<Rightarrow> journal \<Rightarrow> int \<Rightarrow> mig_info \<Rightarrow> ('w, qerr option) qm" where
  "commit_saved E j pid info = do {
     d \<leftarrow> make_durable E (hw_memoryMiB (jn_hw j));
     case d of
       Inl t \<Rightarrow> rollback E pid (EPlain t)
     | Inr sz \<Rightarrow> do {
         now \<leftarrow> env (qe_now E);
         c \<leftarrow> commit_point E (saved_journal j sz info now);
         case c of
           NotCommitted t \<Rightarrow> rollback E pid (EPlain t)
         | Unknown t \<Rightarrow> ret (Some (EPlain (''qemu: committing the suspend: '' @ t @ '' (the guest is left paused for recovery)'')))
         | Committed \<Rightarrow> commit_end E (saved_journal j sz info now) pid } }"

definition commit_run :: "'w qenv \<Rightarrow> ('w \<Rightarrow> bool \<times> 'w) option \<Rightarrow> journal \<Rightarrow> int \<Rightarrow> ('w, qerr option) qm" where
  "commit_run E abort j pid = do {
     s \<leftarrow> commit_setup E abort pid;
     case s of
       Refused r \<Rightarrow> ret r
     | Frozen \<Rightarrow> do {
         v \<leftarrow> commit_save E (hw_memoryMiB (jn_hw j)) pid;
         case v of
           SaveCrash t \<Rightarrow> crashed E pid t
         | SaveFail t \<Rightarrow> rollback E pid (EPlain t)
         | Completed info \<Rightarrow> commit_saved E j pid info } }"

definition commit_suspend :: "'w qenv \<Rightarrow> machine \<Rightarrow> ('w \<Rightarrow> bool \<times> 'w) option \<Rightarrow> ('w, qerr option) qm" where
  "commit_suspend E m abort =
     (if mc_dir m = [] then ret (Some ENoDir)
      else do {
        r \<leftarrow> read_journal E;
        case r of
          ReadMissing \<Rightarrow> ret (Some (EPlain ''qemu: committing a suspend: file does not exist''))
        | ReadBad t \<Rightarrow> ret (Some (EPlain (''qemu: committing a suspend: '' @ t)))
        | ReadIo t \<Rightarrow> ret (Some (EPlain (''qemu: committing a suspend: '' @ t)))
        | ReadJournal j \<Rightarrow>
            (if jn_phase j \<noteq> saving
             then ret (Some (EPlain (''qemu: committing a suspend: the journal is '' @ jn_phase j @ '', not saving'')))
             else do {
               f \<leftarrow> env (qe_pidfile E);
               case f of
                 PidMissing \<Rightarrow> crashed E 0 ''file does not exist''
               | PidBad t \<Rightarrow> crashed E 0 t
               | PidIs pid \<Rightarrow> do {
                   a \<leftarrow> env (qe_ours E pid);
                   if \<not> a then crashed E pid (''pid '' @ itoa pid @ '' is not this machine's QEMU'')
                   else commit_run E abort j pid } }) })"

section \<open>CancelSuspend, DiscardSuspend\<close>

definition cancel_suspend :: "'w qenv \<Rightarrow> machine \<Rightarrow> ('w, qerr option) qm" where
  "cancel_suspend E m =
     (if mc_dir m = [] then ret (Some ENoDir)
      else do {
        r \<leftarrow> read_journal E;
        case r of
          ReadMissing \<Rightarrow> ret None
        | ReadIo t \<Rightarrow> ret (Some (EPlain (''qemu: reading the suspend journal (nothing was changed): '' @ t)))
        | ReadBad _ \<Rightarrow> do { e \<leftarrow> discard_journal_then_image E; ret (map_option EPlain e) }
        | ReadJournal j \<Rightarrow>
            (if jn_phase j = saved
             then ret (Some (EPlain ''qemu: the suspend is already committed; resume or discard it''))
             else do { e \<leftarrow> discard_journal_then_image E; ret (map_option EPlain e) }) })"

definition discard_suspend :: "'w qenv \<Rightarrow> machine \<Rightarrow> ('w, qerr option) qm" where
  "discard_suspend E m =
     (if mc_dir m = [] then ret (Some ENoDir)
      else do { e \<leftarrow> discard_journal_then_image E; ret (map_option EPlain e) })"

section \<open>What the steps do to the journal\<close>

lemma quiet_pause: "keeps quiet (pause E b)"
  unfolding pause_def by (intro quiet_rules)

lemma steady_pause: "keeps steady (pause E b)"
  by (rule keeps_quiet_steady [OF quiet_pause])

lemma case_pause: "keeps R a \<Longrightarrow> (\<And>t. keeps R (b t)) \<Longrightarrow> keeps R c \<Longrightarrow>
   keeps R (case p of Late \<Rightarrow> a | Cancelled t \<Rightarrow> b t | Again \<Rightarrow> c)"
  by (cases p) auto

lemma quiet_wait_cancelled: "keeps quiet (wait_cancelled E n)"
  by (induction n) (subst wait_cancelled.simps, intro quiet_rules quiet_pause case_pause; simp add: quiet_rules)+

lemma quiet_wait_status: "keeps quiet (wait_status E n want)"
  by (induction n) (subst wait_status.simps, intro quiet_rules quiet_pause case_pause; simp add: quiet_rules)+

lemma quiet_watch_save: "keeps quiet (watch_save E pid n)"
  by (induction n) (subst watch_save.simps, intro quiet_rules quiet_pause case_pause; simp add: quiet_rules)+

lemma quiet_cancel_migration: "keeps quiet (cancel_migration E)"
  unfolding cancel_migration_def by (intro quiet_rules quiet_wait_cancelled)

lemma quiet_crashed: "keeps quiet (crashed E pid t)"
  unfolding crashed_def by (intro quiet_rules) auto

lemma quiet_before_freeze: "keeps quiet (before_freeze E pid e)"
  unfolding before_freeze_def by (intro quiet_rules quiet_crashed)

lemma quiet_commit_save: "keeps quiet (commit_save E n pid)"
  unfolding commit_save_def by (intro quiet_rules quiet_watch_save)

lemma steady_cont_and_confirm: "keeps steady (cont_and_confirm E)"
  unfolding cont_and_confirm_def by (intro steady_rules keeps_quiet_steady [OF quiet_wait_status])

lemma steady_rollback: "keeps steady (rollback E pid c)"
  unfolding rollback_def
  by (intro steady_rules keeps_quiet_steady [OF quiet_crashed] keeps_quiet_steady [OF quiet_cancel_migration] steady_cont_and_confirm)

lemma gentle_wait_cancelled: "keeps gentle (wait_cancelled E n)"
  by (induction n) (subst wait_cancelled.simps, intro gentle_rules case_pause; simp add: gentle_rules pause_def)+

lemma gentle_wait_status: "keeps gentle (wait_status E n want)"
  by (induction n) (subst wait_status.simps, intro gentle_rules case_pause; simp add: gentle_rules pause_def)+

lemma gentle_watch_save: "keeps gentle (watch_save E pid n)"
  by (induction n) (subst watch_save.simps, intro gentle_rules case_pause; simp add: gentle_rules pause_def)+

lemma gentle_crashed: "keeps gentle (crashed E pid t)"
  unfolding crashed_def by (intro gentle_rules)

lemma gentle_rollback: "keeps gentle (rollback E pid c)"
  unfolding rollback_def cancel_migration_def cont_and_confirm_def
  by (intro gentle_rules gentle_crashed gentle_wait_cancelled gentle_wait_status) auto

lemma gentle_setup: "keeps gentle (commit_setup E ab pid)"
  unfolding commit_setup_def before_freeze_def
  by (intro gentle_rules gentle_crashed gentle_rollback) auto

lemma gentle_commit_save: "keeps gentle (commit_save E n pid)"
  unfolding commit_save_def by (intro gentle_rules gentle_watch_save) auto

lemma gentle_make_durable: "keeps gentle (make_durable E n)"
  unfolding make_durable_def by (intro gentle_rules gentle_modify) auto

lemma gentle_commit_point: "keeps gentle (commit_point E j)"
  unfolding commit_point_def by (intro gentle_rules)

lemma silent_make_durable: "keeps silent (make_durable E n)"
  unfolding make_durable_def by (intro silent_rules) (simp add: keeps_def modify_def silent_def grown_def)

lemma calm_make_durable: "keeps calm (make_durable E n)"
  unfolding make_durable_def
  by (intro ca.rules calm_sync_dir) (simp add: keeps_def modify_def calm_def grown_def calm_event_def, blast)

lemma make_durable_spec:
  "hoare (\<lambda>_. True) (make_durable E n) (\<lambda>r s. case r of Inr sz \<Rightarrow> q_image s = Some (fst sz) \<and> n * 2 ^ 20 \<le> fst sz | Inl _ \<Rightarrow> True)"
  unfolding make_durable_def
  by (auto simp: hoare_def State_Monad.bind_def env_def modify_def State_Monad.return_def sync_dir_def Let_def
       split: prod.splits option.splits if_splits)

section \<open>A commit either commits or continues the guest\<close>

lemma steady_commit_setup: "keeps steady (commit_setup E ab pid)"
  unfolding commit_setup_def
  by (intro steady_rules keeps_quiet_steady [OF quiet_before_freeze] steady_rollback)

lemma refused: "hoare P (State_Monad.bind m (\<lambda>r. ret (Refused r))) (\<lambda>x s. x = Frozen \<longrightarrow> Q s)"
  by (rule hoare_bind [where R = "\<lambda>_ _. True"]) (auto simp: hoare_def State_Monad.return_def)

lemma commit_setup_frozen: "hoare (quiet w) (commit_setup E ab pid) (\<lambda>x s. x = Frozen \<longrightarrow> quiet w s)"
  unfolding commit_setup_def
  apply (rule refused | rule hoare_option hoare_sum hoare_if | rule hoare_bind [where R = "\<lambda>_. quiet w"] | rule qt.step | rule quiet_rules quiet_before_freeze | (rule hoare_ret, simp))+
  done

definition point_post :: "'w qw \<Rightarrow> journal \<Rightarrow> commit_state \<Rightarrow> 'w qw \<Rightarrow> bool" where
  "point_post w j c s \<longleftrightarrow>
     (case c of
        NotCommitted _ \<Rightarrow> quiet w s
      | _ \<Rightarrow> silent w s \<and> q_image s = q_image w \<and>
          (q_jour s = JFile (j\<lparr>jn_version := journal_version\<rparr>) \<or> q_jour s = q_jour w \<and> (c = Committed \<longrightarrow> is_saved (q_jour w))))"

lemma commit_point_spec:
  assumes "jn_phase j = saved"
  shows "hoare (\<lambda>s. s = w) (commit_point E j) (point_post w j)"
  unfolding commit_point_def
proof (rule hoare_bind [OF write_journal_outcome], rule hoare_option, goal_cases)
  case (1 e)
  then show ?case by (auto intro!: hoare_ret simp: point_post_def)
next
  case (2 e t)
  have point: "point_post w j (case r of ReadJournal cur \<Rightarrow> (if jn_phase cur = saving then NotCommitted t
                            else if jn_phase cur = saved then Committed else Unknown t) | _ \<Rightarrow> Unknown t) v"
    if pre: "quiet w s \<or> silent w s \<and> q_jour s = JFile (j\<lparr>jn_version := journal_version\<rparr>) \<and> q_image s = q_image w"
      and run: "run_state (read_journal E) s = (r, v)" for s r v
  proof -
    have sv: "quiet s v" and rj: "case r of ReadJournal cur \<Rightarrow> q_jour v = JFile cur | _ \<Rightarrow> True"
      using hoareD [OF read_journal_spec [of s E] _ run] by (auto split: jread.splits)
    then have eq: "q_jour v = q_jour s" "q_image v = q_image s" by (auto simp: quiet_def)
    show ?thesis
    proof (cases "quiet w s")
      case True
      then have "quiet w v" "silent w v" "q_jour s = q_jour w" "q_image s = q_image w"
        using sv qt.trans quiet_silent by (blast, blast intro: qt.trans, auto simp: quiet_def)
      with eq rj show ?thesis by (cases r; cases "q_jour w") (auto simp: point_post_def is_saved_def saved_def saving_def)
    next
      case False
      with pre sv have "silent w v" using quiet_silent si.trans by blast
      with False pre eq rj assms show ?thesis by (cases r) (auto simp: point_post_def saved_def saving_def)
    qed
  qed
  show ?case by (rule hoare_then_ret, rule point) (auto simp: 2)
qed

text \<open>How a commit may end: rolled back (or refused), or with the saved pair in place.\<close>

definition commit_outcome :: "'w qw \<Rightarrow> qerr option \<Rightarrow> 'w qw \<Rightarrow> bool" where
  "commit_outcome w r s \<longleftrightarrow>
     calm w s \<and> gentle w s \<and> r \<noteq> None \<or>
     silent w s \<and> (r = None \<or> (\<exists>t. r = Some (EPlain t))) \<and>
     (saved_pair s \<or> r \<noteq> None \<and> q_jour s = q_jour w \<and> gentle w s)"

lemma hoare_return_shape: "(\<And>s x t. run_state m s = (x, t) \<Longrightarrow> Q x) \<Longrightarrow> hoare (\<lambda>_. True) m (\<lambda>x _. Q x)"
  by (auto simp: hoare_def)

lemma crashed_some: "hoare (\<lambda>_. True) (crashed E pid t) (\<lambda>r _. r \<noteq> None)"
  unfolding crashed_def
  by (rule hoare_bind [where R = "\<lambda>_ _. True"] | (rule hoare_ret, simp) | simp add: hoare_def)+

lemma some_ret: "hoare (\<lambda>_. True) (ret (Some x)) (\<lambda>r _. r \<noteq> None)"
  by (rule hoare_ret) simp

lemma true_bind: "(\<And>x. hoare (\<lambda>_. True) (f x) Q) \<Longrightarrow> hoare (\<lambda>_. True) (State_Monad.bind m f) Q"
  by (rule hoare_bind [where R = "\<lambda>_ _. True"]) (auto simp: hoare_def)

lemma rollback_some: "hoare (\<lambda>_. True) (rollback E pid c) (\<lambda>r _. r \<noteq> None)"
  unfolding rollback_def by (intro true_bind hoare_if hoare_option some_ret crashed_some)

lemma before_freeze_some: "hoare (\<lambda>_. True) (before_freeze E pid c) (\<lambda>r _. r \<noteq> None)"
  unfolding before_freeze_def by (intro true_bind hoare_if some_ret crashed_some)

lemma commit_setup_some: "hoare (\<lambda>_. True) (commit_setup E ab pid) (\<lambda>x _. x \<noteq> Refused None)"
proof -
  have r: "hoare (\<lambda>_. True) m (\<lambda>r _. r \<noteq> None) \<Longrightarrow>
      hoare (\<lambda>_. True) (State_Monad.bind m (\<lambda>r. ret (Refused r))) (\<lambda>x _. x \<noteq> Refused None)" for m :: "('a, qerr option) qm"
    by (erule hoare_bind) (simp add: hoare_ret)
  show ?thesis
    unfolding commit_setup_def
    by (rule r rollback_some before_freeze_some hoare_option hoare_sum hoare_if true_bind | (rule hoare_ret, simp))+
qed

lemma rollback_outcome:
  assumes "calm w s" "gentle w s" and run: "run_state (rollback E pid c) s = (r, t)"
  shows "commit_outcome w r t"
  using assms keepsD [OF steady_rollback run] keepsD [OF gentle_rollback run] hoareD [OF rollback_some _ run]
  by (auto simp: commit_outcome_def intro: ca.trans ge.trans steady_calm)

definition end_post :: "'w qw \<Rightarrow> journal \<Rightarrow> qerr option \<Rightarrow> 'w qw \<Rightarrow> bool" where
  "end_post w j r s \<longleftrightarrow>
     silent w s \<and> (r = None \<or> (\<exists>t. r = Some (EPlain t))) \<and> q_image s = q_image w \<and>
     (q_jour s = q_jour w \<or> (\<exists>f. q_jour s = JFile (j\<lparr>jn_fingerprints := f, jn_version := journal_version\<rparr>)))"

lemma end_post_quiet: "quiet w s \<Longrightarrow> r = None \<or> (\<exists>t. r = Some (EPlain t)) \<Longrightarrow> end_post w j r s"
  by (simp add: end_post_def quiet_silent) (simp add: quiet_def)

lemma end_write:
  "hoare (quiet w) (write_journal E (j\<lparr>jn_fingerprints := Some f\<rparr>)) (\<lambda>_. end_post w j None)"
proof (rule hoareI)
  fix s e t
  assume qs: "quiet w s" and run: "run_state (write_journal E (j\<lparr>jn_fingerprints := Some f\<rparr>)) s = (e, t)"
  have "quiet s t \<or> silent s t \<and> q_jour t = JFile (j\<lparr>jn_fingerprints := Some f, jn_version := journal_version\<rparr>) \<and> q_image t = q_image s"
    using hoareD [OF write_journal_outcome _ run] by auto
  then show "end_post w j None t"
  proof
    assume "quiet s t"
    with qs have "quiet w t" by (rule qt.trans)
    then show ?thesis by (simp add: end_post_quiet)
  next
    assume *: "silent s t \<and> q_jour t = JFile (j\<lparr>jn_fingerprints := Some f, jn_version := journal_version\<rparr>) \<and> q_image t = q_image s"
    then have "silent w t" using quiet_silent [OF qs] si.trans by blast
    with * qs show ?thesis by (auto simp: end_post_def quiet_def)
  qed
qed

lemma commit_end_spec: "hoare (\<lambda>s. s = w) (commit_end E j pid) (end_post w j)"
proof -
  have last: "hoare (quiet w) (do {
       _ \<leftarrow> remove_all E [RPid, RQmp];
       fp \<leftarrow> env (qe_fingerprints E);
       _ \<leftarrow> (case fp of Inl _ \<Rightarrow> ret None | Inr f \<Rightarrow> write_journal E (j\<lparr>jn_fingerprints := Some f\<rparr>));
       ret None }) (end_post w j)"
    apply (rule hoare_bind [OF qt.step [OF quiet_remove_all]], simp)
    apply (rule hoare_bind [OF qt.step [OF qt.env]])
    apply (rule hoare_bind [where R = "\<lambda>_. end_post w j None"])
     apply (rule hoare_sum)
      apply (rule hoare_ret, simp add: end_post_quiet)
     apply (rule end_write)
    apply (rule hoare_ret, simp)
    done
  show ?thesis
    unfolding commit_end_def
    apply (rule hoare_pre [where P' = "quiet w"])
     apply (rule hoare_bind [OF qt.step [OF qt.env]])
     apply (rule hoare_bind [OF qt.step], intro quiet_rules)
     apply (rule hoare_bind [OF qt.step [OF quiet_end_process]])
     apply (rule hoare_if)
      apply (rule hoare_ret, simp add: end_post_quiet)
     apply (rule last)
    apply (simp add: qt.refl)
    done
qed

definition frozen_at :: "'w qw \<Rightarrow> 'w qw \<Rightarrow> bool" where
  "frozen_at w s \<longleftrightarrow> calm w s \<and> silent w s \<and> gentle w s"

lemma frozen_step: "frozen_at w s \<Longrightarrow> quiet s t \<Longrightarrow> gentle s t \<Longrightarrow> frozen_at w t"
  unfolding frozen_at_def by (meson ca.trans ge.trans quiet_calm quiet_silent si.trans)

lemma frozen_hoare: "keeps quiet m \<Longrightarrow> keeps gentle m \<Longrightarrow> hoare (frozen_at w) m (\<lambda>_. frozen_at w)"
  by (rule hoareI) (meson frozen_step keepsD)

lemma frozen_durable:
  "hoare (frozen_at w) (make_durable E n)
     (\<lambda>d s. frozen_at w s \<and> (case d of Inr sz \<Rightarrow> q_image s = Some (fst sz) \<and> n * 2 ^ 20 \<le> fst sz | Inl _ \<Rightarrow> True))"
proof (rule hoareI)
  fix s d t
  assume "frozen_at w s" and run: "run_state (make_durable E n) s = (d, t)"
  then have "frozen_at w t"
    using keepsD [OF calm_make_durable run] keepsD [OF silent_make_durable run] keepsD [OF gentle_make_durable run]
    unfolding frozen_at_def by (meson ca.trans ge.trans si.trans)
  with hoareD [OF make_durable_spec _ run]
  show "frozen_at w t \<and> (case d of Inr sz \<Rightarrow> q_image t = Some (fst sz) \<and> n * 2 ^ 20 \<le> fst sz | Inl _ \<Rightarrow> True)" by simp
qed

lemma frozen_rollback: "hoare (frozen_at w) (rollback E pid c) (commit_outcome w)"
  by (rule hoareI) (auto simp: frozen_at_def intro: rollback_outcome)

lemma frozen_crashed: "hoare (frozen_at w) (crashed E pid c) (commit_outcome w)"
proof (rule hoareI)
  fix s r t
  assume "frozen_at w s" and run: "run_state (crashed E pid c) s = (r, t)"
  have "frozen_at w t"
    by (rule frozen_step [OF \<open>frozen_at w s\<close> keepsD [OF quiet_crashed run] keepsD [OF gentle_crashed run]])
  moreover have "r \<noteq> None" by (rule hoareD [OF crashed_some _ run]) simp
  ultimately show "commit_outcome w r t" by (simp add: commit_outcome_def frozen_at_def)
qed

lemma saved_journal_pair:
  "0 < fst sz \<Longrightarrow> q_image s = Some (fst sz) \<Longrightarrow>
   q_jour s = JFile ((saved_journal j sz info now)\<lparr>jn_version := journal_version\<rparr>) \<or>
   (\<exists>f. q_jour s = JFile ((saved_journal j sz info now)\<lparr>jn_fingerprints := f, jn_version := journal_version\<rparr>)) \<Longrightarrow> saved_pair s"
  by (auto simp: saved_pair_def pair_ok_def valid_phase_def saved_journal_def)

lemma commit_point_outcome:
  assumes j: "q_jour w = JFile j" "jn_phase j = saving" and "0 < fst sz"
  shows "hoare (\<lambda>s. frozen_at w s \<and> q_image s = Some (fst sz))
    (do { c \<leftarrow> commit_point E (saved_journal j sz info now);
          case c of
            NotCommitted t \<Rightarrow> rollback E pid (EPlain t)
          | Unknown t \<Rightarrow> ret (Some (EPlain (''qemu: committing the suspend: '' @ t @ '' (the guest is left paused for recovery)'')))
          | Committed \<Rightarrow> commit_end E (saved_journal j sz info now) pid }) (commit_outcome w)"
  (is "hoare ?P (State_Monad.bind ?m ?f) ?Q")
proof (rule hoareI)
  let ?j = "saved_journal j sz info now"
  fix s r v
  assume pre: "?P s" and run: "run_state (State_Monad.bind ?m ?f) s = (r, v)"
  obtain c t where c: "run_state ?m s = (c, t)" by fastforce
  then have rest: "run_state (?f c) t = (r, v)" using run by (simp add: State_Monad.bind_def)
  have post: "point_post s ?j c t" by (rule hoareD [OF commit_point_spec _ c]) (simp_all add: saved_journal_def)
  have st: "gentle s t" by (rule keepsD [OF gentle_commit_point c])
  have js: "q_jour s = JFile j" using pre j by (simp add: frozen_at_def calm_def)
  have sil: "silent w s" and gen: "gentle w t" and img: "q_image s = Some (fst sz)"
    using pre st ge.trans by (auto simp: frozen_at_def)
  show "commit_outcome w r v"
  proof (cases c)
    case (NotCommitted e)
    then have "frozen_at w t" using pre post st by (auto simp: point_post_def intro: frozen_step)
    then show ?thesis using rest NotCommitted by (auto intro: hoareD [OF frozen_rollback])
  next
    case (Unknown e)
    then have "silent w t" "q_image t = Some (fst sz)" "r \<noteq> None" "\<exists>x. r = Some (EPlain x)" "v = t"
        "q_jour t = JFile (?j\<lparr>jn_version := journal_version\<rparr>) \<or> q_jour t = q_jour w"
      using post rest sil img js j si.trans by (auto simp: point_post_def State_Monad.return_def)
    then show ?thesis using gen saved_journal_pair [OF assms(3), of t] by (auto simp: commit_outcome_def)
  next
    case Committed
    with post js j have t: "silent s t" "q_image t = Some (fst sz)" "q_jour t = JFile (?j\<lparr>jn_version := journal_version\<rparr>)"
      by (auto simp: point_post_def img is_saved_def saving_def saved_def)
    have "run_state (commit_end E ?j pid) t = (r, v)" using rest Committed by simp
    then have "end_post t ?j r v" by (rule hoareD [OF commit_end_spec refl])
    with t sil have "silent w v" "r = None \<or> (\<exists>e. r = Some (EPlain e))" "saved_pair v"
      by (auto simp: end_post_def intro: si.trans saved_journal_pair [OF assms(3), of v])
    then show ?thesis by (simp add: commit_outcome_def)
  qed
qed

lemma commit_saved_outcome:
  assumes j: "q_jour w = JFile j" "jn_phase j = saving" and mem: "0 < hw_memoryMiB (jn_hw j)"
  shows "hoare (frozen_at w) (commit_saved E j pid info) (commit_outcome w)"
  unfolding commit_saved_def
proof (rule hoare_bind [OF frozen_durable], rule hoare_sum, goal_cases)
  case (1 d t)
  show ?case by (rule hoare_pre [OF frozen_rollback]) simp
next
  case (2 d sz)
  show ?case
  proof (cases "0 < fst sz")
    case True
    have e: "hoare (\<lambda>s. frozen_at w s \<and> q_image s = Some (fst sz)) (env (qe_now E)) (\<lambda>_ s. frozen_at w s \<and> q_image s = Some (fst sz))"
      by (rule hoare_env) (auto intro: frozen_step [OF _ qt.move ge.move])
    show ?thesis
      apply (rule hoare_pre [where P' = "\<lambda>s. frozen_at w s \<and> q_image s = Some (fst sz)"])
       apply (rule hoare_bind [OF e])
       apply (rule commit_point_outcome [OF j True])
      apply (simp add: 2)
      done
  next
    case False
    moreover have "0 < hw_memoryMiB (jn_hw j) * 2 ^ 20" using mem by simp
    ultimately have "\<not> hw_memoryMiB (jn_hw j) * 2 ^ 20 \<le> fst sz" by linarith
    then show ?thesis by (simp add: 2 hoare_def)
  qed
qed

lemma commit_run_outcome:
  assumes j: "q_jour w = JFile j" "jn_phase j = saving" and mem: "0 < hw_memoryMiB (jn_hw j)"
  shows "hoare (\<lambda>s. s = w) (commit_run E ab j pid) (commit_outcome w)"
  unfolding commit_run_def
proof (rule hoare_bind [where R = "\<lambda>x s. (x = Frozen \<longrightarrow> frozen_at w s) \<and> (\<forall>r. x = Refused r \<longrightarrow> commit_outcome w r s)"], goal_cases)
  case 1
  show ?case
  proof (rule hoareI)
    fix s x t
    assume "s = w" and run: "run_state (commit_setup E ab pid) s = (x, t)"
    then have "calm w t" "gentle w t" "x \<noteq> Refused None" "x = Frozen \<longrightarrow> quiet w t"
      using keepsD [OF steady_commit_setup run] keepsD [OF gentle_setup run] hoareD [OF commit_setup_some _ run]
        hoareD [OF commit_setup_frozen _ run, of w] by (auto simp: steady_calm qt.refl)
    then show "(x = Frozen \<longrightarrow> frozen_at w t) \<and> (\<forall>r. x = Refused r \<longrightarrow> commit_outcome w r t)"
      by (auto simp: frozen_at_def commit_outcome_def quiet_silent)
  qed
next
  case (2 x)
  show ?case
  proof (cases x)
    case (Refused r)
    then show ?thesis by (simp add: hoare_ret)
  next
    case Frozen
    have "hoare (frozen_at w) (do {
         v \<leftarrow> commit_save E (hw_memoryMiB (jn_hw j)) pid;
         case v of
           SaveCrash t \<Rightarrow> crashed E pid t
         | SaveFail t \<Rightarrow> rollback E pid (EPlain t)
         | Completed info \<Rightarrow> commit_saved E j pid info }) (commit_outcome w)"
      by (rule hoare_bind [OF frozen_hoare [OF quiet_commit_save gentle_commit_save]])
        (auto split: save_end.split intro: frozen_crashed frozen_rollback commit_saved_outcome [OF assms])
    then show ?thesis by (auto simp: Frozen intro: hoare_pre)
  qed
qed

lemma frozen_refl: "frozen_at w w"
  by (simp add: frozen_at_def ca.refl si.refl ge.refl)

lemma frozen_read:
  "hoare (\<lambda>s. s = w) (read_journal E)
     (\<lambda>r s. frozen_at w s \<and> (case r of ReadJournal j \<Rightarrow> q_jour w = JFile j | _ \<Rightarrow> True))"
proof (rule hoareI)
  fix s r t
  assume "s = w" and run: "run_state (read_journal E) s = (r, t)"
  then have "frozen_at w t"
    using frozen_step [OF frozen_refl keepsD [OF quiet_read_journal run] keepsD [OF gentle_read_journal run]] by simp
  moreover have "quiet w t" "case r of ReadJournal j \<Rightarrow> q_jour t = JFile j | _ \<Rightarrow> True"
    using hoareD [OF read_journal_spec [of w E] _ run] \<open>s = w\<close> by (auto split: jread.splits)
  ultimately show "frozen_at w t \<and> (case r of ReadJournal j \<Rightarrow> q_jour w = JFile j | _ \<Rightarrow> True)"
    by (auto simp: quiet_def split: jread.splits)
qed

lemma frozen_some: "hoare (frozen_at w) (ret (Some e)) (commit_outcome w)"
  by (rule hoare_ret) (simp add: commit_outcome_def frozen_at_def)

lemma outcome_trans: "frozen_at w s \<Longrightarrow> q_jour s = q_jour w \<Longrightarrow> commit_outcome s r t \<Longrightarrow> commit_outcome w r t"
  unfolding commit_outcome_def frozen_at_def by (metis ca.trans ge.trans si.trans)

lemma commit_run_frozen:
  assumes j: "q_jour w = JFile j" "jn_phase j = saving" and mem: "0 < hw_memoryMiB (jn_hw j)"
  shows "hoare (frozen_at w) (commit_run E ab j pid) (commit_outcome w)"
proof (rule hoareI)
  fix s r t
  assume f: "frozen_at w s" and run: "run_state (commit_run E ab j pid) s = (r, t)"
  then have js: "q_jour s = q_jour w" by (simp add: frozen_at_def calm_def)
  then have "commit_outcome s r t"
    by (intro hoareD [OF commit_run_outcome refl run]) (simp_all add: assms)
  with f js show "commit_outcome w r t" by (rule outcome_trans)
qed

lemma commit_suspend_outcome:
  assumes mem: "case q_jour w of JFile j \<Rightarrow> 0 < hw_memoryMiB (jn_hw j) | _ \<Rightarrow> True"
  shows "hoare (\<lambda>s. s = w) (commit_suspend E m ab) (commit_outcome w)"
proof (cases "mc_dir m = []")
  case True
  then show ?thesis unfolding commit_suspend_def by (auto intro: hoare_pre [OF frozen_some] simp: frozen_refl)
next
  case False
  have run: "hoare (frozen_at w) (do {
      f \<leftarrow> env (qe_pidfile E);
      case f of
        PidMissing \<Rightarrow> crashed E 0 ''file does not exist''
      | PidBad t \<Rightarrow> crashed E 0 t
      | PidIs pid \<Rightarrow> do {
          a \<leftarrow> env (qe_ours E pid);
          if \<not> a then crashed E pid (''pid '' @ itoa pid @ '' is not this machine's QEMU'') else commit_run E ab j pid } })
      (commit_outcome w)" if "q_jour w = JFile j" "jn_phase j = saving" for j
    using that mem
    by (intro hoare_bind [OF frozen_hoare [OF qt.env ge.env]] hoare_pidfile hoare_if frozen_crashed commit_run_frozen) auto
  show ?thesis
    unfolding commit_suspend_def if_not_P [OF False]
    apply (rule hoare_bind [OF frozen_read], rule hoare_jread)
       apply (rule hoare_pre [OF frozen_some], simp)+
    subgoal for r j
      apply (rule hoare_pre [where P' = "\<lambda>s. frozen_at w s \<and> q_jour w = JFile j"])
       apply (rule hoare_pure, rule hoare_if, rule frozen_some, rule run, assumption, simp)
      apply simp
      done
    done
qed

section \<open>The commit's theorems\<close>

definition unsaved :: "'w qw \<Rightarrow> bool" where
  "unsaved w \<longleftrightarrow> \<not> is_saved (q_jour w) \<and> (\<forall>f \<in> set (q_disk w). \<not> is_saved f)"

definition sized :: "'w qw \<Rightarrow> bool" where
  "sized w \<longleftrightarrow> (case q_jour w of JFile j \<Rightarrow> 0 < hw_memoryMiB (jn_hw j) | _ \<Rightarrow> True)"

text \<open>No \<^verbatim>\<open>cont\<close> of a log saw a saved journal, in the directory or on the disk.\<close>

definition conts_unsaved :: "qevent list \<Rightarrow> bool" where
  "conts_unsaved es \<longleftrightarrow> (\<forall>j d. LCont j d \<in> set es \<longrightarrow> \<not> is_saved j \<and> (\<forall>f \<in> set d. \<not> is_saved f))"

lemma silent_conts: "silent w s \<Longrightarrow> \<exists>es. grown w s es \<and> conts_unsaved es \<and> \<not> (\<exists>e \<in> set es. is_cont e)"
  by (fastforce simp: silent_def conts_unsaved_def is_cont_iff)

lemma calm_conts: "calm w s \<Longrightarrow> unsaved w \<Longrightarrow> \<exists>es. grown w s es \<and> conts_unsaved es \<and> q_jour s = q_jour w"
  by (fastforce simp: calm_def conts_unsaved_def unsaved_def calm_event_def)

lemma outcome_conts:
  assumes "commit_outcome w r s" "unsaved w"
  shows "\<exists>es. grown w s es \<and> conts_unsaved es \<and> ((\<exists>e \<in> set es. is_cont e) \<longrightarrow> q_jour s = q_jour w)"
  using assms(1) unfolding commit_outcome_def
proof (elim disjE conjE)
  assume "calm w s" with calm_conts [OF this assms(2)] show ?thesis by blast
qed (use silent_conts in blast)+

lemma outcome_result:
  assumes "commit_outcome w r s"
  shows "case r of None \<Rightarrow> saved_pair s | Some (EPlain _) \<Rightarrow> q_jour s = q_jour w \<or> saved_pair s | Some _ \<Rightarrow> q_jour s = q_jour w"
  using assms unfolding commit_outcome_def calm_def by (cases r) (auto split: qerr.splits)

lemma outcome_ends:
  assumes "commit_outcome w r s"
  shows "\<exists>es. grown w s es \<and> ((\<exists>e \<in> set es. ends_process e) \<longrightarrow> saved_pair s)"
  using assms unfolding commit_outcome_def gentle_def silent_def by blast

lemma run_hoare: "hoare (\<lambda>s. s = w) m Q \<Longrightarrow> (\<And>x s. Q x s \<Longrightarrow> R x s) \<Longrightarrow> case run_state m w of (x, s) \<Rightarrow> R x s"
  by (auto simp: hoare_def)

text \<open>C3 (safety): a commit never continues a guest whose state is (or could come back) saved. Starting with no
  saved journal in the directory or on the disk, every \<^verbatim>\<open>cont\<close> of \<^verbatim>\<open>CommitSuspend\<close>, on every
  path (a refused, failed, timed out or interrupted save, a journal write that fails half way, a QMP session that breaks),
  is sent while no saved journal exists and none could survive a power cut; and when one was sent, the journal
  at the end is the one the commit started with: it either commits or continues the guest, never both.\<close>

theorem commit_or_continue:
  assumes "unsaved w" "sized w"
  shows "case run_state (commit_suspend E m ab) w of (r, w') \<Rightarrow>
    \<exists>es. q_log w' = q_log w @ es \<and> conts_unsaved es \<and> ((\<exists>e \<in> set es. is_cont e) \<longrightarrow> q_jour w' = q_jour w)"
  by (rule run_hoare [OF commit_suspend_outcome]) (use assms outcome_conts in \<open>auto simp: sized_def grown_def\<close>)

text \<open>Fact (functional): what the result of a commit says. Success means a saved journal whose image has
  exactly the committed size; a refusal, an abort or a dead QEMU leaves the journal as it was; and whatever plain error
  is reported, the journal is either unchanged or the complete saved pair, so a half-made commit is impossible.\<close>

theorem commit_result:
  assumes "sized w"
  shows "case run_state (commit_suspend E m ab) w of (r, w') \<Rightarrow>
    case r of None \<Rightarrow> saved_pair w' | Some (EPlain _) \<Rightarrow> q_jour w' = q_jour w \<or> saved_pair w' | Some _ \<Rightarrow> q_jour w' = q_jour w"
  by (rule run_hoare [OF commit_suspend_outcome]) (use assms outcome_result in \<open>auto simp: sized_def\<close>)

text \<open>Fact (safety): QEMU is never told to quit, terminated or killed by a commit unless the saved pair is in
  place at the end.\<close>

theorem commit_ends_only_saved:
  assumes "sized w"
  shows "case run_state (commit_suspend E m ab) w of (r, w') \<Rightarrow>
    \<exists>es. q_log w' = q_log w @ es \<and> ((\<exists>e \<in> set es. ends_process e) \<longrightarrow> saved_pair w')"
  by (rule run_hoare [OF commit_suspend_outcome]) (use assms outcome_ends in \<open>auto simp: sized_def grown_def\<close>)

section \<open>Preparing, cancelling, discarding\<close>

lemma pin_versioned: "pin_machine_type al argv = Inr t \<Longrightarrow> versioned_machine_type t"
  by (auto simp: pin_machine_type_def split: sum.splits if_splits)

lemma quiet_suspendable: "keeps quiet (suspendable E m)"
  unfolding suspendable_def by (intro quiet_rules)

lemma quiet_prepare_checks: "keeps quiet (prepare_checks E argv)"
  unfolding prepare_checks_def pin_type_def by (intro quiet_rules)

lemma prepare_checks_versioned:
  "hoare (\<lambda>_. True) (prepare_checks E argv) (\<lambda>r _. case r of Inr (mt, _, pinned) \<Rightarrow> versioned_machine_type mt \<and> with_machine_type argv mt = Inr pinned | Inl _ \<Rightarrow> True)"
  (is "hoare ?P _ ?Q")
proof -
  have inl: "hoare ?P (ret (Inl e)) ?Q" for e by (rule hoare_ret) simp
  have pin: "hoare ?P (pin_type E argv) (\<lambda>t _. case t of Inr mt \<Rightarrow> versioned_machine_type mt | Inl _ \<Rightarrow> True)"
    unfolding pin_type_def by (auto simp: hoare_def env_def pin_versioned split: sum.splits)
  have last: "hoare ?P (do {
      i \<leftarrow> env (qe_migration E);
      case i of
        Inl e \<Rightarrow> ret (Inl (merr_text e))
      | Inr info \<Rightarrow> (if migration_active (mi_status info) then ret (Inl (''a migration is already '' @ mi_status info))
                     else ret (case with_machine_type argv mt of Inl e \<Rightarrow> Inl e | Inr pinned \<Rightarrow> Inr (mt, ver, pinned))) }) ?Q"
    if "versioned_machine_type mt" for mt ver
    using that by (intro true_bind hoare_sum hoare_if inl) (auto intro!: hoare_ret split: sum.splits)
  have ver: "hoare ?P (do {
      t \<leftarrow> pin_type E argv;
      case t of
        Inl e \<Rightarrow> ret (Inl e)
      | Inr mt \<Rightarrow> do {
          i \<leftarrow> env (qe_migration E);
          case i of
            Inl e \<Rightarrow> ret (Inl (merr_text e))
          | Inr info \<Rightarrow> (if migration_active (mi_status info) then ret (Inl (''a migration is already '' @ mi_status info))
                     else ret (case with_machine_type argv mt of Inl e \<Rightarrow> Inl e | Inr pinned \<Rightarrow> Inr (mt, ver, pinned))) } }) ?Q" for ver
  proof (rule hoare_bind [OF pin], rule hoare_sum, goal_cases)
    case (1 t e)
    show ?case by (rule hoare_pre [OF inl]) simp
  next
    case (2 t mt)
    show ?case
    proof (cases "versioned_machine_type mt")
      case True
      show ?thesis by (rule hoare_pre [OF last [OF True]]) simp
    next
      case False
      with 2 show ?thesis by (simp add: hoare_def)
    qed
  qed
  show ?thesis
    unfolding prepare_checks_def by (intro true_bind hoare_sum hoare_if hoare_option inl ver)
qed

text \<open>A journal as \<^verbatim>\<open>PrepareSuspend\<close> writes it.\<close>

definition prepared :: "machine \<Rightarrow> journal \<Rightarrow> bool" where
  "prepared m j \<longleftrightarrow> valid_phase j \<and> jn_phase j = saving \<and> jn_hw j = hardware_of m \<and> versioned_machine_type (jn_machineType j) \<and>
     (\<exists>argv. with_machine_type argv (jn_machineType j) = Inr (jn_argv j) \<and> hd argv = jn_qemuBinary j)"

definition prepare_post :: "machine \<Rightarrow> 'w qw \<Rightarrow> qerr option \<Rightarrow> 'w qw \<Rightarrow> bool" where
  "prepare_post m w r s \<longleftrightarrow> silent w s \<and>
     (quiet w s \<and> r \<noteq> None \<or> (\<exists>j. q_jour s = JFile j \<and> prepared m j \<and> (r = None \<longrightarrow> q_disk s = [JFile j])))"

lemma prepare_fail: "hoare (quiet w) (unavailable t) (prepare_post m w)"
  unfolding unavailable_def by (rule hoare_ret) (simp add: prepare_post_def quiet_silent)

lemma prepare_write:
  assumes "versioned_machine_type mt" "with_machine_type (x # xs) mt = Inr pinned"
  shows "hoare (quiet w) (do { e \<leftarrow> write_journal E (new_journal m pl (x # xs) pinned mt ver pid now); ret (map_option EPlain e) }) (prepare_post m w)"
proof (rule hoare_then_ret)
  let ?j = "new_journal m pl (x # xs) pinned mt ver pid now"
  fix s e t
  assume q: "quiet w s" and run: "run_state (write_journal E ?j) s = (e, t)"
  have p: "prepared m (?j\<lparr>jn_version := journal_version\<rparr>)"
    using assms by (auto simp: prepared_def new_journal_def valid_phase_def intro: exI [of _ "x # xs"])
  show "prepare_post m w (map_option EPlain e) t"
  proof (cases "e \<noteq> None \<and> quiet s t")
    case True
    then have "quiet w t" using q qt.trans by blast
    with True show ?thesis by (auto simp: prepare_post_def quiet_silent)
  next
    case False
    with hoareD [OF write_journal_outcome refl run] have "silent s t" "q_jour t = JFile (?j\<lparr>jn_version := journal_version\<rparr>)" by auto
    moreover have "e = None \<longrightarrow> q_disk t = [JFile (?j\<lparr>jn_version := journal_version\<rparr>)]"
      using hoareD [OF write_journal_spec refl run] by (auto simp: Let_def)
    ultimately show ?thesis using p q si.trans quiet_silent unfolding prepare_post_def by (metis option.map_disc_iff)
  qed
qed

lemma prepare_session:
  "hoare (quiet w) (do {
     c \<leftarrow> prepare_checks E (x # xs);
     case c of
       Inl e \<Rightarrow> unavailable e
     | Inr r \<Rightarrow> do {
         pid \<leftarrow> env (qe_getpid E);
         now \<leftarrow> env (qe_now E);
         e \<leftarrow> write_journal E (case r of (mt, ver, pinned) \<Rightarrow> new_journal m pl (x # xs) pinned mt ver pid now);
         ret (map_option EPlain e) } }) (prepare_post m w)"
proof (rule hoare_bind [where R = "\<lambda>c s. quiet w s \<and> (case c of Inr (mt, _, pinned) \<Rightarrow> versioned_machine_type mt \<and> with_machine_type (x # xs) mt = Inr pinned | Inl _ \<Rightarrow> True)"], goal_cases)
  case 1
  show ?case
    by (rule hoareI) (use keepsD [OF quiet_prepare_checks] hoareD [OF prepare_checks_versioned] qt.trans in blast)
next
  case (2 c)
  show ?case
  proof (cases c)
    case (Inl e)
    then show ?thesis by (auto intro: hoare_pre [OF prepare_fail])
  next
    case (Inr r)
    obtain mt ver pinned where r: "r = (mt, ver, pinned)" by (cases r) auto
    have "hoare (quiet w) (do {
         pid \<leftarrow> env (qe_getpid E);
         now \<leftarrow> env (qe_now E);
         e \<leftarrow> write_journal E (new_journal m pl (x # xs) pinned mt ver pid now);
         ret (map_option EPlain e) }) (prepare_post m w)"
      if "versioned_machine_type mt \<and> with_machine_type (x # xs) mt = Inr pinned"
      using that by (intro hoare_bind [OF qt.step [OF qt.env]] prepare_write) auto
    then show ?thesis by (auto simp: Inr r hoare_def)
  qed
qed

lemma prepare_spec: "hoare (\<lambda>s. s = w) (prepare_suspend E m pl) (prepare_post m w)"
proof (rule hoare_pre [where P' = "quiet w"])
  show "hoare (quiet w) (prepare_suspend E m pl) (prepare_post m w)"
    unfolding prepare_suspend_def
    by (rule hoare_bind [OF qt.step [OF quiet_suspendable]] hoare_bind [OF qt.step [OF quiet_q_state]]
          hoare_bind [OF qt.step [OF qt.env]] hoare_bind [OF qt.step [OF qt.reads]] hoare_if hoare_sum hoare_option prepare_fail prepare_session
        | (rule hoare_ret, simp add: prepare_post_def quiet_silent; fail)
        | split list.split, intro conjI impI allI)+
qed (simp add: qt.refl)

text \<open>Fact (functional): \<^verbatim>\<open>PrepareSuspend\<close> leaves the guest alone: it continues no guest, and either nothing jm owns changed
  and an error says why, or the journal is a fresh \<^verbatim>\<open>saving\<close> one for this machine's hardware whose argv is pinned to a versioned
  machine type; on success it is the only journal a power cut can leave.\<close>

theorem prepare_result:
  "case run_state (prepare_suspend E m pl) w of (r, w') \<Rightarrow>
     (\<exists>es. q_log w' = q_log w @ es \<and> (\<forall>e \<in> set es. \<not> is_cont e)) \<and>
     (q_jour w' = q_jour w \<and> q_disk w' = q_disk w \<and> q_image w' = q_image w \<and> r \<noteq> None \<or>
      (\<exists>j. q_jour w' = JFile j \<and> prepared m j \<and> (if r = None then q_disk w' = [JFile j] else True)))"
  by (rule run_hoare [OF prepare_spec]) (auto simp: prepare_post_def silent_def quiet_def grown_def)

lemma cancel_first: "hoare (\<lambda>s. s = w) (cancel_suspend E m) (\<lambda>_ s. journal_first w s \<and> (saved_pair w \<longrightarrow> same_pair w s))"
proof (rule hoare_pre [where P' = "same_pair w"])
  have d: "hoare (same_pair w) (do { e \<leftarrow> discard_journal_then_image E; ret (map_option EPlain e) })
      (\<lambda>_ s. journal_first w s \<and> (saved_pair w \<longrightarrow> same_pair w s))" if "\<not> saved_pair w"
    using that by (intro hoare_bind [OF discard_first] hoare_ret) auto
  have r: "hoare (same_pair w) (ret x) (\<lambda>_ s. journal_first w s \<and> (saved_pair w \<longrightarrow> same_pair w s))" for x :: "qerr option"
    by (rule hoare_ret) (simp add: same_journal_first)
  show "hoare (same_pair w) (cancel_suspend E m) (\<lambda>_ s. journal_first w s \<and> (saved_pair w \<longrightarrow> same_pair w s))"
    unfolding cancel_suspend_def
  proof (intro hoare_if r, rule hoare_bind [OF read_journal_pair], rule hoare_jread, goal_cases)
    case (2 x t)
    show ?case
      by (rule hoare_pre [where P' = "\<lambda>s. same_pair w s \<and> \<not> saved_pair w"], rule hoare_pure, erule d) (simp add: 2)
  next
    case (4 x j)
    have "hoare (same_pair w) (if jn_phase j = saved
             then ret (Some (EPlain ''qemu: the suspend is already committed; resume or discard it''))
             else do { e \<leftarrow> discard_journal_then_image E; ret (map_option EPlain e) })
        (\<lambda>_ s. journal_first w s \<and> (saved_pair w \<longrightarrow> same_pair w s))" if "q_jour w = JFile j"
      using that by (intro hoare_if r d) (auto simp: saved_pair_def pair_ok_def)
    then have "hoare (\<lambda>s. same_pair w s \<and> q_jour w = JFile j) (if jn_phase j = saved
             then ret (Some (EPlain ''qemu: the suspend is already committed; resume or discard it''))
             else do { e \<leftarrow> discard_journal_then_image E; ret (map_option EPlain e) })
        (\<lambda>_ s. journal_first w s \<and> (saved_pair w \<longrightarrow> same_pair w s))" by (rule hoare_pure)
    then show ?case by (rule hoare_pre) (simp add: 4)
  qed (auto intro: hoare_pre [OF r])
qed (simp add: same_pair_def)

lemma discard_suspend_first:
  "hoare (\<lambda>s. s = w) (discard_suspend E m) (\<lambda>r s. journal_first w s \<and> (r = None \<longrightarrow> q_jour s = JNone \<and> q_disk s = [JNone]))"
  unfolding discard_suspend_def
  by (rule hoare_pre [where P' = "same_pair w"], intro hoare_if hoare_bind [OF discard_first] hoare_ret)
    (auto simp: same_journal_first same_pair_def)

text \<open>Fact (safety): no way of giving up a suspend leaves a journal that points at a missing image: after \<^verbatim>\<open>CancelSuspend\<close>,
  \<^verbatim>\<open>DiscardSuspend\<close> or \<^verbatim>\<open>Repair\<close>, if the image is not what it was then the journal is gone,
  and gone for good (no power cut brings it back), whatever failed on the way.\<close>

theorem journal_goes_first:
  assumes "q_jour w \<noteq> JNone"
    and "p \<in> {cancel_suspend E m, discard_suspend E m, repair E m}"
  shows "case run_state p w of (_, w') \<Rightarrow>
    (if q_image w' = q_image w then True else q_jour w' = JNone \<and> q_disk w' = [JNone]) \<and> (q_jour w' = q_jour w \<or> q_jour w' = JNone)"
proof -
  have "hoare (\<lambda>s. s = w) p (\<lambda>_. journal_first w)"
    using assms(2)
  proof (elim insertE emptyE)
    assume p: "p = cancel_suspend E m"
    show ?thesis unfolding p by (rule hoare_weaken [OF cancel_first]) blast+
  next
    assume p: "p = discard_suspend E m"
    show ?thesis unfolding p by (rule hoare_weaken [OF discard_suspend_first]) blast+
  next
    assume p: "p = repair E m"
    show ?thesis unfolding p by (rule hoare_weaken [OF repair_spec [of w]]) (auto simp: same_pair_def repaired_def)
  qed
  then show ?thesis by (rule run_hoare) (use assms(1) in \<open>auto simp: journal_first_def\<close>)
qed

lemma cancel_committed:
  assumes "saved_pair w"
  shows "hoare (\<lambda>s. s = w) (cancel_suspend E m) (\<lambda>r s. r \<noteq> None \<and> same_pair w s)"
proof (rule hoare_pre [where P' = "same_pair w"])
  have r: "hoare (same_pair w) (ret (Some x)) (\<lambda>r s. r \<noteq> None \<and> same_pair w s)" for x :: qerr
    by (rule hoare_ret) simp
  have pair: "\<exists>j. q_jour w = JFile j \<and> jn_phase j = saved" using assms by (auto simp: saved_pair_def pair_ok_def split: jfile.splits)
  show "hoare (same_pair w) (cancel_suspend E m) (\<lambda>r s. r \<noteq> None \<and> same_pair w s)"
    unfolding cancel_suspend_def
  proof (intro hoare_if r, rule hoare_bind [OF read_journal_pair], rule hoare_jread, goal_cases)
    case (1 x) then show ?case using pair by (auto simp: hoare_def)
  next
    case (2 x t) then show ?case using assms by (simp add: hoare_def)
  next
    case (3 x t) show ?case by (rule hoare_pre [OF r]) simp
  next
    case (4 x j)
    show ?case
    proof (cases "jn_phase j = saved")
      case True
      show ?thesis unfolding if_P [OF True] by (rule hoare_pre [OF r]) simp
    next
      case False
      then show ?thesis using pair by (auto simp: 4 hoare_def)
    qed
  qed
qed (simp add: same_pair_def)

text \<open>Fact (error): \<^verbatim>\<open>CancelSuspend\<close> refuses a committed suspend: it reports an error and the saved pair is not
  touched, whether or not its files can be read.\<close>

theorem cancel_refuses_committed:
  assumes "saved_pair w"
  shows "case run_state (cancel_suspend E m) w of (r, w') \<Rightarrow> r \<noteq> None \<and> q_jour w' = q_jour w \<and> q_image w' = q_image w"
  by (rule run_hoare [OF cancel_committed [OF assms]]) (simp add: same_pair_def)

section \<open>Witnesses\<close>

definition demo_saving :: "unit qw" where
  "demo_saving = demo_world (JFile (demo_journal saving 0)) None"

lemma demo_saving_unsaved: "unsaved demo_saving" "sized demo_saving"
  by (simp_all add: demo_saving_def unsaved_def sized_def is_saved_def demo_defs saving_def saved_def hardware_of_def)

theorem commit_or_continue_witness:
  "case run_state (commit_suspend demo_env demo_machine None) demo_saving of (r, w') \<Rightarrow>
    \<exists>es. q_log w' = es \<and> conts_unsaved es \<and> ((\<exists>e \<in> set es. is_cont e) \<longrightarrow> q_jour w' = q_jour demo_saving)"
  using commit_or_continue [OF demo_saving_unsaved, of demo_env demo_machine None] by (simp add: demo_saving_def demo_world_def)

theorem commit_result_witness:
  "case run_state (commit_suspend demo_env demo_machine None) demo_saving of (r, w') \<Rightarrow>
    case r of None \<Rightarrow> saved_pair w' | Some (EPlain _) \<Rightarrow> q_jour w' = q_jour demo_saving \<or> saved_pair w' | Some _ \<Rightarrow> q_jour w' = q_jour demo_saving"
  by (rule commit_result [OF demo_saving_unsaved(2)])

theorem commit_ends_only_saved_witness:
  "case run_state (commit_suspend demo_env demo_machine None) demo_saving of (r, w') \<Rightarrow>
    \<exists>es. q_log w' = es \<and> ((\<exists>e \<in> set es. ends_process e) \<longrightarrow> saved_pair w')"
  using commit_ends_only_saved [OF demo_saving_unsaved(2), of demo_env demo_machine None] by (simp add: demo_saving_def demo_world_def)

theorem journal_goes_first_witness:
  "case run_state (cancel_suspend demo_env demo_machine) demo_saving of (_, w') \<Rightarrow> q_jour w' = q_jour demo_saving \<or> q_jour w' = JNone"
  using journal_goes_first [of demo_saving "cancel_suspend demo_env demo_machine" demo_env demo_machine]
  by (auto simp: demo_saving_def demo_world_def split: prod.splits)

theorem cancel_refuses_committed_witness:
  "case run_state (cancel_suspend demo_env demo_machine) (demo_world (JFile (demo_journal saved 9)) (Some 9)) of
    (r, w') \<Rightarrow> r \<noteq> None \<and> q_image w' = Some 9"
  using cancel_refuses_committed [OF demo_saved_pair, of demo_env demo_machine] by (auto simp: demo_world_def split: prod.splits)

end
