(* ===== verification/Qemu_Resume.thy ===== *)
theory Qemu_Resume
  imports Qemu_Suspend
begin

text \<open>
  Waking (\<^verbatim>\<open>internal/backend/qemu/suspend.go\<close>: \<^verbatim>\<open>Resume\<close> and its helpers). The function is cut where its
  steps W0/W3, W3/W4 and W5 meet: \<open>resume_check\<close> validates from the files and prepares the
  argv, \<open>resume_load\<close> waits for the launched QEMU and loads the image, \<open>resume_run\<close> removes the journal and
  continues the guest. Copying \<^verbatim>\<open>qemu.log\<close> aside for a rejected load is left out. The theorems: a state is
  offered to QEMU only if it is a valid pair for this very hardware; a failure up to the load keeps the
  pair; the guest is continued only when the journal's removal is durable; and from the removal on no
  process is ended.
\<close>

section \<open>W0 and W3: the checks and the argv\<close>

definition incompatible :: "string \<Rightarrow> ('w, (qerr + 'a)) qm" where
  "incompatible t = ret (Inl (EIncompatible t))"

definition check_fingerprints :: "'w qenv \<Rightarrow> journal \<Rightarrow> ('w, string option) qm" where
  "check_fingerprints E j =
     (case jn_fingerprints j of
        None \<Rightarrow> ret None
      | Some fp \<Rightarrow> do {
          c \<leftarrow> env (qe_fingerprints E);
          ret (case c of
                 Inl t \<Rightarrow> Some t
               | Inr cur \<Rightarrow>
                   (if fp_disk cur \<noteq> fp_disk fp then Some ''disk.raw changed after the state was saved''
                    else if fp_efivars cur \<noteq> fp_efivars fp then Some ''efivars.fd changed after the state was saved''
                    else None)) })"

definition resume_argv :: "'w qenv \<Rightarrow> machine \<Rightarrow> journal \<Rightarrow> ('w, qerr + string list) qm" where
  "resume_argv E m j = do {
     fw \<leftarrow> env (qe_firmware E (hd (jn_argv j)));
     F \<leftarrow> env (qe_argv_fs E);
     case resolve_saved_argv F (jn_argv j) (mc_dir m) (case fw of Inl _ \<Rightarrow> [] | Inr d \<Rightarrow> d) of
       Inl t \<Rightarrow> ret (Inl (EPlain t))
     | Inr ra \<Rightarrow>
         (case incoming_argv (fst ra) (jn_machineType j) of
            Inl t \<Rightarrow> incompatible t
          | Inr argv \<Rightarrow> do {
              w \<leftarrow> env (qe_fs E FShareTable);
              case w of
                Some t \<Rightarrow> ret (Inl (EPlain t))
              | None \<Rightarrow> do {
                  r \<leftarrow> remove_all E [RPid, RQmp];
                  case r of
                    Some t \<Rightarrow> ret (Inl (EPlain (''qemu: removing stale runtime files: '' @ t)))
                  | None \<Rightarrow> do {
                      a \<leftarrow> env (qe_fs E FArgvWrite);
                      ret (case a of Some t \<Rightarrow> Inl (EPlain t) | None \<Rightarrow> Inr argv) } } }) }"

definition resume_validate :: "'w qenv \<Rightarrow> machine \<Rightarrow> journal \<Rightarrow> ('w, qerr + string list) qm" where
  "resume_validate E m j = do {
     v \<leftarrow> valid_image E j;
     if \<not> v then incompatible (''the saved image is missing or not '' @ itoa (jn_imageBytes j) @ '' bytes'')
     else if hardware_diff (hardware_of m) (jn_hw j) \<noteq> []
     then incompatible (''the machine record changed while suspended: '' @ hardware_diff (hardware_of m) (jn_hw j))
     else do {
       f \<leftarrow> check_fingerprints E j;
       case f of
         Some t \<Rightarrow> incompatible t
       | None \<Rightarrow>
           (if length (jn_argv j) < 2 \<or> jn_machineType j = [] then incompatible ''the journal has no hypervisor command line''
            else do {
              b \<leftarrow> env (qe_fs E (FBinary (hd (jn_argv j))));
              case b of
                Some t \<Rightarrow> ret (Inl (EPlain (''qemu: cannot resume: '' @ t)))
              | None \<Rightarrow> resume_argv E m j }) } }"

definition resume_check :: "'w qenv \<Rightarrow> machine \<Rightarrow> ('w, qerr + string list) qm" where
  "resume_check E m =
     (if mc_dir m = [] then ret (Inl ENoDir)
      else do {
        st \<leftarrow> q_state E m;
        case st of
          Inl e \<Rightarrow> ret (Inl e)
        | Inr b \<Rightarrow>
            (if b = Running then ret (Inl ERunning)
             else do {
               r \<leftarrow> read_journal E;
               case r of
                 ReadMissing \<Rightarrow> ret (Inl (EPlain (''qemu: machine is not suspended ('' @ bstate_text b @ '')'')))
               | ReadBad _ \<Rightarrow> ret (Inl (EPlain (''qemu: machine is not suspended ('' @ bstate_text b @ '')'')))
               | ReadIo _ \<Rightarrow> ret (Inl (EPlain (''qemu: machine is not suspended ('' @ bstate_text b @ '')'')))
               | ReadJournal j \<Rightarrow>
                   (if jn_phase j \<noteq> saved then ret (Inl (EPlain (''qemu: machine is not suspended ('' @ bstate_text b @ '')'')))
                    else resume_validate E m j) }) })"

section \<open>Failing a resume\<close>

definition resume_kill :: "'w qenv \<Rightarrow> int \<Rightarrow> ('w, bool) qm" where
  "resume_kill E pid = do {
     a \<leftarrow> env (qe_alive E pid);
     gone \<leftarrow> (if a then kill_and_wait E pid else ret True);
     if gone then do { _ \<leftarrow> remove_all E [RPid, RQmp]; ret True }
     else do {
       f \<leftarrow> env (qe_pidfile E);
       _ \<leftarrow> (if f = PidIs pid then ret None else env (qe_fs E (FPidWrite pid)));
       ret False } }"

definition survived :: "int \<Rightarrow> string \<Rightarrow> qerr" where
  "survived pid cause = EPlain (''qemu: resume: '' @ cause @ ''; QEMU (pid '' @ itoa pid @ '') did not exit after SIGKILL'')"

definition rejected :: "'w qenv \<Rightarrow> int \<Rightarrow> string \<Rightarrow> ('w, qerr option) qm" where
  "rejected E pid t = do { k \<leftarrow> resume_kill E pid; ret (Some (if k then EIncompatible t else survived pid t)) }"

definition transient :: "'w qenv \<Rightarrow> int \<Rightarrow> string \<Rightarrow> ('w, qerr option) qm" where
  "transient E pid t = do { k \<leftarrow> resume_kill E pid; ret (Some (if k then EPlain (''qemu: resume: '' @ t) else survived pid t)) }"

section \<open>W3 and W4: launch and load\<close>

definition incoming_ready :: "'w qenv \<Rightarrow> int \<Rightarrow> ('w, bool) qm" where
  "incoming_ready E pid = do {
     f \<leftarrow> env (qe_pidfile E);
     if f \<noteq> PidIs pid then ret False
     else do {
       d \<leftarrow> env (qe_dial E);
       case d of
         Some _ \<Rightarrow> ret False
       | None \<Rightarrow> do { s \<leftarrow> env (qe_status E); ret (s = Inr ''inmigrate'') } } }"

fun wait_incoming :: "'w qenv \<Rightarrow> int \<Rightarrow> nat \<Rightarrow> ('w, qerr option) qm" where
  "wait_incoming E pid n = do {
     a \<leftarrow> env (qe_alive E pid);
     if \<not> a then do {
       t \<leftarrow> env (qe_tail E);
       if contains (to_lower t) ''unsupported machine type'' then rejected E pid t
       else transient E pid (''exited during startup: '' @ t) }
     else do {
       r \<leftarrow> incoming_ready E pid;
       if r then ret None
       else do {
         p \<leftarrow> pause E (n = 0);
         case p of
           Late \<Rightarrow> do { t \<leftarrow> env (qe_tail E); transient E pid (''not waiting for the saved state: '' @ t) }
         | Cancelled t \<Rightarrow> transient E pid t
         | Again \<Rightarrow> (case n of 0 \<Rightarrow> ret None | Suc k \<Rightarrow> wait_incoming E pid k) } } }"

declare wait_incoming.simps [simp del]

definition load_failed :: "'w qenv \<Rightarrow> int \<Rightarrow> merr \<Rightarrow> bool \<Rightarrow> ('w, qerr option) qm" where
  "load_failed E pid e sent =
     (case e of
        Reply t \<Rightarrow> rejected E pid t
      | Session t \<Rightarrow> do {
          a \<leftarrow> (if sent then env (qe_alive E pid) else ret True);
          if \<not> a then do { l \<leftarrow> env (qe_tail E); rejected E pid (''QEMU exited while loading: '' @ t @ '': '' @ l) }
          else transient E pid t })"

text \<open>A monitor that stopped answering: \<open>None\<close> after a redial.\<close>

definition redial :: "'w qenv \<Rightarrow> int \<Rightarrow> ('w, qerr option) qm" where
  "redial E pid = do {
     a \<leftarrow> env (qe_alive E pid);
     if \<not> a then do { l \<leftarrow> env (qe_tail E); rejected E pid (''QEMU exited while loading: '' @ l) }
     else do {
       c \<leftarrow> env (qe_cancelled E);
       case c of
         Some t \<Rightarrow> transient E pid t
       | None \<Rightarrow> do {
           d \<leftarrow> env (qe_dial E);
           case d of
             None \<Rightarrow> ret None
           | Some e \<Rightarrow> do {
               g \<leftarrow> env (qe_wait E pid 500);
               if g then do { l \<leftarrow> env (qe_tail E); rejected E pid (''QEMU exited while loading: '' @ l) }
               else transient E pid (merr_text e) } } } }"

datatype load_look = Loaded | LoadRejected string | LoadBroken | Loading

definition load_status :: "'w qenv \<Rightarrow> ('w, load_look) qm" where
  "load_status E = do {
     s \<leftarrow> env (qe_status E);
     case s of
       Inl _ \<Rightarrow> ret LoadBroken
     | Inr st \<Rightarrow>
         (if st = ''paused'' \<or> st = ''running'' then ret Loaded
          else do {
            i \<leftarrow> env (qe_migration E);
            ret (case i of
                   Inl _ \<Rightarrow> LoadBroken
                 | Inr info \<Rightarrow> (if mi_status info = ''failed'' then LoadRejected (mi_error info) else Loading)) }) }"

fun wait_loaded :: "'w qenv \<Rightarrow> int \<Rightarrow> nat \<Rightarrow> ('w, qerr option) qm" where
  "wait_loaded E pid n = do {
     l \<leftarrow> load_status E;
     if l = Loaded then ret None
     else do {
       r \<leftarrow> (case l of LoadRejected t \<Rightarrow> rejected E pid (''the saved state was rejected: '' @ t)
             | LoadBroken \<Rightarrow> redial E pid | _ \<Rightarrow> ret None);
       case r of
         Some e \<Rightarrow> ret (Some e)
       | None \<Rightarrow> do {
           p \<leftarrow> pause E (n = 0);
           case p of
             Late \<Rightarrow> transient E pid ''the saved state did not load in time''
           | Cancelled t \<Rightarrow> transient E pid t
           | Again \<Rightarrow> (case n of 0 \<Rightarrow> ret None | Suc k \<Rightarrow> wait_loaded E pid k) } } }"

declare wait_loaded.simps [simp del]

definition resume_load :: "'w qenv \<Rightarrow> int \<Rightarrow> ('w, qerr option) qm" where
  "resume_load E pid = do {
     i \<leftarrow> wait_incoming E pid (polls launch_timeout status_poll);
     case i of
       Some e \<Rightarrow> ret (Some e)
     | None \<Rightarrow> do {
         s \<leftarrow> m_cmd E (CSetFileMigration 4);
         case s of
           Some e \<Rightarrow> load_failed E pid e False
         | None \<Rightarrow> do {
             g \<leftarrow> m_cmd E (CMigrateIncoming ''file:suspend.state'');
             case g of
               Some e \<Rightarrow> load_failed E pid e True
             | None \<Rightarrow> wait_loaded E pid (polls load_timeout status_poll) } } }"

section \<open>W5: invalidate, then run\<close>

fun sync_dir_retry :: "'w qenv \<Rightarrow> nat \<Rightarrow> string option \<Rightarrow> ('w, string option) qm" where
  "sync_dir_retry E 0 last_err = ret last_err"
| "sync_dir_retry E (Suc n) last_err = do {
     e \<leftarrow> sync_dir E;
     if e = None then ret None else sync_dir_retry E n e }"

text \<open>Once the journal is unlinked.\<close>

definition run_restored :: "'w qenv \<Rightarrow> ('w, qerr option) qm" where
  "run_restored E = do {
     s \<leftarrow> sync_dir_retry E 3 None;
     case s of
       Some t \<Rightarrow> ret (Some (EPlain (''qemu: making the suspend journal's removal durable: '' @ t)))
     | None \<Rightarrow> do {
         c \<leftarrow> cont_and_confirm E;
         case c of
           Some t \<Rightarrow> ret (Some (EPlain (''qemu: continuing the restored guest: '' @ t)))
         | None \<Rightarrow> do { _ \<leftarrow> remove_images E; ret None } } }"

definition resume_run :: "'w qenv \<Rightarrow> int \<Rightarrow> ('w, qerr option) qm" where
  "resume_run E pid = do {
     u \<leftarrow> unlink_journal E;
     case u of
       Some t \<Rightarrow> transient E pid (''removing the suspend journal before continuing: '' @ t)
     | None \<Rightarrow> run_restored E }"

definition resume_suspended :: "'w qenv \<Rightarrow> machine \<Rightarrow> ('w, qerr option) qm" where
  "resume_suspended E m = do {
     c \<leftarrow> resume_check E m;
     case c of
       Inl e \<Rightarrow> ret (Some e)
     | Inr argv \<Rightarrow> do {
         log_event (LLaunch argv);
         l \<leftarrow> env (qe_launch E argv);
         case l of
           Inl t \<Rightarrow> ret (Some (EPlain (''qemu: failed to start for the resume: '' @ t)))
         | Inr pid \<Rightarrow> do {
             r \<leftarrow> resume_load E pid;
             case r of Some e \<Rightarrow> ret (Some e) | None \<Rightarrow> resume_run E pid } } }"

section \<open>What the steps do\<close>

lemma hardware_diff_nil: "hardware_diff h want = [] \<longleftrightarrow> h = want"
proof -
  have ne: "itoa n \<noteq> []" for n
    by (auto simp: itoa_def)
  have tags: "length xs = length ys \<Longrightarrow> tags_diff xs ys = [] \<longleftrightarrow> xs = ys" for xs ys
    by (induction xs ys rule: tags_diff.induct) auto
  show ?thesis
    by (cases h; cases want) (auto simp: hardware_diff_def tags ne)
qed

lemma quiet_resume_kill: "keeps quiet (resume_kill E pid)"
  unfolding resume_kill_def by (intro quiet_rules) auto

lemma quiet_rejected: "keeps quiet (rejected E pid t)"
  unfolding rejected_def by (intro quiet_rules quiet_resume_kill)

lemma quiet_transient: "keeps quiet (transient E pid t)"
  unfolding transient_def by (intro quiet_rules quiet_resume_kill)

lemma quiet_incoming_ready: "keeps quiet (incoming_ready E pid)"
  unfolding incoming_ready_def by (intro quiet_rules)

lemma quiet_redial: "keeps quiet (redial E pid)"
  unfolding redial_def by (intro quiet_rules quiet_rejected quiet_transient)

lemma quiet_load_status: "keeps quiet (load_status E)"
  unfolding load_status_def by (intro quiet_rules)

lemma quiet_load_failed: "keeps quiet (load_failed E pid e b)"
  unfolding load_failed_def by (intro quiet_rules quiet_rejected quiet_transient)

lemma case_look: "(\<And>t. keeps R (a t)) \<Longrightarrow> keeps R b \<Longrightarrow> keeps R c \<Longrightarrow> keeps R d \<Longrightarrow>
   keeps R (case l of LoadRejected t \<Rightarrow> a t | LoadBroken \<Rightarrow> b | Loaded \<Rightarrow> c | Loading \<Rightarrow> d)"
  by (cases l) auto

lemma quiet_wait_incoming: "keeps quiet (wait_incoming E pid n)"
  by (induction n)
    (subst wait_incoming.simps, intro quiet_rules quiet_pause case_pause quiet_rejected quiet_transient quiet_incoming_ready; simp add: quiet_rules)+

lemma quiet_wait_loaded: "keeps quiet (wait_loaded E pid n)"
  by (induction n)
    (subst wait_loaded.simps, intro quiet_rules quiet_pause case_pause case_look quiet_rejected quiet_transient quiet_redial quiet_load_status; simp add: quiet_rules)+

lemma quiet_resume_load: "keeps quiet (resume_load E pid)"
  unfolding resume_load_def by (intro quiet_rules quiet_wait_incoming quiet_wait_loaded quiet_load_failed)

lemma quiet_check_fingerprints: "keeps quiet (check_fingerprints E j)"
  unfolding check_fingerprints_def by (intro quiet_rules)

lemma quiet_resume_argv: "keeps quiet (resume_argv E m j)"
  unfolding resume_argv_def incompatible_def by (intro quiet_rules) auto

lemma quiet_resume_validate: "keeps quiet (resume_validate E m j)"
  unfolding resume_validate_def incompatible_def by (intro quiet_rules quiet_check_fingerprints quiet_resume_argv)

lemma quiet_resume_check: "keeps quiet (resume_check E m)"
  unfolding resume_check_def by (intro quiet_rules quiet_q_state quiet_resume_validate)

section \<open>The checks\<close>

definition resumable :: "machine \<Rightarrow> 'w qw \<Rightarrow> string list \<Rightarrow> bool" where
  "resumable m w argv \<longleftrightarrow> saved_pair w \<and> (\<exists>j saved_argv. q_jour w = JFile j \<and> jn_hw j = hardware_of m \<and>
     incoming_argv saved_argv (jn_machineType j) = Inr argv)"

lemma inl_post: "hoare P (ret (Inl e)) (\<lambda>r s. case r of Inr argv \<Rightarrow> Q argv | Inl _ \<Rightarrow> True)"
  by (rule hoare_ret) simp

lemma resume_argv_spec:
  "hoare (\<lambda>_. True) (resume_argv E m j) (\<lambda>r _. case r of Inr argv \<Rightarrow> \<exists>sv. incoming_argv sv (jn_machineType j) = Inr argv | Inl _ \<Rightarrow> True)"
  unfolding resume_argv_def incompatible_def
  by (intro true_bind hoare_sum hoare_option inl_post) (auto intro!: hoare_ret split: option.splits)

lemma valid_image_pair:
  assumes "q_jour w = JFile j" "valid_phase j"
  shows "hoare (same_pair w) (valid_image E j) (\<lambda>v s. same_pair w s \<and> (v \<longrightarrow> saved_pair w))"
  unfolding valid_image_def
  by (rule hoare_bind [OF check_image_pair], rule hoare_ret)
    (use assms in \<open>auto simp: saved_pair_def pair_ok_def split: sum.splits\<close>)

lemma resume_validate_spec:
  assumes j: "q_jour w = JFile j" "valid_phase j"
  shows "hoare (same_pair w) (resume_validate E m j) (\<lambda>r _. case r of Inr argv \<Rightarrow> resumable m w argv | Inl _ \<Rightarrow> True)"
  unfolding resume_validate_def incompatible_def
proof (rule hoare_bind [OF valid_image_pair [OF j]], rule hoare_if, rule inl_post, rule hoare_if, rule inl_post, goal_cases)
  case (1 v)
  then have hw: "jn_hw j = hardware_of m" by (simp add: hardware_diff_nil)
  have last: "hoare (\<lambda>_. True) (resume_argv E m j) (\<lambda>r _. case r of Inr argv \<Rightarrow> resumable m w argv | Inl _ \<Rightarrow> True)" if "saved_pair w"
    by (rule hoare_weaken [OF resume_argv_spec]) (use that j hw in \<open>auto simp: resumable_def split: sum.splits\<close>)
  show ?case
  proof (cases "saved_pair w")
    case True
    show ?thesis
      by (rule hoare_pre [where P' = "\<lambda>_. True"], intro true_bind hoare_option hoare_if inl_post last True) simp
  next
    case False
    with 1 show ?thesis by (auto simp: hoare_def)
  qed
qed

lemma resume_check_spec:
  "hoare (\<lambda>s. s = w) (resume_check E m) (\<lambda>r s. quiet w s \<and> (case r of Inr argv \<Rightarrow> resumable m w argv | Inl _ \<Rightarrow> True))"
proof -
  have "hoare (same_pair w) (resume_check E m) (\<lambda>r _. case r of Inr argv \<Rightarrow> resumable m w argv | Inl _ \<Rightarrow> True)"
    unfolding resume_check_def
    apply (intro hoare_if inl_post hoare_bind [OF quiet_hoare [OF quiet_q_state]] hoare_sum)
    apply (rule hoare_bind [OF read_journal_pair], rule hoare_jread)
       apply (rule inl_post)+
    apply (rule hoare_if, rule inl_post)
    subgoal for st b r j
      by (rule hoare_pre [where P' = "\<lambda>s. same_pair w s \<and> (q_jour w = JFile j \<and> valid_phase j)"], rule hoare_pure)
        (auto intro: resume_validate_spec)
    done
  then show ?thesis
    by (auto simp: hoare_def same_pair_def dest: keepsD [OF quiet_resume_check] split: prod.splits)
qed

section \<open>The run\<close>

definition durably_gone :: "qevent list \<Rightarrow> bool" where
  "durably_gone es \<longleftrightarrow> (\<forall>j d. LCont j d \<in> set es \<longrightarrow> j = JNone \<and> d = [JNone])"

lemma sync_retry_spec:
  "hoare (\<lambda>s. q_jour s = JNone) (sync_dir_retry E n le)
     (\<lambda>r s. q_jour s = JNone \<and> (r = None \<longrightarrow> q_disk s = [JNone] \<or> n = 0 \<and> le = None))"
proof (induction n arbitrary: le)
  case 0
  then show ?case by (auto intro: hoare_ret)
next
  case (Suc n)
  show ?case
  proof (simp only: sync_dir_retry.simps, rule hoare_bind [where R = "\<lambda>e s. q_jour s = JNone \<and> (e = None \<longrightarrow> q_disk s = [JNone])"], goal_cases)
    case 1
    show ?case by (rule hoareI) (use hoareD [OF sync_dir_spec refl] in force)
  next
    case (2 e)
    show ?case
      by (rule hoare_if, rule hoare_ret, simp) (rule hoare_weaken [OF Suc.IH [of e]], simp_all, blast)
  qed
qed

lemma silent_sync_retry: "keeps silent (sync_dir_retry E n le)"
  by (induction n arbitrary: le) (auto intro!: silent_rules)

lemma gentle_sync_retry: "keeps gentle (sync_dir_retry E n le)"
  by (induction n arbitrary: le) (auto intro!: gentle_rules)

lemma gentle_run_restored: "keeps gentle (run_restored E)"
  unfolding run_restored_def cont_and_confirm_def by (intro gentle_rules gentle_sync_retry gentle_wait_status)

definition gone_post :: "'w qw \<Rightarrow> 'a option \<Rightarrow> 'w qw \<Rightarrow> bool" where
  "gone_post w r s \<longleftrightarrow> q_jour s = JNone \<and> (r = None \<longrightarrow> q_disk s = [JNone]) \<and> (\<exists>es. grown w s es \<and> durably_gone es)"

lemma silent_gone: "silent w s \<Longrightarrow> \<exists>es. grown w s es \<and> durably_gone es"
  by (fastforce simp: silent_def durably_gone_def is_cont_iff)

lemma gone_step:
  assumes "q_jour s = JNone" "q_disk s = [JNone]" "grown w s es" "durably_gone es" "steady s t"
  shows "gone_post w r t"
proof -
  obtain fs where "grown s t fs" "\<forall>e \<in> set fs. steady_event JNone [JNone] e" using assms by (auto simp: steady_def)
  then have "grown w t (es @ fs)" "durably_gone (es @ fs)"
    using assms(3, 4) grown_trans by (blast, fastforce simp: durably_gone_def steady_event_def)
  with assms show ?thesis by (auto simp: gone_post_def steady_def)
qed

definition settled :: "'w qw \<Rightarrow> 'w qw \<Rightarrow> bool" where
  "settled w s \<longleftrightarrow> q_jour s = JNone \<and> q_disk s = [JNone] \<and> (\<exists>es. grown w s es \<and> durably_gone es)"

lemma settled_step: "settled w s \<Longrightarrow> steady s t \<Longrightarrow> settled w t"
  using gone_step [of s w _ t None] unfolding settled_def gone_post_def by blast

lemma settled_keeps: "keeps steady m \<Longrightarrow> hoare (settled w) m (\<lambda>_. settled w)"
  by (rule hoareI) (meson keepsD settled_step)

lemma settled_ret: "hoare (settled w) (ret r) (gone_post w)"
  by (rule hoare_ret) (auto simp: settled_def gone_post_def)

lemma sync_retry_settled:
  "hoare (\<lambda>s. s = w \<and> q_jour s = JNone) (sync_dir_retry E 3 None) (\<lambda>r s. if r = None then settled w s else silent w s \<and> q_jour s = JNone)"
proof (rule hoareI)
  fix s r t
  assume "s = w \<and> q_jour s = JNone" and run: "run_state (sync_dir_retry E 3 None) s = (r, t)"
  then have "silent w t" "q_jour t = JNone" "r = None \<longrightarrow> q_disk t = [JNone]"
    using keepsD [OF silent_sync_retry run] hoareD [OF sync_retry_spec _ run] by auto
  then show "if r = None then settled w t else silent w t \<and> q_jour t = JNone"
    using silent_gone by (auto simp: settled_def)
qed

lemma run_restored_spec: "hoare (\<lambda>s. s = w \<and> q_jour s = JNone) (run_restored E) (gone_post w)"
  unfolding run_restored_def
proof (rule hoare_bind [OF sync_retry_settled], rule hoare_option, goal_cases)
  case (1 x)
  have "hoare (settled w) (do {
         c \<leftarrow> cont_and_confirm E;
         case c of
           Some t \<Rightarrow> ret (Some (EPlain (''qemu: continuing the restored guest: '' @ t)))
         | None \<Rightarrow> do { _ \<leftarrow> remove_images E; ret None } }) (gone_post w)"
    by (intro hoare_bind [OF settled_keeps [OF steady_cont_and_confirm]] hoare_bind [OF settled_keeps [OF steady_remove_images]]
        hoare_option settled_ret)
  then show ?case by (rule hoare_pre) (simp add: 1)
next
  case (2 x t)
  show ?case by (rule hoare_ret) (use 2 silent_gone in \<open>auto simp: gone_post_def\<close>)
qed

text \<open>How a wake may end: with everything as it was, or with the journal gone.\<close>

definition resume_post :: "'w qw \<Rightarrow> 'a option \<Rightarrow> 'w qw \<Rightarrow> bool" where
  "resume_post w r s \<longleftrightarrow> quiet w s \<and> r \<noteq> None \<or>
     q_jour s = JNone \<and> (r = None \<longrightarrow> q_disk s = [JNone]) \<and>
     (\<exists>es fs. grown w s (es @ fs) \<and> (\<forall>e \<in> set es. \<not> is_cont e \<and> \<not> file_event e) \<and> durably_gone fs \<and> (\<forall>e \<in> set fs. \<not> ends_process e))"

lemma transient_some: "hoare (\<lambda>_. True) (transient E pid t) (\<lambda>r _. r \<noteq> None)"
  unfolding transient_def by (intro true_bind hoare_ret) simp

lemma unlink_log:
  "hoare (\<lambda>s. s = w) (unlink_journal E) (\<lambda>e s. if e = None then q_jour s = JNone \<and> (\<exists>es. grown w s es \<and> set es \<subseteq> {LUnlink}) else quiet w s)"
  by (auto simp: unlink_journal_def hoare_def State_Monad.bind_def env_def reads_def modify_def State_Monad.return_def quiet_def grown_def
       split: prod.splits option.splits jfile.splits)

lemma resume_run_spec: "hoare (\<lambda>s. s = w) (resume_run E pid) (resume_post w)"
  unfolding resume_run_def
proof (rule hoare_bind [OF unlink_log], rule hoare_option, goal_cases)
  case (1 u)
  show ?case
  proof (rule hoareI)
    fix s r t
    assume s: "if u = None then q_jour s = JNone \<and> (\<exists>es. grown w s es \<and> set es \<subseteq> {LUnlink}) else quiet w s"
      and run: "run_state (run_restored E) s = (r, t)"
    from s 1 obtain es where es: "grown w s es" "set es \<subseteq> {LUnlink}" "q_jour s = JNone" by auto
    have g: "gone_post s r t" by (rule hoareD [OF run_restored_spec _ run]) (simp add: es)
    then obtain fs where fs: "grown s t fs" "durably_gone fs" by (auto simp: gone_post_def)
    moreover have "\<forall>e \<in> set fs. \<not> ends_process e"
      using keepsD [OF gentle_run_restored run] fs(1) by (auto simp: gentle_def grown_def)
    ultimately have "durably_gone (es @ fs)" "\<forall>e \<in> set (es @ fs). \<not> ends_process e" "grown w t ([] @ es @ fs)"
      using es grown_trans by (fastforce simp: durably_gone_def, auto, blast)
    with g show "resume_post w r t" unfolding resume_post_def gone_post_def by (metis empty_iff empty_set)
  qed
next
  case (2 u t)
  show ?case
  proof (rule hoareI)
    fix s r v
    assume "if u = None then q_jour s = JNone \<and> (\<exists>es. grown w s es \<and> set es \<subseteq> {LUnlink}) else quiet w s"
      and run: "run_state (transient E pid (''removing the suspend journal before continuing: '' @ t)) s = (r, v)"
    then have "quiet w v" using 2 keepsD [OF quiet_transient run] qt.trans by (metis option.distinct(1))
    with hoareD [OF transient_some _ run] show "resume_post w r v" by (simp add: resume_post_def)
  qed
qed

lemma resume_post_quiet: "quiet w s \<Longrightarrow> resume_post s r t \<Longrightarrow> resume_post w r t"
proof -
  assume q: "quiet w s" and p: "resume_post s r t"
  obtain ws where ws: "grown w s ws" "\<forall>e \<in> set ws. \<not> is_cont e \<and> \<not> file_event e" using q by (auto simp: quiet_def)
  show ?thesis
  proof (cases "quiet s t \<and> r \<noteq> None")
    case True
    then show ?thesis using q qt.trans unfolding resume_post_def by blast
  next
    case False
    with p obtain es fs where a: "q_jour t = JNone" "r = None \<longrightarrow> q_disk t = [JNone]" "grown s t (es @ fs)"
      "\<forall>e \<in> set es. \<not> is_cont e \<and> \<not> file_event e" "durably_gone fs" "\<forall>e \<in> set fs. \<not> ends_process e"
      unfolding resume_post_def by blast
    then have "grown w t ((ws @ es) @ fs)" "\<forall>e \<in> set (ws @ es). \<not> is_cont e \<and> \<not> file_event e"
      using ws grown_trans by (fastforce, auto)
    with a show ?thesis unfolding resume_post_def by blast
  qed
qed

lemma resume_spec: "hoare (\<lambda>s. s = w) (resume_suspended E m) (resume_post w)"
proof -
  have fail: "hoare (quiet w) (ret (Some e)) (resume_post w)" for e :: qerr
    by (rule hoare_ret) (simp add: resume_post_def)
  have run: "hoare (quiet w) (resume_run E pid) (resume_post w)" for pid
    by (rule hoareI) (metis hoareD [OF resume_run_spec refl] resume_post_quiet)
  have go: "hoare (quiet w) (do {
         log_event (LLaunch argv);
         l \<leftarrow> env (qe_launch E argv);
         case l of
           Inl t \<Rightarrow> ret (Some (EPlain (''qemu: failed to start for the resume: '' @ t)))
         | Inr pid \<Rightarrow> do {
             r \<leftarrow> resume_load E pid;
             case r of Some e \<Rightarrow> ret (Some e) | None \<Rightarrow> resume_run E pid } }) (resume_post w)" for argv
    by (intro hoare_bind [OF qt.step [OF quiet_log]] hoare_bind [OF qt.step [OF qt.env]] hoare_sum
          hoare_bind [OF qt.step [OF quiet_resume_load]] hoare_option fail run) simp_all
  show ?thesis
    unfolding resume_suspended_def
    apply (rule hoare_bind [OF resume_check_spec], rule hoare_sum)
     apply (rule hoare_pre [OF fail], simp)
    apply (rule hoare_pre [OF go], simp)
    done
qed

section \<open>The wake's theorems\<close>

text \<open>C22 (safety): a restored guest runs only once its saved state can never be loaded again: whatever the directory
  or the disk held, every \<^verbatim>\<open>cont\<close> of \<^verbatim>\<open>Resume\<close> is sent with the journal unlinked and that unlink durable, and the
  processes it ends are ended before the journal goes: after it no QEMU is killed.\<close>

theorem resume_order:
  "case run_state (resume_suspended E m) w of (r, w') \<Rightarrow>
    \<exists>es fs. q_log w' = q_log w @ es @ fs \<and> (\<forall>e \<in> set es. \<not> is_cont e \<and> \<not> file_event e) \<and>
      durably_gone fs \<and> (\<forall>e \<in> set fs. \<not> ends_process e)"
proof (rule run_hoare [OF resume_spec])
  fix r and s :: "'a qw"
  assume "resume_post w r s"
  then show "\<exists>es fs. q_log s = q_log w @ es @ fs \<and> (\<forall>e \<in> set es. \<not> is_cont e \<and> \<not> file_event e) \<and>
      durably_gone fs \<and> (\<forall>e \<in> set fs. \<not> ends_process e)"
    unfolding resume_post_def
  proof (elim disjE conjE exE)
    assume "quiet w s"
    then obtain es where "grown w s es" "\<forall>e \<in> set es. \<not> is_cont e \<and> \<not> file_event e" by (auto simp: quiet_def)
    then show ?thesis by (intro exI [of _ es] exI [of _ "[]"]) (simp add: grown_def durably_gone_def)
  qed (auto simp: grown_def)
qed

text \<open>Fact (error): a wake that fails keeps the machine suspended or has already consumed the saved state, never half of it:
  the journal, what a power cut could leave and the image are as they were, or the journal is gone; success
  means gone for good.\<close>

theorem resume_keeps_state:
  "case run_state (resume_suspended E m) w of (r, w') \<Rightarrow>
    (q_jour w' = q_jour w \<and> q_disk w' = q_disk w \<and> q_image w' = q_image w \<and> r \<noteq> None) \<or>
    (q_jour w' = JNone \<and> (if r = None then q_disk w' = [JNone] else True))"
  by (rule run_hoare [OF resume_spec]) (auto simp: resume_post_def quiet_def)

text \<open>Fact (safety): \<^verbatim>\<open>Resume\<close> hands a QEMU command line to the launcher only for a valid saved pair whose
  recorded hardware is exactly this machine's, and the line waits for the image (it is the result of
  \<^verbatim>\<open>IncomingArgv\<close>); and checking changes nothing.\<close>

theorem resume_launches_only_matching:
  "case run_state (resume_check E m) w of (r, w') \<Rightarrow>
    q_jour w' = q_jour w \<and> q_disk w' = q_disk w \<and> q_image w' = q_image w \<and>
    (case r of Inl _ \<Rightarrow> True
     | Inr argv \<Rightarrow> saved_pair w \<and> (\<exists>j sv. q_jour w = JFile j \<and> jn_hw j = hardware_of m \<and> incoming_argv sv (jn_machineType j) = Inr argv))"
  by (rule run_hoare [OF resume_check_spec]) (auto simp: quiet_def resumable_def split: sum.splits)

text \<open>Fact (equivalence): the difference text of two hardware records is empty exactly when they are equal, so
  \<^verbatim>\<open>diff\<close> is a decision procedure for "this record can still be restored".\<close>

theorem hardware_diff_decides: "hardware_diff h want = [] \<longleftrightarrow> h = want"
  by (rule hardware_diff_nil)

end
