(* ===== verification/Qemu_Recover.thy ===== *)
theory Qemu_Recover
  imports Qemu_Resume
begin

text \<open>
  Recovery of a suspend or resume that a killed process left half done
  (\<^verbatim>\<open>internal/backend/qemu/suspend.go\<close>: \<^verbatim>\<open>Recover\<close>, \<^verbatim>\<open>recoverSaved\<close>, \<^verbatim>\<open>recoverSaving\<close>,
  \<^verbatim>\<open>recoverIncoming\<close>, \<^verbatim>\<open>settledStatus\<close>). Log lines are left out. The theorems: no guest is continued while a saved
  journal is visible (nor, when none can come back, one that could come back); what the
  returned action says about the journal is true; and a guest that reports "running" is neither
  continued nor ended.
\<close>

datatype raction = RNone | RResumed | RSuspended | RDiscarded

definition qmp_timeout :: int where "qmp_timeout = 5000"

fun settled_status :: "'w qenv \<Rightarrow> nat \<Rightarrow> ('w, string + string) qm" where
  "settled_status E n = do {
     s \<leftarrow> env (qe_status E);
     case s of
       Inl e \<Rightarrow> ret (Inl (merr_text e))
     | Inr st \<Rightarrow>
         (if st \<noteq> ''finish-migrate'' then ret (Inr st)
          else do {
            p \<leftarrow> pause E (n = 0);
            case p of
              Late \<Rightarrow> ret (Inr st)
            | Cancelled t \<Rightarrow> ret (Inl t)
            | Again \<Rightarrow> (case n of 0 \<Rightarrow> ret (Inr st) | Suc k \<Rightarrow> settled_status E k) }) }"

declare settled_status.simps [simp del]

definition dial_status :: "'w qenv \<Rightarrow> ('w, string + string) qm" where
  "dial_status E = do {
     d \<leftarrow> env (qe_dial E);
     case d of
       Some e \<Rightarrow> ret (Inl (merr_text e))
     | None \<Rightarrow> settled_status E (polls qmp_timeout status_poll) }"

definition fail_plain :: "string \<Rightarrow> ('w, qerr + raction) qm" where
  "fail_plain t = ret (Inl (EPlain t))"

text \<open>A live QEMU with a committed journal: end it, whatever it was doing, unless its guest runs.\<close>

definition recover_end :: "'w qenv \<Rightarrow> journal \<Rightarrow> int \<Rightarrow> int \<Rightarrow> ('w, qerr + raction) qm" where
  "recover_end E j pid grace = do {
     g \<leftarrow> end_process_kill E pid grace;
     if \<not> g then fail_plain (''qemu: recovering a suspended machine: pid '' @ itoa pid @ '' did not exit after SIGKILL'')
     else do {
       e \<leftarrow> remove_all E [RPid, RQmp];
       case e of
         Some t \<Rightarrow> fail_plain t
       | None \<Rightarrow> do {
           fp \<leftarrow> (if jn_fingerprints j = None then env (qe_fingerprints E) else ret (Inl []));
           let j' = (case fp of Inl _ \<Rightarrow> j | Inr f \<Rightarrow> j\<lparr>jn_fingerprints := Some f\<rparr>);
           _ \<leftarrow> (case fp of Inl _ \<Rightarrow> ret None | Inr f \<Rightarrow> write_journal E j');
           r \<leftarrow> repair_suspend E;
           case r of
             Some x \<Rightarrow> ret (Inl x)
           | None \<Rightarrow> do { v \<leftarrow> valid_image E j'; ret (Inr (if v then RSuspended else RDiscarded)) } } } }"

definition recover_saved :: "'w qenv \<Rightarrow> machine \<Rightarrow> journal \<Rightarrow> int \<Rightarrow> ('w, qerr + raction) qm" where
  "recover_saved E m j pid = do {
     s \<leftarrow> dial_status E;
     if s = Inr ''running'' then do {
       e \<leftarrow> discard_suspend E m;
       ret (case e of Some x \<Rightarrow> Inl x | None \<Rightarrow> Inr RResumed) }
     else if s = Inr ''postmigrate'' then do {
       _ \<leftarrow> m_cmd E CQuit;
       recover_end E j pid quit_timeout }
     else recover_end E j pid 0 }"

definition recover_discard :: "'w qenv \<Rightarrow> raction \<Rightarrow> ('w, qerr + raction) qm" where
  "recover_discard E a = do {
     e \<leftarrow> discard_journal_then_image E;
     case e of Some t \<Rightarrow> fail_plain t | None \<Rightarrow> ret (Inr a) }"

definition recover_saving :: "'w qenv \<Rightarrow> int \<Rightarrow> string \<Rightarrow> ('w, qerr + raction) qm" where
  "recover_saving E pid status =
     (if status = ''running'' then recover_discard E RResumed
      else if status = ''paused'' \<or> status = ''postmigrate'' then do {
        c \<leftarrow> cancel_migration E;
        case c of
          Some t \<Rightarrow> fail_plain (''qemu: recovering an interrupted suspend: '' @ t)
        | None \<Rightarrow> do {
            _ \<leftarrow> remove_all E [RTmp];
            k \<leftarrow> cont_and_confirm E;
            case k of
              Some t \<Rightarrow> fail_plain (''qemu: recovering an interrupted suspend: '' @ t)
            | None \<Rightarrow> recover_discard E RResumed } }
      else if status = ''inmigrate'' then do {
        g \<leftarrow> kill_and_wait E pid;
        if \<not> g then fail_plain (''qemu: recovering: pid '' @ itoa pid @ '' did not exit after SIGKILL'')
        else do {
          e \<leftarrow> remove_all E [RPid, RQmp];
          case e of Some t \<Rightarrow> fail_plain t | None \<Rightarrow> recover_discard E RDiscarded } }
      else fail_plain (''qemu: cannot recover an interrupted suspend: the guest is '' @ status))"

definition recover_incoming :: "'w qenv \<Rightarrow> int \<Rightarrow> string \<Rightarrow> ('w, qerr + raction) qm" where
  "recover_incoming E pid status =
     (if status = ''paused'' then do {
        s \<leftarrow> sync_dir_retry E 3 None;
        case s of
          Some t \<Rightarrow> fail_plain (''qemu: recovering an interrupted resume: '' @ t)
        | None \<Rightarrow> do {
            k \<leftarrow> cont_and_confirm E;
            case k of
              Some t \<Rightarrow> fail_plain (''qemu: recovering an interrupted resume: '' @ t)
            | None \<Rightarrow> do { _ \<leftarrow> remove_images E; ret (Inr RResumed) } } }
      else if status = ''inmigrate'' then do {
        g \<leftarrow> kill_and_wait E pid;
        if \<not> g then fail_plain (''qemu: recovering: pid '' @ itoa pid @ '' did not exit after SIGKILL'')
        else do {
          e \<leftarrow> remove_all E [RPid, RQmp];
          case e of
            Some t \<Rightarrow> fail_plain t
          | None \<Rightarrow> do {
              i \<leftarrow> remove_images E;
              case i of Some t \<Rightarrow> fail_plain t | None \<Rightarrow> ret (Inr RDiscarded) } } }
      else do { _ \<leftarrow> remove_images E; ret (Inr RNone) })"

text \<open>No live QEMU of ours.\<close>

definition recover_dead :: "'w qenv \<Rightarrow> machine \<Rightarrow> jread \<Rightarrow> ('w, qerr + raction) qm" where
  "recover_dead E m jr =
     (if jr = ReadMissing then ret (Inr RNone)
      else do {
        e \<leftarrow> repair E m;
        case e of
          Some x \<Rightarrow> ret (Inl x)
        | None \<Rightarrow> do {
            v \<leftarrow> (case jr of ReadJournal j \<Rightarrow> if jn_phase j = saved then valid_image E j else ret False | _ \<Rightarrow> ret False);
            ret (Inr (if v then RSuspended else RDiscarded)) } })"

text \<open>A live QEMU with no journal that was not launched for a resume runs normally.\<close>

definition runs_normally :: "'w qenv \<Rightarrow> jread \<Rightarrow> ('w, bool) qm" where
  "runs_normally E jr =
     (if jr = ReadMissing
      then do { a \<leftarrow> env (qe_argvfile E); ret (case a of ArgvIs argv \<Rightarrow> \<not> has_incoming argv | _ \<Rightarrow> True) }
      else ret False)"

definition recover_live :: "'w qenv \<Rightarrow> jread \<Rightarrow> int \<Rightarrow> ('w, qerr + raction) qm" where
  "recover_live E jr pid = do {
     n \<leftarrow> runs_normally E jr;
     if n then do { _ \<leftarrow> remove_images E; ret (Inr RNone) }
     else do {
       s \<leftarrow> dial_status E;
       case s of
         Inl t \<Rightarrow> (if jr = ReadMissing then ret (Inr RNone)
                  else fail_plain (''qemu: recovering an interrupted transition: '' @ t))
       | Inr status \<Rightarrow>
           (case jr of
              ReadMissing \<Rightarrow> recover_incoming E pid status
            | ReadBad _ \<Rightarrow> do {
                a \<leftarrow> aside_journal E;
                case a of
                  Some t \<Rightarrow> fail_plain t
                | None \<Rightarrow> do { _ \<leftarrow> sync_dir E; recover_saving E pid status } }
            | _ \<Rightarrow> recover_saving E pid status) } }"

definition our_pid :: "'w qenv \<Rightarrow> ('w, int option) qm" where
  "our_pid E = do {
     f \<leftarrow> env (qe_pidfile E);
     case f of
       PidMissing \<Rightarrow> ret None
     | PidBad _ \<Rightarrow> ret None
     | PidIs pid \<Rightarrow> do { o1 \<leftarrow> env (qe_ours E pid); ret (if o1 then Some pid else None) } }"

definition recover_with :: "'w qenv \<Rightarrow> machine \<Rightarrow> jread \<Rightarrow> ('w, qerr + raction) qm" where
  "recover_with E m jr = do {
     p \<leftarrow> our_pid E;
     case p of
       None \<Rightarrow> recover_dead E m jr
     | Some pid \<Rightarrow>
         (case jr of
            ReadJournal j \<Rightarrow> (if jn_phase j = saved then recover_saved E m j pid else recover_live E jr pid)
          | _ \<Rightarrow> recover_live E jr pid) }"

definition recover :: "'w qenv \<Rightarrow> machine \<Rightarrow> ('w, qerr + raction) qm" where
  "recover E m =
     (if mc_dir m = [] then ret (Inl ENoDir)
      else do {
        jr \<leftarrow> read_journal E;
        case jr of
          ReadIo t \<Rightarrow> fail_plain (''qemu: reading the suspend journal (nothing was changed): '' @ t)
        | _ \<Rightarrow> recover_with E m jr })"

section \<open>No guest with a saved journal is continued\<close>

lemma quiet_settled_status: "keeps quiet (settled_status E n)"
  by (induction n) (subst settled_status.simps, intro quiet_rules quiet_pause case_pause; simp add: quiet_rules)+

lemma quiet_dial_status: "keeps quiet (dial_status E)"
  unfolding dial_status_def by (intro quiet_rules quiet_settled_status)

lemma quiet_our_pid: "keeps quiet (our_pid E)"
  unfolding our_pid_def by (intro quiet_rules)

lemma quiet_runs_normally: "keeps quiet (runs_normally E jr)"
  unfolding runs_normally_def by (intro quiet_rules)

lemma silent_fail: "keeps silent (fail_plain t)"
  unfolding fail_plain_def by (rule si.ret)

lemma silent_discard_suspend: "keeps silent (discard_suspend E m)"
  unfolding discard_suspend_def by (intro silent_rules)

lemma silent_recover_end: "keeps silent (recover_end E j pid g)"
  unfolding recover_end_def Let_def by (intro silent_rules silent_fail silent_repair_suspend)

lemma silent_recover_saved: "keeps silent (recover_saved E m j pid)"
  unfolding recover_saved_def
  by (intro silent_rules silent_recover_end silent_discard_suspend keeps_quiet_silent [OF quiet_dial_status])

lemma silent_recover_discard: "keeps silent (recover_discard E a)"
  unfolding recover_discard_def by (intro silent_rules silent_fail)

lemma silent_recover_dead: "keeps silent (recover_dead E m jr)"
  unfolding recover_dead_def by (intro silent_rules silent_repair)

lemma calm_quiet: "keeps quiet m \<Longrightarrow> keeps calm m"
  by (erule keeps_mono, rule quiet_calm)

lemma calm_steady: "keeps steady m \<Longrightarrow> keeps calm m"
  by (erule keeps_mono, rule steady_calm)

lemma calm_fail: "keeps calm (fail_plain t)"
  unfolding fail_plain_def by (rule ca.ret)

lemma calm_sync_retry: "keeps calm (sync_dir_retry E n le)"
  by (induction n arbitrary: le) (auto intro!: ca.rules calm_sync_dir)

lemma calm_recover_incoming: "keeps calm (recover_incoming E pid st)"
  unfolding recover_incoming_def
  by (intro ca.rules calm_sync_retry calm_fail calm_steady [OF steady_cont_and_confirm] calm_steady [OF steady_remove_images]
      calm_quiet [OF quiet_kill_and_wait] calm_quiet [OF quiet_remove_all]) auto

text \<open>\<open>clear w s\<close>: every \<^verbatim>\<open>cont\<close> between the two worlds saw no saved journal; \<open>free w s\<close>: one sent now would not.\<close>

definition clear_conts :: "'w qw \<Rightarrow> qevent list \<Rightarrow> bool" where
  "clear_conts w es \<longleftrightarrow> (\<forall>j d. LCont j d \<in> set es \<longrightarrow> \<not> is_saved j \<and> (unsaved w \<longrightarrow> (\<forall>f \<in> set d. \<not> is_saved f)))"

definition clear :: "'w qw \<Rightarrow> 'w qw \<Rightarrow> bool" where
  "clear w s \<longleftrightarrow> (\<exists>es. grown w s es \<and> clear_conts w es)"

definition free :: "'w qw \<Rightarrow> 'w qw \<Rightarrow> bool" where
  "free w s \<longleftrightarrow> clear w s \<and> \<not> is_saved (q_jour s) \<and> (unsaved w \<longrightarrow> (\<forall>f \<in> set (q_disk s). \<not> is_saved f))"

lemma clear_refl: "clear w w"
  by (simp add: clear_def clear_conts_def)

lemma clear_silent: "clear w s \<Longrightarrow> silent s t \<Longrightarrow> clear w t"
proof -
  assume "clear w s" "silent s t"
  then obtain es fs where "grown w s es" "clear_conts w es" "grown s t fs" "\<forall>e \<in> set fs. \<not> is_cont e"
    by (auto simp: clear_def silent_def)
  then have "grown w t (es @ fs)" "clear_conts w (es @ fs)"
    using grown_trans by (blast, auto simp: clear_conts_def is_cont_iff)
  then show "clear w t" by (auto simp: clear_def)
qed

lemma free_calm: "free w s \<Longrightarrow> calm s t \<Longrightarrow> free w t"
proof -
  assume f: "free w s" and c: "calm s t"
  then obtain es fs where "grown w s es" "clear_conts w es" "grown s t fs" "\<forall>e \<in> set fs. calm_event (q_jour s) (set (q_disk s)) e"
    by (auto simp: free_def clear_def calm_def)
  moreover have "clear_conts w fs"
    using calculation(4) f by (fastforce simp: clear_conts_def calm_event_def free_def)
  ultimately have "grown w t (es @ fs)" "clear_conts w (es @ fs)"
    using grown_trans by (blast, auto simp: clear_conts_def)
  then show "free w t" using f c by (auto simp: free_def clear_def calm_def)
qed

lemma clear_keeps: "keeps silent m \<Longrightarrow> hoare (clear w) m (\<lambda>_. clear w)"
  by (rule hoareI) (meson keepsD clear_silent)

lemma free_keeps: "keeps calm m \<Longrightarrow> hoare (free w) m (\<lambda>_. free w)"
  by (rule hoareI) (meson keepsD free_calm)

lemma free_clear: "free w s \<Longrightarrow> clear w s"
  by (simp add: free_def)

lemma free_silent: "keeps silent m \<Longrightarrow> hoare (free w) m (\<lambda>_. clear w)"
  by (rule hoare_pre [OF clear_keeps free_clear])

lemma recover_saving_clear: "hoare (free w) (recover_saving E pid st) (\<lambda>_. clear w)"
proof -
  have paused: "hoare (free w) (do {
      c \<leftarrow> cancel_migration E;
      case c of
        Some t \<Rightarrow> fail_plain (''qemu: recovering an interrupted suspend: '' @ t)
      | None \<Rightarrow> do {
          _ \<leftarrow> remove_all E [RTmp];
          k \<leftarrow> cont_and_confirm E;
          case k of
            Some t \<Rightarrow> fail_plain (''qemu: recovering an interrupted suspend: '' @ t)
          | None \<Rightarrow> recover_discard E RResumed } }) (\<lambda>_. clear w)"
    by (intro hoare_bind [OF free_keeps [OF calm_quiet [OF quiet_cancel_migration]]] hoare_option
        hoare_bind [OF free_keeps [OF calm_quiet [OF quiet_remove_all]]] hoare_bind [OF free_keeps [OF calm_steady [OF steady_cont_and_confirm]]]
        free_silent silent_fail silent_recover_discard) simp
  have inmigrate: "keeps silent (do {
      g \<leftarrow> kill_and_wait E pid;
      if \<not> g then fail_plain (''qemu: recovering: pid '' @ itoa pid @ '' did not exit after SIGKILL'')
      else do {
        e \<leftarrow> remove_all E [RPid, RQmp];
        case e of Some t \<Rightarrow> fail_plain t | None \<Rightarrow> recover_discard E RDiscarded } })"
    by (intro silent_rules silent_fail silent_recover_discard)
  show ?thesis
    unfolding recover_saving_def
    by (rule hoare_if, rule free_silent [OF silent_recover_discard], rule hoare_if, rule paused, rule hoare_if,
        rule free_silent [OF inmigrate], rule free_silent [OF silent_fail])
qed

lemma aside_free:
  "hoare (\<lambda>s. clear w s \<and> (unsaved w \<longrightarrow> (\<forall>f \<in> set (q_disk s). \<not> is_saved f))) (aside_journal E)
     (\<lambda>e s. if e = None then free w s else clear w s)"
proof (rule hoareI)
  fix s e t
  assume pre: "clear w s \<and> (unsaved w \<longrightarrow> (\<forall>f \<in> set (q_disk s). \<not> is_saved f))" and run: "run_state (aside_journal E) s = (e, t)"
  have "clear w t" using pre keepsD [OF silent_aside run] clear_silent by blast
  moreover have "e = None \<longrightarrow> q_jour t = JNone \<and> set (q_disk t) \<subseteq> insert JNone (set (q_disk s))"
    using run by (auto simp: aside_journal_def State_Monad.bind_def env_def reads_def modify_def State_Monad.return_def
       split: prod.splits option.splits jfile.splits)
  ultimately show "if e = None then free w t else clear w t"
    using pre by (auto simp: free_def is_saved_def)
qed

lemma recover_live_clear:
  assumes j: "case jr of ReadMissing \<Rightarrow> q_jour w = JNone | ReadJournal j \<Rightarrow> q_jour w = JFile j \<and> jn_phase j \<noteq> saved | _ \<Rightarrow> True"
    and io: "\<forall>t. jr \<noteq> ReadIo t"
  shows "hoare (quiet w) (recover_live E jr pid) (\<lambda>_. clear w)"
proof -
  have qc: "quiet w s \<Longrightarrow> clear w s" for s using clear_silent [OF clear_refl] quiet_silent by blast
  have sil: "hoare (quiet w) m (\<lambda>_. clear w)" if "keeps silent m" for m :: "('a, qerr + raction) qm"
    by (rule hoare_pre [OF clear_keeps [OF that] qc])
  have qf: "free w s" if "quiet w s" "\<forall>t. jr \<noteq> ReadBad t" for s
    using that j io qc [OF that(1)] by (cases jr) (auto simp: free_def quiet_def is_saved_def unsaved_def)
  have bad: "hoare (quiet w) (do {
      a \<leftarrow> aside_journal E;
      case a of Some t \<Rightarrow> fail_plain t | None \<Rightarrow> do { _ \<leftarrow> sync_dir E; recover_saving E pid st } }) (\<lambda>_. clear w)" for st
  proof (rule hoare_pre [where P' = "\<lambda>s. clear w s \<and> (unsaved w \<longrightarrow> (\<forall>f \<in> set (q_disk s). \<not> is_saved f))"],
         rule hoare_bind [OF aside_free], rule hoare_option, goal_cases)
    case (1 a)
    show ?case
      by (rule hoare_pre [where P' = "free w"], rule hoare_bind [OF free_keeps [OF calm_sync_dir]], rule recover_saving_clear) (simp add: 1)
  next
    case (2 a t)
    show ?case by (rule hoare_pre [OF clear_keeps [OF silent_fail]]) (simp add: 2)
  next
    case (3 s)
    then show ?case using qc by (auto simp: quiet_def unsaved_def)
  qed
  show ?thesis
    unfolding recover_live_def
    apply (rule hoare_bind [OF qt.step [OF quiet_runs_normally]], rule hoare_if)
     apply (rule sil, intro silent_rules)
    apply (rule hoare_bind [OF qt.step [OF quiet_dial_status]], rule hoare_sum)
     apply (rule sil, intro silent_rules silent_fail)
    apply (rule hoare_jread)
       apply (rule hoare_weaken [OF free_keeps [OF calm_recover_incoming] qf free_clear], assumption, simp, assumption)
      apply (rule bad)
     apply (rule hoare_pre [OF recover_saving_clear qf], assumption, simp)
    apply (rule hoare_pre [OF recover_saving_clear qf], assumption, simp)
    done
qed

lemma recover_clear: "hoare (\<lambda>s. s = w) (recover E m) (\<lambda>_. clear w)"
proof -
  have qc: "quiet w s \<Longrightarrow> clear w s" for s using clear_silent [OF clear_refl] quiet_silent by blast
  have sil: "hoare (quiet w) m (\<lambda>_. clear w)" if "keeps silent m" for m :: "('a, qerr + raction) qm"
    by (rule hoare_pre [OF clear_keeps [OF that] qc])
  have with_j: "hoare (quiet w) (recover_with E m jr) (\<lambda>_. clear w)"
    if "case jr of ReadMissing \<Rightarrow> q_jour w = JNone | ReadJournal j \<Rightarrow> q_jour w = JFile j | _ \<Rightarrow> True" "\<forall>t. jr \<noteq> ReadIo t" for jr
    unfolding recover_with_def
    by (rule hoare_bind [OF qt.step [OF quiet_our_pid]], rule hoare_option, rule sil [OF silent_recover_dead], rule hoare_jread)
      (use that in \<open>auto intro!: recover_live_clear sil [OF silent_recover_saved]\<close>)
  have io: "hoare (quiet w) (fail_plain t) (\<lambda>_. clear w)" for t by (rule sil [OF silent_fail])
  show ?thesis
    unfolding recover_def
  proof (rule hoare_if, goal_cases)
    case 1
    show ?case by (rule hoare_ret) (simp add: clear_refl)
  next
    case 2
    show ?case
    proof (rule hoare_bind [OF read_journal_spec], rule hoareI)
      fix r s x t
      assume pre: "quiet w s \<and> (case r of ReadMissing \<Rightarrow> q_jour s = JNone | ReadJournal j \<Rightarrow> q_jour s = JFile j \<and> valid_phase j
        | ReadBad _ \<Rightarrow> (case q_jour s of JFile j \<Rightarrow> \<not> valid_phase j | JBad _ \<Rightarrow> True | JNone \<Rightarrow> False) | ReadIo _ \<Rightarrow> True)"
        and run: "run_state (case r of ReadIo t \<Rightarrow> fail_plain (''qemu: reading the suspend journal (nothing was changed): '' @ t)
          | _ \<Rightarrow> recover_with E m r) s = (x, t)"
      then have "case r of ReadMissing \<Rightarrow> q_jour w = JNone | ReadJournal j \<Rightarrow> q_jour w = JFile j | _ \<Rightarrow> True"
        by (auto simp: quiet_def split: jread.splits)
      with pre run show "clear w t"
        using hoareD [OF with_j [of r]] hoareD [OF io] by (cases r) auto
    qed
  qed
qed

text \<open>C4 (safety): recovery never continues a guest whose state is saved: whatever the files, QEMU and the disk do,
  every \<^verbatim>\<open>cont\<close> of \<^verbatim>\<open>Recover\<close> is sent while the visible journal is not a saved one; and if no saved
  journal could come back after a power cut when it began, none can at any \<^verbatim>\<open>cont\<close>.\<close>

theorem recover_never_continues_saved:
  "case run_state (recover E m) w of (r, w') \<Rightarrow>
    \<exists>es. q_log w' = q_log w @ es \<and>
      (\<forall>e \<in> set es. case e of LCont j d \<Rightarrow> \<not> is_saved j \<and> (if unsaved w then (\<forall>f \<in> set d. \<not> is_saved f) else True) | _ \<Rightarrow> True)"
proof (rule run_hoare [OF recover_clear])
  fix r and s :: "'a qw"
  assume "clear w s"
  then obtain es where "grown w s es" "clear_conts w es" by (auto simp: clear_def)
  then show "\<exists>es. q_log s = q_log w @ es \<and>
      (\<forall>e \<in> set es. case e of LCont j d \<Rightarrow> \<not> is_saved j \<and> (if unsaved w then (\<forall>f \<in> set d. \<not> is_saved f) else True) | _ \<Rightarrow> True)"
    by (intro exI [of _ es]) (auto simp: clear_conts_def grown_def split: qevent.splits)
qed

section \<open>What the result says\<close>

lemma remove_images_gone: "hoare (\<lambda>s. q_jour s = f) (remove_images E) (\<lambda>e s. q_jour s = f \<and> (e = None \<longrightarrow> q_image s = None))"
  by (auto simp: remove_images_def remove_all_def remove_file_def hoare_def State_Monad.bind_def env_def modify_def
      State_Monad.return_def join_errs_def split: prod.splits option.splits list.splits if_splits)

lemma discard_gone: "hoare (\<lambda>_. True) (discard_journal_then_image E) (\<lambda>e s. e = None \<longrightarrow> q_jour s = JNone \<and> q_image s = None)"
  unfolding discard_journal_then_image_def
proof (rule hoare_bind [where R = "\<lambda>e s. e = None \<longrightarrow> q_jour s = JNone"], goal_cases)
  case 1
  show ?case by (rule hoareI) (use hoareD [OF remove_journal_spec refl] in force)
next
  case (2 e)
  have "hoare (\<lambda>s. q_jour s = JNone) (remove_images E) (\<lambda>e s. e = None \<longrightarrow> q_jour s = JNone \<and> q_image s = None)"
    by (rule hoare_weaken [OF remove_images_gone]) auto
  then show ?case by (intro hoare_option) (auto intro: hoare_pre hoare_ret)
qed

text \<open>A repair that reports success leaves no journal and no image, or the valid pair it found.\<close>

definition repair_done :: "'w qw \<Rightarrow> qerr option \<Rightarrow> 'w qw \<Rightarrow> bool" where
  "repair_done w r s \<longleftrightarrow> (r = None \<longrightarrow> q_jour s = JNone \<and> q_image s = None \<or> same_pair w s \<and> saved_pair w)"

lemma gone_done: "hoare (\<lambda>s. q_jour s = JNone) (do { e \<leftarrow> remove_images E; ret (map_option EPlain e) }) (repair_done w)"
  by (rule hoare_bind [OF remove_images_gone], rule hoare_ret) (auto simp: repair_done_def)

lemma err_done: "hoare P (ret (Some e)) (repair_done w)"
  by (rule hoare_ret) (simp add: repair_done_def)

lemma repair_suspend_done: "hoare (same_pair w) (repair_suspend E) (repair_done w)"
  unfolding repair_suspend_def
proof (rule hoare_bind [OF read_journal_pair], rule hoare_jread, goal_cases)
  case (1 x)
  show ?case by (rule hoare_pre [OF gone_done]) (use 1 in \<open>auto simp: same_pair_def\<close>)
next
  case (2 x t)
  have "hoare (\<lambda>s. q_jour s = JNone) (sync_dir E) (\<lambda>_ s. q_jour s = JNone)"
    by (rule hoareI) (use hoareD [OF sync_dir_spec refl] in force)
  then have tail: "hoare (\<lambda>s. q_jour s = JNone) (do {
      e2 \<leftarrow> sync_dir E;
      case e2 of Some t \<Rightarrow> ret (Some (EPlain t)) | None \<Rightarrow> do { e3 \<leftarrow> remove_images E; ret (map_option EPlain e3) } }) (repair_done w)"
    by (rule hoare_bind) (intro hoare_option gone_done err_done)
  show ?case
  proof (rule hoare_pre [where P' = "same_pair w"], rule hoare_bind [OF aside_spec], rule hoare_option, goal_cases)
    case (1 e)
    show ?case by (rule hoare_pre [OF tail]) (use 1 in auto)
  next
    case (2 e t)
    show ?case by (rule err_done)
  qed simp
next
  case (3 x t)
  show ?case by (rule err_done)
next
  case (4 x j)
  have step: "hoare (\<lambda>s. same_pair w s \<and> ok = (jn_phase j = saved \<and> 0 < jn_imageBytes j \<and> q_image w = Some (jn_imageBytes j)))
      (do { e \<leftarrow> (if jn_phase j = saved \<and> ok then remove_all E [RTmp] else discard_journal_then_image E);
            ret (map_option EPlain e) }) (repair_done w)" if q: "q_jour w = JFile j \<and> valid_phase j" for ok
  proof (cases "jn_phase j = saved \<and> ok")
    case True
    have keep: "hoare (same_pair w) (do { e \<leftarrow> remove_all E [RTmp]; ret (map_option EPlain e) }) (\<lambda>_. same_pair w)"
      by (intro hoare_bind [OF quiet_hoare [OF quiet_remove_all]] hoare_ret) simp_all
    show ?thesis
      unfolding if_P [OF True]
      apply (rule hoare_pre [where P' = "\<lambda>s. same_pair w s \<and> saved_pair w"])
       apply (rule hoare_pure, rule hoare_weaken [OF keep], assumption, simp add: repair_done_def)
      using True q apply (auto simp: saved_pair_def pair_ok_def)
      done
  next
    case False
    have "hoare (\<lambda>_. True) (do { e \<leftarrow> discard_journal_then_image E; ret (map_option EPlain e) }) (repair_done w)"
      by (rule hoare_bind [OF discard_gone], rule hoare_ret) (auto simp: repair_done_def)
    then show ?thesis unfolding if_not_P [OF False] by (rule hoare_pre) simp
  qed
  show ?case
    apply (rule hoare_pre [where P' = "\<lambda>s. same_pair w s \<and> (q_jour w = JFile j \<and> valid_phase j)"])
     apply (rule hoare_pure, rule hoare_bind [OF check_image_pair], rule hoare_sum, rule err_done)
     apply (rule hoare_pre [OF step], assumption, simp)
    using 4 apply simp
    done
qed

lemma repair_done_spec: "hoare (same_pair w) (repair E m) (repair_done w)"
  unfolding repair_def
  by (intro hoare_if err_done hoare_bind [OF quiet_hoare [OF quiet_remove_all]] hoare_option repair_suspend_done) simp

text \<open>What the action a recovery reports says about the world it leaves.\<close>

definition images_readable :: "'w qenv \<Rightarrow> bool" where
  "images_readable E \<longleftrightarrow> (\<forall>s. fst (qe_fs E FImageStat s) = None)"

fun action_true :: "'w qenv \<Rightarrow> qerr + raction \<Rightarrow> 'w qw \<Rightarrow> bool" where
  "action_true E (Inl _) s = True"
| "action_true E (Inr RNone) s = (q_jour s = JNone)"
| "action_true E (Inr RResumed) s = (q_jour s = JNone)"
| "action_true E (Inr RSuspended) s = saved_pair s"
| "action_true E (Inr RDiscarded) s = (images_readable E \<longrightarrow> q_jour s = JNone)"

lemma fail_true: "hoare P (fail_plain t) (action_true E)"
  unfolding fail_plain_def by (rule hoare_ret) simp

lemma inl_true: "hoare P (ret (Inl e)) (action_true E)"
  by (rule hoare_ret) simp

text \<open>Whether the pair that was read is still the one to resume, after a repair.\<close>

lemma verdict:
  assumes "valid_phase j" "jn_phase j = saved"
  shows "hoare (\<lambda>s. q_jour s = JNone \<and> q_image s = None \<or> saved_pair s \<and> (\<exists>j'. q_jour s = JFile j' \<and> jn_imageBytes j' = jn_imageBytes j))
     (do { v \<leftarrow> valid_image E j; ret (Inr (if v then RSuspended else RDiscarded)) }) (action_true E)"
proof (rule hoare_then_ret)
  fix s v t
  assume pre: "q_jour s = JNone \<and> q_image s = None \<or> saved_pair s \<and> (\<exists>j'. q_jour s = JFile j' \<and> jn_imageBytes j' = jn_imageBytes j)"
    and run: "run_state (valid_image E j) s = (v, t)"
  then have "same_pair s t" using quiet_same [OF keepsD [OF quiet_valid_image run]] by simp
  moreover have "v \<longrightarrow> q_image s = Some (jn_imageBytes j)"
    and "images_readable E \<longrightarrow> (v \<longleftrightarrow> 0 < jn_imageBytes j \<and> q_image s = Some (jn_imageBytes j))"
    using run assms(2)
    by (auto simp: valid_image_def check_image_def State_Monad.bind_def env_def reads_def State_Monad.return_def images_readable_def
        split: prod.splits option.splits if_splits) (metis fst_conv option.distinct(1))+
  ultimately show "action_true E (Inr (if v then RSuspended else RDiscarded)) t"
    using pre by (auto simp: same_pair_def saved_pair_def pair_ok_def)
qed

lemma verdict_false: "hoare (\<lambda>s. q_jour s = JNone) (do { v \<leftarrow> ret False; ret (Inr (if v then RSuspended else RDiscarded)) }) (action_true E)"
  by (rule hoare_bind [where R = "\<lambda>v s. \<not> v \<and> q_jour s = JNone"]) (auto intro: hoare_ret)

lemma recover_dead_true:
  assumes jr: "case jr of ReadMissing \<Rightarrow> q_jour w = JNone | ReadJournal j \<Rightarrow> q_jour w = JFile j \<and> valid_phase j
      | ReadBad _ \<Rightarrow> \<not> saved_pair w | ReadIo _ \<Rightarrow> False"
  shows "hoare (same_pair w) (recover_dead E m jr) (action_true E)"
  unfolding recover_dead_def
proof (rule hoare_if, goal_cases)
  case 1
  show ?case by (rule hoare_ret) (use 1 jr in \<open>simp add: same_pair_def\<close>)
next
  case 2
  have final: "hoare (\<lambda>s. repair_done w None s) (do {
      v \<leftarrow> (case jr of ReadJournal j \<Rightarrow> if jn_phase j = saved then valid_image E j else ret False | _ \<Rightarrow> ret False);
      ret (Inr (if v then RSuspended else RDiscarded)) }) (action_true E)"
  proof (cases "\<exists>j. jr = ReadJournal j \<and> jn_phase j = saved")
    case True
    then obtain j where j: "jr = ReadJournal j" "jn_phase j = saved" by blast
    with jr have w: "q_jour w = JFile j" "valid_phase j" by auto
    show ?thesis
      by (simp only: j jread.case if_P, rule hoare_pre [OF verdict [OF w(2) j(2)]])
        (use w in \<open>auto simp: repair_done_def same_pair_def saved_pair_def\<close>)
  next
    case False
    then have np: "\<not> saved_pair w" using jr by (auto simp: saved_pair_def pair_ok_def split: jread.splits)
    have "(case jr of ReadJournal j \<Rightarrow> if jn_phase j = saved then valid_image E j else ret False | _ \<Rightarrow> ret False) = ret False"
      using False by (auto split: jread.splits)
    then show ?thesis by (simp only:) (rule hoare_pre [OF verdict_false], use np in \<open>simp add: repair_done_def\<close>)
  qed
  show ?case
    by (rule hoare_bind [OF repair_done_spec], rule hoare_option, rule hoare_pre [OF final], simp, rule inl_true)
qed

lemma discard_true: "a = RResumed \<or> a = RDiscarded \<Longrightarrow> hoare P (recover_discard E a) (action_true E)"
  unfolding recover_discard_def
  by (rule hoare_pre [where P' = "\<lambda>_. True"], rule hoare_bind [OF discard_gone], intro hoare_option fail_true hoare_ret) auto

lemma any_bind: "(\<And>x. hoare (\<lambda>_. True) (f x) Q) \<Longrightarrow> hoare P (State_Monad.bind m f) Q"
  by (rule hoare_pre [where P' = "\<lambda>_. True"], erule true_bind) simp

lemma recover_saving_true: "hoare P (recover_saving E pid st) (action_true E)"
  unfolding recover_saving_def
  by (rule hoare_if hoare_option fail_true discard_true any_bind | simp)+

lemma none_hoare: "keeps steady m \<Longrightarrow> hoare (\<lambda>s. q_jour s = JNone) m (\<lambda>_ s. q_jour s = JNone)"
  by (erule hoare_keeps) (simp add: steady_def)

lemma none_ret: "a \<in> {RNone, RResumed, RDiscarded} \<Longrightarrow> hoare (\<lambda>s. q_jour s = JNone) (ret (Inr a)) (action_true E)"
  by (rule hoare_ret) auto

lemma recover_incoming_true: "hoare (\<lambda>s. q_jour s = JNone) (recover_incoming E pid st) (action_true E)"
proof -
  have sync: "hoare (\<lambda>s. q_jour s = JNone) (sync_dir_retry E 3 None) (\<lambda>_ s. q_jour s = JNone)"
    by (rule hoare_weaken [OF sync_retry_spec]) auto
  note st = none_hoare [OF steady_cont_and_confirm] none_hoare [OF steady_remove_images] none_hoare [OF steady_remove_all]
    none_hoare [OF keeps_quiet_steady [OF quiet_kill_and_wait]]
  show ?thesis
    unfolding recover_incoming_def
    by (rule hoare_if hoare_option fail_true none_ret hoare_bind [OF sync] st [THEN hoare_bind] | simp)+
qed

lemma recover_live_true:
  assumes "jr = ReadMissing \<Longrightarrow> q_jour w = JNone"
  shows "hoare (same_pair w) (recover_live E jr pid) (action_true E)"
proof (cases "jr = ReadMissing")
  case True
  then have w: "q_jour w = JNone" by (rule assms)
  have go: "hoare (\<lambda>s. q_jour s = JNone) (recover_live E jr pid) (action_true E)"
    unfolding recover_live_def
    apply (rule hoare_bind [OF none_hoare [OF keeps_quiet_steady [OF quiet_runs_normally]]], rule hoare_if)
     apply (rule hoare_bind [OF none_hoare [OF steady_remove_images]], rule none_ret, simp)
    apply (rule hoare_bind [OF none_hoare [OF keeps_quiet_steady [OF quiet_dial_status]]], rule hoare_sum)
     apply (rule hoare_if, rule none_ret, simp, rule fail_true)
    apply (simp add: True, rule recover_incoming_true)
    done
  show ?thesis by (rule hoare_pre [OF go]) (simp add: same_pair_def w)
next
  case False
  have n: "runs_normally E jr = ret False" by (simp add: runs_normally_def False)
  have "hoare (\<lambda>_. True) (recover_live E jr pid) (action_true E)"
    unfolding recover_live_def n
    apply (rule hoare_bind [where R = "\<lambda>n _. \<not> n"], rule hoare_ret, simp)
    apply (rule hoare_if, simp add: hoare_def)
    apply (rule hoare_pre [where P' = "\<lambda>_. True"])
     apply (rule true_bind, rule hoare_sum)
      apply (simp only: False if_False, rule fail_true)
     apply (rule hoare_jread, simp add: False)
       apply (rule true_bind, rule hoare_option, rule any_bind, rule recover_saving_true, rule fail_true)
      apply (rule recover_saving_true)+
    apply simp
    done
  then show ?thesis by (rule hoare_pre) simp
qed

definition same_bytes :: "journal \<Rightarrow> 'w qw \<Rightarrow> bool" where
  "same_bytes j s \<longleftrightarrow> (\<exists>j'. q_jour s = JFile j' \<and> jn_imageBytes j' = jn_imageBytes j)"

lemma recover_tail:
  assumes j: "valid_phase j" "jn_phase j = saved"
  shows "hoare (same_bytes j) (do {
      r \<leftarrow> repair_suspend E;
      case r of
        Some x \<Rightarrow> ret (Inl x)
      | None \<Rightarrow> do { v \<leftarrow> valid_image E j; ret (Inr (if v then RSuspended else RDiscarded)) } }) (action_true E)"
proof (rule hoare_bind [where R = "\<lambda>r s. r = None \<longrightarrow> q_jour s = JNone \<and> q_image s = None \<or> saved_pair s \<and> same_bytes j s"], goal_cases)
  case 1
  show ?case
  proof (rule hoareI)
    fix s r t
    assume "same_bytes j s" and run: "run_state (repair_suspend E) s = (r, t)"
    moreover have "repair_done s r t" by (rule hoareD [OF repair_suspend_done _ run]) (simp add: same_pair_def)
    ultimately show "r = None \<longrightarrow> q_jour t = JNone \<and> q_image t = None \<or> saved_pair t \<and> same_bytes j t"
      by (auto simp: repair_done_def same_pair_def saved_pair_def same_bytes_def)
  qed
next
  case (2 r)
  show ?case
    by (rule hoare_option, rule hoare_pre [OF verdict [OF j]], simp add: same_bytes_def, rule inl_true)
qed

lemma same_bytes_quiet: "keeps quiet m \<Longrightarrow> hoare (same_bytes j) m (\<lambda>_. same_bytes j)"
  by (erule hoare_keeps) (auto simp: quiet_def same_bytes_def)

lemma same_bytes_write: "jn_imageBytes j' = jn_imageBytes j \<Longrightarrow> hoare (same_bytes j) (write_journal E j') (\<lambda>_. same_bytes j)"
  by (rule hoareI) (use hoareD [OF write_journal_outcome refl] in \<open>fastforce simp: quiet_def same_bytes_def\<close>)

lemma same_bytes_congr: "jn_imageBytes j' = jn_imageBytes j \<Longrightarrow> same_bytes j' s = same_bytes j s"
  by (simp add: same_bytes_def)

lemma recover_end_true:
  assumes j: "valid_phase j" "jn_phase j = saved"
  shows "hoare (same_bytes j) (recover_end E j pid g) (action_true E)"
proof -
  have go: "hoare (same_bytes j) (do {
      _ \<leftarrow> (case fp of Inl _ \<Rightarrow> ret None | Inr f \<Rightarrow> write_journal E (case fp of Inl _ \<Rightarrow> j | Inr f \<Rightarrow> j\<lparr>jn_fingerprints := Some f\<rparr>));
      r \<leftarrow> repair_suspend E;
      case r of
        Some x \<Rightarrow> ret (Inl x)
      | None \<Rightarrow> do {
          v \<leftarrow> valid_image E (case fp of Inl _ \<Rightarrow> j | Inr f \<Rightarrow> j\<lparr>jn_fingerprints := Some f\<rparr>);
          ret (Inr (if v then RSuspended else RDiscarded)) } }) (action_true E)" for fp :: "string + fingerprints"
  proof -
    let ?j' = "case fp of Inl _ \<Rightarrow> j | Inr f \<Rightarrow> j\<lparr>jn_fingerprints := Some f\<rparr>"
    have j': "valid_phase ?j'" "jn_phase ?j' = saved" "jn_imageBytes ?j' = jn_imageBytes j"
      using j by (auto simp: valid_phase_def split: sum.splits)
    show ?thesis
    proof (rule hoare_bind [where R = "\<lambda>_. same_bytes j"], goal_cases)
      case 1
      show ?case by (rule hoare_sum) (auto intro: hoare_ret same_bytes_write)
    next
      case (2 x)
      show ?case by (rule hoare_pre [OF recover_tail [OF j'(1, 2)]]) (simp add: same_bytes_congr [OF j'(3)])
    qed
  qed
  show ?thesis
    unfolding recover_end_def Let_def
    apply (rule hoare_bind [OF same_bytes_quiet [OF quiet_end_process_kill]], rule hoare_if, rule fail_true)
    apply (rule hoare_bind [OF same_bytes_quiet [OF quiet_remove_all]], simp)
    apply (rule hoare_option)
     apply (rule hoare_bind [where R = "\<lambda>_. same_bytes j"])
      apply (rule same_bytes_quiet, intro quiet_rules)
     apply (rule go)
    apply (rule fail_true)
    done
qed

lemma discard_suspend_gone:
  "mc_dir m \<noteq> [] \<Longrightarrow> hoare (\<lambda>_. True) (discard_suspend E m) (\<lambda>e s. e = None \<longrightarrow> q_jour s = JNone)"
  unfolding discard_suspend_def by (simp, rule hoare_bind [OF discard_gone]) (auto intro: hoare_ret)

lemma recover_saved_true:
  assumes j: "valid_phase j" "jn_phase j = saved" and d: "mc_dir m \<noteq> []"
  shows "hoare (same_bytes j) (recover_saved E m j pid) (action_true E)"
  unfolding recover_saved_def
  apply (rule hoare_bind [OF same_bytes_quiet [OF quiet_dial_status]], rule hoare_if)
   apply (rule hoare_pre [where P' = "\<lambda>_. True"], rule hoare_bind [OF discard_suspend_gone [OF d]])
    apply (rule hoare_ret, simp split: option.splits)
   apply simp
  apply (rule hoare_if, rule hoare_bind [OF same_bytes_quiet [OF quiet_cmd]])
   apply (rule recover_end_true [OF j])+
  done

lemma recover_true: "hoare (\<lambda>s. s = w) (recover E m) (action_true E)"
proof (cases "mc_dir m = []")
  case True
  show ?thesis unfolding recover_def if_P [OF True] by (rule inl_true)
next
  case False
  have pid: "hoare (same_pair w) (our_pid E) (\<lambda>_. same_pair w)" by (rule quiet_hoare [OF quiet_our_pid])
  have wj: "hoare (same_pair w) (recover_with E m jr) (action_true E)"
    if jr: "case jr of ReadMissing \<Rightarrow> q_jour w = JNone | ReadJournal j \<Rightarrow> q_jour w = JFile j \<and> valid_phase j
      | ReadBad _ \<Rightarrow> q_jour w \<noteq> JNone \<and> \<not> saved_pair w | ReadIo _ \<Rightarrow> False" for jr
    unfolding recover_with_def
  proof (rule hoare_bind [OF pid], rule hoare_option, goal_cases)
    case (1 p)
    show ?case by (rule recover_dead_true) (use jr in \<open>auto split: jread.splits\<close>)
  next
    case (2 p pid)
    have live: "hoare (same_pair w) (recover_live E jr pid) (action_true E)"
      by (rule recover_live_true) (use jr in auto)
    show ?case
      by (rule hoare_jread, rule live, rule live, rule live, rule hoare_if, rule hoare_pre [OF recover_saved_true [OF _ _ False]])
        (use jr live in \<open>auto simp: same_bytes_def same_pair_def\<close>)
  qed
  have go: "hoare (same_pair w) (do {
      jr \<leftarrow> read_journal E;
      case jr of
        ReadIo t \<Rightarrow> fail_plain (''qemu: reading the suspend journal (nothing was changed): '' @ t)
      | _ \<Rightarrow> recover_with E m jr }) (action_true E)"
  proof (rule hoare_bind [OF read_journal_pair], rule hoareI)
    fix jr s r t
    assume pre: "same_pair w s \<and> (case jr of ReadMissing \<Rightarrow> q_jour w = JNone | ReadBad _ \<Rightarrow> q_jour w \<noteq> JNone \<and> \<not> saved_pair w
          | ReadJournal j \<Rightarrow> q_jour w = JFile j \<and> valid_phase j | ReadIo _ \<Rightarrow> True)"
      and run: "run_state (case jr of ReadIo t \<Rightarrow> fail_plain (''qemu: reading the suspend journal (nothing was changed): '' @ t)
        | _ \<Rightarrow> recover_with E m jr) s = (r, t)"
    show "action_true E r t"
    proof (cases "\<exists>x. jr = ReadIo x")
      case True
      then show ?thesis using run by (auto simp: fail_plain_def State_Monad.return_def)
    next
      case False
      then have "run_state (recover_with E m jr) s = (r, t)" using run by (auto split: jread.splits)
      moreover have "hoare (same_pair w) (recover_with E m jr) (action_true E)"
        by (rule wj) (use pre False in \<open>cases jr; simp\<close>)
      ultimately show ?thesis using pre by (blast intro: hoareD)
    qed
  qed
  show ?thesis unfolding recover_def if_not_P [OF False] by (rule hoare_pre [OF go]) (simp add: same_pair_def)
qed

text \<open>C23 (refinement): what \<^verbatim>\<open>Recover\<close> reports is true of the world it leaves, whatever failed on the way: after "none" and
  "resumed-guest" there is no journal, after "suspended" a saved journal stands beside an image of its committed size,
  and after "discarded" (when the image can be examined) no journal is left.\<close>

theorem recover_reports_truth:
  "case run_state (recover E m) w of (r, w') \<Rightarrow>
    (case r of
       Inl _ \<Rightarrow> True
     | Inr a \<Rightarrow> (case a of
           RSuspended \<Rightarrow> saved_pair w'
         | RDiscarded \<Rightarrow> (if images_readable E then q_jour w' = JNone else True)
         | _ \<Rightarrow> q_jour w' = JNone))"
proof (rule run_hoare [OF recover_true])
  fix r :: "qerr + raction" and s :: "'a qw"
  assume "action_true E r s"
  then show "case r of Inl _ \<Rightarrow> True | Inr a \<Rightarrow> (case a of RSuspended \<Rightarrow> saved_pair s
         | RDiscarded \<Rightarrow> (if images_readable E then q_jour s = JNone else True) | _ \<Rightarrow> q_jour s = JNone)"
    by (cases r) (auto split: raction.splits)
qed

section \<open>A running guest is left alone\<close>

definition says_running :: "'w qenv \<Rightarrow> bool" where
  "says_running E \<longleftrightarrow> (\<forall>s. fst (qe_dial E s) = None) \<and> (\<forall>s. fst (qe_status E s) = Inr ''running'')"

lemma status_running: "says_running E \<Longrightarrow> hoare (\<lambda>_. True) (settled_status E n) (\<lambda>r _. r = Inr ''running'')"
  by (subst settled_status.simps, rule hoare_bind [where R = "\<lambda>r _. r = Inr ''running''"])
    (auto simp: hoare_def env_def says_running_def State_Monad.return_def case_prod_unfold split: sum.splits)

lemma dial_running: "says_running E \<Longrightarrow> hoare (\<lambda>_. True) (dial_status E) (\<lambda>r _. r = Inr ''running'')"
  unfolding dial_status_def
proof (rule hoare_bind [where R = "\<lambda>d _. d = None"], goal_cases)
  case 1
  then show ?case by (auto simp: hoare_def env_def says_running_def case_prod_unfold)
next
  case (2 d)
  show ?case by (rule hoare_option, rule hoare_pre [OF status_running [OF 2]], simp, simp add: hoare_def)
qed

lemma gentle_aside: "keeps gentle (aside_journal E)"
  by (rule keeps_hoare)
    (auto simp: aside_journal_def hoare_def State_Monad.bind_def env_def reads_def modify_def State_Monad.return_def
       gentle_def grown_def split: prod.splits option.splits if_splits jfile.splits)

lemma gentle_discard: "keeps gentle (discard_journal_then_image E)"
  unfolding discard_journal_then_image_def remove_journal_def by (intro gentle_rules)

lemma gentle_check_image: "keeps gentle (check_image E j)"
  unfolding check_image_def by (intro gentle_rules)

lemma gentle_valid_image: "keeps gentle (valid_image E j)"
  unfolding valid_image_def by (intro gentle_rules gentle_check_image)

lemma gentle_repair: "keeps gentle (repair E m)"
  unfolding repair_def repair_suspend_def by (intro gentle_rules gentle_check_image gentle_aside gentle_discard)

lemma gentle_recover_dead: "keeps gentle (recover_dead E m jr)"
  unfolding recover_dead_def by (intro gentle_rules gentle_repair gentle_valid_image)

lemma gentle_recover_discard: "keeps gentle (recover_discard E a)"
  unfolding recover_discard_def fail_plain_def by (intro gentle_rules gentle_discard)

lemma gentle_our_pid: "keeps gentle (our_pid E)"
  unfolding our_pid_def by (intro gentle_rules)

lemma gentle_dial: "keeps gentle (dial_status E)"
proof -
  have "keeps gentle (settled_status E n)" for n
    by (induction n) (subst settled_status.simps, intro gentle_rules case_pause; simp add: gentle_rules pause_def)+
  then show ?thesis unfolding dial_status_def by (intro gentle_rules)
qed

definition undisturbed :: "'w qw \<Rightarrow> 'w qw \<Rightarrow> bool" where
  "undisturbed w s \<longleftrightarrow> gentle w s \<and> silent w s"

lemma undisturbed_keeps: "keeps gentle m \<Longrightarrow> keeps silent m \<Longrightarrow> hoare (undisturbed w) m (\<lambda>_. undisturbed w)"
  by (rule hoareI) (meson keepsD undisturbed_def ge.trans si.trans)

lemma undisturbed_dial:
  assumes "says_running E"
  shows "hoare (undisturbed w) (dial_status E) (\<lambda>r s. undisturbed w s \<and> r = Inr ''running'')"
  by (rule hoareI)
    (use hoareD [OF dial_running [OF assms]] hoareD [OF undisturbed_keeps [OF gentle_dial keeps_quiet_silent [OF quiet_dial_status]]] in blast)

lemma undisturbed_recover:
  assumes run: "says_running E"
  shows "hoare (undisturbed w) (recover E m) (\<lambda>_. undisturbed w)"
proof -
  note U = undisturbed_keeps [OF gentle_recover_discard silent_recover_discard]
  have gr: "keeps gentle (discard_suspend E m)" unfolding discard_suspend_def by (intro gentle_rules gentle_discard)
  have fail: "hoare (undisturbed w) (fail_plain t) (\<lambda>_. undisturbed w)" for t
    unfolding fail_plain_def by (rule hoare_ret)
  have saving: "hoare (\<lambda>s. undisturbed w s) (recover_saving E pid ''running'') (\<lambda>_. undisturbed w)" for pid
    by (simp add: recover_saving_def U)
  have imgs: "hoare (undisturbed w) (remove_images E) (\<lambda>_. undisturbed w)"
    by (rule undisturbed_keeps [OF gentle_remove_images silent_remove_images])
  have incoming: "hoare (\<lambda>s. undisturbed w s) (recover_incoming E pid ''running'') (\<lambda>_. undisturbed w)" for pid
    by (simp add: recover_incoming_def, rule hoare_bind [OF imgs], rule hoare_ret)
  have live: "hoare (undisturbed w) (recover_live E jr pid) (\<lambda>_. undisturbed w)" for jr pid
    unfolding recover_live_def
    apply (rule hoare_bind [where R = "\<lambda>_. undisturbed w"])
     apply (rule undisturbed_keeps)
      apply (simp add: runs_normally_def, intro conjI impI gentle_rules)
     apply (rule keeps_quiet_silent [OF quiet_runs_normally])
    apply (rule hoare_if, rule hoare_bind [OF imgs], rule hoare_ret, assumption)
    apply (rule hoare_bind [OF undisturbed_dial [OF run]], rule hoare_sum, simp add: hoare_def)
    subgoal for n s st
      apply (cases "st = ''running''")
       apply (rule hoare_pre [where P' = "undisturbed w"], simp only:)
        apply (rule hoare_jread, rule incoming)
          apply (rule hoare_bind [OF undisturbed_keeps [OF gentle_aside silent_aside]], rule hoare_option)
           apply (rule hoare_bind [OF undisturbed_keeps [OF gentle_sync_dir silent_sync_dir]], rule saving)
          apply (rule fail)
         apply (rule saving)+
       apply simp
      apply (simp add: hoare_def)
      done
    done
  have saved: "hoare (undisturbed w) (recover_saved E m j pid) (\<lambda>_. undisturbed w)" for j pid
    unfolding recover_saved_def
    apply (rule hoare_bind [OF undisturbed_dial [OF run]], rule hoare_if)
     apply (rule hoare_pre [where P' = "undisturbed w"])
      apply (rule hoare_bind [OF undisturbed_keeps [OF gr silent_discard_suspend]], rule hoare_ret, assumption)
     apply simp
    apply (simp add: hoare_def)
    done
  have wj: "hoare (undisturbed w) (recover_with E m jr) (\<lambda>_. undisturbed w)" for jr
    unfolding recover_with_def
    by (rule hoare_bind [OF undisturbed_keeps [OF gentle_our_pid keeps_quiet_silent [OF quiet_our_pid]]], rule hoare_option,
        rule undisturbed_keeps [OF gentle_recover_dead silent_recover_dead], rule hoare_jread, rule live, rule live, rule live,
        rule hoare_if, rule saved, rule live)
  show ?thesis
    unfolding recover_def
    by (rule hoare_if, rule hoare_ret, assumption,
        rule hoare_bind [OF undisturbed_keeps [OF gentle_read_journal keeps_quiet_silent [OF quiet_read_journal]]],
        rule hoare_jread, rule wj, rule wj, rule fail, rule wj)
qed

text \<open>Fact (safety): recovery leaves a running guest alone: when QEMU answers that the guest runs, no process is quit,
  terminated or killed and no \<^verbatim>\<open>cont\<close> is sent, whatever journal is found.\<close>

theorem recover_leaves_running_guest:
  assumes "says_running E"
  shows "case run_state (recover E m) w of (r, w') \<Rightarrow>
    \<exists>es. q_log w' = q_log w @ es \<and> (\<forall>e \<in> set es. \<not> ends_process e \<and> \<not> is_cont e)"
proof (rule run_hoare)
  show "hoare (\<lambda>s. s = w) (recover E m) (\<lambda>_. undisturbed w)"
    by (rule hoare_pre [OF undisturbed_recover [OF assms]]) (simp add: undisturbed_def ge.refl si.refl)
next
  fix r :: "qerr + raction" and s :: "'a qw"
  assume "undisturbed w s"
  then show "\<exists>es. q_log s = q_log w @ es \<and> (\<forall>e \<in> set es. \<not> ends_process e \<and> \<not> is_cont e)"
    by (auto simp: undisturbed_def gentle_def silent_def grown_def)
qed

section \<open>Witnesses\<close>

lemma demo_says_running: "says_running demo_env"
  by (simp add: says_running_def demo_env_def)

theorem recover_leaves_running_guest_witness:
  "case run_state (recover demo_env demo_machine) demo_saving of (r, w') \<Rightarrow>
    \<forall>e \<in> set (q_log w'). \<not> ends_process e \<and> \<not> is_cont e"
  using recover_leaves_running_guest [OF demo_says_running, where m = demo_machine and w = demo_saving]
  by (auto simp: demo_saving_def demo_world_def split: prod.splits)

theorem recover_never_continues_saved_witness:
  "case run_state (recover demo_env demo_machine) demo_saving of (r, w') \<Rightarrow>
    \<exists>es. q_log w' = es \<and>
      (\<forall>e \<in> set es. case e of LCont j d \<Rightarrow> \<not> is_saved j \<and> (if unsaved demo_saving then (\<forall>f \<in> set d. \<not> is_saved f) else True) | _ \<Rightarrow> True)"
  using recover_never_continues_saved [where E = demo_env and m = demo_machine and w = demo_saving] by (simp add: demo_saving_def demo_world_def)

theorem resume_order_witness:
  "case run_state (resume_suspended demo_env demo_machine) (demo_world (JFile (demo_journal saved 9)) (Some 9)) of (r, w') \<Rightarrow>
    \<exists>es fs. q_log w' = es @ fs \<and> durably_gone fs"
  using resume_order [where E = demo_env and m = demo_machine and w = "demo_world (JFile (demo_journal saved 9)) (Some 9)"]
  by (auto simp: demo_world_def split: prod.splits)

theorem prepare_result_witness:
  "case run_state (prepare_suspend demo_env demo_machine \<lparr>sp_reason = [], sp_meta = []\<rparr>) (demo_world JNone None) of (r, w') \<Rightarrow>
    \<exists>es. q_log w' = es \<and> (\<forall>e \<in> set es. \<not> is_cont e)"
  using prepare_result [where E = demo_env and m = demo_machine and pl = "\<lparr>sp_reason = [], sp_meta = []\<rparr>" and w = "demo_world JNone None"]
  by (auto simp: demo_world_def split: prod.splits)

end
