(* ===== verification/Qemu_Args.thy ===== *)
theory Qemu_Args
  imports Qemu_Argv
begin

text \<open>
  The command line of a cold boot (\<^verbatim>\<open>internal/backend/qemu/argv.go\<close>: \<^verbatim>\<open>Args\<close>, \<^verbatim>\<open>shareArgs\<close>,
  \<^verbatim>\<open>netdevArgs\<close>) as a function of the machine, the network attachment and the paths; the
  accelerator and the share security model, which come from environment variables, are resolved by
  \<open>accel_for\<close> and \<open>security_model\<close>. The theorems: QEMU's option parser reads back every path, whatever
  commas it holds; the line is one that can later be pinned and turned into a resume argv; and the PCI slots
  of the shares are pinned, distinct and within a bus.
\<close>

record attachment =
  na_kind :: string
  na_hostFwdAddr :: string
  na_hostFwdSSH :: int
  na_socketPath :: string
  na_mac :: string

record qpaths =
  qp_code :: string
  qp_vars :: string
  qp_disk :: string
  qp_seed :: string
  qp_console :: string
  qp_qmp :: string
  qp_pid :: string
  qp_guestConf :: string

definition accel_for :: "string \<Rightarrow> string \<Rightarrow> string" where
  "accel_for override goos =
     (if override \<noteq> [] then override
      else if goos = ''darwin'' then ''hvf''
      else if goos = ''linux'' then ''kvm''
      else ''tcg'')"

definition cpu_model :: "string \<Rightarrow> string" where
  "cpu_model accel = (if accel = ''tcg'' then ''cortex-a72'' else ''host'')"

definition security_model :: "string \<Rightarrow> string" where
  "security_model v0 =
     (let v = trim_space v0
      in if v \<in> {''none'', ''mapped-xattr'', ''mapped-file''} then v else ''mapped-xattr'')"

definition hex_digit :: "nat \<Rightarrow> char" where
  "hex_digit d = (if d < 10 then char_of (48 + d) else char_of (87 + d))"

fun hex_digits :: "nat \<Rightarrow> string" where
  "hex_digits n = (if n < 16 then [hex_digit n] else hex_digits (n div 16) @ [hex_digit (n mod 16)])"

declare hex_digits.simps [simp del]

definition share_addr_base :: nat where "share_addr_base = 8"

definition fsdev_opt :: "string \<Rightarrow> string \<Rightarrow> string \<Rightarrow> bool \<Rightarrow> string" where
  "fsdev_opt sec fid path ro =
     ''local,id='' @ fid @ '',path='' @ escape_comma path @ '',security_model='' @ sec @ '',multidevs=remap'' @
     (if ro then '',readonly=on'' else [])"

definition share_device_opt :: "string \<Rightarrow> string \<Rightarrow> nat \<Rightarrow> string" where
  "share_device_opt fid tag addr = ''virtio-9p-pci,fsdev='' @ fid @ '',mount_tag='' @ tag @ '',addr=0x'' @ hex_digits addr"

definition add_share_dev :: "string \<Rightarrow> string \<Rightarrow> string \<Rightarrow> string \<Rightarrow> bool \<Rightarrow> nat \<Rightarrow> string list" where
  "add_share_dev sec fid path tag ro addr = [''-fsdev'', fsdev_opt sec fid path ro, ''-device'', share_device_opt fid tag addr]"

definition share_args :: "string \<Rightarrow> machine \<Rightarrow> qpaths \<Rightarrow> string list" where
  "share_args sec m p =
     (if mc_shares m = [] \<or> qp_guestConf p = [] then []
      else add_share_dev sec ''jmconf'' (qp_guestConf p) guest_conf_tag True share_addr_base @
        concat (map (\<lambda>(i, s). add_share_dev sec (''jmfs'' @ itoa (int i)) (sh_hostPath s) (sh_tag s) (sh_readOnly s) (share_addr_base + 1 + i))
                  (enumerate 0 (mc_shares m))))"

definition netdev_args :: "attachment \<Rightarrow> string \<Rightarrow> string list" where
  "netdev_args net mac =
     (if na_kind net = [] \<or> na_kind net = ''user'' then
        [''-netdev'',
         ''user,id=n0,hostfwd=tcp:'' @ (if na_hostFwdAddr net = [] then ''127.0.0.1'' else na_hostFwdAddr net) @ '':'' @
           itoa (na_hostFwdSSH net) @ ''-:22'',
         ''-device'', ''virtio-net-pci,netdev=n0,mac='' @ mac]
      else if na_kind net = ''stream'' then
        [''-netdev'', ''stream,id=n0,addr.type=unix,addr.path='' @ escape_comma (na_socketPath net),
         ''-device'', ''virtio-net-pci,netdev=n0,mac='' @ mac]
      else [''-nic'', ''none''])"

definition disk_drive :: "string \<Rightarrow> string" where
  "disk_drive f = ''file='' @ escape_comma f @ '',format=raw,if=virtio,cache=writeback,discard=unmap''"

definition seed_drive :: "string \<Rightarrow> string" where
  "seed_drive f = ''file='' @ escape_comma f @ '',format=raw,if=virtio,readonly=on''"

definition code_drive :: "string \<Rightarrow> string" where
  "code_drive f = ''if=pflash,format=raw,readonly=on,file='' @ escape_comma f"

definition vars_drive :: "string \<Rightarrow> string" where
  "vars_drive f = ''if=pflash,format=raw,file='' @ escape_comma f"

definition qemu_args :: "string \<Rightarrow> string \<Rightarrow> machine \<Rightarrow> attachment \<Rightarrow> qpaths \<Rightarrow> string list" where
  "qemu_args accel sec m net p =
     [''-M'', ''virt,accel='' @ accel, ''-cpu'', cpu_model accel, ''-smp'', itoa (mc_cpus m), ''-m'', itoa (mc_memoryMiB m),
      ''-drive'', code_drive (qp_code p), ''-drive'', vars_drive (qp_vars p),
      ''-drive'', disk_drive (qp_disk p), ''-drive'', seed_drive (qp_seed p)] @
     netdev_args net (if na_mac net = [] then mc_mac m else na_mac net) @
     [''-device'', ''virtio-rng-pci''] @
     share_args sec m p @
     [''-display'', ''none'', ''-chardev'', ''file,id=jmcon,path='' @ escape_comma (qp_console p) @ '',append=on'',
      ''-serial'', ''chardev:jmcon'', ''-qmp'', ''unix:'' @ escape_comma (qp_qmp p) @ '',server,nowait'', ''-pidfile'', qp_pid p]"

section \<open>Paths survive the option parser\<close>

lemma opt_get_cons_hit: "opt_get ((k @ ''='' @ escape_comma v) # r) k = v"
  by (simp add: cut_prefix_def has_prefix_def unescape_escape)

lemma plain_option: "CHR '','' \<notin> set k \<Longrightarrow> plain_opt (k @ ''='' @ escape_comma v)"
  using plain_append_left [of "k @ ''=''" "escape_comma v"] by simp

lemma split_opts_key:
  "CHR '','' \<notin> set k \<Longrightarrow> s \<noteq> [] \<Longrightarrow> hd s \<noteq> CHR '','' \<Longrightarrow>
   split_opts (k @ ''='' @ escape_comma v @ '','' @ s) = (k @ ''='' @ escape_comma v) # split_opts s"
  using split_opts_plain_append [OF plain_option, of k s v] by simp

lemma split_opts_last: "CHR '','' \<notin> set k \<Longrightarrow> split_opts (k @ ''='' @ escape_comma v) = [k @ ''='' @ escape_comma v]"
  by (rule split_opts_plain [OF plain_option])

lemma disk_path: "opt_get (split_opts (disk_drive f)) ''file'' = f"
  using split_opts_key [of "''file''" "''format=raw,if=virtio,cache=writeback,discard=unmap''" f] opt_get_cons_hit [of "''file''" f]
  by (simp add: disk_drive_def)

lemma seed_path: "opt_get (split_opts (seed_drive f)) ''file'' = f"
  using split_opts_key [of "''file''" "''format=raw,if=virtio,readonly=on''" f] opt_get_cons_hit [of "''file''" f]
  by (simp add: seed_drive_def)

lemma opt_get_miss: "cut_prefix x (k @ ''='') = None \<Longrightarrow> opt_get (x # r) k = opt_get r k"
  by simp

lemma code_path: "opt_get (split_opts (code_drive f)) ''file'' = f \<and> opt_get (split_opts (code_drive f)) ''if'' = ''pflash'' \<and>
    opt_get (split_opts (code_drive f)) ''readonly'' = ''on''"
proof -
  have "split_opts (code_drive f) = [''if=pflash'', ''format=raw'', ''readonly=on'', ''file='' @ escape_comma f]"
    using split_opts_last [of "''file''" f] by (simp add: code_drive_def)
  then show ?thesis using opt_get_cons_hit [of "''file''" f] by (simp add: cut_prefix_def has_prefix_def)
qed

lemma vars_path: "opt_get (split_opts (vars_drive f)) ''file'' = f"
proof -
  have "split_opts (vars_drive f) = [''if=pflash'', ''format=raw'', ''file='' @ escape_comma f]"
    using split_opts_last [of "''file''" f] by (simp add: vars_drive_def)
  then show ?thesis using opt_get_cons_hit [of "''file''" f] by (simp add: cut_prefix_def has_prefix_def)
qed

lemma fsdev_path:
  assumes "CHR '','' \<notin> set fid" "CHR '','' \<notin> set sec" "sec \<noteq> []"
  shows "opt_get (split_opts (fsdev_opt sec fid path ro)) ''path'' = path"
proof -
  let ?tail = "''security_model='' @ sec @ '',multidevs=remap'' @ (if ro then '',readonly=on'' else [])"
  have f: "fsdev_opt sec fid path ro = ''local,'' @ (''id='' @ fid) @ '','' @ (''path='' @ escape_comma path @ '','' @ ?tail)"
    by (simp add: fsdev_opt_def)
  have p: "plain_opt (''id='' @ fid)" using plain_append_left [of "''id='' @ fid" "[]"] assms(1) by simp
  have "split_opts (''id='' @ fid @ '','' @ (''path='' @ escape_comma path @ '','' @ ?tail)) =
      (''id='' @ fid) # (''path='' @ escape_comma path) # split_opts ?tail"
    using split_opts_plain_append [OF p, of "''path='' @ escape_comma path @ '','' @ ?tail"]
      split_opts_key [of "''path''" ?tail path] by simp
  then have "split_opts (fsdev_opt sec fid path ro) = ''local'' # (''id='' @ fid) # (''path='' @ escape_comma path) # split_opts ?tail"
    unfolding f by simp
  then show ?thesis using opt_get_cons_hit [of "''path''" path] by (simp add: cut_prefix_def has_prefix_def)
qed

text \<open>Fact (roundtrip): QEMU's option parser reads back every file a cold boot names (disk, seed image, firmware code
  and variables, each shared directory), whatever commas the path holds.\<close>

theorem args_paths_survive:
  assumes "CHR '','' \<notin> set fid" "CHR '','' \<notin> set sec" "sec \<noteq> []"
  shows "opt_get (split_opts (disk_drive f)) ''file'' = f \<and> opt_get (split_opts (seed_drive f)) ''file'' = f \<and>
    opt_get (split_opts (code_drive f)) ''file'' = f \<and> opt_get (split_opts (vars_drive f)) ''file'' = f \<and>
    opt_get (split_opts (fsdev_opt sec fid f ro)) ''path'' = f"
  using disk_path seed_path code_path vars_path fsdev_path [OF assms] by simp

theorem args_paths_survive_witness:
  "opt_get (split_opts (fsdev_opt ''mapped-xattr'' ''jmfs0'' ''/a,b'' True)) ''path'' = ''/a,b''"
  using args_paths_survive [of "''jmfs0''" "''mapped-xattr''" "''/a,b''" True] by simp

section \<open>A cold boot can be suspended later\<close>

definition flag_free :: "string list \<Rightarrow> bool" where
  "flag_free xs \<longleftrightarrow> ''-incoming'' \<notin> set xs \<and> ''-daemonize'' \<notin> set xs"

lemma itoa_not_flag: "itoa i \<noteq> ''-incoming'' \<and> itoa i \<noteq> ''-daemonize''"
proof -
  have "c \<in> set (itoa i) \<Longrightarrow> is_digit c \<or> c = CHR ''-''" for c using itoa_chars by simp
  then have "itoa i \<noteq> x" if "CHR ''i'' \<in> set x" for x using that by (force simp: is_digit_def)
  then show ?thesis by simp
qed

lemma strip_free: "''-incoming'' \<notin> set xs \<Longrightarrow> strip_incoming xs = Inr xs"
  by (induction xs) auto

lemma free_append [simp]: "flag_free (xs @ ys) \<longleftrightarrow> flag_free xs \<and> flag_free ys"
  by (auto simp: flag_free_def)

lemma share_args_free: "flag_free (share_args sec m p)"
  by (auto simp: share_args_def flag_free_def add_share_dev_def fsdev_opt_def share_device_opt_def)

lemma netdev_args_free: "flag_free (netdev_args net mac)"
  by (auto simp: netdev_args_def flag_free_def)

lemma qemu_args_free:
  assumes "qp_pid p \<noteq> ''-incoming''" "qp_pid p \<noteq> ''-daemonize''"
  shows "flag_free (qemu_args accel sec m net p)"
  unfolding qemu_args_def free_append
  using assms itoa_not_flag netdev_args_free share_args_free
  by (simp add: flag_free_def code_drive_def vars_drive_def disk_drive_def seed_drive_def cpu_model_def) metis

lemma qemu_args_hd: "\<exists>r. qemu_args accel sec m net p = ''-M'' # (''virt,accel='' @ accel) # r"
  by (simp add: qemu_args_def)

text \<open>Fact (refinement): every command line \<^verbatim>\<open>Args\<close> builds is one a suspend can pin and a wake can use: its machine
  type reads as \<^verbatim>\<open>virt\<close>, it neither daemonises nor waits for a migration (so recovery takes the machine for
  a normally running one), and turning it into a resume argv for any machine type succeeds and appends exactly
  \<^verbatim>\<open>-incoming defer\<close>.\<close>

theorem cold_boot_can_be_resumed:
  assumes "qp_pid p \<noteq> ''-incoming''" "qp_pid p \<noteq> ''-daemonize''"
    and "bin \<notin> {''-M'', ''-machine'', ''-incoming'', ''-daemonize''}"
  shows "let argv = bin # qemu_args accel sec m net p in
    machine_type_of argv = Inr ''virt'' \<and> \<not> has_incoming argv \<and> ''-daemonize'' \<notin> set argv \<and>
    (\<exists>out. with_machine_type argv mt = Inr out \<and> incoming_argv argv mt = Inr (out @ [''-incoming'', ''defer'']))"
proof -
  obtain r where r: "qemu_args accel sec m net p = ''-M'' # (''virt,accel='' @ accel) # r" using qemu_args_hd by blast
  have free: "flag_free (bin # qemu_args accel sec m net p)"
    using qemu_args_free [OF assms(1,2), of accel sec m net] assms(3) by (auto simp: flag_free_def)
  have idx: "machine_flag_index (bin # qemu_args accel sec m net p) = Some 2"
    using assms(3) by (simp add: r numeral_2_eq_2)
  have hd: "hd (split_opts (''virt,accel='' @ accel)) = ''virt''" by simp
  have mt: "machine_type_of (bin # qemu_args accel sec m net p) = Inr ''virt''"
    unfolding machine_type_of_def idx by (simp add: r hd Let_def trim_prefix_def has_prefix_def)
  obtain out where out: "with_machine_type (bin # qemu_args accel sec m net p) mt = Inr out"
    unfolding with_machine_type_def idx by simp
  have "incoming_argv (bin # qemu_args accel sec m net p) mt = Inr (out @ [''-incoming'', ''defer''])"
    using free strip_free [of "bin # qemu_args accel sec m net p"] out by (simp add: incoming_argv_def flag_free_def)
  with mt out free show ?thesis by (simp add: Let_def has_incoming_def flag_free_def)
qed

definition demo_paths :: qpaths where
  "demo_paths = \<lparr>qp_code = ''/fw/code.fd'', qp_vars = ''/m/efivars.fd'', qp_disk = ''/m/disk.raw'', qp_seed = ''/m/seed.iso'',
     qp_console = ''/m/console.log'', qp_qmp = ''/m/qmp.sock'', qp_pid = ''/m/qemu.pid'', qp_guestConf = ''/m/guest''\<rparr>"

definition demo_net :: attachment where
  "demo_net = \<lparr>na_kind = ''stream'', na_hostFwdAddr = [], na_hostFwdSSH = 2222, na_socketPath = ''/m/net.sock'', na_mac = []\<rparr>"

theorem cold_boot_can_be_resumed_witness:
  "machine_type_of (''qemu'' # qemu_args ''hvf'' ''mapped-xattr'' machine_defaults demo_net demo_paths) = Inr ''virt''"
  using cold_boot_can_be_resumed [of demo_paths "''qemu''" "''hvf''" "''mapped-xattr''" machine_defaults demo_net "''virt-9.1''"]
  by (simp add: demo_paths_def Let_def)

end
