(* ===== verification/Qemu_Lifecycle.thy ===== *)
theory Qemu_Lifecycle
  imports Qemu_Recover Qemu_Args "HOL-Library.Sublist"
begin

text \<open>
  Booting and stopping (\<^verbatim>\<open>internal/backend/qemu/qemu.go\<close>: \<^verbatim>\<open>Start\<close>, \<^verbatim>\<open>waitLaunched\<close>, \<^verbatim>\<open>ready\<close>,
  \<^verbatim>\<open>Stop\<close>, \<^verbatim>\<open>shutdown\<close>). The theorems: a suspended machine is never booted while its files can be
  read; a launch never happens twice; \<^verbatim>\<open>Stop\<close> signals only a process that is our QEMU, in the order
  power-down, SIGTERM, SIGKILL, and no guest is continued by either.
\<close>

section \<open>Start\<close>

definition ready :: "'w qenv \<Rightarrow> int \<Rightarrow> ('w, bool) qm" where
  "ready E pid = do {
     f \<leftarrow> env (qe_pidfile E);
     if f \<noteq> PidIs pid then ret False
     else do {
       d \<leftarrow> env (qe_dial E);
       case d of
         Some _ \<Rightarrow> ret False
       | None \<Rightarrow> do { s \<leftarrow> env (qe_status E); ret (s = Inr ''prelaunch'' \<or> s = Inr ''running'') } } }"

definition launch_fail :: "'w qenv \<Rightarrow> int \<Rightarrow> qerr \<Rightarrow> ('w, qerr option) qm" where
  "launch_fail E pid err = do {
     a \<leftarrow> env (qe_alive E pid);
     gone \<leftarrow> (if a then kill_and_wait E pid else ret True);
     if gone then do { _ \<leftarrow> remove_all E [RPid, RQmp]; ret (Some err) }
     else do {
       f \<leftarrow> env (qe_pidfile E);
       _ \<leftarrow> (if f = PidIs pid then ret None else env (qe_fs E (FPidWrite pid)));
       ret (Some (err_note err (''; pid '' @ itoa pid @ '' did not exit after SIGKILL''))) } }"

definition launch_timeout_ms :: int where "launch_timeout_ms = 15000"
definition launch_poll :: int where "launch_poll = 50"

fun wait_launched :: "'w qenv \<Rightarrow> int \<Rightarrow> nat \<Rightarrow> ('w, qerr option) qm" where
  "wait_launched E pid n = do {
     a \<leftarrow> env (qe_alive E pid);
     if \<not> a then do { t \<leftarrow> env (qe_tail E); launch_fail E pid (EPlain (''qemu: exited during startup: '' @ t)) }
     else do {
       r \<leftarrow> ready E pid;
       if r then ret None
       else do {
         p \<leftarrow> pause E (n = 0);
         case p of
           Late \<Rightarrow> do { t \<leftarrow> env (qe_tail E); launch_fail E pid (EPlain (''qemu: not ready (no pid file or QMP answer); killed it: '' @ t)) }
         | Cancelled t \<Rightarrow> launch_fail E pid (EPlain (''qemu: waiting for startup: '' @ t))
         | Again \<Rightarrow> (case n of 0 \<Rightarrow> ret None | Suc k \<Rightarrow> wait_launched E pid k) } } }"

declare wait_launched.simps [simp del]

text \<open>The state at the entry: what \<^verbatim>\<open>Start\<close> refuses, and the repair of a broken machine.\<close>

definition start_gate :: "'w qenv \<Rightarrow> machine \<Rightarrow> ('w, qerr option) qm" where
  "start_gate E m = do {
     st \<leftarrow> q_state E m;
     case st of
       Inl e \<Rightarrow> ret (Some e)
     | Inr b \<Rightarrow>
         (if b = Running then ret (Some ERunning)
          else if b = Suspended then ret (Some ESuspended)
          else if b = Broken then do {
            e \<leftarrow> repair E m;
            case e of
              Some x \<Rightarrow> ret (Some (EPlain (''qemu: repairing stale state: '' @ err_text x)))
            | None \<Rightarrow> do {
                st2 \<leftarrow> q_state E m;
                ret (case st2 of Inl e \<Rightarrow> Some e | Inr b2 \<Rightarrow> if b2 = Suspended then Some ESuspended else None) } }
          else ret None) }"

definition drop_orphans :: "'w qenv \<Rightarrow> ('w, string option) qm" where
  "drop_orphans E = do {
     ls \<leftarrow> env (qe_fs E FJournalStat);
     f \<leftarrow> reads q_jour;
     if ls = None \<and> f = JNone then remove_images E else ret None }"

text \<open>The files and the argv of the launch; \<open>socket_len\<close> is the length of the QMP socket's path.\<close>

definition start_files :: "'w qenv \<Rightarrow> machine \<Rightarrow> qpaths \<Rightarrow> ('w, qerr + string \<times> string) qm" where
  "start_files E m p = do {
     d \<leftarrow> env (qe_fs E FDiskStat);
     case d of
       Some t \<Rightarrow> ret (Inl (EPlain (''qemu: disk image missing (run 'jm init'): '' @ t)))
     | None \<Rightarrow> do {
         b \<leftarrow> env (qe_lookup E);
         case b of
           Inl t \<Rightarrow> ret (Inl (EPlain t))
         | Inr bin \<Rightarrow> do {
             w \<leftarrow> env (qe_firmware E bin);
             case w of
               Inl t \<Rightarrow> ret (Inl (EPlain t))
             | Inr fw \<Rightarrow> do {
                 v \<leftarrow> env (qe_fs E (FEfivars fw));
                 case v of
                   Some t \<Rightarrow> ret (Inl (EPlain t))
                 | None \<Rightarrow>
                     (if length (qp_qmp p) > 103
                      then ret (Inl (EPlain (''qemu: QMP socket path '' @ quote (qp_qmp p) @ '' is '' @ itoa (int (length (qp_qmp p))) @ '' bytes'')))
                      else do {
                        r \<leftarrow> remove_all E [RQmp];
                        case r of
                          Some t \<Rightarrow> ret (Inl (EPlain (''qemu: removing stale QMP socket: '' @ t)))
                        | None \<Rightarrow> do {
                            s \<leftarrow> env (qe_fs E FShareTable);
                            case s of
                              Some t \<Rightarrow> ret (Inl (EPlain t))
                            | None \<Rightarrow> do {
                                c \<leftarrow> env (qe_fs E FConsole);
                                ret (case c of Some t \<Rightarrow> Inl (EPlain t) | None \<Rightarrow> Inr (bin, fw)) } } }) } } } }"

definition start_boot :: "'w qenv \<Rightarrow> string \<Rightarrow> string \<Rightarrow> host \<Rightarrow> machine \<Rightarrow> attachment \<Rightarrow> qpaths \<Rightarrow> ('w, qerr option) qm" where
  "start_boot E accel sec H m net p = do {
     o1 \<leftarrow> drop_orphans E;
     case o1 of
       Some t \<Rightarrow> ret (Some (EPlain (''qemu: removing an orphan suspend image: '' @ t)))
     | None \<Rightarrow> do {
         f \<leftarrow> start_files E m p;
         case f of
           Inl e \<Rightarrow> ret (Some e)
         | Inr bf \<Rightarrow> do {
             let args = qemu_args accel sec (m\<lparr>mc_shares := fst (usable_shares H (mc_shares m))\<rparr>) net
                          (p\<lparr>qp_code := snd bf @ ''/edk2-aarch64-code.fd''\<rparr>);
             a \<leftarrow> env (qe_fs E FArgvWrite);
             case a of
               Some t \<Rightarrow> ret (Some (EPlain t))
             | None \<Rightarrow> do {
                 log_event (LLaunch (fst bf # args));
                 l \<leftarrow> env (qe_launch E (fst bf # args));
                 case l of
                   Inl t \<Rightarrow> ret (Some (EPlain (''qemu: failed to start: '' @ t)))
                 | Inr pid \<Rightarrow> wait_launched E pid (polls launch_timeout_ms launch_poll) } } } }"

definition start :: "'w qenv \<Rightarrow> string \<Rightarrow> string \<Rightarrow> host \<Rightarrow> machine \<Rightarrow> attachment \<Rightarrow> qpaths \<Rightarrow> ('w, qerr option) qm" where
  "start E accel sec H m net p = do {
     g \<leftarrow> start_gate E m;
     case g of Some e \<Rightarrow> ret (Some e) | None \<Rightarrow> start_boot E accel sec H m net p }"

section \<open>Stop\<close>

definition graceful_timeout :: int where "graceful_timeout = 30000"

text \<open>One signal and the wait after it: \<open>qe_term\<close> and \<open>qe_kill\<close> report whether the signal was delivered.\<close>

definition signal_and_wait :: "'w qenv \<Rightarrow> bool \<Rightarrow> int \<Rightarrow> ('w, bool) qm" where
  "signal_and_wait E term_first pid = do {
     log_event (if term_first then LTerm pid else LKill pid);
     s \<leftarrow> env (if term_first then qe_term E pid else qe_kill E pid);
     a \<leftarrow> (if s then ret True else env (qe_alive E pid));
     if \<not> a then ret True else env (qe_wait E pid term_timeout) }"

definition shutdown :: "'w qenv \<Rightarrow> int \<Rightarrow> bool \<Rightarrow> ('w, qerr option) qm" where
  "shutdown E pid graceful = do {
     g \<leftarrow> (if graceful then do {
            d \<leftarrow> env (qe_dial E);
            _ \<leftarrow> (if d = None then m_cmd E CPowerdown else ret None);
            env (qe_wait E pid graceful_timeout) }
          else ret False);
     if g then ret None
     else do {
       t \<leftarrow> signal_and_wait E True pid;
       if t then ret None
       else do {
         k \<leftarrow> signal_and_wait E False pid;
         ret (if k then None else Some (EPlain (''qemu: pid '' @ itoa pid @ '' did not exit after SIGKILL''))) } } }"

definition stop_running :: "'w qenv \<Rightarrow> bool \<Rightarrow> ('w, qerr option) qm" where
  "stop_running E graceful = do {
     f \<leftarrow> env (qe_pidfile E);
     case f of
       PidMissing \<Rightarrow> ret (Some (EPlain ''file does not exist''))
     | PidBad t \<Rightarrow> ret (Some (EPlain t))
     | PidIs pid \<Rightarrow> do {
         s \<leftarrow> shutdown E pid graceful;
         case s of
           Some e \<Rightarrow> ret (Some e)
         | None \<Rightarrow> do { e \<leftarrow> remove_all E [RPid, RQmp]; ret (map_option EPlain e) } } }"

definition stop :: "'w qenv \<Rightarrow> machine \<Rightarrow> bool \<Rightarrow> ('w, qerr option) qm" where
  "stop E m graceful = do {
     st \<leftarrow> q_state E m;
     case st of
       Inl e \<Rightarrow> ret (Some e)
     | Inr b \<Rightarrow> (if b \<noteq> Running then repair E m else stop_running E graceful) }"

section \<open>Reading the state\<close>

text \<open>\<open>still\<close>: nothing of what the model records moved.\<close>

definition still :: "'w qw \<Rightarrow> 'w qw \<Rightarrow> bool" where
  "still w s \<longleftrightarrow> s = w\<lparr>q_env := q_env s\<rparr>"

interpretation st: world_order still
proof
  fix u v w :: "'w qw"
  assume "still u v" "still v w"
  then show "still u w" by (cases u; cases v; cases w) (simp add: still_def)
qed (simp_all add: still_def)

lemma still_read_journal: "keeps still (read_journal E)"
  unfolding read_journal_def by (intro st.rules)

lemma still_valid_image: "keeps still (valid_image E j)"
  unfolding valid_image_def check_image_def by (intro st.rules)

lemma still_q_state: "keeps still (q_state E m)"
  unfolding q_state_def state_from_files_def state_from_pid_file_def by (intro st.rules still_read_journal still_valid_image)

definition files_readable :: "'w qenv \<Rightarrow> bool" where
  "files_readable E \<longleftrightarrow> (\<forall>s. fst (qe_fs E FJournalRead s) = None \<and> fst (qe_fs E FImageStat s) = None)"

lemma readable_read:
  "files_readable E \<Longrightarrow> hoare (\<lambda>s. q_jour s = JFile j \<and> valid_phase j \<and> q_image s = i) (read_journal E)
     (\<lambda>r s. r = ReadJournal j \<and> q_jour s = JFile j \<and> q_image s = i)"
  by (auto simp: read_journal_def hoare_def State_Monad.bind_def env_def reads_def State_Monad.return_def files_readable_def valid_phase_def
      split: prod.splits option.splits) (metis fst_conv option.distinct(1))+

lemma readable_valid:
  assumes "files_readable E" "jn_phase j = saved" "0 < jn_imageBytes j"
  shows "hoare (\<lambda>s. q_image s = Some (jn_imageBytes j)) (valid_image E j) (\<lambda>v _. v)"
  using assms
  by (auto simp: valid_image_def check_image_def hoare_def State_Monad.bind_def env_def reads_def State_Monad.return_def files_readable_def
      split: prod.splits option.splits) (metis fst_conv option.distinct(1))+

lemma pair_state:
  assumes "files_readable E"
  shows "hoare saved_pair (q_state E m) (\<lambda>r _. r \<in> {Inl ENoDir, Inr Running, Inr Suspended})"
proof (rule hoareI)
  fix s r t
  assume "saved_pair s" and run: "run_state (q_state E m) s = (r, t)"
  then obtain j where j: "q_jour s = JFile j" "valid_phase j" "jn_phase j = saved" "0 < jn_imageBytes j" "q_image s = Some (jn_imageBytes j)"
    by (auto simp: saved_pair_def pair_ok_def split: jfile.splits)
  let ?P = "\<lambda>s. q_jour s = JFile j \<and> valid_phase j \<and> q_image s = Some (jn_imageBytes j)"
  have mv: "hoare ?P (env f) (\<lambda>_. ?P)" for f :: "'a \<Rightarrow> 'b \<times> 'a" by (rule hoare_env) simp
  have pid: "hoare ?P (state_from_pid_file E) (\<lambda>_. ?P)"
    unfolding state_from_pid_file_def by (intro hoare_bind [OF mv] hoare_pidfile hoare_ret) auto
  have "hoare ?P (state_from_files E) (\<lambda>b _. b \<in> {Running, Suspended})"
    unfolding state_from_files_def
  proof (rule hoare_bind [OF pid], rule hoare_if, rule hoare_ret, simp, goal_cases)
    case (1 p)
    show ?case
    proof (rule hoare_bind [OF readable_read [OF assms]], rule hoareI)
      fix x s r t
      assume x: "x = ReadJournal j \<and> q_jour s = JFile j \<and> q_image s = Some (jn_imageBytes j)"
        and run: "run_state (case x of ReadMissing \<Rightarrow> ret p | ReadBad _ \<Rightarrow> ret Broken | ReadIo _ \<Rightarrow> ret Broken
          | ReadJournal j \<Rightarrow> (if jn_phase j = saved then do { v \<leftarrow> valid_image E j; ret (if v then Suspended else Broken) } else ret Broken)) s = (r, t)"
      obtain v u where v: "run_state (valid_image E j) s = (v, u)" by fastforce
      have "v" by (rule hoareD [OF readable_valid [OF assms j(3,4)] _ v]) (simp add: x)
      with run x v j(3) show "r \<in> {Running, Suspended}" by (auto simp: State_Monad.bind_def State_Monad.return_def)
    qed
  qed
  then have "hoare ?P (q_state E m) (\<lambda>r _. r \<in> {Inl ENoDir, Inr Running, Inr Suspended})"
    unfolding q_state_def by (intro hoare_if hoare_ret hoare_bind [of _ "state_from_files E" "\<lambda>b _. b \<in> {Running, Suspended}"]) auto
  then show "r \<in> {Inl ENoDir, Inr Running, Inr Suspended}" by (rule hoareD [OF _ _ run]) (simp add: j)
qed

lemma gate_refuses:
  assumes "files_readable E"
  shows "hoare saved_pair (start_gate E m) (\<lambda>r _. r \<noteq> None)"
  unfolding start_gate_def
  by (rule hoare_bind [OF pair_state [OF assms]]) (auto simp: hoare_def State_Monad.return_def split: sum.splits)

lemma still_gate:
  assumes "files_readable E" "saved_pair w" and run: "run_state (start_gate E m) w = (r, t)"
  shows "still w t"
proof -
  obtain b u where b: "run_state (q_state E m) w = (b, u)" by fastforce
  have "b \<in> {Inl ENoDir, Inr Running, Inr Suspended}" by (rule hoareD [OF pair_state [OF assms(1)] assms(2) b])
  moreover have "still w u" by (rule keepsD [OF still_q_state b])
  ultimately show ?thesis using run b by (auto simp: start_gate_def State_Monad.bind_def State_Monad.return_def)
qed

lemma still_pair: "still w s \<Longrightarrow> saved_pair s = saved_pair w"
  by (simp add: still_def saved_pair_def) (metis qw.select_convs(2,4) qw.surjective qw.update_convs(1))

lemma gate_none:
  assumes R: "files_readable E" and run: "run_state (start_gate E m) w = (None, t)"
  shows "\<not> saved_pair t"
proof -
  obtain b u where b: "run_state (q_state E m) w = (b, u)" by fastforce
  have su: "still w u" by (rule keepsD [OF still_q_state b])
  have np: "b \<notin> {Inl ENoDir, Inr Running, Inr Suspended} \<Longrightarrow> \<not> saved_pair u"
    using hoareD [OF pair_state [OF R] _ b] still_pair [OF su] by blast
  obtain x where x: "b = Inr x" "x = Stopped \<or> x = Broken"
    using run b by (cases b) (auto simp: start_gate_def State_Monad.bind_def State_Monad.return_def split: if_splits, metis bstate.exhaust)
  show ?thesis
  proof (cases "x = Stopped")
    case True
    then have "t = u" using run b x by (simp add: start_gate_def State_Monad.bind_def State_Monad.return_def)
    then show ?thesis using np x True by simp
  next
    case False
    then have x: "b = Inr Broken" using x by simp
    obtain e v where e: "run_state (repair E m) u = (e, v)" by fastforce
    have "repair_done u e v" by (rule hoareD [OF repair_done_spec _ e]) (simp add: same_pair_def)
    moreover have "e = None" using run b x e by (cases e) (auto simp: start_gate_def State_Monad.bind_def State_Monad.return_def)
    ultimately have nv: "\<not> saved_pair v" using np x by (auto simp: repair_done_def saved_pair_def pair_ok_def)
    obtain c z where c: "run_state (q_state E m) v = (c, z)" by fastforce
    have "t = z" using run b x e c \<open>e = None\<close> by (simp add: start_gate_def State_Monad.bind_def State_Monad.return_def)
    then show ?thesis using nv still_pair [OF keepsD [OF still_q_state c]] by simp
  qed
qed

text \<open>The boot itself: no journal is touched, and an image only when there is no journal.\<close>

definition boot_rel :: "'w qw \<Rightarrow> 'w qw \<Rightarrow> bool" where
  "boot_rel w s \<longleftrightarrow> q_jour s = q_jour w \<and> (q_image s = q_image w \<or> q_jour w = JNone)"

interpretation bo: world_order boot_rel
  by standard (auto simp: boot_rel_def)

lemma boot_quiet: "keeps quiet m \<Longrightarrow> keeps boot_rel m"
  by (erule keeps_mono) (simp add: quiet_def boot_rel_def)

lemma quiet_ready: "keeps quiet (ready E pid)"
  unfolding ready_def by (intro quiet_rules)

lemma quiet_launch_fail: "keeps quiet (launch_fail E pid e)"
  unfolding launch_fail_def by (intro quiet_rules) auto

lemma quiet_wait_launched: "keeps quiet (wait_launched E pid n)"
  by (induction n)
    (subst wait_launched.simps, intro quiet_rules quiet_pause case_pause quiet_ready quiet_launch_fail; simp add: quiet_rules)+

lemma quiet_start_files: "keeps quiet (start_files E m p)"
  unfolding start_files_def by (intro quiet_rules) auto

lemma boot_orphans: "keeps boot_rel (drop_orphans E)"
proof (rule keeps_hoare)
  fix w :: "'a qw"
  have "hoare (\<lambda>s. q_jour s = q_jour w \<and> q_image s = q_image w) (drop_orphans E) (\<lambda>_. boot_rel w)"
    unfolding drop_orphans_def
  proof (rule hoare_bind [where R = "\<lambda>_ s. q_jour s = q_jour w \<and> q_image s = q_image w"], rule hoare_env, simp,
      rule hoare_bind [where R = "\<lambda>f s. f = q_jour w \<and> q_jour s = q_jour w \<and> q_image s = q_image w"], rule hoare_reads, simp, rule hoare_if, goal_cases)
    case (1 x f)
    show ?case
      by (rule hoare_keeps [OF steady_remove_images]) (use 1 in \<open>auto simp: steady_def boot_rel_def\<close>)
  qed (rule hoare_ret, simp add: boot_rel_def)
  then show "hoare (\<lambda>s. s = w) (drop_orphans E) (\<lambda>_. boot_rel w)" by (rule hoare_pre) simp
qed

lemma boot_start_boot: "keeps boot_rel (start_boot E accel sec H m net p)"
  unfolding start_boot_def Let_def
  by (intro bo.rules boot_orphans boot_quiet [OF quiet_start_files] boot_quiet [OF quiet_log] boot_quiet [OF quiet_wait_launched]) auto

text \<open>Fact (safety): a suspended machine is never booted: while the journal and the image can be read, \<^verbatim>\<open>Start\<close> on a
  valid saved pair is an error that touches nothing and launches nothing, and a \<^verbatim>\<open>Start\<close> that succeeds
  never leaves a valid saved pair beside the guest it booted.\<close>

theorem start_respects_suspend:
  assumes "files_readable E"
  shows "case run_state (start E accel sec H m net p) w of (r, w') \<Rightarrow>
    if saved_pair w then r \<noteq> None \<and> w' = w\<lparr>q_env := q_env w'\<rparr> else r = None \<longrightarrow> \<not> saved_pair w'"
proof -
  obtain r w' where run: "run_state (start E accel sec H m net p) w = (r, w')" by fastforce
  obtain g t where g: "run_state (start_gate E m) w = (g, t)" by fastforce
  show ?thesis
  proof (cases "saved_pair w")
    case True
    have "g \<noteq> None" by (rule hoareD [OF gate_refuses [OF assms] True g])
    then have "r \<noteq> None" "w' = t" using run g by (auto simp: start_def State_Monad.bind_def State_Monad.return_def)
    with still_gate [OF assms True g] show ?thesis by (simp add: run True still_def)
  next
    case False
    have "\<not> saved_pair w'" if "r = None"
    proof -
      have gn: "g = None" using run g that by (cases g) (auto simp: start_def State_Monad.bind_def State_Monad.return_def)
      then have "run_state (start_boot E accel sec H m net p) t = (r, w')" using run g by (simp add: start_def State_Monad.bind_def)
      then have "boot_rel t w'" by (rule keepsD [OF boot_start_boot])
      then show ?thesis using gate_none [OF assms g [unfolded gn]]
        by (cases "q_jour t") (auto simp: boot_rel_def saved_pair_def pair_ok_def)
    qed
    with False show ?thesis by (simp add: run)
  qed
qed

theorem start_respects_suspend_witness:
  "let w = demo_world (JFile (demo_journal saved 9)) (Some 9) in
   case run_state (start demo_env ''hvf'' ''none'' plain_host demo_machine demo_net demo_paths) w of (r, w') \<Rightarrow> r \<noteq> None"
proof -
  have "files_readable demo_env" by (simp add: files_readable_def demo_env_def)
  from start_respects_suspend [OF this, where accel = "''hvf''" and sec = "''none''" and H = plain_host and m = demo_machine and net = demo_net
      and p = demo_paths and w = "demo_world (JFile (demo_journal saved 9)) (Some 9)"]
  show ?thesis by (auto simp: Let_def demo_saved_pair split: prod.splits)
qed

section \<open>Stopping escalates\<close>

definition ending :: "qevent list \<Rightarrow> qevent list" where
  "ending es = filter ends_process es"

definition ends_like :: "qevent list \<Rightarrow> 'w qw \<Rightarrow> 'w qw \<Rightarrow> bool" where
  "ends_like xs w s \<longleftrightarrow> (\<exists>es. grown w s es \<and> subseq (ending es) xs)"

lemma gentle_ends: "gentle w s \<Longrightarrow> ends_like [] w s"
  by (auto simp: gentle_def ends_like_def ending_def filter_empty_conv)

lemma ends_trans: "ends_like xs u v \<Longrightarrow> ends_like ys v w \<Longrightarrow> ends_like (xs @ ys) u w"
  unfolding ends_like_def ending_def by (metis filter_append grown_trans list_emb_append_mono)

lemma ends_mono: "ends_like xs u v \<Longrightarrow> subseq xs ys \<Longrightarrow> ends_like ys u v"
  unfolding ends_like_def by (meson subseq_order.trans)

lemma ends_bind:
  assumes "keeps (ends_like xs) m" "\<And>x. keeps (ends_like ys) (f x)"
  shows "keeps (ends_like (xs @ ys)) (State_Monad.bind m f)"
  using assms unfolding keeps_def State_Monad.bind_def by (fastforce intro: ends_trans split: prod.splits)

lemma ends_gentle: "keeps gentle m \<Longrightarrow> keeps (ends_like []) m"
  by (erule keeps_mono, rule gentle_ends)

lemma ends_weaken: "keeps (ends_like xs) m \<Longrightarrow> subseq xs ys \<Longrightarrow> keeps (ends_like ys) m"
  by (erule keeps_mono) (rule ends_mono)

lemma ends_log: "keeps (ends_like [e]) (log_event e)"
  by (simp add: keeps_def log_event_def modify_def ends_like_def grown_def ending_def)

lemma ends_signal: "keeps (ends_like [if b then LTerm pid else LKill pid]) (signal_and_wait E b pid)"
proof -
  have "keeps gentle (do {
      s \<leftarrow> env (if b then qe_term E pid else qe_kill E pid);
      a \<leftarrow> (if s then ret True else env (qe_alive E pid));
      if \<not> a then ret True else env (qe_wait E pid term_timeout) })" by (intro gentle_rules)
  from ends_bind [OF ends_log ends_gentle [OF this], of "if b then LTerm pid else LKill pid"]
  show ?thesis by (simp add: signal_and_wait_def)
qed

lemma ends_powerdown: "keeps (ends_like [LQuit]) (m_cmd E CPowerdown)"
  unfolding m_cmd_def using ends_bind [OF ends_log ends_gentle [OF ge.env]] by simp

lemma ends_shutdown: "keeps (ends_like [LQuit, LTerm pid, LKill pid]) (shutdown E pid g)"
proof -
  have qd: "keeps (ends_like [LQuit]) (if d = None then m_cmd E CPowerdown else ret None)" for d :: "merr option"
    by (cases d) (auto intro: ends_powerdown ends_weaken [OF ends_gentle [OF ge.ret]])
  have p: "keeps (ends_like [LQuit]) (if g then do {
            d \<leftarrow> env (qe_dial E);
            _ \<leftarrow> (if d = None then m_cmd E CPowerdown else ret None);
            env (qe_wait E pid graceful_timeout) }
          else ret False)"
  proof (cases g)
    case True
    then show ?thesis using ends_bind [OF ends_gentle [OF ge.env] ends_bind [OF qd ends_gentle [OF ge.env]]] by simp
  next
    case False
    have "keeps (ends_like [LQuit]) (ret False)" by (rule ends_weaken [OF ends_gentle [OF ge.ret]]) simp
    with False show ?thesis by simp
  qed
  have k: "keeps (ends_like [LKill pid]) (do {
         k \<leftarrow> signal_and_wait E False pid;
         ret (if k then None else Some (EPlain (''qemu: pid '' @ itoa pid @ '' did not exit after SIGKILL''))) })"
    using ends_bind [OF ends_signal [of False pid E] ends_gentle [OF ge.ret]] by simp
  have kt: "keeps (ends_like [LKill pid]) (if t then ret None else do {
         k \<leftarrow> signal_and_wait E False pid;
         ret (if k then None else Some (EPlain (''qemu: pid '' @ itoa pid @ '' did not exit after SIGKILL''))) })" for t
  proof (cases t)
    case True
    have "keeps (ends_like [LKill pid]) (ret None)" by (rule ends_weaken [OF ends_gentle [OF ge.ret]]) simp
    with True show ?thesis by (simp only: if_True)
  next
    case False
    show ?thesis using k unfolding if_not_P [OF False] .
  qed
  have sT: "keeps (ends_like [LTerm pid]) (signal_and_wait E True pid)" using ends_signal [of True pid E] by (simp only: if_True)
  have t: "keeps (ends_like ([LTerm pid] @ [LKill pid])) (do {
       t \<leftarrow> signal_and_wait E True pid;
       if t then ret None
       else do {
         k \<leftarrow> signal_and_wait E False pid;
         ret (if k then None else Some (EPlain (''qemu: pid '' @ itoa pid @ '' did not exit after SIGKILL''))) } })"
    by (rule ends_bind [OF sT kt])
  have "keeps (ends_like ([LQuit] @ [LTerm pid] @ [LKill pid])) (shutdown E pid g)"
    unfolding shutdown_def
  proof (rule ends_bind [OF p], goal_cases)
    case (1 x)
    show ?case
    proof (cases x)
      case True
      show ?thesis unfolding if_P [OF True] by (rule ends_weaken [OF ends_gentle [OF ge.ret]]) simp
    next
      case False
      show ?thesis using t unfolding if_not_P [OF False] .
    qed
  qed
  then show ?thesis by (simp only: append.simps)
qed

lemma gentle_q_state: "keeps gentle (q_state E m)"
  unfolding q_state_def state_from_files_def state_from_pid_file_def by (intro gentle_rules gentle_valid_image)

lemma quiet_signal: "keeps quiet (signal_and_wait E b pid)"
  unfolding signal_and_wait_def by (intro quiet_rules) auto

lemma silent_stop: "keeps silent (stop E m g)"
  unfolding stop_def stop_running_def shutdown_def
  by (intro silent_rules silent_repair keeps_quiet_silent [OF quiet_q_state] keeps_quiet_silent [OF quiet_signal]) simp_all

lemma stop_pid_order:
  "keeps (ends_like [LQuit, LTerm pid, LKill pid]) (do {
      s \<leftarrow> shutdown E pid g;
      case s of
        Some e \<Rightarrow> ret (Some e)
      | None \<Rightarrow> do { e \<leftarrow> remove_all E [RPid, RQmp]; ret (map_option EPlain e) } })"
proof -
  have "keeps gentle (case s of Some e \<Rightarrow> ret (Some e) | None \<Rightarrow> do { e \<leftarrow> remove_all E [RPid, RQmp]; ret (map_option EPlain e) })"
    for s :: "qerr option" by (intro gentle_rules)
  from ends_bind [OF ends_shutdown ends_gentle [OF this], of pid E g "\<lambda>s. s"] show ?thesis by simp
qed

definition ordered_end :: "'w qw \<Rightarrow> 'w qw \<Rightarrow> bool" where
  "ordered_end w s \<longleftrightarrow> (\<exists>pid. ends_like [LQuit, LTerm pid, LKill pid] w s)"

lemma ordered_start: "ends_like [] w u \<Longrightarrow> keeps (ends_like [LQuit, LTerm pid, LKill pid]) m \<Longrightarrow> run_state m u = (x, s) \<Longrightarrow> ordered_end w s"
  using ends_trans keepsD unfolding ordered_end_def by fastforce

lemma ordered_gentle: "ends_like [] w u \<Longrightarrow> gentle u s \<Longrightarrow> ordered_end w s"
  using ends_trans [of "[]" w u "[]" s] gentle_ends ends_mono [of "[]"] unfolding ordered_end_def by fastforce

lemma stop_running_order: "hoare (ends_like [] w) (stop_running E g) (\<lambda>_. ordered_end w)"
  unfolding stop_running_def
proof (rule hoare_bind [where R = "\<lambda>_. ends_like [] w"], rule hoare_env, simp add: ends_like_def ending_def, rule hoare_pidfile, goal_cases)
  case (1 f)
  show ?case by (rule hoare_ret) (simp add: ordered_gentle ge.refl)
next
  case (2 f t)
  show ?case by (rule hoare_ret) (simp add: ordered_gentle ge.refl)
next
  case (3 f pid)
  show ?case by (rule hoareI) (rule ordered_start [OF _ stop_pid_order])
qed

lemma stop_order: "hoare (ends_like [] w) (stop E m g) (\<lambda>_. ordered_end w)"
proof -
  have gent: "hoare (ends_like [] w) m (\<lambda>_. ordered_end w)" if "keeps gentle m" for m :: "('a, qerr option) qm"
    by (rule hoareI) (meson ordered_gentle keepsD that)
  have stq: "hoare (ends_like [] w) (q_state E m) (\<lambda>_. ends_like [] w)"
    by (rule hoareI) (use ends_trans [of "[]" _ _ "[]"] gentle_ends keepsD [OF gentle_q_state] in fastforce)
  show ?thesis
    unfolding stop_def
    by (rule hoare_bind [OF stq], rule hoare_sum, rule gent [OF ge.ret], rule hoare_if, rule gent [OF gentle_repair], rule stop_running_order)
qed

text \<open>Fact (safety): \<^verbatim>\<open>Stop\<close> escalates in order and against one process: whatever happens, what it does to end a
  process is a subsequence of: power-down over QMP, SIGTERM, SIGKILL, with one pid.\<close>

theorem stop_escalates:
  "case run_state (stop E m g) w of (r, w') \<Rightarrow>
    \<exists>pid es. q_log w' = q_log w @ es \<and> subseq (filter ends_process es) [LQuit, LTerm pid, LKill pid]"
proof (rule run_hoare)
  show "hoare (\<lambda>s. s = w) (stop E m g) (\<lambda>_. ordered_end w)"
    by (rule hoare_pre [OF stop_order]) (simp add: gentle_ends ge.refl)
qed (auto simp: ordered_end_def ends_like_def ending_def grown_def)

lemma foreign_state:
  assumes "\<forall>p s. \<not> fst (qe_ours E p s)"
  shows "hoare (\<lambda>_. True) (q_state E m) (\<lambda>b _. b \<noteq> Inr Running)"
proof -
  have ours: "hoare (\<lambda>_. True) (env (qe_ours E p)) (\<lambda>b _. \<not> b)" for p
    using assms by (auto simp: hoare_def env_def case_prod_unfold)
  have pid: "hoare (\<lambda>_. True) (state_from_pid_file E) (\<lambda>b _. b \<noteq> Running)"
    unfolding state_from_pid_file_def
    by (rule true_bind, rule hoare_pidfile, rule hoare_ret, simp, rule hoare_ret, simp, rule hoare_bind [OF ours], rule hoare_ret, simp)
  have "hoare (\<lambda>_. True) (state_from_files E) (\<lambda>b _. b \<noteq> Running)"
    unfolding state_from_files_def
    by (rule hoare_bind [OF pid], rule hoare_if, rule hoare_ret, simp, rule any_bind, rule hoare_jread)
      (auto intro!: hoare_ret any_bind split: if_splits)
  then show ?thesis unfolding q_state_def by (intro hoare_if hoare_bind [of _ "state_from_files E"]) (auto intro: hoare_ret)
qed

text \<open>Fact (safety): \<^verbatim>\<open>Stop\<close> never signals a foreign process: when no pid is a QEMU of ours (the kernel recycled the pid
  of a stale pid file), it ends no process.\<close>

theorem stop_spares_foreign:
  assumes "\<forall>p s. \<not> fst (qe_ours E p s)"
  shows "case run_state (stop E m g) w of (r, w') \<Rightarrow> \<exists>es. q_log w' = q_log w @ es \<and> filter ends_process es = []"
proof (rule run_hoare [where Q = "\<lambda>_. gentle w"])
  have q: "hoare (\<lambda>s. s = w) (q_state E m) (\<lambda>b s. gentle w s \<and> b \<noteq> Inr Running)"
    by (rule hoareI) (use keepsD [OF gentle_q_state] hoareD [OF foreign_state [OF assms]] in blast)
  have g: "hoare (gentle w) m (\<lambda>_. gentle w)" if "keeps gentle m" for m :: "('a, qerr option) qm"
    by (rule ge.step [OF that])
  show "hoare (\<lambda>s. s = w) (stop E m g) (\<lambda>_. gentle w)"
    unfolding stop_def
    apply (rule hoare_bind [OF q], rule hoare_sum)
     apply (rule hoare_pre [OF g [OF ge.ret]], simp)
    apply (rule hoare_if, rule hoare_pre [OF g [OF gentle_repair]], simp)
    apply (simp add: hoare_def)
    done
qed (auto simp: gentle_def grown_def filter_empty_conv)

theorem stop_spares_foreign_witness:
  "let E = demo_env\<lparr>qe_ours := \<lambda>p s. (False, s)\<rparr> in
   case run_state (stop E demo_machine True) demo_saving of (r, w') \<Rightarrow> filter ends_process (q_log w') = []"
  using stop_spares_foreign [where E = "demo_env\<lparr>qe_ours := \<lambda>p s. (False, s)\<rparr>" and m = demo_machine and g = True and w = demo_saving]
  by (auto simp: Let_def demo_saving_def demo_world_def split: prod.splits)

end
