(* ===== verification/Qemu_System.thy ===== *)
theory Qemu_System
  imports Qemu_Lifecycle
begin

text \<open>
  The QEMU backend as a system: one machine directory, the backend's operations in any order (each under the machine
  lock), the outside world moving between them, \<^verbatim>\<open>jm\<close> killed between any two of their file operations, and power
  cuts. The step relation is closed under all of them; the invariants hold in every reachable world.
\<close>

section \<open>The log is the truth\<close>

text \<open>What the log's file events do to the journal, to what a power cut may leave of it, and to the image.\<close>

type_synonym files = "jfile \<times> jfile list \<times> int option"

definition files_of :: "'w qw \<Rightarrow> files" where
  "files_of w = (q_jour w, q_disk w, q_image w)"

fun file_step :: "files \<Rightarrow> qevent \<Rightarrow> files" where
  "file_step (f, d, i) (LJournal g) = (g, g # d, i)"
| "file_step (f, d, i) LSync = (f, [f], i)"
| "file_step (f, d, i) LUnlink = (JNone, JNone # d, i)"
| "file_step (f, d, i) (LImage n) = (f, d, n)"
| "file_step s _ = s"

definition replay :: "files \<Rightarrow> qevent list \<Rightarrow> files" where
  "replay s es = run_steps file_step s es"

lemma replay_Nil [simp]: "replay s [] = s"
  by (simp add: replay_def)

lemma replay_append: "replay s (es @ fs) = replay (replay s es) fs"
  by (simp add: replay_def run_steps_append)

lemma replay_quiet: "\<forall>e \<in> set es. \<not> file_event e \<Longrightarrow> replay s es = s"
proof (induction es)
  case (Cons e es)
  have "file_step s e = s" using Cons.prems by (cases s; cases e) auto
  with Cons show ?case by (simp add: replay_def)
qed simp

section \<open>Journals the code wrote\<close>

fun wf_jfile :: "jfile \<Rightarrow> bool" where
  "wf_jfile JNone = True"
| "wf_jfile (JBad _) = False"
| "wf_jfile (JFile j) = (valid_phase j \<and> 0 < hw_memoryMiB (jn_hw j))"

fun wf_files :: "files \<Rightarrow> bool" where
  "wf_files (f, d, i) = (wf_jfile f \<and> d \<noteq> [] \<and> list_all wf_jfile d)"

fun wf_event :: "qevent \<Rightarrow> bool" where
  "wf_event (LJournal f) = wf_jfile f"
| "wf_event _ = True"

lemma wf_file_step: "wf_files s \<Longrightarrow> wf_event e \<Longrightarrow> wf_files (file_step s e)"
  by (cases s; cases e) auto

lemma wf_replay: "wf_files s \<Longrightarrow> \<forall>e \<in> set es. wf_event e \<Longrightarrow> wf_files (replay s es)"
  by (induction es arbitrary: s) (auto simp: replay_def wf_file_step)

text \<open>\<open>traced w s\<close>: everything that happened to the files is in the log, and what was written is well-formed.\<close>

definition traced :: "'w qw \<Rightarrow> 'w qw \<Rightarrow> bool" where
  "traced w s \<longleftrightarrow> (\<exists>es. grown w s es \<and> files_of s = replay (files_of w) es \<and> (\<forall>e \<in> set es. wf_event e))"

interpretation tr: world_order traced
proof
  fix u v w :: "'w qw"
  assume "traced u v" "traced v w"
  then obtain es fs where "grown u v es" "files_of v = replay (files_of u) es" "\<forall>e \<in> set es. wf_event e"
    "grown v w fs" "files_of w = replay (files_of v) fs" "\<forall>e \<in> set fs. wf_event e" unfolding traced_def by blast
  then show "traced u w" unfolding traced_def
    by (intro exI [of _ "es @ fs"]) (auto simp: replay_append intro: grown_trans)
qed (auto simp: traced_def files_of_def)

lemma traced_wf: "traced w s \<Longrightarrow> wf_files (files_of w) \<Longrightarrow> wf_files (files_of s)"
  by (auto simp: traced_def wf_replay)

lemma quiet_traced: "quiet w s \<Longrightarrow> traced w s"
proof -
  assume q: "quiet w s"
  then obtain es where "grown w s es" "\<forall>e \<in> set es. \<not> file_event e" by (auto simp: quiet_def)
  moreover have "wf_event e" if "\<not> file_event e" for e using that by (cases e) auto
  ultimately show ?thesis using q unfolding traced_def
    by (intro exI [of _ es]) (auto simp: replay_quiet files_of_def quiet_def)
qed

lemma traced_if_quiet: "keeps quiet m \<Longrightarrow> keeps traced m"
  by (erule keeps_mono, rule quiet_traced)

section \<open>Every operation is traced\<close>

lemma traced_one:
  "wf_event e \<Longrightarrow> (\<And>w. files_of (f w) = file_step (files_of w) e \<and> q_log (f w) = q_log w @ [e]) \<Longrightarrow> keeps traced (modify f)"
  unfolding keeps_def modify_def traced_def by (auto simp: grown_def replay_def intro!: exI [of _ "[e]"])

lemma traced_sync: "keeps traced (sync_dir E)"
  unfolding sync_dir_def by (intro tr.rules traced_one [where e = LSync]) (auto simp: files_of_def)

lemma traced_write: "wf_jfile (JFile (j\<lparr>jn_version := journal_version\<rparr>)) \<Longrightarrow> keeps traced (write_journal E j)"
  unfolding write_journal_def Let_def
  by (intro tr.rules traced_sync traced_one [where e = "LJournal (JFile (j\<lparr>jn_version := journal_version\<rparr>))"]) (auto simp: files_of_def)

lemma case_jfile: "keeps R a \<Longrightarrow> (\<And>t. keeps R (b t)) \<Longrightarrow> (\<And>j. keeps R (c j)) \<Longrightarrow>
   keeps R (case f of JNone \<Rightarrow> a | JBad t \<Rightarrow> b t | JFile j \<Rightarrow> c j)"
  by (cases f) auto

lemma traced_gone: "keeps traced (modify (\<lambda>w. w\<lparr>q_jour := JNone, q_disk := JNone # q_disk w, q_log := q_log w @ [LUnlink]\<rparr>))"
  by (rule traced_one [where e = LUnlink]) (auto simp: files_of_def)

lemma traced_unlink: "keeps traced (unlink_journal E)"
  unfolding unlink_journal_def by (intro tr.rules case_jfile traced_gone)

lemma traced_aside: "keeps traced (aside_journal E)"
  unfolding aside_journal_def by (intro tr.rules case_jfile traced_gone)

lemma traced_remove_journal: "keeps traced (remove_journal E)"
  unfolding remove_journal_def by (intro tr.rules traced_unlink traced_sync)

lemma traced_remove_file: "keeps traced (remove_file E f)"
  unfolding remove_file_def by (intro tr.rules traced_one [where e = "LImage None"]) (auto simp: files_of_def)

lemma traced_remove_each: "keeps traced (remove_each E fs)"
  by (induction fs) (auto intro!: tr.rules traced_remove_file)

lemma traced_remove_all: "keeps traced (remove_all E fs)"
  unfolding remove_all_def by (intro tr.rules traced_remove_each)

lemma traced_remove_images: "keeps traced (remove_images E)"
  unfolding remove_images_def by (rule traced_remove_all)

lemma traced_discard: "keeps traced (discard_journal_then_image E)"
  unfolding discard_journal_then_image_def by (intro tr.rules traced_remove_journal traced_remove_images)

lemmas traced_rules = tr.rules traced_sync traced_unlink traced_aside traced_remove_journal traced_remove_all
  traced_remove_images traced_discard

lemma traced_repair_suspend: "keeps traced (repair_suspend E)"
  unfolding repair_suspend_def
  by (intro traced_rules traced_if_quiet [OF quiet_read_journal] traced_if_quiet [OF quiet_check_image])

lemma traced_repair: "keeps traced (repair E m)"
  unfolding repair_def by (intro traced_rules traced_repair_suspend)

lemma traced_cont: "keeps traced (cont_and_confirm E)"
proof -
  have "keeps traced (log_event (LCont j d))" for j d
    unfolding log_event_def by (rule traced_one [where e = "LCont j d"]) (auto simp: files_of_def)
  then show ?thesis unfolding cont_and_confirm_def m_cont_def
    by (intro traced_rules traced_if_quiet [OF quiet_wait_status])
qed

lemmas traced_quiet_rules = traced_if_quiet [OF quiet_read_journal] traced_if_quiet [OF quiet_valid_image]
  traced_if_quiet [OF quiet_q_state] traced_if_quiet [OF quiet_kill_and_wait] traced_if_quiet [OF quiet_end_process]
  traced_if_quiet [OF quiet_end_process_kill] traced_if_quiet [OF quiet_crashed] traced_if_quiet [OF quiet_dial_status]
  traced_if_quiet [OF quiet_log]

lemma traced_cmd: "keeps traced (m_cmd E c)"
  by (rule traced_if_quiet [OF quiet_cmd])

lemma traced_rollback: "keeps traced (rollback E pid c)"
  unfolding rollback_def
  by (intro traced_rules traced_cont traced_quiet_rules traced_if_quiet [OF quiet_cancel_migration])

lemma case_freeze: "(\<And>r. keeps R (a r)) \<Longrightarrow> keeps R b \<Longrightarrow> keeps R (case s of Refused r \<Rightarrow> a r | Frozen \<Rightarrow> b)"
  by (cases s) auto

lemma case_save_end: "(\<And>i. keeps R (a i)) \<Longrightarrow> (\<And>t. keeps R (b t)) \<Longrightarrow> (\<And>t. keeps R (c t)) \<Longrightarrow>
   keeps R (case v of Completed i \<Rightarrow> a i | SaveCrash t \<Rightarrow> b t | SaveFail t \<Rightarrow> c t)"
  by (cases v) auto

lemma case_commit: "keeps R a \<Longrightarrow> (\<And>t. keeps R (b t)) \<Longrightarrow> (\<And>t. keeps R (c t)) \<Longrightarrow>
   keeps R (case v of Committed \<Rightarrow> a | NotCommitted t \<Rightarrow> b t | Unknown t \<Rightarrow> c t)"
  by (cases v) auto

lemma traced_setup: "keeps traced (commit_setup E ab pid)"
  unfolding commit_setup_def by (intro traced_rules traced_cmd traced_rollback traced_if_quiet [OF quiet_before_freeze])

lemma traced_durable: "keeps traced (make_durable E n)"
  unfolding make_durable_def
  by (intro traced_rules) (rule traced_one, auto simp: files_of_def)

lemma saved_wf: "valid_phase j \<Longrightarrow> 0 < hw_memoryMiB (jn_hw j) \<Longrightarrow> wf_jfile (JFile ((saved_journal j sz info now)\<lparr>jn_version := journal_version\<rparr>))"
  by (simp add: saved_journal_def valid_phase_def)

lemma traced_end:
  assumes "wf_jfile (JFile (j\<lparr>jn_version := journal_version\<rparr>))"
  shows "keeps traced (commit_end E j pid)"
proof -
  have "wf_jfile (JFile (j\<lparr>jn_fingerprints := f, jn_version := journal_version\<rparr>))" for f
    using assms by (simp add: valid_phase_def)
  then show ?thesis unfolding commit_end_def by (intro traced_rules traced_cmd traced_quiet_rules traced_write) simp_all
qed

lemma traced_saved:
  assumes "valid_phase j" "0 < hw_memoryMiB (jn_hw j)"
  shows "keeps traced (commit_saved E j pid info)"
proof -
  have "keeps traced (commit_point E (saved_journal j sz info now))" for sz now
    unfolding commit_point_def by (intro traced_rules traced_write saved_wf assms traced_quiet_rules)
  then show ?thesis unfolding commit_saved_def
    by (intro traced_rules traced_durable case_commit traced_rollback traced_end saved_wf assms)
qed

lemma traced_commit_run:
  assumes "valid_phase j" "0 < hw_memoryMiB (jn_hw j)"
  shows "keeps traced (commit_run E ab j pid)"
  unfolding commit_run_def
  by (intro traced_rules traced_setup case_freeze case_save_end traced_if_quiet [OF quiet_commit_save]
      traced_quiet_rules traced_rollback traced_saved assms)

text \<open>What an operation reads back is a journal the code wrote.\<close>

lemma read_wf:
  "hoare (\<lambda>s. wf_files (files_of s) \<and> traced w s) (read_journal E)
     (\<lambda>r s. traced w s \<and> (\<forall>t. r \<noteq> ReadBad t) \<and> (\<forall>j. r = ReadJournal j \<longrightarrow> valid_phase j \<and> 0 < hw_memoryMiB (jn_hw j)))"
proof (rule hoareI)
  fix s r t
  assume pre: "wf_files (files_of s) \<and> traced w s" and run: "run_state (read_journal E) s = (r, t)"
  have "traced w t" using pre tr.trans keepsD [OF traced_if_quiet [OF quiet_read_journal] run] by blast
  moreover have "\<forall>t. r \<noteq> ReadBad t" "\<forall>j. r = ReadJournal j \<longrightarrow> valid_phase j \<and> 0 < hw_memoryMiB (jn_hw j)"
    using pre run
    by (auto simp: read_journal_def State_Monad.bind_def env_def reads_def State_Monad.return_def files_of_def valid_phase_def
        split: prod.splits jfile.splits option.splits if_splits)
  ultimately show "traced w t \<and> (\<forall>t. r \<noteq> ReadBad t) \<and> (\<forall>j. r = ReadJournal j \<longrightarrow> valid_phase j \<and> 0 < hw_memoryMiB (jn_hw j))"
    by blast
qed

lemma traced_reading:
  assumes wf: "wf_files (files_of w)"
    and f: "\<And>r. (\<forall>t. r \<noteq> ReadBad t) \<Longrightarrow> (\<forall>j. r = ReadJournal j \<longrightarrow> valid_phase j \<and> 0 < hw_memoryMiB (jn_hw j)) \<Longrightarrow> keeps traced (f r)"
  shows "hoare (\<lambda>s. s = w) (State_Monad.bind (read_journal E) f) (\<lambda>_. traced w)"
proof (rule hoareI)
  fix s x t
  assume "s = w" and run: "run_state (State_Monad.bind (read_journal E) f) s = (x, t)"
  obtain r u where r: "run_state (read_journal E) w = (r, u)" by fastforce
  have u: "traced w u \<and> (\<forall>t. r \<noteq> ReadBad t) \<and> (\<forall>j. r = ReadJournal j \<longrightarrow> valid_phase j \<and> 0 < hw_memoryMiB (jn_hw j))"
    by (rule hoareD [OF read_wf _ r]) (simp add: wf tr.refl)
  have "run_state (f r) u = (x, t)" using run r \<open>s = w\<close> by (simp add: State_Monad.bind_def)
  with u f show "traced w t" by (meson keepsD tr.trans)
qed

lemma traced_jread:
  assumes "\<forall>t. r \<noteq> ReadBad t" "\<forall>j. r = ReadJournal j \<longrightarrow> valid_phase j \<and> 0 < hw_memoryMiB (jn_hw j)"
    and "keeps traced a" "\<And>t. keeps traced (c t)" "\<And>j. valid_phase j \<Longrightarrow> 0 < hw_memoryMiB (jn_hw j) \<Longrightarrow> keeps traced (d j)"
  shows "keeps traced (case r of ReadMissing \<Rightarrow> a | ReadBad t \<Rightarrow> b t | ReadIo t \<Rightarrow> c t | ReadJournal j \<Rightarrow> d j)"
  using assms by (cases r) simp_all

lemma traced_ret_from: "hoare (\<lambda>s. s = w) (ret x) (\<lambda>_. traced w)"
  by (rule hoare_ret) (simp add: tr.refl)

lemma traced_commit:
  assumes "wf_files (files_of w)"
  shows "hoare (\<lambda>s. s = w) (commit_suspend E m ab) (\<lambda>_. traced w)"
  unfolding commit_suspend_def
  by (rule hoare_if, rule traced_ret_from, rule traced_reading [OF assms], rule traced_jread, assumption, assumption)
    (intro traced_rules traced_quiet_rules traced_commit_run; assumption)+

lemma traced_prepare:
  assumes "0 < mc_memoryMiB m"
  shows "keeps traced (prepare_suspend E m pl)"
proof -
  have w: "keeps traced (write_journal E (new_journal m pl argv pinned mt ver pid now))" for argv pinned mt ver pid now
    using assms by (intro traced_write) (simp add: new_journal_def valid_phase_def hardware_of_def)
  show ?thesis unfolding prepare_suspend_def unavailable_def
    by (intro traced_rules traced_quiet_rules traced_if_quiet [OF quiet_suspendable] traced_if_quiet [OF quiet_prepare_checks]
          w | split list.split, intro conjI impI allI | simp only: split_beta)+
qed

lemma traced_cancel: "keeps traced (cancel_suspend E m)"
  unfolding cancel_suspend_def by (intro traced_rules traced_quiet_rules)

lemma traced_discard_suspend: "keeps traced (discard_suspend E m)"
  unfolding discard_suspend_def by (intro traced_rules)

lemma traced_sync_retry: "keeps traced (sync_dir_retry E n le)"
  by (induction n arbitrary: le) (auto intro!: traced_rules)

lemma traced_resume: "keeps traced (resume_suspended E m)"
  unfolding resume_suspended_def resume_run_def run_restored_def
  by (intro traced_rules traced_quiet_rules traced_cont traced_sync_retry traced_if_quiet [OF quiet_resume_check]
      traced_if_quiet [OF quiet_resume_load] traced_if_quiet [OF quiet_transient]) auto

lemma traced_fail: "keeps traced (fail_plain t)"
  unfolding fail_plain_def by (rule tr.ret)

lemma traced_recover_discard: "keeps traced (recover_discard E a)"
  unfolding recover_discard_def by (intro traced_rules traced_fail)

lemma traced_recover_saving: "keeps traced (recover_saving E pid st)"
  unfolding recover_saving_def
  by (intro traced_rules traced_quiet_rules traced_fail traced_recover_discard traced_cont traced_if_quiet [OF quiet_cancel_migration])

lemma traced_recover_incoming: "keeps traced (recover_incoming E pid st)"
  unfolding recover_incoming_def by (intro traced_rules traced_quiet_rules traced_fail traced_cont traced_sync_retry)

lemma traced_recover_saved:
  assumes "valid_phase j" "0 < hw_memoryMiB (jn_hw j)"
  shows "keeps traced (recover_saved E m j pid)"
proof -
  have "keeps traced (write_journal E (j\<lparr>jn_fingerprints := f\<rparr>))" for f
    using assms by (intro traced_write) (simp add: valid_phase_def)
  moreover have "keeps traced (write_journal E j)" using assms by (intro traced_write) (simp add: valid_phase_def)
  ultimately have e: "keeps traced (recover_end E j pid g)" for g
    unfolding recover_end_def Let_def
    by (intro traced_rules traced_quiet_rules traced_fail traced_repair_suspend) (simp split: sum.splits)
  show ?thesis unfolding recover_saved_def
    by (intro traced_rules traced_quiet_rules e traced_discard_suspend traced_cmd)
qed

lemma traced_recover_with:
  assumes "\<forall>t. jr \<noteq> ReadBad t" "\<forall>j. jr = ReadJournal j \<longrightarrow> valid_phase j \<and> 0 < hw_memoryMiB (jn_hw j)"
  shows "keeps traced (recover_with E m jr)"
proof -
  have d: "keeps traced (recover_dead E m jr)" unfolding recover_dead_def
    by (intro traced_rules traced_quiet_rules traced_repair)
  have l: "keeps traced (recover_live E jr pid)" for pid unfolding recover_live_def
    by (intro traced_rules traced_quiet_rules traced_if_quiet [OF quiet_runs_normally] traced_fail traced_recover_incoming traced_recover_saving)
  show ?thesis unfolding recover_with_def
    by (rule tr.bind, rule traced_if_quiet [OF quiet_our_pid], rule tr.option, rule d, rule traced_jread [OF assms],
        rule l, rule l, rule tr.choice, rule traced_recover_saved, assumption, assumption, rule l)
qed

lemma traced_recover:
  assumes "wf_files (files_of w)"
  shows "hoare (\<lambda>s. s = w) (recover E m) (\<lambda>_. traced w)"
  unfolding recover_def
  by (rule hoare_if, rule traced_ret_from, rule traced_reading [OF assms], split jread.split, intro conjI impI allI)
    (rule traced_fail | rule traced_recover_with, assumption, assumption)+

lemma traced_start: "keeps traced (start E accel sec H m net p)"
  unfolding start_def start_gate_def start_boot_def drop_orphans_def Let_def
  by (intro traced_rules traced_quiet_rules traced_repair traced_if_quiet [OF quiet_start_files] traced_if_quiet [OF quiet_wait_launched]) auto

lemma traced_stop: "keeps traced (stop E m g)"
  unfolding stop_def stop_running_def shutdown_def
  by (intro traced_rules traced_quiet_rules traced_repair traced_cmd traced_if_quiet [OF quiet_signal])

section \<open>What an operation does to a saved machine\<close>

text \<open>\<open>blind es\<close>: no \<^verbatim>\<open>cont\<close> of the log was sent while the directory held a saved journal.\<close>

definition blind :: "qevent list \<Rightarrow> bool" where
  "blind es \<longleftrightarrow> (\<forall>j d. LCont j d \<in> set es \<longrightarrow> \<not> is_saved j)"

lemma blind_append [simp]: "blind (es @ fs) \<longleftrightarrow> blind es \<and> blind fs"
  by (auto simp: blind_def)

definition obeys :: "'w qw \<Rightarrow> 'w qw \<Rightarrow> bool" where
  "obeys w s \<longleftrightarrow> (\<exists>es. grown w s es \<and> blind es)"

lemma silent_obeys: "silent w s \<Longrightarrow> obeys w s"
  by (force simp: silent_def obeys_def blind_def)

lemma silent_keeps_obeys: "keeps silent m \<Longrightarrow> hoare (\<lambda>s. s = w) m (\<lambda>_. obeys w)"
  by (rule hoareI) (simp add: keepsD silent_obeys)

lemma calm_obeys: "calm w s \<Longrightarrow> \<not> is_saved (q_jour w) \<Longrightarrow> obeys w s"
  by (fastforce simp: calm_def obeys_def blind_def calm_event_def)

lemma silent_cancel: "keeps silent (cancel_suspend E m)"
  unfolding cancel_suspend_def by (intro silent_rules)

lemma silent_start: "keeps silent (start E accel sec H m net p)"
  unfolding start_def start_gate_def start_boot_def drop_orphans_def Let_def
  by (intro silent_rules keeps_quiet_silent [OF quiet_q_state] silent_repair keeps_quiet_silent [OF quiet_log]
      keeps_quiet_silent [OF quiet_start_files] keeps_quiet_silent [OF quiet_wait_launched])
    (simp_all only: is_cont.simps file_event.simps not_False_eq_True)

lemma commit_refuses_saved:
  assumes "is_saved (q_jour w)"
  shows "hoare (\<lambda>s. s = w) (commit_suspend E m ab) (\<lambda>_. silent w)"
proof -
  obtain j where j: "q_jour w = JFile j" "jn_phase j = saved" using assms by (auto simp: is_saved_def split: jfile.splits)
  have rd: "hoare (\<lambda>s. s = w) (read_journal E) (\<lambda>r s. quiet w s \<and> (\<forall>k. r = ReadJournal k \<longrightarrow> jn_phase k = saved))"
  proof (rule hoareI)
    fix s r t
    assume "s = w" and run: "run_state (read_journal E) s = (r, t)"
    then show "quiet w t \<and> (\<forall>k. r = ReadJournal k \<longrightarrow> jn_phase k = saved)"
      using keepsD [OF quiet_read_journal run] j
      by (auto simp: read_journal_def State_Monad.bind_def env_def reads_def State_Monad.return_def split: prod.splits option.splits if_splits)
  qed
  have r: "hoare (\<lambda>s. quiet w s \<and> P s) (ret x) (\<lambda>_. silent w)" for x :: "qerr option" and P
    by (rule hoare_ret) (simp add: quiet_silent)
  have neq: "jn_phase k = saved \<Longrightarrow> jn_phase k \<noteq> saving" for k by (simp add: saved_def saving_def)
  have f: "hoare (\<lambda>s. quiet w s \<and> (\<forall>k. z = ReadJournal k \<longrightarrow> jn_phase k = saved)) (if jn_phase j \<noteq> saving then ret x else n) (\<lambda>_. silent w)"
    if "z = ReadJournal j" for z j x and n :: "('a, qerr option) qm"
  proof (cases "jn_phase j = saved")
    case True
    show ?thesis unfolding if_P [OF neq [OF True]] by (rule r)
  qed (simp add: hoare_def that)
  show ?thesis unfolding commit_suspend_def
    by (rule hoare_if, rule hoare_ret, simp add: si.refl, rule hoare_bind [OF rd], rule hoare_jread)
      (rule r | rule f, assumption)+
qed

lemma obeys_commit:
  assumes "wf_files (files_of w)"
  shows "hoare (\<lambda>s. s = w) (commit_suspend E m ab) (\<lambda>_. obeys w)"
proof (cases "is_saved (q_jour w)")
  case True
  then show ?thesis by (rule hoare_weaken [OF commit_refuses_saved]) (auto intro: silent_obeys)
next
  case False
  have "case q_jour w of JFile j \<Rightarrow> 0 < hw_memoryMiB (jn_hw j) | _ \<Rightarrow> True"
    using assms by (auto simp: files_of_def split: jfile.splits)
  then show ?thesis by (rule hoare_weaken [OF commit_suspend_outcome])
    (use False in \<open>auto simp: commit_outcome_def intro: silent_obeys calm_obeys\<close>)
qed

lemma obeys_resume: "hoare (\<lambda>s. s = w) (resume_suspended E m) (\<lambda>_. obeys w)"
proof (rule hoare_weaken [OF resume_spec])
  fix r :: "qerr option" and s :: "'a qw"
  assume "resume_post w r s"
  then consider "quiet w s" | es fs where "grown w s (es @ fs)" "\<forall>e \<in> set es. \<not> is_cont e" "durably_gone fs"
    unfolding resume_post_def by blast
  then show "obeys w s"
  proof cases
    case 1
    then show ?thesis by (intro silent_obeys quiet_silent)
  next
    case 2
    then show ?thesis by (force simp: obeys_def blind_def durably_gone_def is_saved_def)
  qed
qed simp

lemma obeys_recover: "hoare (\<lambda>s. s = w) (recover E m) (\<lambda>_. obeys w)"
  by (rule hoare_weaken [OF recover_clear]) (auto simp: clear_def obeys_def blind_def clear_conts_def)

section \<open>The system\<close>

text \<open>The operations of the backend, as the command line calls them. A machine record may change between two of them.\<close>

datatype 'w qop =
    OpPrepare machine suspend_plan | OpCommit machine "('w \<Rightarrow> bool \<times> 'w) option" | OpCancel machine | OpDiscard machine
  | OpResume machine | OpRecover machine | OpRepair machine
  | OpStart string string host machine attachment qpaths | OpStop machine bool

fun op_ok :: "'w qop \<Rightarrow> bool" where
  "op_ok (OpPrepare m _) = (0 < mc_memoryMiB m)"
| "op_ok _ = True"

fun op_end :: "'w qenv \<Rightarrow> 'w qop \<Rightarrow> 'w qw \<Rightarrow> 'w qw" where
  "op_end E (OpPrepare m pl) w = snd (run_state (prepare_suspend E m pl) w)"
| "op_end E (OpCommit m ab) w = snd (run_state (commit_suspend E m ab) w)"
| "op_end E (OpCancel m) w = snd (run_state (cancel_suspend E m) w)"
| "op_end E (OpDiscard m) w = snd (run_state (discard_suspend E m) w)"
| "op_end E (OpResume m) w = snd (run_state (resume_suspended E m) w)"
| "op_end E (OpRecover m) w = snd (run_state (recover E m) w)"
| "op_end E (OpRepair m) w = snd (run_state (repair E m) w)"
| "op_end E (OpStart accel sec H m net p) w = snd (run_state (start E accel sec H m net p) w)"
| "op_end E (OpStop m g) w = snd (run_state (stop E m g) w)"

lemma hoare_end: "hoare (\<lambda>s. s = w) m Q \<Longrightarrow> Q (fst (run_state m w)) (snd (run_state m w))"
  by (simp add: hoare_def split_beta)

lemma keeps_end: "keeps R m \<Longrightarrow> R w (snd (run_state m w))"
  by (simp add: keeps_def)

lemma op_traced: "wf_files (files_of w) \<Longrightarrow> op_ok p \<Longrightarrow> traced w (op_end E p w)"
  by (cases p; simp only: op_end.simps op_ok.simps)
    (rule keeps_end [OF traced_prepare] hoare_end [OF traced_commit] keeps_end [OF traced_cancel]
       keeps_end [OF traced_discard_suspend] keeps_end [OF traced_resume] hoare_end [OF traced_recover]
       keeps_end [OF traced_repair] keeps_end [OF traced_start] keeps_end [OF traced_stop]; assumption?)+

lemma silent_prepare: "keeps silent (prepare_suspend E m pl)"
  by (rule keeps_hoare) (rule hoare_weaken [OF prepare_spec], assumption, simp only: prepare_post_def)

lemma op_obeys: "wf_files (files_of w) \<Longrightarrow> obeys w (op_end E p w)"
  by (cases p; simp only: op_end.simps)
    (rule silent_obeys [OF keeps_end [OF silent_prepare]] hoare_end [OF obeys_commit] silent_obeys [OF keeps_end [OF silent_cancel]]
       silent_obeys [OF keeps_end [OF silent_discard_suspend]] hoare_end [OF obeys_resume] hoare_end [OF obeys_recover]
       silent_obeys [OF keeps_end [OF silent_repair]] silent_obeys [OF keeps_end [OF silent_start]]
       silent_obeys [OF keeps_end [OF silent_stop]]; assumption?)+

text \<open>One step of the system: an operation, an operation killed after some of its file operations (the log tells
  which), a move of the outside world, or a power cut, which keeps one of the directory's possible contents and
  may leave any image.\<close>

inductive qstep :: "'w qenv \<Rightarrow> 'w qw \<Rightarrow> 'w qw \<Rightarrow> bool" for E where
  operate: "op_ok p \<Longrightarrow> qstep E w (op_end E p w)"
| killed: "op_ok p \<Longrightarrow> q_log (op_end E p w) = q_log w @ es @ fs \<Longrightarrow> q_log u = q_log w @ es \<Longrightarrow>
    files_of u = replay (files_of w) es \<Longrightarrow> qstep E w u"
| outside: "qstep E w (w\<lparr>q_env := s\<rparr>)"
| power_cut: "f \<in> set (q_disk w) \<Longrightarrow> qstep E w (w\<lparr>q_env := s, q_jour := f, q_disk := [f], q_image := i\<rparr>)"

inductive reachable :: "'w qenv \<Rightarrow> 'w qw \<Rightarrow> bool" for E where
  fresh: "q_jour w = JNone \<Longrightarrow> q_disk w = [JNone] \<Longrightarrow> q_log w = [] \<Longrightarrow> reachable E w"
| onward: "reachable E w \<Longrightarrow> qstep E w u \<Longrightarrow> reachable E u"

inductive_cases qstepE [elim!]: "qstep E w u"

definition sound :: "'w qw \<Rightarrow> bool" where
  "sound w \<longleftrightarrow> wf_files (files_of w) \<and> blind (q_log w)"

lemma sound_step:
  assumes "sound w" "qstep E w u"
  shows "sound u"
  using assms(2)
proof cases
  case (operate p)
  have "traced w u" unfolding operate(1) by (rule op_traced [OF _ operate(2)]) (use assms(1) in \<open>simp add: sound_def\<close>)
  moreover have "obeys w u" unfolding operate(1) by (rule op_obeys) (use assms(1) in \<open>simp add: sound_def\<close>)
  ultimately show ?thesis using assms(1) traced_wf by (auto simp: sound_def obeys_def grown_def)
next
  case (killed p es fs)
  have wf: "wf_files (files_of w)" using assms(1) by (simp add: sound_def)
  obtain gs where gs: "q_log (op_end E p w) = q_log w @ gs" "\<forall>e \<in> set gs. wf_event e"
    using op_traced [OF wf killed(1)] by (auto simp: traced_def grown_def)
  obtain hs where "q_log (op_end E p w) = q_log w @ hs" "blind hs"
    using op_obeys [OF wf] by (auto simp: obeys_def grown_def)
  with gs killed(2) have "\<forall>e \<in> set es. wf_event e" "blind es" by auto
  then show ?thesis using assms(1) wf_replay [OF wf] killed(3,4) by (simp add: sound_def)
next
  case (outside s)
  then show ?thesis using assms(1) by (simp add: sound_def files_of_def)
next
  case (power_cut f s i)
  then show ?thesis using assms(1) by (auto simp: sound_def files_of_def list_all_iff)
qed

lemma reachable_sound: "reachable E w \<Longrightarrow> sound w"
proof (induction rule: reachable.induct)
  case (fresh w)
  then show ?case by (simp add: sound_def files_of_def blind_def)
qed (rule sound_step)

text \<open>C24 (type): every journal the machine's directory can ever hold is one the code can read: whatever operations ran,
  were killed half way or were cut by a power failure, \<^verbatim>\<open>readJournal\<close> never reports an unreadable journal,
  and a journal it reads records a guest with memory.\<close>

theorem journals_always_readable:
  assumes "reachable E w"
  shows "case fst (run_state (read_journal E) w) of
    ReadBad _ \<Rightarrow> False | ReadJournal j \<Rightarrow> valid_phase j \<and> 0 < hw_memoryMiB (jn_hw j) | _ \<Rightarrow> True"
proof -
  have "wf_files (files_of w)" using reachable_sound [OF assms] by (simp add: sound_def)
  with hoare_end [OF hoare_pre [OF read_wf [of w]], of w E] show ?thesis by (auto simp: tr.refl split: jread.splits)
qed

text \<open>C5 (invariant): in every world the system can reach, through any interleaving of operations, kills, power
  cuts and moves of the outside world, no guest was ever continued while its directory held a saved journal: a
  saved machine is never running twice.\<close>

theorem never_continued_when_saved:
  assumes "reachable E w"
  shows "list_all (\<lambda>e. case e of LCont j _ \<Rightarrow> \<not> is_saved j | _ \<Rightarrow> True) (q_log w)"
  using reachable_sound [OF assms] by (auto simp: sound_def blind_def list_all_iff split: qevent.splits)

definition demo_prepare :: "unit qop" where
  "demo_prepare = OpPrepare demo_machine \<lparr>sp_reason = [], sp_meta = []\<rparr>"

lemma demo_prepared: "reachable demo_env (op_end demo_env demo_prepare (demo_world JNone None))"
proof (rule onward)
  show "reachable demo_env (demo_world JNone None)" by (rule fresh) (simp_all add: demo_world_def)
  show "qstep demo_env (demo_world JNone None) (op_end demo_env demo_prepare (demo_world JNone None))"
    by (rule operate) (simp add: demo_prepare_def demo_machine_def)
qed

theorem journals_always_readable_witness:
  "case fst (run_state (read_journal demo_env) (op_end demo_env demo_prepare (demo_world JNone None))) of
    ReadBad _ \<Rightarrow> False | ReadJournal j \<Rightarrow> valid_phase j \<and> 0 < hw_memoryMiB (jn_hw j) | _ \<Rightarrow> True"
  by (rule journals_always_readable [OF demo_prepared])

theorem never_continued_when_saved_witness:
  "list_all (\<lambda>e. case e of LCont j _ \<Rightarrow> \<not> is_saved j | _ \<Rightarrow> True)
     (q_log (op_end demo_env (OpCommit demo_machine None) (op_end demo_env demo_prepare (demo_world JNone None))))"
proof (rule never_continued_when_saved [OF onward [OF demo_prepared]])
  show "qstep demo_env (op_end demo_env demo_prepare (demo_world JNone None))
      (op_end demo_env (OpCommit demo_machine None) (op_end demo_env demo_prepare (demo_world JNone None)))"
    by (rule operate) simp
qed

section \<open>Recovery settles\<close>

text \<open>A host whose disk works and where no QEMU of ours is recorded.\<close>

definition plain_disk :: "'w qenv \<Rightarrow> bool" where
  "plain_disk E \<longleftrightarrow> (\<forall>op s. fst (qe_fs E op s) = None) \<and> (\<forall>s. fst (qe_pidfile E s) = PidMissing)"

text \<open>A step that cannot report an error.\<close>

definition fine :: "('w, 'e option) qm \<Rightarrow> bool" where
  "fine m \<longleftrightarrow> (\<forall>s. fst (run_state m s) = None)"

lemma fineI: "(\<And>s x t. run_state m s = (x, t) \<Longrightarrow> x = None) \<Longrightarrow> fine m"
  by (metis fine_def prod.collapse)

lemma fineD: "fine m \<Longrightarrow> run_state m s = (x, t) \<Longrightarrow> x = None"
  by (metis fine_def fst_conv)

lemma fine_ret: "fine (ret None)"
  by (simp add: fine_def State_Monad.return_def)

lemma fine_after:
  assumes "\<And>x. fine (f x)"
  shows "fine (State_Monad.bind m f)"
  using assms by (simp add: fine_def State_Monad.bind_def split_beta)

lemma fine_then:
  assumes "fine m" "fine n"
  shows "fine (do { e \<leftarrow> m; case e of Some t \<Rightarrow> f t | None \<Rightarrow> n })"
  using assms by (simp add: fine_def State_Monad.bind_def split_beta)

lemma fine_map: "fine m \<Longrightarrow> fine (do { e \<leftarrow> m; ret (map_option f e) })"
  by (simp add: fine_def State_Monad.bind_def State_Monad.return_def split_beta)

lemma fine_op: "plain_disk E \<Longrightarrow> fine (env (qe_fs E op))"
  by (simp add: fine_def env_def plain_disk_def split_beta)

lemma fine_sync: "plain_disk E \<Longrightarrow> fine (sync_dir E)"
  unfolding sync_dir_def by (rule fine_then [OF fine_op]) (assumption, intro fine_after fine_ret)

lemma fine_unlink: "plain_disk E \<Longrightarrow> fine (unlink_journal E)"
  by (auto simp: fine_def unlink_journal_def State_Monad.bind_def env_def reads_def modify_def State_Monad.return_def
      plain_disk_def split_beta split: jfile.splits)

lemma fine_aside: "plain_disk E \<Longrightarrow> fine (aside_journal E)"
  by (auto simp: fine_def aside_journal_def State_Monad.bind_def env_def reads_def modify_def State_Monad.return_def
      plain_disk_def split_beta split: jfile.splits)

lemma fine_remove_file: "plain_disk E \<Longrightarrow> fine (remove_file E f)"
  by (auto simp: fine_def remove_file_def State_Monad.bind_def env_def modify_def State_Monad.return_def plain_disk_def split_beta)

lemma fine_remove_each: "plain_disk E \<Longrightarrow> set (fst (run_state (remove_each E fs) s)) \<subseteq> {None}"
proof (induction fs arbitrary: s)
  case (Cons f fs)
  then show ?case using fine_remove_file [OF Cons.prems, of f]
    by (auto simp: fine_def State_Monad.bind_def State_Monad.return_def split_beta)
qed (simp add: State_Monad.return_def)

lemma join_none: "set es \<subseteq> {None} \<Longrightarrow> join_errs es = None"
proof -
  assume "set es \<subseteq> {None}"
  then have "concat (map (\<lambda>e. case e of None \<Rightarrow> [] | Some t \<Rightarrow> [t]) es) = []" by (auto simp: concat_eq_Nil_conv)
  then show ?thesis unfolding join_errs_def by (simp only: list.case)
qed

lemma fine_remove_all: "plain_disk E \<Longrightarrow> fine (remove_all E fs)"
  unfolding fine_def remove_all_def
  by (simp add: State_Monad.bind_def State_Monad.return_def split_beta join_none fine_remove_each)

lemma fine_discard: "plain_disk E \<Longrightarrow> fine (discard_journal_then_image E)"
  unfolding discard_journal_then_image_def remove_journal_def remove_images_def
  by (intro fine_then fine_unlink fine_sync fine_remove_all; assumption?)

lemma fine_where:
  assumes "\<And>s. P (fst (run_state m s))" "\<And>x. P x \<Longrightarrow> fine (f x)"
  shows "fine (State_Monad.bind m f)"
  using assms by (simp add: fine_def State_Monad.bind_def split_beta)

lemma fine_jread: "\<forall>t. r \<noteq> ReadIo t \<Longrightarrow> fine a \<Longrightarrow> (\<And>t. fine (b t)) \<Longrightarrow> (\<And>j. fine (d j)) \<Longrightarrow>
    fine (case r of ReadMissing \<Rightarrow> a | ReadBad t \<Rightarrow> b t | ReadIo t \<Rightarrow> c t | ReadJournal j \<Rightarrow> d j)"
  by (cases r) simp_all

lemma fine_repair_suspend:
  assumes "plain_disk E"
  shows "fine (repair_suspend E)"
proof -
  have images: "fine (do { e \<leftarrow> remove_images E; ret (map_option EPlain e) })"
    unfolding remove_images_def by (intro fine_map fine_remove_all assms)
  have r: "fst (run_state (read_journal E) s) \<noteq> ReadIo t" for s t
    using assms by (auto simp: read_journal_def State_Monad.bind_def env_def reads_def State_Monad.return_def plain_disk_def split_beta split: jfile.splits)
  have c: "fst (run_state (check_image E j) s) \<noteq> Inl t" for j s t
    using assms by (auto simp: check_image_def State_Monad.bind_def env_def reads_def State_Monad.return_def plain_disk_def split_beta split: option.splits)
  have v: "fine (do { v \<leftarrow> check_image E j; case v of Inl t \<Rightarrow> f t | Inr ok \<Rightarrow> g ok })" if "\<And>ok. fine (g ok)" for j f and g :: "bool \<Rightarrow> ('a, qerr option) qm"
    using that c [of j] by (fastforce simp: fine_def State_Monad.bind_def split_beta split: sum.splits)
  have a: "fine (do { e \<leftarrow> aside_journal E; case e of Some t \<Rightarrow> ret (Some (EPlain t))
      | None \<Rightarrow> do { e2 \<leftarrow> sync_dir E; case e2 of Some t \<Rightarrow> ret (Some (EPlain t))
      | None \<Rightarrow> do { e3 \<leftarrow> remove_images E; ret (map_option EPlain e3) } } })"
    by (intro fine_then fine_aside fine_sync images assms)
  have j: "fine (do { v \<leftarrow> check_image E j; case v of Inl t \<Rightarrow> ret (Some (EPlain (t @ '' (nothing was changed)'')))
      | Inr ok \<Rightarrow> do { e \<leftarrow> (if jn_phase j = saved \<and> ok then remove_all E [RTmp] else discard_journal_then_image E); ret (map_option EPlain e) } })" for j
  proof (rule v, rule fine_map)
    show "fine (if jn_phase j = saved \<and> ok then remove_all E [RTmp] else discard_journal_then_image E)" for ok
      using fine_remove_all [OF assms] fine_discard [OF assms] by simp
  qed
  show ?thesis unfolding repair_suspend_def
    by (rule fine_where [of "\<lambda>r. \<forall>t. r \<noteq> ReadIo t"], simp add: r, rule fine_jread, assumption, rule images, rule a, rule j)
qed

lemma plain_read:
  assumes "plain_disk E" and run: "run_state (read_journal E) w = (r, u)"
  shows "still w u" "\<forall>t. r \<noteq> ReadIo t" "r = ReadMissing \<longleftrightarrow> q_jour w = JNone" "\<forall>j. r = ReadJournal j \<longleftrightarrow> q_jour w = JFile j \<and> valid_phase j"
  using assms keepsD [OF still_read_journal run]
  by (auto simp: read_journal_def State_Monad.bind_def env_def reads_def State_Monad.return_def plain_disk_def valid_phase_def split_beta
      split: jfile.splits if_splits)

lemma plain_valid: "plain_disk E \<Longrightarrow> jn_phase j = saved \<Longrightarrow> run_state (valid_image E j) w = (v, u) \<Longrightarrow>
   still w u \<and> (v \<longleftrightarrow> 0 < jn_imageBytes j \<and> q_image w = Some (jn_imageBytes j))"
  using keepsD [OF still_valid_image, of E j w v u]
  by (auto simp: valid_image_def check_image_def State_Monad.bind_def env_def reads_def State_Monad.return_def plain_disk_def split_beta
      split: option.splits if_splits)

lemma plain_state:
  assumes P: "plain_disk E" and dir: "mc_dir m \<noteq> []" and w: "q_jour w = JNone \<or> saved_pair w"
  shows "fst (run_state (q_state E m) w) = Inr (if saved_pair w then Suspended else Stopped)"
proof -
  obtain p u where p: "run_state (state_from_pid_file E) w = (p, u)" by fastforce
  have "p = Stopped" using p P by (auto simp: state_from_pid_file_def State_Monad.bind_def env_def State_Monad.return_def plain_disk_def split_beta)
  have wu: "still w u"
    by (rule keepsD [OF _ p]) (unfold state_from_pid_file_def, intro st.rules)
  then have same: "q_jour u = q_jour w" "q_image u = q_image w"
    by (metis still_def qw.select_convs(2,4) qw.surjective qw.update_convs(1))+
  obtain r v where r: "run_state (read_journal E) u = (r, v)" by fastforce
  note rd = plain_read [OF P r]
  have sv: "q_image v = q_image u" using rd(1)
    by (metis still_def qw.select_convs(4) qw.surjective qw.update_convs(1))
  have "fst (run_state (state_from_files E) w) = (if saved_pair w then Suspended else Stopped)"
  proof (cases "q_jour w = JNone")
    case True
    then show ?thesis using p r rd \<open>p = Stopped\<close> same
      by (simp add: state_from_files_def State_Monad.bind_def State_Monad.return_def saved_pair_def pair_ok_def)
  next
    case False
    then obtain j where j: "q_jour w = JFile j" "valid_phase j" "jn_phase j = saved" "0 < jn_imageBytes j" "q_image w = Some (jn_imageBytes j)"
      using w by (auto simp: saved_pair_def pair_ok_def split: jfile.splits)
    obtain x y where x: "run_state (valid_image E j) v = (x, y)" by fastforce
    have "x" using plain_valid [OF P j(3) x] j sv same by simp
    moreover have "r = ReadJournal j" using rd(4) j same by simp
    ultimately show ?thesis using p r \<open>p = Stopped\<close> w False j x
      by (simp add: state_from_files_def State_Monad.bind_def State_Monad.return_def)
  qed
  then show ?thesis using dir
    by (simp add: q_state_def State_Monad.bind_def State_Monad.return_def split_beta)
qed

lemma still_fields: "still w u \<Longrightarrow> q_jour u = q_jour w \<and> q_image u = q_image w"
  by (metis still_def qw.select_convs(2,4) qw.surjective qw.update_convs(1))

lemma fine_repair: "plain_disk E \<Longrightarrow> mc_dir m \<noteq> [] \<Longrightarrow> fine (repair E m)"
  unfolding repair_def by (simp only: if_False) (intro fine_then fine_remove_all fine_repair_suspend; assumption)

lemma plain_pid: "plain_disk E \<Longrightarrow> run_state (our_pid E) w = (p, u) \<Longrightarrow> p = None \<and> still w u"
  by (auto simp: our_pid_def State_Monad.bind_def env_def State_Monad.return_def plain_disk_def still_def split_beta)

lemma plain_recover_dead:
  assumes P: "plain_disk E" and dir: "mc_dir m \<noteq> []"
    and jr: "jr = ReadMissing \<longleftrightarrow> q_jour w = JNone" "\<forall>j. jr = ReadJournal j \<longleftrightarrow> q_jour w = JFile j \<and> valid_phase j"
    and run: "run_state (recover_dead E m jr) w = (r, t)"
  shows "r \<in> {Inr RNone, Inr RSuspended, Inr RDiscarded}" "q_jour t = JNone \<or> saved_pair t" "r = Inr RSuspended \<longleftrightarrow> saved_pair t"
proof -
  have "r \<in> {Inr RNone, Inr RSuspended, Inr RDiscarded} \<and> (q_jour t = JNone \<or> saved_pair t) \<and> (r = Inr RSuspended \<longleftrightarrow> saved_pair t)"
  proof (cases "jr = ReadMissing")
    case True
    then show ?thesis using run jr(1) by (auto simp: recover_dead_def State_Monad.return_def saved_pair_def pair_ok_def)
  next
    case False
    obtain e s where e: "run_state (repair E m) w = (e, s)" by fastforce
    have en: "e = None" by (rule fineD [OF fine_repair [OF P dir] e])
    have "repair_done w e s" by (rule hoareD [OF repair_done_spec _ e]) (simp add: same_pair_def)
    then have d: "q_jour s = JNone \<and> q_image s = None \<or> same_pair w s \<and> saved_pair w" by (simp add: repair_done_def en)
    let ?m = "case jr of ReadJournal j \<Rightarrow> if jn_phase j = saved then valid_image E j else ret False | _ \<Rightarrow> ret False"
    obtain v u where v: "run_state ?m s = (v, u)" by fastforce
    have "keeps still ?m" by (intro st.rules still_valid_image)
    then have "still s u" by (rule keepsD [OF _ v])
    then have su: "q_jour u = q_jour s" "q_image u = q_image s" by (simp_all add: still_fields)
    have rt: "r = Inr (if v then RSuspended else RDiscarded)" "t = u"
      using run False e en v by (simp_all add: recover_dead_def State_Monad.bind_def State_Monad.return_def)
    show ?thesis
    proof (cases "saved_pair w \<and> same_pair w s")
      case True
      then obtain j where j: "q_jour w = JFile j" "valid_phase j" "jn_phase j = saved" "0 < jn_imageBytes j" "q_image s = Some (jn_imageBytes j)"
        by (auto simp: saved_pair_def pair_ok_def same_pair_def split: jfile.splits)
      have "jr = ReadJournal j" using jr(2) j by simp
      then have "run_state (valid_image E j) s = (v, u)" using v j(3) by simp
      then have "v" using plain_valid [OF P j(3)] j by blast
      moreover have "saved_pair t" using True su rt by (simp add: saved_pair_def same_pair_def)
      ultimately show ?thesis using rt by simp
    next
      case False
      then have g: "q_jour s = JNone" "q_image s = None" using d by auto
      have "\<not> v"
      proof (cases "\<exists>j. jr = ReadJournal j \<and> jn_phase j = saved")
        case True
        then obtain j where j: "jr = ReadJournal j" "jn_phase j = saved" by blast
        then have "run_state (valid_image E j) s = (v, u)" using v by simp
        from plain_valid [OF P j(2) this] g show ?thesis by simp
      next
        case False
        then show ?thesis using v by (cases jr) (auto simp: State_Monad.return_def)
      qed
      then show ?thesis using g su rt by (simp add: saved_pair_def pair_ok_def)
    qed
  qed
  then show "r \<in> {Inr RNone, Inr RSuspended, Inr RDiscarded}" "q_jour t = JNone \<or> saved_pair t" "r = Inr RSuspended \<longleftrightarrow> saved_pair t"
    by blast+
qed



end
