(* ===== verification/Qemu_Monitor.thy ===== *)
theory Qemu_Monitor
  imports GoLib "HOL-Library.Sublist"
begin

text \<open>
  The QMP client (\<^verbatim>\<open>internal/backend/qemu/qmp.go\<close>): a session with QEMU's monitor, its one call and the commands built on it.
  A session holds what its decoder will still deliver: the frames that arrive before the first read error (a deadline, a
  cancelled context, the end of the connection), and that error. A \<^verbatim>\<open>json.Decoder\<close> keeps its first read error and a
  \<^verbatim>\<open>json.Encoder\<close> its first write error, so the list of frames describes a whole session. The JSON of a reply's value is a
  parameter \<open>'j\<close> with its readers.
\<close>

section \<open>Frames and commands\<close>

record 'j qframe =
  fr_return :: "'j option"
  fr_error :: "(string \<times> string) option"
  fr_greeting :: bool
  fr_event :: string

text \<open>The arguments jm sends.\<close>

datatype qargs = NoArgs | Capabilities "(string \<times> bool) list" | Channels int | Uri string | Resize string int

record qmp_cmd =
  qc_execute :: string
  qc_args :: qargs

definition cmd :: "string \<Rightarrow> qmp_cmd" where
  "cmd x = \<lparr>qc_execute = x, qc_args = NoArgs\<rparr>"

record 'j session =
  mn_frames :: "'j qframe list"
  mn_readErr :: string
  mn_writes :: "string option list"
  mn_writeErr :: "string option"
  mn_sent :: "qmp_cmd list"

datatype qmp_err = CtxErr string string | SendErr string string | ReadErr string string | Refused string string string
  | BadValue string string | Greeting string | ConnectErr string | Plain string

fun qmp_text :: "qmp_err \<Rightarrow> string" where
  "qmp_text (CtxErr x t) = ''qmp: '' @ x @ '': '' @ t"
| "qmp_text (SendErr x t) = ''qmp: sending '' @ x @ '': '' @ t"
| "qmp_text (ReadErr x t) = ''qmp: reading reply to '' @ x @ '': '' @ t"
| "qmp_text (Refused x c d) = ''qmp: '' @ x @ '': '' @ c @ '': '' @ d"
| "qmp_text (BadValue x t) = ''qmp: decoding reply to '' @ x @ '': '' @ t"
| "qmp_text (Greeting t) = t"
| "qmp_text (ConnectErr t) = ''qmp: connect: '' @ t"
| "qmp_text (Plain t) = t"

section \<open>A call\<close>

text \<open>The frames that are replies, not events or greetings.\<close>

definition is_reply :: "'j qframe \<Rightarrow> bool" where
  "is_reply f \<longleftrightarrow> fr_event f = [] \<and> \<not> fr_greeting f"

text \<open>\<^verbatim>\<open>Encode\<close>: the results of the coming writes; one that failed fails every later one.\<close>

definition send :: "qmp_cmd \<Rightarrow> 'j session \<Rightarrow> string option \<times> 'j session" where
  "send c q =
     (case mn_writeErr q of
        Some t \<Rightarrow> (Some t, q)
      | None \<Rightarrow>
          (case mn_writes q of
             Some t # ws \<Rightarrow> (Some t, q\<lparr>mn_writes := ws, mn_writeErr := Some t\<rparr>)
           | ws \<Rightarrow> (None, q\<lparr>mn_writes := tl ws, mn_sent := mn_sent q @ [c]\<rparr>)))"

text \<open>The frame the loop stops at, and the rest; \<open>None\<close>: the read error came first.\<close>

fun next_reply :: "'j qframe list \<Rightarrow> 'j qframe option \<times> 'j qframe list" where
  "next_reply [] = (None, [])"
| "next_reply (f # fs) = (if is_reply f then (Some f, fs) else next_reply fs)"

definition recv :: "'j session \<Rightarrow> 'j qframe option \<times> 'j session" where
  "recv q = (case next_reply (mn_frames q) of (f, fs) \<Rightarrow> (f, q\<lparr>mn_frames := fs\<rparr>))"

text \<open>\<^verbatim>\<open>Call\<close> up to the reply: \<open>ctx\<close> is the context's error at the start.\<close>

definition exchange :: "string option \<Rightarrow> qmp_cmd \<Rightarrow> 'j session \<Rightarrow> (qmp_err + 'j qframe) \<times> 'j session" where
  "exchange ctx c q =
     (case ctx of
        Some t \<Rightarrow> (Inl (CtxErr (qc_execute c) t), q)
      | None \<Rightarrow>
          (case send c q of
             (Some t, q1) \<Rightarrow> (Inl (SendErr (qc_execute c) t), q1)
           | (None, q1) \<Rightarrow>
               (case recv q1 of
                  (None, q2) \<Rightarrow> (Inl (ReadErr (qc_execute c) (mn_readErr q2)), q2)
                | (Some f, q2) \<Rightarrow> (Inr f, q2))))"

text \<open>What a reply means; \<open>g\<close> reads the value into the caller's type (\<open>None\<close> when it asks for none).\<close>

definition reply_value :: "qmp_cmd \<Rightarrow> ('j \<Rightarrow> string + 'a) option \<Rightarrow> 'a \<Rightarrow> 'j qframe \<Rightarrow> qmp_err + 'a" where
  "reply_value c g zero f =
     (case fr_error f of
        Some (cl, d) \<Rightarrow> Inl (Refused (qc_execute c) cl d)
      | None \<Rightarrow>
          (case g of
             None \<Rightarrow> Inr zero
           | Some h \<Rightarrow>
               (case fr_return f of
                  None \<Rightarrow> Inr zero
                | Some v \<Rightarrow> (case h v of Inl t \<Rightarrow> Inl (BadValue (qc_execute c) t) | Inr x \<Rightarrow> Inr x))))"

definition qmp_call :: "string option \<Rightarrow> qmp_cmd \<Rightarrow> ('j \<Rightarrow> string + 'a) option \<Rightarrow> 'a \<Rightarrow> 'j session \<Rightarrow> (qmp_err + 'a) \<times> 'j session" where
  "qmp_call ctx c g zero q =
     (case exchange ctx c q of (Inl e, q1) \<Rightarrow> (Inl e, q1) | (Inr f, q1) \<Rightarrow> (reply_value c g zero f, q1))"

definition do_call :: "string option \<Rightarrow> qmp_cmd \<Rightarrow> 'j session \<Rightarrow> qmp_err option \<times> 'j session" where
  "do_call ctx c q = (case qmp_call ctx c None () q of (Inl e, q1) \<Rightarrow> (Some e, q1) | (Inr _, q1) \<Rightarrow> (None, q1))"

section \<open>Dialling\<close>

text \<open>\<^verbatim>\<open>DialMonitor\<close>: \<open>conn\<close> is the connection as it will behave, or why there is none. The greeting is the first frame.\<close>

definition dial_monitor :: "string option \<Rightarrow> string + 'j session \<Rightarrow> qmp_err + 'j session" where
  "dial_monitor ctx conn =
     (case conn of
        Inl t \<Rightarrow> Inl (ConnectErr t)
      | Inr q \<Rightarrow>
          (case mn_frames q of
             [] \<Rightarrow> Inl (Greeting (''qmp: reading greeting: '' @ mn_readErr q))
           | f # fs \<Rightarrow>
               (if \<not> fr_greeting f then Inl (Greeting ''qmp: unexpected first frame (no greeting)'')
                else case do_call ctx (cmd ''qmp_capabilities'') (q\<lparr>mn_frames := fs\<rparr>) of
                       (Some e, _) \<Rightarrow> Inl e
                     | (None, q1) \<Rightarrow> Inr q1)))"

section \<open>The commands\<close>

definition query_status :: "('j \<Rightarrow> string + string) \<Rightarrow> string option \<Rightarrow> 'j session \<Rightarrow> (qmp_err + string) \<times> 'j session" where
  "query_status g ctx q = qmp_call ctx (cmd ''query-status'') (Some g) [] q"

definition query_version :: "('j \<Rightarrow> string + int \<times> int \<times> int) \<Rightarrow> string option \<Rightarrow> 'j session \<Rightarrow> (qmp_err + string) \<times> 'j session" where
  "query_version g ctx q =
     (case qmp_call ctx (cmd ''query-version'') (Some g) (0, 0, 0) q of
        (Inl e, q1) \<Rightarrow> (Inl e, q1)
      | (Inr (a, b, c), q1) \<Rightarrow> (Inr (itoa a @ ''.'' @ itoa b @ ''.'' @ itoa c), q1))"

text \<open>\<^verbatim>\<open>query-machines\<close>: names with their aliases.\<close>

definition find_alias :: "string \<Rightarrow> (string \<times> string) list \<Rightarrow> string option" where
  "find_alias alias ms = map_option fst (List.find (\<lambda>(n, a). a = alias \<and> n \<noteq> []) ms)"

definition alias_target :: "('j \<Rightarrow> string + (string \<times> string) list) \<Rightarrow> string \<Rightarrow> string option \<Rightarrow> 'j session \<Rightarrow> (qmp_err + string) \<times> 'j session" where
  "alias_target g alias ctx q =
     (case qmp_call ctx (cmd ''query-machines'') (Some g) [] q of
        (Inl e, q1) \<Rightarrow> (Inl e, q1)
      | (Inr ms, q1) \<Rightarrow>
          (case find_alias alias ms of
             Some n \<Rightarrow> (Inr n, q1)
           | None \<Rightarrow> (Inl (Plain (''qmp: no machine type is aliased '' @ quote alias)), q1)))"

definition cap_mapped_ram :: string where "cap_mapped_ram = ''mapped-ram''"
definition cap_multifd :: string where "cap_multifd = ''multifd''"

definition file_migration_capable :: "('j \<Rightarrow> string + string list) \<Rightarrow> string option \<Rightarrow> 'j session \<Rightarrow> qmp_err option \<times> 'j session" where
  "file_migration_capable g ctx q =
     (case qmp_call ctx (cmd ''query-migrate-capabilities'') (Some g) [] q of
        (Inl e, q1) \<Rightarrow> (Some e, q1)
      | (Inr caps, q1) \<Rightarrow>
          (case List.find (\<lambda>w. w \<notin> set caps) [cap_mapped_ram, cap_multifd] of
             Some w \<Rightarrow> (Some (Plain (''qmp: migration capability '' @ w @ '' is not available'')), q1)
           | None \<Rightarrow> (None, q1)))"

definition set_file_migration :: "int \<Rightarrow> string option \<Rightarrow> string option \<Rightarrow> 'j session \<Rightarrow> qmp_err option \<times> 'j session" where
  "set_file_migration channels ctx1 ctx2 q =
     (case do_call ctx1 \<lparr>qc_execute = ''migrate-set-capabilities'', qc_args = Capabilities [(cap_mapped_ram, True), (cap_multifd, True)]\<rparr> q of
        (Some e, q1) \<Rightarrow> (Some e, q1)
      | (None, q1) \<Rightarrow> do_call ctx2 \<lparr>qc_execute = ''migrate-set-parameters'', qc_args = Channels channels\<rparr> q1)"

text \<open>\<open>mi_ram\<close>: transferred and total.\<close>

record migration_info =
  mi_state :: string
  mi_errorDesc :: string
  mi_blocked :: "string list"
  mi_totalTime :: int
  mi_downtime :: int
  mi_ram :: "(int \<times> int) option"

definition no_migration :: migration_info where
  "no_migration = \<lparr>mi_state = [], mi_errorDesc = [], mi_blocked = [], mi_totalTime = 0, mi_downtime = 0, mi_ram = None\<rparr>"

definition query_migrate :: "('j \<Rightarrow> string + migration_info) \<Rightarrow> string option \<Rightarrow> 'j session \<Rightarrow> (qmp_err + migration_info) \<times> 'j session" where
  "query_migrate g ctx q = qmp_call ctx (cmd ''query-migrate'') (Some g) no_migration q"

definition migrate :: "string \<Rightarrow> string option \<Rightarrow> 'j session \<Rightarrow> qmp_err option \<times> 'j session" where
  "migrate uri ctx q = do_call ctx \<lparr>qc_execute = ''migrate'', qc_args = Uri uri\<rparr> q"

definition migrate_incoming :: "string \<Rightarrow> string option \<Rightarrow> 'j session \<Rightarrow> qmp_err option \<times> 'j session" where
  "migrate_incoming uri ctx q = do_call ctx \<lparr>qc_execute = ''migrate-incoming'', qc_args = Uri uri\<rparr> q"

definition migrate_cancel :: "string option \<Rightarrow> 'j session \<Rightarrow> qmp_err option \<times> 'j session" where
  "migrate_cancel ctx q = do_call ctx (cmd ''migrate_cancel'') q"

definition qmp_stop :: "string option \<Rightarrow> 'j session \<Rightarrow> qmp_err option \<times> 'j session" where
  "qmp_stop ctx q = do_call ctx (cmd ''stop'') q"

definition qmp_cont :: "string option \<Rightarrow> 'j session \<Rightarrow> qmp_err option \<times> 'j session" where
  "qmp_cont ctx q = do_call ctx (cmd ''cont'') q"

definition qmp_quit :: "string option \<Rightarrow> 'j session \<Rightarrow> qmp_err option \<times> 'j session" where
  "qmp_quit ctx q = do_call ctx (cmd ''quit'') q"

text \<open>\<^verbatim>\<open>ExecuteCommands\<close>: over one session, each with the context's error at its start.\<close>

fun run_commands :: "(string option \<times> qmp_cmd) list \<Rightarrow> 'j session \<Rightarrow> qmp_err option \<times> 'j session" where
  "run_commands [] q = (None, q)"
| "run_commands ((ctx, c) # cs) q =
     (if qc_execute c = ''qmp_capabilities'' then run_commands cs q
      else case do_call ctx c q of (Some e, q1) \<Rightarrow> (Some e, q1) | (None, q1) \<Rightarrow> run_commands cs q1)"

definition execute_commands :: "string option \<Rightarrow> string + 'j session \<Rightarrow> (string option \<times> qmp_cmd) list \<Rightarrow> qmp_err option \<times> 'j session option" where
  "execute_commands ctx conn cs =
     (case dial_monitor ctx conn of
        Inl e \<Rightarrow> (Some e, None)
      | Inr q \<Rightarrow> (case run_commands cs q of (r, q1) \<Rightarrow> (r, Some q1)))"

definition powerdown :: "string option \<Rightarrow> string option \<Rightarrow> string + 'j session \<Rightarrow> qmp_err option \<times> 'j session option" where
  "powerdown ctx ctx1 conn = execute_commands ctx conn [(None, cmd ''qmp_capabilities''), (ctx1, cmd ''system_powerdown'')]"

definition block_resize :: "string option \<Rightarrow> string option \<Rightarrow> string + 'j session \<Rightarrow> string \<Rightarrow> int \<Rightarrow> qmp_err option \<times> 'j session option" where
  "block_resize ctx ctx1 conn device bytes =
     execute_commands ctx conn [(None, cmd ''qmp_capabilities''), (ctx1, \<lparr>qc_execute = ''block_resize'', qc_args = Resize device bytes\<rparr>)]"

section \<open>Replies and their commands\<close>

text \<open>A sequence of calls on one session: the commands that were answered, each with the frame it was given.\<close>

fun calls :: "(string option \<times> qmp_cmd) list \<Rightarrow> 'j session \<Rightarrow> (qmp_cmd \<times> 'j qframe) list \<times> 'j session" where
  "calls [] q = ([], q)"
| "calls ((ctx, c) # cs) q =
     (case exchange ctx c q of
        (r, q1) \<Rightarrow> (case calls cs q1 of (as, q2) \<Rightarrow> ((case r of Inr f \<Rightarrow> [(c, f)] | Inl _ \<Rightarrow> []) @ as, q2)))"

definition reply_frames :: "'j qframe list \<Rightarrow> 'j qframe list" where
  "reply_frames fs = filter is_reply fs"

text \<open>A session that will answer no more: nothing to read, or nothing may be written.\<close>

definition finished :: "'j session \<Rightarrow> bool" where
  "finished q \<longleftrightarrow> mn_frames q = [] \<or> mn_writeErr q \<noteq> None"

lemma next_reply_Some: "next_reply fs = (Some f, gs) \<Longrightarrow> reply_frames fs = f # reply_frames gs"
  by (induction fs) (auto simp: reply_frames_def split: if_splits)

lemma next_reply_None: "next_reply fs = (None, gs) \<Longrightarrow> gs = []"
  by (induction fs) (auto split: if_splits)

lemma send_cases:
  assumes "send c q = (r, q1)"
  shows "mn_frames q1 = mn_frames q \<and>
    ((r = None \<and> mn_sent q1 = mn_sent q @ [c] \<and> mn_writeErr q1 = mn_writeErr q) \<or> (r \<noteq> None \<and> mn_sent q1 = mn_sent q \<and> mn_writeErr q1 \<noteq> None))"
proof (cases "mn_writeErr q")
  case None
  then show ?thesis using assms by (auto simp: send_def split: option.splits list.splits)
next
  case (Some t)
  then show ?thesis using assms by (simp add: send_def) (metis option.distinct(1))
qed

text \<open>One exchange: answered by the next reply for a command just sent; or not sent at all; or the session is finished.\<close>

lemma exchange_cases:
  assumes "exchange ctx c q = (r, q1)"
  shows "(\<exists>f. r = Inr f \<and> mn_sent q1 = mn_sent q @ [c] \<and> reply_frames (mn_frames q) = f # reply_frames (mn_frames q1)) \<or>
    ((\<exists>e. r = Inl e) \<and> (finished q1 \<or> (mn_sent q1 = mn_sent q \<and> mn_frames q1 = mn_frames q)) \<and> (\<exists>cs. mn_sent q1 = mn_sent q @ cs))"
  using assms
  by (auto simp: exchange_def recv_def finished_def split: option.splits prod.splits dest!: send_cases dest: next_reply_Some next_reply_None)

lemma finished_exchange:
  assumes "finished q" "exchange ctx c q = (r, q1)"
  shows "finished q1 \<and> (\<exists>e. r = Inl e) \<and> (\<exists>cs. mn_sent q1 = mn_sent q @ cs)"
  using assms by (auto simp: exchange_def recv_def finished_def send_def split: option.splits prod.splits list.splits)

lemma finished_calls: "finished q \<Longrightarrow> calls cs q = (as, q1) \<Longrightarrow> as = [] \<and> (\<exists>ds. mn_sent q1 = mn_sent q @ ds)"
proof (induction cs arbitrary: q as)
  case (Cons x cs)
  obtain ctx c where x: "x = (ctx, c)" by fastforce
  obtain r q' where e: "exchange ctx c q = (r, q')" by fastforce
  obtain bs where bs: "calls cs q' = (bs, q1)" using Cons.prems(2) by (auto simp: x e split: prod.splits)
  note f = finished_exchange [OF Cons.prems(1) e]
  show ?case using f Cons.IH [OF _ bs] Cons.prems(2) by (auto simp: x e bs)
qed simp

lemma calls_in_step:
  "calls cs q = (as, q1) \<Longrightarrow> \<exists>ds. mn_sent q1 = mn_sent q @ ds \<and> as = take (length as) (zip ds (reply_frames (mn_frames q)))"
proof (induction cs arbitrary: q as)
  case (Cons x cs)
  obtain ctx c where x: "x = (ctx, c)" by fastforce
  obtain r q' where e: "exchange ctx c q = (r, q')" by fastforce
  obtain bs where bs: "calls cs q' = (bs, q1)" using Cons.prems by (auto simp: x e split: prod.splits)
  obtain ds where ds: "mn_sent q1 = mn_sent q' @ ds" "bs = take (length bs) (zip ds (reply_frames (mn_frames q')))"
    using Cons.IH [OF bs] by blast
  from exchange_cases [OF e] show ?case
  proof (elim disjE exE conjE)
    fix f assume f: "r = Inr f" "mn_sent q' = mn_sent q @ [c]" "reply_frames (mn_frames q) = f # reply_frames (mn_frames q')"
    have "as = (c, f) # bs" using Cons.prems by (simp add: x e bs f(1))
    then show ?thesis using ds f by (intro exI [of _ "c # ds"]) simp
  next
    fix t us assume "r = Inl t" "finished q'" "mn_sent q' = mn_sent q @ us"
    then show ?thesis using finished_calls [OF _ bs] Cons.prems by (auto simp: x e bs)
  next
    fix t assume "r = Inl t" "mn_sent q' = mn_sent q" "mn_frames q' = mn_frames q"
    then show ?thesis using ds Cons.prems by (auto simp: x e bs)
  qed
qed simp

text \<open>C7 (safety): a reply is never taken for another command's: whatever events come between, whichever calls are refused, time out or
  fail to send, over a session the answered commands are the first ones sent, and the n-th of them was given the n-th
  reply QEMU sent, which answers its commands in order.\<close>

theorem replies_match_commands:
  "\<exists>ds. mn_sent (snd (calls cs q)) = mn_sent q @ ds \<and>
     fst (calls cs q) = take (length (fst (calls cs q))) (zip ds (reply_frames (mn_frames q)))"
  using calls_in_step [of cs q "fst (calls cs q)" "snd (calls cs q)"] by simp

lemma do_call_sent: "do_call ctx c q = (None, q1) \<Longrightarrow> mn_sent q1 = mn_sent q @ [c]"
  by (auto simp: do_call_def qmp_call_def split: prod.splits sum.splits dest!: exchange_cases)

lemma do_call_prefix: "do_call ctx c q = (r, q1) \<Longrightarrow> mn_sent q1 = mn_sent q \<or> mn_sent q1 = mn_sent q @ [c]"
  by (auto simp: do_call_def qmp_call_def exchange_def recv_def split: prod.splits sum.splits option.splits dest!: send_cases)

lemma run_commands_sent:
  "run_commands cs q = (r, q1) \<Longrightarrow>
     \<exists>ds. mn_sent q1 = mn_sent q @ ds \<and> prefix ds (filter (\<lambda>c. qc_execute c \<noteq> ''qmp_capabilities'') (map snd cs)) \<and>
       (r = None \<longrightarrow> ds = filter (\<lambda>c. qc_execute c \<noteq> ''qmp_capabilities'') (map snd cs))"
proof (induction cs arbitrary: q)
  case (Cons x cs)
  obtain ctx c where x: "x = (ctx, c)" by fastforce
  show ?case
  proof (cases "qc_execute c = ''qmp_capabilities''")
    case True
    then show ?thesis using Cons x by auto
  next
    case False
    obtain e q' where e: "do_call ctx c q = (e, q')" by fastforce
    show ?thesis
    proof (cases e)
      case None
      then show ?thesis using Cons.IH [of q'] Cons.prems False do_call_sent [of ctx c q q'] e by (auto simp: x)
    next
      case (Some t)
      then show ?thesis using Cons.prems False do_call_prefix [OF e] e by (auto simp: x)
    qed
  qed
qed simp

text \<open>Fact (functional): commands go out in order after the negotiation: over one connection \<^verbatim>\<open>ExecuteCommands\<close> sends \<^verbatim>\<open>qmp_capabilities\<close> and
  then the commands asked for, in their order, up to the first that fails; and when it reports success, QEMU was sent, and
  acknowledged, all of them.\<close>

theorem commands_in_order:
  assumes "execute_commands ctx (Inr q) cs = (r, Some q1)"
  shows "\<exists>ds. mn_sent q1 = mn_sent q @ cmd ''qmp_capabilities'' # ds \<and>
    prefix ds (filter (\<lambda>c. qc_execute c \<noteq> ''qmp_capabilities'') (map snd cs)) \<and>
    (r = None \<longrightarrow> ds = filter (\<lambda>c. qc_execute c \<noteq> ''qmp_capabilities'') (map snd cs))"
proof -
  obtain q0 where d: "dial_monitor ctx (Inr q) = Inr q0" and r: "run_commands cs q0 = (r, q1)"
    using assms by (auto simp: execute_commands_def split: sum.splits prod.splits)
  have "mn_sent q0 = mn_sent q @ [cmd ''qmp_capabilities'']"
    using d by (auto simp: dial_monitor_def split: list.splits if_splits prod.splits option.splits dest!: do_call_sent)
  then show ?thesis using run_commands_sent [OF r] by auto
qed

definition demo_frame :: "unit qframe" where
  "demo_frame = \<lparr>fr_return = Some (), fr_error = None, fr_greeting = False, fr_event = []\<rparr>"

definition demo_session :: "unit session" where
  "demo_session = \<lparr>mn_frames = [demo_frame\<lparr>fr_greeting := True\<rparr>, demo_frame, demo_frame\<lparr>fr_event := ''POWERDOWN''\<rparr>, demo_frame],
     mn_readErr = ''EOF'', mn_writes = [], mn_writeErr = None, mn_sent = []\<rparr>"

theorem commands_in_order_witness:
  "\<exists>q1. powerdown None None (Inr demo_session) = (None, Some q1) \<and> mn_sent q1 = [cmd ''qmp_capabilities'', cmd ''system_powerdown'']"
proof -
  obtain r q1 where q1: "powerdown None None (Inr demo_session) = (r, Some q1)" "r = None"
    by (simp add: powerdown_def execute_commands_def dial_monitor_def demo_session_def demo_frame_def do_call_def qmp_call_def exchange_def
        send_def recv_def is_reply_def reply_value_def cmd_def)
  then show ?thesis
    using commands_in_order [of None demo_session "[(None, cmd ''qmp_capabilities''), (None, cmd ''system_powerdown'')]" r q1]
    by (simp add: powerdown_def demo_session_def) (simp add: cmd_def)
qed

end
