(* ===== verification/Sleeper_Standin.thy ===== *)
theory Sleeper_Standin
  imports Prelude GoLib Qemu_State "HOL-Library.Multiset"
begin

text \<open>
  The stand-in (\<^verbatim>\<open>internal/sleeper/standin.go\<close>): it holds a suspended machine's engine socket and SSH port, parks the
  connections that arrive, and hands them to the real endpoints. Every method's critical sections run under one mutex;
  the model's operations are the methods, with the connections its accept loops park while a method waits for them as
  an argument. The file system is a map from paths to inodes; what the kernel answers to a call is an argument too.
  The theorems: every accepted connection is parked, closed or relayed, exactly once; at most \<^verbatim>\<open>MaxHeld\<close> are parked; a
  connection or an abort during a suspend's window is seen by its last check; the engine socket's path never goes
  missing while it is taken; a socket of somebody else is never removed.
\<close>

section \<open>State\<close>

datatype kind = KUnix | KTcp

datatype smode = ModeMonitor | ModeHold | ModeHandOver | ModeExit

record observation =
  ob_state :: bstate
  ob_journal :: bool
  ob_holding :: bool
  ob_endpointsBack :: bool
  ob_stoppedBefore :: bool
  ob_busy :: bool

definition ob_stopped :: "observation \<Rightarrow> bool" where
  "ob_stopped o1 \<longleftrightarrow> ob_state o1 = Stopped \<and> \<not> ob_journal o1"

definition decide :: "observation \<Rightarrow> smode" where
  "decide o1 =
     (if ob_stopped o1 \<and> ob_stoppedBefore o1 \<and> \<not> ob_busy o1 then ModeExit
      else if ob_holding o1
      then (if \<not> ob_journal o1 \<and> ob_state o1 = Running \<and> ob_endpointsBack o1 then ModeHandOver else ModeHold)
      else if ob_state o1 = Suspended \<or> ob_state o1 = Broken then ModeHold
      else ModeMonitor)"

text \<open>A parked connection: its number (in the order of acceptance), its endpoint and when it arrived.\<close>

record held =
  hd_id :: nat
  hd_kind :: kind
  hd_at :: int

record standin =
  sd_max :: nat
  sd_unix :: bool
  sd_unixPath :: string
  sd_unixIno :: nat
  sd_unixAside :: string
  sd_tcp :: bool
  sd_tcpAddr :: string
  sd_releasedTo :: int
  sd_held :: "held list"
  sd_armed :: bool
  sd_aborted :: bool

text \<open>What became of a connection that is no longer parked.\<close>

datatype fate = Closed | Relayed

text \<open>The changes made to the file system, in order: the directory's names and the inodes behind them.\<close>

datatype fsm = FsRemove string | FsBind string nat | FsLink string string | FsRename string string

type_synonym names = "string \<rightharpoonup> nat"

fun fs_step :: "names \<Rightarrow> fsm \<Rightarrow> names" where
  "fs_step d (FsRemove p) = d(p := None)"
| "fs_step d (FsBind p i) = d(p \<mapsto> i)"
| "fs_step d (FsLink p q) = d(q := d p)"
| "fs_step d (FsRename p q) = d(q := d p, p := None)"

text \<open>The world: the stand-in, the names, the changes it made to them, the number of the next connection, how many were
  parked, and where the connections that left went.\<close>

record sw =
  sw_st :: standin
  sw_names :: names
  sw_log :: "fsm list"
  sw_next :: nat
  sw_parks :: nat
  sw_fates :: "(nat \<times> fate) list"

definition max_held :: "standin \<Rightarrow> nat" where
  "max_held s = (if sd_max s > 0 then sd_max s else 256)"

definition fs_do :: "fsm \<Rightarrow> sw \<Rightarrow> sw" where
  "fs_do c w = w\<lparr>sw_names := fs_step (sw_names w) c, sw_log := sw_log w @ [c]\<rparr>"

definition with_st :: "(standin \<Rightarrow> standin) \<Rightarrow> sw \<Rightarrow> sw" where
  "with_st f w = w\<lparr>sw_st := f (sw_st w)\<rparr>"

section \<open>Connections\<close>

text \<open>\<^verbatim>\<open>park\<close>: the accepted connection gets the next number.\<close>

definition park :: "kind \<times> int \<Rightarrow> sw \<Rightarrow> sw" where
  "park c w =
     (let s = sw_st w; n = sw_next w in
      if length (sd_held s) \<ge> max_held s
      then w\<lparr>sw_next := n + 1, sw_fates := sw_fates w @ [(n, Closed)]\<rparr>
      else w\<lparr>sw_next := n + 1, sw_parks := sw_parks w + 1,
             sw_st := s\<lparr>sd_held := sd_held s @ [\<lparr>hd_id = n, hd_kind = fst c, hd_at = snd c\<rparr>],
                       sd_aborted := (sd_aborted s \<or> sd_armed s)\<rparr>\<rparr>)"

definition park_all :: "(kind \<times> int) list \<Rightarrow> sw \<Rightarrow> sw" where
  "park_all cs w = fold park cs w"

text \<open>The park timer of one connection fires; a connection no longer parked is left alone.\<close>

definition expire :: "nat \<Rightarrow> sw \<Rightarrow> sw" where
  "expire n w =
     (let s = sw_st w in
      if n \<in> hd_id ` set (sd_held s)
      then w\<lparr>sw_st := s\<lparr>sd_held := filter (\<lambda>h. hd_id h \<noteq> n) (sd_held s)\<rparr>, sw_fates := sw_fates w @ [(n, Closed)]\<rparr>
      else w)"

definition take_held :: "sw \<Rightarrow> held list \<times> sw" where
  "take_held w = (sd_held (sw_st w), with_st (\<lambda>s. s\<lparr>sd_held := []\<rparr>) w)"

text \<open>\<^verbatim>\<open>Splice\<close>: a connection whose upstream cannot be dialled is closed, the others are relayed.\<close>

definition splice :: "(held \<Rightarrow> bool) \<Rightarrow> held \<Rightarrow> nat \<times> fate" where
  "splice dials h = (hd_id h, if dials h then Relayed else Closed)"

definition close_held :: "sw \<Rightarrow> nat \<times> sw" where
  "close_held w = (let (hs, w1) = take_held w in (length hs, w1\<lparr>sw_fates := sw_fates w1 @ map (\<lambda>h. (hd_id h, Closed)) hs\<rparr>))"

definition first_kind :: "standin \<Rightarrow> kind option" where
  "first_kind s = (case sd_held s of [] \<Rightarrow> None | h # hs \<Rightarrow> Some (hd_kind (fold (\<lambda>x b. if hd_at x < hd_at b then x else b) hs h)))"

section \<open>The window of a suspend\<close>

definition arm :: "standin \<Rightarrow> standin" where
  "arm s = s\<lparr>sd_armed := True, sd_aborted := False\<rparr>"

definition disarm :: "standin \<Rightarrow> standin" where
  "disarm s = s\<lparr>sd_armed := False\<rparr>"

definition abort :: "standin \<Rightarrow> standin" where
  "abort s = (if sd_armed s then s\<lparr>sd_aborted := True\<rparr> else s)"

definition check_and_freeze :: "standin \<Rightarrow> bool \<times> standin" where
  "check_and_freeze s = (if sd_aborted s then (True, s) else (False, s\<lparr>sd_armed := False\<rparr>))"

section \<open>Endpoints\<close>

text \<open>The directory of a path, and the short names beside it: \<open>H\<close> is the first two bytes of the path's SHA-256, in hex.\<close>

definition dir_of :: "string \<Rightarrow> string" where
  "dir_of p = rev (dropWhile (\<lambda>c. c \<noteq> CHR ''/'') (rev p))"

definition beside_path :: "(string \<Rightarrow> string) \<Rightarrow> string \<Rightarrow> string" where
  "beside_path H p = dir_of p @ ''.jmw'' @ H p"

definition aside_path :: "(string \<Rightarrow> string) \<Rightarrow> string \<Rightarrow> string" where
  "aside_path H p = dir_of p @ ''.jmo'' @ H p"

definition drop_previous :: "sw \<Rightarrow> sw" where
  "drop_previous w =
     (let a = sd_unixAside (sw_st w); w1 = with_st (\<lambda>s. s\<lparr>sd_unixAside := []\<rparr>) w
      in if a \<noteq> [] then fs_do (FsRemove a) w1 else w1)"

text \<open>What the kernel answers while a unix socket is taken over: the inode of the new socket, or why a step fails.\<close>

record take_ans =
  ta_listen :: "string + nat"
  ta_chmod :: "string option"
  ta_seen :: bool
  ta_link :: bool
  ta_rename :: "string option"

text \<open>From the moment the new socket is bound beside the path.\<close>

definition take_over :: "(string \<Rightarrow> string) \<Rightarrow> take_ans \<Rightarrow> (kind \<times> int) list \<Rightarrow> string \<Rightarrow> bool \<Rightarrow> nat \<Rightarrow> sw \<Rightarrow> string option \<times> sw" where
  "take_over H a late p keep ino w2 =
     (let tmp = beside_path H p; w3 = drop_previous w2; asd = aside_path H p;
          w4 = (if keep then fs_do (FsRemove asd) w3 else w3);
          linked = (keep \<and> ta_link a \<and> sw_names w4 p \<noteq> None);
          w5 = (if linked then fs_do (FsLink p asd) w4 else w4)
      in case ta_rename a of
           Some t \<Rightarrow>
             (let w6 = fs_do (FsRemove tmp) w5 in
              (Some (''sleeper: taking over '' @ p @ '': '' @ t), if linked then fs_do (FsRemove asd) w6 else w6))
         | None \<Rightarrow>
             (None, park_all late
                (with_st (\<lambda>s. s\<lparr>sd_unix := True, sd_unixPath := p, sd_unixIno := ino,
                              sd_unixAside := (if linked then asd else [])\<rparr>)
                   (fs_do (FsRename tmp p) w5))))"

definition take_unix :: "(string \<Rightarrow> string) \<Rightarrow> take_ans \<Rightarrow> (kind \<times> int) list \<Rightarrow> string \<Rightarrow> bool \<Rightarrow> sw \<Rightarrow> string option \<times> sw" where
  "take_unix H a late p keep w =
     (let tmp = beside_path H p in
      if length tmp > 103 then (Some (''sleeper: socket path '' @ quote tmp @ '' is too long''), w)
      else
        (let w1 = fs_do (FsRemove tmp) w in
         case ta_listen a of
           Inl t \<Rightarrow> (Some (''sleeper: binding '' @ tmp @ '': '' @ t), w1)
         | Inr ino \<Rightarrow>
             (let w2 = fs_do (FsBind tmp ino) w1 in
              case ta_chmod a of
                Some t \<Rightarrow> (Some (''sleeper: '' @ t), fs_do (FsRemove tmp) w2)
              | None \<Rightarrow>
                  (if \<not> ta_seen a then (Some (''sleeper: '' @ tmp @ '' vanished after binding''), fs_do (FsRemove tmp) w2)
                   else take_over H a late p keep ino w2))))"

text \<open>\<open>answers\<close>: whether a dial to the link succeeds; \<open>renamed\<close>: whether the rename does.\<close>

definition restore_previous :: "bool \<Rightarrow> bool \<Rightarrow> sw \<Rightarrow> bool \<times> sw" where
  "restore_previous answers renamed w =
     (let s = sw_st w; a = sd_unixAside s; w1 = with_st (\<lambda>s. s\<lparr>sd_unixAside := []\<rparr>) w in
      if a = [] then (False, w1)
      else if sw_names w (sd_unixPath s) \<noteq> Some (sd_unixIno s) \<or> \<not> answers then (False, fs_do (FsRemove a) w1)
      else if \<not> renamed then (False, fs_do (FsRemove a) w1)
      else (True, fs_do (FsRename a (sd_unixPath s)) w1))"

definition take_tcp :: "string option \<Rightarrow> (kind \<times> int) list \<Rightarrow> string \<Rightarrow> sw \<Rightarrow> string option \<times> sw" where
  "take_tcp listen late addr w =
     (case listen of
        Some t \<Rightarrow> (Some (''sleeper: listening on '' @ addr @ '': '' @ t), w)
      | None \<Rightarrow> (None, park_all late (with_st (\<lambda>s. s\<lparr>sd_tcp := True, sd_tcpAddr := addr, sd_releasedTo := 0\<rparr>) w)))"

text \<open>\<open>removed\<close>: the answer to the removal, \<open>None\<close> when it succeeds.\<close>

definition close_unix :: "string option \<Rightarrow> (kind \<times> int) list \<Rightarrow> bool \<Rightarrow> sw \<Rightarrow> string option \<times> sw" where
  "close_unix removed late unlink w =
     (let w1 = drop_previous w; s = sw_st w1; p = sd_unixPath s; ino = sd_unixIno s;
          w2 = park_all (if sd_unix s then late else []) (with_st (\<lambda>s. s\<lparr>sd_unix := False, sd_unixPath := [], sd_unixIno := 0\<rparr>) w1)
      in if unlink \<and> p \<noteq> [] \<and> sw_names w2 p = Some ino
         then (case removed of Some t \<Rightarrow> (Some t, w2) | None \<Rightarrow> (None, fs_do (FsRemove p) w2))
         else (None, w2))"

definition close_tcp :: "(kind \<times> int) list \<Rightarrow> sw \<Rightarrow> sw" where
  "close_tcp late w =
     park_all (if sd_tcp (sw_st w) then late else [])
       (with_st (\<lambda>s. s\<lparr>sd_tcp := False, sd_tcpAddr := [], sd_releasedTo := 0\<rparr>) w)"

definition release_tcp :: "(kind \<times> int) list \<Rightarrow> int \<Rightarrow> sw \<Rightarrow> sw" where
  "release_tcp late pid w =
     park_all (if sd_tcp (sw_st w) then late else []) (with_st (\<lambda>s. s\<lparr>sd_tcp := False, sd_releasedTo := pid\<rparr>) w)"

definition relisten_if_owner_gone :: "bool \<Rightarrow> string option \<Rightarrow> (kind \<times> int) list \<Rightarrow> sw \<Rightarrow> (string + bool) \<times> sw" where
  "relisten_if_owner_gone alive listen late w =
     (let s = sw_st w in
      if sd_releasedTo s = 0 \<or> sd_tcp s \<or> sd_tcpAddr s = [] \<or> alive then (Inr False, w)
      else (case take_tcp listen late (sd_tcpAddr s) w of
              (Some t, w1) \<Rightarrow> (Inl t, w1)
            | (None, w1) \<Rightarrow> (Inr True, w1)))"

definition unix_is_ours :: "sw \<Rightarrow> bool" where
  "unix_is_ours w \<longleftrightarrow> sd_unixPath (sw_st w) \<noteq> [] \<and> sw_names w (sd_unixPath (sw_st w)) = Some (sd_unixIno (sw_st w))"

definition holding :: "standin \<Rightarrow> bool" where
  "holding s \<longleftrightarrow> sd_unixPath s \<noteq> [] \<or> sd_tcpAddr s \<noteq> [] \<or> length (sd_held s) > 0"

text \<open>\<open>unix_answers\<close> and \<open>tcp_answers\<close>: whether a dial to the path and to the port succeeds.\<close>

definition endpoints_back :: "bool \<Rightarrow> bool \<Rightarrow> sw \<Rightarrow> bool" where
  "endpoints_back unix_answers tcp_answers w =
     (let s = sw_st w; p = sd_unixPath s in
      if p \<noteq> [] \<and> (sw_names w p = None \<or> sw_names w p = Some (sd_unixIno s) \<or> \<not> unix_answers) then False
      else if sd_tcpAddr s \<noteq> [] then \<not> sd_tcp s \<and> tcp_answers
      else True)"

text \<open>Both listeners close first, so a connection accepted meanwhile is parked and then taken with the others.\<close>

definition hand_over :: "(held \<Rightarrow> bool) \<Rightarrow> (kind \<times> int) list \<Rightarrow> sw \<Rightarrow> nat \<times> sw" where
  "hand_over dials late w =
     (let w1 = drop_previous w; s = sw_st w1;
          w2 = with_st (\<lambda>s. s\<lparr>sd_unix := False, sd_unixPath := [], sd_unixIno := 0, sd_tcp := False, sd_tcpAddr := [], sd_releasedTo := 0\<rparr>) w1;
          w3 = park_all (if sd_unix s \<or> sd_tcp s then late else []) w2;
          (hs, w4) = take_held w3
      in (length hs, w4\<lparr>sw_fates := sw_fates w4 @ map (splice dials) hs\<rparr>))"

definition close_all :: "string option \<Rightarrow> (kind \<times> int) list \<Rightarrow> (kind \<times> int) list \<Rightarrow> sw \<Rightarrow> string option \<times> sw" where
  "close_all removed late1 late2 w = close_unix removed late2 True (close_tcp late1 (snd (close_held w)))"

section \<open>The stand-in as a state machine\<close>

text \<open>Its operations in any order, the timers, and other processes changing the directory.\<close>

datatype sev =
    EvPark kind int | EvExpire nat
  | EvTakeUnix take_ans "(kind \<times> int) list" string bool | EvRestore bool bool | EvDrop
  | EvTakeTcp "string option" "(kind \<times> int) list" string
  | EvCloseUnix "string option" "(kind \<times> int) list" bool | EvCloseTcp "(kind \<times> int) list"
  | EvReleaseTcp "(kind \<times> int) list" int | EvRelisten bool "string option" "(kind \<times> int) list"
  | EvArm | EvDisarm | EvAbort | EvFreeze
  | EvHandOver "held \<Rightarrow> bool" "(kind \<times> int) list" | EvCloseHeld | EvOutside names

fun sd_step :: "(string \<Rightarrow> string) \<Rightarrow> sw \<Rightarrow> sev \<Rightarrow> sw" where
  "sd_step H w (EvPark k t) = park (k, t) w"
| "sd_step H w (EvExpire n) = expire n w"
| "sd_step H w (EvTakeUnix a late p keep) = snd (take_unix H a late p keep w)"
| "sd_step H w (EvRestore answers renamed) = snd (restore_previous answers renamed w)"
| "sd_step H w EvDrop = drop_previous w"
| "sd_step H w (EvTakeTcp l late addr) = snd (take_tcp l late addr w)"
| "sd_step H w (EvCloseUnix r late unlink) = snd (close_unix r late unlink w)"
| "sd_step H w (EvCloseTcp late) = close_tcp late w"
| "sd_step H w (EvReleaseTcp late pid) = release_tcp late pid w"
| "sd_step H w (EvRelisten alive l late) = snd (relisten_if_owner_gone alive l late w)"
| "sd_step H w EvArm = with_st arm w"
| "sd_step H w EvDisarm = with_st disarm w"
| "sd_step H w EvAbort = with_st abort w"
| "sd_step H w EvFreeze = with_st (\<lambda>s. snd (check_and_freeze s)) w"
| "sd_step H w (EvHandOver d late) = snd (hand_over d late w)"
| "sd_step H w EvCloseHeld = snd (close_held w)"
| "sd_step H w (EvOutside d) = w\<lparr>sw_names := d\<rparr>"

text \<open>\<open>tame\<close>: nothing happened to the connections or to the window of a suspend.\<close>

definition tame :: "sw \<Rightarrow> sw \<Rightarrow> bool" where
  "tame w w' \<longleftrightarrow> sd_held (sw_st w') = sd_held (sw_st w) \<and> sd_max (sw_st w') = sd_max (sw_st w) \<and>
     sd_armed (sw_st w') = sd_armed (sw_st w) \<and> sd_aborted (sw_st w') = sd_aborted (sw_st w) \<and>
     sw_next w' = sw_next w \<and> sw_parks w' = sw_parks w \<and> sw_fates w' = sw_fates w"

lemma tame_refl [simp]: "tame w w"
  by (simp add: tame_def)

lemma tame_trans: "tame u v \<Longrightarrow> tame v w \<Longrightarrow> tame u w"
  by (simp add: tame_def)

lemma tame_fs [simp]: "tame w (fs_do c w') \<longleftrightarrow> tame w w'"
  by (simp add: tame_def fs_do_def)

lemma tame_st:
  "(\<And>s. sd_held (f s) = sd_held s \<and> sd_max (f s) = sd_max s \<and> sd_armed (f s) = sd_armed s \<and> sd_aborted (f s) = sd_aborted s) \<Longrightarrow>
   tame w (with_st f w') \<longleftrightarrow> tame w w'"
  by (simp add: tame_def with_st_def)

lemma tame_drop [simp]: "tame w (drop_previous w') \<longleftrightarrow> tame w w'"
  by (simp add: drop_previous_def Let_def tame_st)

lemma tame_names [simp]: "tame w (w'\<lparr>sw_names := d\<rparr>) \<longleftrightarrow> tame w w'"
  by (simp add: tame_def)

text \<open>Every operation on the endpoints is: a tame part, the connections parked meanwhile, a tame part.\<close>

definition parks_only :: "sw \<Rightarrow> sw \<Rightarrow> bool" where
  "parks_only w w' \<longleftrightarrow> (\<exists>u cs. tame w u \<and> tame (park_all cs u) w')"

lemma parks_tame: "tame w w' \<Longrightarrow> parks_only w w'"
  unfolding parks_only_def park_all_def by (rule exI [of _ w'], rule exI [of _ "[]"]) simp

lemma parks_all: "tame w u \<Longrightarrow> parks_only w (park_all cs u)"
  unfolding parks_only_def by (intro exI [of _ u] exI [of _ cs]) simp

lemma parks_all_fs: "tame w u \<Longrightarrow> parks_only w (fs_do c (park_all cs u))"
  unfolding parks_only_def by (intro exI [of _ u] exI [of _ cs]) simp

lemma take_over_parks: "tame w u \<Longrightarrow> parks_only w (snd (take_over H a late p keep ino u))"
  by (auto simp: take_over_def Let_def tame_st intro!: parks_tame parks_all split: option.splits)

lemma take_unix_parks: "parks_only w (snd (take_unix H a late p keep w))"
  by (auto simp: take_unix_def Let_def intro!: parks_tame take_over_parks split: sum.splits option.splits)

lemma take_tcp_parks: "parks_only w (snd (take_tcp l late addr w))"
  by (auto simp: take_tcp_def tame_st intro!: parks_tame parks_all split: option.splits)

lemma endpoint_parks:
  "e \<in> {EvTakeUnix a late p keep, EvRestore answers renamed, EvDrop, EvTakeTcp l late p, EvCloseUnix r late keep, EvCloseTcp late,
     EvReleaseTcp late pid, EvRelisten answers l late, EvOutside d} \<Longrightarrow> parks_only w (sd_step H w e)"
proof (elim insertE emptyE)
  assume e: "e = EvRelisten answers l late"
  have "snd (relisten_if_owner_gone answers l late w) \<in> {w, snd (take_tcp l late (sd_tcpAddr (sw_st w)) w)}"
    by (auto simp: relisten_if_owner_gone_def Let_def split: prod.splits option.splits)
  then show ?thesis using take_tcp_parks [of w] parks_tame [of w w] by (auto simp: e)
qed (auto simp: take_unix_parks take_tcp_parks restore_previous_def close_unix_def close_tcp_def release_tcp_def Let_def tame_st
    intro!: parks_tame parks_all parks_all_fs split: option.splits)

section \<open>Conservation and bounds\<close>

definition conn_ids :: "sw \<Rightarrow> nat list" where
  "conn_ids w = map hd_id (sd_held (sw_st w)) @ map fst (sw_fates w)"

definition settled_conns :: "sw \<Rightarrow> bool" where
  "settled_conns w \<longleftrightarrow> mset (conn_ids w) = mset [0..<sw_next w] \<and> length (sd_held (sw_st w)) \<le> max_held (sw_st w)"

lemma tame_settled: "tame w w' \<Longrightarrow> settled_conns w' = settled_conns w"
  by (simp add: tame_def settled_conns_def conn_ids_def max_held_def)

lemma park_settled: "settled_conns w \<Longrightarrow> settled_conns (park c w)"
  by (auto simp: settled_conns_def conn_ids_def park_def Let_def max_held_def atLeast0_lessThan_Suc)

lemma park_all_settled: "settled_conns w \<Longrightarrow> settled_conns (park_all cs w)"
  unfolding park_all_def by (induction cs arbitrary: w) (auto intro: park_settled)

lemma parks_only_settled: "parks_only w w' \<Longrightarrow> settled_conns w \<Longrightarrow> settled_conns w'"
  by (auto simp: parks_only_def tame_settled park_all_settled)

lemma settled_distinct: "settled_conns w \<Longrightarrow> distinct (conn_ids w)"
  by (metis settled_conns_def distinct_upt mset_eq_imp_distinct_iff)

lemma filter_one:
  "distinct (map f xs) \<Longrightarrow> x \<in> f ` set xs \<Longrightarrow> add_mset x (image_mset f (mset (filter (\<lambda>h. f h \<noteq> x) xs))) = image_mset f (mset xs)"
proof (induction xs)
  case (Cons a xs)
  show ?case
  proof (cases "f a = x")
    case True
    then have "\<forall>h \<in> set xs. f h \<noteq> x" using Cons.prems(1) by (metis distinct.simps(2) image_eqI image_set list.simps(9))
    then have "filter (\<lambda>h. f h \<noteq> x) xs = xs" by (rule filter_True)
    with True show ?thesis by simp
  next
    case False
    then show ?thesis using Cons by auto
  qed
qed simp

lemma expire_settled:
  assumes "settled_conns w"
  shows "settled_conns (expire n w)"
proof (cases "n \<in> hd_id ` set (sd_held (sw_st w))")
  case True
  let ?f = "filter (\<lambda>h. hd_id h \<noteq> n) (sd_held (sw_st w))"
  have "distinct (map hd_id (sd_held (sw_st w)))" using assms settled_distinct by (auto simp: conn_ids_def)
  from filter_one [OF this True]
  have "image_mset hd_id (mset ?f) + add_mset n (image_mset fst (mset (sw_fates w))) = image_mset hd_id (mset (sd_held (sw_st w))) + image_mset fst (mset (sw_fates w))"
    by (metis union_mset_add_mset_left union_mset_add_mset_right)
  then have "mset (conn_ids (expire n w)) = mset (conn_ids w)" using True by (simp add: conn_ids_def expire_def Let_def)
  moreover have "length ?f \<le> length (sd_held (sw_st w))" by simp
  ultimately show ?thesis using assms True
    by (simp add: settled_conns_def expire_def Let_def max_held_def del: length_filter_le split: if_splits)
next
  case False
  then show ?thesis using assms by (simp add: expire_def Let_def)
qed

lemma close_held_settled: "settled_conns w \<Longrightarrow> settled_conns (snd (close_held w))"
  by (simp add: settled_conns_def conn_ids_def close_held_def take_held_def with_st_def max_held_def comp_def ac_simps)

lemma hand_over_settled:
  assumes "settled_conns w"
  shows "settled_conns (snd (hand_over d late w))"
proof -
  define w3 where "w3 = park_all (if sd_unix (sw_st (drop_previous w)) \<or> sd_tcp (sw_st (drop_previous w)) then late else [])
    (with_st (\<lambda>s. s\<lparr>sd_unix := False, sd_unixPath := [], sd_unixIno := 0, sd_tcp := False, sd_tcpAddr := [], sd_releasedTo := 0\<rparr>) (drop_previous w))"
  have "tame w (with_st (\<lambda>s. s\<lparr>sd_unix := False, sd_unixPath := [], sd_unixIno := 0, sd_tcp := False, sd_tcpAddr := [], sd_releasedTo := 0\<rparr>) (drop_previous w))"
    by (simp add: tame_st)
  then have "settled_conns w3" unfolding w3_def by (intro park_all_settled) (simp add: tame_settled assms)
  moreover have "map fst (map (splice d) hs) = map hd_id hs" for hs by (simp add: splice_def comp_def)
  ultimately show ?thesis
    unfolding hand_over_def Let_def take_held_def w3_def [symmetric]
    by (simp add: settled_conns_def conn_ids_def with_st_def max_held_def comp_def splice_def ac_simps)
qed

lemma settled_cong:
  "sd_held (sw_st w') = sd_held (sw_st w) \<Longrightarrow> sd_max (sw_st w') = sd_max (sw_st w) \<Longrightarrow> sw_next w' = sw_next w \<Longrightarrow>
   sw_fates w' = sw_fates w \<Longrightarrow> settled_conns w' = settled_conns w"
  by (simp add: settled_conns_def conn_ids_def max_held_def)

lemma window_tame: "e \<in> {EvArm, EvDisarm, EvAbort, EvFreeze} \<Longrightarrow> settled_conns w \<Longrightarrow> settled_conns (sd_step H w e)"
  by (subst settled_cong [of _ w]) (auto simp: with_st_def arm_def disarm_def abort_def check_and_freeze_def)

lemma sd_step_settled: "settled_conns w \<Longrightarrow> settled_conns (sd_step H w e)"
proof (cases e)
  case (EvPark k t)
  then show "settled_conns w \<Longrightarrow> ?thesis" by (simp add: park_settled)
next
  case (EvExpire n)
  then show "settled_conns w \<Longrightarrow> ?thesis" by (simp add: expire_settled)
next
  case (EvHandOver d late)
  then show "settled_conns w \<Longrightarrow> ?thesis" by (simp add: hand_over_settled)
next
  case EvCloseHeld
  then show "settled_conns w \<Longrightarrow> ?thesis" by (simp add: close_held_settled)
qed (erule parks_only_settled [OF endpoint_parks, rotated], simp; fail | erule window_tame [rotated], simp; fail)+

lemma park_fates: "length (sw_fates w) \<le> length (sw_fates (park c w))"
  by (simp add: park_def Let_def)

lemma park_all_fates: "length (sw_fates w) \<le> length (sw_fates (park_all cs w))"
  unfolding park_all_def by (induction cs arbitrary: w) (auto intro: le_trans [OF park_fates])

lemma parks_only_fates: "parks_only w w' \<Longrightarrow> length (sw_fates w) \<le> length (sw_fates w')"
  unfolding parks_only_def tame_def by (metis park_all_fates)

lemma sd_step_fates: "length (sw_fates w) \<le> length (sw_fates (sd_step H w e))"
proof (cases e)
  case (EvPark k t)
  then show ?thesis by (simp add: park_fates)
next
  case (EvExpire n)
  then show ?thesis by (simp add: expire_def Let_def)
next
  case (EvHandOver d late)
  have "parks_only w (park_all (if sd_unix (sw_st (drop_previous w)) \<or> sd_tcp (sw_st (drop_previous w)) then late else [])
    (with_st (\<lambda>s. s\<lparr>sd_unix := False, sd_unixPath := [], sd_unixIno := 0, sd_tcp := False, sd_tcpAddr := [], sd_releasedTo := 0\<rparr>) (drop_previous w)))"
    by (intro parks_all) (simp add: tame_st)
  from parks_only_fates [OF this] show ?thesis
    by (simp add: EvHandOver hand_over_def Let_def take_held_def with_st_def)
next
  case EvCloseHeld
  then show ?thesis by (simp add: close_held_def take_held_def with_st_def)
qed (rule parks_only_fates [OF endpoint_parks], simp; fail | simp add: with_st_def; fail)+

interpretation sb: monotone_step "sd_step H" settled_conns "\<lambda>w. length (sw_fates w)" for H
  by standard (auto intro: sd_step_settled sd_step_fates)

definition new_standin :: "nat \<Rightarrow> standin" where
  "new_standin n = \<lparr>sd_max = n, sd_unix = False, sd_unixPath = [], sd_unixIno = 0, sd_unixAside = [], sd_tcp = False,
     sd_tcpAddr = [], sd_releasedTo = 0, sd_held = [], sd_armed = False, sd_aborted = False\<rparr>"

definition new_sw :: "nat \<Rightarrow> names \<Rightarrow> sw" where
  "new_sw n d = \<lparr>sw_st = new_standin n, sw_names = d, sw_log = [], sw_next = 0, sw_parks = 0, sw_fates = []\<rparr>"

lemma new_settled: "settled_conns (new_sw n d)"
  by (simp add: new_sw_def new_standin_def settled_conns_def conn_ids_def)

lemma settled_exactly:
  assumes "settled_conns w"
  shows "distinct (map hd_id (sd_held (sw_st w)) @ map fst (sw_fates w)) \<and>
    set (map hd_id (sd_held (sw_st w)) @ map fst (sw_fates w)) = {0..<sw_next w} \<and> length (sd_held (sw_st w)) \<le> max_held (sw_st w)"
proof -
  have "mset (conn_ids w) = mset [0..<sw_next w]" using assms unfolding settled_conns_def by (rule conjunct1)
  then have "set (conn_ids w) = {0..<sw_next w}" using mset_eq_setD by fastforce
  with assms settled_distinct [OF assms] show ?thesis by (simp add: settled_conns_def conn_ids_def)
qed

text \<open>Fact (invariant): no connection is lost and none is used twice: after any sequence of operations, timers and foreign
  changes, every connection ever accepted is parked, closed or relayed, exactly one of them and exactly once, and no
  more than the limit are parked.\<close>

theorem every_connection_once:
  "let w = run_steps (sd_step H) (new_sw n d) es;
       ids = map hd_id (sd_held (sw_st w)) @ map fst (sw_fates w)
   in distinct ids \<and> set ids = {0..<sw_next w} \<and> length (sd_held (sw_st w)) \<le> max_held (sw_st w)"
  unfolding Let_def by (rule settled_exactly [OF sb.run_inv [OF new_settled]])

section \<open>The window of a suspend\<close>

definition window_event :: "sev \<Rightarrow> bool" where
  "window_event e \<longleftrightarrow> e \<notin> {EvArm, EvDisarm, EvFreeze}"

lemma window_event_code [code]:
  "window_event e = (case e of EvArm \<Rightarrow> False | EvDisarm \<Rightarrow> False | EvFreeze \<Rightarrow> False | _ \<Rightarrow> True)"
  by (cases e) (simp_all add: window_event_def)

text \<open>\<open>watched w w'\<close>: the window stays open, and it is cancelled exactly if it was or something was parked.\<close>

definition watched :: "bool \<Rightarrow> sw \<Rightarrow> sw \<Rightarrow> bool" where
  "watched b w w' \<longleftrightarrow> (sd_armed (sw_st w) \<longrightarrow> sd_armed (sw_st w') \<and> sw_parks w \<le> sw_parks w' \<and>
     (sd_aborted (sw_st w') \<longleftrightarrow> sd_aborted (sw_st w) \<or> b \<or> sw_parks w < sw_parks w'))"

lemma watched_refl: "watched False w w"
  by (simp add: watched_def)

lemma watched_trans: "watched a u v \<Longrightarrow> watched b v w \<Longrightarrow> watched (a \<or> b) u w"
  by (auto simp: watched_def)

lemma watched_tame: "tame w w' \<Longrightarrow> watched False w w'"
  by (simp add: tame_def watched_def)

lemma watched_park: "watched False w (park c w)"
  by (auto simp: watched_def park_def Let_def)

lemma watched_park_all: "watched False w (park_all cs w)"
  unfolding park_all_def
proof (induction cs arbitrary: w)
  case (Cons c cs)
  from watched_trans [OF watched_park Cons.IH] show ?case by simp
qed (simp add: watched_refl)

lemma watched_parks_only: "parks_only w w' \<Longrightarrow> watched False w w'"
proof -
  assume "parks_only w w'"
  then obtain u cs where "tame w u" "tame (park_all cs u) w'" by (auto simp: parks_only_def)
  from watched_trans [OF watched_trans [OF watched_tame [OF this(1)] watched_park_all] watched_tame [OF this(2)]]
  show ?thesis by simp
qed

lemma endpoint_watched: "parks_only w (sd_step H w e) \<Longrightarrow> e \<noteq> EvAbort \<Longrightarrow> watched (e = EvAbort) w (sd_step H w e)"
  using watched_parks_only by simp

lemma watched_step: "window_event e \<Longrightarrow> watched (e = EvAbort) w (sd_step H w e)"
proof (cases e)
  case (EvPark k t)
  then show ?thesis using watched_park by simp
next
  case (EvExpire n)
  then show ?thesis by (simp add: expire_def Let_def watched_def)
next
  case (EvHandOver d late)
  let ?u = "park_all (if sd_unix (sw_st (drop_previous w)) \<or> sd_tcp (sw_st (drop_previous w)) then late else [])
    (with_st (\<lambda>s. s\<lparr>sd_unix := False, sd_unixPath := [], sd_unixIno := 0, sd_tcp := False, sd_tcpAddr := [], sd_releasedTo := 0\<rparr>) (drop_previous w))"
  have "parks_only w ?u" by (intro parks_all) (simp add: tame_st)
  from watched_parks_only [OF this] show ?thesis
    by (simp add: EvHandOver hand_over_def Let_def take_held_def with_st_def watched_def)
next
  case EvCloseHeld
  then show ?thesis by (simp add: close_held_def take_held_def with_st_def watched_def)
next
  case EvAbort
  then show ?thesis by (simp add: watched_def with_st_def abort_def)
qed (simp add: window_event_def; fail | rule endpoint_watched [OF endpoint_parks], simp, simp)+

lemma watched_run: "\<forall>e \<in> set es. window_event e \<Longrightarrow> watched (EvAbort \<in> set es) w (run_steps (sd_step H) w es)"
proof (induction es arbitrary: w)
  case (Cons e es)
  from watched_trans [OF watched_step [of e] Cons.IH] Cons.prems show ?case by (auto simp: eq_commute)
qed (simp add: watched_refl)

text \<open>C15 (safety): the last check before the freeze misses nothing: from the moment a suspend arms the stand-in, whatever
  endpoints it takes or releases, \<^verbatim>\<open>CheckAndFreeze\<close> cancels the suspend exactly if a connection was parked or
  an abort came since; and if it lets the suspend go on, the window is closed, so a later connection waits for a wake.\<close>

theorem freeze_sees_every_connection:
  assumes "\<forall>e \<in> set es. window_event e"
  shows "let w1 = sd_step H w EvArm; w2 = run_steps (sd_step H) w1 es; (cancelled, s) = check_and_freeze (sw_st w2)
    in (cancelled \<longleftrightarrow> EvAbort \<in> set es \<or> sw_parks w1 < sw_parks w2) \<and> (cancelled \<or> \<not> sd_armed s) \<and> sd_held s = sd_held (sw_st w2)"
proof -
  let ?w1 = "sd_step H w EvArm" let ?w2 = "run_steps (sd_step H) ?w1 es"
  have "sd_armed (sw_st ?w1)" "\<not> sd_aborted (sw_st ?w1)" by (simp_all add: with_st_def arm_def)
  with watched_run [OF assms, of ?w1 H] have "sd_aborted (sw_st ?w2) \<longleftrightarrow> EvAbort \<in> set es \<or> sw_parks ?w1 < sw_parks ?w2"
    by (auto simp: watched_def)
  then show ?thesis by (simp add: Let_def check_and_freeze_def)
qed

theorem freeze_sees_every_connection_witness:
  "fst (check_and_freeze (sw_st (run_steps (sd_step (\<lambda>_. ''00'')) (sd_step (\<lambda>_. ''00'') (new_sw 2 Map.empty) EvArm) [EvPark KUnix 5])))"
  using freeze_sees_every_connection [of "[EvPark KUnix 5]" "\<lambda>_. ''00''" "new_sw 2 Map.empty"]
  by (simp add: window_event_def Let_def split_beta park_def new_sw_def new_standin_def max_held_def with_st_def arm_def)

section \<open>The mode table\<close>

text \<open>Fact (equivalence): the mode table as the rows of its documentation: the sleeper exits exactly on a machine seen stopped twice with no
  command in between; it hands over exactly when what it holds is served again by a running machine without a journal
  (and the exit row does not apply); it monitors exactly when it holds nothing and the machine is neither suspended
  nor broken; and it holds otherwise, so a suspended or broken machine is never monitored and held endpoints are
  never simply dropped.\<close>

theorem mode_table:
  "(decide b = ModeExit \<longleftrightarrow> ob_state b = Stopped \<and> \<not> ob_journal b \<and> ob_stoppedBefore b \<and> \<not> ob_busy b) \<and>
   (decide b = ModeHandOver \<longleftrightarrow> ob_holding b \<and> \<not> ob_journal b \<and> ob_state b = Running \<and> ob_endpointsBack b) \<and>
   (decide b = ModeMonitor \<longleftrightarrow> \<not> ob_holding b \<and> ob_state b \<in> {Running, Stopped} \<and> decide b \<noteq> ModeExit) \<and>
   (decide b = ModeHold \<longleftrightarrow> decide b \<noteq> ModeExit \<and> decide b \<noteq> ModeHandOver \<and> (ob_holding b \<or> ob_state b \<in> {Suspended, Broken}))"
  by (cases "ob_state b") (auto simp: decide_def ob_stopped_def)

section \<open>The engine socket's path\<close>

definition base_of :: "string \<Rightarrow> string" where
  "base_of p = rev (takeWhile (\<lambda>c. c \<noteq> CHR ''/'') (rev p))"

text \<open>The names the stand-in makes for itself.\<close>

definition own_name :: "string \<Rightarrow> bool" where
  "own_name p \<longleftrightarrow> has_prefix (base_of p) ''.jm''"

definition plain_hash :: "(string \<Rightarrow> string) \<Rightarrow> bool" where
  "plain_hash H \<longleftrightarrow> (\<forall>p. CHR ''/'' \<notin> set (H p))"

lemma dir_base: "dir_of p @ base_of p = p"
  unfolding dir_of_def base_of_def by (metis rev_append rev_rev_ident takeWhile_dropWhile_id)

lemma takeWhile_dropped: "takeWhile P (dropWhile P xs) = []"
  by (induction xs) auto

lemma base_of_join: "CHR ''/'' \<notin> set q \<Longrightarrow> base_of (dir_of p @ q) = q"
proof -
  assume "CHR ''/'' \<notin> set q"
  then have "takeWhile (\<lambda>c. c \<noteq> CHR ''/'') (rev q @ dropWhile (\<lambda>c. c \<noteq> CHR ''/'') (rev p)) = rev q"
    by (subst takeWhile_append2) (auto simp: takeWhile_dropped)
  then show ?thesis by (simp add: base_of_def dir_of_def)
qed

lemma own_join: "CHR ''/'' \<notin> set q \<Longrightarrow> own_name (dir_of p @ q) \<longleftrightarrow> has_prefix q ''.jm''"
  by (simp add: own_name_def base_of_join)

lemma own_beside: "plain_hash H \<Longrightarrow> own_name (beside_path H p)"
  unfolding beside_path_def by (subst own_join) (simp_all add: plain_hash_def has_prefix_def)

lemma own_aside: "plain_hash H \<Longrightarrow> own_name (aside_path H p)"
  unfolding aside_path_def by (subst own_join) (simp_all add: plain_hash_def has_prefix_def)

lemma sw_log_st [simp]: "sw_log (with_st f w) = sw_log w" "sw_names (with_st f w) = sw_names w"
  by (simp_all add: with_st_def)

lemma sw_log_park [simp]: "sw_log (park_all cs w) = sw_log w" "sw_names (park_all cs w) = sw_names w"
  unfolding park_all_def by (induction cs arbitrary: w) (auto simp: park_def Let_def)

lemma sw_park_st: "sd_unixPath (sw_st (park_all cs w)) = sd_unixPath (sw_st w) \<and> sd_unixIno (sw_st (park_all cs w)) = sd_unixIno (sw_st w) \<and>
    sd_unixAside (sw_st (park_all cs w)) = sd_unixAside (sw_st w)"
  unfolding park_all_def by (induction cs arbitrary: w) (auto simp: park_def Let_def)

text \<open>What a change leaves of the name \<open>p\<close>.\<close>

fun spares :: "string \<Rightarrow> fsm \<Rightarrow> bool" where
  "spares p (FsRemove q) = (q \<noteq> p)"
| "spares p (FsBind q i) = (q \<noteq> p)"
| "spares p (FsLink q r) = (r \<noteq> p)"
| "spares p (FsRename q r) = (q \<noteq> p \<and> r \<noteq> p)"

lemma spares_step: "spares p c \<Longrightarrow> fs_step d c p = d p"
  by (cases c) auto

lemma spares_run: "\<forall>c \<in> set cs. spares p c \<Longrightarrow> run_steps fs_step d cs p = d p"
  by (induction cs arbitrary: d) (auto simp: spares_step)

text \<open>\<open>sparing p w u\<close>: from \<open>w\<close> to \<open>u\<close> the names changed as the log says, and never the name \<open>p\<close>.\<close>

definition sparing :: "string \<Rightarrow> sw \<Rightarrow> sw \<Rightarrow> bool" where
  "sparing p w u \<longleftrightarrow> (\<exists>cs. sw_log u = sw_log w @ cs \<and> sw_names u = run_steps fs_step (sw_names w) cs \<and> (\<forall>c \<in> set cs. spares p c))"

lemma sparing_refl [simp]: "sparing p w w"
  by (simp add: sparing_def)

lemma sparing_do: "sparing p w u \<Longrightarrow> spares p c \<Longrightarrow> sparing p w (fs_do c u)"
  unfolding sparing_def by (elim exE, rule_tac x = "cs @ [c]" in exI) (auto simp: fs_do_def run_steps_append)

lemma sparing_st [simp]: "sparing p w (with_st f u) \<longleftrightarrow> sparing p w u"
  by (simp add: sparing_def)

lemma sparing_park [simp]: "sparing p w (park_all cs u) \<longleftrightarrow> sparing p w u"
  by (simp add: sparing_def)

lemma sparing_drop: "sparing p w u \<Longrightarrow> sd_unixAside (sw_st u) \<noteq> p \<or> sd_unixAside (sw_st u) = [] \<Longrightarrow> sparing p w (drop_previous u)"
  by (auto simp: drop_previous_def Let_def intro: sparing_do)

lemma sparing_names: "sparing p w u \<Longrightarrow> sw_names u p = sw_names w p"
  by (auto simp: sparing_def spares_run)

lemma sparing_trans: "sparing p u v \<Longrightarrow> sparing p v w \<Longrightarrow> sparing p u w"
  unfolding sparing_def by (elim exE, rule_tac x = "cs @ csa" in exI) (auto simp: run_steps_append)

lemma aside_do [simp]: "sw_st (fs_do c w) = sw_st w"
  by (simp add: fs_do_def)

definition aside_ok :: "(string \<Rightarrow> string) \<Rightarrow> sw \<Rightarrow> bool" where
  "aside_ok H w \<longleftrightarrow> sd_unixAside (sw_st w) = [] \<or> (\<exists>q. sd_unixAside (sw_st w) = aside_path H q)"

lemma aside_beside: "plain_hash H \<Longrightarrow> aside_path H q \<noteq> beside_path H p"
proof
  assume H: "plain_hash H" and e: "aside_path H q = beside_path H p"
  have "base_of (aside_path H q) = ''.jmo'' @ H q" unfolding aside_path_def
    by (rule base_of_join) (use H in \<open>simp add: plain_hash_def\<close>)
  moreover have "base_of (beside_path H p) = ''.jmw'' @ H p" unfolding beside_path_def
    by (rule base_of_join) (use H in \<open>simp add: plain_hash_def\<close>)
  ultimately show False using e by simp
qed

text \<open>A name that is neither the link's, nor one the stand-in makes, is spared up to the rename.\<close>

lemma prepare_sparing:
  assumes "aside_ok H w" "\<forall>q. p \<noteq> aside_path H q"
    and "u = (if linked then fs_do (FsLink x (aside_path H x)) (if keep then fs_do (FsRemove (aside_path H x)) (drop_previous w) else drop_previous w)
              else if keep then fs_do (FsRemove (aside_path H x)) (drop_previous w) else drop_previous w)"
  shows "sparing p w u"
proof -
  have "sparing p w (drop_previous w)" by (rule sparing_drop) (use assms(1,2) in \<open>auto simp: aside_ok_def\<close>)
  moreover have "spares p (FsRemove (aside_path H x))" "spares p (FsLink x (aside_path H x))" using assms(2) by auto
  ultimately show ?thesis unfolding assms(3)
    by (cases keep; cases linked; simp only: if_True if_False) (intro sparing_do; assumption)+
qed

lemma take_over_spares:
  assumes H: "plain_hash H" and p: "\<not> own_name p" and a: "aside_ok H w"
    and run: "take_over H a late p keep ino w = (r, w')"
  shows "(r \<noteq> None \<and> sparing p w w') \<or>
    (r = None \<and> (\<exists>u f. sparing p w u \<and> sw_names u (beside_path H p) = sw_names w (beside_path H p) \<and>
       w' = park_all late (with_st f (fs_do (FsRename (beside_path H p) p) u)) \<and>
       (\<forall>s. sd_unixPath (f s) = p \<and> sd_unixIno (f s) = ino)))"
proof -
  let ?w4 = "if keep then fs_do (FsRemove (aside_path H p)) (drop_previous w) else drop_previous w"
  define linked where "linked = (keep \<and> ta_link a \<and> sw_names ?w4 p \<noteq> None)"
  define u where "u = (if linked then fs_do (FsLink p (aside_path H p)) ?w4 else ?w4)"
  have over: "take_over H a late p keep ino w = (case ta_rename a of
      Some t \<Rightarrow> (Some (''sleeper: taking over '' @ p @ '': '' @ t),
        if linked then fs_do (FsRemove (aside_path H p)) (fs_do (FsRemove (beside_path H p)) u) else fs_do (FsRemove (beside_path H p)) u)
    | None \<Rightarrow> (None, park_all late (with_st (\<lambda>s. s\<lparr>sd_unix := True, sd_unixPath := p, sd_unixIno := ino,
                  sd_unixAside := (if linked then aside_path H p else [])\<rparr>) (fs_do (FsRename (beside_path H p) p) u))))"
    unfolding take_over_def Let_def linked_def u_def by (rule refl)
  have np: "\<forall>q. p \<noteq> aside_path H q" "p \<noteq> beside_path H p" using own_aside [OF H] own_beside [OF H] p by (metis, metis)
  have sp: "sparing p w u" by (rule prepare_sparing [OF a np(1) u_def])
  have "sparing (beside_path H p) w u" by (rule prepare_sparing [OF a _ u_def]) (metis aside_beside [OF H])
  then have tmp: "sw_names u (beside_path H p) = sw_names w (beside_path H p)" by (rule sparing_names)
  show ?thesis
  proof (cases "ta_rename a")
    case None
    then have "r = None" "w' = park_all late (with_st (\<lambda>s. s\<lparr>sd_unix := True, sd_unixPath := p, sd_unixIno := ino,
                  sd_unixAside := (if linked then aside_path H p else [])\<rparr>) (fs_do (FsRename (beside_path H p) p) u))"
      using run unfolding over by simp_all
    with sp tmp show ?thesis by (intro disjI2 conjI) (simp, intro exI [of _ u] exI conjI, assumption+, simp)
  next
    case (Some t)
    then have "r \<noteq> None" "w' = (if linked then fs_do (FsRemove (aside_path H p)) (fs_do (FsRemove (beside_path H p)) u) else fs_do (FsRemove (beside_path H p)) u)"
      using run unfolding over by auto
    moreover have "spares p (FsRemove (aside_path H p))" "spares p (FsRemove (beside_path H p))" using np by (metis spares.simps(1))+
    then have "sparing p w (fs_do (FsRemove (beside_path H p)) u)"
      "sparing p w (fs_do (FsRemove (aside_path H p)) (fs_do (FsRemove (beside_path H p)) u))" by (blast intro: sparing_do sp)+
    ultimately show ?thesis by simp
  qed
qed

lemma take_unix_spares:
  assumes H: "plain_hash H" and p: "\<not> own_name p" and a: "aside_ok H w"
    and run: "take_unix H a late p keep w = (r, w')"
  shows "(r \<noteq> None \<and> sparing p w w') \<or>
    (r = None \<and> (\<exists>u f ino. sparing p w u \<and> sw_names u (beside_path H p) = Some ino \<and>
       w' = park_all late (with_st f (fs_do (FsRename (beside_path H p) p) u)) \<and>
       (\<forall>s. sd_unixPath (f s) = p \<and> sd_unixIno (f s) = ino)))"
proof -
  let ?tmp = "beside_path H p"
  have s: "spares p (FsRemove ?tmp)" "spares p (FsBind ?tmp i)" for i using own_beside [OF H, of p] p by auto
  show ?thesis
  proof (cases "length ?tmp > 103")
    case True
    then have "r \<noteq> None" "w' = w" using run by (auto simp: take_unix_def Let_def)
    then show ?thesis by simp
  next
    case len: False
    let ?w1 = "fs_do (FsRemove ?tmp) w"
    have w1: "sparing p w ?w1" by (intro sparing_do sparing_refl s)
    show ?thesis
    proof (cases "ta_listen a")
      case (Inl t)
      then have "r \<noteq> None" "w' = ?w1" using run len by (auto simp: take_unix_def Let_def)
      with w1 show ?thesis by simp
    next
      case (Inr ino)
      let ?w2 = "fs_do (FsBind ?tmp ino) ?w1"
      have w2: "sparing p w ?w2" by (intro sparing_do w1 s)
      have n2: "sw_names ?w2 ?tmp = Some ino" by (simp add: fs_do_def)
      show ?thesis
      proof (cases "ta_chmod a \<noteq> None \<or> \<not> ta_seen a")
        case True
        then have "r \<noteq> None" "w' = fs_do (FsRemove ?tmp) ?w2"
          using run len Inr by (auto simp: take_unix_def Let_def split: option.splits)
        with sparing_do [OF w2 s(1)] show ?thesis by simp
      next
        case False
        then have to: "take_over H a late p keep ino ?w2 = (r, w')" using run len Inr by (auto simp: take_unix_def Let_def)
        have ao: "aside_ok H ?w2" using a by (simp add: aside_ok_def)
        from take_over_spares [OF H p ao to] consider "r \<noteq> None" "sparing p ?w2 w'"
          | u f where "r = None" "sparing p ?w2 u" "sw_names u ?tmp = sw_names ?w2 ?tmp"
              "w' = park_all late (with_st f (fs_do (FsRename ?tmp p) u))" "\<forall>s. sd_unixPath (f s) = p \<and> sd_unixIno (f s) = ino"
          by blast
        then show ?thesis
        proof cases
          case 1
          with sparing_trans [OF w2] show ?thesis by blast
        next
          case 2
          with sparing_trans [OF w2 2(2)] n2 show ?thesis by (intro disjI2 conjI) (simp, metis)
        qed
      qed
    qed
  qed
qed

text \<open>Fact (safety): taking the engine socket over never leaves its path missing: at every moment between two changes of the
  directory the path names a socket, the one that was there or (once the take-over has succeeded) the stand-in's, and a
  take-over that fails, at whatever step, leaves the path as it was.\<close>

theorem take_never_missing:
  assumes "plain_hash H" "\<not> own_name p" "aside_ok H w" "sw_names w p = Some i"
  shows "case take_unix H a late p keep w of (r, w') \<Rightarrow>
    \<exists>cs. sw_log w' = sw_log w @ cs \<and> sw_names w' = run_steps fs_step (sw_names w) cs \<and>
      (\<forall>n. run_steps fs_step (sw_names w) (take n cs) p \<noteq> None) \<and>
      sw_names w' p = Some (if r = None then sd_unixIno (sw_st w') else i)"
proof -
  obtain r w' where run: "take_unix H a late p keep w = (r, w')" by fastforce
  have cut: "run_steps fs_step (sw_names w) (take n cs) p = Some i" if "\<forall>c \<in> set cs. spares p c" for n cs
    using that assms(4) by (subst spares_run) (auto dest: in_set_takeD)
  from take_unix_spares [OF assms(1-3) run]
  consider "r \<noteq> None" "sparing p w w'"
    | u f ino where "r = None" "sparing p w u" "sw_names u (beside_path H p) = Some ino"
       "w' = park_all late (with_st f (fs_do (FsRename (beside_path H p) p) u))"
       "\<forall>s. sd_unixPath (f s) = p \<and> sd_unixIno (f s) = ino" by blast
  then show ?thesis
  proof cases
    case 1
    then show ?thesis using cut sparing_names [OF 1(2)] assms(4) run unfolding sparing_def by fastforce
  next
    case 2
    let ?c = "FsRename (beside_path H p) p"
    obtain cs where cs: "sw_log u = sw_log w @ cs" "sw_names u = run_steps fs_step (sw_names w) cs" "\<forall>c \<in> set cs. spares p c"
      using 2(2) by (auto simp: sparing_def)
    have ne: "beside_path H p \<noteq> p" using own_beside [OF assms(1), of p] assms(2) by metis
    have fin: "sw_names w' = run_steps fs_step (sw_names w) (cs @ [?c])" "sw_names w' p = Some ino"
      using 2(3,4) cs(2) ne by (simp_all add: fs_do_def run_steps_append)
    have "run_steps fs_step (sw_names w) (take n (cs @ [?c])) p \<noteq> None" for n
    proof (cases "n \<le> length cs")
      case True
      then show ?thesis using cut [OF cs(3)] by simp
    next
      case False
      then show ?thesis using fin by simp
    qed
    moreover have "sw_log w' = sw_log w @ (cs @ [?c])" using 2(4) cs(1) by (simp add: fs_do_def)
    moreover have "sd_unixIno (sw_st w') = ino" using 2(4,5) sw_park_st by (simp add: with_st_def)
    ultimately show ?thesis using 2(1) fin run by auto
  qed
qed

theorem take_never_missing_witness:
  "case take_unix (\<lambda>_. ''00'') \<lparr>ta_listen = Inr 7, ta_chmod = None, ta_seen = True, ta_link = True, ta_rename = None\<rparr> [] ''/m/api.sock'' True
      (new_sw 2 [''/m/api.sock'' \<mapsto> 3]) of (r, w') \<Rightarrow>
    sw_names w' ''/m/api.sock'' = Some (if r = None then sd_unixIno (sw_st w') else 3)"
proof -
  have "plain_hash (\<lambda>_. ''00'')" by (simp add: plain_hash_def)
  moreover have "\<not> own_name ''/m/api.sock''" by (simp add: own_name_def base_of_def has_prefix_def)
  moreover have "aside_ok (\<lambda>_. ''00'') (new_sw 2 [''/m/api.sock'' \<mapsto> 3])" by (simp add: aside_ok_def new_sw_def new_standin_def)
  ultimately show ?thesis
    using take_never_missing [of "\<lambda>_. ''00''" "''/m/api.sock''" "new_sw 2 [''/m/api.sock'' \<mapsto> 3]" 3
        "\<lparr>ta_listen = Inr 7, ta_chmod = None, ta_seen = True, ta_link = True, ta_rename = None\<rparr>" "[]" True]
    by (auto simp: new_sw_def split: prod.splits)
qed

section \<open>Foreign sockets\<close>

text \<open>The inodes of the sockets the stand-in has bound, and what it believes to hold.\<close>

definition bound :: "sw \<Rightarrow> nat \<Rightarrow> bool" where
  "bound w i \<longleftrightarrow> (\<exists>q. FsBind q i \<in> set (sw_log w))"

definition path_ok :: "(string \<Rightarrow> string) \<Rightarrow> sw \<Rightarrow> bool" where
  "path_ok H w \<longleftrightarrow> aside_ok H w \<and> (if sd_unixPath (sw_st w) = [] then True else bound w (sd_unixIno (sw_st w)))"

lemma path_ok_cong:
  "sd_unixAside (sw_st w') \<in> {sd_unixAside (sw_st w), []} \<Longrightarrow> sd_unixPath (sw_st w') \<in> {sd_unixPath (sw_st w), []} \<Longrightarrow>
   (sd_unixPath (sw_st w') \<noteq> [] \<Longrightarrow> sd_unixIno (sw_st w') = sd_unixIno (sw_st w)) \<Longrightarrow> set (sw_log w) \<subseteq> set (sw_log w') \<Longrightarrow>
   path_ok H w \<Longrightarrow> path_ok H w'"
  by (auto simp: path_ok_def aside_ok_def bound_def split: if_splits)

lemma path_ok_park [simp]: "path_ok H (park_all cs w) \<longleftrightarrow> path_ok H w"
  by (simp add: path_ok_def aside_ok_def bound_def sw_park_st)

lemma path_ok_settle [simp]:
  "path_ok H (w\<lparr>sw_fates := fs\<rparr>) \<longleftrightarrow> path_ok H w" "path_ok H (with_st (sd_held_update g) w) \<longleftrightarrow> path_ok H w"
  by (simp_all add: path_ok_def aside_ok_def bound_def with_st_def)

lemma path_ok_do: "path_ok H w \<Longrightarrow> path_ok H (fs_do c w)"
  by (rule path_ok_cong [of _ w]) (auto simp: fs_do_def)

lemma path_ok_st:
  "(\<And>s. sd_unixAside (f s) \<in> {sd_unixAside s, []} \<and> sd_unixPath (f s) \<in> {sd_unixPath s, []} \<and> (sd_unixPath (f s) = [] \<or> sd_unixIno (f s) = sd_unixIno s)) \<Longrightarrow>
   path_ok H w \<Longrightarrow> path_ok H (with_st f w)"
  by (rule path_ok_cong [of _ w]) (auto simp: with_st_def)

lemma path_ok_drop: "path_ok H w \<Longrightarrow> path_ok H (drop_previous w)"
  unfolding drop_previous_def Let_def by (auto intro!: path_ok_do path_ok_st)

lemma path_ok_over:
  assumes "path_ok H w" "bound w ino"
  shows "path_ok H (snd (take_over H a late p keep ino w))"
proof -
  have new: "path_ok H (with_st (\<lambda>s. s\<lparr>sd_unix := True, sd_unixPath := p, sd_unixIno := ino, sd_unixAside := aside_path H p\<rparr>) u)"
    "path_ok H (with_st (\<lambda>s. s\<lparr>sd_unix := True, sd_unixPath := p, sd_unixIno := ino, sd_unixAside := []\<rparr>) u)"
    if "bound u ino" for u
    using that by (auto simp: path_ok_def aside_ok_def bound_def with_st_def)
  have b: "bound u ino \<Longrightarrow> bound (fs_do c u) ino" for u c by (auto simp: bound_def fs_do_def)
  have d: "bound (drop_previous w) ino" using assms(2) by (auto simp: drop_previous_def Let_def bound_def fs_do_def)
  have p: "path_ok H (drop_previous w)" by (rule path_ok_drop [OF assms(1)])
  show ?thesis
    by (cases "ta_rename a") (auto simp: take_over_def Let_def intro!: new b d p path_ok_do)
qed

lemma path_ok_take: "path_ok H w \<Longrightarrow> path_ok H (snd (take_unix H a late p keep w))"
proof -
  assume w: "path_ok H w"
  have "bound (fs_do (FsBind q i) u) i" for q i u by (auto simp: bound_def fs_do_def)
  then show ?thesis using w
    by (auto simp: take_unix_def Let_def intro!: path_ok_do path_ok_over split: sum.splits option.splits)
qed

lemma path_ok_step: "path_ok H w \<Longrightarrow> path_ok H (sd_step H w e)"
proof (cases e)
  case (EvTakeUnix a late p keep)
  then show "path_ok H w \<Longrightarrow> ?thesis" by (simp add: path_ok_take)
next
  case (EvRestore answers renamed)
  then show "path_ok H w \<Longrightarrow> ?thesis"
    by (auto simp: restore_previous_def Let_def intro!: path_ok_do path_ok_st)
next
  case EvDrop
  then show "path_ok H w \<Longrightarrow> ?thesis" by (simp add: path_ok_drop)
next
  case (EvCloseUnix r late unlink)
  then show "path_ok H w \<Longrightarrow> ?thesis"
    by (auto simp: close_unix_def Let_def intro!: path_ok_do path_ok_st path_ok_drop split: option.splits)
next
  case (EvHandOver d late)
  have "path_ok H w \<Longrightarrow> path_ok H (with_st (\<lambda>s. s\<lparr>sd_unix := False, sd_unixPath := [], sd_unixIno := 0, sd_tcp := False, sd_tcpAddr := [], sd_releasedTo := 0\<rparr>) (drop_previous w))"
    by (intro path_ok_st path_ok_drop) auto
  then show "path_ok H w \<Longrightarrow> ?thesis"
    by (simp add: EvHandOver hand_over_def Let_def take_held_def)
qed (auto simp: park_def expire_def take_tcp_def close_tcp_def release_tcp_def relisten_if_owner_gone_def close_held_def take_held_def
    arm_def disarm_def abort_def check_and_freeze_def Let_def with_st_def sw_park_st elim!: path_ok_cong [rotated 4] split: option.splits prod.splits if_splits)

lemma take_over_elsewhere:
  assumes H: "plain_hash H" and p: "\<not> own_name p" and a: "aside_ok H w" and q: "q \<noteq> p"
  shows "sparing p w (snd (take_over H a late q keep ino w))"
proof -
  have np: "\<forall>x. p \<noteq> aside_path H x" "p \<noteq> beside_path H q" using own_aside [OF H] own_beside [OF H] p by (metis, metis)
  have s: "spares p (FsRemove (aside_path H q))" "spares p (FsRemove (beside_path H q))" "spares p (FsRename (beside_path H q) q)"
    "spares p (FsLink q (aside_path H q))"
    using np q by (metis spares.simps)+
  have d: "sparing p w (drop_previous w)" by (rule sparing_drop) (use a np(1) in \<open>auto simp: aside_ok_def\<close>)
  show ?thesis
    by (cases "ta_rename a") (auto simp: take_over_def Let_def intro!: sparing_do d s simp del: spares.simps)
qed

lemma take_unix_elsewhere:
  assumes H: "plain_hash H" and p: "\<not> own_name p" and a: "aside_ok H w" and q: "q \<noteq> p"
  shows "sparing p w (snd (take_unix H a late q keep w))"
proof -
  have np: "p \<noteq> beside_path H q" using own_beside [OF H] p by metis
  then have s: "spares p (FsRemove (beside_path H q))" "spares p (FsBind (beside_path H q) i)" for i by (metis spares.simps)+
  have o1: "sparing p w (snd (take_over H a late q keep i (fs_do (FsBind (beside_path H q) i) (fs_do (FsRemove (beside_path H q)) w))))" for i
    by (rule sparing_trans [OF sparing_do [OF sparing_do [OF sparing_refl s(1)] s(2)] take_over_elsewhere [OF H p _ q]])
      (use a in \<open>simp add: aside_ok_def\<close>)
  show ?thesis
    by (auto simp: take_unix_def Let_def intro!: sparing_do s o1 simp del: spares.simps split: sum.splits option.splits)
qed

definition touches :: "string \<Rightarrow> sev \<Rightarrow> bool" where
  "touches p e = (case e of EvTakeUnix _ _ q _ \<Rightarrow> q = p | EvOutside _ \<Rightarrow> True | _ \<Rightarrow> False)"

lemma foreign_step:
  assumes H: "plain_hash H" and p: "\<not> own_name p" "p \<noteq> []" and ok: "path_ok H w"
    and foreign: "sw_names w p = Some i" "\<not> bound w i" and e: "\<not> touches p e"
  shows "sw_names (sd_step H w e) p = Some i"
proof -
  have a: "aside_ok H w" using ok by (simp add: path_ok_def)
  have np: "\<forall>x. p \<noteq> aside_path H x" using own_aside [OF H] p by metis
  have drop: "sparing p w (drop_previous w)" by (rule sparing_drop) (use a np in \<open>auto simp: aside_ok_def\<close>)
  have ours: "sd_unixPath (sw_st w) \<noteq> p \<or> sw_names w p \<noteq> Some (sd_unixIno (sw_st w))"
    using ok foreign p(2) by (auto simp: path_ok_def)
  have "sparing p w (sd_step H w e) \<or> sw_names (sd_step H w e) = sw_names w"
  proof (cases e)
    case (EvTakeUnix x late q keep)
    then show ?thesis using take_unix_elsewhere [OF H p(1) a, of q] e by (simp add: touches_def)
  next
    case (EvRestore answers renamed)
    show ?thesis
    proof (cases "sd_unixAside (sw_st w) = []")
      case False
      then obtain q where q: "sd_unixAside (sw_st w) = aside_path H q" using a by (auto simp: aside_ok_def)
      have r: "spares p (FsRemove (aside_path H q))" using np by simp metis
      have n: "spares p (FsRename (aside_path H q) (sd_unixPath (sw_st w)))"
        if "sw_names w (sd_unixPath (sw_st w)) = Some (sd_unixIno (sw_st w))" using np ours that by auto
      have "sparing p w (snd (restore_previous answers renamed w))" using False r n q
        by (auto simp: restore_previous_def Let_def intro!: sparing_do simp del: spares.simps)
      then show ?thesis by (simp add: EvRestore)
    qed (simp add: EvRestore restore_previous_def)
  next
    case EvDrop
    then show ?thesis using drop by simp
  next
    case (EvCloseUnix r late unlink)
    have pn: "sw_names (drop_previous w) p = Some i" using sparing_names [OF drop] foreign by simp
    have st: "sd_unixPath (sw_st (drop_previous w)) = sd_unixPath (sw_st w)" "sd_unixIno (sw_st (drop_previous w)) = sd_unixIno (sw_st w)"
      by (simp_all add: drop_previous_def Let_def fs_do_def with_st_def)
    have "sparing p w (snd (close_unix r late unlink w))"
      using ours pn foreign st drop by (auto simp: close_unix_def Let_def intro!: sparing_do split: option.splits)
    then show ?thesis by (simp add: EvCloseUnix)
  next
    case (EvHandOver d late)
    have "sw_names (sd_step H w e) = sw_names (drop_previous w)" "sw_log (sd_step H w e) = sw_log (drop_previous w)"
      by (simp_all add: EvHandOver hand_over_def Let_def take_held_def with_st_def [of "sd_held_update (\<lambda>_. [])"])
    with drop show ?thesis by (simp add: sparing_def)
  qed (use e in \<open>auto simp: touches_def park_def expire_def take_tcp_def close_tcp_def release_tcp_def relisten_if_owner_gone_def
      close_held_def take_held_def Let_def split: option.splits prod.splits\<close>)
  then show ?thesis using sparing_names foreign(1) by metis
qed

lemma new_path_ok: "path_ok H (new_sw n d)"
  by (simp add: path_ok_def aside_ok_def new_sw_def new_standin_def)

interpretation po: step_system "sd_step H" "path_ok H" for H
  by standard (rule path_ok_step)

text \<open>Fact (safety): a socket that belongs to somebody else is never removed or replaced: whatever the stand-in did before, a path
  that names a socket it did not bind still names it after any operation but a take-over of that very path.\<close>

theorem foreign_socket_spared:
  assumes "plain_hash H" "\<not> own_name p" "p \<noteq> []" "w = run_steps (sd_step H) (new_sw n d) es"
    and "sw_names w p = Some i" "\<forall>q. FsBind q i \<notin> set (sw_log w)" "\<not> touches p e"
  shows "sw_names (sd_step H w e) p = Some i"
proof (rule foreign_step [OF assms(1-3) _ assms(5) _ assms(7)])
  show "path_ok H w" unfolding assms(4) by (rule po.run_inv [OF new_path_ok])
  show "\<not> bound w i" using assms(6) by (simp add: bound_def)
qed

theorem foreign_socket_spared_witness:
  "sw_names (sd_step (\<lambda>_. ''00'') (new_sw 2 [''/m/api.sock'' \<mapsto> 3]) (EvCloseUnix None [] True)) ''/m/api.sock'' = Some 3"
proof (rule foreign_socket_spared [where n = 2 and d = "[''/m/api.sock'' \<mapsto> 3]" and es = "[]"])
  show "\<not> own_name ''/m/api.sock''" by (simp add: own_name_def base_of_def has_prefix_def)
qed (simp_all add: plain_hash_def new_sw_def touches_def)

end
