(* ===== verification/Sleeper_Process.thy ===== *)
theory Sleeper_Process
  imports GoLib
begin

text \<open>
  The sleeper as a process and its waker (\<^verbatim>\<open>internal/sleeper/process.go\<close>): the command lines it and its \<^verbatim>\<open>_wake\<close> children are
  launched with and recognised by, the environment they get, starting and stopping it, the lock on its pid file, and the
  waker, which keeps one \<^verbatim>\<open>_wake\<close> child and backs off after one that did not wake the machine. Processes, signals, the
  clock and the file system are answers passed in, one per question the code asks. Times are integers (nanoseconds), 0 is
  the zero time, 0 no pid.
\<close>

section \<open>Command lines\<close>

record sproc =
  sp_dir :: string
  sp_name :: string
  sp_root :: string
  sp_keepEnv :: "string list"

definition sleeper_command :: string where "sleeper_command = ''_sleeper''"
definition wake_command :: string where "wake_command = ''_wake''"

definition sleeper_args :: "sproc \<Rightarrow> string list" where
  "sleeper_args p = [''--state-root'', sp_root p, sleeper_command, sp_name p]"

definition wake_args :: "sproc \<Rightarrow> string list" where
  "wake_args p = [''--state-root'', sp_root p, wake_command, sp_name p]"

definition sleeper_is_ours :: "string \<Rightarrow> sproc \<Rightarrow> bool" where
  "sleeper_is_ours argv0 p =
     (let argv = '' '' @ argv0 @ '' '' in
      contains argv ('' --state-root '' @ sp_root p @ '' '') \<and>
      contains argv ('' '' @ sleeper_command @ '' '' @ sp_name p @ '' ''))"

definition child_env :: "string list \<Rightarrow> string list \<Rightarrow> string list" where
  "child_env environ keep =
     filter (\<lambda>kv. \<not> (has_prefix kv ''JM_'' \<and> fst (cut CHR ''='' kv) \<notin> set keep)) environ"

definition sleeper_read_pid :: "string + string \<Rightarrow> string + int" where
  "sleeper_read_pid f =
     (case f of
        Inl err \<Rightarrow> Inl err
      | Inr data \<Rightarrow> (case atoi (trim_space data) of
                      None \<Rightarrow> Inl (''sleeper: bad pid file: '' @ quote (trim_space data))
                    | Some pid \<Rightarrow> (if pid \<le> 0 then Inl (''sleeper: bad pid file: '' @ quote (trim_space data))
                                  else Inr pid)))"

definition sleeper_alive :: "string + string \<Rightarrow> (int \<Rightarrow> string) \<Rightarrow> sproc \<Rightarrow> int \<times> bool" where
  "sleeper_alive pidfile command_line p =
     (case sleeper_read_pid pidfile of Inl _ \<Rightarrow> (0, False) | Inr pid \<Rightarrow> (pid, sleeper_is_ours (command_line pid) p))"

section \<open>Starting and stopping\<close>

text \<open>One turn of the wait for the control socket: whether it answers, whether the child lives, whether the socket answers
  after all, and whether the context is done.\<close>

record turn =
  tu_answers :: bool
  tu_alive :: bool
  tu_again :: bool
  tu_done :: bool

datatype start_end = Started | ExitedEarly | TimedOut | Cancelled | SpawnFailed string

text \<open>\<open>n\<close>: the turns the deadline leaves.\<close>

fun start_wait :: "nat \<Rightarrow> (nat \<Rightarrow> turn) \<Rightarrow> nat \<Rightarrow> start_end" where
  "start_wait n T i =
     (if tu_answers (T i) then Started
      else if \<not> tu_alive (T i) then (if tu_again (T i) then Started else ExitedEarly)
      else (case n of
              0 \<Rightarrow> TimedOut
            | Suc k \<Rightarrow> (if tu_done (T i) then Cancelled else start_wait k T (i + 1))))"

declare start_wait.simps [simp del]

definition start_turns :: nat where
  "start_turns = nat (5000 div 50)"

definition sleeper_start :: "bool \<Rightarrow> bool \<Rightarrow> string + int \<Rightarrow> (nat \<Rightarrow> turn) \<Rightarrow> start_end" where
  "sleeper_start alive answers spawned T =
     (if alive \<and> answers then Started
      else case spawned of Inl t \<Rightarrow> SpawnFailed t | Inr pid \<Rightarrow> start_wait start_turns T 0)"

text \<open>What the stop of a live sleeper meets: the answer to SIGTERM, whether it exits in time, and after SIGKILL.\<close>

datatype term_ans = TermSent | TermSelf | TermFailed string bool

record stop_ans =
  so_term :: term_ans
  so_exits :: bool
  so_killed :: bool
  so_pidfile :: "string option"
  so_answers :: bool
  so_socket :: "string option"

datatype signal = SigTerm int | SigKill int

definition stop_tidy :: "stop_ans \<Rightarrow> string option" where
  "stop_tidy a =
     (case so_pidfile a of
        Some t \<Rightarrow> Some t
      | None \<Rightarrow> (if \<not> so_answers a then so_socket a else None))"

text \<open>The signals sent and the error. \<open>TermFailed t lives\<close>: SIGTERM could not be sent, and whether the process is still there.\<close>

definition sleeper_stop :: "int option \<Rightarrow> stop_ans \<Rightarrow> signal list \<times> string option" where
  "sleeper_stop live a =
     (case live of
        None \<Rightarrow> ([], stop_tidy a)
      | Some pid \<Rightarrow>
         (case so_term a of
            TermSelf \<Rightarrow> ([], Some (''sleeper: the pid file names this process (pid '' @ itoa pid @ ''); refusing to signal it''))
          | TermFailed t True \<Rightarrow> ([], Some (''sleeper: SIGTERM pid '' @ itoa pid @ '': '' @ t))
          | _ \<Rightarrow>
             (if so_exits a then ([SigTerm pid], stop_tidy a)
              else if so_killed a then ([SigTerm pid, SigKill pid], stop_tidy a)
              else ([SigTerm pid, SigKill pid], Some (''sleeper: pid '' @ itoa pid @ '' did not exit after SIGKILL'')))))"

section \<open>The waker\<close>

record waker =
  wk_pid :: int
  wk_until :: int
  wk_backoff :: int

definition wk_live :: "(int \<Rightarrow> bool) \<Rightarrow> waker \<Rightarrow> bool" where
  "wk_live alive w \<longleftrightarrow> wk_pid w \<noteq> 0 \<and> alive (wk_pid w)"

text \<open>\<open>now1\<close> is read before the spawn, \<open>now2\<close> after one that failed.\<close>

definition wk_ensure :: "(int \<Rightarrow> bool) \<Rightarrow> int \<Rightarrow> string + int \<Rightarrow> int \<Rightarrow> waker \<Rightarrow> (string + bool) \<times> waker" where
  "wk_ensure alive now1 spawn now2 w =
     (if wk_live alive w then (Inr False, w)
      else if now1 < wk_until w then (Inr False, w)
      else case spawn of
          Inl t \<Rightarrow> (Inl t, w\<lparr>wk_until := now2 + wk_backoff w\<rparr>)
        | Inr pid \<Rightarrow> (Inr True, w\<lparr>wk_pid := pid\<rparr>))"

definition wk_running :: "(int \<Rightarrow> bool) \<Rightarrow> waker \<Rightarrow> int" where
  "wk_running alive w = (if wk_live alive w then wk_pid w else 0)"

definition wk_reap :: "(int \<Rightarrow> bool) \<Rightarrow> waker \<Rightarrow> bool \<times> waker" where
  "wk_reap alive w = (if wk_pid w = 0 \<or> alive (wk_pid w) then (False, w) else (True, w\<lparr>wk_pid := 0\<rparr>))"

definition wk_forget :: "waker \<Rightarrow> waker" where
  "wk_forget w = w\<lparr>wk_pid := 0\<rparr>"

definition wk_start_backoff :: "int \<Rightarrow> waker \<Rightarrow> waker" where
  "wk_start_backoff now w = w\<lparr>wk_until := now + wk_backoff w\<rparr>"

definition wk_backing_off :: "int \<Rightarrow> waker \<Rightarrow> bool" where
  "wk_backing_off now w \<longleftrightarrow> now < wk_until w"

text \<open>The waker's life: the calls made on it, each with what it saw.\<close>

datatype wk_op = Ensure "int \<Rightarrow> bool" int "string + int" int | Reap "int \<Rightarrow> bool" | Forget | StartBackoff int

fun wk_call :: "waker \<Rightarrow> wk_op \<Rightarrow> waker" where
  "wk_call w (Ensure alive n1 s n2) = snd (wk_ensure alive n1 s n2 w)"
| "wk_call w (Reap alive) = snd (wk_reap alive w)"
| "wk_call w Forget = wk_forget w"
| "wk_call w (StartBackoff n) = wk_start_backoff n w"

text \<open>The children launched by a run of calls.\<close>

fun spawned :: "waker \<Rightarrow> wk_op list \<Rightarrow> int list" where
  "spawned w [] = []"
| "spawned w (c # cs) =
     (case c of
        Ensure alive n1 s n2 \<Rightarrow> (if fst (wk_ensure alive n1 s n2 w) = Inr True then [wk_pid (wk_call w c)] else [])
      | _ \<Rightarrow> []) @ spawned (wk_call w c) cs"

lemma wk_ensure_spawns: "fst (wk_ensure alive n1 s n2 w) = Inr True \<longleftrightarrow> \<not> wk_live alive w \<and> wk_until w \<le> n1 \<and> (\<exists>p. s = Inr p)"
  by (auto simp: wk_ensure_def split: sum.splits)

text \<open>Without a \<^verbatim>\<open>Forget\<close>, the last child launched is the one on record, until it has been found dead.\<close>

definition no_forget :: "wk_op list \<Rightarrow> bool" where
  "no_forget cs \<longleftrightarrow> Forget \<notin> set cs"

lemma run_wk_snoc: "run_steps wk_call w (cs @ [c]) = wk_call (run_steps wk_call w cs) c"
  by (simp add: run_steps_append)

lemma spawned_append: "spawned w (cs @ ds) = spawned w cs @ spawned (run_steps wk_call w cs) ds"
  by (induction cs arbitrary: w) auto

definition found_dead :: "wk_op list \<Rightarrow> int \<Rightarrow> bool" where
  "found_dead cs p \<longleftrightarrow> (\<exists>c \<in> set cs. case c of Ensure alive _ _ _ \<Rightarrow> \<not> alive p | Reap alive \<Rightarrow> \<not> alive p | _ \<Rightarrow> False)"

lemma found_dead_append [simp]: "found_dead (cs @ ds) p \<longleftrightarrow> found_dead cs p \<or> found_dead ds p"
  by (auto simp: found_dead_def)

lemma wk_on_record:
  assumes "no_forget cs" "\<forall>c \<in> set cs. case c of Ensure _ _ (Inr p) _ \<Rightarrow> p \<noteq> 0 | _ \<Rightarrow> True"
    "spawned w cs \<noteq> []"
  shows "wk_pid (run_steps wk_call w cs) = last (spawned w cs) \<or> found_dead cs (last (spawned w cs))"
  using assms
proof (induction cs rule: rev_induct)
  case (snoc c cs)
  let ?u = "run_steps wk_call w cs"
  show ?case
  proof (cases "spawned ?u [c] = []")
    case True
    then have ne: "spawned w cs \<noteq> []" "last (spawned w (cs @ [c])) = last (spawned w cs)" using snoc.prems(3) by (auto simp: spawned_append)
    have IH: "wk_pid ?u = last (spawned w cs) \<or> found_dead cs (last (spawned w cs))"
      using snoc.IH ne snoc.prems(1,2) by (auto simp: no_forget_def)
    have "wk_pid (wk_call ?u c) = wk_pid ?u \<or> found_dead [c] (wk_pid ?u)"
      using True snoc.prems(1)
      by (cases c) (auto simp: no_forget_def found_dead_def wk_ensure_def wk_live_def wk_reap_def wk_start_backoff_def split: sum.splits if_splits)
    then have "wk_pid ?u = p \<Longrightarrow> wk_pid (wk_call ?u c) = p \<or> found_dead [c] p" for p by auto
    then show ?thesis unfolding run_wk_snoc ne(2) found_dead_append using IH by auto
  next
    case False
    then show ?thesis by (cases c) (auto simp: spawned_append run_wk_snoc split: if_splits)
  qed
qed simp

text \<open>C19 (safety): the sleeper never has two wakes of its own in flight: in any life of the waker in which no suspend made it
  forget its child, it launches a child only when the one it launched before has been found dead, and not before its
  backoff has lapsed.\<close>

theorem one_waker_at_a_time:
  assumes "Forget \<notin> set cs" "list_all (\<lambda>c. case c of Ensure _ _ (Inr p) _ \<Rightarrow> p \<noteq> 0 | _ \<Rightarrow> True) cs"
    and "spawned w cs = ps @ [p]" "fst (wk_ensure alive n1 s n2 (run_steps wk_call w cs)) = Inr True"
  shows "(\<not> alive p \<or> found_dead cs p) \<and> \<not> wk_backing_off n1 (run_steps wk_call w cs)"
proof -
  have "wk_pid (run_steps wk_call w cs) = last (spawned w cs) \<or> found_dead cs (last (spawned w cs))"
    by (rule wk_on_record) (use assms in \<open>auto simp: no_forget_def list_all_iff\<close>)
  moreover have "p \<noteq> 0" if "wk_pid (run_steps wk_call w cs) = p"
  proof -
    have "\<forall>q \<in> set (spawned w cs). q \<noteq> 0" using assms(2)
    proof (induction cs arbitrary: w)
      case (Cons c cs)
      then show ?case by (cases c) (auto simp: wk_ensure_def split: sum.splits if_splits)
    qed simp
    then show ?thesis using assms(3) by simp
  qed
  ultimately show ?thesis using assms(3,4) unfolding wk_ensure_spawns wk_live_def wk_backing_off_def by auto
qed

theorem one_waker_at_a_time_witness:
  "\<not> wk_backing_off 20 (run_steps wk_call \<lparr>wk_pid = 0, wk_until = 0, wk_backoff = 10\<rparr> [Ensure (\<lambda>_. True) 5 (Inr 7) 5])"
  using one_waker_at_a_time [of "[Ensure (\<lambda>_. True) 5 (Inr 7) 5]" "\<lparr>wk_pid = 0, wk_until = 0, wk_backoff = 10\<rparr>" "[]" 7 "\<lambda>_. False" 20 "Inr 8" 20]
  by (simp add: wk_ensure_def wk_live_def)

section \<open>Laws\<close>

lemma start_wait_local: "\<forall>j \<le> n. T (i + j) = T' (i + j) \<Longrightarrow> start_wait n T i = start_wait n T' i"
proof (induction n arbitrary: i)
  case 0
  then show ?case by (simp add: start_wait.simps)
next
  case (Suc n)
  have "T i = T' i" using Suc.prems [rule_format, of 0] by simp
  moreover have "\<forall>j \<le> n. T ((i + 1) + j) = T' ((i + 1) + j)"
    using Suc.prems by (metis Suc_le_mono add_Suc_right add_Suc_shift Suc_eq_plus1)
  ultimately show ?case using Suc.IH [of "i + 1"] by (simp add: start_wait.simps [of "Suc n"])
qed


text \<open>Fact (functional): the command lines of a machine's sleeper and of its wakes are told apart: the sleeper's is recognised
  as this machine's sleeper.\<close>

theorem sleeper_recognised:
  "sleeper_is_ours (join '' '' (exe # sleeper_args p)) p"
proof -
  have "'' '' @ join '' '' (exe # sleeper_args p) @ '' '' =
      ('' '' @ exe) @ ('' --state-root '' @ sp_root p @ '' '') @ (sleeper_command @ '' '' @ sp_name p @ '' '')"
    by (simp add: sleeper_args_def)
  then have a: "contains ('' '' @ join '' '' (exe # sleeper_args p) @ '' '') ('' --state-root '' @ sp_root p @ '' '')"
    unfolding contains_iff by metis
  have "'' '' @ join '' '' (exe # sleeper_args p) @ '' '' =
      ('' '' @ exe @ '' --state-root '' @ sp_root p) @ ('' '' @ sleeper_command @ '' '' @ sp_name p @ '' '') @ []"
    by (simp add: sleeper_args_def)
  then have "contains ('' '' @ join '' '' (exe # sleeper_args p) @ '' '') ('' '' @ sleeper_command @ '' '' @ sp_name p @ '' '')"
    unfolding contains_iff by blast
  with a show ?thesis by (simp add: sleeper_is_ours_def)
qed

lemma child_env_spec:
  "kv \<in> set (child_env environ keep) \<longleftrightarrow>
     kv \<in> set environ \<and> (has_prefix kv ''JM_'' \<longrightarrow> fst (cut CHR ''='' kv) \<in> set keep)"
  by (auto simp: child_env_def)

text \<open>The signals of a stop: SIGKILL only after SIGTERM, to the live sleeper only.\<close>

lemma stop_signals:
  "fst (sleeper_stop live a) \<in> {[], (case live of None \<Rightarrow> [] | Some p \<Rightarrow> [SigTerm p]), (case live of None \<Rightarrow> [] | Some p \<Rightarrow> [SigTerm p, SigKill p])}"
  by (auto simp: sleeper_stop_def split: option.splits term_ans.splits bool.splits)

end
