(* ===== verification/Cli_Common.thy ===== *)
theory Cli_Common
  imports Qemu_State
begin

text \<open>
  What the commands share: the machine state merged from the hypervisor's and the provider's
  (\<^verbatim>\<open>internal/cli/common.go\<close>), the errors of the suspend commands as values (\<^verbatim>\<open>suspend.go\<close>, \<^verbatim>\<open>errfmt.go\<close>), and the
  texts a refusal travels in between the sleeper and the command that asked it
  (\<^verbatim>\<open>internal/sleeper/control.go\<close>, \<^verbatim>\<open>suspendReply\<close> and \<^verbatim>\<open>suspendReplyError\<close> in \<^verbatim>\<open>sleeper.go\<close>).
\<close>

section \<open>The machine's state\<close>

definition combine_state :: "bstate \<Rightarrow> bstate \<Rightarrow> bool \<Rightarrow> bstate" where
  "combine_state bs ps supervised =
     (if bs = Broken \<or> ps = Broken then Broken
      else if bs = Suspended then Suspended
      else if bs = Running \<and> ps = Running then Running
      else if bs = Stopped \<and> ps = Stopped then Stopped
      else if bs = Stopped \<and> \<not> supervised then Stopped
      else Broken)"

text \<open>\<open>None\<close> when either part cannot be read.\<close>

definition state_of :: "bstate option \<Rightarrow> bstate option \<Rightarrow> bool \<Rightarrow> bstate option" where
  "state_of bs ps supervised =
     (case bs of None \<Rightarrow> None | Some b \<Rightarrow> (case ps of None \<Rightarrow> None | Some p \<Rightarrow> Some (combine_state b p supervised)))"

definition ready_now :: "bstate \<Rightarrow> bool \<Rightarrow> bool" where
  "ready_now st journal \<longleftrightarrow> st = Running \<and> \<not> journal"

section \<open>Errors\<close>

text \<open>What \<^verbatim>\<open>errors.Is\<close> finds in an error's chain, its text, the hint attached to it and the share a refusal names.\<close>

datatype ekind = KUnavailable | KBlocked | KAborted | KCrashed | KLocked | KRunning | KStopping | KTransient | KIncompatible | KOther

record cerr =
  ce_kind :: ekind
  ce_msg :: string
  ce_hint :: string
  ce_share :: string

definition plain_err :: "string \<Rightarrow> cerr" where
  "plain_err t = \<lparr>ce_kind = KOther, ce_msg = t, ce_hint = [], ce_share = []\<rparr>"

definition refuse :: "ekind \<Rightarrow> string \<Rightarrow> cerr" where
  "refuse k t = \<lparr>ce_kind = k, ce_msg = t, ce_hint = [], ce_share = []\<rparr>"

definition with_hint :: "cerr \<Rightarrow> string \<Rightarrow> cerr" where
  "with_hint e h = e\<lparr>ce_hint := h\<rparr>"

definition detail :: "cerr \<Rightarrow> string list \<Rightarrow> string" where
  "detail e sentinels = foldl (\<lambda>m s. trim_prefix m (s @ '': '')) (ce_msg e) sentinels"

definition name_hint :: "string \<Rightarrow> string" where
  "name_hint name = (if name = ''jailmachine'' then [] else '' '' @ name)"

section \<open>Control lines\<close>

definition ctl_fields :: "string \<Rightarrow> string list" where
  "ctl_fields line = (let f = GoLib.fields line in if f = [] then [[]] else f)"

definition split_reply :: "string \<Rightarrow> string \<times> string" where
  "split_reply reply = (case cut CHR '' '' (trim_space reply) of (w, r) \<Rightarrow> (w, case r of None \<Rightarrow> [] | Some x \<Rightarrow> x))"

definition one_line :: "string \<Rightarrow> string" where
  "one_line s = map (\<lambda>c. if c = CHR 0x0D \<or> c = CHR 0x0A then CHR '' '' else c) s"

definition no_tabs :: "string \<Rightarrow> string" where
  "no_tabs s = map (\<lambda>c. if c = CHR 0x09 then CHR '' '' else c) s"

definition reply_word :: "ekind \<Rightarrow> string" where
  "reply_word k = (if k = KBlocked \<or> k = KAborted then ''busy'' else if k = KUnavailable then ''unavailable'' else ''err'')"

definition suspend_reply :: "cerr \<Rightarrow> string" where
  "suspend_reply e =
     (let msg = no_tabs (ce_msg e);
          msg1 = (if ce_hint e \<noteq> [] then msg @ [CHR 0x09] @ no_tabs (ce_hint e) else msg)
      in reply_word (ce_kind e) @ '' '' @ msg1)"

definition reply_err :: "string \<Rightarrow> string \<Rightarrow> cerr option" where
  "reply_err word msg =
     (if word = ''busy'' then Some (refuse KBlocked msg)
      else if word = ''unavailable'' then Some (refuse KUnavailable msg)
      else if word = ''err'' then Some (plain_err msg)
      else None)"

definition suspend_reply_error :: "string \<Rightarrow> string \<Rightarrow> cerr" where
  "suspend_reply_error name reply =
     (let (word, rest) = split_reply reply; (msg, h) = cut CHR 0x09 rest; hint = (case h of None \<Rightarrow> [] | Some x \<Rightarrow> x)
      in case reply_err word msg of
           None \<Rightarrow> plain_err (''unexpected reply from the sleeper of '' @ name @ '': '' @ quote reply)
         | Some e \<Rightarrow> (if hint \<noteq> [] then with_hint e hint else e))"

text \<open>\<^verbatim>\<open>readLine\<close> cuts the line ending off what arrived.\<close>

definition read_reply :: "string \<Rightarrow> string" where
  "read_reply s = rev (dropWhile (\<lambda>c. c = CHR 0x0D \<or> c = CHR 0x0A) (rev s))"

section \<open>Laws\<close>

lemma combine_running: "combine_state bs ps v = Running \<longleftrightarrow> bs = Running \<and> ps = Running"
  by (cases bs; cases ps; simp add: combine_state_def)

lemma combine_suspended: "combine_state bs ps v = Suspended \<longleftrightarrow> bs = Suspended \<and> ps \<noteq> Broken"
  by (cases bs; cases ps; simp add: combine_state_def)

lemma trim_word:
  assumes "w \<noteq> []" "\<not> is_space (hd w)" "\<not> is_space (last w)"
  shows "\<exists>r'. trim_space (w @ CHR '' '' # r) = w @ r' \<and> (r' = [] \<or> hd r' = CHR '' '')"
proof -
  have "dropWhile is_space (w @ CHR '' '' # r) = w @ CHR '' '' # r" using assms by (cases w) auto
  moreover have "\<exists>r'. rev (dropWhile is_space (rev r @ CHR '' '' # rev w)) = w @ r' \<and> (r' = [] \<or> hd r' = CHR '' '')"
  proof (cases "\<forall>c \<in> set r. is_space c")
    case True
    have "dropWhile is_space (rev r @ CHR '' '' # rev w) = dropWhile is_space (CHR '' '' # rev w)"
      using True by (subst dropWhile_append2) auto
    also have "\<dots> = rev w" using assms by (cases w rule: rev_cases) (auto simp: is_space_def)
    finally show ?thesis by simp
  next
    case False
    then obtain c where "c \<in> set (rev r)" "\<not> is_space c" by auto
    from dropWhile_append1 [of c "rev r" is_space "CHR '' '' # rev w", OF this]
    have "rev (dropWhile is_space (rev r @ CHR '' '' # rev w)) = w @ CHR '' '' # rev (dropWhile is_space (rev r))" by simp
    then show ?thesis by auto
  qed
  ultimately show ?thesis by (simp add: trim_space_def)
qed

definition reply_class :: "ekind \<Rightarrow> ekind" where
  "reply_class k = (if k = KBlocked \<or> k = KAborted then KBlocked else if k = KUnavailable then KUnavailable else KOther)"

lemma reply_word_free:
  "CHR '' '' \<notin> set (reply_word k)" "reply_word k \<noteq> []" "\<not> is_space (hd (reply_word k))" "\<not> is_space (last (reply_word k))"
  "one_line (reply_word k) = reply_word k" "CHR 0x0A \<notin> set (reply_word k)" "CHR 0x0D \<notin> set (reply_word k)"
  by (simp_all add: reply_word_def is_space_def one_line_def)

lemma reply_err_word: "\<exists>e. reply_err (reply_word k) m = Some e \<and> ce_kind e = reply_class k \<and> ce_msg e = m \<and> ce_hint e = [] \<and> ce_share e = []"
  by (simp add: reply_err_def reply_word_def reply_class_def refuse_def plain_err_def)

lemma split_word: "CHR '' '' \<notin> set w \<Longrightarrow> r = [] \<or> hd r = CHR '' '' \<Longrightarrow> trim_space s = w @ r \<Longrightarrow> split_reply s = (w, tl r)"
  by (cases r) (auto simp: split_reply_def cut_none cut_join)

lemma reply_kind_kept: "ce_kind (suspend_reply_error n (one_line (suspend_reply e))) = reply_class (ce_kind e)"
proof -
  let ?w = "reply_word (ce_kind e)"
  obtain m where m: "one_line (suspend_reply e) = ?w @ CHR '' '' # m"
    using reply_word_free(5) [of "ce_kind e"] by (auto simp: suspend_reply_def Let_def one_line_def)
  obtain r where r: "trim_space (?w @ CHR '' '' # m) = ?w @ r" "r = [] \<or> hd r = CHR '' ''"
    using trim_word [OF reply_word_free(2-4)] by blast
  have k: "ce_kind (case reply_err ?w x of None \<Rightarrow> f | Some e \<Rightarrow> if h \<noteq> [] then with_hint e h else e) = reply_class (ce_kind e)" for x h f
  proof -
    obtain e' where "reply_err ?w x = Some e'" "ce_kind e' = reply_class (ce_kind e)" using reply_err_word by blast
    then show ?thesis by (simp add: with_hint_def)
  qed
  have sp: "split_reply (?w @ CHR '' '' # m) = (?w, tl r)" by (rule split_word [OF reply_word_free(1) r(2,1)])
  show ?thesis unfolding suspend_reply_error_def m sp Let_def by (simp only: split_beta fst_conv snd_conv k)
qed

text \<open>Texts that fit a control line: something, no tab or line ending in it, no white space at its end.\<close>

definition line_text :: "string \<Rightarrow> bool" where
  "line_text s \<longleftrightarrow> s \<noteq> [] \<and> set s \<inter> {CHR 0x09, CHR 0x0A, CHR 0x0D} = {} \<and> \<not> is_space (last s)"

lemma line_text_same: "line_text s \<Longrightarrow> no_tabs s = s" "line_text s \<Longrightarrow> one_line s = s"
  by (auto simp: line_text_def no_tabs_def one_line_def intro!: map_idI)



end
