(* ===== verification/Sleeper_Daemon.thy ===== *)
theory Sleeper_Daemon
  imports Sleeper_Standin Idle Sleeper_Process Cli_Common
begin

text \<open>
  The sleeper's daemon (\<^verbatim>\<open>internal/cli/sleeper.go\<close>): one evaluation of the mode table with everything it does to the
  stand-in and the waker, the control requests, the start and end of a suspend, and the mode loop. The daemon's other
  goroutines (accept loops, park timers, control requests, a suspend) and other processes move the stand-in between any
  two of its steps: each step of an evaluation is preceded by a \<^emph>\<open>moment\<close>, a list of such moves and what is alive then.
  What the operating system, the backend and the provider answer is part of the pass.
\<close>

section \<open>State\<close>

record dstatus =
  ds_mode :: smode
  ds_held :: nat
  ds_suspended :: bool
  ds_suspendedAt :: int
  ds_lastSuspendError :: string
  ds_lastSuspendMS :: int
  ds_lastWakeBy :: string
  ds_lastResumeMS :: int
  ds_sshWake :: bool
  ds_idleSeconds :: int
  ds_idleAfter :: int
  ds_blockers :: "string list"
  ds_lastActivity :: int
  ds_idleUnavailable :: string
  ds_disabledReason :: string
  ds_penalty :: int

record idle_monitor =
  im_active :: bool
  im_tracker :: tracker
  im_lastProbe :: int
  im_lastSample :: int
  im_activity :: int
  im_activityKnown :: bool
  im_cpu :: int
  im_cpuAt :: int
  im_cpuKnown :: bool
  im_failures :: nat
  im_disabled :: string
  im_refusal :: string
  im_suspendedAt :: int

record daemon =
  dm_sw :: sw
  dm_waker :: waker
  dm_suspending :: bool
  dm_closing :: bool
  dm_status :: dstatus
  dm_trigger :: "kind option"
  dm_stoppedBefore :: bool
  dm_warnedUnix :: bool
  dm_warnedTcp :: bool
  dm_triggerAt :: int
  dm_wokeAt :: int
  dm_nudged :: bool
  dm_mon :: idle_monitor
  dm_client :: bool
  dm_clientFailures :: nat

definition wake_spawn_backoff :: int where "wake_spawn_backoff = 10 * second"

definition new_monitor :: idle_monitor where
  "new_monitor = \<lparr>im_active = False, im_tracker = new_tracker, im_lastProbe = 0, im_lastSample = 0, im_activity = 0,
     im_activityKnown = False, im_cpu = 0, im_cpuAt = 0, im_cpuKnown = False, im_failures = 0, im_disabled = [],
     im_refusal = [], im_suspendedAt = 0\<rparr>"

definition new_status :: dstatus where
  "new_status = \<lparr>ds_mode = ModeMonitor, ds_held = 0, ds_suspended = False, ds_suspendedAt = 0, ds_lastSuspendError = [],
     ds_lastSuspendMS = 0, ds_lastWakeBy = [], ds_lastResumeMS = 0, ds_sshWake = True, ds_idleSeconds = 0, ds_idleAfter = 0,
     ds_blockers = [], ds_lastActivity = 0, ds_idleUnavailable = [], ds_disabledReason = [], ds_penalty = 0\<rparr>"

definition new_daemon :: "names \<Rightarrow> daemon" where
  "new_daemon d = \<lparr>dm_sw = new_sw 0 d, dm_waker = \<lparr>wk_pid = 0, wk_until = 0, wk_backoff = wake_spawn_backoff\<rparr>,
     dm_suspending = False, dm_closing = False, dm_status = new_status, dm_trigger = None, dm_stoppedBefore = False,
     dm_warnedUnix = False, dm_warnedTcp = False, dm_triggerAt = 0, dm_wokeAt = 0, dm_nudged = False, dm_mon = new_monitor,
     dm_client = False, dm_clientFailures = 0\<rparr>"

section \<open>Small steps\<close>

definition nudge :: "daemon \<Rightarrow> daemon" where
  "nudge d = d\<lparr>dm_nudged := True\<rparr>"

definition accepted :: "kind \<Rightarrow> int \<Rightarrow> daemon \<Rightarrow> daemon" where
  "accepted k now d =
     nudge (d\<lparr>dm_trigger := (case dm_trigger d of None \<Rightarrow> Some k | t \<Rightarrow> t),
              dm_triggerAt := (if dm_triggerAt d = 0 then now else dm_triggerAt d)\<rparr>)"

text \<open>\<^verbatim>\<open>update\<close> changes the status and takes the number of parked connections into it; writing the file is left out.\<close>

definition update_status :: "(dstatus \<Rightarrow> dstatus) \<Rightarrow> daemon \<Rightarrow> daemon" where
  "update_status f d = d\<lparr>dm_status := (f (dm_status d))\<lparr>ds_held := length (sd_held (sw_st (dm_sw d)))\<rparr>\<rparr>"

definition on_sw :: "(sw \<Rightarrow> sw) \<Rightarrow> daemon \<Rightarrow> daemon" where
  "on_sw f d = d\<lparr>dm_sw := f (dm_sw d)\<rparr>"

definition close_probe_client :: "daemon \<Rightarrow> daemon" where
  "close_probe_client d = (if dm_client d then d\<lparr>dm_client := False, dm_clientFailures := 0\<rparr> else d)"

definition wake_by_kind :: "kind \<Rightarrow> string" where
  "wake_by_kind k = (if k = KTcp then ''ssh-port'' else ''socket'')"

section \<open>A suspend in this sleeper\<close>

text \<open>The guard of \<^verbatim>\<open>runSuspend\<close>: \<open>Inl\<close> is why it does not start.\<close>

definition begin_suspend :: "daemon \<Rightarrow> cerr + daemon" where
  "begin_suspend d =
     (if dm_closing d then Inl (refuse KStopping ''the sleeper is stopping'')
      else if dm_suspending d then Inl (refuse KRunning ''a suspend is already running'')
      else Inr (close_probe_client
                  (d\<lparr>dm_suspending := True, dm_triggerAt := 0, dm_wokeAt := 0, dm_waker := wk_forget (dm_waker d)\<rparr>)))"

text \<open>What \<^verbatim>\<open>suspendPreflight\<close> and \<^verbatim>\<open>suspendMachine\<close> came to, from the load of the record on.\<close>

datatype suspend_end = NotLoaded cerr | NotPossible cerr | NotDone cerr | Done int int int

definition end_suspend :: "suspend_end \<Rightarrow> daemon \<Rightarrow> daemon" where
  "end_suspend r d =
     (let d1 = (case r of
                  NotLoaded _ \<Rightarrow> d
                | NotPossible _ \<Rightarrow> d
                | NotDone e \<Rightarrow> (if ce_kind e \<noteq> KLocked then update_status (\<lambda>s. s\<lparr>ds_lastSuspendError := ce_msg e\<rparr>) d else d)
                | Done ms alloc savedAt \<Rightarrow>
                    update_status (\<lambda>s. s\<lparr>ds_suspended := True, ds_suspendedAt := savedAt, ds_lastSuspendMS := ms,
                       ds_lastSuspendError := [], ds_lastWakeBy := [], ds_sshWake := sd_tcp (sw_st (dm_sw d))\<rparr>) d)
      in nudge (d1\<lparr>dm_suspending := False\<rparr>))"

definition suspend_result :: "suspend_end \<Rightarrow> cerr + int \<times> int" where
  "suspend_result r = (case r of NotLoaded e \<Rightarrow> Inl e | NotPossible e \<Rightarrow> Inl e | NotDone e \<Rightarrow> Inl e | Done ms alloc _ \<Rightarrow> Inr (ms, alloc))"

text \<open>\<^verbatim>\<open>suspend\<close>'s reply.\<close>

definition suspend_answer :: "string \<Rightarrow> cerr + int \<times> int \<Rightarrow> string" where
  "suspend_answer name r =
     (case r of
        Inl e \<Rightarrow>
          (if ce_kind e = KStopping then ''err the sleeper of '' @ name @ '' is stopping''
           else if ce_kind e = KRunning then ''busy a suspend of '' @ name @ '' is already running''
           else suspend_reply e)
      | Inr (ms, alloc) \<Rightarrow> ''ok '' @ itoa ms @ '' '' @ itoa alloc)"

definition close_suspends :: "daemon \<Rightarrow> daemon" where
  "close_suspends d = d\<lparr>dm_closing := True\<rparr>"

section \<open>Control requests\<close>

text \<open>\<^verbatim>\<open>strconv.ParseInt\<close> with its error ignored: 0 for what is not a number, the nearest bound for one out of range.\<close>

definition parse_int_lax :: "string \<Rightarrow> int" where
  "parse_int_lax s =
     (case atoi s of
        Some v \<Rightarrow> v
      | None \<Rightarrow>
         (let neg = (s \<noteq> [] \<and> hd s = CHR ''-'');
              ds = (if s \<noteq> [] \<and> (hd s = CHR ''-'' \<or> hd s = CHR ''+'') then tl s else s)
          in if ds = [] \<or> \<not> list_all is_digit ds then 0 else if neg then min_int64 else max_int64))"

definition handle_woke :: "string list \<Rightarrow> int \<Rightarrow> daemon \<Rightarrow> daemon" where
  "handle_woke f now d =
     (let by0 = (if length f > 1 \<and> f ! 1 \<noteq> ''-'' then f ! 1 else []);
          ms = (if length f > 2 then parse_int_lax (f ! 2) else 0);
          by1 = (if by0 = [] then (case dm_trigger d of None \<Rightarrow> [] | Some k \<Rightarrow> wake_by_kind k) else by0);
          d1 = d\<lparr>dm_wokeAt := (if dm_wokeAt d = 0 then now - wrap64 (ms * 1000000) else dm_wokeAt d)\<rparr>
      in nudge (update_status (\<lambda>s. s\<lparr>ds_lastWakeBy := by1, ds_lastResumeMS := (if ms > 0 then ms else ds_lastResumeMS s)\<rparr>) d1))"

text \<open>Every request but \<^verbatim>\<open>suspend\<close>. \<open>late\<close>: the connections parked while the SSH port's listener closes; \<open>status_text\<close>: the
  JSON of a status.\<close>

definition handle_release :: "(kind \<times> int) list \<Rightarrow> string list \<Rightarrow> daemon \<Rightarrow> string \<times> daemon" where
  "handle_release late f d =
     (if length f \<noteq> 2 then (''err release-tcp needs a pid'', d)
      else case atoi (f ! 1) of
          None \<Rightarrow> (''err bad pid '' @ quote (f ! 1), d)
        | Some pid \<Rightarrow> (if pid \<le> 0 then (''err bad pid '' @ quote (f ! 1), d)
                      else (''ok'', on_sw (release_tcp late pid) d)))"

definition handle_request :: "(dstatus \<Rightarrow> string) \<Rightarrow> (kind \<times> int) list \<Rightarrow> int \<Rightarrow> string \<Rightarrow> daemon \<Rightarrow> string \<times> daemon" where
  "handle_request status_text late now line d =
     (let f = ctl_fields line in
      if hd f = ''abort'' then (''ok'', on_sw (with_st abort) d)
      else if hd f = ''release-tcp'' then handle_release late f d
      else if hd f = ''woke'' then (''ok'', handle_woke f now d)
      else if hd f = ''status'' then (status_text (dm_status d), d)
      else (''err unknown request'', d))"

text \<open>\<^verbatim>\<open>suspend\<close>: what it is refused with at once, or the daemon in which it runs.\<close>

definition handle_suspend :: "string \<Rightarrow> daemon \<Rightarrow> string + daemon" where
  "handle_suspend name d = (case begin_suspend d of Inl e \<Rightarrow> Inl (suspend_answer name (Inl e)) | Inr d1 \<Rightarrow> Inr d1)"

section \<open>What moves meanwhile\<close>

datatype move =
    MStand sev
  | MAccepted kind int
  | MRequest "(kind \<times> int) list" int string
  | MBegin
  | MEnd suspend_end

fun move_step :: "(string \<Rightarrow> string) \<Rightarrow> daemon \<Rightarrow> move \<Rightarrow> daemon" where
  "move_step H d (MStand e) = on_sw (\<lambda>w. sd_step H w e) d"
| "move_step H d (MAccepted k now) = accepted k now d"
| "move_step H d (MRequest late now line) = snd (handle_request (\<lambda>_. []) late now line d)"
| "move_step H d MBegin = (case begin_suspend d of Inl _ \<Rightarrow> d | Inr d1 \<Rightarrow> d1)"
| "move_step H d (MEnd r) = (if dm_suspending d then end_suspend r d else d)"

record moment =
  mo_moves :: "move list"
  mo_alive :: "int \<Rightarrow> bool"

definition meanwhile :: "(string \<Rightarrow> string) \<Rightarrow> moment \<Rightarrow> daemon \<Rightarrow> daemon" where
  "meanwhile H o1 d = run_steps (move_step H) d (mo_moves o1)"

section \<open>One evaluation\<close>

datatype lock_ans = DirGone | LockTaken | LockFailed | LockGranted

definition try_lock :: "lock_ans \<Rightarrow> bool" where
  "try_lock l \<longleftrightarrow> l = LockTaken"

text \<open>The endpoint the provider gives a machine.\<close>

record endpoint =
  ep_api :: string
  ep_sshHost :: string
  ep_sshPort :: int
  ep_guestIP :: string
  ep_hostAlias :: string

definition ssh_addr :: "endpoint \<Rightarrow> string" where
  "ssh_addr ep = join_host_port (ep_sshHost ep) (itoa (ep_sshPort ep))"

text \<open>What one pass is told: the machine's state and whether a journal exists, what moves before each of its steps, and the
  answers to its calls. The fields ending in 2 are read under the machine lock.\<close>

record pass =
  pa_state :: "bstate option"
  pa_journal :: bool
  pa_moment :: "nat \<Rightarrow> moment"
  pa_now :: int
  pa_relisten :: "string option"
  pa_lateTcp :: "(kind \<times> int) list"
  pa_lock :: lock_ans
  pa_journal2 :: bool
  pa_state2 :: "bstate option"
  pa_removed :: "string option"
  pa_lateUnix :: "(kind \<times> int) list"
  pa_unixAnswers :: bool
  pa_tcpAnswers :: bool
  pa_provider :: "bstate option"
  pa_endpoint :: "endpoint option"
  pa_take :: take_ans
  pa_listen :: "string option"
  pa_spawn :: "string + int"
  pa_dials :: "held \<Rightarrow> bool"

definition at_moment :: "(string \<Rightarrow> string) \<Rightarrow> pass \<Rightarrow> nat \<Rightarrow> daemon \<Rightarrow> daemon" where
  "at_moment H a n d = meanwhile H (pa_moment a n) d"

definition alive_at :: "pass \<Rightarrow> nat \<Rightarrow> int \<Rightarrow> bool" where
  "alive_at a n = mo_alive (pa_moment a n)"

definition waker_alive :: "(int \<Rightarrow> bool) \<Rightarrow> daemon \<Rightarrow> bool" where
  "waker_alive alive d \<longleftrightarrow>
     wk_running alive (dm_waker d) \<noteq> 0 \<or> (sd_releasedTo (sw_st (dm_sw d)) \<noteq> 0 \<and> alive (sd_releasedTo (sw_st (dm_sw d))))"

definition transition_in_flight :: "(int \<Rightarrow> bool) \<Rightarrow> lock_ans \<Rightarrow> daemon \<Rightarrow> bool" where
  "transition_in_flight alive lock d \<longleftrightarrow> waker_alive alive d \<or> try_lock lock"

text \<open>A wake that left the machine suspended: its clients are let go.\<close>

definition reap_waker :: "pass \<Rightarrow> bstate \<Rightarrow> daemon \<Rightarrow> daemon" where
  "reap_waker a st d =
     (let (reaped, w) = wk_reap (alive_at a 0) (dm_waker d); d1 = d\<lparr>dm_waker := w\<rparr> in
      if reaped \<and> st = Suspended
      then (on_sw (\<lambda>s. snd (close_held s)) d1)\<lparr>dm_trigger := None, dm_waker := wk_start_backoff (pa_now a) w\<rparr>
      else d1)"

definition relisten :: "pass \<Rightarrow> bstate \<Rightarrow> daemon \<Rightarrow> daemon" where
  "relisten a st d =
     (if st = Suspended
      then on_sw (\<lambda>w. snd (relisten_if_owner_gone (alive_at a 1 (sd_releasedTo (sw_st w))) (pa_relisten a) (pa_lateTcp a) w)) d
      else d)"

definition give_up_unserved_socket :: "pass \<Rightarrow> daemon \<Rightarrow> daemon" where
  "give_up_unserved_socket a d =
     (if waker_alive (alive_at a 2) d \<or> try_lock (pa_lock a) then d
      else if pa_journal2 a \<or> \<not> unix_is_ours (dm_sw d) then d
      else if pa_state2 a \<noteq> Some Running then d
      else on_sw (\<lambda>w. snd (close_unix (pa_removed a) (pa_lateUnix a) True w)) d)"

definition give_up :: "pass \<Rightarrow> bstate \<Rightarrow> daemon \<Rightarrow> daemon" where
  "give_up a st d =
     (if st = Running \<and> \<not> pa_journal a \<and> unix_is_ours (dm_sw d) then give_up_unserved_socket a d else d)"

definition observation_of :: "pass \<Rightarrow> bstate \<Rightarrow> daemon \<Rightarrow> observation" where
  "observation_of a st d =
     (let hold = holding (sw_st (dm_sw d));
          stopped = (st = Stopped \<and> \<not> pa_journal a) \<comment> \<open>\<open>ob_stopped\<close>\<close>
      in \<lparr>ob_state = st, ob_journal = pa_journal a, ob_holding = hold,
          ob_endpointsBack = (hold \<and> \<not> pa_journal a \<and> st = Running \<and> endpoints_back (pa_unixAnswers a) (pa_tcpAnswers a) (dm_sw d)),
          ob_stoppedBefore = dm_stoppedBefore d,
          ob_busy = (stopped \<and> dm_stoppedBefore d \<and> transition_in_flight (alive_at a 3) (pa_lock a) d)\<rparr>)"

text \<open>A failure is logged the first time in a row; the SSH port's shows in the status.\<close>

definition take_api :: "(string \<Rightarrow> string) \<Rightarrow> pass \<Rightarrow> endpoint \<Rightarrow> daemon \<Rightarrow> daemon" where
  "take_api H a ep d =
     (if ep_api ep \<noteq> [] \<and> \<not> unix_is_ours (dm_sw d)
      then (case take_unix H (pa_take a) (pa_lateUnix a) (ep_api ep) False (dm_sw d) of
              (Some t, w) \<Rightarrow> d\<lparr>dm_sw := w, dm_warnedUnix := True\<rparr>
            | (None, w) \<Rightarrow> d\<lparr>dm_sw := w, dm_warnedUnix := False\<rparr>)
      else d)"

definition take_ssh :: "pass \<Rightarrow> endpoint \<Rightarrow> daemon \<Rightarrow> daemon" where
  "take_ssh a ep d =
     (let pid = sd_releasedTo (sw_st (dm_sw d)) in
      if sd_tcp (sw_st (dm_sw d)) then d
      else if pid \<noteq> 0 \<and> alive_at a 5 pid then d
      else case take_tcp (pa_listen a) (pa_lateTcp a) (ssh_addr ep) (dm_sw d) of
          (Some t, w) \<Rightarrow>
            (if dm_warnedTcp d then d\<lparr>dm_sw := w\<rparr>
             else update_status (\<lambda>s. s\<lparr>ds_sshWake := False\<rparr>) (d\<lparr>dm_sw := w, dm_warnedTcp := True\<rparr>))
        | (None, w) \<Rightarrow> update_status (\<lambda>s. s\<lparr>ds_sshWake := True\<rparr>) (d\<lparr>dm_sw := w, dm_warnedTcp := False\<rparr>))"

definition take_endpoints :: "(string \<Rightarrow> string) \<Rightarrow> pass \<Rightarrow> daemon \<Rightarrow> daemon" where
  "take_endpoints H a d =
     (if pa_provider a \<noteq> Some Stopped then d
      else case pa_endpoint a of
          None \<Rightarrow> d
        | Some ep \<Rightarrow> take_ssh a ep (at_moment H a 5 (take_api H a ep d)))"

definition wake_for_held :: "pass \<Rightarrow> daemon \<Rightarrow> bool \<times> daemon" where
  "wake_for_held a d =
     (if sd_held (sw_st (dm_sw d)) = [] then (False, d)
      else (case wk_ensure (alive_at a 6) (pa_now a) (pa_spawn a) (pa_now a) (dm_waker d) of
              (r, w) \<Rightarrow> (r = Inr True, d\<lparr>dm_waker := w\<rparr>)))"

definition relay_held :: "pass \<Rightarrow> daemon \<Rightarrow> daemon" where
  "relay_held a d =
     (case pa_endpoint a of
        None \<Rightarrow> d
      | Some ep \<Rightarrow>
         (let d1 = on_sw (\<lambda>w. snd (hand_over (pa_dials a) (pa_lateUnix a) w)) d; trigger = dm_trigger d1
          in update_status
               (\<lambda>s. s\<lparr>ds_mode := ModeMonitor, ds_suspended := False, ds_suspendedAt := 0,
                     ds_lastWakeBy := (if ds_lastWakeBy s = [] then (case trigger of None \<Rightarrow> [] | Some k \<Rightarrow> wake_by_kind k) else ds_lastWakeBy s)\<rparr>)
               (d1\<lparr>dm_trigger := None\<rparr>)))"

text \<open>Everything before the mode is decided.\<close>

definition pass_start :: "(string \<Rightarrow> string) \<Rightarrow> pass \<Rightarrow> bstate \<Rightarrow> daemon \<Rightarrow> daemon" where
  "pass_start H a st d =
     (let d1 = reap_waker a st (at_moment H a 0 d);
          d2 = relisten a st (at_moment H a 1 d1);
          d3 = give_up a st (at_moment H a 2 d2)
      in at_moment H a 3 d3)"

text \<open>What follows from the mode: \<open>True\<close> when a wake is spawned, and the mode to report.\<close>

definition pass_act :: "(string \<Rightarrow> string) \<Rightarrow> pass \<Rightarrow> bstate \<Rightarrow> smode \<Rightarrow> daemon \<Rightarrow> smode \<times> bool \<times> daemon" where
  "pass_act H a st mode d =
     (case mode of
        ModeHold \<Rightarrow>
          (if st = Suspended
           then (let (sp, d1) = wake_for_held a (at_moment H a 6 (take_endpoints H a (at_moment H a 4 d))) in (ModeHold, sp, d1))
           else (ModeHold, False, d))
      | ModeHandOver \<Rightarrow> (ModeMonitor, False, relay_held a (at_moment H a 4 d))
      | other \<Rightarrow> (other, False, d))"

definition pass_end :: "smode \<Rightarrow> daemon \<Rightarrow> daemon" where
  "pass_end mode d =
     (if ds_mode (dm_status d) \<noteq> mode \<or> ds_held (dm_status d) \<noteq> length (sd_held (sw_st (dm_sw d)))
      then update_status (\<lambda>s. s\<lparr>ds_mode := mode\<rparr>) d else d)"

definition pass_state :: "pass \<Rightarrow> bstate" where
  "pass_state a = (case pa_state a of None \<Rightarrow> Broken | Some s \<Rightarrow> s)"

definition evaluate :: "(string \<Rightarrow> string) \<Rightarrow> pass \<Rightarrow> daemon \<Rightarrow> smode \<times> bool \<times> daemon" where
  "evaluate H a d =
     (if dm_suspending d then (ModeHold, False, d)
      else let st = pass_state a; d1 = pass_start H a st d; o1 = observation_of a st d1; mode = decide o1;
               (mode1, sp, d2) = pass_act H a st mode (d1\<lparr>dm_stoppedBefore := ob_stopped o1\<rparr>)
           in (mode1, sp, pass_end mode1 d2))"

section \<open>Every step is a run of the stand-in\<close>

definition moved :: "(string \<Rightarrow> string) \<Rightarrow> daemon \<Rightarrow> daemon \<Rightarrow> bool" where
  "moved H d d' \<longleftrightarrow> (\<exists>es. dm_sw d' = run_steps (sd_step H) (dm_sw d) es)"

lemma moved_same: "dm_sw d' = dm_sw d \<Longrightarrow> moved H d d'"
  unfolding moved_def by (rule exI [of _ "[]"]) simp

lemma moved_refl [simp]: "moved H d d"
  by (rule moved_same) simp

lemma moved_trans [trans]: "moved H c d \<Longrightarrow> moved H d e \<Longrightarrow> moved H c e"
  unfolding moved_def by (metis run_steps_append)

lemma moved_event: "dm_sw d' = sd_step H (dm_sw d) e \<Longrightarrow> moved H d d'"
  unfolding moved_def by (rule exI [of _ "[e]"]) simp

lemma moved_sw: "moved H d e \<Longrightarrow> dm_sw e' = dm_sw e \<Longrightarrow> moved H d e'"
  by (simp add: moved_def)

lemma sw_simps [simp]:
  "dm_sw (update_status f d) = dm_sw d" "dm_sw (nudge d) = dm_sw d" "dm_sw (accepted k now d) = dm_sw d"
  "dm_sw (close_probe_client d) = dm_sw d" "dm_sw (close_suspends d) = dm_sw d" "dm_sw (on_sw g d) = g (dm_sw d)"
  "dm_sw (pass_end m d) = dm_sw d" "dm_sw (handle_woke l now d) = dm_sw d"
  by (simp_all add: update_status_def nudge_def accepted_def close_probe_client_def close_suspends_def on_sw_def pass_end_def
      handle_woke_def Let_def)

lemma sw_begin: "begin_suspend d = Inr d1 \<Longrightarrow> dm_sw d1 = dm_sw d"
  by (auto simp: begin_suspend_def split: if_splits)

lemma sw_end [simp]: "dm_sw (end_suspend r d) = dm_sw d"
  by (cases r) (simp_all add: end_suspend_def)

lemma moved_request: "moved H d (snd (handle_request st late now line d))"
proof -
  have r: "moved H d (snd (handle_release late f d))" for f
    by (auto simp: handle_release_def split: option.splits intro: moved_event [where e = "EvReleaseTcp late p" for p])
  show ?thesis
    by (simp add: handle_request_def Let_def r moved_same moved_event [where e = EvAbort])
qed

lemma moved_move: "moved H d (move_step H d e)"
proof (cases e)
  case (MStand x)
  then show ?thesis by (auto intro: moved_event)
next
  case MBegin
  then show ?thesis by (auto split: sum.splits intro!: moved_same dest: sw_begin)
next
  case (MRequest late now line)
  then show ?thesis using moved_request by simp
qed (simp_all add: moved_same)

lemma moved_moves: "moved H d (run_steps (move_step H) d es)"
  by (induction es arbitrary: d) (auto intro: moved_trans moved_move)

lemma moved_at: "moved H d (at_moment H a n d)"
  by (simp add: at_moment_def meanwhile_def moved_moves)

lemma moved_reap: "moved H d (reap_waker a st d)"
  by (auto simp: reap_waker_def Let_def split_beta intro: moved_same moved_event [where e = EvCloseHeld])

lemma moved_relisten: "moved H d (relisten a st d)"
  by (auto simp: relisten_def intro: moved_event [where e = "EvRelisten l r t" for l r t])

lemma moved_give_up: "moved H d (give_up a st d)"
  by (auto simp: give_up_def give_up_unserved_socket_def intro: moved_event [where e = "EvCloseUnix r t True" for r t])

lemma moved_take_api: "moved H d (take_api H a ep d)"
proof -
  have "dm_sw (take_api H a ep d) = dm_sw d \<or> dm_sw (take_api H a ep d) = sd_step H (dm_sw d) (EvTakeUnix (pa_take a) (pa_lateUnix a) (ep_api ep) False)"
    by (auto simp: take_api_def split: prod.splits option.splits)
  then show ?thesis by (metis moved_same moved_event)
qed

lemma moved_take_ssh: "moved H d (take_ssh a ep d)"
proof -
  have "dm_sw (take_ssh a ep d) = dm_sw d \<or> dm_sw (take_ssh a ep d) = sd_step H (dm_sw d) (EvTakeTcp (pa_listen a) (pa_lateTcp a) (ssh_addr ep))"
    by (auto simp: take_ssh_def Let_def split: prod.splits option.splits)
  then show ?thesis by (metis moved_same moved_event)
qed

lemma moved_take: "moved H d (take_endpoints H a d)"
  unfolding take_endpoints_def
  by (auto split: option.splits intro: moved_trans [OF moved_take_api moved_trans [OF moved_at moved_take_ssh]])

lemma moved_wake: "moved H d (snd (wake_for_held a d))"
  by (rule moved_same) (simp add: wake_for_held_def split: prod.splits)

lemma moved_relay: "moved H d (relay_held a d)"
  by (auto simp: relay_held_def Let_def split: option.splits intro: moved_same moved_event [where e = "EvHandOver r t" for r t])

lemma moved_start: "moved H d (pass_start H a st d)"
  unfolding pass_start_def Let_def by (meson moved_trans moved_at moved_reap moved_relisten moved_give_up)

lemma moved_act: "moved H d (snd (snd (pass_act H a st mode d)))"
proof (cases mode)
  case ModeHold
  have "moved H d (snd (wake_for_held a (at_moment H a 6 (take_endpoints H a (at_moment H a 4 d)))))"
    by (meson moved_trans moved_at moved_take moved_wake)
  with ModeHold show ?thesis by (simp add: pass_act_def split_beta)
next
  case ModeHandOver
  have "moved H d (relay_held a (at_moment H a 4 d))" by (rule moved_trans [OF moved_at moved_relay])
  with ModeHandOver show ?thesis by (simp add: pass_act_def)
qed (simp_all add: pass_act_def)

lemma moved_evaluate: "moved H d (snd (snd (evaluate H a d)))"
proof (cases "dm_suspending d")
  case False
  let ?d1 = "pass_start H a (pass_state a) d"
  let ?o = "observation_of a (pass_state a) ?d1"
  let ?r = "pass_act H a (pass_state a) (decide ?o) (?d1\<lparr>dm_stoppedBefore := ob_stopped ?o\<rparr>)"
  have e: "evaluate H a d = (fst ?r, fst (snd ?r), pass_end (fst ?r) (snd (snd ?r)))"
    using False by (simp add: evaluate_def Let_def split_beta)
  have "moved H d ?d1" by (rule moved_start)
  also have "moved H ?d1 (?d1\<lparr>dm_stoppedBefore := ob_stopped ?o\<rparr>)" by (rule moved_same) simp
  also have "moved H \<dots> (snd (snd ?r))" by (rule moved_act)
  finally show ?thesis unfolding e by (simp add: moved_sw)
qed (simp add: evaluate_def)

section \<open>When the sleeper ends\<close>

lemma move_steady: "dm_stoppedBefore (move_step H d e) = dm_stoppedBefore d \<and> wk_until (dm_waker (move_step H d e)) = wk_until (dm_waker d) \<and>
   wk_backoff (dm_waker (move_step H d e)) = wk_backoff (dm_waker d) \<and> wk_pid (dm_waker (move_step H d e)) \<in> {0, wk_pid (dm_waker d)}"
proof (cases e)
  case (MRequest late now line)
  then show ?thesis
    by (auto simp: handle_request_def handle_release_def handle_woke_def on_sw_def nudge_def update_status_def Let_def split: option.splits)
next
  case (MEnd r)
  then show ?thesis by (cases r) (auto simp: end_suspend_def update_status_def nudge_def Let_def)
next
  case MBegin
  then show ?thesis
    by (auto simp: begin_suspend_def close_probe_client_def wk_forget_def split: sum.splits if_splits)
qed (auto simp: on_sw_def accepted_def nudge_def)

lemma moves_steady: "dm_stoppedBefore (run_steps (move_step H) d es) = dm_stoppedBefore d \<and>
   wk_until (dm_waker (run_steps (move_step H) d es)) = wk_until (dm_waker d) \<and>
   wk_backoff (dm_waker (run_steps (move_step H) d es)) = wk_backoff (dm_waker d) \<and>
   wk_pid (dm_waker (run_steps (move_step H) d es)) \<in> {0, wk_pid (dm_waker d)}"
proof (induction es arbitrary: d)
  case (Cons e es)
  show ?case using Cons.IH [of "move_step H d e"] move_steady [of H d e] by auto
qed simp

lemma at_steady [simp]: "dm_stoppedBefore (at_moment H a n d) = dm_stoppedBefore d" "wk_until (dm_waker (at_moment H a n d)) = wk_until (dm_waker d)"
  "wk_backoff (dm_waker (at_moment H a n d)) = wk_backoff (dm_waker d)"
  using moves_steady [of H d] by (simp_all add: at_moment_def meanwhile_def)

lemma start_stopped [simp]: "dm_stoppedBefore (pass_start H a st d) = dm_stoppedBefore d"
  by (simp add: pass_start_def reap_waker_def relisten_def give_up_def give_up_unserved_socket_def on_sw_def Let_def split_beta)

text \<open>A pass that saw the machine stopped.\<close>

definition saw_stopped :: "pass \<Rightarrow> bool" where
  "saw_stopped a \<longleftrightarrow> pa_state a = Some Stopped \<and> \<not> pa_journal a"

lemma pass_state_stopped: "pass_state a = Stopped \<longleftrightarrow> pa_state a = Some Stopped"
  by (simp add: pass_state_def split: option.splits)

lemma ob_stopped_of: "ob_stopped (observation_of a (pass_state a) d) \<longleftrightarrow> saw_stopped a"
  by (simp add: observation_of_def ob_stopped_def saw_stopped_def pass_state_stopped Let_def)

lemma steady_fields [simp]:
  "dm_stoppedBefore (update_status f d) = dm_stoppedBefore d" "dm_waker (update_status f d) = dm_waker d"
  "dm_stoppedBefore (on_sw g d) = dm_stoppedBefore d" "dm_waker (on_sw g d) = dm_waker d"
  "dm_stoppedBefore (pass_end m d) = dm_stoppedBefore d" "dm_waker (pass_end m d) = dm_waker d"
  by (simp_all add: update_status_def on_sw_def pass_end_def)

lemma take_steady [simp]:
  "dm_stoppedBefore (take_endpoints H a d) = dm_stoppedBefore d" "wk_until (dm_waker (take_endpoints H a d)) = wk_until (dm_waker d)"
proof -
  have "dm_stoppedBefore (take_api H a ep d) = dm_stoppedBefore d" "dm_waker (take_api H a ep d) = dm_waker d" for ep
    by (simp_all add: take_api_def split: prod.splits option.splits)
  moreover have "dm_stoppedBefore (take_ssh a ep d') = dm_stoppedBefore d'" "dm_waker (take_ssh a ep d') = dm_waker d'" for ep d'
    by (simp_all add: take_ssh_def Let_def split: prod.splits option.splits)
  ultimately show "dm_stoppedBefore (take_endpoints H a d) = dm_stoppedBefore d" "wk_until (dm_waker (take_endpoints H a d)) = wk_until (dm_waker d)"
    by (simp_all add: take_endpoints_def split: option.splits)
qed

lemma act_stopped [simp]: "dm_stoppedBefore (snd (snd (pass_act H a st mode d))) = dm_stoppedBefore d"
  by (cases mode) (simp_all add: pass_act_def wake_for_held_def relay_held_def Let_def split_beta split: option.splits)

lemma evaluate_split:
  assumes "\<not> dm_suspending d" "d1 = pass_start H a (pass_state a) d" "b = observation_of a (pass_state a) d1"
    "r = pass_act H a (pass_state a) (decide b) (d1\<lparr>dm_stoppedBefore := ob_stopped b\<rparr>)"
  shows "evaluate H a d = (fst r, fst (snd r), pass_end (fst r) (snd (snd r)))"
  using assms by (simp add: evaluate_def Let_def split_beta)

lemma evaluate_before: "dm_stoppedBefore (snd (snd (evaluate H a d))) = (if dm_suspending d then dm_stoppedBefore d else saw_stopped a)"
proof (cases "dm_suspending d")
  case False
  from evaluate_split [OF False refl refl refl, of H a] False show ?thesis by (simp add: ob_stopped_of)
qed (simp add: evaluate_def)

lemma act_exit: "fst (pass_act H a st mode d) = ModeExit \<Longrightarrow> mode = ModeExit"
  by (cases mode) (simp_all add: pass_act_def split_beta split: if_splits)

lemma decide_exit: "decide b = ModeExit \<Longrightarrow> ob_stopped b \<and> ob_stoppedBefore b \<and> \<not> ob_busy b"
  by (auto simp: decide_def split: if_splits)

lemma evaluate_exit:
  assumes "fst (evaluate H a d) = ModeExit"
  shows "saw_stopped a \<and> dm_stoppedBefore d \<and> \<not> transition_in_flight (alive_at a 3) (pa_lock a) (pass_start H a (pass_state a) d)"
proof (cases "dm_suspending d")
  case True
  with assms show ?thesis by (simp add: evaluate_def)
next
  case False
  let ?o = "observation_of a (pass_state a) (pass_start H a (pass_state a) d)"
  have "decide ?o = ModeExit" using assms evaluate_split [OF False refl refl refl, of H a] act_exit by simp
  from decide_exit [OF this] have o: "saw_stopped a" "ob_stoppedBefore ?o" "\<not> ob_busy ?o" by (auto simp: ob_stopped_of)
  moreover have "dm_stoppedBefore d" using o(2) by (simp add: observation_of_def Let_def)
  ultimately show ?thesis by (simp add: observation_of_def Let_def saw_stopped_def pass_state_stopped)
qed

section \<open>Wakes\<close>

lemma reap_until: "wk_until (dm_waker (reap_waker a st d)) =
   (if fst (wk_reap (alive_at a 0) (dm_waker d)) \<and> st = Suspended then pa_now a + wk_backoff (dm_waker d) else wk_until (dm_waker d))"
  by (simp add: reap_waker_def wk_reap_def wk_start_backoff_def on_sw_def Let_def split_beta)

lemma start_until: "wk_until (dm_waker (pass_start H a st d)) =
   (if fst (wk_reap (alive_at a 0) (dm_waker (at_moment H a 0 d))) \<and> st = Suspended then pa_now a + wk_backoff (dm_waker d) else wk_until (dm_waker d))"
  by (simp add: pass_start_def relisten_def give_up_def give_up_unserved_socket_def Let_def reap_until)

lemma act_wakes:
  assumes "fst (snd (pass_act H a st mode d))"
  shows "st = Suspended \<and> mode = ModeHold \<and> sd_held (sw_st (dm_sw (snd (snd (pass_act H a st mode d))))) \<noteq> [] \<and>
    wk_until (dm_waker d) \<le> pa_now a \<and> pa_spawn a = Inr (wk_pid (dm_waker (snd (snd (pass_act H a st mode d)))))"
proof (cases mode)
  case ModeHold
  with assms have "st = Suspended" by (simp add: pass_act_def split: if_splits)
  let ?u = "at_moment H a 6 (take_endpoints H a (at_moment H a 4 d))"
  have sp: "fst (wake_for_held a ?u)" using assms ModeHold \<open>st = Suspended\<close> by (simp add: pass_act_def split_beta)
  then have h: "sd_held (sw_st (dm_sw ?u)) \<noteq> []" by (auto simp: wake_for_held_def split: if_splits)
  let ?e = "wk_ensure (alive_at a 6) (pa_now a) (pa_spawn a) (pa_now a) (dm_waker ?u)"
  have e: "fst ?e = Inr True" using sp h by (simp add: wake_for_held_def split_beta)
  then obtain p where p: "pa_spawn a = Inr p" "wk_until (dm_waker ?u) \<le> pa_now a" unfolding wk_ensure_spawns by blast
  have "wk_pid (snd ?e) = p" using e p by (auto simp: wk_ensure_def split: if_splits)
  moreover have "snd (wake_for_held a ?u) = ?u\<lparr>dm_waker := snd ?e\<rparr>" using h by (simp add: wake_for_held_def split_beta)
  ultimately show ?thesis using ModeHold \<open>st = Suspended\<close> p h by (simp add: pass_act_def split_beta)
qed (use assms in \<open>simp_all add: pass_act_def\<close>)

lemma act_hold: "st = Suspended \<Longrightarrow> mode = ModeHold \<Longrightarrow> fst (pass_act H a st mode d) = ModeHold"
  by (simp add: pass_act_def split_beta)

text \<open>C16 (safety): a wake is spawned only for clients that wait, on a machine that reads suspended, with no suspend running, and
  not while the waker backs off; in particular a pass that finds its wake has failed never spawns the next one.\<close>

theorem wakes_only_for_waiting_clients:
  assumes "evaluate H a d = (mode, True, d')" "0 < wk_backoff (dm_waker d)"
  shows "pa_state a = Some Suspended \<and> mode = ModeHold \<and> \<not> dm_suspending d \<and> sd_held (sw_st (dm_sw d')) \<noteq> [] \<and>
    wk_until (dm_waker d) \<le> pa_now a \<and> pa_spawn a = Inr (wk_pid (dm_waker d')) \<and>
    \<not> fst (wk_reap (alive_at a 0) (dm_waker (at_moment H a 0 d)))"
proof -
  have ns: "\<not> dm_suspending d" using assms(1) by (auto simp: evaluate_def)
  let ?d1 = "pass_start H a (pass_state a) d"
  let ?b = "observation_of a (pass_state a) ?d1"
  let ?r = "pass_act H a (pass_state a) (decide ?b) (?d1\<lparr>dm_stoppedBefore := ob_stopped ?b\<rparr>)"
  have r: "mode = fst ?r" "fst (snd ?r)" "d' = pass_end mode (snd (snd ?r))"
    using evaluate_split [OF ns refl refl refl, of H a] assms(1) by auto
  note w = act_wakes [OF r(2)]
  have a: "pass_state a = Suspended" "decide ?b = ModeHold" using w by (blast, blast)
  have h: "sd_held (sw_st (dm_sw d')) \<noteq> []" "pa_spawn a = Inr (wk_pid (dm_waker d'))" unfolding r(3) sw_simps steady_fields using w by (blast, blast)
  have u: "wk_until (dm_waker (?d1\<lparr>dm_stoppedBefore := ob_stopped ?b\<rparr>)) \<le> pa_now a" using w by blast
  have "pa_state a = Some Suspended" using a(1) by (simp add: pass_state_def split: option.splits)
  moreover have "mode = ModeHold" unfolding r(1) by (rule act_hold [OF a])
  moreover have "wk_until (dm_waker d) \<le> pa_now a" "\<not> fst (wk_reap (alive_at a 0) (dm_waker (at_moment H a 0 d)))"
    using u a(1) assms(2) by (auto simp: start_until split: if_splits)
  ultimately show ?thesis using ns h by simp
qed

section \<open>What becomes of the clients that wait\<close>

definition held_grows :: "sw \<Rightarrow> sw \<Rightarrow> bool" where
  "held_grows w w' \<longleftrightarrow> (\<exists>xs. sd_held (sw_st w') = sd_held (sw_st w) @ xs)"

lemma held_grows_refl [simp]: "held_grows w w"
  by (simp add: held_grows_def)

lemma held_grows_trans: "held_grows u v \<Longrightarrow> held_grows v w \<Longrightarrow> held_grows u w"
  by (force simp: held_grows_def)

lemma held_grows_park: "held_grows w (park c w)"
  by (simp add: held_grows_def park_def Let_def)

lemma held_grows_park_all: "held_grows w (park_all cs w)"
  unfolding park_all_def by (induction cs arbitrary: w) (auto intro: held_grows_trans held_grows_park)

lemma held_grows_parks_only: "parks_only w w' \<Longrightarrow> held_grows w w'"
proof -
  assume "parks_only w w'"
  then obtain u cs where u: "tame w u" "tame (park_all cs u) w'" by (auto simp: parks_only_def)
  have "held_grows u (park_all cs u)" by (rule held_grows_park_all)
  with u show ?thesis by (auto simp: tame_def held_grows_def)
qed

lemma held_grows_step: "e \<notin> range EvExpire \<Longrightarrow> e \<noteq> EvCloseHeld \<Longrightarrow> (\<And>d l. e \<noteq> EvHandOver d l) \<Longrightarrow> held_grows w (sd_step H w e)"
proof (cases e)
  case (EvPark k t)
  then show ?thesis by (simp add: held_grows_park)
qed (auto simp: held_grows_def with_st_def arm_def disarm_def abort_def check_and_freeze_def; fail |
     rule held_grows_parks_only [OF endpoint_parks], simp; fail)+

definition keeps_clients :: "daemon \<Rightarrow> daemon \<Rightarrow> bool" where
  "keeps_clients d d' \<longleftrightarrow> held_grows (dm_sw d) (dm_sw d')"

lemma keeps_clients_same: "dm_sw d' = dm_sw d \<Longrightarrow> keeps_clients d d'"
  by (simp add: keeps_clients_def)

lemma keeps_clients_trans: "keeps_clients c d \<Longrightarrow> keeps_clients d e \<Longrightarrow> keeps_clients c e"
  unfolding keeps_clients_def by (rule held_grows_trans)

lemma keeps_clients_event: "dm_sw d' = sd_step H (dm_sw d) e \<Longrightarrow> e \<notin> range EvExpire \<Longrightarrow> e \<noteq> EvCloseHeld \<Longrightarrow> (\<And>x l. e \<noteq> EvHandOver x l) \<Longrightarrow> keeps_clients d d'"
  unfolding keeps_clients_def by (simp add: held_grows_step)

text \<open>A pass in which nothing else moves.\<close>

definition alone :: "pass \<Rightarrow> bool" where
  "alone a \<longleftrightarrow> (\<forall>n. mo_moves (pa_moment a n) = [])"

lemma alone_at [simp]: "alone a \<Longrightarrow> at_moment H a n d = d"
  by (simp add: alone_def at_moment_def meanwhile_def)

lemma keeps_relisten: "keeps_clients d (relisten a st d)"
proof -
  have "dm_sw (relisten a st d) = dm_sw d \<or> (\<exists>l r t. dm_sw (relisten a st d) = sd_step (\<lambda>_. []) (dm_sw d) (EvRelisten l r t))"
    by (auto simp: relisten_def)
  then show ?thesis by (auto intro: keeps_clients_same keeps_clients_event [where e = "EvRelisten l r t" for l r t])
qed

lemma keeps_give_up: "keeps_clients d (give_up a st d)"
proof -
  have "dm_sw (give_up a st d) = dm_sw d \<or> (\<exists>r t. dm_sw (give_up a st d) = sd_step (\<lambda>_. []) (dm_sw d) (EvCloseUnix r t True))"
    by (auto simp: give_up_def give_up_unserved_socket_def)
  then show ?thesis by (auto intro: keeps_clients_same keeps_clients_event [where e = "EvCloseUnix r t True" for r t])
qed

lemma keeps_take_api: "keeps_clients d (take_api H a ep d)"
proof -
  have "dm_sw (take_api H a ep d) = dm_sw d \<or> dm_sw (take_api H a ep d) = sd_step H (dm_sw d) (EvTakeUnix (pa_take a) (pa_lateUnix a) (ep_api ep) False)"
    by (auto simp: take_api_def split: prod.splits option.splits)
  then show ?thesis by (elim disjE) (erule keeps_clients_same, erule keeps_clients_event, auto)
qed

lemma keeps_take_ssh: "keeps_clients d (take_ssh a ep d)"
proof -
  have "dm_sw (take_ssh a ep d) = dm_sw d \<or> dm_sw (take_ssh a ep d) = sd_step (\<lambda>_. []) (dm_sw d) (EvTakeTcp (pa_listen a) (pa_lateTcp a) (ssh_addr ep))"
    by (auto simp: take_ssh_def Let_def split: prod.splits option.splits)
  then show ?thesis by (elim disjE) (erule keeps_clients_same, erule keeps_clients_event, auto)
qed

lemma keeps_take: "alone a \<Longrightarrow> keeps_clients d (take_endpoints H a d)"
  by (auto simp: take_endpoints_def keeps_clients_same split: option.splits intro: keeps_clients_trans [OF keeps_take_api keeps_take_ssh])

lemma keeps_wake: "keeps_clients d (snd (wake_for_held a d))"
  by (rule keeps_clients_same) (simp add: wake_for_held_def split: prod.splits)

lemma keeps_reap: "\<not> fst (wk_reap (alive_at a 0) (dm_waker d)) \<or> st \<noteq> Suspended \<Longrightarrow> keeps_clients d (reap_waker a st d)"
  by (auto simp: reap_waker_def Let_def split_beta intro: keeps_clients_same)

lemma keeps_start:
  assumes "alone a" "\<not> fst (wk_reap (alive_at a 0) (dm_waker d)) \<or> st \<noteq> Suspended"
  shows "keeps_clients d (pass_start H a st d)"
  using assms(1) by (simp add: pass_start_def Let_def) (meson keeps_clients_trans keeps_reap [OF assms(2)] keeps_relisten keeps_give_up)

lemma keeps_act:
  assumes "alone a" "mode \<noteq> ModeHandOver \<or> pa_endpoint a = None"
  shows "keeps_clients d (snd (snd (pass_act H a st mode d)))"
proof (cases mode)
  case ModeHold
  have "keeps_clients d (snd (wake_for_held a (take_endpoints H a d)))"
    by (rule keeps_clients_trans [OF keeps_take [OF assms(1)] keeps_wake])
  with ModeHold assms(1) show ?thesis by (simp add: pass_act_def split_beta keeps_clients_same)
qed (use assms in \<open>simp_all add: pass_act_def relay_held_def keeps_clients_same\<close>)

text \<open>Fact (safety): a client that waits is kept: one pass of the sleeper, with nothing else moving, leaves every parked connection
  parked, in order, except in two cases: the wake it had spawned ended and the machine is still suspended (the clients
  are let go rather than kept waiting for nothing), or the machine runs with no journal and its real endpoints answer
  (they are relayed). In particular a broken or unreadable machine never costs a client its connection.\<close>

theorem waiting_clients_kept:
  assumes "alone a" "evaluate H a d = (mode, sp, d')"
    and "\<not> (pa_state a = Some Suspended \<and> fst (wk_reap (alive_at a 0) (dm_waker d)))"
    and "\<not> (pa_state a = Some Running \<and> \<not> pa_journal a \<and> pa_endpoint a \<noteq> None \<and>
            endpoints_back (pa_unixAnswers a) (pa_tcpAnswers a) (dm_sw (pass_start H a Running d)))"
  shows "\<exists>new. sd_held (sw_st (dm_sw d')) = sd_held (sw_st (dm_sw d)) @ new"
proof (cases "dm_suspending d")
  case True
  then show ?thesis using assms(2) by (simp add: evaluate_def)
next
  case False
  let ?d1 = "pass_start H a (pass_state a) d"
  let ?b = "observation_of a (pass_state a) ?d1"
  let ?r = "pass_act H a (pass_state a) (decide ?b) (?d1\<lparr>dm_stoppedBefore := ob_stopped ?b\<rparr>)"
  have sus: "pass_state a = Suspended \<longleftrightarrow> pa_state a = Some Suspended" "pass_state a = Running \<longleftrightarrow> pa_state a = Some Running"
    by (simp_all add: pass_state_def split: option.splits)
  have d': "dm_sw d' = dm_sw (snd (snd ?r))" using evaluate_split [OF False refl refl refl, of H a] assms(2) by auto
  have "keeps_clients d ?d1" by (rule keeps_start [OF assms(1)]) (use assms(3) sus in blast)
  moreover have "keeps_clients ?d1 (?d1\<lparr>dm_stoppedBefore := ob_stopped ?b\<rparr>)" by (rule keeps_clients_same) simp
  moreover have "decide ?b \<noteq> ModeHandOver \<or> pa_endpoint a = None"
  proof (rule ccontr)
    assume c: "\<not> ?thesis"
    then have "\<not> pa_journal a" "pass_state a = Running" "ob_endpointsBack ?b"
      by (auto simp: decide_def observation_of_def Let_def split: if_splits)
    with c assms(4) sus show False by (auto simp: observation_of_def Let_def)
  qed
  then have "keeps_clients (?d1\<lparr>dm_stoppedBefore := ob_stopped ?b\<rparr>) (snd (snd ?r))" by (rule keeps_act [OF assms(1)])
  ultimately have "keeps_clients d (snd (snd ?r))" by (meson keeps_clients_trans)
  then show ?thesis by (simp add: keeps_clients_def held_grows_def d')
qed

section \<open>Concrete runs\<close>

definition demo_moment :: moment where
  "demo_moment = \<lparr>mo_moves = [], mo_alive = \<lambda>_. False\<rparr>"

definition demo_pass :: "bstate \<Rightarrow> pass" where
  "demo_pass st = \<lparr>pa_state = Some st, pa_journal = (st = Suspended), pa_moment = \<lambda>_. demo_moment, pa_now = 100, pa_relisten = None,
     pa_lateTcp = [], pa_lock = LockGranted, pa_journal2 = False, pa_state2 = Some st, pa_removed = None, pa_lateUnix = [],
     pa_unixAnswers = False, pa_tcpAnswers = False, pa_provider = Some Running, pa_endpoint = None,
     pa_take = \<lparr>ta_listen = Inr 7, ta_chmod = None, ta_seen = True, ta_link = True, ta_rename = None\<rparr>, pa_listen = None,
     pa_spawn = Inr 42, pa_dials = \<lambda>_. True\<rparr>"

definition demo_held :: daemon where
  "demo_held = on_sw (park (KUnix, 5)) (new_daemon Map.empty)"

lemma demo_wakes: "fst (snd (evaluate (\<lambda>_. []) (demo_pass Suspended) demo_held))"
  by code_simp

theorem wakes_only_for_waiting_clients_witness:
  "case evaluate (\<lambda>_. []) (demo_pass Suspended) demo_held of (mode, sp, d') \<Rightarrow>
     mode = ModeHold \<and> sp \<and> sd_held (sw_st (dm_sw d')) \<noteq> [] \<and> wk_pid (dm_waker d') = 42"
proof -
  obtain mode sp d' where e: "evaluate (\<lambda>_. []) (demo_pass Suspended) demo_held = (mode, sp, d')" by (cases "evaluate (\<lambda>_. []) (demo_pass Suspended) demo_held") auto
  with demo_wakes have sp by simp
  have "0 < wk_backoff (dm_waker demo_held)" by (simp add: demo_held_def new_daemon_def on_sw_def wake_spawn_backoff_def second_def)
  from wakes_only_for_waiting_clients [OF e [unfolded eqTrueI [OF \<open>sp\<close>]] this] show ?thesis
    using e \<open>sp\<close> by (simp add: demo_pass_def)
qed

theorem waiting_clients_kept_witness:
  "\<exists>new. sd_held (sw_st (dm_sw (snd (snd (evaluate (\<lambda>_. []) (demo_pass Broken) demo_held))))) = sd_held (sw_st (dm_sw demo_held)) @ new"
  by (rule waiting_clients_kept [where a = "demo_pass Broken" and H = "\<lambda>_. []" and
        mode = "fst (evaluate (\<lambda>_. []) (demo_pass Broken) demo_held)" and sp = "fst (snd (evaluate (\<lambda>_. []) (demo_pass Broken) demo_held))"])
    (auto simp: alone_def demo_pass_def demo_moment_def)

end
