(* ===== verification/Sleeper_Monitor.thy ===== *)
theory Sleeper_Monitor
  imports Sleeper_Daemon Machine
begin

text \<open>
  The sleeper's idle monitor and its mode loop (\<^verbatim>\<open>internal/cli/sleeper.go\<close>): entering and leaving monitor mode, the probe
  on the persistent connection, the host's signals, one idle tick, the automatic suspend and what its failures lead to,
  and the loop that evaluates the mode table until the machine is stopped. Times are integers (nanoseconds), 0 the zero
  time.
\<close>

section \<open>Entering and leaving monitor mode\<close>

definition on_mon :: "(idle_monitor \<Rightarrow> idle_monitor) \<Rightarrow> daemon \<Rightarrow> daemon" where
  "on_mon f d = d\<lparr>dm_mon := f (dm_mon d)\<rparr>"

definition first_trigger :: "daemon \<Rightarrow> int" where
  "first_trigger d =
     (if dm_triggerAt d = 0 \<or> (dm_wokeAt d \<noteq> 0 \<and> dm_wokeAt d < dm_triggerAt d) then dm_wokeAt d else dm_triggerAt d)"

definition enter_monitor :: "int \<Rightarrow> int \<Rightarrow> daemon \<Rightarrow> daemon" where
  "enter_monitor now wall d =
     (let d1 = on_mon (\<lambda>o1. o1\<lparr>im_active := True, im_tracker := restart ((im_tracker o1)\<lparr>tk_interval := probe_interval\<rparr>),
                  im_lastProbe := 0, im_lastSample := now, im_activityKnown := False, im_cpuKnown := False, im_refusal := []\<rparr>) d
      in if im_suspendedAt (dm_mon d1) = 0 then d1
         else (let trigger = first_trigger d1;
                   asleep = (if trigger = 0 then wall else trigger) - im_suspendedAt (dm_mon d1)
               in on_mon (\<lambda>o1. o1\<lparr>im_tracker := woke (im_tracker o1) asleep, im_suspendedAt := 0\<rparr>)
                    (d1\<lparr>dm_triggerAt := 0, dm_wokeAt := 0\<rparr>)))"

definition leave_monitor :: "daemon \<Rightarrow> daemon" where
  "leave_monitor d =
     (if \<not> im_active (dm_mon d) then d
      else update_status (\<lambda>s. s\<lparr>ds_idleSeconds := 0, ds_idleAfter := 0, ds_blockers := [], ds_idleUnavailable := []\<rparr>)
             (close_probe_client (on_mon (\<lambda>o1. o1\<lparr>im_active := False\<rparr>) d)))"

section \<open>The probe\<close>

datatype probe_run = ProbeOk sample | ProbeBad string | ProbeLost string

record probe_ans =
  pb_endpoint :: "string option"
  pb_dial :: "string option"
  pb_keepalive :: "string option"
  pb_run :: probe_run

definition idle_probe_failures :: nat where "idle_probe_failures = 3"

text \<open>A failure of the connection counts towards dropping it; a probe that ran and answered badly does not.\<close>

definition probe_failed :: "daemon \<Rightarrow> daemon" where
  "probe_failed d =
     (if dm_clientFailures d + 1 \<ge> idle_probe_failures then d\<lparr>dm_client := False, dm_clientFailures := 0\<rparr>
      else d\<lparr>dm_clientFailures := dm_clientFailures d + 1\<rparr>)"

definition probe_connected :: "probe_ans \<Rightarrow> daemon \<Rightarrow> (sample \<times> string option) \<times> daemon" where
  "probe_connected p d =
     (case pb_keepalive p of
        Some t \<Rightarrow> ((empty_sample, Some t), probe_failed d)
      | None \<Rightarrow>
         (case pb_run p of
            ProbeOk s \<Rightarrow> ((s, None), d\<lparr>dm_clientFailures := 0\<rparr>)
          | ProbeBad t \<Rightarrow> ((empty_sample, Some t), d\<lparr>dm_clientFailures := 0\<rparr>)
          | ProbeLost t \<Rightarrow> ((empty_sample, Some t), probe_failed d)))"

definition probe_guest :: "probe_ans \<Rightarrow> daemon \<Rightarrow> (sample \<times> string option) \<times> daemon" where
  "probe_guest p d =
     (if dm_suspending d then ((empty_sample, Some ''a suspend is already running''), d)
      else if dm_client d then probe_connected p d
      else case pb_endpoint p of
          Some t \<Rightarrow> ((empty_sample, Some t), d)
        | None \<Rightarrow>
           (case pb_dial p of
              Some t \<Rightarrow> ((empty_sample, Some t), d)
            | None \<Rightarrow> probe_connected p (d\<lparr>dm_client := True, dm_clientFailures := 0\<rparr>)))"

text \<open>The host's signals: the activity file's modification time (0 when it is missing), the hypervisor's CPU time and when
  it was read.\<close>

definition host_signals :: "int \<Rightarrow> int option \<Rightarrow> int \<Rightarrow> idle_monitor \<Rightarrow> sample \<Rightarrow> sample \<times> idle_monitor" where
  "host_signals mtime cpu read_at o1 s =
     (let s1 = s\<lparr>sm_activity := im_activityKnown o1 \<and> mtime \<noteq> im_activity o1\<rparr>;
          m1 = o1\<lparr>im_activity := mtime, im_activityKnown := True\<rparr>
      in case cpu of
           None \<Rightarrow> (s1, m1\<lparr>im_cpuKnown := False\<rparr>)
         | Some c \<Rightarrow>
             (if im_cpuKnown o1 \<and> c \<ge> im_cpu o1 \<and> read_at - im_cpuAt o1 > 0
              then s1\<lparr>sm_cpuPercent := cpu_percent (c - im_cpu o1) (read_at - im_cpuAt o1), sm_cpuKnown := True\<rparr> else s1,
              m1\<lparr>im_cpu := c, im_cpuAt := read_at, im_cpuKnown := True\<rparr>))"

section \<open>The automatic suspend\<close>

definition idle_suspend_failures :: nat where "idle_suspend_failures = 3"

definition disabled_text :: "nat \<Rightarrow> string \<Rightarrow> string" where
  "disabled_text n name = ''automatic suspend failed '' @ itoa (int n) @
     '' times in a row; it is off until the sleeper restarts ('' @ CHR 0x27 # ''jm stop'' @ name_hint name @ CHR 0x27 #
     '' and '' @ CHR 0x27 # ''jm start'' @ name_hint name @ CHR 0x27 # '')''"

definition first_line :: "string \<Rightarrow> string" where
  "first_line s = takeWhile (\<lambda>c. c \<noteq> CHR 0x0A) s"

definition refusal_blocker :: "string \<Rightarrow> cerr \<Rightarrow> string" where
  "refusal_blocker name e =
     (if ce_share e \<noteq> [] then ''share '' @ ce_share e @ '' in use''
      else if ce_kind e = KBlocked
      then ''suspend refused: '' @
             trim_prefix (trim_prefix (first_line (ce_msg e)) (name @ '' is busy: '')) (''cannot suspend '' @ name @ '': '')
      else [])"

text \<open>What the outcome does to the monitor; \<open>now\<close> is read when the suspend succeeded.\<close>

definition auto_outcome :: "string \<Rightarrow> int \<Rightarrow> cerr + int \<times> int \<Rightarrow> idle_monitor \<Rightarrow> idle_monitor" where
  "auto_outcome name now r o1 =
     (case r of
        Inr _ \<Rightarrow> o1\<lparr>im_failures := 0, im_suspendedAt := now, im_tracker := reset (im_tracker o1)\<rparr>
      | Inl e \<Rightarrow>
         (if ce_kind e = KLocked \<or> ce_kind e = KRunning \<or> ce_kind e = KStopping then o1
          else if ce_kind e = KBlocked \<or> ce_kind e = KAborted
          then o1\<lparr>im_tracker := reset (im_tracker o1), im_refusal := refusal_blocker name e\<rparr>
          else (let n = im_failures o1 + 1 in
                o1\<lparr>im_failures := n, im_tracker := reset (im_tracker o1),
                   im_disabled := (if n \<ge> idle_suspend_failures then disabled_text n name else im_disabled o1)\<rparr>)))"

definition auto_suspend :: "(string \<Rightarrow> string) \<Rightarrow> string \<Rightarrow> move list \<Rightarrow> suspend_end \<Rightarrow> int \<Rightarrow> daemon \<Rightarrow> daemon" where
  "auto_suspend H name moves r now d =
     (let d1 = on_mon (\<lambda>o1. o1\<lparr>im_refusal := []\<rparr>) d in
      case begin_suspend d1 of
        Inl e \<Rightarrow> on_mon (auto_outcome name now (Inl e)) d1
      | Inr d2 \<Rightarrow> on_mon (auto_outcome name now (suspend_result r)) (end_suspend r (run_steps (move_step H) d2 moves)))"

section \<open>One tick\<close>

text \<open>What one pass of monitor mode is told. \<open>ti_load\<close>: the machine's record, if it loads; \<open>ti_preflight\<close>: why it cannot be
  suspended; \<open>ti_moves\<close> and \<open>ti_end\<close>: what moves while an automatic suspend runs, and how it ends.\<close>

record tick =
  ti_now :: int
  ti_wall :: int
  ti_load :: "machine option"
  ti_probe :: probe_ans
  ti_baseline :: int
  ti_mtime :: int
  ti_cpu :: "int option"
  ti_cpuNow :: int
  ti_preflight :: "cerr option"
  ti_moves :: "move list"
  ti_end :: suspend_end
  ti_after :: int

definition whole_seconds :: "int \<Rightarrow> int" where
  "whole_seconds n = (if n < 0 then - ((- n) div second) else n div second)"

definition write_idle_status :: "int \<Rightarrow> string \<Rightarrow> daemon \<Rightarrow> daemon" where
  "write_idle_status period unavailable d =
     (let o1 = dm_mon d in
      update_status (\<lambda>s. s\<lparr>ds_idleSeconds := whole_seconds (tk_idle (im_tracker o1)), ds_idleAfter := whole_seconds (threshold (im_tracker o1) period),
         ds_blockers := tk_blockers (im_tracker o1) @ (if im_refusal o1 \<noteq> [] then [im_refusal o1] else []),
         ds_lastActivity := im_activity o1, ds_idleUnavailable := unavailable, ds_disabledReason := im_disabled o1,
         ds_penalty := penalty (im_tracker o1)\<rparr>) d)"

definition unavailable_text :: "string \<Rightarrow> cerr option \<Rightarrow> string" where
  "unavailable_text name e = (case e of None \<Rightarrow> [] | Some x \<Rightarrow> trim_prefix (ce_msg x) (''cannot suspend '' @ name @ '': ''))"

text \<open>The sample, taken and observed.\<close>

definition tick_sample :: "(rat \<Rightarrow> string) \<Rightarrow> tick \<Rightarrow> daemon \<Rightarrow> daemon" where
  "tick_sample fmt t d =
     (let ((s0, perr), d1) = probe_guest (ti_probe t) d;
          (s1, m1) = host_signals (ti_mtime t) (ti_cpu t) (ti_cpuNow t) (dm_mon d1) (s0\<lparr>sm_engineBaseline := ti_baseline t\<rparr>);
          tk = observe fmt (im_tracker m1) s1 perr (ti_now t - im_lastSample m1)
      in d1\<lparr>dm_mon := m1\<lparr>im_lastSample := ti_now t, im_tracker := tk,
              im_refusal := (if perr = None \<and> tk_blockers tk \<noteq> [] then [] else im_refusal m1)\<rparr>\<rparr>)"

definition idle_period :: "machine \<Rightarrow> int" where
  "idle_period m = wrap64 (mc_idleSuspendMin m * minute)"

text \<open>The decision: whether the machine is suspended now, and the daemon with the tracker the question leaves.\<close>

definition tick_due :: "machine \<Rightarrow> string \<Rightarrow> daemon \<Rightarrow> bool \<times> daemon" where
  "tick_due m unavailable d =
     (let period = idle_period m;
          d1 = (if period \<le> 0 then on_mon (\<lambda>o1. o1\<lparr>im_refusal := []\<rparr>) d else d);
          (is_due, tk) = due (im_tracker (dm_mon d1)) period
      in (is_due \<and> unavailable = [] \<and> im_disabled (dm_mon d1) = [], on_mon (\<lambda>o1. o1\<lparr>im_tracker := tk\<rparr>) d1))"

text \<open>\<open>True\<close> when the tick tried a suspend.\<close>

definition idle_tick :: "(string \<Rightarrow> string) \<Rightarrow> (rat \<Rightarrow> string) \<Rightarrow> string \<Rightarrow> tick \<Rightarrow> daemon \<Rightarrow> bool \<times> daemon" where
  "idle_tick H fmt name t d =
     (case ti_load t of
        None \<Rightarrow> (False, d)
      | Some m \<Rightarrow>
         (let d1 = tick_sample fmt t d; unavailable = unavailable_text name (ti_preflight t);
              (go, d2) = tick_due m unavailable d1; d3 = write_idle_status (idle_period m) unavailable d2
          in if go
             then (True, write_idle_status (idle_period m) unavailable (auto_suspend H name (ti_moves t) (ti_end t) (ti_after t) d3))
             else (False, d3)))"

text \<open>One pass of monitor mode, with the time to wait for the next.\<close>

definition monitor :: "(string \<Rightarrow> string) \<Rightarrow> (rat \<Rightarrow> string) \<Rightarrow> string \<Rightarrow> tick \<Rightarrow> daemon \<Rightarrow> int \<times> bool \<times> daemon" where
  "monitor H fmt name t d =
     (let d1 = (if im_active (dm_mon d) then d else enter_monitor (ti_now t) (ti_wall t) d);
          wait = probe_interval - (ti_now t - im_lastProbe (dm_mon d1))
      in if im_lastProbe (dm_mon d1) \<noteq> 0 \<and> wait > probe_interval div 10 then (wait, False, d1)
         else (let (tried, d2) = idle_tick H fmt name t (on_mon (\<lambda>o1. o1\<lparr>im_lastProbe := ti_now t\<rparr>) d1)
               in (probe_interval, tried, d2)))"

section \<open>The loop\<close>

text \<open>One round: the pass, the tick if the mode is monitor, what moves while it waits, and whether the context is done.\<close>

record round =
  ro_pass :: pass
  ro_tick :: tick
  ro_moves :: "move list"
  ro_done :: bool

datatype loop_end = MachineStopped | ContextDone | Waiting

definition round_step :: "(string \<Rightarrow> string) \<Rightarrow> (rat \<Rightarrow> string) \<Rightarrow> string \<Rightarrow> round \<Rightarrow> smode \<Rightarrow> daemon \<Rightarrow> daemon" where
  "round_step H fmt name r mode d =
     (if mode = ModeMonitor then snd (snd (monitor H fmt name (ro_tick r) d)) else leave_monitor d)"

fun mode_loop :: "(string \<Rightarrow> string) \<Rightarrow> (rat \<Rightarrow> string) \<Rightarrow> string \<Rightarrow> round list \<Rightarrow> daemon \<Rightarrow> loop_end \<times> daemon" where
  "mode_loop H fmt name [] d = (Waiting, d)"
| "mode_loop H fmt name (r # rs) d =
     (case evaluate H (ro_pass r) d of
        (mode, sp, d1) \<Rightarrow>
          (if mode = ModeExit then (MachineStopped, close_suspends d1)
           else (let d2 = round_step H fmt name r mode d1 in
                 if ro_done r then (ContextDone, close_suspends d2)
                 else mode_loop H fmt name rs ((run_steps (move_step H) d2 (ro_moves r))\<lparr>dm_nudged := False\<rparr>))))"

text \<open>\<^verbatim>\<open>shutdown\<close>, once no suspend runs and every request is answered.\<close>

definition shutdown_daemon :: "string option \<Rightarrow> (kind \<times> int) list \<Rightarrow> (kind \<times> int) list \<Rightarrow> daemon \<Rightarrow> daemon" where
  "shutdown_daemon removed late1 late2 d = on_sw (\<lambda>w. snd (close_all removed late1 late2 w)) d"

lemma sw_mon [simp]: "dm_sw (on_mon f d) = dm_sw d"
  by (simp add: on_mon_def)

lemma sw_enter [simp]: "dm_sw (enter_monitor n v d) = dm_sw d"
  by (simp add: enter_monitor_def Let_def)

lemma sw_leave [simp]: "dm_sw (leave_monitor d) = dm_sw d"
  by (simp add: leave_monitor_def)

lemma sw_probe [simp]: "dm_sw (snd (probe_guest p d)) = dm_sw d"
  by (auto simp: probe_guest_def probe_connected_def probe_failed_def split: option.splits probe_run.splits)

lemma sw_sample [simp]: "dm_sw (tick_sample fmt t d) = dm_sw d"
  by (simp add: tick_sample_def Let_def split_beta)

lemma sw_due [simp]: "dm_sw (snd (tick_due m u d)) = dm_sw d"
  by (simp add: tick_due_def Let_def split_beta)

lemma sw_write [simp]: "dm_sw (write_idle_status p u d) = dm_sw d"
  by (simp add: write_idle_status_def Let_def)

lemma moved_auto: "moved H d (auto_suspend H name moves r now d)"
proof (cases "begin_suspend (on_mon (\<lambda>o1. o1\<lparr>im_refusal := []\<rparr>) d)")
  case (Inr d2)
  then have "moved H d d2" by (intro moved_same) (simp add: sw_begin)
  also have "moved H d2 (run_steps (move_step H) d2 moves)" by (rule moved_moves)
  finally show ?thesis by (simp add: auto_suspend_def Inr moved_sw)
qed (simp add: auto_suspend_def moved_same)

lemma moved_tick: "moved H d (snd (idle_tick H fmt name t d))"
proof (cases "ti_load t")
  case (Some m)
  let ?d3 = "write_idle_status (idle_period m) (unavailable_text name (ti_preflight t)) (snd (tick_due m (unavailable_text name (ti_preflight t)) (tick_sample fmt t d)))"
  have d: "moved H d ?d3" by (rule moved_same) simp
  from moved_trans [OF d moved_auto] have
    "moved H d (write_idle_status p u (auto_suspend H name (ti_moves t) (ti_end t) (ti_after t) ?d3))" for p u
    by (rule moved_sw) simp
  with d show ?thesis by (simp add: idle_tick_def Some Let_def split_beta)
qed (simp add: idle_tick_def)

lemma moved_monitor: "moved H d (snd (snd (monitor H fmt name t d)))"
proof -
  let ?d1 = "if im_active (dm_mon d) then d else enter_monitor (ti_now t) (ti_wall t) d"
  have d1: "moved H d ?d1" by (rule moved_same) simp
  have "moved H d (on_mon (\<lambda>o1. o1\<lparr>im_lastProbe := ti_now t\<rparr>) ?d1)" by (rule moved_same) simp
  from moved_trans [OF this moved_tick] d1 show ?thesis
    by (simp only: monitor_def Let_def split_beta snd_conv split: if_split) blast
qed

lemma moved_round: "moved H d (round_step H fmt name r mode d)"
  by (simp add: round_step_def moved_monitor moved_same)

lemma moved_loop: "moved H d (snd (mode_loop H fmt name rs d))"
proof (induction rs arbitrary: d)
  case (Cons r rs)
  obtain mode sp d1 where e: "evaluate H (ro_pass r) d = (mode, sp, d1)" by (cases "evaluate H (ro_pass r) d") auto
  have d1: "moved H d d1" using moved_evaluate [of H d "ro_pass r"] by (simp add: e)
  let ?d2 = "round_step H fmt name r mode d1"
  have d2: "moved H d ?d2" by (rule moved_trans [OF d1 moved_round])
  let ?d3 = "(run_steps (move_step H) ?d2 (ro_moves r))\<lparr>dm_nudged := False\<rparr>"
  have d3: "moved H d ?d3" by (rule moved_sw [OF moved_trans [OF d2 moved_moves]]) simp
  have "moved H d (close_suspends d1)" "moved H d (close_suspends ?d2)" using d1 d2 moved_sw by auto
  with moved_trans [OF d3 Cons.IH] show ?case by (simp add: e Let_def)
qed simp

text \<open>C17 (invariant): the sleeper neither loses nor duplicates a client: in any life of the daemon, whatever its passes see, its
  suspends do, its control requests ask and other processes change, until and including its shutdown, every connection
  it ever accepted is parked, closed or relayed, exactly once, and never more than 256 are parked.\<close>

theorem sleeper_loses_no_client:
  "let w = dm_sw (shutdown_daemon removed late1 late2 (snd (mode_loop H fmt name rs (new_daemon files))));
       ids = map hd_id (sd_held (sw_st w)) @ map fst (sw_fates w)
   in distinct ids \<and> set ids = {0..<sw_next w} \<and> length (sd_held (sw_st w)) \<le> max_held (sw_st w)"
proof -
  let ?d = "snd (mode_loop H fmt name rs (new_daemon files))"
  let ?w = "dm_sw (shutdown_daemon removed late1 late2 ?d)"
  obtain es where es: "dm_sw ?d = run_steps (sd_step H) (new_sw 0 files) es"
    using moved_loop [of H "new_daemon files" fmt name rs] by (auto simp: moved_def new_daemon_def)
  have "?w = run_steps (sd_step H) (dm_sw ?d) [EvCloseHeld, EvCloseTcp late1, EvCloseUnix removed late2 True]"
    by (simp add: shutdown_daemon_def close_all_def)
  then have "settled_conns ?w" unfolding es by (simp only: sb.run_inv [OF sb.run_inv [OF new_settled]])
  then show ?thesis unfolding Let_def by (rule settled_exactly)
qed

lemma before_mon [simp]: "dm_stoppedBefore (on_mon f d) = dm_stoppedBefore d" "dm_stoppedBefore (enter_monitor n v d) = dm_stoppedBefore d"
  "dm_stoppedBefore (close_probe_client d) = dm_stoppedBefore d" "dm_stoppedBefore (nudge d) = dm_stoppedBefore d"
  "dm_stoppedBefore (leave_monitor d) = dm_stoppedBefore d" "dm_stoppedBefore (snd (probe_guest p d)) = dm_stoppedBefore d"
  "dm_stoppedBefore (write_idle_status i u d) = dm_stoppedBefore d"
  by (simp_all add: on_mon_def enter_monitor_def Let_def close_probe_client_def nudge_def leave_monitor_def probe_guest_def
      probe_connected_def probe_failed_def write_idle_status_def split: option.splits probe_run.splits)

lemma before_sample [simp]: "dm_stoppedBefore (tick_sample fmt t d) = dm_stoppedBefore d" "dm_stoppedBefore (snd (tick_due m u d)) = dm_stoppedBefore d"
  by (simp_all add: tick_sample_def tick_due_def Let_def split_beta)

lemma before_begin: "begin_suspend d = Inr d1 \<Longrightarrow> dm_stoppedBefore d1 = dm_stoppedBefore d"
  by (auto simp: begin_suspend_def split: if_splits)

lemma before_end [simp]: "dm_stoppedBefore (end_suspend r d) = dm_stoppedBefore d"
  by (cases r) (simp_all add: end_suspend_def)

lemma before_auto [simp]: "dm_stoppedBefore (auto_suspend H name moves r now d) = dm_stoppedBefore d"
  using moves_steady [of H] before_begin [of "on_mon (\<lambda>o1. o1\<lparr>im_refusal := []\<rparr>) d"]
  by (simp add: auto_suspend_def Let_def split: sum.splits)

lemma before_round [simp]: "dm_stoppedBefore (round_step H fmt name r mode d) = dm_stoppedBefore d"
  by (simp add: round_step_def monitor_def idle_tick_def Let_def split_beta split: option.splits)

lemma loop_stopped:
  assumes "fst (mode_loop H fmt name rs d) = MachineStopped"
  shows "\<exists>mid b post. rs = mid @ b # post \<and> saw_stopped (ro_pass b) \<and> \<not> try_lock (pa_lock (ro_pass b)) \<and>
    (dm_stoppedBefore d \<or> (\<exists>a \<in> set mid. saw_stopped (ro_pass a)))"
  using assms
proof (induction rs arbitrary: d)
  case (Cons r rs)
  obtain mode sp d1 where e: "evaluate H (ro_pass r) d = (mode, sp, d1)" by (cases "evaluate H (ro_pass r) d") auto
  have before: "dm_stoppedBefore d1 = (if dm_suspending d then dm_stoppedBefore d else saw_stopped (ro_pass r))"
    using evaluate_before [of H "ro_pass r" d] by (simp add: e)
  show ?case
  proof (cases "mode = ModeExit")
    case True
    then have "fst (evaluate H (ro_pass r) d) = ModeExit" by (simp add: e)
    from evaluate_exit [OF this] show ?thesis by (intro exI [of _ "[]"] exI [of _ r] exI [of _ rs]) (simp add: transition_in_flight_def)
  next
    case False
    let ?d3 = "(run_steps (move_step H) (round_step H fmt name r mode d1) (ro_moves r))\<lparr>dm_nudged := False\<rparr>"
    have "fst (mode_loop H fmt name rs ?d3) = MachineStopped" using Cons.prems False by (auto simp: e Let_def split: if_splits)
    from Cons.IH [OF this] obtain mid b post where ih: "rs = mid @ b # post" "saw_stopped (ro_pass b)" "\<not> try_lock (pa_lock (ro_pass b))"
      "dm_stoppedBefore ?d3 \<or> (\<exists>a \<in> set mid. saw_stopped (ro_pass a))" by blast
    have "dm_stoppedBefore ?d3 = dm_stoppedBefore d1" using moves_steady [of H] by simp
    with ih before show ?thesis by (intro exI [of _ "r # mid"] exI [of _ b] exI [of _ post]) (auto split: if_splits)
  qed
qed simp

text \<open>Fact (safety): the sleeper gives its endpoints up only on a stopped machine: when its loop ends because the machine is
  stopped, two of its passes, the last among them, saw the machine stopped with no journal, and at the last one no
  command held the machine lock; so a wake that falls back to a cold boot, or a start in flight, never ends it.\<close>

theorem sleeper_ends_only_when_stopped:
  assumes "fst (mode_loop H fmt name rs (new_daemon files)) = MachineStopped"
  shows "\<exists>pre a mid b post. rs = pre @ a # mid @ b # post \<and>
    pa_state (ro_pass a) = Some Stopped \<and> \<not> pa_journal (ro_pass a) \<and>
    pa_state (ro_pass b) = Some Stopped \<and> \<not> pa_journal (ro_pass b) \<and> pa_lock (ro_pass b) \<noteq> LockTaken"
proof -
  obtain mid b post where m: "rs = mid @ b # post" "saw_stopped (ro_pass b)" "\<not> try_lock (pa_lock (ro_pass b))"
    "\<exists>a \<in> set mid. saw_stopped (ro_pass a)" using loop_stopped [OF assms] by (auto simp: new_daemon_def)
  then obtain a pre mid' where "mid = pre @ a # mid'" "saw_stopped (ro_pass a)" by (meson split_list)
  with m show ?thesis unfolding saw_stopped_def try_lock_def by (metis append.assoc append_Cons)
qed

section \<open>The automatic suspend gives up\<close>

lemma mon_simps [simp]:
  "dm_mon (update_status f d) = dm_mon d" "dm_mon (nudge d) = dm_mon d" "dm_mon (accepted k now d) = dm_mon d"
  "dm_mon (close_probe_client d) = dm_mon d" "dm_mon (close_suspends d) = dm_mon d" "dm_mon (on_sw g d) = dm_mon d"
  "dm_mon (pass_end m d) = dm_mon d" "dm_mon (handle_woke l now d) = dm_mon d" "dm_mon (on_mon h d) = h (dm_mon d)"
  "dm_mon (write_idle_status i u d) = dm_mon d"
  by (simp_all add: update_status_def nudge_def accepted_def close_probe_client_def close_suspends_def on_sw_def pass_end_def
      handle_woke_def on_mon_def write_idle_status_def Let_def)

lemma mon_begin: "begin_suspend d = Inr d1 \<Longrightarrow> dm_mon d1 = dm_mon d"
  by (auto simp: begin_suspend_def split: if_splits)

lemma mon_end [simp]: "dm_mon (end_suspend r d) = dm_mon d"
  by (cases r) (simp_all add: end_suspend_def)

lemma mon_move [simp]: "dm_mon (move_step H d e) = dm_mon d"
proof (cases e)
  case MBegin
  then show ?thesis by (auto split: sum.splits dest: mon_begin)
qed (auto simp: handle_request_def handle_release_def Let_def split: option.splits)

lemma mon_moves [simp]: "dm_mon (run_steps (move_step H) d es) = dm_mon d"
  by (induction es arbitrary: d) simp_all

lemma mon_at [simp]: "dm_mon (at_moment H a n d) = dm_mon d"
  by (simp add: at_moment_def meanwhile_def)

lemma mon_pieces [simp]:
  "dm_mon (reap_waker a st d) = dm_mon d" "dm_mon (relisten a st d) = dm_mon d" "dm_mon (give_up a st d) = dm_mon d"
  "dm_mon (take_api H a ep d) = dm_mon d" "dm_mon (take_ssh a ep d) = dm_mon d" "dm_mon (snd (wake_for_held a d)) = dm_mon d"
  "dm_mon (relay_held a d) = dm_mon d"
  by (simp_all add: reap_waker_def relisten_def give_up_def give_up_unserved_socket_def take_api_def take_ssh_def
      wake_for_held_def relay_held_def Let_def split_beta split: option.splits)

lemma mon_take [simp]: "dm_mon (take_endpoints H a d) = dm_mon d"
  by (simp add: take_endpoints_def split: option.splits)

lemma mon_act [simp]: "dm_mon (snd (snd (pass_act H a st mode d))) = dm_mon d"
  by (cases mode) (simp_all add: pass_act_def split_beta)

lemma mon_start [simp]: "dm_mon (pass_start H a st d) = dm_mon d"
  by (simp add: pass_start_def Let_def)

lemma mon_evaluate [simp]: "dm_mon (snd (snd (evaluate H a d))) = dm_mon d"
proof (cases "dm_suspending d")
  case False
  from evaluate_split [OF False refl refl refl, of H a] show ?thesis by simp
qed (simp add: evaluate_def)

definition gives_up :: "idle_monitor \<Rightarrow> bool" where
  "gives_up o1 \<longleftrightarrow> im_failures o1 \<le> idle_suspend_failures \<and> (im_failures o1 = idle_suspend_failures \<longleftrightarrow> im_disabled o1 \<noteq> [])"

definition same_count :: "idle_monitor \<Rightarrow> idle_monitor \<Rightarrow> bool" where
  "same_count o1 o2 \<longleftrightarrow> im_failures o2 = im_failures o1 \<and> im_disabled o2 = im_disabled o1"

lemma same_count_gives_up: "same_count o1 o2 \<Longrightarrow> gives_up o2 = gives_up o1"
  by (simp add: same_count_def gives_up_def)

lemma outcome_gives_up: "gives_up o1 \<Longrightarrow> im_disabled o1 = [] \<Longrightarrow> gives_up (auto_outcome name now r o1)"
  by (auto simp: gives_up_def auto_outcome_def idle_suspend_failures_def disabled_text_def Let_def split: sum.splits)

lemma auto_mon: "\<exists>r' o1. dm_mon (auto_suspend H name moves r now d) = auto_outcome name now r' o1 \<and> same_count (dm_mon d) o1"
proof (cases "begin_suspend (on_mon (\<lambda>o1. o1\<lparr>im_refusal := []\<rparr>) d)")
  case (Inl e)
  then have "dm_mon (auto_suspend H name moves r now d) = auto_outcome name now (Inl e) ((dm_mon d)\<lparr>im_refusal := []\<rparr>)"
    by (simp add: auto_suspend_def)
  then show ?thesis by (intro exI conjI) (assumption, simp add: same_count_def)
next
  case (Inr d2)
  then have "dm_mon d2 = (dm_mon d)\<lparr>im_refusal := []\<rparr>" using mon_begin [OF Inr] by simp
  then have "dm_mon (auto_suspend H name moves r now d) = auto_outcome name now (suspend_result r) ((dm_mon d)\<lparr>im_refusal := []\<rparr>)"
    using Inr by (simp add: auto_suspend_def)
  then show ?thesis by (intro exI conjI) (assumption, simp add: same_count_def)
qed

lemma probe_mon [simp]: "dm_mon (snd (probe_guest p d)) = dm_mon d"
  by (simp add: probe_guest_def probe_connected_def probe_failed_def split: option.splits probe_run.splits)

lemma sample_count: "same_count (dm_mon d) (dm_mon (tick_sample fmt t d))"
  by (simp add: tick_sample_def host_signals_def same_count_def Let_def split_beta split: option.splits)

lemma due_count: "same_count (dm_mon d) (dm_mon (snd (tick_due m u d)))"
  by (simp add: tick_due_def same_count_def Let_def split_beta)

lemma tick_gives_up: "gives_up (dm_mon d) \<Longrightarrow> gives_up (dm_mon (snd (idle_tick H fmt name t d)))"
proof (cases "ti_load t")
  case (Some m)
  assume g: "gives_up (dm_mon d)"
  let ?u = "unavailable_text name (ti_preflight t)"
  let ?d1 = "tick_sample fmt t d"
  let ?q = "tick_due m ?u ?d1"
  have g2: "gives_up (dm_mon (snd ?q))" using g same_count_gives_up sample_count due_count by metis
  obtain r' o1 where o1: "dm_mon (auto_suspend H name (ti_moves t) (ti_end t) (ti_after t) (write_idle_status (idle_period m) ?u (snd ?q))) =
      auto_outcome name (ti_after t) r' o1" "same_count (dm_mon (snd ?q)) o1"
    using auto_mon [of H name "ti_moves t" "ti_end t" "ti_after t" "write_idle_status (idle_period m) ?u (snd ?q)"] by auto
  have "im_disabled (dm_mon (snd ?q)) = []" if "fst ?q"
    using that by (auto simp: tick_due_def Let_def split_beta)
  then have "gives_up (auto_outcome name (ti_after t) r' o1)" if "fst ?q"
    using that o1(2) g2 same_count_gives_up [OF o1(2)] by (intro outcome_gives_up) (auto simp: same_count_def)
  with g2 o1(1) show ?thesis by (simp add: idle_tick_def Some Let_def split_beta)
qed (simp add: idle_tick_def)

lemma monitor_gives_up: "gives_up (dm_mon d) \<Longrightarrow> gives_up (dm_mon (snd (snd (monitor H fmt name t d))))"
proof -
  assume g: "gives_up (dm_mon d)"
  let ?d1 = "if im_active (dm_mon d) then d else enter_monitor (ti_now t) (ti_wall t) d"
  have "same_count (dm_mon d) (dm_mon ?d1)" by (simp add: same_count_def enter_monitor_def Let_def)
  then have g1: "gives_up (dm_mon ?d1)" using g same_count_gives_up by blast
  moreover have "same_count (dm_mon ?d1) (dm_mon (on_mon (\<lambda>o1. o1\<lparr>im_lastProbe := ti_now t\<rparr>) ?d1))" by (simp add: same_count_def)
  then have "gives_up (dm_mon (on_mon (\<lambda>o1. o1\<lparr>im_lastProbe := ti_now t\<rparr>) ?d1))" using g1 same_count_gives_up by blast
  from tick_gives_up [OF this] g1 show ?thesis by (simp only: monitor_def Let_def split_beta snd_conv split: if_split) blast
qed

lemma round_gives_up: "gives_up (dm_mon d) \<Longrightarrow> gives_up (dm_mon (round_step H fmt name r mode d))"
  by (simp add: round_step_def monitor_gives_up) (simp add: leave_monitor_def gives_up_def)

lemma loop_gives_up: "gives_up (dm_mon d) \<Longrightarrow> gives_up (dm_mon (snd (mode_loop H fmt name rs d)))"
proof (induction rs arbitrary: d)
  case (Cons r rs)
  obtain mode sp d1 where e: "evaluate H (ro_pass r) d = (mode, sp, d1)" by (cases "evaluate H (ro_pass r) d") auto
  have "gives_up (dm_mon d1)" using Cons.prems mon_evaluate [of H "ro_pass r" d] by (simp add: e)
  then have "gives_up (dm_mon (round_step H fmt name r mode d1))" by (rule round_gives_up)
  with \<open>gives_up (dm_mon d1)\<close> show ?case by (simp add: e Let_def Cons.IH)
qed simp

lemma tick_due_only:
  assumes "fst (idle_tick H fmt name t d)"
  shows "im_disabled (dm_mon d) = [] \<and> (\<exists>m. ti_load t = Some m \<and> 0 < idle_period m \<and> unavailable_text name (ti_preflight t) = [] \<and>
    threshold (im_tracker (dm_mon (tick_sample fmt t d))) (idle_period m) \<le> tk_idle (im_tracker (dm_mon (tick_sample fmt t d))))"
proof (cases "ti_load t")
  case (Some m)
  let ?d1 = "tick_sample fmt t d"
  have "fst (tick_due m (unavailable_text name (ti_preflight t)) ?d1)" using assms by (simp add: idle_tick_def Some Let_def split_beta split: if_splits)
  then have "0 < idle_period m" "unavailable_text name (ti_preflight t) = []" "im_disabled (dm_mon ?d1) = []"
    "threshold (im_tracker (dm_mon ?d1)) (idle_period m) \<le> tk_idle (im_tracker (dm_mon ?d1))"
    by (auto simp: tick_due_def due_def Let_def split_beta split: if_splits)
  then show ?thesis using Some sample_count [of d fmt t] by (auto simp: same_count_def)
qed (use assms in \<open>simp add: idle_tick_def\<close>)

text \<open>Fact (bounds): automatic suspends do not fail for ever: whatever the passes, ticks and suspends of a sleeper's life, no more than
  three automatic suspends in a row have failed, and once three have, no tick tries another.\<close>

theorem auto_suspend_gives_up:
  "let d = snd (mode_loop H fmt name rs (new_daemon files)) in
   im_failures (dm_mon d) \<le> 3 \<and> \<not> (im_failures (dm_mon d) = 3 \<and> fst (idle_tick H fmt name t d))"
proof -
  let ?d = "snd (mode_loop H fmt name rs (new_daemon files))"
  have "gives_up (dm_mon (new_daemon files))" by (simp add: gives_up_def new_daemon_def new_monitor_def idle_suspend_failures_def)
  then have "gives_up (dm_mon ?d)" by (rule loop_gives_up)
  then show ?thesis using tick_due_only [of H fmt name t ?d] by (auto simp: gives_up_def idle_suspend_failures_def Let_def)
qed

text \<open>C18 (safety): the idle timer suspends a machine only when it should: a tick that tries an automatic suspend has read the
  record, which asks for one after a positive period, found the machine suspendable and automatic suspend not turned
  off, and its tracker, after this sample, has reached the period times the flap penalty.\<close>

theorem auto_suspend_only_when_due:
  assumes "fst (idle_tick H fmt name t d)"
  shows "\<exists>m. ti_load t = Some m \<and> 0 < idle_period m \<and> unavailable_text name (ti_preflight t) = [] \<and> im_disabled (dm_mon d) = [] \<and>
    threshold (im_tracker (dm_mon (tick_sample fmt t d))) (idle_period m) \<le> tk_idle (im_tracker (dm_mon (tick_sample fmt t d)))"
  using tick_due_only [OF assms] by blast

definition demo_tick :: "machine option \<Rightarrow> tick" where
  "demo_tick m = \<lparr>ti_now = 0, ti_wall = 0, ti_load = m, ti_probe = \<lparr>pb_endpoint = None, pb_dial = None, pb_keepalive = None, pb_run = ProbeOk empty_sample\<rparr>,
     ti_baseline = 0, ti_mtime = 0, ti_cpu = None, ti_cpuNow = 0, ti_preflight = None, ti_moves = [], ti_end = Done 5 7 9, ti_after = 3\<rparr>"

definition demo_round :: round where
  "demo_round = \<lparr>ro_pass = demo_pass Stopped, ro_tick = demo_tick None, ro_moves = [], ro_done = False\<rparr>"

lemma demo_stops: "fst (mode_loop (\<lambda>_. []) (\<lambda>_. []) ''dev'' [demo_round, demo_round] (new_daemon Map.empty)) = MachineStopped"
  by code_simp

theorem sleeper_ends_only_when_stopped_witness:
  "\<exists>pre a mid b post. [demo_round, demo_round] = pre @ a # mid @ b # post \<and>
    pa_state (ro_pass a) = Some Stopped \<and> \<not> pa_journal (ro_pass a) \<and>
    pa_state (ro_pass b) = Some Stopped \<and> \<not> pa_journal (ro_pass b) \<and> pa_lock (ro_pass b) \<noteq> LockTaken"
  by (rule sleeper_ends_only_when_stopped [OF demo_stops])

definition demo_idle :: daemon where
  "demo_idle = on_mon (\<lambda>o1. o1\<lparr>im_tracker := new_tracker\<lparr>tk_idle := 10000000000000\<rparr>\<rparr>) (new_daemon Map.empty)"

lemma demo_due: "fst (idle_tick (\<lambda>_. []) (\<lambda>_. []) ''dev'' (demo_tick (Some machine_defaults)) demo_idle)"
  by code_simp

theorem auto_suspend_only_when_due_witness:
  "\<exists>m. ti_load (demo_tick (Some machine_defaults)) = Some m \<and> 0 < idle_period m \<and>
    unavailable_text ''dev'' (ti_preflight (demo_tick (Some machine_defaults))) = [] \<and> im_disabled (dm_mon demo_idle) = [] \<and>
    threshold (im_tracker (dm_mon (tick_sample (\<lambda>_. []) (demo_tick (Some machine_defaults)) demo_idle))) (idle_period m)
      \<le> tk_idle (im_tracker (dm_mon (tick_sample (\<lambda>_. []) (demo_tick (Some machine_defaults)) demo_idle)))"
  by (rule auto_suspend_only_when_due [OF demo_due])

end
