(* ===== verification/Cli_World.thy ===== *)
theory Cli_World
  imports Qemu_System Sleeper_Daemon
begin

text \<open>
  The world of the commands that change a machine's lifecycle (\<^verbatim>\<open>internal/cli\<close>): a backend, a network provider, the
  stand-in of the sleeper, and everything else a command asks (the lock, the store, the guest over ssh, the forwarder and
  the resolver). The backend is a record of operations on its own state \<open>'s\<close>, as the code has it as an interface
  (\<^verbatim>\<open>backend.Backend\<close> and \<^verbatim>\<open>backend.Suspender\<close>); its state holds the outer world, the stand-in and an arbitrary \<open>'e\<close>, which
  the backend's operations may move too. The rest answers as functions of \<open>'e\<close>. A command is a program of the state
  monad over the backend's state and a log of the calls made, with how each ended.
\<close>

section \<open>The outer world and the backend\<close>

record 'e out =
  o_sw :: sw
  o_env :: 'e

type_synonym ('s, 'a) op = "('s, 'a) state"

record ('s, 'e) bops =
  bo_out :: "'s \<Rightarrow> 'e out"
  bo_put :: "'e out \<Rightarrow> 's \<Rightarrow> 's"
  bo_name :: string
  bo_logs :: "string list"
  bo_suspender :: bool
  bo_canSuspend :: bool
  bo_journal :: "'s \<Rightarrow> bool"
  bo_state :: "machine \<Rightarrow> ('s, cerr + bstate) op"
  bo_suspendable :: "machine \<Rightarrow> ('s, string) op"
  bo_status :: "machine \<Rightarrow> ('s, cerr + suspend_status) op"
  bo_prepare :: "machine \<Rightarrow> suspend_plan \<Rightarrow> ('s, cerr option) op"
  bo_commit :: "machine \<Rightarrow> ('e out \<Rightarrow> bool \<times> 'e out) \<Rightarrow> ('s, cerr option) op"
  bo_cancel :: "machine \<Rightarrow> ('s, cerr option) op"
  bo_discard :: "machine \<Rightarrow> string \<Rightarrow> ('s, cerr option) op"
  bo_resume :: "machine \<Rightarrow> attachment \<Rightarrow> ('s, cerr option) op"
  bo_recover :: "machine \<Rightarrow> ('s, cerr + raction) op"
  bo_start :: "machine \<Rightarrow> attachment \<Rightarrow> ('s, cerr option) op"
  bo_stop :: "machine \<Rightarrow> bool \<Rightarrow> ('s, cerr option) op"

section \<open>Calls\<close>

text \<open>The calls that change something, as the log names them. The log also records what a command learned: the machine's state
  when it was computed (\<open>Saw\<close>) and what a recovery did (\<open>Rec\<close>).\<close>

datatype call =
    KLock | KUnlock | KSave
  | KPrepare | KCommit | KCancel | KDiscard | KResume | KRecover | KStart | KStop bool
  | KProvStart | KProvStop | KPark | KStartAPI | KStopAPI
  | KStartForwarder | KStopForwarder | KStartResolver | KStopResolver | KStartSleeper | KStopSleeper
  | KDial | KCloseClient | KQuiesce | KRemount | KPoweroff | KPostResume | KGuestDNS
  | KVerifyDNS | KActivity | KTell string | KStage string

datatype act = Did call "ekind option" | Sd sev | Saw bstate | Rec raction

record 's cw =
  c_st :: 's
  c_log :: "act list"

text \<open>The record, as the store gives it: missing, unreadable or read.\<close>

datatype loaded = LoadGone string | LoadBad string | Loaded machine

text \<open>What answers besides the backend. \<open>x_call\<close> answers the calls that only succeed (\<open>None\<close>) or fail.\<close>

record 'e ext =
  x_supervised :: bool
  x_forwards :: bool
  x_human :: "int \<Rightarrow> string"
  x_provName :: string
  x_logs :: "string list"
  x_call :: "call \<Rightarrow> 'e \<Rightarrow> string option \<times> 'e"
  x_lock :: "'e \<Rightarrow> (string + bool) \<times> 'e"
  x_load :: "'e \<Rightarrow> loaded \<times> 'e"
  x_provState :: "'e \<Rightarrow> (string + bstate) \<times> 'e"
  x_endpoint :: "'e \<Rightarrow> (string + endpoint) \<times> 'e"
  x_provStart :: "'e \<Rightarrow> (string + attachment \<times> endpoint) \<times> 'e"
  x_resolver :: "'e \<Rightarrow> (string + int) \<times> 'e"
  x_resolverPort :: "'e \<Rightarrow> int \<times> 'e"
  x_free :: "'e \<Rightarrow> (string + int) \<times> 'e"
  x_probe :: "'e \<Rightarrow> (string + sample) \<times> 'e"
  x_baseline :: "'e \<Rightarrow> int \<times> 'e"
  x_quiesce :: "bool \<Rightarrow> 'e \<Rightarrow> (string + string \<times> int) \<times> 'e"
  x_moves :: "'e \<Rightarrow> sev list \<times> 'e"
  x_take :: "'e \<Rightarrow> (take_ans \<times> (kind \<times> int) list) \<times> 'e"
  x_restore :: "'e \<Rightarrow> (bool \<times> bool) \<times> 'e"
  x_listen :: "'e \<Rightarrow> (string option \<times> (kind \<times> int) list) \<times> 'e"
  x_dials :: "'e \<Rightarrow> ((held \<Rightarrow> bool) \<times> (kind \<times> int) list) \<times> 'e"
  x_late :: "'e \<Rightarrow> bool \<times> 'e"
  x_engine :: "'e \<Rightarrow> bool \<times> 'e"
  x_getpid :: "'e \<Rightarrow> int \<times> 'e"
  x_elapsed :: "'e \<Rightarrow> int \<times> 'e"
  x_tell :: "string \<Rightarrow> 'e \<Rightarrow> string option \<times> 'e"
  x_race :: "'e \<Rightarrow> bool \<times> 'e"
  x_mtu :: int
  x_parseIP :: "string \<Rightarrow> string option"
  x_publish :: "'e \<Rightarrow> string option \<times> 'e"
  x_run :: "string \<Rightarrow> 'e \<Rightarrow> (string + string) \<times> 'e"
  x_exists :: "string \<Rightarrow> 'e \<Rightarrow> (string + bool) \<times> 'e"
  x_holds :: "string \<Rightarrow> 'e \<Rightarrow> bool \<times> 'e"

type_synonym ('s, 'a) cm = "('s cw, 'a) state"

definition log_entry :: "act \<Rightarrow> ('s, unit) cm" where
  "log_entry e = State (\<lambda>w. ((), w\<lparr>c_log := c_log w @ [e]\<rparr>))"

definition look :: "('s \<Rightarrow> 'a) \<Rightarrow> ('s, 'a) cm" where
  "look f = State (\<lambda>w. (f (c_st w), w))"

text \<open>An operation of the backend.\<close>

definition backend :: "('s, 'a) op \<Rightarrow> ('s, 'a) cm" where
  "backend p = State (\<lambda>w. case run_state p (c_st w) of (x, s) \<Rightarrow> (x, w\<lparr>c_st := s\<rparr>))"

text \<open>A question to the rest of the world.\<close>

definition ask :: "('s, 'e) bops \<Rightarrow> ('e \<Rightarrow> 'a \<times> 'e) \<Rightarrow> ('s, 'a) cm" where
  "ask B f = State (\<lambda>w. let o1 = bo_out B (c_st w) in
     case f (o_env o1) of (x, e) \<Rightarrow> (x, w\<lparr>c_st := bo_put B (o1\<lparr>o_env := e\<rparr>) (c_st w)\<rparr>))"

text \<open>The stand-in moves: connections arrive, timers fire, other processes change the directory; never its window.\<close>

definition on_standin :: "('s, 'e) bops \<Rightarrow> (sw \<Rightarrow> 'a \<times> sw) \<Rightarrow> ('s, 'a) cm" where
  "on_standin B f = State (\<lambda>w. let o1 = bo_out B (c_st w) in
     case f (o_sw o1) of (x, s) \<Rightarrow> (x, w\<lparr>c_st := bo_put B (o1\<lparr>o_sw := s\<rparr>) (c_st w)\<rparr>))"

definition drift :: "('s, 'e) bops \<Rightarrow> 'e ext \<Rightarrow> (string \<Rightarrow> string) \<Rightarrow> ('s, unit) cm" where
  "drift B X H = do {
     es \<leftarrow> ask B (x_moves X);
     on_standin B (\<lambda>w. ((), run_steps (sd_step H) w (filter window_event es))) }"

text \<open>A method of the stand-in, after what moved meanwhile, with its log entry.\<close>

definition standin_op :: "('s, 'e) bops \<Rightarrow> 'e ext \<Rightarrow> (string \<Rightarrow> string) \<Rightarrow> sev \<Rightarrow> (sw \<Rightarrow> 'a \<times> sw) \<Rightarrow> ('s, 'a) cm" where
  "standin_op B X H e f = do { drift B X H; x \<leftarrow> on_standin B f; log_entry (Sd e); State_Monad.return x }"

definition sd_do :: "('s, 'e) bops \<Rightarrow> 'e ext \<Rightarrow> (string \<Rightarrow> string) \<Rightarrow> sev \<Rightarrow> ('s, unit) cm" where
  "sd_do B X H e = standin_op B X H e (\<lambda>w. ((), sd_step H w e))"

definition kind_of :: "cerr option \<Rightarrow> ekind option" where
  "kind_of r = map_option ce_kind r"

text \<open>A call that only succeeds or fails.\<close>

definition call :: "('s, 'e) bops \<Rightarrow> 'e ext \<Rightarrow> call \<Rightarrow> ('s, string option) cm" where
  "call B X c = do { r \<leftarrow> ask B (x_call X c); log_entry (Did c (map_option (\<lambda>_. KOther) r)); State_Monad.return r }"

definition backend_call :: "call \<Rightarrow> ('s, cerr option) op \<Rightarrow> ('s, cerr option) cm" where
  "backend_call c p = do { r \<leftarrow> backend p; log_entry (Did c (kind_of r)); State_Monad.return r }"

definition journal_there :: "('s, 'e) bops \<Rightarrow> ('s, bool) cm" where
  "journal_there B = look (bo_journal B)"

text \<open>A way back that always reports an error.\<close>

definition failing :: "('s, cerr) cm \<Rightarrow> ('s, cerr option) cm" where
  "failing p = do { x \<leftarrow> p; State_Monad.return (Some x) }"

definition logs_hint :: "string list \<Rightarrow> string \<Rightarrow> string" where
  "logs_hint logs component =
     (if logs = [] then ''no logs available on '' @ component else ''see '' @ join '' and '' logs)"

definition console_hint :: "('s, 'e) bops \<Rightarrow> string" where
  "console_hint B = logs_hint (bo_logs B) (bo_name B)"

definition network_hint :: "'e ext \<Rightarrow> string" where
  "network_hint X = logs_hint (x_logs X) (x_provName X)"

definition wrap_err :: "string \<Rightarrow> cerr \<Rightarrow> cerr" where
  "wrap_err t e = e\<lparr>ce_msg := t @ ce_msg e\<rparr>"

section \<open>The machine's state\<close>

text \<open>\<^verbatim>\<open>stateOf\<close>: the backend's, then the provider's.\<close>

definition machine_state :: "('s, 'e) bops \<Rightarrow> 'e ext \<Rightarrow> machine \<Rightarrow> ('s, cerr + bstate) cm" where
  "machine_state B X m = do {
     bs \<leftarrow> backend (bo_state B m);
     case bs of
       Inl e \<Rightarrow> State_Monad.return (Inl e)
     | Inr b \<Rightarrow> do {
         ps \<leftarrow> ask B (x_provState X);
         case ps of
           Inl t \<Rightarrow> State_Monad.return (Inl (plain_err t))
         | Inr p \<Rightarrow> do {
             log_entry (Saw (combine_state b p (x_supervised X)));
             State_Monad.return (Inr (combine_state b p (x_supervised X))) } } }"

section \<open>Recovery\<close>

text \<open>\<^verbatim>\<open>recoverInterruptedTransition\<close>.\<close>

definition recover_transition :: "('s, 'e) bops \<Rightarrow> 'e ext \<Rightarrow> machine \<Rightarrow> ('s, cerr + raction) cm" where
  "recover_transition B X m =
     (if \<not> bo_suspender B \<or> mc_dir m = [] then do { log_entry (Rec RNone); State_Monad.return (Inr RNone) }
      else do {
        r \<leftarrow> backend (bo_recover B m);
        log_entry (Did KRecover (case r of Inl e \<Rightarrow> Some (ce_kind e) | Inr _ \<Rightarrow> None));
        case r of
          Inl e \<Rightarrow> State_Monad.return (Inl (with_hint (wrap_err (''resolving an interrupted suspend or wake of '' @ mc_name m @ '': '') e) (console_hint B)))
        | Inr a \<Rightarrow> do {
            (if a = RSuspended \<or> a = RDiscarded
             then do { _ \<leftarrow> call B X KPark; _ \<leftarrow> call B X KStopResolver; State_Monad.return () }
             else State_Monad.return ());
            log_entry (Rec a);
            State_Monad.return (Inr a) } })"

section \<open>Protocols\<close>

text \<open>
  A protocol is an automaton over the calls; \<open>path D q p T\<close>: started in phase \<open>q\<close>, the calls \<open>p\<close> makes lead to a phase
  that \<open>T\<close> allows for its result, whatever the rest of the world answers.
\<close>

definition path :: "('q \<Rightarrow> act \<Rightarrow> 'q) \<Rightarrow> 'q \<Rightarrow> ('s, 'a) cm \<Rightarrow> ('a \<Rightarrow> 'q \<Rightarrow> bool) \<Rightarrow> bool" where
  "path D q p T \<longleftrightarrow>
     (\<forall>w. \<exists>es. c_log (snd (run_state p w)) = c_log w @ es \<and> T (fst (run_state p w)) (foldl D q es))"

lemma path_silent:
  "(\<And>w. c_log (snd (run_state p w)) = c_log w) \<Longrightarrow> (\<And>w. T (fst (run_state p w)) q) \<Longrightarrow> path D q p T"
  unfolding path_def by (intro allI exI [of _ "[]"]) simp

lemma path_ret: "T x q \<Longrightarrow> path D q (State_Monad.return x) T"
  by (rule path_silent) (simp_all add: State_Monad.return_def)

lemma path_bind:
  assumes "path D q p S" and "\<And>x q'. S x q' \<Longrightarrow> path D q' (f x) T"
  shows "path D q (State_Monad.bind p f) T"
  unfolding path_def
proof
  fix w
  obtain es where es: "c_log (snd (run_state p w)) = c_log w @ es" "S (fst (run_state p w)) (foldl D q es)"
    using assms(1) unfolding path_def by blast
  obtain fs where "c_log (snd (run_state (f (fst (run_state p w))) (snd (run_state p w)))) = c_log (snd (run_state p w)) @ fs"
    "T (fst (run_state (f (fst (run_state p w))) (snd (run_state p w)))) (foldl D (foldl D q es) fs)"
    using assms(2) [OF es(2)] unfolding path_def by blast
  then show "\<exists>es. c_log (snd (run_state (State_Monad.bind p f) w)) = c_log w @ es \<and>
      T (fst (run_state (State_Monad.bind p f) w)) (foldl D q es)"
    using es(1) by (intro exI [of _ "es @ fs"]) (simp add: State_Monad.bind_def split_beta)
qed

lemma path_weaken: "path D q p S \<Longrightarrow> (\<And>x q'. S x q' \<Longrightarrow> T x q') \<Longrightarrow> path D q p T"
  unfolding path_def by blast

lemma path_then: "path D q p (\<lambda>x q'. path D q' (f x) T) \<Longrightarrow> path D q (State_Monad.bind p f) T"
  by (erule path_bind)

lemma path_if: "(b \<Longrightarrow> path D q p T) \<Longrightarrow> (\<not> b \<Longrightarrow> path D q p' T) \<Longrightarrow> path D q (if b then p else p') T"
  by simp

lemma path_option:
  "(x = None \<Longrightarrow> path D q p T) \<Longrightarrow> (\<And>y. x = Some y \<Longrightarrow> path D q (f y) T) \<Longrightarrow>
   path D q (case x of None \<Rightarrow> p | Some y \<Rightarrow> f y) T"
  by (cases x) auto

lemma path_sum:
  "(\<And>e. x = Inl e \<Longrightarrow> path D q (g e) T) \<Longrightarrow> (\<And>y. x = Inr y \<Longrightarrow> path D q (f y) T) \<Longrightarrow>
   path D q (case x of Inl e \<Rightarrow> g e | Inr y \<Rightarrow> f y) T"
  by (cases x) auto

lemma path_prod: "(\<And>a b. x = (a, b) \<Longrightarrow> path D q (f a b) T) \<Longrightarrow> path D q (case x of (a, b) \<Rightarrow> f a b) T"
  by (cases x) auto

lemma path_failing: "path D q p (\<lambda>x. T (Some x)) \<Longrightarrow> path D q (failing p) T"
  unfolding failing_def by (erule path_bind) (rule path_ret)

lemma path_log: "T () (D q e) \<Longrightarrow> path D q (log_entry e) T"
  unfolding path_def log_entry_def by (intro allI exI [of _ "[e]"]) simp

lemma path_look: "(\<And>x. T x q) \<Longrightarrow> path D q (look f) T"
  by (rule path_silent) (simp_all add: look_def)

lemma path_backend: "(\<And>x. T x q) \<Longrightarrow> path D q (backend p) T"
  by (rule path_silent) (simp_all add: backend_def split_beta)

lemma path_journal: "(\<And>x. T x q) \<Longrightarrow> path D q (journal_there B) T"
  unfolding journal_there_def by (rule path_look)

lemma path_ask_of: "(\<And>e. T (fst (f e)) q) \<Longrightarrow> path D q (ask B f) T"
  by (rule path_silent) (simp_all add: ask_def Let_def split_beta)

lemma path_ask: "(\<And>x. T x q) \<Longrightarrow> path D q (ask B f) T"
  by (rule path_ask_of)

lemma path_on_standin: "(\<And>x. T x q) \<Longrightarrow> path D q (on_standin B f) T"
  by (rule path_silent) (simp_all add: on_standin_def Let_def split_beta)

lemma path_drift: "T () q \<Longrightarrow> path D q (drift B X H) T"
  unfolding drift_def by (rule path_bind [OF path_ask [of "\<lambda>_ q'. q' = q"]]) (simp_all add: path_on_standin)

lemma path_standin_op: "(\<And>x. T x (D q (Sd e))) \<Longrightarrow> path D q (standin_op B X H e f) T"
  unfolding standin_op_def
  by (rule path_bind [OF path_drift [of "\<lambda>_ q'. q' = q"]], simp, rule path_bind [OF path_on_standin [of "\<lambda>_ q'. q' = q"]], simp,
      rule path_bind [OF path_log [of "\<lambda>_ q'. q' = D q (Sd e)"]], simp) (simp add: path_ret)

lemma path_sd_do: "T () (D q (Sd e)) \<Longrightarrow> path D q (sd_do B X H e) T"
  unfolding sd_do_def by (rule path_standin_op) simp

lemma path_call:
  assumes "T None (D q (Did c None))" and "\<And>t. T (Some t) (D q (Did c (Some KOther)))"
  shows "path D q (call B X c) T"
  unfolding call_def
proof (rule path_bind [OF path_ask [of "\<lambda>_ q'. q' = q"]])
  fix r q' assume "q' = q"
  moreover have "T r (D q (Did c (map_option (\<lambda>_. KOther) r)))" using assms by (cases r) auto
  ultimately show "path D q' (log_entry (Did c (map_option (\<lambda>_. KOther) r)) \<bind> (\<lambda>_. State_Monad.return r)) T"
    by (intro path_bind [OF path_log [of "\<lambda>_ q'. q' = D q (Did c (map_option (\<lambda>_. KOther) r))"]]) (simp_all add: path_ret)
qed simp

lemma path_backend_call:
  assumes "\<And>r. T r (D q (Did c (kind_of r)))"
  shows "path D q (backend_call c p) T"
  unfolding backend_call_def
proof (rule path_bind [OF path_backend [of "\<lambda>_ q'. q' = q"]])
  fix r q' assume "q' = q"
  then show "path D q' (log_entry (Did c (kind_of r)) \<bind> (\<lambda>_. State_Monad.return r)) T"
    by (intro path_bind [OF path_log [of "\<lambda>_ q'. q' = D q (Did c (kind_of r))"]]) (simp_all add: path_ret assms)
qed simp

lemmas path_rules = path_then path_ret path_if path_option path_sum path_prod path_log path_backend path_journal path_ask path_drift
  path_on_standin path_standin_op path_sd_do path_call path_backend_call path_failing

lemma path_run: "path D q p T \<Longrightarrow> run_state p w = (x, w') \<Longrightarrow> c_log w = [] \<Longrightarrow> T x (foldl D q (c_log w'))"
  unfolding path_def by (metis append_Nil fst_conv snd_conv)

lemma path_state:
  "(\<And>e. T (Inl e) q) \<Longrightarrow> (\<And>s. T (Inr s) (D q (Saw s))) \<Longrightarrow> path D q (machine_state B X m) T"
  unfolding machine_state_def by (auto intro!: path_rules)

section \<open>A world where every call succeeds\<close>

text \<open>A backend whose state is a phase (0 running, 1 prepared, 2 saved), and a world where every call succeeds.\<close>

definition demo_bops :: "(unit out \<times> nat, unit) bops" where
  "demo_bops = \<lparr>bo_out = fst, bo_put = (\<lambda>o1 s. (o1, snd s)), bo_name = ''demo'', bo_logs = [], bo_suspender = True,
     bo_canSuspend = True, bo_journal = (\<lambda>s. snd s > 0),
     bo_state = (\<lambda>m. State (\<lambda>s. (Inr (if snd s < 2 then Running else Suspended), s))),
     bo_suspendable = (\<lambda>m. State_Monad.return []),
     bo_status = (\<lambda>m. State (\<lambda>s. (Inr (if snd s = 2 then no_suspend\<lparr>su_phase := saved\<rparr> else no_suspend), s))),
     bo_prepare = (\<lambda>m p. State (\<lambda>s. (None, (fst s, 1)))),
     bo_commit = (\<lambda>m f. State (\<lambda>s. case f (fst s) of (go, o1) \<Rightarrow>
        if go then (None, (o1, 2)) else (Some (refuse KAborted ''aborted''), (o1, 1)))),
     bo_cancel = (\<lambda>m. State (\<lambda>s. (None, (fst s, 0)))),
     bo_discard = (\<lambda>m r. State (\<lambda>s. (None, (fst s, 0)))),
     bo_resume = (\<lambda>m n. State (\<lambda>s. (None, (fst s, 0)))),
     bo_recover = (\<lambda>m. State_Monad.return (Inr RNone)),
     bo_start = (\<lambda>m n. State_Monad.return None),
     bo_stop = (\<lambda>m g. State_Monad.return None)\<rparr>"

definition demo_endpoint :: endpoint where
  "demo_endpoint = \<lparr>ep_api = ''/m/podman.sock'', ep_sshHost = ''127.0.0.1'', ep_sshPort = 2222,
     ep_guestIP = ''192.168.127.2'', ep_hostAlias = ''192.168.127.254''\<rparr>"

definition demo_ext :: "unit ext" where
  "demo_ext = \<lparr>x_supervised = True, x_forwards = True, x_human = itoa, x_provName = ''gvproxy'', x_logs = [],
     x_call = (\<lambda>c e. (None, e)), x_lock = (\<lambda>e. (Inr True, e)), x_load = (\<lambda>e. (Loaded (machine_defaults\<lparr>mc_dir := ''/m''\<rparr>), e)),
     x_provState = (\<lambda>e. (Inr Running, e)), x_endpoint = (\<lambda>e. (Inr demo_endpoint, e)),
     x_provStart = (\<lambda>e. (Inl ''unused'', e)), x_resolver = (\<lambda>e. (Inr 53, e)), x_resolverPort = (\<lambda>e. (53, e)),
     x_free = (\<lambda>e. (Inr (2 ^ 40), e)), x_probe = (\<lambda>e. (Inr empty_sample, e)), x_baseline = (\<lambda>e. (0, e)),
     x_quiesce = (\<lambda>f e. (Inr (''ok'', 0), e)), x_moves = (\<lambda>e. ([], e)),
     x_take = (\<lambda>e. ((\<lparr>ta_listen = Inr 7, ta_chmod = None, ta_seen = True, ta_link = True, ta_rename = None\<rparr>, []), e)),
     x_restore = (\<lambda>e. ((True, True), e)), x_listen = (\<lambda>e. ((None, []), e)), x_dials = (\<lambda>e. ((\<lambda>_. True, []), e)),
     x_late = (\<lambda>e. (False, e)), x_engine = (\<lambda>e. (True, e)), x_getpid = (\<lambda>e. (9, e)), x_elapsed = (\<lambda>e. (0, e)),
     x_tell = (\<lambda>l e. (Some ''ok'', e)), x_race = (\<lambda>e. (False, e)), x_mtu = 1500, x_parseIP = Some, x_publish = (\<lambda>e. (None, e)),
     x_run = (\<lambda>c e. (Inr [], e)), x_exists = (\<lambda>f e. (Inr True, e)), x_holds = (\<lambda>f e. (True, e))\<rparr>"

end
