(* ===== verification/Cli_Suspend.thy ===== *)
theory Cli_Suspend
  imports Cli_World
begin

text \<open>
  The suspend of a machine (\<^verbatim>\<open>internal/cli/suspend.go\<close>): the preflight, steps S1 to S17 as the code orders them, and the
  three ways back: R-A (the guest runs), R-B (through recovery) and R-C (the hypervisor died). Progress lines and warnings
  are left out; the texts of errors are the code's.
\<close>

section \<open>Options and the preflight\<close>

record suspend_opts =
  so_reason :: string
  so_manual :: bool
  so_force :: bool

definition suspend_spare_mib :: int where "suspend_spare_mib = 2048"

text \<open>\<^verbatim>\<open>uint64(m.MemoryMiB+suspendSpareMiB) << 20\<close>.\<close>

definition needed_bytes :: "int \<Rightarrow> int" where
  "needed_bytes memoryMiB = take_bit 64 ((memoryMiB + suspend_spare_mib) * 2 ^ 20)"

definition cannot_suspend :: "machine \<Rightarrow> string \<Rightarrow> cerr" where
  "cannot_suspend m t = refuse KUnavailable (''cannot suspend '' @ mc_name m @ '': '' @ t)"

definition suspend_preflight :: "('s, 'e) bops \<Rightarrow> 'e ext \<Rightarrow> machine \<Rightarrow> ('s, cerr option) cm" where
  "suspend_preflight B X m =
     (if \<not> bo_suspender B \<or> \<not> bo_canSuspend B
      then State_Monad.return (Some (cannot_suspend m (''backend '' @ quote (bo_name B) @ '' cannot save a running machine'')))
      else if \<not> x_forwards X \<or> \<not> x_supervised X
      then State_Monad.return (Some (cannot_suspend m (''network provider '' @ quote (x_provName X) @ '' cannot be stopped and started around a suspend'')))
      else do {
        reason \<leftarrow> backend (bo_suspendable B m);
        if reason \<noteq> [] then State_Monad.return (Some (cannot_suspend m reason))
        else do {
          f \<leftarrow> ask B (x_free X);
          State_Monad.return (case f of
            Inl t \<Rightarrow> Some (cannot_suspend m (''checking free space: '' @ t))
          | Inr avail \<Rightarrow>
              (if avail < needed_bytes (mc_memoryMiB m)
               then Some (cannot_suspend m (''need '' @ x_human X (needed_bytes (mc_memoryMiB m)) @ '' free on the volume holding '' @ mc_dir m @
                      '', have '' @ x_human X avail))
               else None)) } })"

section \<open>The stand-in's part\<close>

definition aborted_now :: "('s, 'e) bops \<Rightarrow> 'e ext \<Rightarrow> (string \<Rightarrow> string) \<Rightarrow> ('s, bool) cm" where
  "aborted_now B X H = do { drift B X H; on_standin B (\<lambda>w. (sd_aborted (sw_st w), w)) }"

definition take_socket :: "('s, 'e) bops \<Rightarrow> 'e ext \<Rightarrow> (string \<Rightarrow> string) \<Rightarrow> string \<Rightarrow> ('s, string option) cm" where
  "take_socket B X H p = do {
     (a, late) \<leftarrow> ask B (x_take X);
     standin_op B X H (EvTakeUnix a late p True) (take_unix H a late p True) }"

definition restore_socket :: "('s, 'e) bops \<Rightarrow> 'e ext \<Rightarrow> (string \<Rightarrow> string) \<Rightarrow> ('s, unit) cm" where
  "restore_socket B X H = do { (a, b) \<leftarrow> ask B (x_restore X); sd_do B X H (EvRestore a b) }"

definition relay_clients :: "('s, 'e) bops \<Rightarrow> 'e ext \<Rightarrow> (string \<Rightarrow> string) \<Rightarrow> ('s, unit) cm" where
  "relay_clients B X H = do { (d, late) \<leftarrow> ask B (x_dials X); sd_do B X H (EvHandOver d late) }"

text \<open>The last check, as the backend runs it: on the outer world, after what moved until then.\<close>

definition freeze_hook :: "'e ext \<Rightarrow> (string \<Rightarrow> string) \<Rightarrow> 'e out \<Rightarrow> bool \<times> 'e out" where
  "freeze_hook X H o1 =
     (case x_moves X (o_env o1) of (es, e) \<Rightarrow>
        let w = run_steps (sd_step H) (o_sw o1) (filter window_event es) in
        (fst (check_and_freeze (sw_st w)), o1\<lparr>o_sw := sd_step H w EvFreeze, o_env := e\<rparr>))"

text \<open>\<^verbatim>\<open>takeTCPWithin\<close>: \<open>n\<close> is the number of turns its timeout leaves.\<close>

definition try_port :: "('s, 'e) bops \<Rightarrow> 'e ext \<Rightarrow> (string \<Rightarrow> string) \<Rightarrow> string \<Rightarrow> ('s, string option) cm" where
  "try_port B X H addr = do {
     (l, late) \<leftarrow> ask B (x_listen X);
     standin_op B X H (EvTakeTcp l late addr) (take_tcp l late addr) }"

fun take_tcp_within :: "nat \<Rightarrow> ('s, 'e) bops \<Rightarrow> 'e ext \<Rightarrow> (string \<Rightarrow> string) \<Rightarrow> string \<Rightarrow> ('s, string option) cm" where
  "take_tcp_within 0 B X H addr = try_port B X H addr"
| "take_tcp_within (Suc k) B X H addr = do {
     r \<leftarrow> try_port B X H addr;
     case r of
       None \<Rightarrow> State_Monad.return None
     | Some t \<Rightarrow> do {
         q \<leftarrow> ask B (x_late X);
         if q then State_Monad.return (Some t) else take_tcp_within k B X H addr } }"

definition take_tcp_turns :: nat where "take_tcp_turns = polls 5000 50"

section \<open>The ways back\<close>

definition join_errors :: "cerr \<Rightarrow> cerr \<Rightarrow> cerr" where
  "join_errors a b = a\<lparr>ce_msg := ce_msg a @ [CHR 0x0A] @ ce_msg b\<rparr>"

text \<open>R-A. \<open>client\<close>: the session to the guest is still open; \<open>stopped\<close>: S8 has stopped the engine socket's forward.\<close>

definition remount_shares :: "('s, 'e) bops \<Rightarrow> 'e ext \<Rightarrow> bool \<Rightarrow> ('s, unit) cm" where
  "remount_shares B X client = do {
     c \<leftarrow> (if client then State_Monad.return None else call B X KDial);
     case c of None \<Rightarrow> do { _ \<leftarrow> call B X KRemount; State_Monad.return () } | Some _ \<Rightarrow> State_Monad.return () }"

definition forward_back :: "('s, 'e) bops \<Rightarrow> 'e ext \<Rightarrow> (string \<Rightarrow> string) \<Rightarrow> endpoint \<Rightarrow> bool \<Rightarrow> ('s, unit) cm" where
  "forward_back B X H ep stopped =
     (if ep_api ep \<noteq> []
      then do {
        (if \<not> stopped then restore_socket B X H else State_Monad.return ());
        _ \<leftarrow> call B X KStartAPI;
        State_Monad.return () }
      else State_Monad.return ())"

definition guest_running :: "('s, 'e) bops \<Rightarrow> 'e ext \<Rightarrow> (string \<Rightarrow> string) \<Rightarrow> machine \<Rightarrow> endpoint \<Rightarrow> bool \<Rightarrow> bool \<Rightarrow> cerr \<Rightarrow> ('s, cerr) cm" where
  "guest_running B X H m ep client stopped cause = do {
     remount_shares B X client;
     r \<leftarrow> backend_call KCancel (bo_cancel B m);
     case r of
       Some e \<Rightarrow> State_Monad.return (join_errors cause (wrap_err ''removing the suspend journal: '' e))
     | None \<Rightarrow> do {
         forward_back B X H ep stopped;
         sd_do B X H EvDisarm;
         relay_clients B X H;
         _ \<leftarrow> call B X KStartForwarder;
         State_Monad.return cause } }"

text \<open>R-C.\<close>

definition start_hint :: "machine \<Rightarrow> string \<Rightarrow> string" where
  "start_hint m t = CHR 0x27 # ''jm start'' @ name_hint (mc_name m) @ CHR 0x27 # t"

definition hypervisor_died :: "('s, 'e) bops \<Rightarrow> 'e ext \<Rightarrow> (string \<Rightarrow> string) \<Rightarrow> machine \<Rightarrow> cerr \<Rightarrow> ('s, cerr) cm" where
  "hypervisor_died B X H m cause = do {
     _ \<leftarrow> backend_call KDiscard (bo_discard B m ''hypervisor exited while suspending'');
     sd_do B X H EvDisarm;
     sd_do B X H EvCloseHeld;
     _ \<leftarrow> call B X KPark;
     _ \<leftarrow> call B X KStopResolver;
     State_Monad.return (with_hint (wrap_err (''hypervisor exited while suspending '' @ mc_name m @
         ''; the disk is consistent as of the pre-freeze sync: '') cause) (start_hint m '' boots it'')) }"

definition was_saved :: "cerr + suspend_status \<Rightarrow> bool" where
  "was_saved st = (case st of Inl _ \<Rightarrow> False | Inr s \<Rightarrow> su_phase s = saved)"

text \<open>R-B.\<close>

definition recover_then_back :: "('s, 'e) bops \<Rightarrow> 'e ext \<Rightarrow> (string \<Rightarrow> string) \<Rightarrow> machine \<Rightarrow> endpoint \<Rightarrow> cerr \<Rightarrow> ('s, cerr) cm" where
  "recover_then_back B X H m ep e = do {
     r \<leftarrow> backend (bo_recover B m);
     log_entry (Did KRecover (case r of Inl x \<Rightarrow> Some (ce_kind x) | Inr _ \<Rightarrow> None));
     case r of
       Inl x \<Rightarrow> State_Monad.return (with_hint
           (e\<lparr>ce_msg := ''suspending '' @ mc_name m @ '' failed ('' @ ce_msg e @ '') and the guest could not be put back: '' @ ce_msg x\<rparr>)
           (start_hint m '' resolves the interrupted suspend; '' @ console_hint B))
     | Inr _ \<Rightarrow> guest_running B X H m ep False True
           (wrap_err (''suspending '' @ mc_name m @ '' failed; it is running again: '') e) }"

definition aborted_err :: "machine \<Rightarrow> cerr" where
  "aborted_err m = refuse KAborted (''suspend of '' @ mc_name m @ '' cancelled: a client arrived'')"

definition blocked_text :: string where "blocked_text = ''backend: suspend blocked''"
definition unavailable_sentinel :: string where "unavailable_sentinel = ''backend: suspend unavailable''"

definition back_by_kind :: "('s, 'e) bops \<Rightarrow> 'e ext \<Rightarrow> (string \<Rightarrow> string) \<Rightarrow> machine \<Rightarrow> endpoint \<Rightarrow> cerr \<Rightarrow> ('s, cerr) cm" where
  "back_by_kind B X H m ep e =
     (if ce_kind e = KBlocked
      then guest_running B X H m ep False True
             (refuse KBlocked (''cannot suspend '' @ mc_name m @ '': the hypervisor refuses to save it: '' @ detail e [blocked_text]))
      else if ce_kind e = KAborted then guest_running B X H m ep False True (aborted_err m)
      else if ce_kind e = KUnavailable
      then guest_running B X H m ep False True (cannot_suspend m (detail e [unavailable_sentinel]))
      else recover_then_back B X H m ep e)"

text \<open>\<open>None\<close>: the state was committed all the same.\<close>

definition after_commit_error :: "('s, 'e) bops \<Rightarrow> 'e ext \<Rightarrow> (string \<Rightarrow> string) \<Rightarrow> machine \<Rightarrow> endpoint \<Rightarrow> cerr \<Rightarrow> ('s, cerr option) cm" where
  "after_commit_error B X H m ep e = do {
     st \<leftarrow> backend (bo_status B m);
     if was_saved st then State_Monad.return None
     else do {
       bs \<leftarrow> backend (bo_state B m);
       if ce_kind e = KCrashed \<or> bs \<noteq> Inr Running
       then failing (hypervisor_died B X H m e)
       else (case st of
               Inl x \<Rightarrow> State_Monad.return (Some (with_hint
                   (e\<lparr>ce_msg := ''suspending '' @ mc_name m @ '': '' @ ce_msg e @ '' (the journal cannot be read: '' @ ce_msg x @ '')''\<rparr>)
                   (start_hint m '' resolves the interrupted suspend'')))
             | Inr _ \<Rightarrow> failing (back_by_kind B X H m ep e)) } }"

section \<open>Steps\<close>

text \<open>S15 to S17.\<close>

definition suspend_finish :: "('s, 'e) bops \<Rightarrow> 'e ext \<Rightarrow> (string \<Rightarrow> string) \<Rightarrow> endpoint \<Rightarrow> ('s, unit) cm" where
  "suspend_finish B X H ep = do {
     _ \<leftarrow> call B X KPark;
     _ \<leftarrow> call B X KStopResolver;
     _ \<leftarrow> take_tcp_within take_tcp_turns B X H (ssh_addr ep);
     State_Monad.return () }"

text \<open>S10 to S14, and the rest.\<close>

definition suspend_commit :: "('s, 'e) bops \<Rightarrow> 'e ext \<Rightarrow> (string \<Rightarrow> string) \<Rightarrow> machine \<Rightarrow> endpoint \<Rightarrow> ('s, cerr option) cm" where
  "suspend_commit B X H m ep = do {
     log_entry (Did KCloseClient None);
     r \<leftarrow> backend_call KCommit (bo_commit B m (freeze_hook X H));
     bad \<leftarrow> (case r of None \<Rightarrow> State_Monad.return None | Some e \<Rightarrow> after_commit_error B X H m ep e);
     case bad of
       Some e \<Rightarrow> State_Monad.return (Some e)
     | None \<Rightarrow> do { suspend_finish B X H ep; State_Monad.return None } }"

text \<open>S8 and S9.\<close>

definition suspend_unforward :: "('s, 'e) bops \<Rightarrow> 'e ext \<Rightarrow> (string \<Rightarrow> string) \<Rightarrow> machine \<Rightarrow> endpoint \<Rightarrow> ('s, cerr option) cm" where
  "suspend_unforward B X H m ep = do {
     s \<leftarrow> (if ep_api ep \<noteq> [] then call B X KStopAPI else State_Monad.return None);
     case s of
       Some t \<Rightarrow> failing (guest_running B X H m ep True False
           (plain_err (''cannot suspend '' @ mc_name m @ '': stopping the engine socket forward: '' @ t)))
     | None \<Rightarrow> do {
         (if ep_api ep \<noteq> [] then sd_do B X H EvDrop else State_Monad.return ());
         a \<leftarrow> aborted_now B X H;
         if a then failing (guest_running B X H m ep True (ep_api ep \<noteq> []) (aborted_err m))
         else suspend_commit B X H m ep } }"

text \<open>What the quiesce script came to: \<open>None\<close> when the guest is quiet. \<open>quiesceReason\<close> finds the line a refusal printed.\<close>

definition last_line :: "string \<Rightarrow> string" where
  "last_line out = trim_space (last (split_on CHR 0x0A (trim_space out)))"

fun first_after :: "string \<Rightarrow> string list \<Rightarrow> string option" where
  "first_after p [] = None"
| "first_after p (l # ls) = (case cut_prefix (trim_space l) p of Some r \<Rightarrow> Some r | None \<Rightarrow> first_after p ls)"

definition quiesce_reason :: "string \<Rightarrow> string \<Rightarrow> string" where
  "quiesce_reason out word = (case first_after (word @ '' '') (split_on CHR 0x0A out) of Some r \<Rightarrow> r | None \<Rightarrow> last_line out)"

definition force_hint :: "machine \<Rightarrow> string" where
  "force_hint m = CHR 0x27 # ''jm suspend --force'' @ name_hint (mc_name m) @ CHR 0x27 # '' suspends it anyway''"

definition quiesce_verdict :: "machine \<Rightarrow> string + string \<times> int \<Rightarrow> cerr option" where
  "quiesce_verdict m q =
     (case q of
        Inl t \<Rightarrow> Some (plain_err (''cannot suspend '' @ mc_name m @ '': quiescing the guest: '' @ t))
      | Inr (out, code) \<Rightarrow>
          (if code = 3 then Some (with_hint (refuse KBlocked (mc_name m @ '' is busy: '' @ quiesce_reason out ''active'')) (force_hint m))
           else if code = 4
           then Some ((refuse KBlocked (mc_name m @ '' is busy: a shared directory is in use in the guest: '' @ quiesce_reason out ''busy''))
                        \<lparr>ce_share := quiesce_reason out ''busy''\<rparr>)
           else if code \<noteq> 0 \<or> \<not> contains out ''ok''
           then Some (plain_err (''cannot suspend '' @ mc_name m @ '': quiescing the guest exited '' @ itoa code @ '': '' @ last_line out))
           else None))"

text \<open>S7.\<close>

definition suspend_quiesce :: "('s, 'e) bops \<Rightarrow> 'e ext \<Rightarrow> (string \<Rightarrow> string) \<Rightarrow> machine \<Rightarrow> suspend_opts \<Rightarrow> endpoint \<Rightarrow> ('s, cerr option) cm" where
  "suspend_quiesce B X H m opts ep = do {
     q \<leftarrow> ask B (x_quiesce X (so_force opts));
     log_entry (Did KQuiesce (kind_of (quiesce_verdict m q)));
     case quiesce_verdict m q of
       Some e \<Rightarrow> failing (guest_running B X H m ep True False e)
     | None \<Rightarrow> suspend_unforward B X H m ep }"

text \<open>S5 and S6.\<close>

definition suspend_hold :: "('s, 'e) bops \<Rightarrow> 'e ext \<Rightarrow> (string \<Rightarrow> string) \<Rightarrow> machine \<Rightarrow> suspend_opts \<Rightarrow> endpoint \<Rightarrow> ('s, cerr option) cm" where
  "suspend_hold B X H m opts ep = do {
     _ \<leftarrow> call B X KStopForwarder;
     t \<leftarrow> (if ep_api ep \<noteq> [] then take_socket B X H (ep_api ep) else State_Monad.return None);
     case t of
       Some x \<Rightarrow> failing (guest_running B X H m ep True False
           (plain_err (''cannot suspend '' @ mc_name m @ '': holding the engine socket: '' @ x)))
     | None \<Rightarrow> do {
         a \<leftarrow> aborted_now B X H;
         if a then failing (guest_running B X H m ep True False (aborted_err m))
         else suspend_quiesce B X H m opts ep } }"

text \<open>S3 and S4.\<close>

definition suspend_meta :: "machine \<Rightarrow> int \<Rightarrow> string + sample \<Rightarrow> (string, string) gomap" where
  "suspend_meta m port act =
     (case act of Inl _ \<Rightarrow> [] | Inr s \<Rightarrow> [(''containers'', itoa (sm_jails s))]) @
     [(''mtu'', itoa (mc_mtu m)), (''arc_mib'', itoa (mc_arcMiB m)), (''resolver_port'', itoa port)]"

definition suspend_prepare :: "('s, 'e) bops \<Rightarrow> 'e ext \<Rightarrow> (string \<Rightarrow> string) \<Rightarrow> machine \<Rightarrow> suspend_opts \<Rightarrow> endpoint \<Rightarrow> string + sample \<Rightarrow> ('s, cerr option) cm" where
  "suspend_prepare B X H m opts ep act = do {
     port \<leftarrow> ask B (x_resolverPort X);
     a \<leftarrow> aborted_now B X H;
     if a then State_Monad.return (Some (aborted_err m))
     else do {
       r \<leftarrow> backend_call KPrepare (bo_prepare B m \<lparr>sp_reason = so_reason opts, sp_meta = suspend_meta m port act\<rparr>);
       case r of
         Some e \<Rightarrow> State_Monad.return (Some (if ce_kind e = KUnavailable then cannot_suspend m (detail e [unavailable_sentinel])
             else wrap_err (''cannot suspend '' @ mc_name m @ '': '') e))
       | None \<Rightarrow> suspend_hold B X H m opts ep } }"

text \<open>The rest of S2: the guest's activity.\<close>

definition busy_err :: "machine \<Rightarrow> string list \<Rightarrow> cerr" where
  "busy_err m blockers = with_hint (refuse KBlocked (mc_name m @ '' is busy: '' @ join '', '' blockers)) (force_hint m)"

definition suspend_active :: "('s, 'e) bops \<Rightarrow> 'e ext \<Rightarrow> (string \<Rightarrow> string) \<Rightarrow> machine \<Rightarrow> suspend_opts \<Rightarrow> endpoint \<Rightarrow> ('s, cerr option) cm" where
  "suspend_active B X H m opts ep = do {
     act \<leftarrow> ask B (x_probe X);
     (if so_force opts then suspend_prepare B X H m opts ep act
      else case act of
          Inl t \<Rightarrow> State_Monad.return (Some (cannot_suspend m (''reading guest activity: '' @ t)))
        | Inr s \<Rightarrow> do {
            b \<leftarrow> ask B (x_baseline X);
            (let blockers = sample_blockers (s\<lparr>sm_engineBaseline := b\<rparr>) in
             if blockers \<noteq> [] then State_Monad.return (Some (busy_err m blockers))
             else suspend_prepare B X H m opts ep act) }) }"

text \<open>S2, under the lock, with the record read again.\<close>

definition suspend_seen :: "('s, 'e) bops \<Rightarrow> 'e ext \<Rightarrow> (string \<Rightarrow> string) \<Rightarrow> machine \<Rightarrow> suspend_opts \<Rightarrow> bstate \<Rightarrow> ('s, cerr option) cm" where
  "suspend_seen B X H m opts s = do {
     j \<leftarrow> journal_there B;
     if s = Suspended then State_Monad.return None
     else if s \<noteq> Running then State_Monad.return (Some (with_hint (plain_err (mc_name m @ '' is '' @ bstate_text s)) (''run '' @ start_hint m [])))
     else if j then State_Monad.return (Some (plain_err (''a suspend or wake of '' @ mc_name m @ '' is already in progress'')))
     else do {
       e \<leftarrow> ask B (x_endpoint X);
       case e of
         Inl t \<Rightarrow> State_Monad.return (Some (plain_err t))
       | Inr ep \<Rightarrow> do {
           c \<leftarrow> call B X KDial;
           case c of
             Some t \<Rightarrow> State_Monad.return (Some (cannot_suspend m (''the guest does not answer over ssh: '' @ t)))
           | None \<Rightarrow> suspend_active B X H m opts ep } } }"

definition suspend_checked :: "('s, 'e) bops \<Rightarrow> 'e ext \<Rightarrow> (string \<Rightarrow> string) \<Rightarrow> machine \<Rightarrow> suspend_opts \<Rightarrow> ('s, cerr option) cm" where
  "suspend_checked B X H m opts = do {
     st \<leftarrow> machine_state B X m;
     case st of Inl e \<Rightarrow> State_Monad.return (Some e) | Inr s \<Rightarrow> suspend_seen B X H m opts s }"

definition suspend_locked :: "('s, 'e) bops \<Rightarrow> 'e ext \<Rightarrow> (string \<Rightarrow> string) \<Rightarrow> machine \<Rightarrow> suspend_opts \<Rightarrow> ('s, cerr option) cm" where
  "suspend_locked B X H m0 opts = do {
     r \<leftarrow> recover_transition B X m0;
     case r of
       Inl e \<Rightarrow> State_Monad.return (Some e)
     | Inr _ \<Rightarrow> do {
         l \<leftarrow> ask B (x_load X);
         case l of
           LoadGone t \<Rightarrow> State_Monad.return (Some (plain_err t))
         | LoadBad t \<Rightarrow> State_Monad.return (Some (plain_err t))
         | Loaded m \<Rightarrow> suspend_checked B X H m opts } }"

text \<open>\<^verbatim>\<open>suspendMachine\<close>: \<open>x_lock\<close> answers \<open>Inr False\<close> when another command holds the lock.\<close>

definition busy_lock :: "machine \<Rightarrow> suspend_opts \<Rightarrow> cerr" where
  "busy_lock m opts =
     (if \<not> so_manual opts then refuse KLocked ''suspend skipped: another jm command is operating on the machine''
      else plain_err (''another jm command is operating on '' @ quote (mc_name m) @ ''; try again shortly''))"

definition suspend_under_lock :: "('s, 'e) bops \<Rightarrow> 'e ext \<Rightarrow> (string \<Rightarrow> string) \<Rightarrow> machine \<Rightarrow> suspend_opts \<Rightarrow> ('s, cerr option) cm" where
  "suspend_under_lock B X H m opts = do {
     log_entry (Did KLock None);
     r \<leftarrow> suspend_locked B X H m opts;
     log_entry (Did KUnlock None);
     State_Monad.return r }"

definition suspend_machine :: "('s, 'e) bops \<Rightarrow> 'e ext \<Rightarrow> (string \<Rightarrow> string) \<Rightarrow> machine \<Rightarrow> suspend_opts \<Rightarrow> ('s, cerr option) cm" where
  "suspend_machine B X H m opts =
     (if \<not> bo_suspender B
      then State_Monad.return (Some (cannot_suspend m (''backend '' @ quote (bo_name B) @ '' cannot save a running machine'')))
      else if \<not> x_forwards X
      then State_Monad.return (Some (cannot_suspend m (''network provider '' @ quote (x_provName X) @ '' cannot hand its endpoints over'')))
      else do {
        sd_do B X H EvArm;
        l \<leftarrow> ask B (x_lock X);
        r \<leftarrow> (case l of
                Inl t \<Rightarrow> State_Monad.return (Some (plain_err t))
              | Inr free_lock \<Rightarrow>
                  (if \<not> free_lock then State_Monad.return (Some (busy_lock m opts)) else suspend_under_lock B X H m opts));
        sd_do B X H EvDisarm;
        State_Monad.return r })"


section \<open>The protocol of a suspend\<close>

definition did :: "call \<Rightarrow> act \<Rightarrow> bool" where
  "did c e = (case e of Did d _ \<Rightarrow> d = c | _ \<Rightarrow> False)"

definition went :: "call \<Rightarrow> act \<Rightarrow> bool" where
  "went c e = (case e of Did d r \<Rightarrow> d = c \<and> r = None | _ \<Rightarrow> False)"

definition took_socket :: "act \<Rightarrow> bool" where
  "took_socket e = (case e of Sd s \<Rightarrow> (case s of EvTakeUnix _ _ _ keep \<Rightarrow> keep | _ \<Rightarrow> False) | _ \<Rightarrow> False)"

definition took_port :: "act \<Rightarrow> bool" where
  "took_port e = (case e of Sd s \<Rightarrow> (case s of EvTakeTcp _ _ _ \<Rightarrow> True | _ \<Rightarrow> False) | _ \<Rightarrow> False)"

definition gave_back :: "act \<Rightarrow> bool" where
  "gave_back e = (case e of Sd s \<Rightarrow> (case s of EvRestore _ _ \<Rightarrow> True | _ \<Rightarrow> False) | _ \<Rightarrow> False)"

definition relayed :: "act \<Rightarrow> bool" where
  "relayed e = (case e of Sd s \<Rightarrow> (case s of EvHandOver _ _ \<Rightarrow> True | _ \<Rightarrow> False) | _ \<Rightarrow> False)"

definition saw :: "bstate \<Rightarrow> act \<Rightarrow> bool" where
  "saw s e = (case e of Saw t \<Rightarrow> t = s | _ \<Rightarrow> False)"

definition recovered :: "act \<Rightarrow> bool" where
  "recovered e = (case e of Rec _ \<Rightarrow> True | _ \<Rightarrow> False)"

definition arms :: "act \<Rightarrow> bool" where
  "arms e = (case e of Sd s \<Rightarrow> (case s of EvArm \<Rightarrow> True | _ \<Rightarrow> False) | _ \<Rightarrow> False)"

definition disarms :: "act \<Rightarrow> bool" where
  "disarms e = (case e of Sd s \<Rightarrow> (case s of EvDisarm \<Rightarrow> True | _ \<Rightarrow> False) | _ \<Rightarrow> False)"

definition drops :: "act \<Rightarrow> bool" where
  "drops e = (case e of Sd s \<Rightarrow> (case s of EvDrop \<Rightarrow> True | _ \<Rightarrow> False) | _ \<Rightarrow> False)"

definition closes_held :: "act \<Rightarrow> bool" where
  "closes_held e = (case e of Sd s \<Rightarrow> (case s of EvCloseHeld \<Rightarrow> True | _ \<Rightarrow> False) | _ \<Rightarrow> False)"

datatype ending = Untouched | RunningAgain | Died | Unresolved | Asleep

datatype sphase =
    SStart | SArmed | SLocked | SSeen | SPrepared | SUnmapped | SHolding | SRefused | SQuiet | SUnforwarded | SDropped
  | SClosed | SFailed | SRecovered | SDialled | SMounted bool | SCancelled bool | SRestored | SServing | SDisarmed | SRelayed
  | SDiscarded | SDead | SDeadClosed | SDeadParked | SSaved | SParked | SResolved | SDone ending | SUnlocked ending | SEnd ending
  | SWrong

text \<open>
  The steps S1 to S17 and the three ways back of ADR 0009, as the calls of a suspend; \<open>api\<close>: the machine has an engine socket;
  \<open>SMounted s\<close>, \<open>SCancelled s\<close>: a rollback whose engine forward had been stopped when \<open>s\<close>.
\<close>

fun sstep :: "bool \<Rightarrow> sphase \<Rightarrow> act \<Rightarrow> sphase" where
  "sstep api SStart e = (if arms e then SArmed else SWrong)"
| "sstep api SArmed e = (if went KLock e then SLocked else if disarms e then SEnd Untouched else SWrong)"
| "sstep api SLocked e = (if did KRecover e \<or> did KPark e \<or> did KStopResolver e \<or> recovered e then SLocked
     else if saw Running e then SSeen else if \<exists>s \<in> {Stopped, Broken, Suspended}. saw s e then SDone Untouched
     else if went KUnlock e then SUnlocked Untouched else SWrong)"
| "sstep api SSeen e = (if did KDial e then SSeen else if went KPrepare e then SPrepared else if did KPrepare e then SDone Untouched
     else if went KUnlock e then SUnlocked Untouched else SWrong)"
| "sstep api SPrepared e = (if did KStopForwarder e then SUnmapped else SWrong)"
| "sstep api SUnmapped e = (if api then (if took_socket e then SHolding else SWrong)
     else if went KQuiesce e then SQuiet else if did KQuiesce e then SRefused
     else if did KRemount e then SMounted False else SWrong)"
| "sstep api SHolding e = (if went KQuiesce e then SQuiet else if did KQuiesce e then SRefused
     else if did KRemount e then SMounted False else SWrong)"
| "sstep api SRefused e = (if did KRemount e then SMounted False else SWrong)"
| "sstep api SQuiet e = (if api then (if went KStopAPI e then SUnforwarded else if did KStopAPI e then SRefused else SWrong)
     else if did KRemount e then SMounted False else if went KCloseClient e then SClosed else SWrong)"
| "sstep api SUnforwarded e = (if drops e then SDropped else SWrong)"
| "sstep api SDropped e = (if did KRemount e then SMounted True else if went KCloseClient e then SClosed else SWrong)"
| "sstep api SClosed e = (if went KCommit e then SSaved else if did KCommit e then SFailed else SWrong)"
| "sstep api SFailed e = (if did KPark e then SParked else if did KDiscard e then SDiscarded
     else if went KRecover e then SRecovered else if did KRecover e then SDone Unresolved
     else if went KDial e then SDialled else if did KDial e then SMounted True
     else if went KUnlock e then SUnlocked Unresolved else SWrong)"
| "sstep api SRecovered e = (if went KDial e then SDialled else if did KDial e then SMounted True else SWrong)"
| "sstep api SDialled e = (if did KRemount e then SMounted True else SWrong)"
| "sstep api (SMounted s) e = (if went KCancel e then SCancelled s else if did KCancel e then SDone Unresolved else SWrong)"
| "sstep api (SCancelled s) e = (if \<not> api then (if disarms e then SDisarmed else SWrong)
     else if \<not> s then (if gave_back e then SRestored else SWrong)
     else if did KStartAPI e then SServing else SWrong)"
| "sstep api SRestored e = (if did KStartAPI e then SServing else SWrong)"
| "sstep api SServing e = (if disarms e then SDisarmed else SWrong)"
| "sstep api SDisarmed e = (if relayed e then SRelayed else SWrong)"
| "sstep api SRelayed e = (if did KStartForwarder e then SDone RunningAgain else SWrong)"
| "sstep api SDiscarded e = (if disarms e then SDead else SWrong)"
| "sstep api SDead e = (if closes_held e then SDeadClosed else SWrong)"
| "sstep api SDeadClosed e = (if did KPark e then SDeadParked else SWrong)"
| "sstep api SDeadParked e = (if did KStopResolver e then SDone Died else SWrong)"
| "sstep api SSaved e = (if did KPark e then SParked else SWrong)"
| "sstep api SParked e = (if did KStopResolver e then SResolved else SWrong)"
| "sstep api SResolved e = (if took_port e then SDone Asleep else SWrong)"
| "sstep api (SDone x) e = (if x = Asleep \<and> took_port e then SDone Asleep else if went KUnlock e then SUnlocked x else SWrong)"
| "sstep api (SUnlocked x) e = (if disarms e then SEnd x else SWrong)"
| "sstep _ (SEnd x) _ = SWrong"
| "sstep _ SWrong _ = SWrong"

lemma did_simps [simp]:
  "did c (Did d r) \<longleftrightarrow> d = c" "\<not> did c (Sd e)" "\<not> did c (Saw sb)" "\<not> did c (Rec ra)" "\<not> went c (Saw sb)" "\<not> went c (Rec ra)"
  "saw s (Saw sb) \<longleftrightarrow> sb = s" "\<not> saw s (Did c r)" "\<not> saw s (Rec ra)" "recovered (Rec ra)" "\<not> recovered (Did c r)" "\<not> recovered (Saw sb)"
  "went c (Did d r) \<longleftrightarrow> d = c \<and> r = None" "\<not> went c (Sd e)"
  "took_socket (Sd (EvTakeUnix a l p k)) = k" "\<not> took_socket (Did c r)" "took_port (Sd (EvTakeTcp t ls p))" "\<not> took_port (Did c r)"
  "gave_back (Sd (EvRestore u v))" "\<not> gave_back (Did c r)" "relayed (Sd (EvHandOver f ls))" "\<not> relayed (Did c r)"
  "arms (Sd EvArm)" "disarms (Sd EvDisarm)" "\<not> disarms (Did c r)" "drops (Sd EvDrop)" "closes_held (Sd EvCloseHeld)"
  by (simp_all add: did_def went_def took_socket_def took_port_def gave_back_def relayed_def arms_def disarms_def drops_def closes_held_def saw_def recovered_def)

definition mountable :: "bool \<Rightarrow> bool \<Rightarrow> bool \<Rightarrow> sphase \<Rightarrow> bool" where
  "mountable api client s q =
     (if client then (if s then q = SDropped \<and> api else q \<in> {SHolding, SRefused} \<or> \<not> api \<and> q \<in> {SUnmapped, SQuiet})
      else s \<and> q \<in> {SFailed, SRecovered})"

lemma path_remount:
  assumes "mountable api client s q"
  shows "path (sstep api) q (remount_shares B X client) (\<lambda>_ q'. q' = SMounted s)"
  using assms unfolding remount_shares_def mountable_def
  by (auto intro!: path_rules simp: split: if_splits)

lemma path_forward_back:
  assumes "ep_api ep \<noteq> [] \<longleftrightarrow> api"
  shows "path (sstep api) (SCancelled s) (forward_back B X H ep s) (\<lambda>_ q. q = (if api then SServing else SCancelled s))"
  using assms unfolding forward_back_def restore_socket_def by (auto intro!: path_rules)

lemma path_guest_running:
  assumes "mountable api client s q" and "ep_api ep \<noteq> [] \<longleftrightarrow> api"
  shows "path (sstep api) q (guest_running B X H m ep client s cause) (\<lambda>_ q'. q' = SDone RunningAgain \<or> q' = SDone Unresolved)"
  unfolding guest_running_def relay_clients_def
  by (auto intro!: path_rules path_weaken [OF path_remount [OF assms(1)]] path_weaken [OF path_forward_back [OF assms(2)]]
      simp: kind_of_def)


definition sdone :: "cerr option \<Rightarrow> sphase \<Rightarrow> bool" where
  "sdone r q = (if r = None then q = SDone Asleep else q \<in> {SFailed, SDone RunningAgain, SDone Died, SDone Unresolved})"

lemma path_died: "path (sstep api) SFailed (hypervisor_died B X H m e) (\<lambda>_ q. q = SDone Died)"
  unfolding hypervisor_died_def by (auto intro!: path_rules simp: kind_of_def)

lemma path_recover_back:
  assumes "ep_api ep \<noteq> [] \<longleftrightarrow> api"
  shows "path (sstep api) SFailed (recover_then_back B X H m ep e) (\<lambda>_ q. q = SDone RunningAgain \<or> q = SDone Unresolved)"
  unfolding recover_then_back_def
  by (auto intro!: path_rules path_guest_running [OF _ assms] simp: mountable_def)

lemma path_back_by_kind:
  assumes "ep_api ep \<noteq> [] \<longleftrightarrow> api"
  shows "path (sstep api) SFailed (back_by_kind B X H m ep e) (\<lambda>_ q. q = SDone RunningAgain \<or> q = SDone Unresolved)"
  unfolding back_by_kind_def
  by (auto intro!: path_if path_guest_running [OF _ assms] path_recover_back [OF assms] simp: mountable_def)

lemma path_after_commit:
  assumes "ep_api ep \<noteq> [] \<longleftrightarrow> api"
  shows "path (sstep api) SFailed (after_commit_error B X H m ep e) (\<lambda>r q. if r = None then q = SFailed else sdone r q)"
  unfolding after_commit_error_def
  by (auto intro!: path_rules path_weaken [OF path_died] path_weaken [OF path_back_by_kind [OF assms]] simp: sdone_def)

lemma take_tcp_step: "q = SResolved \<or> q = SDone Asleep \<Longrightarrow> sstep api q (Sd (EvTakeTcp l ls a)) = SDone Asleep"
  by (auto)

lemma path_try_port:
  "q = SResolved \<or> q = SDone Asleep \<Longrightarrow> path (sstep api) q (try_port B X H a) (\<lambda>_ q'. q' = SDone Asleep)"
  unfolding try_port_def by (auto intro!: path_rules simp: take_tcp_step)

lemma path_take_tcp:
  "q = SResolved \<or> q = SDone Asleep \<Longrightarrow> path (sstep api) q (take_tcp_within n B X H a) (\<lambda>_ q'. q' = SDone Asleep)"
proof (induction n arbitrary: q)
  case (Suc n)
  then show ?case by (auto intro!: path_then path_weaken [OF path_try_port] path_option path_ret path_ask path_if)
qed (simp add: path_try_port)

lemma park_step: "q = SSaved \<or> q = SFailed \<Longrightarrow> sstep api q (Did KPark r) = SParked"
  by (auto)

lemma resolver_step: "sstep api SParked (Did KStopResolver r) = SResolved"
  by simp

lemma path_finish:
  "q = SSaved \<or> q = SFailed \<Longrightarrow> path (sstep api) q (suspend_finish B X H ep) (\<lambda>_ q'. q' = SDone Asleep)"
  unfolding suspend_finish_def
  by (intro path_then path_call path_weaken [OF path_take_tcp] path_ret) (simp_all add: park_step resolver_step)

lemma path_commit:
  assumes "ep_api ep \<noteq> [] \<longleftrightarrow> api" and "q = SDropped \<or> q = SQuiet \<and> \<not> api"
  shows "path (sstep api) q (suspend_commit B X H m ep) sdone"
  using assms unfolding suspend_commit_def
  by (auto intro!: path_rules path_weaken [OF path_after_commit] path_weaken [OF path_finish]
      simp: kind_of_def sdone_def split: if_splits option.splits)

lemma path_unforward:
  assumes "ep_api ep \<noteq> [] \<longleftrightarrow> api"
  shows "path (sstep api) SQuiet (suspend_unforward B X H m ep) sdone"
  unfolding suspend_unforward_def aborted_now_def using assms
  by (auto intro!: path_rules path_weaken [OF path_guest_running] path_commit simp: mountable_def sdone_def split: if_splits)

lemma path_quiesce:
  assumes "ep_api ep \<noteq> [] \<longleftrightarrow> api" and "q = SHolding \<or> q = SUnmapped \<and> \<not> api"
  shows "path (sstep api) q (suspend_quiesce B X H m opts ep) sdone"
  using assms unfolding suspend_quiesce_def
  by (auto intro!: path_rules path_weaken [OF path_guest_running] path_unforward
      simp: mountable_def sdone_def kind_of_def)

lemma path_hold:
  assumes "ep_api ep \<noteq> [] \<longleftrightarrow> api"
  shows "path (sstep api) SPrepared (suspend_hold B X H m opts ep) sdone"
  unfolding suspend_hold_def aborted_now_def take_socket_def using assms
  by (auto intro!: path_rules path_weaken [OF path_guest_running] path_quiesce simp: mountable_def sdone_def)

text \<open>Before the journal is written nothing has been changed, but for what a recovery did.\<close>

definition slocked :: "cerr option \<Rightarrow> sphase \<Rightarrow> bool" where
  "slocked r q = (q \<in> {SLocked, SSeen, SDone Untouched} \<or> sdone r q)"

lemma path_prepare:
  assumes "ep_api ep \<noteq> [] \<longleftrightarrow> api"
  shows "path (sstep api) SSeen (suspend_prepare B X H m opts ep act) slocked"
  unfolding suspend_prepare_def aborted_now_def
  by (auto intro!: path_rules path_weaken [OF path_hold [OF assms]] simp: slocked_def kind_of_def)

lemma path_active:
  assumes "ep_api ep \<noteq> [] \<longleftrightarrow> api"
  shows "path (sstep api) SSeen (suspend_active B X H m opts ep) slocked"
  unfolding suspend_active_def Let_def
  by (auto intro!: path_rules path_prepare [OF assms] simp: slocked_def)

definition api_is :: "'e ext \<Rightarrow> bool \<Rightarrow> bool" where
  "api_is X api = (\<forall>e. case fst (x_endpoint X e) of Inl _ \<Rightarrow> True | Inr ep \<Rightarrow> (ep_api ep \<noteq> []) = api)"

lemma api_isD: "api_is X api \<Longrightarrow> fst (x_endpoint X e) = Inr ep \<Longrightarrow> ep_api ep \<noteq> [] \<longleftrightarrow> api"
  by (auto simp: api_is_def split: sum.splits)

lemma path_seen:
  assumes "api_is X api"
  shows "path (sstep api) (sstep api SLocked (Saw s)) (suspend_seen B X H m opts s) slocked"
  unfolding suspend_seen_def
  by (cases s) (auto intro!: path_ret path_then path_journal path_if path_sum path_option path_ask_of path_call path_active
      api_isD [OF assms] simp: slocked_def)

lemma path_checked:
  assumes "api_is X api"
  shows "path (sstep api) SLocked (suspend_checked B X H m opts) slocked"
  unfolding suspend_checked_def
  by (rule path_then, rule path_state) (auto intro!: path_ret path_seen [OF assms] simp: slocked_def simp del: sstep.simps)

lemma path_recover_transition:
  "path (sstep api) SLocked (recover_transition B X m) (\<lambda>_ q. q = SLocked)"
  unfolding recover_transition_def by (auto intro!: path_rules)

lemma path_locked:
  assumes "api_is X api"
  shows "path (sstep api) SLocked (suspend_locked B X H m opts) slocked"
  unfolding suspend_locked_def
  by (rule path_then, rule path_weaken [OF path_recover_transition])
    (auto intro!: path_rules path_checked [OF assms] simp: slocked_def split: loaded.split)

definition unlocked :: "cerr option \<Rightarrow> ending \<Rightarrow> bool" where
  "unlocked r e = (e = Untouched \<or> (if r = None then e = Asleep else e \<in> {RunningAgain, Died, Unresolved}))"

definition ended_well :: "cerr option \<Rightarrow> sphase \<Rightarrow> bool" where
  "ended_well r q = ((\<exists>e. q = SEnd e \<and> unlocked r e) \<or> q = SStart \<and> r \<noteq> None)"

lemma unlock_step: "slocked r q \<Longrightarrow> \<exists>e. sstep api q (Did KUnlock None) = SUnlocked e \<and> unlocked r e"
  by (auto simp: slocked_def sdone_def unlocked_def split: if_splits)

lemma path_under_lock:
  assumes "api_is X api"
  shows "path (sstep api) SArmed (suspend_under_lock B X H m opts) (\<lambda>r q. \<exists>e. q = SUnlocked e \<and> unlocked r e)"
  unfolding suspend_under_lock_def
proof (rule path_then [OF path_log])
  show "path (sstep api) (sstep api SArmed (Did KLock None))
     (suspend_locked B X H m opts \<bind> (\<lambda>r. log_entry (Did KUnlock None) \<bind> (\<lambda>_. State_Monad.return r)))
     (\<lambda>r q. \<exists>e. q = SUnlocked e \<and> unlocked r e)"
    by (simp, rule path_then, rule path_weaken [OF path_locked [OF assms]], rule path_then, rule path_log, rule path_ret, rule unlock_step)
qed

lemma path_suspend:
  assumes "api_is X api"
  shows "path (sstep api) SStart (suspend_machine B X H m opts) ended_well"
proof -
  have last: "path (sstep api) q (sd_do B X H EvDisarm \<bind> (\<lambda>_. State_Monad.return r)) ended_well"
    if "q = SArmed \<and> r \<noteq> None \<or> (\<exists>e. q = SUnlocked e \<and> unlocked r e)" for q r
    using that by (auto intro!: path_then path_sd_do path_ret simp: ended_well_def unlocked_def)
  have armed: "sstep api SStart (Sd EvArm) = SArmed" "sstep api SArmed (Sd EvDisarm) = SEnd Untouched" "unlocked r Untouched" for r
    by (simp_all add: unlocked_def)
  show ?thesis
    unfolding suspend_machine_def
    by (intro path_if path_ret path_then path_sd_do path_ask path_sum)
      (auto simp: armed ended_well_def intro!: path_then path_if path_sum path_ret path_weaken [OF path_under_lock [OF assms]] last)
qed

definition demo_opts :: suspend_opts where
  "demo_opts = \<lparr>so_reason = ''jm suspend'', so_manual = True, so_force = False\<rparr>"



end
