(* ===== verification/Cli_Wake.thy ===== *)
theory Cli_Wake
  imports Cli_Suspend
begin

text \<open>
  The wake of a suspended machine (\<^verbatim>\<open>internal/cli/resume.go\<close>): steps W0 to W10, the three ways it fails, and its protocol. A wake
  starts the resolver while the backend restores the guest; which of the two ends first is \<open>x_race\<close>. Progress
  lines and warnings are left out; so are the texts of the guest's scripts.
\<close>

section \<open>Errors of a stage\<close>

definition stage_err :: "string \<Rightarrow> string \<Rightarrow> cerr \<Rightarrow> cerr" where
  "stage_err stage hint e =
     with_hint (e\<lparr>ce_msg := stage_error stage hint (ce_msg e)\<rparr>) hint"

definition force_stop :: "machine \<Rightarrow> string" where
  "force_stop m = CHR 0x27 # ''jm stop --force'' @ name_hint (mc_name m) @ CHR 0x27 # '' discards ''"

definition wake_transient :: "machine \<Rightarrow> cerr \<Rightarrow> cerr" where
  "wake_transient m e =
     with_hint (e\<lparr>ce_msg := ''could not wake '' @ mc_name m @ '' ('' @ ce_msg e @ '')''\<rparr>) (''retry, or '' @ force_stop m @ ''the saved state'')"

section \<open>Talking to the sleeper\<close>

text \<open>\<^verbatim>\<open>tellSleeper\<close>: \<open>None\<close> when no sleeper answered.\<close>

definition tell_sleeper :: "('s, 'e) bops \<Rightarrow> 'e ext \<Rightarrow> machine \<Rightarrow> string \<Rightarrow> ('s, string option) cm" where
  "tell_sleeper B X m line =
     (if mc_dir m = [] then State_Monad.return None
      else do { r \<leftarrow> ask B (x_tell X line); log_entry (Did (KTell line) None); State_Monad.return r })"

fun port_wait :: "nat \<Rightarrow> ('s, 'e) bops \<Rightarrow> 'e ext \<Rightarrow> int \<Rightarrow> ('s, string option) cm" where
  "port_wait 0 B X port = do {
     ok \<leftarrow> ask B (x_holds X ''port is free'');
     State_Monad.return (if ok then None else Some (''port '' @ itoa port @ '' is in use'')) }"
| "port_wait (Suc n) B X port = do {
     ok \<leftarrow> ask B (x_holds X ''port is free'');
     if ok then State_Monad.return None
     else do {
       q \<leftarrow> ask B (x_late X);
       if q then State_Monad.return (Some ''context canceled'') else port_wait n B X port } }"

definition release_turns :: nat where "release_turns = polls 2000 20"

text \<open>W1.\<close>

definition release_sleeper_tcp :: "('s, 'e) bops \<Rightarrow> 'e ext \<Rightarrow> machine \<Rightarrow> endpoint \<Rightarrow> ('s, string option) cm" where
  "release_sleeper_tcp B X m ep = do {
     pid \<leftarrow> ask B (x_getpid X);
     r \<leftarrow> tell_sleeper B X m (''release-tcp '' @ itoa pid);
     case r of
       None \<Rightarrow> State_Monad.return None
     | Some reply \<Rightarrow> (case split_reply reply of (word, rest) \<Rightarrow>
         if word \<noteq> ''ok'' then State_Monad.return (Some (''the sleeper did not release port '' @ itoa (ep_sshPort ep) @ '': '' @ rest))
         else port_wait release_turns B X (ep_sshPort ep)) }"

section \<open>Steps of a wake\<close>

record wake_opts =
  wo_forShutdown :: bool
  wo_by :: string

text \<open>\<^verbatim>\<open>startResolver\<close>, when the provider has a way back to the host.\<close>

definition start_resolver :: "('s, 'e) bops \<Rightarrow> 'e ext \<Rightarrow> endpoint \<Rightarrow> ('s, cerr + int) cm" where
  "start_resolver B X ep =
     (if ep_hostAlias ep = [] then State_Monad.return (Inr 0)
      else do {
        r \<leftarrow> ask B (x_resolver X);
        log_entry (Did KStartResolver (case r of Inl _ \<Rightarrow> Some KOther | Inr _ \<Rightarrow> None));
        State_Monad.return (case r of Inl t \<Rightarrow> Inl (stage_err ''dns'' [] (plain_err t)) | Inr p \<Rightarrow> Inr p) })"

text \<open>\<^verbatim>\<open>configureGuestDNS\<close>: the guest-side script, then the check that a name of the host resolves; a failure counts only in a
  guest whose resolver configuration is already jm's.\<close>

definition configure_guest_dns :: "('s, 'e) bops \<Rightarrow> 'e ext \<Rightarrow> int \<Rightarrow> ('s, cerr option) cm" where
  "configure_guest_dns B X port =
     (if port = 0 then State_Monad.return None
      else do {
        a \<leftarrow> call B X KGuestDNS;
        e \<leftarrow> (case a of None \<Rightarrow> call B X KVerifyDNS | Some t \<Rightarrow> State_Monad.return (Some t));
        case e of
          None \<Rightarrow> State_Monad.return None
        | Some t \<Rightarrow> do {
            owned \<leftarrow> ask B (x_holds X ''jm owns resolv.conf'');
            State_Monad.return (if owned then Some (stage_err ''dns'' [] (plain_err t)) else None) } })"

text \<open>W7.\<close>

definition meta_get :: "(string, string) gomap \<Rightarrow> string \<Rightarrow> string" where
  "meta_get meta k = (case map_of meta k of None \<Rightarrow> [] | Some v \<Rightarrow> v)"

definition full_dns :: "(string, string) gomap \<Rightarrow> int \<Rightarrow> bool" where
  "full_dns meta port \<longleftrightarrow> port \<noteq> 0 \<and> meta_get meta ''resolver_port'' \<noteq> itoa port"

definition post_resume :: "('s, 'e) bops \<Rightarrow> 'e ext \<Rightarrow> (string, string) gomap \<Rightarrow> int \<Rightarrow> ('s, cerr option) cm" where
  "post_resume B X meta port = do {
     _ \<leftarrow> call B X KPostResume;
     if full_dns meta port then configure_guest_dns B X port else State_Monad.return None }"

text \<open>W6.\<close>

fun dial_awake :: "nat \<Rightarrow> ('s, 'e) bops \<Rightarrow> 'e ext \<Rightarrow> ('s, string option) cm" where
  "dial_awake 0 B X = call B X KDial"
| "dial_awake (Suc n) B X = do {
     r \<leftarrow> call B X KDial;
     case r of
       None \<Rightarrow> State_Monad.return None
     | Some t \<Rightarrow> do {
         q \<leftarrow> ask B (x_late X);
         if q then State_Monad.return (Some t) else dial_awake n B X } }"

definition dial_turns :: nat where "dial_turns = polls 60000 25"

text \<open>W9 and W10, after W8.\<close>

definition wake_helpers :: "('s, 'e) bops \<Rightarrow> 'e ext \<Rightarrow> machine \<Rightarrow> wake_opts \<Rightarrow> ('s, cerr option) cm" where
  "wake_helpers B X m opts = do {
     ms \<leftarrow> ask B (x_elapsed X);
     _ \<leftarrow> tell_sleeper B X m (''woke '' @ (if wo_by opts = [] then ''-'' else wo_by opts) @ '' '' @ itoa ms);
     f \<leftarrow> call B X KStartForwarder;
     case f of
       Some t \<Rightarrow> State_Monad.return (Some (plain_err t))
     | None \<Rightarrow> do { _ \<leftarrow> call B X KStartSleeper; _ \<leftarrow> call B X KActivity; State_Monad.return None } }"

text \<open>W6 to W10: the guest runs whatever happens.\<close>

definition wake_reconnect :: "('s, 'e) bops \<Rightarrow> 'e ext \<Rightarrow> machine \<Rightarrow> endpoint \<Rightarrow> suspend_status \<Rightarrow> int \<Rightarrow> wake_opts \<Rightarrow> ('s, cerr option) cm" where
  "wake_reconnect B X m ep status port opts = do {
     c \<leftarrow> dial_awake dial_turns B X;
     case c of
       Some t \<Rightarrow> State_Monad.return (Some (stage_err ''ssh'' (console_hint B) (plain_err (''the restored guest's sshd did not answer: '' @ t))))
     | None \<Rightarrow> do {
         p \<leftarrow> post_resume B X (su_meta status) port;
         case p of
           Some e \<Rightarrow> State_Monad.return (Some e)
         | None \<Rightarrow> do {
             a \<leftarrow> (if x_forwards X \<and> ep_api ep \<noteq> [] then call B X KStartAPI else State_Monad.return None);
             case a of
               Some t \<Rightarrow> State_Monad.return (Some (stage_err ''connect'' (network_hint X) (plain_err t)))
             | None \<Rightarrow> wake_helpers B X m opts } } }"

definition incompatible_text :: string where "incompatible_text = ''backend: saved state cannot be restored''"

definition discard_incompatible :: "('s, 'e) bops \<Rightarrow> 'e ext \<Rightarrow> machine \<Rightarrow> cerr \<Rightarrow> ('s, cerr option) cm" where
  "discard_incompatible B X m cause = do {
     r \<leftarrow> backend_call KDiscard (bo_discard B m (detail cause [incompatible_text]));
     case r of
       Some e \<Rightarrow> State_Monad.return (Some (wrap_err (''discarding the saved state of '' @ mc_name m @
           '', which cannot be restored ('' @ detail cause [incompatible_text] @ ''): '') e))
     | None \<Rightarrow> do { _ \<leftarrow> call B X KPark; State_Monad.return None } }"

text \<open>The result of a wake: whether the guest runs from its saved state, and the error.\<close>

type_synonym woken = "bool \<times> cerr option"

definition wake_failed :: "('s, 'e) bops \<Rightarrow> 'e ext \<Rightarrow> machine \<Rightarrow> cerr \<Rightarrow> ('s, woken) cm" where
  "wake_failed B X m e =
     (if ce_kind e = KIncompatible
      then do { r \<leftarrow> discard_incompatible B X m e; State_Monad.return (False, r) }
      else do {
        bs \<leftarrow> backend (bo_state B m);
        j \<leftarrow> journal_there B;
        if bs = Inr Running \<and> \<not> j
        then State_Monad.return (False, Some (stage_err ''backend'' (console_hint B)
               (e\<lparr>ce_msg := mc_name m @ '' was restored but did not continue: '' @ ce_msg e @ ''; '' @ start_hint m '' finishes it''\<rparr>)))
        else do {
          _ \<leftarrow> call B X KPark;
          _ \<leftarrow> call B X KStopResolver;
          State_Monad.return (False, Some (wake_transient m e)) } })"

text \<open>W3 to W5, the resolver beside them.\<close>

definition wake_restore :: "('s, 'e) bops \<Rightarrow> 'e ext \<Rightarrow> machine \<Rightarrow> attachment \<Rightarrow> endpoint \<Rightarrow> suspend_status \<Rightarrow> wake_opts \<Rightarrow> ('s, woken) cm" where
  "wake_restore B X m att ep status opts = do {
     first \<leftarrow> ask B (x_race X);
     p1 \<leftarrow> (if \<not> wo_forShutdown opts \<and> first then start_resolver B X ep else State_Monad.return (Inr 0));
     r \<leftarrow> backend_call KResume (bo_resume B m att);
     port \<leftarrow> (if \<not> wo_forShutdown opts \<and> \<not> first then start_resolver B X ep else State_Monad.return p1);
     case r of
       Some e \<Rightarrow> wake_failed B X m e
     | None \<Rightarrow>
         (if wo_forShutdown opts then State_Monad.return (True, None)
          else do {
            x \<leftarrow> wake_reconnect B X m ep status (case port of Inl _ \<Rightarrow> 0 | Inr p \<Rightarrow> p) opts;
            State_Monad.return (True, x) }) }"

text \<open>W2.\<close>

definition wake_network :: "('s, 'e) bops \<Rightarrow> 'e ext \<Rightarrow> machine \<Rightarrow> suspend_status \<Rightarrow> wake_opts \<Rightarrow> ('s, woken) cm" where
  "wake_network B X m status opts = do {
     r \<leftarrow> ask B (x_provStart X);
     log_entry (Did KProvStart (case r of Inl _ \<Rightarrow> Some KOther | Inr _ \<Rightarrow> None));
     case r of
       Inl t \<Rightarrow> do {
         _ \<leftarrow> call B X KPark;
         State_Monad.return (False, Some (wake_transient m (stage_err ''network'' (network_hint X) (plain_err t)))) }
     | Inr (att, ep) \<Rightarrow> wake_restore B X m att ep status opts }"

definition wake_machine :: "('s, 'e) bops \<Rightarrow> 'e ext \<Rightarrow> machine \<Rightarrow> wake_opts \<Rightarrow> ('s, woken) cm" where
  "wake_machine B X m opts =
     (if \<not> bo_suspender B
      then State_Monad.return (False, Some (plain_err (''backend '' @ quote (bo_name B) @ '' cannot restore a suspended machine'')))
      else do {
        st \<leftarrow> backend (bo_status B m);
        case st of
          Inl e \<Rightarrow> State_Monad.return (False, Some (with_hint (wrap_err (''reading the saved state of '' @ mc_name m @ '': '') e)
              (force_stop m @ ''it'')))
        | Inr status \<Rightarrow> do {
            p \<leftarrow> ask B (x_endpoint X);
            rel \<leftarrow> (case p of Inl _ \<Rightarrow> State_Monad.return None | Inr ep \<Rightarrow> release_sleeper_tcp B X m ep);
            case rel of
              Some t \<Rightarrow> State_Monad.return (False, Some (wake_transient m (plain_err t)))
            | None \<Rightarrow> wake_network B X m status opts } })"

section \<open>The protocol of a wake\<close>

definition told :: "act \<Rightarrow> bool" where
  "told e = (case e of Did c _ \<Rightarrow> (case c of KTell _ \<Rightarrow> True | _ \<Rightarrow> False) | _ \<Rightarrow> False)"

definition incompatible_resume :: "act \<Rightarrow> bool" where
  "incompatible_resume e = (case e of Did c r \<Rightarrow> c = KResume \<and> r = Some KIncompatible | _ \<Rightarrow> False)"

text \<open>The calls of a guest that runs again, in the order a wake makes them.\<close>

definition wake_rank :: "act \<Rightarrow> nat option" where
  "wake_rank e =
     (if did KStartResolver e then Some 0 else if did KDial e then Some 1 else if did KPostResume e then Some 2
      else if did KGuestDNS e \<or> did KVerifyDNS e then Some 3 else if did KStartAPI e then Some 4 else if told e then Some 5
      else if did KStartForwarder e then Some 6 else if did KStartSleeper e then Some 7 else if did KActivity e then Some 8 else None)"

datatype wphase = WStart | WTold | WNoNet | WNet bool | WRuns nat | WBad | WGone | WBoot | WFailed | WParked | WKept | WWrong

text \<open>\<open>WNet r\<close>: the provider runs and the resolver was started when \<open>r\<close>; \<open>WRuns n\<close>: the guest runs from its saved state.\<close>

fun wstep :: "bool \<Rightarrow> wphase \<Rightarrow> act \<Rightarrow> wphase" where
  "wstep sh WStart e = (if told e then WTold else if went KProvStart e then WNet False else if did KProvStart e then WNoNet else WWrong)"
| "wstep sh WTold e = (if went KProvStart e then WNet False else if did KProvStart e then WNoNet else WWrong)"
| "wstep sh WNoNet e = (if did KPark e then WKept else WWrong)"
| "wstep sh (WNet r) e = (if did KStartResolver e \<and> \<not> r \<and> \<not> sh then WNet True
     else if went KResume e then WRuns 0 else if incompatible_resume e then WBad else if did KResume e then WFailed else WWrong)"
| "wstep sh (WRuns n) e = (case wake_rank e of Some k \<Rightarrow> if n \<le> k \<and> \<not> sh then WRuns k else WWrong | None \<Rightarrow> WWrong)"
| "wstep sh WBad e = (if did KStartResolver e \<and> \<not> sh then WBad else if went KDiscard e then WGone else if did KDiscard e then WKept else WWrong)"
| "wstep sh WGone e = (if did KPark e then WBoot else WWrong)"
| "wstep sh WFailed e = (if did KStartResolver e \<and> \<not> sh then WFailed else if did KPark e then WParked else WWrong)"
| "wstep sh WParked e = (if did KStopResolver e then WKept else WWrong)"
| "wstep _ WBoot _ = WWrong"
| "wstep _ WKept _ = WWrong"
| "wstep _ WWrong _ = WWrong"

lemma told_simps [simp]:
  "told (Did c r) \<longleftrightarrow> (\<exists>l. c = KTell l)" "\<not> told (Sd e)" "\<not> incompatible_resume (Sd e)"
  "incompatible_resume (Did c r) \<longleftrightarrow> c = KResume \<and> r = Some KIncompatible"
  by (cases c; simp add: told_def) (simp_all add: told_def incompatible_resume_def)

definition woke_so :: "bool \<Rightarrow> woken \<Rightarrow> wphase \<Rightarrow> bool" where
  "woke_so sh r q =
     (if fst r then (\<exists>n. q = WRuns n) \<and> (sh \<longrightarrow> q = WRuns 0 \<and> snd r = None)
      else if snd r = None then q = WBoot
      else q \<in> {WStart, WTold, WKept, WFailed})"

lemma path_port_wait: "path D q (port_wait n B X p) (\<lambda>_ q'. q' = q)"
  by (induction n) (auto intro!: path_rules)

lemma path_tell: "path (wstep sh) WStart (tell_sleeper B X m l) (\<lambda>_ q. q \<in> {WStart, WTold})"
  unfolding tell_sleeper_def by (auto intro!: path_rules)

lemma path_release: "path (wstep sh) WStart (release_sleeper_tcp B X m ep) (\<lambda>_ q. q \<in> {WStart, WTold})"
  unfolding release_sleeper_tcp_def
  by (auto intro!: path_then path_ask path_weaken [OF path_tell] path_option path_ret path_if
      path_weaken [OF path_port_wait] split: prod.split)

lemma runs_step: "wake_rank e = Some k \<Longrightarrow> n \<le> k \<Longrightarrow> wstep False (WRuns n) e = WRuns k"
  by simp

lemma wake_ranks [simp]:
  "wake_rank (Did KStartResolver r) = Some 0" "wake_rank (Did KDial r) = Some 1" "wake_rank (Did KPostResume r) = Some 2"
  "wake_rank (Did KGuestDNS r) = Some 3" "wake_rank (Did KVerifyDNS r) = Some 3" "wake_rank (Did KStartAPI r) = Some 4"
  "wake_rank (Did (KTell l) r) = Some 5" "wake_rank (Did KStartForwarder r) = Some 6" "wake_rank (Did KStartSleeper r) = Some 7"
  "wake_rank (Did KActivity r) = Some 8"
  by (simp_all add: wake_rank_def)

definition at_most :: "nat \<Rightarrow> wphase \<Rightarrow> bool" where
  "at_most n q = (\<exists>k \<le> n. q = WRuns k)"

lemma at_mostI: "k \<le> n \<Longrightarrow> at_most n (WRuns k)"
  by (auto simp: at_most_def)

lemma at_most_step: "at_most n q \<Longrightarrow> wake_rank e = Some k \<Longrightarrow> n \<le> k \<Longrightarrow> wstep False q e = WRuns k"
  by (auto simp: at_most_def runs_step)

lemma at_most_mono: "at_most n q \<Longrightarrow> n \<le> k \<Longrightarrow> at_most k q"
  by (auto simp: at_most_def)

lemma path_rank_call:
  assumes "at_most n q" and "\<And>r. wake_rank (Did c r) = Some k" and "n \<le> k"
  shows "path (wstep False) q (call B X c) (\<lambda>_ q'. q' = WRuns k)"
  by (rule path_call) (simp_all add: at_most_step [OF assms(1) assms(2) assms(3)])

lemma path_dial: "at_most 1 q \<Longrightarrow> path (wstep False) q (dial_awake n B X) (\<lambda>_ q'. at_most 1 q')"
proof (induction n arbitrary: q)
  case 0
  then show ?case by (simp add: path_weaken [OF path_rank_call] at_mostI)
next
  case (Suc n)
  have "path (wstep False) q (call B X KDial) (\<lambda>_ q'. q' = WRuns 1)" by (rule path_rank_call [OF Suc.prems]) simp_all
  then show ?case by (auto intro!: path_then path_option path_ret path_ask path_if Suc.IH at_mostI elim!: path_weaken simp del: One_nat_def)
qed

lemma path_dns: "at_most 3 q \<Longrightarrow> path (wstep False) q (configure_guest_dns B X port) (\<lambda>_ q'. at_most 3 q')"
  unfolding configure_guest_dns_def
  by (auto intro!: path_if path_ret path_then path_option path_ask path_weaken [OF path_rank_call] at_mostI)

lemma path_post: "at_most 1 q \<Longrightarrow> path (wstep False) q (post_resume B X meta port) (\<lambda>_ q'. at_most 3 q')"
  unfolding post_resume_def
  by (auto intro!: path_if path_ret path_then path_weaken [OF path_rank_call [where k = 2]] path_weaken [OF path_dns] at_mostI)

lemma path_helpers: "at_most 4 q \<Longrightarrow> path (wstep False) q (wake_helpers B X m opts) (\<lambda>_ q'. at_most 8 q')"
  unfolding wake_helpers_def tell_sleeper_def
  by (auto intro!: path_rules simp: at_most_step at_most_def runs_step)

lemma path_reconnect: "at_most 0 q \<Longrightarrow> path (wstep False) q (wake_reconnect B X m ep s p opts) (\<lambda>_ q'. at_most 8 q')"
  unfolding wake_reconnect_def
  by (auto intro!: path_then path_weaken [OF path_dial] path_option path_ret path_weaken [OF path_post] path_if
      path_weaken [OF path_rank_call [where k = 4]] path_weaken [OF path_helpers] at_mostI elim: at_most_mono)

lemma path_wake_failed:
  assumes "q = (if ce_kind e = KIncompatible then WBad else WFailed)"
  shows "path (wstep sh) q (wake_failed B X m e) (woke_so sh)"
  using assms unfolding wake_failed_def discard_incompatible_def
  by (auto intro!: path_rules simp: woke_so_def kind_of_def)

lemma path_resolver: "path D q (start_resolver B X ep) (\<lambda>_ q'. q' = q \<or> (\<exists>r. q' = D q (Did KStartResolver r)))"
  unfolding start_resolver_def by (auto intro!: path_rules split: sum.split)

text \<open>After the backend's answer, before the resolver's.\<close>

definition restored :: "cerr option \<Rightarrow> wphase" where
  "restored r = (case r of None \<Rightarrow> WRuns 0 | Some e \<Rightarrow> if ce_kind e = KIncompatible then WBad else WFailed)"

lemma restored_resolver: "wstep False (restored r) (Did KStartResolver x) = restored r"
  by (auto simp: restored_def wake_rank_def split: option.split)

lemma path_resume: "path (wstep sh) (WNet b) (backend_call KResume p) (\<lambda>r q. q = restored r)"
  by (rule path_backend_call) (auto simp: restored_def kind_of_def split: option.split)

lemma path_restore:
  assumes "wo_forShutdown opts = sh"
  shows "path (wstep sh) (WNet False) (wake_restore B X m att ep s opts) (woke_so sh)"
proof -
  have res: "path (wstep False) q (start_resolver B X ep) (\<lambda>_ q'. q' = q)" if "q = restored r" for q r
    using that by (auto intro!: path_weaken [OF path_resolver] simp: restored_resolver)
  have res0: "path (wstep False) (WNet False) (start_resolver B X ep) (\<lambda>_ q'. \<exists>b. q' = WNet b)"
    by (auto intro!: path_weaken [OF path_resolver])
  have bad: "path (wstep sh) (restored (Some e)) (wake_failed B X m e) (woke_so sh)" for e sh
    by (rule path_wake_failed) (simp add: restored_def)
  have good: "path (wstep False) (restored None) (wake_reconnect B X m ep s p opts) (\<lambda>_ q'. at_most 8 q')" for p
    by (rule path_reconnect) (simp add: restored_def at_mostI)
  show ?thesis
  proof (cases sh)
    case True
    then show ?thesis
      unfolding wake_restore_def using assms
      by (auto intro!: path_then path_if path_ask path_ret path_weaken [OF path_resume] bad path_option simp: woke_so_def restored_def)
  next
    case False
    then show ?thesis
      unfolding wake_restore_def using assms
      by (auto intro!: path_then path_if path_ask path_ret path_weaken [OF res0] path_weaken [OF path_resume] path_weaken [OF res] bad
          path_option path_weaken [OF good] simp: woke_so_def at_most_def restored_def)
  qed
qed

lemma path_network:
  assumes "q \<in> {WStart, WTold}" and "wo_forShutdown opts = sh"
  shows "path (wstep sh) q (wake_network B X m s opts) (woke_so sh)"
  using assms(1) unfolding wake_network_def
  by (auto intro!: path_then path_ask path_log path_sum path_prod path_call path_ret path_restore [OF assms(2)] simp: woke_so_def
      split: sum.split)

lemma path_wake:
  assumes "wo_forShutdown opts = sh"
  shows "path (wstep sh) WStart (wake_machine B X m opts) (woke_so sh)"
  unfolding wake_machine_def
  by (auto intro!: path_if path_ret path_then path_backend path_sum path_ask path_weaken [OF path_release] path_option
      path_network [OF _ assms] simp: woke_so_def)


end
