(* ===== verification/Cli_Start.thy ===== *)
theory Cli_Start
  imports Cli_Wake Forwarder_Desired
begin

text \<open>
  \<^verbatim>\<open>jm start\<close> (\<^verbatim>\<open>internal/cli/start.go\<close>): the lock, the recovery, the repair of a broken machine, the wake of a suspended one
  and the stages of a boot, with their waits. A step of the guest that can only warn is a call whose answer is not used.
  Progress lines are left out. The waits end by their deadline: \<open>n\<close> turns, or earlier when the command is cancelled.
\<close>

section \<open>Options, the lock and the record\<close>

record start_opts =
  st_waitLock :: bool
  st_skipIfReady :: bool
  st_fromHelper :: bool
  st_wakeOnly :: bool
  st_wakeBy :: string
  st_setDefault :: bool

definition lock_err :: "machine \<Rightarrow> bool \<Rightarrow> string option \<Rightarrow> cerr" where
  "lock_err m wait r =
     plain_err (if wait then ''waiting for another jm command operating on '' @ quote (mc_name m) @ '': '' @ (case r of None \<Rightarrow> ''locked'' | Some t \<Rightarrow> t)
                else case r of None \<Rightarrow> ''another jm command is operating on '' @ quote (mc_name m) @ ''; try again shortly'' | Some t \<Rightarrow> t)"

definition take_lock :: "('s, 'e) bops \<Rightarrow> 'e ext \<Rightarrow> machine \<Rightarrow> bool \<Rightarrow> ('s, cerr option) cm" where
  "take_lock B X m wait = do {
     l \<leftarrow> ask B (x_lock X);
     case l of
       Inl t \<Rightarrow> State_Monad.return (Some (lock_err m wait (Some t)))
     | Inr got \<Rightarrow>
         (if \<not> got then State_Monad.return (Some (lock_err m wait None))
          else do { log_entry (Did KLock None); State_Monad.return None }) }"

definition save_record :: "('s, 'e) bops \<Rightarrow> 'e ext \<Rightarrow> machine \<Rightarrow> ('s, cerr + machine) cm" where
  "save_record B X m = do { r \<leftarrow> call B X KSave; State_Monad.return (case r of Some t \<Rightarrow> Inl (plain_err t) | None \<Rightarrow> Inr m) }"

definition apply_publish_env :: "('s, 'e) bops \<Rightarrow> 'e ext \<Rightarrow> machine \<Rightarrow> ('s, cerr + machine) cm" where
  "apply_publish_env B X m = do {
     v \<leftarrow> ask B (x_publish X);
     case v of
       None \<Rightarrow> State_Monad.return (Inr m)
     | Some t \<Rightarrow> (case parse_publish_addr (x_parseIP X) t of
           Inl e \<Rightarrow> State_Monad.return (Inl (plain_err (''$JM_PUBLISH_ADDR: '' @ e)))
         | Inr addr \<Rightarrow> (if addr = mc_publishAddr m then State_Monad.return (Inr m)
             else save_record B X (m\<lparr>mc_publishAddr := addr\<rparr>))) }"

text \<open>The two folds of the environment into the record, which a detached helper leaves out.\<close>

definition fold_env :: "('s, 'e) bops \<Rightarrow> 'e ext \<Rightarrow> machine \<Rightarrow> bool \<Rightarrow> ('s, cerr + machine) cm" where
  "fold_env B X m helper =
     (if helper then State_Monad.return (Inr m)
      else do {
        r \<leftarrow> apply_publish_env B X m;
        case r of
          Inl e \<Rightarrow> State_Monad.return (Inl e)
        | Inr m1 \<Rightarrow> (if x_mtu X \<noteq> mc_mtu m1 then save_record B X (m1\<lparr>mc_mtu := x_mtu X\<rparr>) else State_Monad.return (Inr m1)) })"

section \<open>Hints\<close>

text \<open>\<^verbatim>\<open>portInUse\<close>: the first match of \<^verbatim>\<open>listen tcp [^ ]*:(\d+): bind: address already in use\<close>.\<close>

definition digits_before :: "string \<Rightarrow> string option" where
  "digits_before w =
     (let d = rev (takeWhile is_digit (rev w)); p = rev (dropWhile is_digit (rev w))
      in if d \<noteq> [] \<and> p \<noteq> [] \<and> last p = CHR '':'' then Some d else None)"

definition port_here :: "string \<Rightarrow> string option" where
  "port_here s =
     (case cut_prefix s ''listen tcp '' of
        None \<Rightarrow> None
      | Some r \<Rightarrow> (case cut CHR '' '' r of (w, rest) \<Rightarrow>
          (if w \<noteq> [] \<and> last w = CHR '':'' \<and> (case rest of None \<Rightarrow> False | Some x \<Rightarrow> has_prefix x ''bind: address already in use'')
           then digits_before (butlast w) else None)))"

fun port_in_use :: "string \<Rightarrow> string option" where
  "port_in_use [] = None"
| "port_in_use (c # s) = (case port_here (c # s) of Some p \<Rightarrow> Some p | None \<Rightarrow> port_in_use s)"

definition network_start_hint :: "'e ext \<Rightarrow> machine \<Rightarrow> string \<Rightarrow> string" where
  "network_start_hint X m err =
     (case port_in_use err of
        None \<Rightarrow> network_hint X
      | Some port \<Rightarrow>
          ''another process holds port '' @ port @ '' (lsof -nP -iTCP:'' @ port @ '' -sTCP:LISTEN)'' @
          (if port = itoa (mc_sshPort m) then ''; pick another SSH port: jm set '' @ mc_name m @ '' --ssh-port <port>'' else []) @
          ''; '' @ network_hint X)"

section \<open>Waiting for the guest\<close>

definition stage_timeout :: "bool \<Rightarrow> int \<Rightarrow> int" where
  "stage_timeout tcg ms = (if tcg then ms * 8 else ms)"

definition component_died :: "('s, 'e) bops \<Rightarrow> 'e ext \<Rightarrow> machine \<Rightarrow> string \<Rightarrow> string \<Rightarrow> ('s, cerr option) cm" where
  "component_died B X m stage during = do {
     b \<leftarrow> backend (bo_state B m);
     if (case b of Inl _ \<Rightarrow> False | Inr s \<Rightarrow> s \<noteq> Running)
     then State_Monad.return (Some (stage_err stage (console_hint B) (plain_err (''hypervisor exited '' @ during))))
     else do {
       p \<leftarrow> ask B (x_provState X);
       State_Monad.return
         (if (case p of Inl _ \<Rightarrow> False | Inr s \<Rightarrow> s \<noteq> Running)
          then Some (stage_err stage (network_hint X) (plain_err (x_provName X @ '' networking exited '' @ during)))
          else None) } }"

text \<open>\<^verbatim>\<open>waitSSH\<close> with \<^verbatim>\<open>sshx.WaitReady\<close>: a component found dead ends the wait at once.\<close>

fun wait_ssh :: "nat \<Rightarrow> ('s, 'e) bops \<Rightarrow> 'e ext \<Rightarrow> machine \<Rightarrow> ('s, cerr option) cm" where
  "wait_ssh 0 B X m = State_Monad.return (Some (stage_err ''ssh'' (console_hint B) (plain_err ''sshx: not reachable: context deadline exceeded'')))"
| "wait_ssh (Suc n) B X m = do {
     d \<leftarrow> component_died B X m ''ssh'' ''while waiting for ssh'';
     case d of
       Some e \<Rightarrow> State_Monad.return (Some e)
     | None \<Rightarrow> do {
         c \<leftarrow> call B X KDial;
         case c of
           None \<Rightarrow> State_Monad.return None
         | Some t \<Rightarrow> do {
             q \<leftarrow> ask B (x_late X);
             if q then State_Monad.return (Some (stage_err ''ssh'' (console_hint B) (plain_err (''sshx: not reachable: '' @ t))))
             else wait_ssh n B X m } } }"

definition ssh_turns :: "bool \<Rightarrow> nat" where "ssh_turns tcg = polls (stage_timeout tcg 300000) 2000"
definition provision_turns :: "bool \<Rightarrow> nat" where "provision_turns tcg = polls (stage_timeout tcg 900000) 5000"
definition down_turns :: nat where "down_turns = polls 60000 2000"
definition socket_turns :: nat where "socket_turns = polls 30000 2000"

definition provision_err :: "machine \<Rightarrow> string \<Rightarrow> cerr" where
  "provision_err m t = stage_err ''provision'' (''log: jm ssh'' @ name_hint (mc_name m) @ '' tail -f /var/log/jm-provision.log'') (plain_err t)"

text \<open>The loop of \<^verbatim>\<open>waitProvisioned\<close>: a dropped connection is dialled again.\<close>

fun provision_loop :: "nat \<Rightarrow> ('s, 'e) bops \<Rightarrow> 'e ext \<Rightarrow> machine \<Rightarrow> ('s, cerr option) cm" where
  "provision_loop 0 B X m = State_Monad.return (Some (provision_err m ''timed out waiting for provisioning''))"
| "provision_loop (Suc n) B X m = do {
     q \<leftarrow> ask B (x_late X);
     if q then State_Monad.return (Some (provision_err m ''timed out waiting for provisioning''))
     else do {
       d \<leftarrow> component_died B X m ''provision'' ''during provisioning'';
       case d of
         Some e \<Rightarrow> State_Monad.return (Some e)
       | None \<Rightarrow> do {
           f \<leftarrow> ask B (x_exists X ''provision failed'');
           if f = Inr True then State_Monad.return (Some (provision_err m ''provisioning script failed in the guest''))
           else do {
             r \<leftarrow> ask B (x_exists X ''provisioned'');
             case r of
               Inl _ \<Rightarrow> do { _ \<leftarrow> call B X KDial; provision_loop n B X m }
             | Inr ok \<Rightarrow> (if ok then State_Monad.return None else provision_loop n B X m) } } } }"

definition wait_provisioned :: "bool \<Rightarrow> ('s, 'e) bops \<Rightarrow> 'e ext \<Rightarrow> machine \<Rightarrow> ('s, cerr option) cm" where
  "wait_provisioned tcg B X m = do {
     f \<leftarrow> ask B (x_exists X ''provision failed'');
     if f = Inr True then State_Monad.return (Some (provision_err m ''provisioning script failed in the guest''))
     else do {
       r \<leftarrow> ask B (x_exists X ''provisioned'');
       if r = Inr True then State_Monad.return None else provision_loop (provision_turns tcg) B X m } }"

definition parse_kernel_versions :: "string \<Rightarrow> (string \<times> string) option" where
  "parse_kernel_versions out =
     (case split_on CHR 0x0A (trim_space out) of
        [a, b] \<Rightarrow> (if trim_space a \<noteq> [] \<and> trim_space b \<noteq> [] then Some (trim_space a, trim_space b) else None)
      | _ \<Rightarrow> None)"

fun wait_down :: "nat \<Rightarrow> ('s, 'e) bops \<Rightarrow> 'e ext \<Rightarrow> ('s, unit) cm" where
  "wait_down 0 B X = State_Monad.return ()"
| "wait_down (Suc n) B X = do {
     c \<leftarrow> call B X KDial;
     case c of
       Some _ \<Rightarrow> State_Monad.return ()
     | None \<Rightarrow> do {
         q \<leftarrow> ask B (x_late X);
         if q then State_Monad.return () else wait_down n B X } }"

definition kernel_cmd :: string where "kernel_cmd = ''freebsd-version -k; freebsd-version -r''"

definition kernel_err :: "machine \<Rightarrow> string \<Rightarrow> cerr" where
  "kernel_err m t = stage_err ''provision'' (''check: jm ssh'' @ name_hint (mc_name m) @ '' '' @ CHR 0x27 # kernel_cmd @ [CHR 0x27]) (plain_err t)"

text \<open>After the reboot the running kernel must be the one on disk.\<close>

definition check_kernel :: "('s, 'e) bops \<Rightarrow> 'e ext \<Rightarrow> machine \<Rightarrow> ('s, cerr option) cm" where
  "check_kernel B X m = do {
     r \<leftarrow> ask B (x_run X kernel_cmd);
     State_Monad.return (case r of
       Inl t \<Rightarrow> Some (kernel_err m (''reading the guest kernel version after the reboot: '' @ t))
     | Inr out \<Rightarrow> (case parse_kernel_versions out of
           None \<Rightarrow> None
         | Some (disk, running) \<Rightarrow> (if disk \<noteq> running
             then Some (kernel_err m (''guest still runs kernel '' @ running @ '' after rebooting into '' @ disk)) else None))) }"

definition reboot_for_new_kernel :: "bool \<Rightarrow> ('s, 'e) bops \<Rightarrow> 'e ext \<Rightarrow> machine \<Rightarrow> ('s, cerr option) cm" where
  "reboot_for_new_kernel tcg B X m = do {
     r \<leftarrow> ask B (x_run X kernel_cmd);
     case r of
       Inl t \<Rightarrow> State_Monad.return (Some (kernel_err m (''reading the guest kernel version: '' @ t)))
     | Inr out \<Rightarrow> (case parse_kernel_versions out of
           None \<Rightarrow> State_Monad.return None
         | Some (disk, running) \<Rightarrow>
             (if disk = running then State_Monad.return None
              else do {
                _ \<leftarrow> call B X (KStage ''shutdown -r now'');
                wait_down down_turns B X;
                w \<leftarrow> wait_ssh (ssh_turns tcg) B X m;
                case w of Some e \<Rightarrow> State_Monad.return (Some e) | None \<Rightarrow> check_kernel B X m })) }"

fun wait_guest_socket :: "nat \<Rightarrow> ('s, 'e) bops \<Rightarrow> 'e ext \<Rightarrow> machine \<Rightarrow> ('s, cerr option) cm" where
  "wait_guest_socket 0 B X m = State_Monad.return (Some (provision_err m ''guest podman socket did not appear''))"
| "wait_guest_socket (Suc n) B X m = do {
     r \<leftarrow> ask B (x_exists X ''podman socket'');
     if r = Inr True then State_Monad.return None
     else do {
       q \<leftarrow> ask B (x_late X);
       if q then State_Monad.return (Some (provision_err m (case r of Inl t \<Rightarrow> t | Inr _ \<Rightarrow> ''guest podman socket did not appear'')))
       else wait_guest_socket n B X m } }"

section \<open>Stages\<close>

definition finish_pending_grow :: "('s, 'e) bops \<Rightarrow> 'e ext \<Rightarrow> machine \<Rightarrow> ('s, machine) cm" where
  "finish_pending_grow B X m =
     (if \<not> pending_grow m then State_Monad.return m
      else do {
        r \<leftarrow> call B X (KStage ''grow'');
        case r of
          Some _ \<Rightarrow> State_Monad.return m
        | None \<Rightarrow> do { _ \<leftarrow> call B X KSave; State_Monad.return (set_pending_grow False m) } })"

definition connection_add :: "('s, 'e) bops \<Rightarrow> 'e ext \<Rightarrow> endpoint \<Rightarrow> bool \<Rightarrow> ('s, string option) cm" where
  "connection_add B X ep make_default = do {
     a \<leftarrow> call B X (KStage ''podman system connection add'');
     case a of
       Some t \<Rightarrow> State_Monad.return (Some t)
     | None \<Rightarrow> do {
         d \<leftarrow> (if make_default then call B X (KStage ''podman system connection default'') else State_Monad.return None);
         case d of
           Some t \<Rightarrow> State_Monad.return (Some t)
         | None \<Rightarrow> (if ep_api ep \<noteq> [] then call B X (KStage ''podman system connection add -sock'') else State_Monad.return None) } }"

text \<open>The forwarder and the sleeper.\<close>

definition start_helpers :: "('s, 'e) bops \<Rightarrow> 'e ext \<Rightarrow> ('s, cerr option) cm" where
  "start_helpers B X = do {
     f \<leftarrow> call B X KStartForwarder;
     case f of
       Some t \<Rightarrow> State_Monad.return (Some (plain_err t))
     | None \<Rightarrow> do { _ \<leftarrow> call B X KStartSleeper; State_Monad.return None } }"

text \<open>The stage connect, and what follows it: the podman connections, the record, the helpers.\<close>

definition start_connection :: "('s, 'e) bops \<Rightarrow> 'e ext \<Rightarrow> machine \<Rightarrow> start_opts \<Rightarrow> endpoint \<Rightarrow> ('s, cerr option) cm" where
  "start_connection B X m opts ep = do {
     _ \<leftarrow> call B X (KStage ''forget host key'');
     was \<leftarrow> ask B (x_holds X ''default podman connection'');
     _ \<leftarrow> call B X (KStage ''podman system connection remove'');
     c \<leftarrow> connection_add B X ep (was \<or> st_setDefault opts);
     case c of
       Some t \<Rightarrow> State_Monad.return (Some (stage_err ''connect'' (''is podman installed? brew install podman; then re-run '' @ start_hint m []) (plain_err t)))
     | None \<Rightarrow> do {
         s \<leftarrow> (if \<not> mc_provisioned m then call B X KSave else State_Monad.return None);
         case s of Some t \<Rightarrow> State_Monad.return (Some (plain_err t)) | None \<Rightarrow> start_helpers B X } }"

definition start_connect :: "('s, 'e) bops \<Rightarrow> 'e ext \<Rightarrow> machine \<Rightarrow> start_opts \<Rightarrow> endpoint \<Rightarrow> ('s, cerr option) cm" where
  "start_connect B X m opts ep = do {
     a \<leftarrow> (if x_forwards X \<and> ep_api ep \<noteq> [] then call B X KStartAPI else State_Monad.return None);
     case a of
       Some t \<Rightarrow> State_Monad.return (Some (stage_err ''connect'' (network_hint X) (plain_err t)))
     | None \<Rightarrow> start_connection B X m opts ep }"

text \<open>The stages provision and dns, once sshd answers.\<close>

definition start_provision :: "bool \<Rightarrow> ('s, 'e) bops \<Rightarrow> 'e ext \<Rightarrow> machine \<Rightarrow> start_opts \<Rightarrow> endpoint \<Rightarrow> int \<Rightarrow> ('s, cerr option) cm" where
  "start_provision tcg B X m opts ep port = do {
     p \<leftarrow> wait_provisioned tcg B X m;
     case p of
       Some e \<Rightarrow> State_Monad.return (Some e)
     | None \<Rightarrow> do {
         k \<leftarrow> reboot_for_new_kernel tcg B X m;
         case k of
           Some e \<Rightarrow> State_Monad.return (Some e)
         | None \<Rightarrow> do {
             s \<leftarrow> wait_guest_socket socket_turns B X m;
             case s of
               Some e \<Rightarrow> State_Monad.return (Some e)
             | None \<Rightarrow> do {
                 _ \<leftarrow> call B X (KStage ''share support'');
                 _ \<leftarrow> call B X (KStage ''sshd configuration'');
                 d \<leftarrow> configure_guest_dns B X port;
                 case d of Some e \<Rightarrow> State_Monad.return (Some e) | None \<Rightarrow> start_connect B X m opts ep } } } }"

text \<open>From the stage ssh on: the guest has been booted, or ran already.\<close>

definition start_guest :: "('s, 'e) bops \<Rightarrow> 'e ext \<Rightarrow> machine \<Rightarrow> start_opts \<Rightarrow> endpoint \<Rightarrow> int \<Rightarrow> ('s, cerr option) cm" where
  "start_guest B X m opts ep port = do {
     tcg \<leftarrow> ask B (x_holds X ''no hardware acceleration'');
     c \<leftarrow> wait_ssh (ssh_turns tcg) B X m;
     case c of
       Some e \<Rightarrow> State_Monad.return (Some e)
     | None \<Rightarrow> do {
         m1 \<leftarrow> finish_pending_grow B X m;
         _ \<leftarrow> call B X (KStage ''clock'');
         _ \<leftarrow> call B X (KStage ''arc'');
         _ \<leftarrow> call B X KRemount;
         start_provision tcg B X m1 opts ep port } }"

text \<open>The stage backend: a hypervisor that does not start takes the provider and the resolver with it.\<close>

definition start_backend :: "('s, 'e) bops \<Rightarrow> 'e ext \<Rightarrow> machine \<Rightarrow> start_opts \<Rightarrow> bool \<Rightarrow> attachment \<Rightarrow> endpoint \<Rightarrow> int \<Rightarrow> ('s, cerr option) cm" where
  "start_backend B X m opts running att ep port =
     (if running then start_guest B X m opts ep port
      else do {
        r \<leftarrow> backend_call KStart (bo_start B m att);
        case r of
          Some e \<Rightarrow> do {
            _ \<leftarrow> call B X KProvStop;
            _ \<leftarrow> call B X KStopResolver;
            State_Monad.return (Some (stage_err ''backend'' (console_hint B) e)) }
        | None \<Rightarrow> start_guest B X m opts ep port })"

text \<open>The stages network and dns (the host's half).\<close>

definition start_network :: "('s, 'e) bops \<Rightarrow> 'e ext \<Rightarrow> machine \<Rightarrow> start_opts \<Rightarrow> bool \<Rightarrow> ('s, cerr option) cm" where
  "start_network B X m opts running = do {
     r \<leftarrow> ask B (x_provStart X);
     log_entry (Did KProvStart (case r of Inl _ \<Rightarrow> Some KOther | Inr _ \<Rightarrow> None));
     case r of
       Inl t \<Rightarrow> State_Monad.return (Some (stage_err ''network'' (network_start_hint X m t) (plain_err t)))
     | Inr (att, ep) \<Rightarrow> do {
         s \<leftarrow> (if ep_guestIP ep \<noteq> mc_guestIP m then save_record B X (m\<lparr>mc_guestIP := ep_guestIP ep\<rparr>) else State_Monad.return (Inr m));
         case s of
           Inl e \<Rightarrow> State_Monad.return (Some e)
         | Inr m1 \<Rightarrow> do {
             d \<leftarrow> start_resolver B X ep;
             case d of Inl e \<Rightarrow> State_Monad.return (Some e) | Inr port \<Rightarrow> start_backend B X m1 opts running att ep port } } }"

definition start_stages :: "('s, 'e) bops \<Rightarrow> 'e ext \<Rightarrow> machine \<Rightarrow> start_opts \<Rightarrow> bool \<Rightarrow> ('s, cerr option) cm" where
  "start_stages B X m opts running = do {
     r \<leftarrow> fold_env B X m (st_fromHelper opts);
     case r of Inl e \<Rightarrow> State_Monad.return (Some e) | Inr m1 \<Rightarrow> start_network B X m1 opts running }"

section \<open>Before the stages\<close>

definition guest_poweroff :: "('s, 'e) bops \<Rightarrow> 'e ext \<Rightarrow> ('s, unit) cm" where
  "guest_poweroff B X = do {
     e \<leftarrow> ask B (x_endpoint X);
     case e of
       Inl _ \<Rightarrow> State_Monad.return ()
     | Inr _ \<Rightarrow> do {
         c \<leftarrow> call B X KDial;
         case c of Some _ \<Rightarrow> State_Monad.return () | None \<Rightarrow> do { _ \<leftarrow> call B X KPoweroff; State_Monad.return () } } }"

text \<open>\<^verbatim>\<open>repairBroken\<close>.\<close>

definition repair_broken :: "('s, 'e) bops \<Rightarrow> 'e ext \<Rightarrow> machine \<Rightarrow> bool \<Rightarrow> ('s, cerr option) cm" where
  "repair_broken B X m graceful = do {
     _ \<leftarrow> call B X KStopForwarder;
     _ \<leftarrow> call B X KStopResolver;
     b \<leftarrow> backend (bo_state B m);
     case b of
       Inl e \<Rightarrow> State_Monad.return (Some e)
     | Inr s \<Rightarrow> (let g = (s = Running \<and> graceful) in do {
         (if g then guest_poweroff B X else State_Monad.return ());
         r \<leftarrow> backend_call (KStop g) (bo_stop B m g);
         case r of
           Some e \<Rightarrow> State_Monad.return (Some e)
         | None \<Rightarrow> do { p \<leftarrow> call B X KProvStop; State_Monad.return (map_option plain_err p) } }) }"

text \<open>\<^verbatim>\<open>ready\<close> and \<^verbatim>\<open>engineReachable\<close>.\<close>

definition engine_reachable :: "('s, 'e) bops \<Rightarrow> 'e ext \<Rightarrow> ('s, bool) cm" where
  "engine_reachable B X = do {
     e \<leftarrow> ask B (x_endpoint X);
     case e of Inl _ \<Rightarrow> State_Monad.return True | Inr ep \<Rightarrow> (if ep_api ep = [] then State_Monad.return True else ask B (x_engine X)) }"

definition all_ready :: "('s, 'e) bops \<Rightarrow> 'e ext \<Rightarrow> bstate \<Rightarrow> ('s, bool) cm" where
  "all_ready B X s = do {
     j \<leftarrow> journal_there B;
     if ready_now s j then engine_reachable B X else State_Monad.return False }"

text \<open>What a broken machine became: suspended or stopped, or the error.\<close>

definition start_repair :: "('s, 'e) bops \<Rightarrow> 'e ext \<Rightarrow> machine \<Rightarrow> ('s, cerr + bstate) cm" where
  "start_repair B X m = do {
     r \<leftarrow> repair_broken B X m True;
     case r of
       Some e \<Rightarrow> State_Monad.return (Inl e)
     | None \<Rightarrow> do {
         st \<leftarrow> machine_state B X m;
         State_Monad.return (case st of
           Inl e \<Rightarrow> Inl e
         | Inr s \<Rightarrow> (if s = Broken \<or> s = Running
             then Inl (with_hint (plain_err (mc_name m @ '' is still '' @ bstate_text s @ '' after the repair'')) (console_hint B @ ''; '' @ network_hint X))
             else Inr s)) } }"

definition wake_or_boot :: "('s, 'e) bops \<Rightarrow> 'e ext \<Rightarrow> machine \<Rightarrow> start_opts \<Rightarrow> ('s, cerr option) cm" where
  "wake_or_boot B X m opts = do {
     w \<leftarrow> wake_machine B X m \<lparr>wo_forShutdown = False, wo_by = st_wakeBy opts\<rparr>;
     case w of (resumed, err) \<Rightarrow>
       (case err of
          Some e \<Rightarrow> State_Monad.return (Some e)
        | None \<Rightarrow> (if resumed then State_Monad.return None else start_stages B X m opts False)) }"

text \<open>From a state that is not broken, after recovery did \<open>a\<close>.\<close>

definition start_from :: "('s, 'e) bops \<Rightarrow> 'e ext \<Rightarrow> machine \<Rightarrow> start_opts \<Rightarrow> raction \<Rightarrow> bstate \<Rightarrow> ('s, cerr option) cm" where
  "start_from B X m opts a s = do {
     j \<leftarrow> journal_there B;
     if s = Running \<and> j
     then State_Monad.return (Some (with_hint (plain_err (''a suspend or wake of '' @ mc_name m @ '' was interrupted and could not be resolved'')) (console_hint B)))
     else if st_wakeOnly opts \<and> s = Stopped \<and> a \<noteq> RDiscarded
     then State_Monad.return (Some (with_hint (plain_err (mc_name m @ '' was stopped before it could be woken'')) (''run '' @ start_hint m [])))
     else if s = Suspended then wake_or_boot B X m opts
     else start_stages B X m opts (s = Running) }"

definition start_state :: "('s, 'e) bops \<Rightarrow> 'e ext \<Rightarrow> machine \<Rightarrow> start_opts \<Rightarrow> raction \<Rightarrow> bstate \<Rightarrow> ('s, cerr option) cm" where
  "start_state B X m opts a s = do {
     r \<leftarrow> (if st_skipIfReady opts then all_ready B X s else State_Monad.return False);
     if r then State_Monad.return None
     else if s = Broken
     then do { t \<leftarrow> start_repair B X m; case t of Inl e \<Rightarrow> State_Monad.return (Some e) | Inr s1 \<Rightarrow> start_from B X m opts a s1 }
     else start_from B X m opts a s }"

definition start_recovered :: "('s, 'e) bops \<Rightarrow> 'e ext \<Rightarrow> machine \<Rightarrow> start_opts \<Rightarrow> ('s, cerr option) cm" where
  "start_recovered B X m opts = do {
     r \<leftarrow> recover_transition B X m;
     case r of
       Inl e \<Rightarrow> State_Monad.return (Some e)
     | Inr a \<Rightarrow> do {
         st \<leftarrow> machine_state B X m;
         case st of Inl e \<Rightarrow> State_Monad.return (Some e) | Inr s \<Rightarrow> start_state B X m opts a s } }"

definition start_locked :: "('s, 'e) bops \<Rightarrow> 'e ext \<Rightarrow> machine \<Rightarrow> start_opts \<Rightarrow> ('s, cerr option) cm" where
  "start_locked B X m0 opts = do {
     l \<leftarrow> ask B (x_load X);
     case l of
       LoadGone t \<Rightarrow> State_Monad.return (Some (plain_err (''machine '' @ quote (mc_name m0) @ '' was removed while this command waited for it'')))
     | LoadBad t \<Rightarrow> State_Monad.return (Some (plain_err t))
     | Loaded m \<Rightarrow> start_recovered B X m opts }"

definition start_machine :: "('s, 'e) bops \<Rightarrow> 'e ext \<Rightarrow> machine \<Rightarrow> start_opts \<Rightarrow> ('s, cerr option) cm" where
  "start_machine B X m opts = do {
     l \<leftarrow> take_lock B X m (st_waitLock opts);
     case l of
       Some e \<Rightarrow> State_Monad.return (Some e)
     | None \<Rightarrow> do {
         r \<leftarrow> start_locked B X m opts;
         log_entry (Did KUnlock None);
         State_Monad.return r } }"

section \<open>The protocol of a start\<close>

definition rec_of :: "act \<Rightarrow> raction option" where
  "rec_of e = (case e of Rec a \<Rightarrow> Some a | _ \<Rightarrow> None)"

definition saw_of :: "act \<Rightarrow> bstate option" where
  "saw_of e = (case e of Saw s \<Rightarrow> Some s | _ \<Rightarrow> None)"

definition staged :: "act \<Rightarrow> bool" where
  "staged e = (case e of Did c _ \<Rightarrow> (case c of KStage _ \<Rightarrow> True | _ \<Rightarrow> False) | _ \<Rightarrow> False)"

definition stopped_with :: "act \<Rightarrow> (bool \<times> bool) option" where
  "stopped_with e = (case e of Did c r \<Rightarrow> (case c of KStop g \<Rightarrow> Some (g, r = None) | _ \<Rightarrow> None) | _ \<Rightarrow> None)"

lemma entry_simps [simp]:
  "rec_of (Rec a) = Some a" "rec_of (Did c r) = None" "rec_of (Saw s) = None"
  "saw_of (Saw s) = Some s" "saw_of (Did c r) = None" "saw_of (Rec a) = None"
  "staged (Did (KStage t) r)" "\<not> staged (Saw s)" "\<not> staged (Rec a)"
  "stopped_with (Did (KStop g) r) = Some (g, r = None)" "stopped_with (Saw s) = None" "stopped_with (Rec a) = None"
  by (simp_all add: rec_of_def saw_of_def staged_def stopped_with_def)

lemma staged_did [simp]: "staged (Did c r) \<longleftrightarrow> (\<exists>t. c = KStage t)"
  by (cases c) (simp_all add: staged_def)

lemma stopped_did [simp]: "(\<And>g. c \<noteq> KStop g) \<Longrightarrow> stopped_with (Did c r) = None"
  by (cases c) (auto simp: stopped_with_def)

datatype tphase =
    TStart | TLocked | TRec bool | TSaw bool bstate | TRepair bool nat | TMended bool bstate
  | TWake wphase | TBoot bool nat | TNoBoot nat | TEnd tphase | TWrong

text \<open>The calls of a boot, in order, but for saves of the record and the guest's steps that only warn.\<close>

definition boot_rank :: "act \<Rightarrow> nat option" where
  "boot_rank e =
     (if did KProvStart e then Some 1 else if did KStartResolver e then Some 2 else if went KStart e then Some 3
      else if did KDial e \<or> did KRemount e then Some 4 else if did KGuestDNS e \<or> did KVerifyDNS e then Some 5
      else if did KStartAPI e then Some 6 else if did KStartForwarder e then Some 7 else if did KStartSleeper e then Some 8 else None)"

text \<open>\<open>TBoot r n\<close>: the stages up to rank \<open>n\<close>, of a machine that was running already when \<open>r\<close>: only one that was not is booted,
  and the guest is used only after that.\<close>

definition boot_step :: "bool \<Rightarrow> nat \<Rightarrow> act \<Rightarrow> tphase" where
  "boot_step r n e =
     (if did KSave e \<or> staged e then TBoot r n
      else if did KStart e \<and> r then TWrong
      else if did KStart e \<and> \<not> went KStart e then (if n \<le> 2 then TNoBoot 0 else TWrong)
      else case boot_rank e of
             Some k \<Rightarrow> if n \<le> k \<and> (k = 3 \<longrightarrow> n \<le> 2) \<and> (r \<or> k \<le> 3 \<or> 3 \<le> n) then TBoot r k else TWrong
           | None \<Rightarrow> if went KUnlock e then TEnd (TBoot r n) else TWrong)"

definition repair_rank :: "act \<Rightarrow> nat option" where
  "repair_rank e =
     (if did KStopResolver e then Some 1 else if did KDial e then Some 2 else if did KPoweroff e then Some 3
      else case stopped_with e of
             Some (g, ok) \<Rightarrow> Some (if ok then 4 else 6)
           | None \<Rightarrow> if went KProvStop e then Some 5 else if did KProvStop e then Some 6 else None)"

text \<open>\<open>wo\<close>: the start only wakes; \<open>TRec d\<close>: recovery discarded an incomplete state when \<open>d\<close>.\<close>

fun tstep :: "bool \<Rightarrow> tphase \<Rightarrow> act \<Rightarrow> tphase" where
  "tstep wo TStart e = (if went KLock e then TLocked else TWrong)"
| "tstep wo TLocked e =
     (if did KRecover e \<or> did KPark e \<or> did KStopResolver e then TLocked
      else if went KUnlock e then TEnd TLocked
      else case rec_of e of Some a \<Rightarrow> TRec (a = RDiscarded) | None \<Rightarrow> TWrong)"
| "tstep wo (TRec d) e =
     (case saw_of e of Some s \<Rightarrow> TSaw d s | None \<Rightarrow> if went KUnlock e then TEnd (TRec d) else TWrong)"
| "tstep wo (TSaw d s) e =
     (if went KUnlock e then TEnd (TSaw d s)
      else if s = Broken then (if did KStopForwarder e then TRepair d 0 else TWrong)
      else if s = Suspended then (if wstep False WStart e \<noteq> WWrong then TWake (wstep False WStart e) else TWrong)
      else if s = Running then boot_step True 0 e
      else if wo \<and> \<not> d then TWrong else boot_step False 0 e)"
| "tstep wo (TRepair d n) e =
     (case saw_of e of
        Some s \<Rightarrow> if n = 5 then TMended d s else TWrong
      | None \<Rightarrow> (case repair_rank e of
            Some k \<Rightarrow> if n < k then TRepair d k else TWrong
          | None \<Rightarrow> if went KUnlock e then TEnd (TRepair d n) else TWrong))"
| "tstep wo (TMended d s) e =
     (if went KUnlock e then TEnd (TMended d s)
      else if s = Suspended then (if wstep False WStart e \<noteq> WWrong then TWake (wstep False WStart e) else TWrong)
      else if s = Stopped \<and> (\<not> wo \<or> d) then boot_step False 0 e else TWrong)"
| "tstep wo (TWake q) e =
     (if wstep False q e \<noteq> WWrong then TWake (wstep False q e)
      else if went KUnlock e then TEnd (TWake q)
      else if q = WBoot then boot_step False 0 e else TWrong)"
| "tstep wo (TBoot r n) e = boot_step r n e"
| "tstep wo (TNoBoot n) e =
     (if n = 0 \<and> did KProvStop e then TNoBoot 1 else if n = 1 \<and> did KStopResolver e then TNoBoot 2
      else if n = 2 \<and> went KUnlock e then TEnd (TNoBoot 2) else TWrong)"
| "tstep wo (TEnd q) _ = TWrong"
| "tstep wo TWrong _ = TWrong"

text \<open>A start that reports success found the machine ready, woke it, or went through every stage.\<close>

definition started :: "cerr option \<Rightarrow> tphase \<Rightarrow> bool" where
  "started r q =
     (if r = None then (\<exists>d. q = TEnd (TSaw d Running)) \<or> (\<exists>n. q = TEnd (TWake (WRuns n))) \<or> (\<exists>b. q = TEnd (TBoot b 8))
      else q = TStart \<or> (\<exists>p. q = TEnd p))"

lemma path_lift:
  assumes p: "path D q p T" and D: "\<And>q e. D q e \<noteq> W \<Longrightarrow> D' (f q) e = f (D q e)" and W: "\<And>e. D W e = W" and T: "\<And>x q. T x q \<Longrightarrow> q \<noteq> W"
  shows "path D' (f q) p (\<lambda>x q'. \<exists>q0. q' = f q0 \<and> T x q0)"
proof -
  have "foldl D q es \<noteq> W \<Longrightarrow> foldl D' (f q) es = f (foldl D q es)" for es
    by (induction es rule: rev_induct) (use W D in \<open>auto, metis\<close>)
  then show ?thesis using p T unfolding path_def by metis
qed

subsection \<open>The stages\<close>

definition booted :: "bool \<Rightarrow> nat \<Rightarrow> tphase \<Rightarrow> bool" where
  "booted b n q = (\<exists>k \<le> n. q = TBoot b k \<and> (b \<or> 3 \<le> k))"

lemma bootedI: "k \<le> n \<Longrightarrow> b \<or> 3 \<le> k \<Longrightarrow> booted b n (TBoot b k)"
  by (auto simp: booted_def)

lemma booted_mono: "booted b n q \<Longrightarrow> n \<le> k \<Longrightarrow> booted b k q"
  by (auto simp: booted_def)

lemma boot_ranks [simp]:
  "boot_rank (Did KProvStart r) = Some 1" "boot_rank (Did KStartResolver r) = Some 2" "boot_rank (Did KDial r) = Some 4"
  "boot_rank (Did KRemount r) = Some 4" "boot_rank (Did KGuestDNS r) = Some 5" "boot_rank (Did KVerifyDNS r) = Some 5"
  "boot_rank (Did KStartAPI r) = Some 6" "boot_rank (Did KStartForwarder r) = Some 7" "boot_rank (Did KStartSleeper r) = Some 8"
  "boot_rank (Did KUnlock r) = None"
  by (simp_all add: boot_rank_def)

lemma path_stage:
  "q = TBoot b n \<Longrightarrow> c = KSave \<or> (\<exists>t. c = KStage t) \<Longrightarrow> path (tstep wo) q (call B X c) (\<lambda>_ q'. q' = q)"
  by (auto intro!: path_call simp: boot_step_def)

lemma booted_stage: "booted b n q \<Longrightarrow> path (tstep wo) q (call B X (KStage t)) (\<lambda>_ q'. q' = q)"
  unfolding booted_def by (elim exE conjE) (rule path_stage, auto)

lemma booted_save: "booted b n q \<Longrightarrow> path (tstep wo) q (call B X KSave) (\<lambda>_ q'. q' = q)"
  unfolding booted_def by (elim exE conjE) (rule path_stage, auto)

lemma booted_call:
  assumes "booted b n q" and "c \<in> {KDial, KRemount, KGuestDNS, KVerifyDNS, KStartAPI, KStartForwarder, KStartSleeper}"
    and "\<And>r. boot_rank (Did c r) = Some k" and "n \<le> k" and "4 \<le> k"
  shows "path (tstep wo) q (call B X c) (\<lambda>_ q'. q' = TBoot b k)"
  using assms by (auto intro!: path_call simp: booted_def boot_step_def)

lemma path_component: "path D q (component_died B X m st du) (\<lambda>_ q'. q' = q)"
  unfolding component_died_def by (auto intro!: path_rules)

lemma path_wait_ssh: "booted b 4 q \<Longrightarrow> path (tstep wo) q (wait_ssh n B X m) (\<lambda>_ q'. booted b 4 q')"
proof (induction n arbitrary: q)
  case (Suc n)
  have dial: "path (tstep wo) q (call B X KDial) (\<lambda>_ q'. q' = TBoot b 4)" by (rule booted_call [OF Suc.prems]) simp_all
  show ?case
    by (auto intro!: path_then path_weaken [OF path_component] path_option path_ret path_weaken [OF dial] path_ask path_if Suc.IH
        bootedI simp: Suc.prems)
qed (auto intro: path_ret)

lemma path_provision_loop: "booted b 4 q \<Longrightarrow> path (tstep wo) q (provision_loop n B X m) (\<lambda>_ q'. booted b 4 q')"
proof (induction n arbitrary: q)
  case (Suc n)
  have dial: "path (tstep wo) q (call B X KDial) (\<lambda>_ q'. q' = TBoot b 4)" by (rule booted_call [OF Suc.prems]) simp_all
  show ?case
    by (auto intro!: path_then path_weaken [OF path_component] path_option path_sum path_ret path_weaken [OF dial] path_ask path_if Suc.IH
        bootedI simp: Suc.prems)
qed (auto intro: path_ret)

lemma path_wait_provisioned: "booted b 4 q \<Longrightarrow> path (tstep wo) q (wait_provisioned tcg B X m) (\<lambda>_ q'. booted b 4 q')"
  unfolding wait_provisioned_def by (auto intro!: path_then path_ask path_if path_ret path_provision_loop)

lemma path_wait_down: "booted b 4 q \<Longrightarrow> path (tstep wo) q (wait_down n B X) (\<lambda>_ q'. booted b 4 q')"
proof (induction n arbitrary: q)
  case (Suc n)
  have dial: "path (tstep wo) q (call B X KDial) (\<lambda>_ q'. q' = TBoot b 4)" by (rule booted_call [OF Suc.prems]) simp_all
  show ?case by (auto intro!: path_then path_option path_ret path_weaken [OF dial] path_ask path_if Suc.IH bootedI)
qed (auto intro: path_ret)

lemma path_reboot: "booted b 4 q \<Longrightarrow> path (tstep wo) q (reboot_for_new_kernel tcg B X m) (\<lambda>_ q'. booted b 4 q')"
  unfolding reboot_for_new_kernel_def check_kernel_def
  by (auto intro!: path_then path_ask path_sum path_option path_prod path_if path_ret path_weaken [OF booted_stage]
      path_weaken [OF path_wait_down] path_weaken [OF path_wait_ssh])

lemma path_wait_socket: "path D q (wait_guest_socket n B X m) (\<lambda>_ q'. q' = q)"
  by (induction n) (auto intro!: path_rules)

lemma path_boot_dns: "booted b 5 q \<Longrightarrow> path (tstep wo) q (configure_guest_dns B X port) (\<lambda>_ q'. booted b 5 q')"
  unfolding configure_guest_dns_def
  by (auto intro!: path_if path_ret path_then path_option path_ask path_weaken [OF booted_call [where k = 5]] bootedI)

definition helped :: "bool \<Rightarrow> cerr option \<Rightarrow> tphase \<Rightarrow> bool" where
  "helped b r q = (if r = None then q = TBoot b 8 else booted b 7 q)"

lemma path_helpers_boot:
  assumes "booted b 6 q"
  shows "path (tstep wo) q (start_helpers B X) (helped b)"
proof -
  have f: "path (tstep wo) q (call B X KStartForwarder) (\<lambda>_ q'. q' = TBoot b 7)" by (rule booted_call [OF assms]) simp_all
  have s: "path (tstep wo) (TBoot b 7) (call B X KStartSleeper) (\<lambda>_ q'. q' = TBoot b 8)"
    by (rule booted_call [OF bootedI [of 7 7]]) simp_all
  show ?thesis
    unfolding start_helpers_def
    by (auto intro!: path_then path_option path_ret path_weaken [OF f] path_weaken [OF s] bootedI simp: helped_def)
qed

lemma path_connection: "booted b n q \<Longrightarrow> path (tstep wo) q (connection_add B X ep d) (\<lambda>_ q'. q' = q)"
  unfolding connection_add_def
  by (auto intro!: path_then path_option path_if path_ret path_weaken [OF booted_stage])

lemma helped_some: "booted b 6 q \<Longrightarrow> helped b (Some e) q"
  by (simp add: helped_def booted_mono)

lemma path_start_connection: "booted b 6 q \<Longrightarrow> path (tstep wo) q (start_connection B X m opts ep) (helped b)"
  unfolding start_connection_def
  by (auto intro!: path_then path_option path_ret path_ask path_if path_weaken [OF booted_stage] path_weaken [OF booted_save]
      path_weaken [OF path_connection] path_helpers_boot helped_some)

lemma path_start_connect:
  assumes "booted b 5 q"
  shows "path (tstep wo) q (start_connect B X m opts ep) (helped b)"
proof -
  have a: "path (tstep wo) q (call B X KStartAPI) (\<lambda>_ q'. q' = TBoot b 6)" by (rule booted_call [OF assms]) simp_all
  have "booted b 6 q" by (rule booted_mono [OF assms]) simp
  then show ?thesis
    unfolding start_connect_def
    by (auto intro!: path_then path_option path_ret path_if path_weaken [OF a] path_start_connection helped_some bootedI)
qed

lemma helped_at: "booted b 5 q \<Longrightarrow> helped b (Some e) q"
  by (simp add: helped_def booted_mono)

lemma path_provision:
  assumes "booted b 4 q"
  shows "path (tstep wo) q (start_provision tcg B X m opts ep port) (helped b)"
proof -
  have up: "booted b 4 q' \<Longrightarrow> booted b 5 q'" for q' by (erule booted_mono) simp
  then have err: "booted b 4 q' \<Longrightarrow> helped b (Some e) q'" for q' e by (blast intro: helped_at)
  from assms show ?thesis
    unfolding start_provision_def
    by (auto intro!: path_then path_option path_ret path_weaken [OF path_wait_provisioned] path_weaken [OF path_reboot]
        path_weaken [OF path_wait_socket] path_weaken [OF booted_stage] path_weaken [OF path_boot_dns] path_start_connect
        intro: up err helped_at)
qed

lemma path_guest:
  assumes "booted b 4 q"
  shows "path (tstep wo) q (start_guest B X m opts ep port) (helped b)"
proof -
  have mount: "path (tstep wo) q' (call B X KRemount) (\<lambda>_ q. q = TBoot b 4)" if "booted b 4 q'" for q'
    by (rule booted_call [OF that]) simp_all
  have err: "booted b 4 q' \<Longrightarrow> helped b (Some e) q'" for q' e by (rule helped_at, erule booted_mono) simp
  have grow: "path (tstep wo) q' (finish_pending_grow B X m) (\<lambda>_ q. q = q')" if "booted b 4 q'" for q'
    using that unfolding finish_pending_grow_def
    by (auto intro!: path_if path_ret path_then path_option path_weaken [OF booted_stage] path_weaken [OF booted_save])
  from assms show ?thesis
    unfolding start_guest_def
    by (auto intro!: path_then path_ask path_option path_ret path_weaken [OF path_wait_ssh] path_weaken [OF grow]
        path_weaken [OF booted_stage] path_weaken [OF mount] path_provision bootedI intro: err)
qed

lemma path_backend_stage:
  assumes "q = TBoot b n" and "n \<le> 2"
  shows "path (tstep wo) q (start_backend B X m opts b att ep port) (\<lambda>r q'. helped b r q' \<or> r \<noteq> None \<and> q' = TNoBoot 2)"
proof (cases b)
  case True
  then have "booted b 4 q" using assms by (auto simp: booted_def)
  then show ?thesis unfolding start_backend_def using True by (auto intro!: path_weaken [OF path_guest])
next
  case False
  have "path (tstep wo) (TBoot False 3) (start_guest B X m opts ep port) (helped False)"
    by (rule path_guest) (simp add: booted_def)
  then show ?thesis
    unfolding start_backend_def using False assms
    by (auto intro!: path_then path_option path_ret path_backend_call path_call
        simp: boot_step_def boot_rank_def kind_of_def elim: path_weaken split: option.split)
qed

text \<open>\<open>boots b q\<close>: a boot of a machine that was running when \<open>b\<close> can begin at \<open>q\<close>.\<close>

definition boots :: "bool \<Rightarrow> bool \<Rightarrow> tphase \<Rightarrow> bool" where
  "boots wo b q = (\<forall>e. did KSave e \<or> did KProvStart e \<longrightarrow> tstep wo q e = boot_step b 0 e)"

definition boot_ends :: "bool \<Rightarrow> tphase \<Rightarrow> cerr option \<Rightarrow> tphase \<Rightarrow> bool" where
  "boot_ends b q r q' = (if r = None then q' = TBoot b 8 else q' = q \<or> (\<exists>n. q' = TBoot b n) \<or> q' = TNoBoot 2)"

lemma helped_ends: "helped b r q' \<or> r \<noteq> None \<and> q' = TNoBoot 2 \<Longrightarrow> boot_ends b q r q'"
  by (auto simp: helped_def boot_ends_def booted_def split: if_splits)

lemma boots_save: "boots wo b q \<Longrightarrow> path (tstep wo) q (save_record B X m) (\<lambda>_ q'. q' = TBoot b 0)"
  unfolding save_record_def by (auto intro!: path_then path_call path_ret simp: boots_def boot_step_def)

lemma boots_zero: "boots wo b (TBoot b 0)"
  by (simp add: boots_def)

lemma path_fold_env:
  assumes "boots wo b q"
  shows "path (tstep wo) q (fold_env B X m h) (\<lambda>_ q'. q' = q \<or> q' = TBoot b 0)"
proof -
  have pub: "path (tstep wo) q (apply_publish_env B X m) (\<lambda>_ q'. q' = q \<or> q' = TBoot b 0)"
    unfolding apply_publish_env_def
    by (auto intro!: path_then path_ask path_option path_sum path_if path_ret path_weaken [OF boots_save [OF assms]])
  have s: "path (tstep wo) q' (save_record B X m1) (\<lambda>_ q'. q' = TBoot b 0)" if "q' = q \<or> q' = TBoot b 0" for q' m1
    using that assms boots_zero by (auto intro: boots_save)
  show ?thesis
    unfolding fold_env_def by (auto intro!: path_if path_ret path_then path_weaken [OF pub] path_sum path_weaken [OF s])
qed

lemma path_resolver_boot: "path (tstep wo) (TBoot b 1) (start_resolver B X ep) (\<lambda>_ q'. \<exists>n \<le> 2. q' = TBoot b n)"
  by (rule path_weaken [OF path_resolver]) (auto simp: boot_step_def)

lemma path_network_boot:
  assumes "boots wo b q"
  shows "path (tstep wo) q (start_network B X m opts b) (boot_ends b q0)"
proof -
  have p: "tstep wo q (Did KProvStart r) = TBoot b 1" for r
    using assms by (simp add: boots_def boot_step_def)
  have s: "path (tstep wo) (TBoot b 1) (save_record B X m1) (\<lambda>_ q'. q' = TBoot b 1)" for m1
    unfolding save_record_def by (auto intro!: path_then path_ret path_weaken [OF path_stage])
  have k: "path (tstep wo) q' (start_backend B X m1 opts b att ep port) (boot_ends b q0)" if "\<exists>n \<le> 2. q' = TBoot b n" for q' m1 att ep port
    using that by (auto intro!: path_weaken [OF path_backend_stage] helped_ends)
  show ?thesis
    unfolding start_network_def
    by (auto intro!: path_then path_ask path_log path_sum path_prod path_ret path_if path_weaken [OF s] path_weaken [OF path_resolver_boot] k
        simp: p boot_ends_def simp del: One_nat_def split: sum.split)
qed

lemma path_start_stages:
  assumes "boots wo b q"
  shows "path (tstep wo) q (start_stages B X m opts b) (boot_ends b q)"
proof -
  have n: "path (tstep wo) q' (start_network B X m1 opts b) (boot_ends b q)" if "q' = q \<or> q' = TBoot b 0" for q' m1
    using that assms boots_zero by (auto intro: path_network_boot)
  show ?thesis
    unfolding start_stages_def
    by (auto intro!: path_then path_weaken [OF path_fold_env [OF assms]] path_sum path_ret n simp: boot_ends_def)
qed

subsection \<open>Repair, wake and the whole start\<close>

lemma path_poweroff: "n \<le> 1 \<Longrightarrow> path (tstep wo) (TRepair d n) (guest_poweroff B X) (\<lambda>_ q. \<exists>k \<le> 3. q = TRepair d k)"
  unfolding guest_poweroff_def by (auto intro!: path_rules simp: repair_rank_def)

lemma path_repair:
  assumes "tstep wo q (Did KStopForwarder None) = TRepair d 0" and "tstep wo q (Did KStopForwarder (Some KOther)) = TRepair d 0"
  shows "path (tstep wo) q (repair_broken B X m g) (\<lambda>r q. \<exists>n. q = TRepair d n \<and> (r = None \<longrightarrow> n = 5))"
proof -
  have stop: "path (tstep wo) q (backend_call (KStop g) p \<bind> (\<lambda>r. case r of Some e \<Rightarrow> State_Monad.return (Some e)
      | None \<Rightarrow> call B X KProvStop \<bind> (\<lambda>p. State_Monad.return (map_option plain_err p))))
      (\<lambda>r q. \<exists>n. q = TRepair d n \<and> (r = None \<longrightarrow> n = 5))" if "\<exists>k \<le> 3. q = TRepair d k" for q g p
    using that by (auto intro!: path_rules simp: repair_rank_def kind_of_def)
  show ?thesis
    unfolding repair_broken_def Let_def
    by (auto intro!: path_then path_call path_backend path_sum path_ret path_if path_weaken [OF path_poweroff] stop
        simp: assms repair_rank_def)
qed

definition woken_at :: "tphase \<Rightarrow> wphase \<Rightarrow> tphase" where
  "woken_at q0 q = (if q = WStart then q0 else TWake q)"

lemma wstep_start: "wstep sh q e \<noteq> WStart"
  by (cases q) (auto split: option.split)

lemma path_wake_start:
  assumes "\<And>e. wstep False WStart e \<noteq> WWrong \<Longrightarrow> tstep wo q e = TWake (wstep False WStart e)" and "\<not> wo_forShutdown opts"
  shows "path (tstep wo) q (wake_machine B X m opts) (\<lambda>x q'. \<exists>w. q' = woken_at q w \<and> woke_so False x w)"
proof -
  have "path (tstep wo) (woken_at q WStart) (wake_machine B X m opts) (\<lambda>x q'. \<exists>w. q' = woken_at q w \<and> woke_so False x w)"
    by (rule path_lift [OF path_wake, of _ _ WWrong])
      (use assms(2) in \<open>auto simp: woken_at_def assms(1) wstep_start woke_so_def split: if_splits\<close>)
  then show ?thesis by (simp add: woken_at_def)
qed

text \<open>Before the lock is released.\<close>

definition ending_ok :: "cerr option \<Rightarrow> tphase \<Rightarrow> bool" where
  "ending_ok r p = ((\<forall>wo. tstep wo p (Did KUnlock None) = TEnd p) \<and>
     (r = None \<longrightarrow> (\<exists>d. p = TSaw d Running) \<or> (\<exists>n. p = TWake (WRuns n)) \<or> (\<exists>b. p = TBoot b 8)))"

lemma ending_boot: "(\<forall>wo. tstep wo q (Did KUnlock None) = TEnd q) \<Longrightarrow> boot_ends b q r q' \<Longrightarrow> ending_ok r q'"
  by (auto simp: ending_ok_def boot_ends_def boot_step_def split: if_splits)

lemma path_wake_or_boot:
  assumes "q = TSaw d Suspended \<or> q = TMended d Suspended"
  shows "path (tstep wo) q (wake_or_boot B X m opts) ending_ok"
proof -
  have w: "wstep False WStart e \<noteq> WWrong \<Longrightarrow> tstep wo q e = TWake (wstep False WStart e)" for e
    using assms by (auto simp: told_def did_def went_def split: act.splits call.splits)
  have u: "tstep w' q (Did KUnlock None) = TEnd q" for w' using assms by auto
  have wr: "tstep w' (TWake x) (Did KUnlock None) = TEnd (TWake x)" for w' x
    by (cases x) (auto simp: wake_rank_def)
  have "path (tstep wo) (TWake WBoot) (start_stages B X m opts False) (boot_ends False (TWake WBoot))"
    by (rule path_start_stages) (auto simp: boots_def went_def did_def split: act.splits)
  then have b: "path (tstep wo) (TWake WBoot) (start_stages B X m opts False) ending_ok"
    by (rule path_weaken) (rule ending_boot, auto simp: wr simp del: tstep.simps(7))
  show ?thesis
    unfolding wake_or_boot_def
    by (auto intro!: path_then path_weaken [OF path_wake_start [OF w]] path_option path_ret path_if b
        simp: woke_so_def woken_at_def ending_ok_def u wr simp del: tstep.simps(7) split: if_splits)
qed

text \<open>The state a start goes on from, as computed first or after the repair; \<open>d\<close>: recovery discarded an incomplete state.\<close>

lemma path_start_from:
  assumes "q = TSaw (a = RDiscarded) s \<and> s \<noteq> Broken \<or> q = TMended (a = RDiscarded) s \<and> (s = Stopped \<or> s = Suspended)"
  shows "path (tstep (st_wakeOnly opts)) q (start_from B X m opts a s) ending_ok"
proof -
  have u: "tstep wo q (Did KUnlock None) = TEnd q" for wo using assms by auto
  have err: "ending_ok (Some e) q" for e by (simp add: ending_ok_def u)
  have w: "s = Suspended \<Longrightarrow> path (tstep (st_wakeOnly opts)) q (wake_or_boot B X m opts) ending_ok"
    by (rule path_wake_or_boot) (use assms in auto)
  have b: "path (tstep (st_wakeOnly opts)) q (start_stages B X m opts (s = Running)) ending_ok"
    if "s \<noteq> Suspended" "\<not> (st_wakeOnly opts \<and> s = Stopped \<and> a \<noteq> RDiscarded)"
  proof (rule path_weaken [OF path_start_stages])
    show "boots (st_wakeOnly opts) (s = Running) q"
      using that assms by (cases s) (auto simp: boots_def went_def did_def split: act.splits)
  qed (erule ending_boot [rotated], simp add: u)
  show ?thesis
    unfolding start_from_def by (auto intro!: path_then path_journal path_if path_ret err w b)
qed

lemma path_start_repair:
  "path (tstep wo) (TSaw d Broken) (start_repair B X m)
     (\<lambda>r q. case r of Inl _ \<Rightarrow> \<forall>wo. tstep wo q (Did KUnlock None) = TEnd q | Inr s \<Rightarrow> q = TMended d s \<and> (s = Stopped \<or> s = Suspended))"
proof -
  have r: "path (tstep wo) (TSaw d Broken) (repair_broken B X m True) (\<lambda>r q. \<exists>n. q = TRepair d n \<and> (r = None \<longrightarrow> n = 5))"
    by (rule path_repair) simp_all
  have e: "b \<noteq> Broken \<Longrightarrow> b \<noteq> Running \<Longrightarrow> b = Stopped \<or> b = Suspended" for b by (cases b) auto
  show ?thesis
    unfolding start_repair_def
    by (auto dest: e intro!: path_then path_weaken [OF r] path_option path_ret path_state simp: repair_rank_def)
qed

lemma path_all_ready: "path D q (all_ready B X s) (\<lambda>r q'. q' = q \<and> (r \<longrightarrow> s = Running))"
  unfolding all_ready_def engine_reachable_def
  by (auto intro!: path_then path_journal path_if path_ret path_ask path_sum simp: ready_now_def)

lemma path_start_state:
  "path (tstep (st_wakeOnly opts)) (TSaw (a = RDiscarded) s) (start_state B X m opts a s) ending_ok"
proof -
  have rep: "path (tstep (st_wakeOnly opts)) (TSaw (a = RDiscarded) Broken)
      (start_repair B X m \<bind> (\<lambda>t. case t of Inl e \<Rightarrow> State_Monad.return (Some e) | Inr s1 \<Rightarrow> start_from B X m opts a s1)) ending_ok"
    by (rule path_then, rule path_weaken [OF path_start_repair])
      (auto intro!: path_ret path_start_from simp: ending_ok_def split: sum.splits)
  have ok: "s \<noteq> Broken \<Longrightarrow> path (tstep (st_wakeOnly opts)) (TSaw (a = RDiscarded) s) (start_from B X m opts a s) ending_ok"
    by (rule path_start_from) simp
  have fin: "ending_ok None (TSaw (a = RDiscarded) Running)" by (auto simp: ending_ok_def)
  show ?thesis
    unfolding start_state_def
    by (auto intro!: path_then path_if path_weaken [OF path_all_ready] path_ret rep ok fin)
qed

lemma path_recover_start:
  "path (tstep wo) TLocked (recover_transition B X m) (\<lambda>r q. case r of Inl _ \<Rightarrow> q = TLocked | Inr a \<Rightarrow> q = TRec (a = RDiscarded))"
  unfolding recover_transition_def by (auto intro!: path_rules)

lemma path_start_locked: "path (tstep (st_wakeOnly opts)) TLocked (start_locked B X m opts) ending_ok"
proof -
  have rec: "path (tstep (st_wakeOnly opts)) TLocked (start_recovered B X m opts) ending_ok" for m
    unfolding start_recovered_def
    by (rule path_then, rule path_weaken [OF path_recover_start])
      (auto intro!: path_ret path_then path_state path_start_state simp: ending_ok_def split: sum.splits)
  show ?thesis
    unfolding start_locked_def
    by (rule path_then, rule path_ask) (auto intro!: path_ret rec simp: ending_ok_def split: loaded.split)
qed

lemma path_start: "path (tstep (st_wakeOnly opts)) TStart (start_machine B X m opts) started"
proof -
  have l: "path (tstep (st_wakeOnly opts)) TStart (take_lock B X m w) (\<lambda>r q. q = (if r = None then TLocked else TStart))" for w
    unfolding take_lock_def by (auto intro!: path_rules)
  show ?thesis
    unfolding start_machine_def
    by (rule path_then, rule path_weaken [OF l])
      (auto intro!: path_option path_ret path_then path_weaken [OF path_start_locked] path_log simp: started_def ending_ok_def
        simp del: tstep.simps)
qed


end
