(* ===== verification/Cli_Stop.thy ===== *)
theory Cli_Stop
  imports Cli_Start
begin

text \<open>
  \<^verbatim>\<open>jm stop\<close> (\<^verbatim>\<open>internal/cli/stop.go\<close>) under the lock, and what the wrappers do before they run a client
  (\<^verbatim>\<open>ensureRunning\<close> in \<^verbatim>\<open>internal/cli/autostart.go\<close>): the machine is woken or started by \<open>start_machine\<close>.
\<close>

section \<open>Stop\<close>

definition stop_network :: "('s, 'e) bops \<Rightarrow> 'e ext \<Rightarrow> ('s, cerr option) cm" where
  "stop_network B X = do {
     p \<leftarrow> call B X KProvStop;
     State_Monad.return (map_option (\<lambda>t. stage_err ''network'' (network_hint X) (plain_err t)) p) }"

text \<open>The result of \<^verbatim>\<open>stopSuspended\<close>: whether the stop is done, and its error. A guest that runs without a journal after
  its wake failed is seen running.\<close>

definition restore_failed :: "('s, 'e) bops \<Rightarrow> machine \<Rightarrow> cerr \<Rightarrow> ('s, bool \<times> cerr option) cm" where
  "restore_failed B m e = do {
     b \<leftarrow> backend (bo_state B m);
     j \<leftarrow> journal_there B;
     if b = Inr Running \<and> \<not> j
     then do { log_entry (Saw Running); State_Monad.return (False, None) }
     else State_Monad.return (True, Some (with_hint e (force_stop m @ ''the saved state''))) }"

definition restore_to_stop :: "('s, 'e) bops \<Rightarrow> 'e ext \<Rightarrow> machine \<Rightarrow> ('s, bool \<times> cerr option) cm" where
  "restore_to_stop B X m = do {
     w \<leftarrow> wake_machine B X m \<lparr>wo_forShutdown = True, wo_by = []\<rparr>;
     (case snd w of
        Some e \<Rightarrow> restore_failed B m e
      | None \<Rightarrow>
          (if fst w then State_Monad.return (False, None)
           else do { n \<leftarrow> stop_network B X; State_Monad.return (True, n) })) }"

definition discard_to_stop :: "('s, 'e) bops \<Rightarrow> 'e ext \<Rightarrow> machine \<Rightarrow> ('s, bool \<times> cerr option) cm" where
  "discard_to_stop B X m = do {
     r \<leftarrow> backend_call KDiscard (bo_discard B m ''jm stop --force or jm rm'');
     case r of
       Some e \<Rightarrow> State_Monad.return (True, Some (stage_err ''backend'' (console_hint B) e))
     | None \<Rightarrow> do { n \<leftarrow> stop_network B X; State_Monad.return (True, n) } }"

definition stop_suspended :: "('s, 'e) bops \<Rightarrow> 'e ext \<Rightarrow> machine \<Rightarrow> bool \<Rightarrow> ('s, bool \<times> cerr option) cm" where
  "stop_suspended B X m restore =
     (if \<not> bo_suspender B
      then State_Monad.return (True, Some (plain_err (''backend '' @ quote (bo_name B) @ '' cannot handle a suspended machine'')))
      else if restore then restore_to_stop B X m else discard_to_stop B X m)"

definition stop_guest :: "('s, 'e) bops \<Rightarrow> 'e ext \<Rightarrow> machine \<Rightarrow> bool \<Rightarrow> ('s, cerr option) cm" where
  "stop_guest B X m graceful = do {
     (if graceful then guest_poweroff B X else State_Monad.return ());
     r \<leftarrow> backend_call (KStop graceful) (bo_stop B m graceful);
     case r of
       Some e \<Rightarrow> State_Monad.return (Some (stage_err ''backend'' (console_hint B) e))
     | None \<Rightarrow> stop_network B X }"

definition stop_from :: "('s, 'e) bops \<Rightarrow> 'e ext \<Rightarrow> machine \<Rightarrow> bool \<Rightarrow> bool \<Rightarrow> bstate \<Rightarrow> ('s, cerr option) cm" where
  "stop_from B X m graceful discard s =
     (if s = Stopped then State_Monad.return None
      else if s = Suspended
      then do {
        d \<leftarrow> stop_suspended B X m (graceful \<and> \<not> discard);
        if fst d \<or> snd d \<noteq> None then State_Monad.return (snd d) else stop_guest B X m graceful }
      else stop_guest B X m graceful)"

text \<open>A broken machine is repaired; only a saved state that survived the repair is left to handle.\<close>

definition stop_broken :: "('s, 'e) bops \<Rightarrow> 'e ext \<Rightarrow> machine \<Rightarrow> bool \<Rightarrow> bool \<Rightarrow> ('s, cerr option) cm" where
  "stop_broken B X m graceful discard = do {
     r \<leftarrow> repair_broken B X m graceful;
     case r of
       Some e \<Rightarrow> State_Monad.return (Some (with_hint e (console_hint B @ ''; '' @ network_hint X)))
     | None \<Rightarrow> do {
         st \<leftarrow> machine_state B X m;
         case st of
           Inl e \<Rightarrow> State_Monad.return (Some e)
         | Inr s \<Rightarrow> (if s \<noteq> Suspended then State_Monad.return None else stop_from B X m graceful discard s) } }"

definition stop_helpers :: "('s, 'e) bops \<Rightarrow> 'e ext \<Rightarrow> machine \<Rightarrow> bool \<Rightarrow> bool \<Rightarrow> ('s, cerr option) cm" where
  "stop_helpers B X m graceful discard = do {
     _ \<leftarrow> call B X KStopForwarder;
     _ \<leftarrow> call B X KStopResolver;
     st \<leftarrow> machine_state B X m;
     case st of
       Inl e \<Rightarrow> State_Monad.return (Some e)
     | Inr s \<Rightarrow> (if s = Broken then stop_broken B X m graceful discard else stop_from B X m graceful discard s) }"

definition stop_machine :: "('s, 'e) bops \<Rightarrow> 'e ext \<Rightarrow> machine \<Rightarrow> bool \<Rightarrow> bool \<Rightarrow> ('s, cerr option) cm" where
  "stop_machine B X m graceful discard = do {
     _ \<leftarrow> call B X KStopSleeper;
     r \<leftarrow> recover_transition B X m;
     case r of
       Inl e \<Rightarrow> (if graceful then State_Monad.return (Some e) else stop_helpers B X m graceful discard)
     | Inr _ \<Rightarrow> stop_helpers B X m graceful discard }"

section \<open>Autostart\<close>

text \<open>\<^verbatim>\<open>abortSuspendInFlight\<close>: only a suspend that is still saving is asked to stop.\<close>

definition abort_in_flight :: "('s, 'e) bops \<Rightarrow> 'e ext \<Rightarrow> machine \<Rightarrow> ('s, unit) cm" where
  "abort_in_flight B X m =
     (if \<not> bo_suspender B then State_Monad.return ()
      else do {
        st \<leftarrow> backend (bo_status B m);
        case st of
          Inl _ \<Rightarrow> State_Monad.return ()
        | Inr s \<Rightarrow> (if su_phase s \<noteq> saving then State_Monad.return () else do { _ \<leftarrow> tell_sleeper B X m ''abort''; State_Monad.return () }) })"

definition quiet_start :: "bool \<Rightarrow> start_opts" where
  "quiet_start wakeOnly = \<lparr>st_waitLock = True, st_skipIfReady = True, st_fromHelper = False, st_wakeOnly = wakeOnly,
     st_wakeBy = ''wrapper'', st_setDefault = False\<rparr>"

definition state_or_unknown :: "cerr + bstate \<Rightarrow> string" where
  "state_or_unknown st = (case st of Inl _ \<Rightarrow> ''not running'' | Inr s \<Rightarrow> bstate_text s)"

definition ensure_found :: "('s, 'e) bops \<Rightarrow> 'e ext \<Rightarrow> machine \<Rightarrow> bool \<Rightarrow> cerr + bstate \<Rightarrow> ('s, cerr option) cm" where
  "ensure_found B X m autostart st = do {
     r \<leftarrow> (case st of Inl _ \<Rightarrow> State_Monad.return False | Inr s \<Rightarrow> all_ready B X s);
     if r then State_Monad.return None
     else do {
       j \<leftarrow> journal_there B;
       if st = Inr Suspended \<or> st = Inr Running \<and> j
       then do {
         (if st = Inr Running then abort_in_flight B X m else State_Monad.return ());
         start_machine B X m (quiet_start (\<not> autostart)) }
       else if \<not> autostart
       then State_Monad.return (Some (with_hint (plain_err (''machine '' @ quote (mc_name m) @ '' is '' @ state_or_unknown st @ '' and autostart is off'')) (''run '' @ start_hint m [])))
       else start_machine B X m (quiet_start False) } }"

definition ensure_loaded :: "('s, 'e) bops \<Rightarrow> 'e ext \<Rightarrow> machine \<Rightarrow> bool \<Rightarrow> ('s, cerr option) cm" where
  "ensure_loaded B X m autostart = do {
     _ \<leftarrow> call B X KActivity;
     st \<leftarrow> machine_state B X m;
     ensure_found B X m autostart st }"

definition ensure_running :: "('s, 'e) bops \<Rightarrow> 'e ext \<Rightarrow> bool \<Rightarrow> ('s, cerr option) cm" where
  "ensure_running B X autostart = do {
     l \<leftarrow> ask B (x_load X);
     case l of
       LoadGone t \<Rightarrow> State_Monad.return (Some (plain_err t))
     | LoadBad t \<Rightarrow> State_Monad.return (Some (plain_err t))
     | Loaded m \<Rightarrow> ensure_loaded B X m autostart }"

section \<open>The protocol of a stop\<close>

datatype pphase = PStart | PAwake | PRecovered | PUnmapped | PQuiet | PSaw bstate | PRepair nat | PMended bstate | PWake wphase
  | PDown nat | PGone | PEnd | PWrong

text \<open>\<open>PDown n\<close>: the running guest goes down.\<close>

definition down_step :: "bool \<Rightarrow> nat \<Rightarrow> act \<Rightarrow> pphase" where
  "down_step g n e =
     (if did KDial e then (if g \<and> n < 1 then PDown 1 else PWrong)
      else if did KPoweroff e then (if g \<and> n = 1 then PDown 2 else PWrong)
      else case stopped_with e of
             Some (h, ok) \<Rightarrow> if h = g \<and> n \<le> 2 then (if ok then PDown 3 else PEnd) else PWrong
           | None \<Rightarrow> if did KProvStop e \<and> n = 3 then PEnd else PWrong)"

text \<open>\<open>g\<close>: a graceful stop; \<open>restore\<close>: one that does not discard either.\<close>

definition asleep_step :: "bool \<Rightarrow> act \<Rightarrow> pphase" where
  "asleep_step restore e =
     (if restore then (if wstep True WStart e \<noteq> WWrong then PWake (wstep True WStart e) else if saw_of e = Some Running then PDown 0 else PWrong)
      else if went KDiscard e then PGone else if did KDiscard e then PEnd else PWrong)"

fun pstep :: "bool \<Rightarrow> bool \<Rightarrow> pphase \<Rightarrow> act \<Rightarrow> pphase" where
  "pstep g restore PStart e = (if did KStopSleeper e then PAwake else PWrong)"
| "pstep g restore PAwake e =
     (if did KRecover e \<or> did KPark e \<or> did KStopResolver e then PAwake
      else if rec_of e \<noteq> None then PRecovered
      else if did KStopForwarder e \<and> \<not> g then PUnmapped else PWrong)"
| "pstep g restore PRecovered e = (if did KStopForwarder e then PUnmapped else PWrong)"
| "pstep g restore PUnmapped e = (if did KStopResolver e then PQuiet else PWrong)"
| "pstep g restore PQuiet e = (case saw_of e of Some s \<Rightarrow> PSaw s | None \<Rightarrow> PWrong)"
| "pstep g restore (PSaw s) e =
     (if s = Broken then (if did KStopForwarder e then PRepair 0 else PWrong)
      else if s = Suspended then asleep_step restore e
      else if s = Running then down_step g 0 e
      else PWrong)"
| "pstep g restore (PRepair n) e =
     (case saw_of e of
        Some s \<Rightarrow> if n = 5 then PMended s else PWrong
      | None \<Rightarrow> (case repair_rank e of Some k \<Rightarrow> if n < k then PRepair k else PWrong | None \<Rightarrow> PWrong))"
| "pstep g restore (PMended s) e = (if s = Suspended then asleep_step restore e else PWrong)"
| "pstep g restore (PWake q) e =
     (if wstep True q e \<noteq> WWrong then PWake (wstep True q e)
      else if q = WBoot then (if did KProvStop e then PEnd else PWrong)
      else if q = WRuns 0 then down_step g 0 e
      else if saw_of e = Some Running then PDown 0 else PWrong)"
| "pstep g restore (PDown n) e = down_step g n e"
| "pstep g restore PGone e = (if did KProvStop e then PEnd else PWrong)"
| "pstep g restore PEnd _ = PWrong"
| "pstep g restore PWrong _ = PWrong"

definition stop_ends :: "cerr option \<Rightarrow> pphase \<Rightarrow> bool" where
  "stop_ends r q =
     (if r = None then q = PEnd \<or> q = PSaw Stopped \<or> (\<exists>s. q = PMended s \<and> s \<noteq> Suspended)
      else q \<noteq> PWrong \<and> q \<noteq> PStart)"

lemma path_stop_network: "pstep g res q (Did KProvStop None) = PEnd \<Longrightarrow> pstep g res q (Did KProvStop (Some KOther)) = PEnd \<Longrightarrow>
    path (pstep g res) q (stop_network B X) (\<lambda>_ q'. q' = PEnd)"
  unfolding stop_network_def by (auto intro!: path_rules)

lemma path_stop_guest:
  assumes "\<And>e. did KDial e \<or> did (KStop g) e \<Longrightarrow> pstep g res q e = down_step g 0 e"
  shows "path (pstep g res) q (stop_guest B X m g) (\<lambda>r q'. q' = PEnd \<or> r \<noteq> None \<and> q' = PDown 3)"
proof -
  have stop: "path (pstep g res) q' (backend_call (KStop g) p \<bind> (\<lambda>r. case r of Some e \<Rightarrow> State_Monad.return (Some (f e)) | None \<Rightarrow> stop_network B X))
      (\<lambda>r q'. q' = PEnd \<or> r \<noteq> None \<and> q' = PDown 3)" if "q' = q \<or> (\<exists>n \<le> 2. q' = PDown n)" for q' p f
    using that assms
    by (auto intro!: path_then path_backend_call path_option path_ret path_weaken [OF path_stop_network]
        simp: down_step_def kind_of_def split: option.split)
  have off: "g \<Longrightarrow> path (pstep g res) q (guest_poweroff B X) (\<lambda>_ q'. q' = q \<or> (\<exists>n \<le> 2. q' = PDown n))"
    unfolding guest_poweroff_def using assms by (auto intro!: path_rules simp: down_step_def)
  show ?thesis
    unfolding stop_guest_def
    by (rule path_then, rule path_weaken [where S = "\<lambda>_ q'. q' = q \<or> (\<exists>n \<le> 2. q' = PDown n)"], rule path_if, erule off,
        rule path_ret, simp, erule stop)
qed

definition asleep_at :: "pphase \<Rightarrow> wphase \<Rightarrow> pphase" where
  "asleep_at q0 q = (if q = WStart then q0 else PWake q)"

lemma path_wake_stop:
  assumes "q = PSaw Suspended \<or> q = PMended Suspended" and "wo_forShutdown opts"
  shows "path (pstep g True) q (wake_machine B X m opts) (\<lambda>x q'. \<exists>w. q' = asleep_at q w \<and> woke_so True x w)"
proof -
  have w: "wstep True WStart e \<noteq> WWrong \<Longrightarrow> pstep g True q e = PWake (wstep True WStart e)" for e
    using assms(1) by (auto simp: asleep_step_def simp del: wstep.simps)
  have "path (pstep g True) (asleep_at q WStart) (wake_machine B X m opts) (\<lambda>x q'. \<exists>w. q' = asleep_at q w \<and> woke_so True x w)"
    by (rule path_lift [OF path_wake, of _ _ WWrong])
      (use assms(2) in \<open>auto simp: asleep_at_def w wstep_start woke_so_def simp del: pstep.simps(6,8) wstep.simps(1) split: if_splits\<close>)
  then show ?thesis by (simp add: asleep_at_def)
qed

text \<open>After \<open>stop_suspended\<close>: done, or the guest is to be shut down.\<close>

definition handled :: "bool \<Rightarrow> bool \<times> cerr option \<Rightarrow> pphase \<Rightarrow> bool" where
  "handled g d q =
     (if fst d \<or> snd d \<noteq> None then stop_ends (snd d) q
      else \<forall>e res. did KDial e \<or> did (KStop g) e \<longrightarrow> pstep g res q e = down_step g 0 e)"

lemma path_restore_stop:
  assumes "q = PSaw Suspended \<or> q = PMended Suspended"
  shows "path (pstep g True) q (restore_to_stop B X m) (handled g)"
proof -
  have err: "handled g (True, Some e) (asleep_at q w)" for e w
    using assms by (auto simp: handled_def stop_ends_def asleep_at_def)
  have seen: "w \<noteq> WBoot \<Longrightarrow> w \<noteq> WRuns 0 \<Longrightarrow> pstep g True (asleep_at q w) (Saw Running) = PDown 0" for w
    using assms by (cases w) (auto simp: asleep_at_def asleep_step_def wake_rank_def told_def incompatible_resume_def)
  have ok: "handled g (False, None) (PDown 0)" "handled g (False, None) (PWake (WRuns 0))"
    by (auto simp: handled_def wake_rank_def told_def did_def stopped_with_def split: act.splits)
  have boot: "path (pstep g True) (asleep_at q WBoot) (stop_network B X) (\<lambda>_ q'. q' = PEnd)"
    by (rule path_stop_network) (simp_all add: asleep_at_def)
  have failed: "woke_so True (r, Some x) w \<Longrightarrow> path (pstep g True) (asleep_at q w) (restore_failed B m e) (handled g)" for w e r x
    unfolding restore_failed_def
    by (intro path_then path_backend path_journal path_if path_log path_ret)
      (auto simp: woke_so_def seen ok err simp del: pstep.simps split: if_splits)
  have r: "woke_so True (True, None) w \<Longrightarrow> handled g (False, None) (asleep_at q w)" for w
    using ok(2) by (auto simp: woke_so_def asleep_at_def)
  have b: "woke_so True (False, None) w \<Longrightarrow> w = WBoot" for w by (simp add: woke_so_def)
  have e: "handled g (True, x) PEnd" for x by (simp add: handled_def stop_ends_def)
  show ?thesis
    unfolding restore_to_stop_def
    by (rule path_then, rule path_weaken [OF path_wake_stop [OF assms]], simp)
      (auto intro!: path_option path_if path_ret r path_then path_weaken [OF boot] e intro: failed dest: b simp del: pstep.simps)
qed

lemma path_discard_stop:
  assumes "q = PSaw Suspended \<or> q = PMended Suspended"
  shows "path (pstep g False) q (discard_to_stop B X m) (handled g)"
  using assms unfolding discard_to_stop_def
  by (auto intro!: path_then path_backend_call path_option path_ret path_weaken [OF path_stop_network]
      simp: asleep_step_def kind_of_def handled_def stop_ends_def split: option.split)

lemma path_stop_suspended:
  assumes "q = PSaw Suspended \<or> q = PMended Suspended"
  shows "path (pstep g res) q (stop_suspended B X m res) (handled g)"
proof -
  have "path (pstep g res) q (if res then restore_to_stop B X m else discard_to_stop B X m) (handled g)"
    by (rule path_if) (simp_all add: path_restore_stop [OF assms] path_discard_stop [OF assms])
  then show ?thesis
    unfolding stop_suspended_def using assms by (auto intro!: path_if path_ret simp: handled_def stop_ends_def)
qed

lemma path_stop_from:
  assumes "q = PSaw s \<and> s \<noteq> Broken \<or> q = PMended s \<and> s = Suspended"
  shows "path (pstep g (g \<and> \<not> d)) q (stop_from B X m g d s) stop_ends"
proof -
  have guest: "path (pstep g res) q' (stop_guest B X m g) stop_ends"
    if "\<forall>e res. did KDial e \<or> did (KStop g) e \<longrightarrow> pstep g res q' e = down_step g 0 e" for q' res
    by (rule path_weaken [OF path_stop_guest]) (use that in \<open>auto simp: stop_ends_def\<close>)
  have susp: "s = Suspended \<Longrightarrow> path (pstep g (g \<and> \<not> d)) q (stop_suspended B X m (g \<and> \<not> d)) (handled g)"
    by (rule path_stop_suspended) (use assms in auto)
  have run: "s \<noteq> Stopped \<Longrightarrow> s \<noteq> Suspended \<Longrightarrow> path (pstep g (g \<and> \<not> d)) q (stop_guest B X m g) stop_ends"
    by (rule guest) (use assms in \<open>cases s; auto\<close>)
  show ?thesis
    unfolding stop_from_def
  proof (intro path_if path_then)
    assume "s = Stopped"
    then show "path (pstep g (g \<and> \<not> d)) q (State_Monad.return None) stop_ends"
      using assms by (auto intro!: path_ret simp: stop_ends_def)
  next
    assume "s = Suspended"
    then show "path (pstep g (g \<and> \<not> d)) q (stop_suspended B X m (g \<and> \<not> d))
        (\<lambda>x q'. path (pstep g (g \<and> \<not> d)) q' (if fst x \<or> snd x \<noteq> None then State_Monad.return (snd x) else stop_guest B X m g) stop_ends)"
      by (rule path_weaken [OF susp]) (auto intro!: path_if path_ret guest simp: handled_def simp del: pstep.simps split: if_splits)
  qed (rule run)
qed

lemma path_repair_stop:
  assumes "q = PSaw Broken"
  shows "path (pstep g0 res) q (repair_broken B X m g) (\<lambda>r q. \<exists>n. q = PRepair n \<and> (r = None \<longrightarrow> n = 5))"
proof -
  have off: "n \<le> 1 \<Longrightarrow> path (pstep g0 res) (PRepair n) (guest_poweroff B X) (\<lambda>_ q. \<exists>k \<le> 3. q = PRepair k)" for n
    unfolding guest_poweroff_def by (auto intro!: path_rules simp: repair_rank_def)
  have stop: "path (pstep g0 res) q (backend_call (KStop h) p \<bind> (\<lambda>r. case r of Some e \<Rightarrow> State_Monad.return (Some e)
      | None \<Rightarrow> call B X KProvStop \<bind> (\<lambda>p. State_Monad.return (map_option plain_err p))))
      (\<lambda>r q. \<exists>n. q = PRepair n \<and> (r = None \<longrightarrow> n = 5))" if "\<exists>k \<le> 3. q = PRepair k" for q h p
    using that by (auto intro!: path_rules simp: repair_rank_def kind_of_def)
  show ?thesis
    unfolding repair_broken_def Let_def
    by (auto intro!: path_then path_call path_backend path_sum path_ret path_if path_weaken [OF off] stop
        simp: assms repair_rank_def)
qed

lemma path_stop_broken: "path (pstep g (g \<and> \<not> d)) (PSaw Broken) (stop_broken B X m g d) stop_ends"
  unfolding stop_broken_def
  by (rule path_then, rule path_weaken [OF path_repair_stop])
    (auto intro!: path_option path_ret path_then path_state path_if path_stop_from simp: stop_ends_def)

lemma path_stop_helpers:
  assumes "q = PRecovered \<or> q = PAwake \<and> \<not> g"
  shows "path (pstep g (g \<and> \<not> d)) q (stop_helpers B X m g d) stop_ends"
proof -
  have f: "pstep g (g \<and> \<not> d) q (Did KStopForwarder r) = PUnmapped" for r using assms by auto
  show ?thesis
    unfolding stop_helpers_def
    by (rule path_then, rule path_call)
      (auto intro!: path_then path_call path_state path_ret path_if path_stop_broken path_stop_from simp: f stop_ends_def)
qed

lemma path_recover_stop:
  "path (pstep g res) PAwake (recover_transition B X m) (\<lambda>r q. case r of Inl _ \<Rightarrow> q = PAwake | Inr _ \<Rightarrow> q = PRecovered)"
  unfolding recover_transition_def by (auto intro!: path_rules)

lemma path_forced_stop: "path (pstep False False) PAwake (stop_helpers B X m False d) stop_ends"
  using path_stop_helpers [of PAwake False d] by simp

lemma path_stop: "path (pstep g (g \<and> \<not> d)) PStart (stop_machine B X m g d) stop_ends"
  unfolding stop_machine_def
  by (rule path_then, rule path_call; simp; rule path_then, rule path_weaken [OF path_recover_stop])
    (auto intro!: path_sum path_if path_ret path_stop_helpers path_forced_stop simp: stop_ends_def split: sum.splits)


section \<open>The protocol of a wrapper\<close>

datatype ephase = EUse | EUsed | EFound bstate | ERun tphase | EWrong

fun estep :: "bool \<Rightarrow> ephase \<Rightarrow> act \<Rightarrow> ephase" where
  "estep auto EUse e = (if did KActivity e then EUsed else EWrong)"
| "estep auto EUsed e =
     (case saw_of e of
        Some s \<Rightarrow> EFound s
      | None \<Rightarrow> if auto \<and> tstep (\<not> auto) TStart e \<noteq> TWrong then ERun (tstep (\<not> auto) TStart e) else EWrong)"
| "estep auto (EFound s) e =
     (if told e \<and> s = Running then EFound s
      else if (auto \<or> s = Suspended \<or> s = Running) \<and> tstep (\<not> auto) TStart e \<noteq> TWrong then ERun (tstep (\<not> auto) TStart e)
      else EWrong)"
| "estep auto (ERun q) e = (if tstep (\<not> auto) q e \<noteq> TWrong then ERun (tstep (\<not> auto) q e) else EWrong)"
| "estep auto EWrong _ = EWrong"

definition ensured :: "cerr option \<Rightarrow> ephase \<Rightarrow> bool" where
  "ensured r q =
     (if r = None then q = EFound Running \<or> (\<exists>p. q = ERun p \<and> started None p)
      else q \<noteq> EWrong \<and> (\<forall>p. q = ERun p \<longrightarrow> started r p))"

definition running_at :: "ephase \<Rightarrow> tphase \<Rightarrow> ephase" where
  "running_at q0 q = (if q = TStart then q0 else ERun q)"

lemma boot_step_not: "boot_step r n e \<noteq> TStart"
  by (simp add: boot_step_def split: option.split)

lemma tstep_not_start: "tstep wo q e \<noteq> TStart"
  by (cases q) (simp_all add: boot_step_not split: option.split)

lemma started_not_wrong: "started r q \<Longrightarrow> q \<noteq> TWrong"
  by (auto simp: started_def split: if_splits)

lemma path_ensure_start:
  assumes "q = EUsed \<and> auto \<or> (\<exists>s. q = EFound s \<and> (auto \<or> s = Suspended \<or> s = Running))" and "st_wakeOnly opts = (\<not> auto)"
  shows "path (estep auto) q (start_machine B X m opts) ensured"
proof -
  have first: "tstep (\<not> auto) TStart e \<noteq> TWrong \<Longrightarrow> estep auto q e = ERun (tstep (\<not> auto) TStart e)" for e
    using assms(1) by (cases e) (auto simp: told_def went_def split: call.splits)
  have "path (estep auto) (running_at q TStart) (start_machine B X m opts) (\<lambda>r q'. \<exists>p. q' = running_at q p \<and> started r p)"
    by (rule path_lift [OF path_start [of opts, unfolded assms(2)], of TWrong])
      (auto simp: running_at_def first tstep_not_start started_not_wrong simp del: tstep.simps(1) dest: started_not_wrong)
  moreover have "running_at q TStart = q" by (simp add: running_at_def)
  moreover have "started r p \<Longrightarrow> ensured r (running_at q p)" for r p
    using assms(1) by (auto simp: running_at_def ensured_def started_def)
  ultimately show ?thesis by (auto elim: path_weaken)
qed

lemma path_abort: "path (estep auto) (EFound Running) (abort_in_flight B X m) (\<lambda>_ q. q = EFound Running)"
  unfolding abort_in_flight_def tell_sleeper_def by (auto intro!: path_rules)

lemma path_found:
  assumes "q = (case st of Inl _ \<Rightarrow> EUsed | Inr s \<Rightarrow> EFound s)"
  shows "path (estep auto) q (ensure_found B X m auto st) ensured"
proof -
  have start: "path (estep auto) q (start_machine B X m (quiet_start (\<not> auto))) ensured"
    if "auto \<or> st = Inr Suspended \<or> st = Inr Running"
    by (rule path_ensure_start) (use assms that in \<open>auto simp: quiet_start_def split: sum.splits\<close>)
  have go: "auto \<Longrightarrow> path (estep True) q (start_machine B X m (quiet_start False)) ensured" using start by simp
  have err: "ensured (Some e) q" for e using assms by (auto simp: ensured_def split: sum.splits)
  have rdy: "path (estep auto) q (case st of Inl _ \<Rightarrow> State_Monad.return False | Inr s \<Rightarrow> all_ready B X s)
      (\<lambda>r q'. q' = q \<and> (r \<longrightarrow> st = Inr Running))"
    by (cases st) (auto intro!: path_ret path_weaken [OF path_all_ready])
  have abort: "st = Inr Running \<Longrightarrow> path (estep auto) q (abort_in_flight B X m) (\<lambda>_ q'. q' = q)"
    using assms path_abort [of auto B X m] by simp
  have fin: "st = Inr Running \<Longrightarrow> ensured None q" using assms by (simp add: ensured_def)
  show ?thesis
    unfolding ensure_found_def
    by (rule path_then, rule path_weaken [OF rdy], elim conjE, simp only:, intro path_if path_ret fin path_then path_journal)
      (simp_all add: path_ret err go path_if start path_weaken [OF abort])
qed

lemma path_ensure: "path (estep auto) EUse (ensure_loaded B X m auto) ensured"
proof -
  have used: "estep auto EUse (Did KActivity r) = EUsed" "estep auto EUsed (Saw s) = EFound s" for r s by simp_all
  show ?thesis
    unfolding ensure_loaded_def
    by (rule path_then, rule path_call; simp only: used; rule path_then, rule path_state)
      (auto intro!: path_found simp: used simp del: estep.simps)
qed


end
