(* ===== verification/Cli_Laws.thy ===== *)
theory Cli_Laws
  imports Cli_Stop
begin

text \<open>
  What the commands rely on of a backend (\<^verbatim>\<open>backend.Suspender\<close>), as laws on its operations, and what the commands then
  guarantee: \<open>suspender\<close> is the contract a suspend needs, \<open>waking\<close> what a wake needs besides. \<open>good\<close> is what every operation keeps,
  \<open>committed\<close> that the state is saved, \<open>fit\<close> the machine records the store gives. The interpretation on the QEMU backend is
  in \<open>Cli_Qemu\<close>.
\<close>

section \<open>The contract of a suspend\<close>

definition upholds :: "('s \<Rightarrow> bool) \<Rightarrow> 's cw \<Rightarrow> 's cw \<Rightarrow> bool" where
  "upholds good w w' \<longleftrightarrow> (good (c_st w) \<longrightarrow> good (c_st w'))"

definition stays :: "('s \<Rightarrow> bool) \<Rightarrow> ('s \<Rightarrow> bool) \<Rightarrow> 's cw \<Rightarrow> 's cw \<Rightarrow> bool" where
  "stays good c w w' \<longleftrightarrow> (good (c_st w) \<longrightarrow> good (c_st w') \<and> (c (c_st w') \<longleftrightarrow> c (c_st w)))"

definition reported :: "('s \<Rightarrow> bool) \<Rightarrow> ('s \<Rightarrow> bool) \<Rightarrow> 'a option \<Rightarrow> 's cw \<Rightarrow> bool" where
  "reported good c r w \<longleftrightarrow> good (c_st w) \<and> (r = None \<longrightarrow> c (c_st w))"

lemma stays_sound: "stays good c w w' \<Longrightarrow> upholds good w w'"
  by (simp add: stays_def upholds_def)

lemma keeps_sound: "keeps (stays good c) p \<Longrightarrow> keeps (upholds good) p"
  by (erule keeps_mono) (rule stays_sound)

lemma keeps_look: "(\<And>w. R w w) \<Longrightarrow> keeps R (look f)"
  by (simp add: keeps_def look_def)

lemma keeps_log: "(\<And>w. R w (w\<lparr>c_log := c_log w @ [e]\<rparr>)) \<Longrightarrow> keeps R (log_entry e)"
  by (simp add: keeps_def log_entry_def)

lemma keeps_backend: "(\<And>w x t. run_state p (c_st w) = (x, t) \<Longrightarrow> R w (w\<lparr>c_st := t\<rparr>)) \<Longrightarrow> keeps R (backend p)"
  by (simp add: keeps_def backend_def split: prod.splits)

lemma keeps_ask: "(\<And>w o1. R w (w\<lparr>c_st := bo_put B o1 (c_st w)\<rparr>)) \<Longrightarrow> keeps R (ask B f)"
  by (simp add: keeps_def ask_def Let_def split: prod.splits)

lemma keeps_on_standin: "(\<And>w o1. R w (w\<lparr>c_st := bo_put B o1 (c_st w)\<rparr>)) \<Longrightarrow> keeps R (on_standin B f)"
  by (simp add: keeps_def on_standin_def Let_def split: prod.splits)

locale suspender =
  fixes B :: "('s, 'e) bops" and good committed :: "'s \<Rightarrow> bool" and fit :: "machine \<Rightarrow> bool"
  assumes put_inv: "good s \<Longrightarrow> good (bo_put B o1 s)"
    and put_committed: "committed (bo_put B o1 s) \<longleftrightarrow> committed s"
    and read_state: "run_state (bo_state B m) s = (x, t) \<Longrightarrow> (good s \<longrightarrow> good t) \<and> (committed t \<longleftrightarrow> committed s) \<and> (x = Inr Suspended \<longrightarrow> committed s)"
    and read_suspendable: "run_state (bo_suspendable B m) s = (y, t) \<Longrightarrow> (good s \<longrightarrow> good t) \<and> (committed t \<longleftrightarrow> committed s)"
    and read_status: "run_state (bo_status B m) s = (z, t) \<Longrightarrow> (good s \<longrightarrow> good t) \<and> (committed t \<longleftrightarrow> committed s) \<and> (was_saved z \<longrightarrow> committed s)"
    and prepare_inv: "fit m \<Longrightarrow> good s \<Longrightarrow> good (snd (run_state (bo_prepare B m p) s))"
    and commit_law: "good s \<Longrightarrow> run_state (bo_commit B m f) s = (r, t) \<Longrightarrow> good t \<and> (r = None \<longrightarrow> committed t)"
    and cancel_inv: "good s \<Longrightarrow> good (snd (run_state (bo_cancel B m) s))"
    and discard_inv: "good s \<Longrightarrow> good (snd (run_state (bo_discard B m why) s))"
    and recover_inv: "good s \<Longrightarrow> good (snd (run_state (bo_recover B m) s))"
begin

sublocale st: state_order "stays good committed"
  by standard (auto simp: stays_def)

sublocale so: state_order "upholds good"
  by standard (auto simp: upholds_def)

lemma put_stays: "stays good committed w (w\<lparr>c_st := bo_put B o1 (c_st w)\<rparr>)"
  by (simp add: stays_def put_inv put_committed)

lemma stays_ask: "keeps (stays good committed) (ask B f)"
  by (rule keeps_ask) (rule put_stays)

lemma stays_log: "keeps (stays good committed) (log_entry e)"
  by (rule keeps_log) (simp add: stays_def)

lemma stays_look: "keeps (stays good committed) (look f)"
  by (rule keeps_look) (simp add: stays_def)

lemma stays_on_standin: "keeps (stays good committed) (on_standin B f)"
  by (rule keeps_on_standin) (rule put_stays)

lemma stays_state: "keeps (stays good committed) (backend (bo_state B m))"
  by (rule keeps_backend) (use read_state in \<open>auto simp: stays_def\<close>)

lemma stays_status: "keeps (stays good committed) (backend (bo_status B m))"
  by (rule keeps_backend) (use read_status in \<open>auto simp: stays_def\<close>)

lemma stays_suspendable: "keeps (stays good committed) (backend (bo_suspendable B m))"
  by (rule keeps_backend) (use read_suspendable in \<open>auto simp: stays_def\<close>)

lemma stays_call: "keeps (stays good committed) (call B X c)"
  unfolding call_def by (intro st.basic stays_ask stays_log)

lemma stays_drift: "keeps (stays good committed) (drift B X H)"
  unfolding drift_def by (intro st.basic stays_ask stays_on_standin)

lemma stays_standin_op: "keeps (stays good committed) (standin_op B X H e f)"
  unfolding standin_op_def by (intro st.basic stays_drift stays_on_standin stays_log)

lemma stays_sd_do: "keeps (stays good committed) (sd_do B X H e)"
  unfolding sd_do_def by (rule stays_standin_op)

lemmas stays_rules = st.basic stays_ask stays_log stays_look stays_on_standin stays_state stays_status stays_suspendable stays_call
  stays_drift stays_standin_op stays_sd_do

lemma stays_take_tcp: "keeps (stays good committed) (take_tcp_within n B X H a)"
  by (induction n) (auto simp: try_port_def intro!: stays_rules)

lemma stays_finish: "keeps (stays good committed) (suspend_finish B X H ep)"
  unfolding suspend_finish_def by (intro stays_rules stays_take_tcp)

text \<open>Operations that change the state keep the invariant.\<close>

lemma sound_op: "(\<And>s. good s \<Longrightarrow> good (snd (run_state p s))) \<Longrightarrow> keeps (upholds good) (backend p)"
  by (rule keeps_backend) (metis cw.select_convs(1) cw.surjective cw.update_convs(1) snd_conv upholds_def)

lemma sound_op_call: "(\<And>s. good s \<Longrightarrow> good (snd (run_state p s))) \<Longrightarrow> keeps (upholds good) (backend_call c p)"
  unfolding backend_call_def by (intro so.basic sound_op keeps_sound [OF stays_log])

lemmas sound_rules = so.basic keeps_sound [OF stays_ask] keeps_sound [OF stays_log] keeps_sound [OF stays_look]
  keeps_sound [OF stays_call] keeps_sound [OF stays_sd_do] keeps_sound [OF stays_state] keeps_sound [OF stays_status]
  keeps_sound [OF stays_drift] keeps_sound [OF stays_on_standin] keeps_sound [OF stays_standin_op]

lemma sound_guest_running: "keeps (upholds good) (guest_running B X H m ep client s cause)"
  unfolding guest_running_def remount_shares_def forward_back_def restore_socket_def relay_clients_def
  by (intro sound_rules sound_op_call cancel_inv)

lemma sound_died: "keeps (upholds good) (hypervisor_died B X H m cause)"
  unfolding hypervisor_died_def by (intro sound_rules sound_op_call discard_inv)

lemma sound_back: "keeps (upholds good) (back_by_kind B X H m ep e)"
  unfolding back_by_kind_def recover_then_back_def
  by (intro sound_rules sound_guest_running sound_op recover_inv)

text \<open>From a sound world to a result that is true of the state: success means committed.\<close>

lemma hoare_sound: "keeps (upholds good) p \<Longrightarrow> (\<And>x w. good (c_st w) \<Longrightarrow> Q x w) \<Longrightarrow> hoare (\<lambda>w. good (c_st w)) p Q"
  by (erule hoare_keeps) (simp add: upholds_def)

lemma reported_err: "hoare (\<lambda>w. good (c_st w)) (State_Monad.return (Some e)) (reported good committed)"
  by (rule hoare_ret) (simp add: reported_def)

lemma reported_failing: "keeps (upholds good) p \<Longrightarrow> hoare (\<lambda>w. good (c_st w)) (failing p) (reported good committed)"
  unfolding failing_def
  by (rule hoare_bind, erule hoare_sound, assumption) (rule reported_err)

lemma hoare_stays:
  "keeps (stays good committed) p \<Longrightarrow> (\<And>x. hoare (\<lambda>w. good (c_st w)) (f x) Q) \<Longrightarrow> hoare (\<lambda>w. good (c_st w)) (State_Monad.bind p f) Q"
  by (rule hoare_bind, rule hoare_sound, erule keeps_sound, assumption)

lemma hoare_sound_then:
  "keeps (upholds good) p \<Longrightarrow> (\<And>x. hoare (\<lambda>w. good (c_st w)) (f x) Q) \<Longrightarrow> hoare (\<lambda>w. good (c_st w)) (State_Monad.bind p f) Q"
  by (rule hoare_bind, rule hoare_sound, assumption, assumption)

lemma reported_after: "hoare (\<lambda>w. good (c_st w)) (after_commit_error B X H m ep e) (reported good committed)"
proof -
  have st: "hoare (\<lambda>w. good (c_st w)) (backend (bo_status B m)) (\<lambda>z w. good (c_st w) \<and> (was_saved z \<longrightarrow> committed (c_st w)))"
    using read_status by (fastforce simp: hoare_def backend_def split: prod.splits)
  show ?thesis
    unfolding after_commit_error_def
  proof (rule hoare_bind [OF st])
    fix z :: "cerr + suspend_status"
    have bad: "hoare (\<lambda>w. good (c_st w)) (backend (bo_state B m) \<bind> (\<lambda>bs. if ce_kind e = KCrashed \<or> bs \<noteq> Inr Running
        then failing (hypervisor_died B X H m e)
        else case z of Inl x \<Rightarrow> State_Monad.return (Some (h x)) | Inr y \<Rightarrow> failing (back_by_kind B X H m ep e))) (reported good committed)" for h
      by (rule hoare_stays [OF stays_state])
        (auto intro!: hoare_if hoare_sum reported_failing sound_died sound_back reported_err)
    show "hoare (\<lambda>w. good (c_st w) \<and> (was_saved z \<longrightarrow> committed (c_st w)))
        (if was_saved z then State_Monad.return None
         else backend (bo_state B m) \<bind> (\<lambda>bs. if ce_kind e = KCrashed \<or> bs \<noteq> Inr Running then failing (hypervisor_died B X H m e)
           else case z of Inl x \<Rightarrow> State_Monad.return (Some (with_hint
                   (e\<lparr>ce_msg := ''suspending '' @ mc_name m @ '': '' @ ce_msg e @ '' (the journal cannot be read: '' @ ce_msg x @ '')''\<rparr>)
                   (start_hint m '' resolves the interrupted suspend'')))
             | Inr y \<Rightarrow> failing (back_by_kind B X H m ep e))) (reported good committed)"
      by (rule hoare_if) (rule hoare_ret, simp add: reported_def, rule hoare_pre [OF bad], simp)
  qed
qed

lemma reported_commit: "hoare (\<lambda>w. good (c_st w)) (suspend_commit B X H m ep) (reported good committed)"
proof -
  have com: "hoare (\<lambda>w. good (c_st w)) (backend_call KCommit (bo_commit B m f)) (reported good committed)" for f
    unfolding backend_call_def
    by (rule hoareI) (auto simp: State_Monad.bind_def backend_def log_entry_def State_Monad.return_def reported_def dest: commit_law split: prod.splits)
  have fin: "hoare (reported good committed None) (suspend_finish B X H ep) (\<lambda>_. reported good committed None)"
    by (rule hoare_keeps [OF stays_finish]) (simp add: stays_def reported_def)
  show ?thesis
    unfolding suspend_commit_def
  proof (rule hoare_stays [OF stays_log], rule hoare_bind [OF com])
    fix r :: "cerr option"
    show "hoare (reported good committed r) ((case r of None \<Rightarrow> State_Monad.return None | Some e \<Rightarrow> after_commit_error B X H m ep e) \<bind>
        (\<lambda>bad. case bad of None \<Rightarrow> suspend_finish B X H ep \<bind> (\<lambda>_. State_Monad.return None) | Some e \<Rightarrow> State_Monad.return (Some e)))
        (reported good committed)"
    proof (rule hoare_bind [where R = "reported good committed"])
      show "hoare (reported good committed r) (case r of None \<Rightarrow> State_Monad.return None | Some e \<Rightarrow> after_commit_error B X H m ep e) (reported good committed)"
        by (rule hoare_option) (auto intro: hoare_ret hoare_pre [OF reported_after] simp: reported_def)
    next
      fix bad :: "cerr option"
      show "hoare (reported good committed bad) (case bad of None \<Rightarrow> suspend_finish B X H ep \<bind> (\<lambda>_. State_Monad.return None)
          | Some e \<Rightarrow> State_Monad.return (Some e)) (reported good committed)"
        by (rule hoare_option) (auto intro!: hoare_bind [OF fin] hoare_ret simp: reported_def)
    qed
  qed
qed

lemma reported_unforward: "hoare (\<lambda>w. good (c_st w)) (suspend_unforward B X H m ep) (reported good committed)"
  unfolding suspend_unforward_def aborted_now_def
  by (intro hoare_stays hoare_option hoare_if reported_failing sound_guest_running reported_commit stays_rules)

lemma reported_quiesce: "hoare (\<lambda>w. good (c_st w)) (suspend_quiesce B X H m opts ep) (reported good committed)"
  unfolding suspend_quiesce_def
  by (intro hoare_stays hoare_option reported_failing sound_guest_running reported_unforward stays_rules)

lemma reported_hold: "hoare (\<lambda>w. good (c_st w)) (suspend_hold B X H m opts ep) (reported good committed)"
  unfolding suspend_hold_def aborted_now_def take_socket_def
  by (intro hoare_stays hoare_option hoare_if reported_failing sound_guest_running reported_quiesce stays_rules)

lemma reported_prepare: "fit m \<Longrightarrow> hoare (\<lambda>w. good (c_st w)) (suspend_prepare B X H m opts ep act) (reported good committed)"
  unfolding suspend_prepare_def aborted_now_def
  by (intro hoare_stays hoare_if reported_err stays_rules hoare_sound_then [OF sound_op_call] prepare_inv hoare_option reported_hold)

lemma reported_active: "fit m \<Longrightarrow> hoare (\<lambda>w. good (c_st w)) (suspend_active B X H m opts ep) (reported good committed)"
  unfolding suspend_active_def Let_def
  by (intro hoare_stays hoare_if hoare_sum reported_err stays_rules reported_prepare)

lemma reported_seen:
  assumes "fit m"
  shows "hoare (\<lambda>w. good (c_st w) \<and> (s = Suspended \<longrightarrow> committed (c_st w))) (suspend_seen B X H m opts s) (reported good committed)"
proof (cases "s = Suspended")
  case True
  have "hoare (reported good committed None) (suspend_seen B X H m opts s) (reported good committed)"
    unfolding suspend_seen_def journal_there_def using True
    by (auto intro!: hoare_bind [OF hoare_keeps [OF stays_look, where Q = "\<lambda>_. reported good committed None"]] hoare_ret simp: stays_def reported_def)
  then show ?thesis using True by (auto intro: hoare_pre simp: reported_def)
next
  case False
  have "hoare (\<lambda>w. good (c_st w)) (suspend_seen B X H m opts s) (reported good committed)"
    unfolding suspend_seen_def journal_there_def if_not_P [OF False]
    by (intro hoare_stays hoare_if hoare_sum hoare_option reported_err stays_rules reported_active assms)
  then show ?thesis by (rule hoare_pre) simp
qed

lemma state_suspended: "hoare (\<lambda>w. good (c_st w)) (machine_state B X m) (\<lambda>st w. good (c_st w) \<and> (st = Inr Suspended \<longrightarrow> committed (c_st w)))"
proof -
  have st: "hoare (\<lambda>w. good (c_st w)) (backend (bo_state B m)) (\<lambda>x w. good (c_st w) \<and> (x = Inr Suspended \<longrightarrow> committed (c_st w)))"
    using read_state by (fastforce simp: hoare_def backend_def split: prod.splits)
  show ?thesis
    unfolding machine_state_def
  proof (rule hoare_bind [OF st])
    fix bs :: "cerr + bstate"
    let ?P = "\<lambda>w. good (c_st w) \<and> (bs = Inr Suspended \<longrightarrow> committed (c_st w))"
    have pv: "hoare ?P (ask B (x_provState X)) (\<lambda>_. ?P)"
      by (simp add: hoare_def ask_def Let_def put_inv put_committed split: prod.splits)
    have lg: "hoare ?P (log_entry a) (\<lambda>_. ?P)" for a
      by (simp add: hoare_def log_entry_def)
    have rl: "hoare ?P (State_Monad.return (Inl e)) (\<lambda>st w. good (c_st w) \<and> (st = Inr Suspended \<longrightarrow> committed (c_st w)))" for e :: cerr
      by (rule hoare_ret) simp
    have rr: "hoare ?P (State_Monad.return (Inr (combine_state b p v))) (\<lambda>st w. good (c_st w) \<and> (st = Inr Suspended \<longrightarrow> committed (c_st w)))"
      if "bs = Inr b" for b p v
      by (rule hoare_ret) (use that in \<open>simp add: combine_suspended\<close>)
    show "hoare ?P (case bs of Inl e \<Rightarrow> State_Monad.return (Inl e)
         | Inr b \<Rightarrow> ask B (x_provState X) \<bind> (\<lambda>ps. case ps of Inl t \<Rightarrow> State_Monad.return (Inl (plain_err t))
           | Inr p \<Rightarrow> log_entry (Saw (combine_state b p (x_supervised X))) \<bind> (\<lambda>_. State_Monad.return (Inr (combine_state b p (x_supervised X))))))
        (\<lambda>st w. good (c_st w) \<and> (st = Inr Suspended \<longrightarrow> committed (c_st w)))"
      by (intro hoare_sum rl hoare_bind [OF pv] hoare_bind [OF lg]) (rule rr)
  qed
qed

lemma reported_checked: "fit m \<Longrightarrow> hoare (\<lambda>w. good (c_st w)) (suspend_checked B X H m opts) (reported good committed)"
  unfolding suspend_checked_def
  by (rule hoare_bind [OF state_suspended])
    (auto intro!: hoare_sum hoare_ret hoare_pre [OF reported_seen] simp: reported_def)

lemma sound_recover: "keeps (upholds good) (recover_transition B X m)"
  unfolding recover_transition_def by (intro sound_rules sound_op recover_inv)

lemma reported_locked:
  assumes "\<And>e m. fst (x_load X e) = Loaded m \<Longrightarrow> fit m"
  shows "hoare (\<lambda>w. good (c_st w)) (suspend_locked B X H m0 opts) (reported good committed)"
proof -
  have ld: "hoare (\<lambda>w. good (c_st w)) (ask B (x_load X)) (\<lambda>l w. good (c_st w) \<and> (\<forall>m. l = Loaded m \<longrightarrow> fit m))"
  proof (rule hoareI)
    fix w l w'
    assume "good (c_st w)" "run_state (ask B (x_load X)) w = (l, w')"
    then show "good (c_st w') \<and> (\<forall>m. l = Loaded m \<longrightarrow> fit m)"
      using assms [of "o_env (bo_out B (c_st w))"] by (auto simp: ask_def Let_def put_inv split: prod.splits)
  qed
  have nx: "hoare (\<lambda>w. good (c_st w) \<and> (\<forall>m. l = Loaded m \<longrightarrow> fit m))
      (case l of LoadGone t \<Rightarrow> State_Monad.return (Some (plain_err t)) | LoadBad t \<Rightarrow> State_Monad.return (Some (plain_err t))
       | Loaded m \<Rightarrow> suspend_checked B X H m opts) (reported good committed)" for l
    by (cases l) (auto intro!: hoare_ret hoare_pure reported_checked simp: reported_def)
  show ?thesis
    unfolding suspend_locked_def
    by (intro hoare_sound_then [OF sound_recover] hoare_sum reported_err hoare_bind [OF ld] nx)
qed

lemma reported_machine:
  assumes "\<And>e m. fst (x_load X e) = Loaded m \<Longrightarrow> fit m"
  shows "hoare (\<lambda>w. good (c_st w)) (suspend_machine B X H m0 opts) (reported good committed)"
proof -
  have st: "hoare (reported good committed r) p (\<lambda>_. reported good committed r)" if "keeps (stays good committed) p"
    for r :: "cerr option" and p :: "('s, unit) cm"
    by (rule hoare_keeps [OF that]) (simp add: stays_def reported_def)
  have ul: "hoare (\<lambda>w. good (c_st w)) (suspend_under_lock B X H m0 opts) (reported good committed)"
    unfolding suspend_under_lock_def
    by (intro hoare_stays stays_log hoare_bind [OF reported_locked] assms hoare_bind [OF st] hoare_ret)
  show ?thesis
    unfolding suspend_machine_def
    by (intro hoare_if reported_err hoare_stays stays_sd_do stays_ask
        hoare_bind [where R = "reported good committed"] hoare_sum ul hoare_bind [OF st] hoare_ret)
qed

end

section \<open>The contract of a wake\<close>

text \<open>What a wake leaves, by its result: a guest restored or booted later has no journal, and a failure keeps the saved state or has
  consumed it, unless giving an unusable state up failed itself.\<close>

definition discard_failed :: "act list \<Rightarrow> bool" where
  "discard_failed l \<longleftrightarrow> (\<exists>k. Did KDiscard (Some k) \<in> set l)"

definition preserved :: "('s, 'e) bops \<Rightarrow> ('s \<Rightarrow> bool) \<Rightarrow> ('s \<Rightarrow> bool) \<Rightarrow> 's cw \<Rightarrow> bool" where
  "preserved B good c w \<longleftrightarrow> good (c_st w) \<and> (c (c_st w) \<or> \<not> bo_journal B (c_st w))"

definition kept_or_gone :: "('s, 'e) bops \<Rightarrow> ('s \<Rightarrow> bool) \<Rightarrow> ('s \<Rightarrow> bool) \<Rightarrow> woken \<Rightarrow> 's cw \<Rightarrow> bool" where
  "kept_or_gone B good c x w \<longleftrightarrow> good (c_st w) \<and>
     (if fst x \<or> snd x = None then \<not> bo_journal B (c_st w)
      else c (c_st w) \<or> \<not> bo_journal B (c_st w) \<or> discard_failed (c_log w))"

definition rests :: "('s, 'e) bops \<Rightarrow> ('s \<Rightarrow> bool) \<Rightarrow> ('s \<Rightarrow> bool) \<Rightarrow> 's cw \<Rightarrow> 's cw \<Rightarrow> bool" where
  "rests B good c w w' \<longleftrightarrow> stays good c w w' \<and> bo_journal B (c_st w') = bo_journal B (c_st w) \<and> set (c_log w) \<subseteq> set (c_log w')"

lemma rests_kept: "rests B good c w w' \<Longrightarrow> kept_or_gone B good c x w \<Longrightarrow> kept_or_gone B good c x w'"
  by (auto simp: rests_def stays_def kept_or_gone_def discard_failed_def split: if_splits)

lemma rests_preserved: "rests B good c w w' \<Longrightarrow> preserved B good c w \<Longrightarrow> preserved B good c w'"
  by (auto simp: rests_def stays_def preserved_def)

locale waking = suspender B good committed fit
  for B :: "('s, 'e) bops" and good committed :: "'s \<Rightarrow> bool" and fit :: "machine \<Rightarrow> bool" +
  assumes put_journal: "bo_journal B (bo_put B o1 s) \<longleftrightarrow> bo_journal B s"
    and state_journal: "run_state (bo_state B m) s = (x, t) \<Longrightarrow> bo_journal B t \<longleftrightarrow> bo_journal B s"
    and status_journal: "run_state (bo_status B m) s = (z, t) \<Longrightarrow> bo_journal B t \<longleftrightarrow> bo_journal B s"
    and resume_law: "good s \<Longrightarrow> committed s \<Longrightarrow> run_state (bo_resume B m a) s = (r, t) \<Longrightarrow>
      good t \<and> (if r = None then \<not> bo_journal B t else committed t \<or> \<not> bo_journal B t)"
    and discard_law: "run_state (bo_discard B m why) s = (None, t) \<Longrightarrow> \<not> bo_journal B t"
begin

sublocale re: state_order "rests B good committed"
  by standard (auto simp: rests_def stays_def)

lemma rests_ask: "keeps (rests B good committed) (ask B f)"
  by (rule keeps_ask) (simp add: rests_def put_stays put_journal)

lemma rests_log: "keeps (rests B good committed) (log_entry e)"
  by (rule keeps_log) (auto simp: rests_def stays_def)

lemma rests_look: "keeps (rests B good committed) (look f)"
  by (rule keeps_look) (simp add: rests_def stays_def)

lemma rests_state: "keeps (rests B good committed) (backend (bo_state B m))"
  by (rule keeps_backend) (use read_state state_journal in \<open>auto simp: rests_def stays_def\<close>)

lemma rests_status: "keeps (rests B good committed) (backend (bo_status B m))"
  by (rule keeps_backend) (use read_status status_journal in \<open>auto simp: rests_def stays_def\<close>)

lemma rests_call: "keeps (rests B good committed) (call B X c)"
  unfolding call_def by (intro re.basic rests_ask rests_log)

lemmas rests_rules = re.basic rests_ask rests_log rests_look rests_state rests_status rests_call

lemma rests_tell: "keeps (rests B good committed) (tell_sleeper B X m l)"
  unfolding tell_sleeper_def by (intro rests_rules)

lemma rests_port_wait: "keeps (rests B good committed) (port_wait n B X p)"
  by (induction n) (auto intro!: rests_rules)

lemma rests_release: "keeps (rests B good committed) (release_sleeper_tcp B X m ep)"
  unfolding release_sleeper_tcp_def by (intro rests_rules rests_tell rests_port_wait)

lemma rests_resolver: "keeps (rests B good committed) (start_resolver B X ep)"
  unfolding start_resolver_def by (intro rests_rules)

lemma rests_dns: "keeps (rests B good committed) (configure_guest_dns B X p)"
  unfolding configure_guest_dns_def by (intro rests_rules)

lemma rests_dial: "keeps (rests B good committed) (dial_awake n B X)"
  by (induction n) (auto intro!: rests_rules)

lemma rests_reconnect: "keeps (rests B good committed) (wake_reconnect B X m ep st p opts)"
  unfolding wake_reconnect_def post_resume_def wake_helpers_def
  by (intro rests_rules rests_dial rests_dns rests_tell)

text \<open>The steps of a wake.\<close>

lemma hoare_rests_preserved: "keeps (rests B good committed) p \<Longrightarrow> hoare (preserved B good committed) p (\<lambda>_. preserved B good committed)"
  by (erule hoare_keeps) (rule rests_preserved)

lemma hoare_rests_kept: "keeps (rests B good committed) p \<Longrightarrow> hoare (kept_or_gone B good committed x) p (\<lambda>_. kept_or_gone B good committed x)"
  by (erule hoare_keeps) (rule rests_kept)

lemma kept_discard: "hoare (preserved B good committed) (discard_incompatible B X m e) (\<lambda>r. kept_or_gone B good committed (False, r))"
proof -
  have d: "hoare (preserved B good committed) (backend_call KDiscard (bo_discard B m why)) (\<lambda>r. kept_or_gone B good committed (False, r))" for why
  proof (rule hoareI)
    fix w r w'
    assume p: "preserved B good committed w" and run: "run_state (backend_call KDiscard (bo_discard B m why)) w = (r, w')"
    obtain t where t: "run_state (bo_discard B m why) (c_st w) = (r, t)" "w' = w\<lparr>c_st := t, c_log := c_log w @ [Did KDiscard (kind_of r)]\<rparr>"
      using run by (auto simp: backend_call_def State_Monad.bind_def State_Monad.return_def backend_def log_entry_def split: prod.splits)
    have "good t" using discard_inv [of "c_st w" m why] p t by (simp add: preserved_def)
    then show "kept_or_gone B good committed (False, r) w'"
      using t discard_law by (cases r) (auto simp: kept_or_gone_def discard_failed_def kind_of_def)
  qed
  show ?thesis
    unfolding discard_incompatible_def
  proof (rule hoare_bind [OF d])
    fix r
    show "hoare (kept_or_gone B good committed (False, r)) (case r of None \<Rightarrow> call B X KPark \<bind> (\<lambda>_. State_Monad.return None)
        | Some x \<Rightarrow> State_Monad.return (Some (wrap_err (''discarding the saved state of '' @ mc_name m @
           '', which cannot be restored ('' @ detail e [incompatible_text] @ ''): '') x)))
        (\<lambda>r. kept_or_gone B good committed (False, r))"
      by (rule hoare_option) (auto intro!: hoare_bind [OF hoare_rests_kept [OF rests_call]] hoare_ret simp: kept_or_gone_def)
  qed
qed

lemma kept_failed: "hoare (preserved B good committed) (wake_failed B X m e) (kept_or_gone B good committed)"
proof -
  have r: "hoare (preserved B good committed) (State_Monad.return (False, Some x)) (kept_or_gone B good committed)" for x
    by (rule hoare_ret) (auto simp: preserved_def kept_or_gone_def)
  have d: "hoare (preserved B good committed) (discard_incompatible B X m e \<bind> (\<lambda>r. State_Monad.return (False, r))) (kept_or_gone B good committed)"
    by (rule hoare_bind [OF kept_discard]) (rule hoare_ret)
  show ?thesis
    unfolding wake_failed_def journal_there_def
    by (intro hoare_if d r hoare_bind [OF hoare_rests_preserved] rests_rules)
qed

lemma hoare_rests_saved:
  "keeps (rests B good committed) p \<Longrightarrow> hoare (\<lambda>w. good (c_st w) \<and> committed (c_st w)) p (\<lambda>_ w. good (c_st w) \<and> committed (c_st w))"
  by (erule hoare_keeps) (auto simp: rests_def stays_def)

text \<open>What a resume leaves: as \<open>preserved\<close>, and no journal when it succeeded.\<close>

lemma resumed: "hoare (\<lambda>w. good (c_st w) \<and> committed (c_st w)) (backend_call KResume (bo_resume B m att))
    (\<lambda>r w. if r = None then kept_or_gone B good committed (True, None) w else preserved B good committed w)"
proof (rule hoareI)
  fix w r w'
  assume p: "good (c_st w) \<and> committed (c_st w)" and run: "run_state (backend_call KResume (bo_resume B m att)) w = (r, w')"
  obtain t where "run_state (bo_resume B m att) (c_st w) = (r, t)" "c_st w' = t"
    using run by (auto simp: backend_call_def State_Monad.bind_def State_Monad.return_def backend_def log_entry_def split: prod.splits)
  then show "if r = None then kept_or_gone B good committed (True, None) w' else preserved B good committed w'"
    using resume_law p by (fastforce simp: kept_or_gone_def preserved_def split: if_splits)
qed

lemma kept_restore: "hoare (\<lambda>w. good (c_st w) \<and> committed (c_st w)) (wake_restore B X m att ep st opts) (kept_or_gone B good committed)"
proof -
  have opt: "keeps (rests B good committed) (if b then start_resolver B X ep else State_Monad.return q)" for b q
    by (intro re.basic rests_resolver)
  have ok: "kept_or_gone B good committed (True, None) w \<Longrightarrow> kept_or_gone B good committed (True, y) w" for y w
    by (simp add: kept_or_gone_def)
  have run: "hoare (kept_or_gone B good committed (True, None)) (if wo_forShutdown opts then State_Monad.return (True, None)
      else wake_reconnect B X m ep st p opts \<bind> (\<lambda>x. State_Monad.return (True, x))) (kept_or_gone B good committed)" for p
    by (intro hoare_if hoare_ret hoare_bind [OF hoare_rests_kept [OF rests_reconnect]]) (auto intro: ok)
  have res: "hoare (\<lambda>w. if r = None then kept_or_gone B good committed (True, None) w else preserved B good committed w)
      ((if b then start_resolver B X ep else State_Monad.return q) \<bind> (\<lambda>port. case r of
         Some e \<Rightarrow> wake_failed B X m e
       | None \<Rightarrow> (if wo_forShutdown opts then State_Monad.return (True, None)
           else wake_reconnect B X m ep st (case port of Inl _ \<Rightarrow> 0 | Inr p \<Rightarrow> p) opts \<bind> (\<lambda>x. State_Monad.return (True, x)))))
      (kept_or_gone B good committed)" for r b q
  proof (cases r)
    case None
    show ?thesis unfolding None by (simp only: option.case if_True simp_thms, rule hoare_bind [OF hoare_rests_kept [OF opt]], rule run)
  next
    case (Some e)
    show ?thesis unfolding Some by (simp only: option.case option.distinct if_False simp_thms, rule hoare_bind [OF hoare_rests_preserved [OF opt]], rule kept_failed)
  qed
  show ?thesis
    unfolding wake_restore_def
    by (rule hoare_bind [OF hoare_rests_saved [OF rests_ask]], rule hoare_bind [OF hoare_rests_saved [OF opt]],
        rule hoare_bind [OF resumed], rule res)
qed

lemma kept_error: "hoare (\<lambda>w. good (c_st w) \<and> committed (c_st w)) (State_Monad.return (False, Some e)) (kept_or_gone B good committed)"
  by (rule hoare_ret) (simp add: kept_or_gone_def)

lemma kept_network: "hoare (\<lambda>w. good (c_st w) \<and> committed (c_st w)) (wake_network B X m st opts) (kept_or_gone B good committed)"
  unfolding wake_network_def
  by (intro hoare_sum hoare_prod kept_restore kept_error hoare_bind [OF hoare_rests_saved] rests_rules)

lemma kept_machine:
  assumes "bo_suspender B"
  shows "hoare (\<lambda>w. good (c_st w) \<and> committed (c_st w)) (wake_machine B X m opts) (kept_or_gone B good committed)"
proof -
  have rel: "keeps (rests B good committed) (case p of Inl _ \<Rightarrow> State_Monad.return None | Inr ep \<Rightarrow> release_sleeper_tcp B X m ep)" for p :: "string + endpoint"
    by (intro rests_rules rests_release)
  show ?thesis
    unfolding wake_machine_def
    by (intro hoare_if hoare_sum hoare_option kept_error kept_network hoare_bind [OF hoare_rests_saved] rests_rules rel)
qed

end

end
