(* ===== verification/Cli_Qemu.thy ===== *)
theory Cli_Qemu
  imports Cli_Laws
begin

text \<open>
  The commands over the QEMU backend (\<^verbatim>\<open>qemu.Backend\<close> as a \<^verbatim>\<open>backend.Suspender\<close>): the backend's operations of \<open>Qemu_Suspend\<close> to
  \<open>Qemu_Lifecycle\<close> as the record the commands of \<open>Cli_Suspend\<close> and \<open>Cli_Wake\<close> take. They keep the contracts of \<open>Cli_Laws\<close>,
  so a suspend that reports success has committed a saved journal, and a wake that fails keeps it or has consumed it.
\<close>

section \<open>The backend as the commands see it\<close>

text \<open>What \<^verbatim>\<open>errors.Is\<close> finds in a backend's error, and its text.\<close>

fun qerr_kind :: "qerr \<Rightarrow> ekind" where
  "qerr_kind (EUnavailable _) = KUnavailable"
| "qerr_kind (EBlocked _) = KBlocked"
| "qerr_kind EAborted = KAborted"
| "qerr_kind (ECrashed _) = KCrashed"
| "qerr_kind (EIncompatible _) = KIncompatible"
| "qerr_kind _ = KOther"

definition cerr_of :: "qerr \<Rightarrow> cerr" where
  "cerr_of e = refuse (qerr_kind e) (err_text e)"

definition op_err :: "('w, qerr option) qm \<Rightarrow> ('w, cerr option) qm" where
  "op_err p = do { r \<leftarrow> p; ret (map_option cerr_of r) }"

definition op_val :: "('w, qerr + 'a) qm \<Rightarrow> ('w, cerr + 'a) qm" where
  "op_val p = do { r \<leftarrow> p; ret (case r of Inl e \<Rightarrow> Inl (cerr_of e) | Inr x \<Rightarrow> Inr x) }"

record boot_env =
  be_accel :: string
  be_security :: string
  be_host :: host
  be_paths :: "machine \<Rightarrow> qpaths"
  be_logs :: "string list"

definition qemu_bops :: "'e out qenv \<Rightarrow> boot_env \<Rightarrow> ('e out qw, 'e) bops" where
  "qemu_bops E V =
     \<lparr>bo_out = q_env, bo_put = (\<lambda>o1 w. w\<lparr>q_env := o1\<rparr>), bo_name = ''qemu'', bo_logs = be_logs V, bo_suspender = True,
      bo_canSuspend = True, bo_journal = (\<lambda>w. q_jour w \<noteq> JNone),
      bo_state = (\<lambda>m. op_val (q_state E m)),
      bo_suspendable = suspendable E,
      bo_status = (\<lambda>m. op_val (suspend_status_of E m)),
      bo_prepare = (\<lambda>m p. op_err (prepare_suspend E m p)),
      bo_commit = (\<lambda>m f. op_err (commit_suspend E m (Some f))),
      bo_cancel = (\<lambda>m. op_err (cancel_suspend E m)),
      bo_discard = (\<lambda>m why. op_err (discard_suspend E m)),
      bo_resume = (\<lambda>m net. op_err (resume_suspended E m)),
      bo_recover = (\<lambda>m. op_val (recover E m)),
      bo_start = (\<lambda>m net. op_err (start E (be_accel V) (be_security V) (be_host V) m net (be_paths V m))),
      bo_stop = (\<lambda>m g. op_err (stop E m g))\<rparr>"

section \<open>Its contract\<close>

abbreviation journal_good :: "'w qw \<Rightarrow> bool" where "journal_good w \<equiv> wf_files (files_of w)"
abbreviation journal_saved :: "'w qw \<Rightarrow> bool" where "journal_saved w \<equiv> is_saved (q_jour w)"

lemma run_op_err: "run_state (op_err p) w = (r, t) \<longleftrightarrow> (\<exists>x. run_state p w = (x, t) \<and> r = map_option cerr_of x)"
  by (auto simp: op_err_def State_Monad.bind_def State_Monad.return_def split: prod.splits)

lemma run_op_val: "run_state (op_val p) w = (r, t) \<longleftrightarrow>
    (\<exists>x. run_state p w = (x, t) \<and> r = (case x of Inl e \<Rightarrow> Inl (cerr_of e) | Inr y \<Rightarrow> Inr y))"
  by (auto simp: op_val_def State_Monad.bind_def State_Monad.return_def split: prod.splits)

lemma end_op_err: "snd (run_state (op_err p) w) = snd (run_state p w)"
  by (simp add: op_err_def State_Monad.bind_def State_Monad.return_def split: prod.splits)

lemma end_op_val: "snd (run_state (op_val p) w) = snd (run_state p w)"
  by (simp add: op_val_def State_Monad.bind_def State_Monad.return_def split: prod.splits)

lemma quiet_good: "Qemu_Rules.quiet w t \<Longrightarrow> (journal_good w \<longrightarrow> journal_good t) \<and> q_jour t = q_jour w"
  by (simp add: Qemu_Rules.quiet_def files_of_def)

text \<open>Reading the journal finds what is there.\<close>

lemma read_journal_finds: "run_state (read_journal E) w = (ReadJournal j, t) \<Longrightarrow> q_jour w = JFile j"
  by (auto simp: read_journal_def State_Monad.bind_def env_def reads_def State_Monad.return_def
      split: prod.splits jfile.splits option.splits if_splits)

lemma pid_state_awake: "run_state (state_from_pid_file E) w = (x, t) \<Longrightarrow> x \<noteq> Suspended \<and> q_jour t = q_jour w"
  by (auto simp: state_from_pid_file_def State_Monad.bind_def State_Monad.return_def env_def Let_def split: prod.splits pidfile.splits if_splits)

lemma state_suspended_saved:
  assumes "run_state (q_state E m) w = (Inr Suspended, t)"
  shows "journal_saved w"
proof -
  obtain p u where p: "run_state (state_from_pid_file E) w = (p, u)" by fastforce
  have a: "p \<noteq> Suspended" "q_jour u = q_jour w" using pid_state_awake [OF p] by auto
  obtain r v where r: "run_state (read_journal E) u = (r, v)" by fastforce
  have "\<exists>j. r = ReadJournal j \<and> jn_phase j = saved"
    using assms p r a(1)
    by (auto simp: q_state_def state_from_files_def State_Monad.bind_def State_Monad.return_def split: prod.splits if_splits jread.splits)
  then show ?thesis using read_journal_finds [of E u _ v] r a(2) by (auto simp: is_saved_def)
qed

lemma status_saved:
  assumes "run_state (suspend_status_of E m) w = (Inr s, t)" "su_phase s = saved"
  shows "journal_saved w"
proof -
  obtain r v where r: "run_state (read_journal E) w = (r, v)" by fastforce
  have "\<exists>j. r = ReadJournal j \<and> jn_phase j = saved"
    using assms r
    by (auto simp: suspend_status_of_def no_suspend_def saved_def State_Monad.bind_def State_Monad.return_def split: prod.splits if_splits jread.splits)
  then show ?thesis using read_journal_finds [of E w _ v] r by (auto simp: is_saved_def)
qed

lemma quiet_status: "keeps Qemu_Rules.quiet (suspend_status_of E m)"
  unfolding suspend_status_of_def by (intro quiet_rules)

lemma op_val_read:
  assumes "keeps Qemu_Rules.quiet p" "run_state (op_val p) w = (r, t)"
  shows "(journal_good w \<longrightarrow> journal_good t) \<and> q_jour t = q_jour w"
  using assms(2) quiet_good [OF keepsD [OF assms(1)]] by (auto simp: run_op_val)

lemma op_val_Inr: "run_state (op_val p) w = (Inr x, t) \<Longrightarrow> run_state p w = (Inr x, t)"
  by (simp add: run_op_val) (metis sum.case_eq_if sum.collapse(2) sum.disc(2) sum.sel(2) sum.disc(1))

lemma op_good: "journal_good w \<Longrightarrow> op_ok p \<Longrightarrow> journal_good (op_end E p w)"
  by (rule traced_wf [OF op_traced])

lemma commit_saved_journal:
  assumes "journal_good w" "run_state (commit_suspend E m ab) w = (None, t)"
  shows "journal_saved t"
proof -
  have "case q_jour w of JFile j \<Rightarrow> 0 < hw_memoryMiB (jn_hw j) | _ \<Rightarrow> True"
    using assms(1) by (cases "q_jour w") (auto simp: files_of_def)
  from hoareD [OF commit_suspend_outcome [OF this] refl assms(2)] have "saved_pair t" by (auto dest: outcome_result)
  then show ?thesis by (auto simp: saved_pair_def pair_ok_def is_saved_def split: jfile.splits)
qed

lemma resume_ends:
  assumes "run_state (resume_suspended E m) w = (r, t)"
  shows "if r = None then q_jour t = JNone else q_jour t = q_jour w \<or> q_jour t = JNone"
  using hoareD [OF resume_spec refl assms] by (auto simp: resume_post_def Qemu_Rules.quiet_def)

interpretation qemu: waking "qemu_bops E V" journal_good journal_saved "\<lambda>m. 0 < mc_memoryMiB m"
  for E :: "'e out qenv" and V
proof
  fix s t u :: "'e out qw" and o1 :: "'e out" and m :: machine and y why :: string and pl and f and a and r :: "cerr option" and x :: "cerr + bstate" and z :: "cerr + suspend_status"
  note ops = qemu_bops_def bops.simps
  show "journal_good s \<Longrightarrow> journal_good (bo_put (qemu_bops E V) o1 s)" by (simp add: qemu_bops_def files_of_def)
  show "journal_saved (bo_put (qemu_bops E V) o1 s) \<longleftrightarrow> journal_saved s" by (simp add: qemu_bops_def)
  show "run_state (bo_state (qemu_bops E V) m) s = (x, t) \<Longrightarrow>
      (journal_good s \<longrightarrow> journal_good t) \<and> (journal_saved t \<longleftrightarrow> journal_saved s) \<and> (x = Inr Suspended \<longrightarrow> journal_saved s)"
    by (simp add: qemu_bops_def) (metis op_val_read [OF quiet_q_state] op_val_Inr state_suspended_saved)
  show "run_state (bo_suspendable (qemu_bops E V) m) s = (y, t) \<Longrightarrow> (journal_good s \<longrightarrow> journal_good t) \<and> (journal_saved t \<longleftrightarrow> journal_saved s)"
    by (auto simp: qemu_bops_def dest: quiet_good [OF keepsD [OF quiet_suspendable]])
  show "run_state (bo_status (qemu_bops E V) m) s = (z, t) \<Longrightarrow>
      (journal_good s \<longrightarrow> journal_good t) \<and> (journal_saved t \<longleftrightarrow> journal_saved s) \<and> (was_saved z \<longrightarrow> journal_saved s)"
    by (cases z) (auto simp: qemu_bops_def was_saved_def dest: op_val_read [OF quiet_status] op_val_Inr status_saved)
  show "0 < mc_memoryMiB m \<Longrightarrow> journal_good s \<Longrightarrow> journal_good (snd (run_state (bo_prepare (qemu_bops E V) m pl) s))"
    using op_good [of s "OpPrepare m pl" E] by (simp add: qemu_bops_def end_op_err)
  show "journal_good s \<Longrightarrow> run_state (bo_commit (qemu_bops E V) m f) s = (r, t) \<Longrightarrow> journal_good t \<and> (r = None \<longrightarrow> journal_saved t)"
    using op_good [of s "OpCommit m (Some f)" E] commit_saved_journal [of s E m "Some f" t] by (auto simp: qemu_bops_def run_op_err)
  show "journal_good s \<Longrightarrow> journal_good (snd (run_state (bo_cancel (qemu_bops E V) m) s))"
    using op_good [of s "OpCancel m" E] by (simp add: qemu_bops_def end_op_err)
  show "journal_good s \<Longrightarrow> journal_good (snd (run_state (bo_discard (qemu_bops E V) m why) s))"
    using op_good [of s "OpDiscard m" E] by (simp add: qemu_bops_def end_op_err)
  show "journal_good s \<Longrightarrow> journal_good (snd (run_state (bo_recover (qemu_bops E V) m) s))"
    using op_good [of s "OpRecover m" E] by (simp add: qemu_bops_def end_op_val)
  show "bo_journal (qemu_bops E V) (bo_put (qemu_bops E V) o1 s) \<longleftrightarrow> bo_journal (qemu_bops E V) s" by (simp add: qemu_bops_def)
  show "run_state (bo_state (qemu_bops E V) m) s = (x, t) \<Longrightarrow> bo_journal (qemu_bops E V) t \<longleftrightarrow> bo_journal (qemu_bops E V) s"
    by (auto simp: qemu_bops_def dest: op_val_read [OF quiet_q_state])
  show "run_state (bo_status (qemu_bops E V) m) s = (z, t) \<Longrightarrow> bo_journal (qemu_bops E V) t \<longleftrightarrow> bo_journal (qemu_bops E V) s"
    by (auto simp: qemu_bops_def dest: op_val_read [OF quiet_status])
  show "journal_good s \<Longrightarrow> journal_saved s \<Longrightarrow> run_state (bo_resume (qemu_bops E V) m a) s = (r, t) \<Longrightarrow>
      journal_good t \<and> (if r = None then \<not> bo_journal (qemu_bops E V) t else journal_saved t \<or> \<not> bo_journal (qemu_bops E V) t)"
    using op_good [of s "OpResume m" E] resume_ends [of E m s _ t] by (fastforce simp: qemu_bops_def run_op_err split: if_splits)
  show "run_state (bo_discard (qemu_bops E V) m why) s = (None, t) \<Longrightarrow> \<not> bo_journal (qemu_bops E V) t"
    using hoareD [OF discard_suspend_first refl, of E m s None t] by (auto simp: qemu_bops_def run_op_err)
qed

lemma qemu_journal: "bo_journal (qemu_bops E V) w \<longleftrightarrow> q_jour w \<noteq> JNone"
  by (simp add: qemu_bops_def)

section \<open>The commands over QEMU\<close>

text \<open>C1 (functional): a suspend that reports success has left the machine suspended: whatever QEMU, its disk, the provider, the guest, the
  clients and the moves of the outside world do, when \<^verbatim>\<open>suspendMachine\<close> returns no error the directory holds a saved journal,
  whether the commit itself succeeded or failed only after the state was saved; and on every path the directory ends with
  journals the code can read.\<close>

theorem suspend_success_is_saved:
  assumes "wf_files (files_of (c_st w))"
    and "\<And>e m. fst (x_load X e) = Loaded m \<Longrightarrow> 0 < mc_memoryMiB m"
  shows "case run_state (suspend_machine (qemu_bops E V) X H m opts) w of (r, w') \<Rightarrow>
    wf_files (files_of (c_st w')) \<and> (if r = None then is_saved (q_jour (c_st w')) else True)"
proof -
  obtain r w' where run: "run_state (suspend_machine (qemu_bops E V) X H m opts) w = (r, w')" by fastforce
  from hoareD [OF qemu.reported_machine [OF assms(2)] assms(1) run] show ?thesis
    by (simp add: run reported_def)
qed


section \<open>Witnesses\<close>

text \<open>A host whose files all work, under the commands' outer world.\<close>

definition idle_qemu :: "unit out qenv" where
  "idle_qemu =
     \<lparr>qe_dial = \<lambda>s. (None, s), qe_status = \<lambda>s. (Inr ''running'', s),
      qe_migration = \<lambda>s. (Inr \<lparr>mi_status = ''completed'', mi_error = [], mi_blocked = [], mi_total = 900, mi_downtime = 40, mi_transferred = Some 7\<rparr>, s),
      qe_cmd = \<lambda>c s. (None, s), qe_version = \<lambda>s. (Inr ''9.1.0'', s), qe_alias = \<lambda>t s. (Inr ''virt-9.1'', s),
      qe_alive = \<lambda>p s. (True, s), qe_ours = \<lambda>p s. (True, s), qe_daemonized = \<lambda>p s. (False, s),
      qe_term = \<lambda>p s. (True, s), qe_kill = \<lambda>p s. (True, s), qe_wait = \<lambda>p g s. (True, s),
      qe_pidfile = \<lambda>s. (PidIs 77, s), qe_argvfile = \<lambda>s. (ArgvIs [''qemu-system-aarch64'', ''-M'', ''virt''], s),
      qe_fs = \<lambda>op s. (None, s), qe_tmp_size = \<lambda>s. ((2 ^ 21, 4096), s),
      qe_fingerprints = \<lambda>s. (Inl ''no disk'', s), qe_late = \<lambda>s. (False, s), qe_cancelled = \<lambda>s. (None, s),
      qe_now = \<lambda>s. (5, s), qe_getpid = \<lambda>s. (42, s), qe_launch = \<lambda>argv s. (Inr 78, s), qe_tail = \<lambda>s. ([], s),
      qe_argv_fs = \<lambda>s. (\<lparr>af_exists = \<lambda>p. True, af_mkdir = \<lambda>p. None\<rparr>, s), qe_firmware = \<lambda>b s. (Inr ''/fw'', s), qe_lookup = \<lambda>s. (Inr ''qemu-system-aarch64'', s)\<rparr>"

definition idle_boot :: boot_env where
  "idle_boot = \<lparr>be_accel = ''hvf'', be_security = ''none'',
     be_host = \<lparr>ho_abs = Some, ho_eval = Some, ho_stat = (\<lambda>p. Some True), ho_hash8 = id\<rparr>,
     be_paths = (\<lambda>m. \<lparr>qp_code = [], qp_vars = [], qp_disk = [], qp_seed = [], qp_console = [], qp_qmp = [], qp_pid = [], qp_guestConf = []\<rparr>),
     be_logs = []\<rparr>"

definition idle_world :: "jfile \<Rightarrow> unit out qw cw" where
  "idle_world f = \<lparr>c_st = \<lparr>q_env = \<lparr>o_sw = new_sw 0 Map.empty, o_env = ()\<rparr>, q_jour = f, q_disk = [f], q_image = Some 9, q_log = []\<rparr>, c_log = []\<rparr>"

lemma demo_ext_fit: "fst (x_load demo_ext e) = Loaded m \<Longrightarrow> 0 < mc_memoryMiB m"
  by (auto simp: demo_ext_def machine_defaults_def)

theorem suspend_success_is_saved_witness:
  "case run_state (suspend_machine (qemu_bops idle_qemu idle_boot) demo_ext id machine_defaults demo_opts) (idle_world JNone) of (r, w') \<Rightarrow>
    wf_files (files_of (c_st w')) \<and> (if r = None then is_saved (q_jour (c_st w')) else True)"
  by (rule suspend_success_is_saved) (simp_all add: idle_world_def files_of_def demo_ext_fit)


end
