(* ===== verification/Image_Names.thy ===== *)
theory Image_Names
  imports Machine
begin

text \<open>
  Which image a reference names (\<^verbatim>\<open>internal/image/prebaked.go\<close>, \<^verbatim>\<open>official.go\<close>, \<^verbatim>\<open>byo.go\<close>, \<^verbatim>\<open>image.go\<close>): releases, file names and
  URLs, the kind of a bring-your-own path, and the two texts that publish a checksum.
\<close>

section \<open>Releases, file names, URLs\<close>

definition guest_version :: string where "guest_version = ''15.2.1''"
definition default_release :: string where "default_release = ''15.1-RELEASE''"

definition guest_releases :: "string \<Rightarrow> string option" where
  "guest_releases = map_of [(''15.1.0'', ''15.1-RELEASE''), (''15.2.0'', ''15.1-RELEASE''), (''15.2.1'', ''15.1-RELEASE'')]"

text \<open>The first two components of a version that is not in the table.\<close>

definition guest_release :: "string \<Rightarrow> string" where
  "guest_release version =
     (case guest_releases version of
        Some r \<Rightarrow> r
      | None \<Rightarrow> (case split_on CHR ''.'' version of a # b # _ \<Rightarrow> a @ ''.'' @ b @ ''-RELEASE'' | _ \<Rightarrow> default_release))"

definition release_short :: "string \<Rightarrow> string" where
  "release_short r = trim_suffix r ''-RELEASE''"

definition prebaked_file_name :: "string \<Rightarrow> string \<Rightarrow> string" where
  "prebaked_file_name version release = ''jailmachine-guest-'' @ version @ ''-freebsd'' @ release_short release @ ''-arm64-zfs.raw.zst''"

definition official_file_name :: "string \<Rightarrow> string" where
  "official_file_name release = ''FreeBSD-'' @ release @ ''-arm64-aarch64-BASIC-CLOUDINIT-zfs.raw.xz''"

definition trim_slashes :: "string \<Rightarrow> string" where
  "trim_slashes s = rev (dropWhile (\<lambda>c. c = CHR ''/'') (rev s))"

definition default_base_url :: string where
  "default_base_url = ''https://download.freebsd.org/releases/VM-IMAGES''"

definition default_release_base_url :: string where
  "default_release_base_url = ''https://github.com/gabrielbelli/jailmachine/releases/download''"

text \<open>The machines' sources: a version or release, empty for the default, and the override of a base URL.\<close>

definition or_default :: "string \<Rightarrow> string \<Rightarrow> string" where
  "or_default s d = (if s = [] then d else s)"

definition official_dir_url :: "string \<Rightarrow> string \<Rightarrow> string" where
  "official_dir_url base release = trim_slashes (or_default base default_base_url) @ ''/'' @ or_default release default_release @ ''/aarch64/Latest''"

definition official_url :: "string \<Rightarrow> string \<Rightarrow> string" where
  "official_url base release = official_dir_url base release @ ''/'' @ official_file_name (or_default release default_release)"

definition prebaked_name :: "string \<Rightarrow> string \<Rightarrow> string" where
  "prebaked_name version release =
     (let v = or_default version guest_version in prebaked_file_name v (or_default release (guest_release v)))"

text \<open>\<open>env_url\<close> is \<^verbatim>\<open>$JM_IMAGE_BASEURL\<close>, empty when unset.\<close>

definition prebaked_url :: "string \<Rightarrow> string \<Rightarrow> string \<Rightarrow> string \<Rightarrow> string" where
  "prebaked_url env_url base version release =
     (if base = [] \<and> env_url \<noteq> [] then trim_slashes env_url @ ''/'' @ prebaked_name version release
      else trim_slashes (or_default base default_release_base_url) @ ''/guest-'' @ or_default version guest_version @ ''/'' @ prebaked_name version release)"

section \<open>Bring-your-own references\<close>

text \<open>\<^verbatim>\<open>path.Ext\<close>: from the last dot of the last element.\<close>

definition path_ext :: "string \<Rightarrow> string" where
  "path_ext p =
     (let r = takeWhile (\<lambda>c. c \<noteq> CHR ''/'') (rev p) in
      case cut CHR ''.'' r of (_, None) \<Rightarrow> [] | (a, Some _) \<Rightarrow> CHR ''.'' # rev a)"

datatype compression = Raw | Xz | Zst

definition byo_kind :: "string \<Rightarrow> compression option" where
  "byo_kind ref0 =
     (let e = to_lower (path_ext (trim_slashes ref0)) in
      if e = ''.raw'' \<or> e = ''.img'' then Some Raw
      else if e = ''.xz'' then Some Xz else if e = ''.zst'' then Some Zst else None)"

definition is_url :: "string \<Rightarrow> bool" where
  "is_url s \<longleftrightarrow> has_prefix s ''http://'' \<or> has_prefix s ''https://''"

definition is_byo_ref :: "string \<Rightarrow> bool" where
  "is_byo_ref s \<longleftrightarrow> is_url s \<or> has_prefix s ''/'' \<or> has_prefix s ''./'' \<or> has_prefix s ''../'' \<or> has_prefix s ''~/'' \<or> byo_kind s \<noteq> None"

section \<open>Checksums\<close>

text \<open>\<open>Unpublished\<close> is \<^verbatim>\<open>ErrNoChecksum\<close>, \<open>Mismatch\<close> is \<^verbatim>\<open>ErrChecksum\<close>.\<close>

datatype img_err = Unpublished string | Mismatch string | ImgErr string

definition is_hex :: "char \<Rightarrow> bool" where
  "is_hex c \<longleftrightarrow> is_digit c \<or> (97 \<le> (of_char c :: nat) \<and> (of_char c :: nat) \<le> 102) \<or> (65 \<le> (of_char c :: nat) \<and> (of_char c :: nat) \<le> 70)"

definition is_digest :: "string \<Rightarrow> bool" where
  "is_digest s \<longleftrightarrow> length s = 64 \<and> list_all is_hex s"

text \<open>A sidecar: the first line that is neither blank nor a comment decides.\<close>

fun sidecar_lines :: "string \<Rightarrow> string list \<Rightarrow> (img_err + string) option" where
  "sidecar_lines file [] = None"
| "sidecar_lines file (l # ls) =
     (let line = trim_space l in
      if line = [] \<or> has_prefix line ''#'' then sidecar_lines file ls
      else case GoLib.fields line of
             [] \<Rightarrow> None
           | h # rest \<Rightarrow>
               Some (if \<not> is_digest h then Inl (ImgErr ''image: invalid .sha256 sidecar'')
                     else if rest \<noteq> [] \<and> path_base (trim_prefix (hd rest) ''*'') \<noteq> path_base file
                     then Inl (ImgErr ''image: invalid .sha256 sidecar: names another file'')
                     else Inr (to_lower h)))"

text \<open>\<open>err\<close> is the error the reader ended with, if any.\<close>

definition parse_sidecar :: "string \<Rightarrow> string option \<Rightarrow> string \<Rightarrow> img_err + string" where
  "parse_sidecar body err file =
     (case sidecar_lines file (split_on CHR 0x0A body) of
        Some r \<Rightarrow> r
      | None \<Rightarrow> (case err of
                  Some t \<Rightarrow> Inl (ImgErr (''image: reading sidecar: '' @ t))
                | None \<Rightarrow> Inl (ImgErr ''image: invalid .sha256 sidecar: empty'')))"

definition sidecar_line :: "string \<Rightarrow> string \<Rightarrow> string" where
  "sidecar_line sum1 file = sum1 @ ''  '' @ path_base file @ [CHR 0x0A]"

text \<open>A line \<^verbatim>\<open>SHA256 (file) = digest\<close>.\<close>

definition checksum_line :: "string \<Rightarrow> (string \<times> string) option" where
  "checksum_line l0 =
     (let l = trim_space l0;
          sum1 = drop (length l - 64) l;
          front = take (length l - 64) l in
      if is_digest sum1 \<and> has_prefix front ''SHA256 ('' \<and> has_suffix front '') = '' \<and> length front > 12
      then Some (take (length front - 12) (drop 8 front), to_lower sum1)
      else None)"

definition parse_checksums :: "string \<Rightarrow> string \<Rightarrow> string option" where
  "parse_checksums body =
     foldl (\<lambda>m l. case checksum_line l of None \<Rightarrow> m | Some (f, d) \<Rightarrow> m(f \<mapsto> d)) Map.empty (split_on CHR 0x0A body)"

section \<open>What is published reads back\<close>

lemma hex_not_space: "is_hex c \<Longrightarrow> \<not> is_space c"
  by (auto simp: is_hex_def is_digit_def is_space_def)

lemma digest_word: "is_digest d \<Longrightarrow> d \<noteq> [] \<and> (\<forall>c \<in> set d. \<not> is_space c)"
  using hex_not_space by (auto simp: is_digest_def list_all_iff)

lemma fields_acc_word: "\<forall>c \<in> set w. \<not> is_space c \<Longrightarrow> fields_acc cur (w @ s) = fields_acc (cur @ w) s"
  by (induction w arbitrary: cur) auto

lemma fields_two:
  assumes "\<forall>c \<in> set a. \<not> is_space c" "\<forall>c \<in> set b. \<not> is_space c" "a \<noteq> []" "b \<noteq> []"
  shows "GoLib.fields (a @ ''  '' @ b) = [a, b]"
proof -
  have s: "is_space (CHR '' '')" by (simp add: is_space_def)
  have "GoLib.fields (a @ ''  '' @ b) = a # fields_acc [] (b @ [])"
    unfolding GoLib.fields_def fields_acc_word [OF assms(1)] using assms(3) s by simp
  also have "fields_acc [] (b @ []) = [b]" using fields_acc_word [OF assms(2), of "[]" "[]"] assms(4) by simp
  finally show ?thesis .
qed

text \<open>A file name as one element of a path.\<close>

definition plain_file :: "string \<Rightarrow> bool" where
  "plain_file f \<longleftrightarrow> f \<noteq> [] \<and> (\<forall>c \<in> set f. \<not> is_space c) \<and> CHR ''/'' \<notin> set f \<and> hd f \<noteq> CHR ''*''"

lemma path_base_plain: "plain_file f \<Longrightarrow> path_base (dir @ ''/'' @ f) = f \<and> path_base f = f"
proof -
  assume f: "plain_file f"
  have r: "rev (dropWhile (\<lambda>c. c = CHR ''/'') (rev (x @ f))) = x @ f" for x
    using f by (cases f rule: rev_cases) (auto simp: plain_file_def)
  have s: "split_on CHR ''/'' (dir @ ''/'' @ f) = split_on CHR ''/'' dir @ [f]"
    using f split_on_mid [of "CHR ''/''" dir f] split_on_free [of "CHR ''/''" f] by (simp add: plain_file_def)
  have n: "f \<noteq> []" "CHR ''/'' \<notin> set f" using f by (simp_all add: plain_file_def)
  have "path_base (dir @ ''/'' @ f) = last (split_on CHR ''/'' (dir @ ''/'' @ f))"
  proof -
    have q: "rev (dropWhile (\<lambda>c. c = CHR ''/'') (rev (dir @ ''/'' @ f))) = dir @ ''/'' @ f"
      using r [of "dir @ ''/''"] by (simp only: append_assoc)
    show ?thesis unfolding path_base_def Let_def q by simp
  qed
  moreover have "path_base f = f"
    using r [of "[]"] n split_on_free [of "CHR ''/''" f] unfolding path_base_def Let_def by simp
  moreover have "last (split_on CHR ''/'' (dir @ ''/'' @ f)) = f" unfolding s by simp
  ultimately show ?thesis by simp
qed

lemma trim_star_plain: "plain_file f \<Longrightarrow> trim_prefix f ''*'' = f"
  by (cases f) (auto simp: plain_file_def trim_prefix_def has_prefix_def)

text \<open>Fact (roundtrip): the checksums that are published read back: a sidecar line written for a file gives that file, under any directory, its
  digest in lower case, and a line of FreeBSD's checksum file gives the name and the digest it was written for, whatever
  the name holds.\<close>

theorem checksums_read_back:
  assumes "is_digest d" and "plain_file f"
  shows "parse_sidecar (sidecar_line d (dir @ ''/'' @ f)) None (dir1 @ ''/'' @ f) = Inr (to_lower d) \<and>
    checksum_line (''SHA256 ('' @ f @ '') = '' @ d) = Some (f, to_lower d)"
proof
  have nl: "is_space (CHR 0x0A)" by (simp add: is_space_def)
  have w: "\<forall>c \<in> set d. \<not> is_space c" "d \<noteq> []" "\<forall>c \<in> set f. \<not> is_space c" "f \<noteq> []"
    using digest_word [OF assms(1)] assms(2) by (auto simp: plain_file_def)
  let ?l = "d @ ''  '' @ f"
  have sp: "CHR 0x0A \<notin> set ?l" using w nl by auto
  have l: "split_on CHR 0x0A (sidecar_line d (dir @ ''/'' @ f)) = [?l, []]"
    using split_on_append [OF sp, of "[]"] path_base_plain [OF assms(2), of dir] by (simp add: sidecar_line_def)
  have e: "hd ?l = hd d" "last ?l = last f" "hd d \<in> set d" "last f \<in> set f" using w by auto
  have t: "trim_space ?l = ?l" by (rule trim_space_id) (use e w in auto)
  have h: "hd d \<noteq> CHR ''#''"
  proof -
    have "is_hex (hd d)" using assms(1) w(2) by (simp add: is_digest_def list_all_iff)
    then show ?thesis by (auto simp: is_hex_def is_digit_def)
  qed
  have p: "\<not> has_prefix ?l ''#''" using h w(2) by (cases d) (auto simp: has_prefix_def)
  have "sidecar_lines (dir1 @ ''/'' @ f) [?l, []] = Some (Inr (to_lower d))"
    unfolding sidecar_lines.simps Let_def t fields_two [OF w(1,3,2,4)]
    using p assms w(2) path_base_plain [OF assms(2)] trim_star_plain [OF assms(2)] by simp
  then show "parse_sidecar (sidecar_line d (dir @ ''/'' @ f)) None (dir1 @ ''/'' @ f) = Inr (to_lower d)"
    by (simp only: parse_sidecar_def l option.case)
next
  let ?p = "''SHA256 ('' @ f @ '') = ''"
  have d: "length d = 64" using assms(1) by (simp add: is_digest_def)
  have w: "\<forall>c \<in> set d. \<not> is_space c" "d \<noteq> []" using digest_word [OF assms(1)] by auto
  have t: "trim_space (?p @ d) = ?p @ d"
    by (rule trim_space_id) (use w last_in_set [of d] in \<open>auto simp: is_space_def\<close>)
  have pre: "has_prefix ?p ''SHA256 (''" by (simp add: has_prefix_def)
  have suf: "has_suffix ?p '') = ''" by (simp add: has_suffix_def has_prefix_def)
  have len: "length ?p = length f + 12" by simp
  have f: "f \<noteq> []" using assms(2) by (simp add: plain_file_def)
  have mid: "take (length ?p - 12) (drop 8 ?p) = f" by simp
  have cut1: "take (length (?p @ d) - 64) (?p @ d) = ?p" "drop (length (?p @ d) - 64) (?p @ d) = d"
  proof -
    have n: "length (?p @ d) - 64 = length ?p" using d by (simp only: length_append)
    show "take (length (?p @ d) - 64) (?p @ d) = ?p" "drop (length (?p @ d) - 64) (?p @ d) = d"
      unfolding n by (metis append_eq_conv_conj)+
  qed
  have "length ?p > 12" using len f by simp
  then have "checksum_line (?p @ d) = Some (take (length ?p - 12) (drop 8 ?p), to_lower d)"
    using assms(1) pre suf unfolding checksum_line_def t Let_def cut1 by simp
  then show "checksum_line (''SHA256 ('' @ f @ '') = '' @ d) = Some (f, to_lower d)" unfolding mid by simp
qed

theorem checksums_read_back_witness:
  "parse_sidecar (sidecar_line (replicate 64 (CHR ''A'')) ''out/disk.raw'') None ''/tmp/disk.raw'' = Inr (replicate 64 (CHR ''a'')) \<and>
   checksum_line (''SHA256 (disk.raw) = '' @ replicate 64 (CHR ''A'')) = Some (''disk.raw'', replicate 64 (CHR ''a''))"
proof -
  have d: "is_digest (replicate 64 (CHR ''A''))" unfolding is_digest_def list_all_iff by (simp only: length_replicate in_set_replicate) (simp add: is_hex_def)
  have f: "plain_file ''disk.raw''" by (simp add: plain_file_def is_space_def)
  have l1: "to_lower ''A'' = ''a''" by code_simp
  have l: "to_lower (replicate 64 (CHR ''A'')) = replicate 64 (CHR ''a'')"
    using l1 by (simp only: to_lower_def map_replicate list.map list.inject)
  show ?thesis using checksums_read_back [OF d f, of "''out''" "''/tmp''"] unfolding l by simp
qed

end
