(* ===== verification/Image_Disk.thy ===== *)
theory Image_Disk
  imports Machine
begin

text \<open>
  Disk images as files (\<^verbatim>\<open>internal/image\<close>: \<^verbatim>\<open>sparse.go\<close>, \<^verbatim>\<open>punch_darwin.go\<close>, \<^verbatim>\<open>image.go\<close>, \<^verbatim>\<open>prebaked.go\<close>, \<^verbatim>\<open>official.go\<close>, \<^verbatim>\<open>byo.go\<close>): the
  writer that leaves holes for runs of zeros, growing a disk, the names and URLs of the images, the kinds of a path, and the
  two checksum formats. A file is its bytes, a \<open>string\<close>.
\<close>

section \<open>The sparse writer\<close>

definition sparse_block :: nat where "sparse_block = 4096"

definition zeros :: "nat \<Rightarrow> string" where
  "zeros n = replicate n (CHR 0x00)"

text \<open>What the kernel does: a write past the end fills the gap with zeros, a truncation cuts or fills.\<close>

definition write_at :: "nat \<Rightarrow> string \<Rightarrow> string \<Rightarrow> string" where
  "write_at pos s f = (if s = [] then f else take pos f @ zeros (pos - length f) @ s @ drop (pos + length s) f)"

definition truncate_to :: "nat \<Rightarrow> string \<Rightarrow> string" where
  "truncate_to n f = take n f @ zeros (n - length f)"

text \<open>\<open>sw_faults\<close>: how the coming writes end; \<open>Some n\<close> writes \<open>n\<close> bytes and fails.\<close>

record sparse_writer =
  sw_file :: string
  sw_pos :: nat
  sw_off :: nat
  sw_pending :: nat
  sw_faults :: "nat option list"

text \<open>Deallocating the whole blocks of a range, which then read as zeros; \<open>holes\<close>: the file system can.\<close>

definition punch_hole :: "bool \<Rightarrow> nat \<Rightarrow> nat \<Rightarrow> string \<Rightarrow> string" where
  "punch_hole holes off n f =
     (let start = (off + sparse_block - 1) div sparse_block * sparse_block;
          stop = (off + n) div sparse_block * sparse_block in
      if stop \<le> start \<or> \<not> holes then f
      else take start f @ zeros (min stop (length f) - start) @ drop stop f)"

definition seek_pending :: "sparse_writer \<Rightarrow> sparse_writer" where
  "seek_pending w =
     (if sw_pending w > 0
      then w\<lparr>sw_pos := sw_off w + sw_pending w, sw_off := sw_off w + sw_pending w, sw_pending := 0\<rparr>
      else w)"

definition write_out :: "string \<Rightarrow> sparse_writer \<Rightarrow> bool \<times> sparse_writer" where
  "write_out s w =
     (case sw_faults w of
        Some n # fs \<Rightarrow> (False, w\<lparr>sw_file := write_at (sw_pos w) (take n s) (sw_file w), sw_pos := sw_pos w + length (take n s),
                            sw_off := sw_off w + length (take n s), sw_faults := fs\<rparr>)
      | _ \<Rightarrow> (True, w\<lparr>sw_file := write_at (sw_pos w) s (sw_file w), sw_pos := sw_pos w + length s,
                 sw_off := sw_off w + length s, sw_faults := tl (sw_faults w)\<rparr>))"

definition sparse_chunk :: "bool \<Rightarrow> string \<Rightarrow> sparse_writer \<Rightarrow> bool \<times> sparse_writer" where
  "sparse_chunk holes s w =
     (if s = zeros (length s) then (True, w\<lparr>sw_pending := sw_pending w + length s\<rparr>)
      else case write_out s (seek_pending w) of
             (False, w1) \<Rightarrow> (False, w1)
           | (True, w1) \<Rightarrow>
               (True, if sw_pending w > 0 then w1\<lparr>sw_file := punch_hole holes (sw_off w) (sw_pending w) (sw_file w1)\<rparr> else w1))"

lemma sparse_block_pos [simp]: "0 < sparse_block"
  by (simp add: sparse_block_def)

function sparse_write :: "bool \<Rightarrow> string \<Rightarrow> sparse_writer \<Rightarrow> bool \<times> sparse_writer" where
  "sparse_write holes p w =
     (if p = [] then (True, w)
      else case sparse_chunk holes (take sparse_block p) w of
             (False, w1) \<Rightarrow> (False, w1)
           | (True, w1) \<Rightarrow> sparse_write holes (drop sparse_block p) w1)"
  by pat_completeness auto
termination by (relation "measure (\<lambda>(_, p, _). length p)") auto

declare sparse_write.simps [simp del]

definition sparse_size :: "sparse_writer \<Rightarrow> nat" where
  "sparse_size w = sw_off w + sw_pending w"

definition sparse_close :: "sparse_writer \<Rightarrow> sparse_writer" where
  "sparse_close w =
     (if sw_pending w > 0
      then w\<lparr>sw_file := truncate_to (sw_off w + sw_pending w) (sw_file w), sw_off := sw_off w + sw_pending w, sw_pending := 0\<rparr>
      else w)"

text \<open>\<^verbatim>\<open>copySparse\<close> of a reader that yields the pieces \<open>ps\<close>: the file and its size, none when a write failed.\<close>

fun sparse_pieces :: "bool \<Rightarrow> string list \<Rightarrow> sparse_writer \<Rightarrow> bool \<times> sparse_writer" where
  "sparse_pieces holes [] w = (True, w)"
| "sparse_pieces holes (p # ps) w =
     (case sparse_write holes p w of (False, w1) \<Rightarrow> (False, w1) | (True, w1) \<Rightarrow> sparse_pieces holes ps w1)"

definition copy_sparse :: "bool \<Rightarrow> nat option list \<Rightarrow> string list \<Rightarrow> (string \<times> nat) option" where
  "copy_sparse holes faults ps =
     (case sparse_pieces holes ps \<lparr>sw_file = [], sw_pos = 0, sw_off = 0, sw_pending = 0, sw_faults = faults\<rparr> of
        (False, _) \<Rightarrow> None
      | (True, w) \<Rightarrow> (let w1 = sparse_close w in Some (sw_file w1, sparse_size w1)))"

section \<open>Growing\<close>

text \<open>\<^verbatim>\<open>Grow\<close>: never shrinks.\<close>

definition grow_to :: "nat \<Rightarrow> string \<Rightarrow> string" where
  "grow_to n f = (if length f \<ge> n then f else truncate_to n f)"

section \<open>A copy is the original\<close>

text \<open>The writer's state stands for what was written: the file so far and the pending zeros.\<close>

definition stands_for :: "string \<Rightarrow> sparse_writer \<Rightarrow> bool" where
  "stands_for s w \<longleftrightarrow> s = sw_file w @ zeros (sw_pending w) \<and> sw_off w = length (sw_file w) \<and> (sw_pending w = 0 \<longrightarrow> sw_pos w = sw_off w)"

lemma zeros_add: "zeros m @ zeros n = zeros (m + n)"
  by (simp add: zeros_def replicate_add)

lemma zeros_length [simp]: "length (zeros n) = n"
  by (simp add: zeros_def)

lemma write_at_end: "write_at (length f + n) s f = (if s = [] then f else f @ zeros n @ s)"
  by (simp add: write_at_def)

lemma take_zeros: "take n (zeros m) = zeros (min n m)"
  by (simp add: zeros_def min.commute)

lemma drop_zeros: "drop n (zeros m) = zeros (m - n)"
  by (simp add: zeros_def)

lemma punch_gap: "punch_hole holes (length f) n (f @ zeros n @ s) = f @ zeros n @ s"
proof (cases "holes \<and> (length f + sparse_block - 1) div sparse_block * sparse_block < (length f + n) div sparse_block * sparse_block")
  case False
  then show ?thesis by (auto simp: punch_hole_def Let_def)
next
  case True
  define a where "a = (length f + sparse_block - 1) div sparse_block * sparse_block"
  define b where "b = (length f + n) div sparse_block * sparse_block"
  have b: "b \<le> length f + n" unfolding b_def by (rule div_times_less_eq_dividend)
  have a: "length f \<le> a" unfolding a_def
  proof -
    have "length f + sparse_block - 1 < (length f + sparse_block - 1) div sparse_block * sparse_block + sparse_block"
      using mod_less_divisor [OF sparse_block_pos, of "length f + sparse_block - 1"]
        div_mult_mod_eq [of "length f + sparse_block - 1" sparse_block] by linarith
    then show "length f \<le> (length f + sparse_block - 1) div sparse_block * sparse_block"
      using sparse_block_pos by linarith
  qed
  have ab: "a < b" using True by (simp add: a_def b_def)
  have "take a (f @ zeros n @ s) = f @ zeros (a - length f)"
    using a ab b by (simp add: take_zeros)
  moreover have "drop b (f @ zeros n @ s) = zeros (n - (b - length f)) @ s"
    using a ab b by (simp add: drop_zeros)
  moreover have "min b (length (f @ zeros n @ s)) = b" using b by simp
  ultimately have "punch_hole holes (length f) n (f @ zeros n @ s) =
      f @ (zeros (a - length f) @ zeros (b - a) @ zeros (n - (b - length f))) @ s"
    using True ab unfolding punch_hole_def Let_def a_def [symmetric] b_def [symmetric] by simp
  also have "zeros (a - length f) @ zeros (b - a) @ zeros (n - (b - length f)) = zeros n"
    using a ab b by (simp add: zeros_add)
  finally show ?thesis .
qed

lemma chunk_stands:
  assumes "stands_for s w" and "c \<noteq> []" and "sparse_chunk holes c w = (True, w1)"
  shows "stands_for (s @ c) w1"
proof (cases "c = zeros (length c)")
  case True
  then have "zeros (sw_pending w) @ c = zeros (sw_pending w + length c)" using zeros_add by metis
  then show ?thesis using True assms by (auto simp: stands_for_def sparse_chunk_def)
next
  case False
  obtain w2 where w2: "write_out c (seek_pending w) = (True, w2)"
    and w1: "w1 = (if sw_pending w > 0 then w2\<lparr>sw_file := punch_hole holes (sw_off w) (sw_pending w) (sw_file w2)\<rparr> else w2)"
    using assms(3) False by (auto simp: sparse_chunk_def split: prod.splits bool.splits)
  have s: "s = sw_file w @ zeros (sw_pending w)" "sw_off w = length (sw_file w)" "sw_pending w = 0 \<Longrightarrow> sw_pos w = sw_off w"
    using assms(1) by (auto simp: stands_for_def)
  have f2: "sw_file w2 = sw_file w @ zeros (sw_pending w) @ c \<and> sw_pending w2 = 0 \<and>
      sw_off w2 = length (sw_file w2) \<and> sw_pos w2 = sw_off w2"
  proof (cases "sw_pending w = 0")
    case True
    have "write_at (length (sw_file w) + 0) c (sw_file w) = sw_file w @ c" using assms(2) by (simp only: write_at_end) (simp add: zeros_def)
    then show ?thesis using w2 s assms(2) True
      by (auto simp: write_out_def seek_pending_def zeros_def split: list.splits option.splits)
  next
    case False
    then show ?thesis using w2 s assms(2)
      by (auto simp: write_out_def seek_pending_def write_at_end split: list.splits option.splits)
  qed
  then show ?thesis using s punch_gap [of holes "sw_file w" "sw_pending w" c]
    by (auto simp: stands_for_def w1 zeros_def)
qed

lemma write_stands: "stands_for s w \<Longrightarrow> sparse_write holes p w = (True, w1) \<Longrightarrow> stands_for (s @ p) w1"
proof (induction holes p w arbitrary: s rule: sparse_write.induct)
  case (1 holes p w)
  show ?case
  proof (cases "p = []")
    case True
    then show ?thesis using "1.prems" by (simp add: sparse_write.simps)
  next
    case False
    obtain w2 where c: "sparse_chunk holes (take sparse_block p) w = (True, w2)"
      and r: "sparse_write holes (drop sparse_block p) w2 = (True, w1)"
      using "1.prems"(2) False by (subst (asm) sparse_write.simps) (auto split: prod.splits bool.splits)
    have "stands_for (s @ take sparse_block p) w2"
      by (rule chunk_stands [OF "1.prems"(1) _ c]) (use False in simp)
    from "1.IH" [OF False c [symmetric] _ this r] show ?thesis by simp
  qed
qed

lemma pieces_stand: "stands_for s w \<Longrightarrow> sparse_pieces holes ps w = (True, w1) \<Longrightarrow> stands_for (s @ concat ps) w1"
proof (induction ps arbitrary: s w)
  case (Cons p ps)
  obtain w2 where w2: "sparse_write holes p w = (True, w2)" "sparse_pieces holes ps w2 = (True, w1)"
    using Cons.prems(2) by (auto split: prod.splits bool.splits)
  show ?case using Cons.IH [OF write_stands [OF Cons.prems(1) w2(1)] w2(2)] by simp
qed simp

text \<open>Without faults the copy ends.\<close>

lemma write_out_fine: "sw_faults w = [] \<Longrightarrow> \<exists>w1. write_out s w = (True, w1) \<and> sw_faults w1 = []"
  by (simp add: write_out_def)

lemma chunk_fine: "sw_faults w = [] \<Longrightarrow> \<exists>w1. sparse_chunk holes s w = (True, w1) \<and> sw_faults w1 = []"
  using write_out_fine [of "seek_pending w" s] by (auto simp: sparse_chunk_def seek_pending_def split: if_splits)

lemma write_fine: "sw_faults w = [] \<Longrightarrow> \<exists>w1. sparse_write holes p w = (True, w1) \<and> sw_faults w1 = []"
proof (induction holes p w rule: sparse_write.induct)
  case (1 holes p w)
  obtain w2 where w2: "sparse_chunk holes (take sparse_block p) w = (True, w2)" "sw_faults w2 = []"
    using chunk_fine [OF "1.prems"] by blast
  show ?case using "1.IH" [OF _ w2(1) [symmetric] _ w2(2)] "1.prems" w2(1)
    by (subst sparse_write.simps) (cases "p = []", auto simp: sparse_write.simps [of holes "[]"])
qed

lemma pieces_fine: "sw_faults w = [] \<Longrightarrow> \<exists>w1. sparse_pieces holes ps w = (True, w1)"
proof (induction ps arbitrary: w)
  case (Cons p ps)
  obtain w1 where "sparse_write holes p w = (True, w1)" "sw_faults w1 = []" using write_fine [OF Cons.prems] by blast
  then show ?case using Cons.IH by simp
qed simp

lemma close_stands: "stands_for s w \<Longrightarrow> sw_file (sparse_close w) = s \<and> sparse_size (sparse_close w) = length s"
  by (auto simp: stands_for_def sparse_close_def sparse_size_def truncate_to_def zeros_def)

text \<open>C36 (equivalence): a sparse copy is the plain copy: however the reader cuts its input into pieces, wherever the zeros lie, whether or not
  the file system gives blocks back, the file ends with exactly the bytes read and their number, or the copy reports a
  failed write; without one it does not fail.\<close>

theorem sparse_copy_is_copy:
  "copy_sparse holes faults ps \<in> {None, Some (concat ps, length (concat ps))} \<and>
   copy_sparse holes [] ps = Some (concat ps, length (concat ps))"
proof -
  have init: "stands_for [] \<lparr>sw_file = [], sw_pos = 0, sw_off = 0, sw_pending = 0, sw_faults = fs\<rparr>" for fs
    by (simp add: stands_for_def zeros_def)
  have some: "copy_sparse holes fs ps = Some (concat ps, length (concat ps))"
    if "sparse_pieces holes ps \<lparr>sw_file = [], sw_pos = 0, sw_off = 0, sw_pending = 0, sw_faults = fs\<rparr> = (True, w)" for fs w
    using pieces_stand [OF init that] close_stands [of "[] @ concat ps" w] that by (simp add: copy_sparse_def Let_def)
  have none: "copy_sparse holes fs ps = None"
    if "sparse_pieces holes ps \<lparr>sw_file = [], sw_pos = 0, sw_off = 0, sw_pending = 0, sw_faults = fs\<rparr> = (False, w)" for fs w
    using that by (simp add: copy_sparse_def)
  have "copy_sparse holes fs ps \<in> {None, Some (concat ps, length (concat ps))}" for fs
  proof -
    obtain b w where e: "sparse_pieces holes ps \<lparr>sw_file = [], sw_pos = 0, sw_off = 0, sw_pending = 0, sw_faults = fs\<rparr> = (b, w)"
      by fastforce
    show ?thesis using some none e by (cases b) simp_all
  qed
  then show ?thesis using pieces_fine [of "\<lparr>sw_file = [], sw_pos = 0, sw_off = 0, sw_pending = 0, sw_faults = []\<rparr>" holes ps] some by auto
qed

end
