(* ===== verification/Image_Fetch.thy ===== *)
theory Image_Fetch
  imports Image_Names Image_Disk "HOL-Library.State_Monad"
begin

text \<open>
  Acquiring a disk image (\<^verbatim>\<open>internal/image/download.go\<close> and the \<^verbatim>\<open>Fetch\<close> of \<^verbatim>\<open>prebaked.go\<close>, \<^verbatim>\<open>official.go\<close> and \<^verbatim>\<open>byo.go\<close>): the resumed
  download, the checksum, and the installation beside the disk and over it. The files of one fetch are kept as their bytes; the
  HTTP server, the decompressors and the failures of the file system are an environment that answers as it pleases, and
  SHA-256 is a function of it. Progress bars and log lines are left out, and no other process writes these files meanwhile.
\<close>

section \<open>Files and the world\<close>

text \<open>The disk, its temporary sibling, the archive the image is downloaded to and its \<^verbatim>\<open>.part\<close>, and a user's image with its sidecar.\<close>

datatype ifile = Disk | DiskTmp | Archive | Part | UserImage | UserSum

datatype fop = OMkdir | OPath | OOpen ifile | OTruncate ifile | OSync ifile | ORename ifile ifile | ORemove ifile | ORead ifile
  | OGrow ifile | OCopy

text \<open>A server's answer: none, or a status with the announced length, the bytes that arrived and were written, and the error the
  copy ended with.\<close>

datatype reply = NoReply string | Reply int "nat option" string "string option"

text \<open>\<open>is_served\<close> is history: the checksum texts servers published, by URL.\<close>

record 'e istore =
  is_file :: "ifile \<Rightarrow> string option"
  is_served :: "(string \<times> string) list"
  is_env :: 'e

text \<open>\<open>ie_unpack\<close>: the bytes a decompressor wrote and its error.\<close>

record 'e ienv =
  ie_sha :: "string \<Rightarrow> string"
  ie_get :: "string \<Rightarrow> nat option \<Rightarrow> 'e \<Rightarrow> reply \<times> 'e"
  ie_fault :: "fop \<Rightarrow> 'e \<Rightarrow> string option \<times> 'e"
  ie_unpack :: "compression \<Rightarrow> string \<Rightarrow> 'e \<Rightarrow> (string \<times> string option) \<times> 'e"

type_synonym ('e, 'a) im = "('e istore, img_err + 'a) state"

definition and_then :: "('e, 'a) im \<Rightarrow> ('a \<Rightarrow> ('e, 'b) im) \<Rightarrow> ('e, 'b) im" where
  "and_then p f = State_Monad.bind p (\<lambda>r. case r of Inl e \<Rightarrow> State_Monad.return (Inl e) | Inr x \<Rightarrow> f x)"

definition or_else :: "('e, 'a) im \<Rightarrow> (img_err \<Rightarrow> ('e, 'a) im) \<Rightarrow> ('e, 'a) im" where
  "or_else p f = State_Monad.bind p (\<lambda>r. case r of Inl e \<Rightarrow> f e | Inr x \<Rightarrow> State_Monad.return (Inr x))"

definition okay :: "'a \<Rightarrow> ('e, 'a) im" where "okay x = State_Monad.return (Inr x)"
definition fails :: "img_err \<Rightarrow> ('e, 'a) im" where "fails e = State_Monad.return (Inl e)"

text \<open>An operation on a file, which may fail and then changes nothing.\<close>

definition attempt :: "'e ienv \<Rightarrow> fop \<Rightarrow> ('e istore \<Rightarrow> 'e istore) \<Rightarrow> ('e, unit) im" where
  "attempt I op change = State (\<lambda>w. case ie_fault I op (is_env w) of
     (Some t, e) \<Rightarrow> (Inl (ImgErr (''image: '' @ t)), w\<lparr>is_env := e\<rparr>)
   | (None, e) \<Rightarrow> (Inr (), change (w\<lparr>is_env := e\<rparr>)))"

definition peek :: "ifile \<Rightarrow> ('e, string option) im" where
  "peek f = State (\<lambda>w. (Inr (is_file w f), w))"

definition put_file :: "ifile \<Rightarrow> string option \<Rightarrow> 'e istore \<Rightarrow> 'e istore" where
  "put_file f x w = w\<lparr>is_file := (is_file w)(f := x)\<rparr>"

definition text_of :: "string option \<Rightarrow> string" where
  "text_of x = (case x of None \<Rightarrow> [] | Some t \<Rightarrow> t)"

definition edit :: "ifile \<Rightarrow> (string \<Rightarrow> string) \<Rightarrow> 'e istore \<Rightarrow> 'e istore" where
  "edit f g w = put_file f (Some (g (text_of (is_file w f)))) w"

definition get_url :: "'e ienv \<Rightarrow> string \<Rightarrow> nat option \<Rightarrow> ('e, reply) im" where
  "get_url I url from1 = State (\<lambda>w. case ie_get I url from1 (is_env w) of (r, e) \<Rightarrow> (Inr r, w\<lparr>is_env := e\<rparr>))"

definition remove_quietly :: "'e ienv \<Rightarrow> ifile \<Rightarrow> ('e, unit) im" where
  "remove_quietly I f = or_else (attempt I (ORemove f) (put_file f None)) (\<lambda>_. okay ())"

definition rename :: "'e ienv \<Rightarrow> ifile \<Rightarrow> ifile \<Rightarrow> ('e, unit) im" where
  "rename I f g = attempt I (ORename f g) (\<lambda>w. put_file f None (put_file g (is_file w f) w))"

section \<open>Download and checksum\<close>

text \<open>The bytes that arrive are written at \<open>from1\<close>, however the copy ends; \<open>len\<close> is the size the file must then have, if announced.\<close>

definition store_body :: "nat \<Rightarrow> string \<Rightarrow> ('e, unit) im" where
  "store_body from1 body = State (\<lambda>w. (Inr (), edit Part (write_at from1 body) w))"

definition copy_body :: "'e ienv \<Rightarrow> nat \<Rightarrow> nat option \<Rightarrow> string \<Rightarrow> string option \<Rightarrow> ('e, unit) im" where
  "copy_body I from1 len body err =
     and_then (store_body from1 body) (\<lambda>_.
       case err of
         Some t \<Rightarrow> fails (ImgErr (''image: downloading: '' @ t))
       | None \<Rightarrow> and_then (peek Part) (\<lambda>f.
           if len \<noteq> None \<and> len \<noteq> Some (length (text_of f)) then fails (ImgErr ''image: short download'')
           else attempt I (OSync Part) (\<lambda>w. w)))"

text \<open>\<^verbatim>\<open>download\<close> into \<open>Part\<close>, from where it ends.\<close>

definition download :: "'e ienv \<Rightarrow> string \<Rightarrow> ('e, unit) im" where
  "download I url =
     and_then (attempt I (OOpen Part) (edit Part (\<lambda>t. t))) (\<lambda>_.
     and_then (peek Part) (\<lambda>f.
       let have1 = length (text_of f) in
       and_then (get_url I url (if have1 > 0 then Some have1 else None)) (\<lambda>r.
         case r of
           NoReply t \<Rightarrow> fails (ImgErr (''image: GET: '' @ t))
         | Reply status len body err \<Rightarrow>
             (if status = 200 then and_then (attempt I (OTruncate Part) (edit Part (\<lambda>_. []))) (\<lambda>_. copy_body I 0 len body err)
              else if status = 206 then copy_body I have1 (map_option (\<lambda>n. have1 + n) len) body err
              else if status = 416 then okay ()
              else fails (ImgErr ''image: GET: unexpected status'')))))"

definition read_file :: "'e ienv \<Rightarrow> ifile \<Rightarrow> ('e, string) im" where
  "read_file I f =
     and_then (attempt I (ORead f) (\<lambda>w. w)) (\<lambda>_.
     and_then (peek f) (\<lambda>x. case x of None \<Rightarrow> fails (ImgErr ''image: no such file or directory'') | Some t \<Rightarrow> okay t))"

definition img_verify :: "'e ienv \<Rightarrow> ifile \<Rightarrow> string \<Rightarrow> ('e, unit) im" where
  "img_verify I f want =
     and_then (read_file I f) (\<lambda>t.
       if ie_sha I t = want then okay ()
       else and_then (remove_quietly I f) (\<lambda>_. fails (Mismatch (''image: checksum mismatch: want '' @ want @ '', got '' @ ie_sha I t))))"

definition serve :: "string \<Rightarrow> string \<Rightarrow> ('e, unit) im" where
  "serve url body = State (\<lambda>w. (Inr (), w\<lparr>is_served := (url, body) # is_served w\<rparr>))"

text \<open>A text of a checksum, as \<open>read1\<close> finds the digest in it; \<open>missing\<close>: what status 404 means.\<close>

definition fetch_digest :: "'e ienv \<Rightarrow> string \<Rightarrow> (string \<Rightarrow> string option \<Rightarrow> img_err + string) \<Rightarrow> img_err \<Rightarrow> ('e, string) im" where
  "fetch_digest I url read1 missing =
     and_then (get_url I url None) (\<lambda>r.
       case r of
         NoReply t \<Rightarrow> fails (ImgErr (''image: GET: '' @ t))
       | Reply status len body err \<Rightarrow>
           (if status = 200 then and_then (serve url body) (\<lambda>_. State_Monad.return (read1 body err))
            else if status = 404 then fails missing
            else fails (ImgErr ''image: GET: unexpected status'')))"

definition read_sidecar :: "string \<Rightarrow> string \<Rightarrow> string option \<Rightarrow> img_err + string" where
  "read_sidecar file body err = parse_sidecar (take 4096 body) (if length body \<ge> 4096 then None else err) file"

definition read_checksums :: "string \<Rightarrow> string \<Rightarrow> string option \<Rightarrow> img_err + string" where
  "read_checksums file body err =
     (case err of
        Some t \<Rightarrow> Inl (ImgErr (''image: reading checksums: '' @ t))
      | None \<Rightarrow> (case parse_checksums body file of None \<Rightarrow> Inl (Unpublished file) | Some want \<Rightarrow> Inr want))"

definition fetch_sidecar :: "'e ienv \<Rightarrow> string \<Rightarrow> string \<Rightarrow> ('e, string) im" where
  "fetch_sidecar I url file = fetch_digest I url (read_sidecar file) (Unpublished url)"

definition fetch_checksum :: "'e ienv \<Rightarrow> string \<Rightarrow> string \<Rightarrow> ('e, string) im" where
  "fetch_checksum I url file = fetch_digest I url (read_checksums file) (ImgErr ''image: GET: unexpected status'')"

text \<open>A verified archive left by an earlier run is reused.\<close>

definition fetch_verified :: "'e ienv \<Rightarrow> string \<Rightarrow> string \<Rightarrow> ('e, unit) im" where
  "fetch_verified I url want =
     and_then (peek Archive) (\<lambda>a.
       if a \<noteq> None then img_verify I Archive want
       else and_then (download I url) (\<lambda>_. and_then (img_verify I Part want) (\<lambda>_. rename I Part Archive)))"

section \<open>Installation\<close>

definition gib :: nat where "gib = 2 ^ 30"

text \<open>A raw image is copied (\<open>copy_sparse\<close> writes the bytes it reads or fails), the others are decompressed. The xz decompressor
  creates its output before it opens the archive, the others after.\<close>

definition create_tmp :: "'e ienv \<Rightarrow> ('e, unit) im" where
  "create_tmp I = attempt I (OOpen DiskTmp) (put_file DiskTmp (Some []))"

definition write_tmp :: "'e ienv \<Rightarrow> compression \<Rightarrow> string \<Rightarrow> ('e, unit) im" where
  "write_tmp I kind a =
     (if kind = Raw then attempt I OCopy (put_file DiskTmp (Some a))
      else State (\<lambda>w. case ie_unpack I kind a (is_env w) of
        ((t, err), e) \<Rightarrow> ((case err of None \<Rightarrow> Inr () | Some m \<Rightarrow> Inl (ImgErr m)), put_file DiskTmp (Some t) (w\<lparr>is_env := e\<rparr>))))"

definition unpack_to :: "'e ienv \<Rightarrow> compression \<Rightarrow> ifile \<Rightarrow> ('e, unit) im" where
  "unpack_to I kind src =
     (if kind = Xz then and_then (create_tmp I) (\<lambda>_. and_then (read_file I src) (write_tmp I kind))
      else and_then (read_file I src) (\<lambda>a. and_then (create_tmp I) (\<lambda>_. write_tmp I kind a)))"

definition drop_tmp :: "'e ienv \<Rightarrow> img_err \<Rightarrow> ('e, unit) im" where
  "drop_tmp I e = and_then (remove_quietly I DiskTmp) (\<lambda>_. fails e)"

definition grow_size :: "int \<Rightarrow> string \<Rightarrow> string" where
  "grow_size disk t = (if disk > 0 then grow_to (nat disk * gib) t else t)"

definition produce :: "'e ienv \<Rightarrow> int \<Rightarrow> compression \<Rightarrow> ifile \<Rightarrow> ('e, unit) im" where
  "produce I disk kind src =
     and_then (or_else (unpack_to I kind src) (drop_tmp I)) (\<lambda>_.
       if disk > 0 then or_else (attempt I (OGrow DiskTmp) (edit DiskTmp (grow_size disk))) (drop_tmp I) else okay ())"

definition install_raw :: "'e ienv \<Rightarrow> int \<Rightarrow> compression \<Rightarrow> ifile \<Rightarrow> ('e, unit) im" where
  "install_raw I disk kind src = and_then (produce I disk kind src) (\<lambda>_. or_else (rename I DiskTmp Disk) (drop_tmp I))"

definition drop_archive :: "'e ienv \<Rightarrow> ('e, unit) im" where
  "drop_archive I = attempt I (ORemove Archive) (put_file Archive None)"

section \<open>The three sources\<close>

text \<open>\<open>base\<close> overrides the base URL, \<open>release\<close> the release, \<open>version\<close> the guest version; empty for the default.\<close>

definition official_fetch :: "'e ienv \<Rightarrow> string \<Rightarrow> string \<Rightarrow> int \<Rightarrow> ('e, unit) im" where
  "official_fetch I base release disk =
     and_then (attempt I OMkdir (\<lambda>w. w)) (\<lambda>_.
     and_then (fetch_checksum I (official_dir_url base release @ ''/CHECKSUM.SHA256'') (official_file_name (or_default release default_release))) (\<lambda>want.
     and_then (fetch_verified I (official_url base release) want) (\<lambda>_.
     and_then (produce I disk Xz Archive) (\<lambda>_.
     and_then (rename I DiskTmp Disk) (\<lambda>_. drop_archive I)))))"

definition prebaked_fetch :: "'e ienv \<Rightarrow> string \<Rightarrow> string \<Rightarrow> string \<Rightarrow> string \<Rightarrow> int \<Rightarrow> ('e, unit) im" where
  "prebaked_fetch I env_url base version release disk =
     (let url = prebaked_url env_url base version release in
      and_then (attempt I OMkdir (\<lambda>w. w)) (\<lambda>_.
      and_then (fetch_sidecar I (url @ ''.sha256'') (prebaked_name version release)) (\<lambda>want.
      and_then (fetch_verified I url want) (\<lambda>_.
      and_then (install_raw I disk Zst Archive) (\<lambda>_. drop_archive I)))))"

text \<open>The archive of a bring-your-own URL, and whether its checksum was published.\<close>

definition byo_download :: "'e ienv \<Rightarrow> string \<Rightarrow> ('e, bool) im" where
  "byo_download I url =
     and_then (or_else (and_then (fetch_sidecar I (url @ ''.sha256'') (path_base url)) (\<lambda>want. okay (Some want)))
       (\<lambda>e. case e of Unpublished _ \<Rightarrow> okay None | _ \<Rightarrow> fails e)) (\<lambda>sum1.
     case sum1 of
       Some want \<Rightarrow> and_then (fetch_verified I url want) (\<lambda>_. okay True)
     | None \<Rightarrow> and_then (download I url) (\<lambda>_. and_then (rename I Part Archive) (\<lambda>_. okay False)))"

text \<open>A bring-your-own file, checked against the sidecar beside it.\<close>

definition byo_check :: "'e ienv \<Rightarrow> string \<Rightarrow> ('e, bool) im" where
  "byo_check I path1 =
     and_then (attempt I OPath (\<lambda>w. w)) (\<lambda>_.
     and_then (peek UserImage) (\<lambda>x.
       if x = None then fails (ImgErr ''image: no such file or directory'')
       else and_then (peek UserSum) (\<lambda>s.
         case s of
           None \<Rightarrow> okay False
         | Some _ \<Rightarrow>
             and_then (read_file I UserSum) (\<lambda>body.
               case parse_sidecar body None path1 of
                 Inl e \<Rightarrow> fails e
               | Inr want \<Rightarrow> and_then (read_file I UserImage) (\<lambda>t.
                   if ie_sha I t = want then okay True
                   else fails (Mismatch (''image: checksum mismatch: want '' @ want @ '', got '' @ ie_sha I t)))))))"

definition byo_fetch :: "'e ienv \<Rightarrow> string \<Rightarrow> int \<Rightarrow> ('e, bool) im" where
  "byo_fetch I ref0 disk =
     (case byo_kind ref0 of
        None \<Rightarrow> fails (ImgErr ''image: unsupported image format (want .raw, .raw.xz or .raw.zst)'')
      | Some kind \<Rightarrow>
          and_then (attempt I OMkdir (\<lambda>w. w)) (\<lambda>_.
          and_then (if is_url ref0 then byo_download I ref0 else byo_check I ref0) (\<lambda>trusted.
          and_then (install_raw I disk kind (if is_url ref0 then Archive else UserImage)) (\<lambda>_.
          and_then (if is_url ref0 then remove_quietly I Archive else okay ()) (\<lambda>_. okay trusted)))))"

end
