(* ===== verification/Image_Laws.thy ===== *)
theory Image_Laws
  imports Image_Fetch
begin

text \<open>
  What a fetch leaves on disk (\<^verbatim>\<open>internal/image\<close>), by a small calculus of triples over its world: a precondition, what holds after
  a success, and what holds after a failure.
\<close>

definition tri :: "('e istore \<Rightarrow> bool) \<Rightarrow> ('e, 'a) im \<Rightarrow> ('a \<Rightarrow> 'e istore \<Rightarrow> bool) \<Rightarrow> ('e istore \<Rightarrow> bool) \<Rightarrow> bool" where
  "tri P p Q E \<longleftrightarrow> (\<forall>w. P w \<longrightarrow> (case run_state p w of (Inl _, w1) \<Rightarrow> E w1 | (Inr x, w1) \<Rightarrow> Q x w1))"

lemma triD: "tri P p Q E \<Longrightarrow> P w \<Longrightarrow> run_state p w = (Inr x, w1) \<Longrightarrow> Q x w1"
  by (force simp: tri_def)

lemma tri_errD: "tri P p Q E \<Longrightarrow> P w \<Longrightarrow> run_state p w = (Inl e, w1) \<Longrightarrow> E w1"
  by (force simp: tri_def)

lemma tri_then:
  assumes "tri P p R E" and "\<And>x. tri (R x) (f x) Q E"
  shows "tri P (and_then p f) Q E"
  unfolding tri_def
proof (intro allI impI)
  fix w assume w: "P w"
  obtain r w1 where r: "run_state p w = (r, w1)" by fastforce
  show "case run_state (and_then p f) w of (Inl _, w1) \<Rightarrow> E w1 | (Inr x, w1) \<Rightarrow> Q x w1"
  proof (cases r)
    case (Inl e)
    then show ?thesis using tri_errD [OF assms(1) w, of e w1] r by (simp add: and_then_def State_Monad.bind_def State_Monad.return_def)
  next
    case (Inr x)
    have "R x w1" using triD [OF assms(1) w] r Inr by simp
    then show ?thesis using assms(2) [of x] r Inr unfolding tri_def by (simp add: and_then_def State_Monad.bind_def)
  qed
qed

lemma tri_else:
  assumes "tri P p Q R" and "\<And>e. tri R (f e) Q E"
  shows "tri P (or_else p f) Q E"
  unfolding tri_def
proof (intro allI impI)
  fix w assume w: "P w"
  obtain r w1 where r: "run_state p w = (r, w1)" by fastforce
  show "case run_state (or_else p f) w of (Inl _, w1) \<Rightarrow> E w1 | (Inr x, w1) \<Rightarrow> Q x w1"
  proof (cases r)
    case (Inr x)
    then show ?thesis using triD [OF assms(1) w, of x w1] r by (simp add: or_else_def State_Monad.bind_def State_Monad.return_def)
  next
    case (Inl e)
    have "R w1" using tri_errD [OF assms(1) w] r Inl by simp
    then show ?thesis using assms(2) [of e] r Inl unfolding tri_def by (simp add: or_else_def State_Monad.bind_def)
  qed
qed

lemma tri_okay: "(\<And>w. P w \<Longrightarrow> Q x w) \<Longrightarrow> tri P (okay x) Q E"
  by (simp add: tri_def okay_def State_Monad.return_def)

lemma tri_fails: "(\<And>w. P w \<Longrightarrow> E w) \<Longrightarrow> tri P (fails e) Q E"
  by (simp add: tri_def fails_def State_Monad.return_def)

lemma tri_result: "(\<And>w. P w \<Longrightarrow> case r of Inl _ \<Rightarrow> E w | Inr x \<Rightarrow> Q x w) \<Longrightarrow> tri P (State_Monad.return r) Q E"
  by (cases r) (simp_all add: tri_def State_Monad.return_def)

lemma tri_attempt:
  assumes "\<And>w e. P w \<Longrightarrow> E (w\<lparr>is_env := e\<rparr>)" and "\<And>w e. P w \<Longrightarrow> Q () (change (w\<lparr>is_env := e\<rparr>))"
  shows "tri P (attempt I op change) Q E"
  unfolding tri_def
proof (intro allI impI)
  fix w assume w: "P w"
  obtain x e where "ie_fault I op (is_env w) = (x, e)" by fastforce
  then show "case run_state (attempt I op change) w of (Inl _, w1) \<Rightarrow> E w1 | (Inr x, w1) \<Rightarrow> Q x w1"
    using assms(1,2) [OF w, of e] by (cases x) (simp_all add: attempt_def)
qed

lemma tri_peek: "(\<And>w. P w \<Longrightarrow> Q (is_file w f) w) \<Longrightarrow> tri P (peek f) Q E"
  by (simp add: tri_def peek_def)

lemma tri_get_url:
  assumes "\<And>w r e. P w \<Longrightarrow> Q r (w\<lparr>is_env := e\<rparr>)"
  shows "tri P (get_url I url n) Q E"
  unfolding tri_def
proof (intro allI impI)
  fix w assume w: "P w"
  obtain r e where "ie_get I url n (is_env w) = (r, e)" by fastforce
  then show "case run_state (get_url I url n) w of (Inl _, w1) \<Rightarrow> E w1 | (Inr x, w1) \<Rightarrow> Q x w1"
    using assms [OF w, of r e] by (simp add: get_url_def)
qed

lemma tri_if: "(b \<Longrightarrow> tri P p Q E) \<Longrightarrow> (\<not> b \<Longrightarrow> tri P r Q E) \<Longrightarrow> tri P (if b then p else r) Q E"
  by simp

lemma tri_option: "(x = None \<Longrightarrow> tri P p Q E) \<Longrightarrow> (\<And>y. x = Some y \<Longrightarrow> tri P (f y) Q E) \<Longrightarrow> tri P (case x of None \<Rightarrow> p | Some y \<Rightarrow> f y) Q E"
  by (cases x) auto

lemma tri_reply: "(\<And>t. tri P (f t) Q E) \<Longrightarrow> (\<And>s l b e. tri P (g s l b e) Q E) \<Longrightarrow> tri P (case r of NoReply t \<Rightarrow> f t | Reply s l b e \<Rightarrow> g s l b e) Q E"
  by (cases r) auto

lemma tri_store: "(\<And>w. P w \<Longrightarrow> Q () (edit Part (write_at n body) w)) \<Longrightarrow> tri P (store_body n body) Q E"
  by (simp add: tri_def store_body_def)

lemma tri_serve:
  assumes "\<And>w. P w \<Longrightarrow> Q () (w\<lparr>is_served := (url, body) # is_served w\<rparr>)"
  shows "tri P (serve url body) Q E"
  unfolding tri_def
proof (intro allI impI)
  fix w assume "P w"
  then have "Q () (w\<lparr>is_served := (url, body) # is_served w\<rparr>)" by (rule assms)
  then show "case run_state (serve url body) w of (Inl _, w1) \<Rightarrow> E w1 | (Inr x, w1) \<Rightarrow> Q x w1"
    unfolding serve_def state.sel prod.case sum.case .
qed

lemma tri_pre:
  assumes "\<And>w. P w \<Longrightarrow> P' w" and "tri P' p Q E"
  shows "tri P p Q E"
  unfolding tri_def
proof (intro allI impI)
  fix w assume "P w"
  then have "P' w" by (rule assms(1))
  then show "case run_state p w of (Inl _, w1) \<Rightarrow> E w1 | (Inr x, w1) \<Rightarrow> Q x w1"
    by (rule assms(2) [unfolded tri_def, THEN spec, THEN mp])
qed

lemma tri_post:
  assumes "tri P p Q E" and "\<And>x w. Q x w \<Longrightarrow> Q' x w" and "\<And>w. E w \<Longrightarrow> E' w"
  shows "tri P p Q' E'"
  unfolding tri_def
proof (intro allI impI)
  fix w assume w: "P w"
  obtain r w1 where r: "run_state p w = (r, w1)" by fastforce
  show "case run_state p w of (Inl _, w1) \<Rightarrow> E' w1 | (Inr x, w1) \<Rightarrow> Q' x w1"
  proof (cases r)
    case (Inl e)
    have "E' w1" by (rule assms(3), rule tri_errD [OF assms(1) w, of e]) (simp add: r Inl)
    then show ?thesis by (simp add: r Inl)
  next
    case (Inr x)
    have "Q' x w1" by (rule assms(2), rule triD [OF assms(1) w]) (simp add: r Inr)
    then show ?thesis by (simp add: r Inr)
  qed
qed

text \<open>What an assertion must not depend on: the environment, and the files a step may write.\<close>

definition unseen :: "ifile set \<Rightarrow> ('e istore \<Rightarrow> bool) \<Rightarrow> bool" where
  "unseen fs P \<longleftrightarrow> (\<forall>w e. P w \<longrightarrow> P (w\<lparr>is_env := e\<rparr>)) \<and> (\<forall>w f x. f \<in> fs \<longrightarrow> P w \<longrightarrow> P (put_file f x w))"

lemma unseen_env: "unseen fs P \<Longrightarrow> P w \<Longrightarrow> P (w\<lparr>is_env := e\<rparr>)"
  by (simp add: unseen_def)

lemma unseen_put: "unseen fs P \<Longrightarrow> f \<in> fs \<Longrightarrow> P w \<Longrightarrow> P (put_file f x w)"
  by (simp add: unseen_def)

lemma unseen_edit: "unseen fs P \<Longrightarrow> f \<in> fs \<Longrightarrow> P w \<Longrightarrow> P (edit f g w)"
  by (simp add: unseen_def edit_def)

lemma tri_remove_quietly: "unseen fs P \<Longrightarrow> f \<in> fs \<Longrightarrow> tri P (remove_quietly I f) (\<lambda>_. P) E"
  unfolding remove_quietly_def
  by (rule tri_else [where R = P]) (auto intro!: tri_attempt tri_okay dest: unseen_env unseen_put)

text \<open>A step keeps what it does not write, however it ends.\<close>

abbreviation keeps_it :: "('e istore \<Rightarrow> bool) \<Rightarrow> ('e, 'a) im \<Rightarrow> bool" where
  "keeps_it P p \<equiv> tri P p (\<lambda>_. P) P"

lemma keeps_then: "keeps_it P p \<Longrightarrow> (\<And>x. keeps_it P (f x)) \<Longrightarrow> keeps_it P (and_then p f)"
  by (rule tri_then)

lemma keeps_attempt:
  assumes "unseen fs P" and "\<And>w. P w \<Longrightarrow> P (change w)"
  shows "keeps_it P (attempt I op change)"
  by (rule tri_attempt) (rule unseen_env [OF assms(1)], assumption, rule assms(2), rule unseen_env [OF assms(1)])

lemma keeps_peek: "keeps_it P (peek f)"
  by (rule tri_peek)

lemma keeps_get: "unseen fs P \<Longrightarrow> keeps_it P (get_url I url n)"
  by (rule tri_get_url) (rule unseen_env)

lemma keeps_store: "unseen fs P \<Longrightarrow> Part \<in> fs \<Longrightarrow> keeps_it P (store_body n body)"
  by (rule tri_store) (rule unseen_edit)

lemma keeps_fails: "keeps_it P (fails e)"
  by (rule tri_fails)

lemma keeps_okay: "keeps_it P (okay x)"
  by (rule tri_okay)

lemmas keeps_rules = keeps_then keeps_peek keeps_fails keeps_okay tri_if tri_option tri_reply

lemma keeps_copy: "unseen fs P \<Longrightarrow> Part \<in> fs \<Longrightarrow> keeps_it P (copy_body I n len body err)"
  unfolding copy_body_def by (intro keeps_rules keeps_store keeps_attempt)

lemma keeps_download: "unseen fs P \<Longrightarrow> Part \<in> fs \<Longrightarrow> keeps_it P (download I url)"
  unfolding download_def Let_def
  by (intro keeps_rules keeps_get keeps_copy keeps_attempt) (assumption | rule unseen_edit)+

lemma tri_read: "unseen fs P \<Longrightarrow> tri P (read_file I f) (\<lambda>t w. P w \<and> is_file w f = Some t) P"
  unfolding read_file_def
proof (rule tri_then [where R = "\<lambda>_. P"], rule keeps_attempt)
  show "tri P (and_then (peek f) (\<lambda>x. case x of None \<Rightarrow> fails (ImgErr ''image: no such file or directory'') | Some t \<Rightarrow> okay t))
      (\<lambda>t w. P w \<and> is_file w f = Some t) P"
    by (rule tri_then [where R = "\<lambda>x w. P w \<and> is_file w f = x"], rule tri_peek, simp)
      (rule tri_option; rule tri_fails tri_okay; simp)
qed

text \<open>A checksum that matches says what the file holds.\<close>

lemma tri_verify:
  assumes "unseen fs P" and "f \<in> fs"
  shows "tri P (img_verify I f want) (\<lambda>_ w. P w \<and> (\<exists>a. is_file w f = Some a \<and> ie_sha I a = want)) P"
  unfolding img_verify_def
proof (rule tri_then [OF tri_read [OF assms(1)]])
  fix t
  show "tri (\<lambda>w. P w \<and> is_file w f = Some t) (if ie_sha I t = want then okay () else and_then (remove_quietly I f)
      (\<lambda>_. fails (Mismatch (''image: checksum mismatch: want '' @ want @ '', got '' @ ie_sha I t))))
     (\<lambda>_ w. P w \<and> (\<exists>a. is_file w f = Some a \<and> ie_sha I a = want)) P"
  proof (cases "ie_sha I t = want")
    case True
    then show ?thesis unfolding if_P [OF True] by (intro tri_okay conjI exI; elim conjE)
  next
    case False
    have "tri (\<lambda>w. P w \<and> is_file w f = Some t) (remove_quietly I f) (\<lambda>_. P) P"
      by (rule tri_pre [OF _ tri_remove_quietly [OF assms]]) simp
    then have "tri (\<lambda>w. P w \<and> is_file w f = Some t) (and_then (remove_quietly I f)
        (\<lambda>_. fails (Mismatch (''image: checksum mismatch: want '' @ want @ '', got '' @ ie_sha I t))))
        (\<lambda>_ w. P w \<and> (\<exists>a. is_file w f = Some a \<and> ie_sha I a = want)) P"
      by (rule tri_then) (rule tri_fails)
    then show ?thesis unfolding if_not_P [OF False] .
  qed
qed

lemma tri_rename:
  assumes "unseen fs P" "f \<in> fs" "g \<in> fs" "f \<noteq> g"
  shows "tri (\<lambda>w. P w \<and> is_file w f = Some a) (rename I f g) (\<lambda>_ w. P w \<and> is_file w g = Some a) P"
  unfolding rename_def
proof (rule tri_attempt)
  fix w e assume w: "P w \<and> is_file w f = Some a"
  then show "P (w\<lparr>is_env := e\<rparr>)" using unseen_env [OF assms(1)] by blast
  then have "P (put_file f None (put_file g (Some a) (w\<lparr>is_env := e\<rparr>)))" by (intro unseen_put [OF assms(1)] assms)
  then show "P (put_file f None (put_file g (is_file (w\<lparr>is_env := e\<rparr>) f) (w\<lparr>is_env := e\<rparr>))) \<and>
      is_file (put_file f None (put_file g (is_file (w\<lparr>is_env := e\<rparr>) f) (w\<lparr>is_env := e\<rparr>))) g = Some a"
    using w assms(4) by (simp add: put_file_def)
qed

lemma tri_ex: "(\<And>a. tri (P a) p Q E) \<Longrightarrow> tri (\<lambda>w. \<exists>a. P a w) p Q E"
  unfolding tri_def by (intro allI impI) (elim exE, metis (no_types, lifting))

lemma tri_keeps: "keeps_it P p \<Longrightarrow> (\<And>w. P' w \<Longrightarrow> P w) \<Longrightarrow> tri P' p (\<lambda>_. P) P"
  by (rule tri_pre)

text \<open>A fetch that is verified leaves an archive with the digest wanted.\<close>

definition has_archive :: "'e ienv \<Rightarrow> string \<Rightarrow> ('e istore \<Rightarrow> bool) \<Rightarrow> 'e istore \<Rightarrow> bool" where
  "has_archive I want P w \<longleftrightarrow> P w \<and> (\<exists>a. is_file w Archive = Some a \<and> ie_sha I a = want)"

lemma tri_fetch_verified:
  assumes b: "unseen {Archive, Part} P"
  shows "tri P (fetch_verified I url want) (\<lambda>_. has_archive I want P) P"
  unfolding fetch_verified_def
proof (rule tri_then [OF keeps_peek], rule tri_if)
  show "tri P (img_verify I Archive want) (\<lambda>_. has_archive I want P) P"
    unfolding has_archive_def by (rule tri_verify [OF b]) simp
  have r: "tri (\<lambda>w. P w \<and> (\<exists>a. is_file w Part = Some a \<and> ie_sha I a = want)) (rename I Part Archive) (\<lambda>_. has_archive I want P) P"
  proof -
    have "tri (\<lambda>w. (P w \<and> is_file w Part = Some a) \<and> ie_sha I a = want) (rename I Part Archive) (\<lambda>_. has_archive I want P) P" for a
    proof (cases "ie_sha I a = want")
      case True
      have "tri (\<lambda>w. P w \<and> is_file w Part = Some a) (rename I Part Archive) (\<lambda>_. has_archive I want P) P"
        by (rule tri_post [OF tri_rename [OF b]]) (use True in \<open>auto simp: has_archive_def\<close>)
      then show ?thesis by (rule tri_pre [rotated]) blast
    qed (simp add: tri_def)
    then have "tri (\<lambda>w. \<exists>a. (P w \<and> is_file w Part = Some a) \<and> ie_sha I a = want) (rename I Part Archive) (\<lambda>_. has_archive I want P) P"
      by (rule tri_ex)
    then show ?thesis by (rule tri_pre [rotated]) blast
  qed
  show "tri P (and_then (download I url) (\<lambda>_. and_then (img_verify I Part want) (\<lambda>_. rename I Part Archive))) (\<lambda>_. has_archive I want P) P"
    by (rule tri_then [OF keeps_download [OF b]], simp) (rule tri_then [OF tri_verify [OF b]], simp, rule r)
qed

definition unpacked :: "'e ienv \<Rightarrow> compression \<Rightarrow> string \<Rightarrow> string \<Rightarrow> bool" where
  "unpacked I kind a raw \<longleftrightarrow> (if kind = Raw then raw = a else \<exists>e. fst (ie_unpack I kind a e) = (raw, None))"

lemma tri_unpack:
  assumes b: "unseen {DiskTmp} P" and s: "src \<noteq> DiskTmp"
  shows "tri (\<lambda>w. P w \<and> is_file w src = Some a) (unpack_to I kind src)
    (\<lambda>_ w. P w \<and> (\<exists>raw. unpacked I kind a raw \<and> is_file w DiskTmp = Some raw)) P"
proof -
  let ?P = "\<lambda>w. P w \<and> is_file w src = Some a"
  have b1: "unseen {DiskTmp} ?P" using b s by (auto simp: unseen_def put_file_def)
  have o: "keeps_it ?P (create_tmp I)"
    unfolding create_tmp_def by (rule keeps_attempt [OF b1]) (rule unseen_put [OF b1], simp_all)
  have raw: "tri (\<lambda>w. ?P w \<and> is_file w src = Some t) (write_tmp I kind t)
      (\<lambda>_ w. P w \<and> (\<exists>raw. unpacked I kind a raw \<and> is_file w DiskTmp = Some raw)) P" for t
  unfolding write_tmp_def
  proof (rule tri_if)
    assume k: "kind = Raw"
    show "tri (\<lambda>w. ?P w \<and> is_file w src = Some t) (attempt I OCopy (put_file DiskTmp (Some t)))
        (\<lambda>_ w. P w \<and> (\<exists>raw. unpacked I kind a raw \<and> is_file w DiskTmp = Some raw)) P"
    proof (rule tri_attempt)
      fix w e assume w: "?P w \<and> is_file w src = Some t"
      then show "P (w\<lparr>is_env := e\<rparr>)" using unseen_env [OF b] by blast
      then have "P (put_file DiskTmp (Some t) (w\<lparr>is_env := e\<rparr>))" by (intro unseen_put [OF b]) simp_all
      then show "P (put_file DiskTmp (Some t) (w\<lparr>is_env := e\<rparr>)) \<and> (\<exists>raw. unpacked I kind a raw \<and>
          is_file (put_file DiskTmp (Some t) (w\<lparr>is_env := e\<rparr>)) DiskTmp = Some raw)"
        using w k by (auto simp: unpacked_def put_file_def)
    qed
  next
    assume k: "kind \<noteq> Raw"
    show "tri (\<lambda>w. ?P w \<and> is_file w src = Some t) (State (\<lambda>w. case ie_unpack I kind t (is_env w) of
         ((x, err), e) \<Rightarrow> ((case err of None \<Rightarrow> Inr () | Some m \<Rightarrow> Inl (ImgErr m)), put_file DiskTmp (Some x) (w\<lparr>is_env := e\<rparr>))))
        (\<lambda>_ w. P w \<and> (\<exists>raw. unpacked I kind a raw \<and> is_file w DiskTmp = Some raw)) P"
      unfolding tri_def
    proof (intro allI impI)
      fix w assume w: "?P w \<and> is_file w src = Some t"
      obtain x err e where u: "ie_unpack I kind t (is_env w) = ((x, err), e)" by (metis surj_pair)
      have p: "P (put_file DiskTmp (Some x) (w\<lparr>is_env := e\<rparr>))" by (intro unseen_put [OF b] unseen_env [OF b]) (use w in simp_all)
      have "unpacked I kind a x" if "err = None"
      proof -
        have "fst (ie_unpack I kind a (is_env w)) = (x, None)" using u w that by auto
        then show ?thesis using k by (auto simp: unpacked_def)
      qed
      then show "case run_state (State (\<lambda>w. case ie_unpack I kind t (is_env w) of
         ((x, err), e) \<Rightarrow> ((case err of None \<Rightarrow> Inr () | Some m \<Rightarrow> Inl (ImgErr m)), put_file DiskTmp (Some x) (w\<lparr>is_env := e\<rparr>)))) w of
          (Inl _, w1) \<Rightarrow> P w1 | (Inr _, w1) \<Rightarrow> P w1 \<and> (\<exists>raw. unpacked I kind a raw \<and> is_file w1 DiskTmp = Some raw)"
        using p u by (cases err) (simp_all add: put_file_def)
    qed
  qed
  have x: "tri ?P (and_then (create_tmp I) (\<lambda>_. and_then (read_file I src) (write_tmp I kind)))
      (\<lambda>_ w. P w \<and> (\<exists>raw. unpacked I kind a raw \<and> is_file w DiskTmp = Some raw)) P"
    by (rule tri_then [where R = "\<lambda>_. ?P"], rule tri_post [OF o], assumption, blast,
        rule tri_then [OF tri_post [OF tri_read [OF b1]]], assumption, blast, rule raw)
  have t: "tri (\<lambda>w. ?P w \<and> is_file w src = Some t) (and_then (create_tmp I) (\<lambda>_. write_tmp I kind t))
      (\<lambda>_ w. P w \<and> (\<exists>raw. unpacked I kind a raw \<and> is_file w DiskTmp = Some raw)) P" for t
  proof (rule tri_then [where R = "\<lambda>_ w. ?P w \<and> is_file w src = Some t"])
    have b2: "unseen {DiskTmp} (\<lambda>w. ?P w \<and> is_file w src = Some t)" using b1 s by (auto simp: unseen_def put_file_def)
    show "tri (\<lambda>w. ?P w \<and> is_file w src = Some t) (create_tmp I) (\<lambda>_ w. ?P w \<and> is_file w src = Some t) P"
      unfolding create_tmp_def by (rule tri_post [OF keeps_attempt [OF b2]]) ((rule unseen_put [OF b2], simp, assumption)[1], assumption, simp)
  qed (rule raw)
  show ?thesis unfolding unpack_to_def
    by (rule tri_if, rule x, rule tri_then [OF tri_post [OF tri_read [OF b1]]], assumption, blast, rule t)
qed

text \<open>The disk's new content beside it, then over it.\<close>

definition made :: "'e ienv \<Rightarrow> int \<Rightarrow> compression \<Rightarrow> string \<Rightarrow> string \<Rightarrow> bool" where
  "made I disk kind a d \<longleftrightarrow> (\<exists>raw. unpacked I kind a raw \<and> d = grow_size disk raw)"

lemma tri_drop_tmp: "unseen {DiskTmp} P \<Longrightarrow> tri P (drop_tmp I e) Q P"
  unfolding drop_tmp_def by (rule tri_then [OF tri_remove_quietly]) (auto intro: tri_fails)

lemma tri_produce:
  assumes b: "unseen {DiskTmp} P" and s: "src \<noteq> DiskTmp"
  shows "tri (\<lambda>w. P w \<and> is_file w src = Some a) (produce I disk kind src)
    (\<lambda>_ w. P w \<and> (\<exists>d. made I disk kind a d \<and> is_file w DiskTmp = Some d)) P"
  unfolding produce_def
proof (rule tri_then [OF tri_else [OF tri_unpack [OF b s] tri_drop_tmp [OF b]]], rule tri_if)
  let ?R = "\<lambda>w. P w \<and> (\<exists>raw. unpacked I kind a raw \<and> is_file w DiskTmp = Some raw)"
  let ?Q = "\<lambda>w. P w \<and> (\<exists>d. made I disk kind a d \<and> is_file w DiskTmp = Some d)"
  have g: "tri ?R (attempt I (OGrow DiskTmp) (edit DiskTmp (grow_size disk))) (\<lambda>_. ?Q) P"
  proof (rule tri_attempt)
    fix w e assume w: "?R w"
    then show "P (w\<lparr>is_env := e\<rparr>)" using unseen_env [OF b] by blast
    then have "P (edit DiskTmp (grow_size disk) (w\<lparr>is_env := e\<rparr>))" by (intro unseen_edit [OF b]) simp_all
    then show "?Q (edit DiskTmp (grow_size disk) (w\<lparr>is_env := e\<rparr>))"
      using w by (auto simp: edit_def put_file_def text_of_def made_def)
  qed
  show "tri ?R (or_else (attempt I (OGrow DiskTmp) (edit DiskTmp (grow_size disk))) (drop_tmp I)) (\<lambda>_. ?Q) P"
    by (rule tri_else [OF g tri_drop_tmp [OF b]])
  assume "\<not> disk > 0"
  then have "grow_size disk raw = raw" for raw by (simp add: grow_size_def)
  then show "tri ?R (okay ()) (\<lambda>_. ?Q) P" by (intro tri_okay) (auto simp: made_def)
qed

text \<open>The rename over the disk: the old one until it, the new one after it.\<close>

lemma tri_over_disk:
  assumes b: "unseen {DiskTmp} P" and c: "unseen {DiskTmp, Disk} K" and k: "\<And>w. P w \<Longrightarrow> K w"
  shows "tri (\<lambda>w. P w \<and> (\<exists>d. made I disk kind a d \<and> is_file w DiskTmp = Some d)) (rename I DiskTmp Disk)
    (\<lambda>_ w. K w \<and> (\<exists>d. made I disk kind a d \<and> is_file w Disk = Some d)) P"
  unfolding rename_def
proof (rule tri_attempt)
  fix w e assume w: "P w \<and> (\<exists>d. made I disk kind a d \<and> is_file w DiskTmp = Some d)"
  then show p: "P (w\<lparr>is_env := e\<rparr>)" using unseen_env [OF b] by blast
  have "K (put_file DiskTmp None (put_file Disk (is_file (w\<lparr>is_env := e\<rparr>) DiskTmp) (w\<lparr>is_env := e\<rparr>)))"
    by (intro unseen_put [OF c] k p) simp_all
  then show "K (put_file DiskTmp None (put_file Disk (is_file (w\<lparr>is_env := e\<rparr>) DiskTmp) (w\<lparr>is_env := e\<rparr>))) \<and>
      (\<exists>d. made I disk kind a d \<and>
        is_file (put_file DiskTmp None (put_file Disk (is_file (w\<lparr>is_env := e\<rparr>) DiskTmp) (w\<lparr>is_env := e\<rparr>))) Disk = Some d)"
    using w by (simp add: put_file_def)
qed

text \<open>What a source published, and the image made of an archive with that digest.\<close>

definition published_digest :: "(string \<times> string) list \<Rightarrow> string \<Rightarrow> (string \<Rightarrow> string option \<Rightarrow> img_err + string) \<Rightarrow> string \<Rightarrow> bool" where
  "published_digest served url read1 want \<longleftrightarrow> (\<exists>body err. (url, body) \<in> set served \<and> read1 body err = Inr want)"

definition verified_image ::
  "'e ienv \<Rightarrow> string \<Rightarrow> (string \<Rightarrow> string option \<Rightarrow> img_err + string) \<Rightarrow> int \<Rightarrow> compression \<Rightarrow> 'e istore \<Rightarrow> bool" where
  "verified_image I url read1 disk kind w \<longleftrightarrow>
     (\<exists>want a d. published_digest (is_served w) url read1 want \<and> ie_sha I a = want \<and> made I disk kind a d \<and> is_file w Disk = Some d)"

lemma tri_digest:
  "tri (\<lambda>w. is_file w Disk = d0) (fetch_digest I url read1 missing)
     (\<lambda>want w. is_file w Disk = d0 \<and> published_digest (is_served w) url read1 want) (\<lambda>w. is_file w Disk = d0)"
proof -
  have b: "unseen {} (\<lambda>w. is_file w Disk = d0)" by (simp add: unseen_def)
  have r: "tri (\<lambda>w. is_file w Disk = d0) (and_then (serve url body) (\<lambda>_. State_Monad.return (read1 body err)))
     (\<lambda>want w. is_file w Disk = d0 \<and> published_digest (is_served w) url read1 want) (\<lambda>w. is_file w Disk = d0)" for body err
    by (rule tri_then [where R = "\<lambda>_ w. is_file w Disk = d0 \<and> (url, body) \<in> set (is_served w)"], rule tri_serve, simp)
      (rule tri_result, auto simp: published_digest_def split: sum.split)
  show ?thesis unfolding fetch_digest_def
    by (rule tri_then [OF keeps_get [OF b]], rule tri_reply) (intro tri_if r tri_fails; assumption)+
qed

text \<open>From an archive with the digest published to the disk.\<close>

definition ready_to_install :: "string option \<Rightarrow> string \<Rightarrow> (string \<Rightarrow> string option \<Rightarrow> img_err + string) \<Rightarrow> string \<Rightarrow> 'e istore \<Rightarrow> bool" where
  "ready_to_install d0 url read1 want w \<longleftrightarrow> is_file w Disk = d0 \<and> published_digest (is_served w) url read1 want"

lemma blind_ready: "Disk \<notin> fs \<Longrightarrow> unseen fs (ready_to_install d0 url read1 want)"
  by (auto simp: unseen_def ready_to_install_def put_file_def)

lemma blind_published: "unseen fs (\<lambda>w. published_digest (is_served w) url read1 want)"
  by (simp add: unseen_def put_file_def)

lemma blind_verified: "Disk \<notin> fs \<Longrightarrow> unseen fs (verified_image I url read1 disk kind)"
  unfolding unseen_def verified_image_def put_file_def by auto

lemma tri_made:
  "tri (has_archive I want (ready_to_install d0 url read1 want)) (produce I disk kind Archive)
     (\<lambda>_ w. \<exists>a. ie_sha I a = want \<and> ready_to_install d0 url read1 want w \<and> (\<exists>d. made I disk kind a d \<and> is_file w DiskTmp = Some d))
     (\<lambda>w. is_file w Disk = d0)"
proof -
  have "tri (\<lambda>w. ie_sha I a = want \<and> ready_to_install d0 url read1 want w \<and> is_file w Archive = Some a) (produce I disk kind Archive)
     (\<lambda>_ w. \<exists>a. ie_sha I a = want \<and> ready_to_install d0 url read1 want w \<and> (\<exists>d. made I disk kind a d \<and> is_file w DiskTmp = Some d))
     (\<lambda>w. is_file w Disk = d0)" for a
  proof (cases "ie_sha I a = want")
    case True
    have "tri (\<lambda>w. ready_to_install d0 url read1 want w \<and> is_file w Archive = Some a) (produce I disk kind Archive)
      (\<lambda>_ w. \<exists>a. ie_sha I a = want \<and> ready_to_install d0 url read1 want w \<and> (\<exists>d. made I disk kind a d \<and> is_file w DiskTmp = Some d))
      (\<lambda>w. is_file w Disk = d0)"
      by (rule tri_post [OF tri_produce [OF blind_ready]]) (use True in \<open>auto simp: ready_to_install_def\<close>)
    then show ?thesis by (rule tri_pre [rotated]) blast
  qed (simp add: tri_def)
  then have "tri (\<lambda>w. \<exists>a. ie_sha I a = want \<and> ready_to_install d0 url read1 want w \<and> is_file w Archive = Some a) (produce I disk kind Archive)
     (\<lambda>_ w. \<exists>a. ie_sha I a = want \<and> ready_to_install d0 url read1 want w \<and> (\<exists>d. made I disk kind a d \<and> is_file w DiskTmp = Some d))
     (\<lambda>w. is_file w Disk = d0)"
    by (rule tri_ex)
  then show ?thesis by (rule tri_pre [rotated]) (auto simp: has_archive_def)
qed

lemma tri_placed:
  "tri (\<lambda>w. \<exists>a. ie_sha I a = want \<and> ready_to_install d0 url read1 want w \<and> (\<exists>d. made I disk kind a d \<and> is_file w DiskTmp = Some d))
     (rename I DiskTmp Disk) (\<lambda>_. verified_image I url read1 disk kind) (\<lambda>w. is_file w Disk = d0)"
proof (rule tri_ex)
  fix a
  show "tri (\<lambda>w. ie_sha I a = want \<and> ready_to_install d0 url read1 want w \<and> (\<exists>d. made I disk kind a d \<and> is_file w DiskTmp = Some d))
     (rename I DiskTmp Disk) (\<lambda>_. verified_image I url read1 disk kind) (\<lambda>w. is_file w Disk = d0)"
  proof (cases "ie_sha I a = want")
    case True
    have "tri (\<lambda>w. ready_to_install d0 url read1 want w \<and> (\<exists>d. made I disk kind a d \<and> is_file w DiskTmp = Some d))
       (rename I DiskTmp Disk) (\<lambda>_. verified_image I url read1 disk kind) (\<lambda>w. is_file w Disk = d0)"
      by (rule tri_post [OF tri_over_disk [OF blind_ready blind_published [of _ url read1 want]]])
        (use True in \<open>auto simp: ready_to_install_def verified_image_def\<close>)
    then show ?thesis by (rule tri_pre [rotated]) blast
  qed (simp add: tri_def)
qed

lemma tri_drop_archive:
  "tri (verified_image I url read1 disk kind) (drop_archive I) (\<lambda>_. verified_image I url read1 disk kind) (verified_image I url read1 disk kind)"
  unfolding drop_archive_def
  by (rule keeps_attempt [OF blind_verified [of "{Archive}"]]) (auto intro: unseen_put [OF blind_verified [of "{Archive}"]])

lemma keeps_disk: "Disk \<notin> fs \<Longrightarrow> unseen fs (\<lambda>w. is_file w Disk = d0)"
  by (auto simp: unseen_def put_file_def)

text \<open>A verified fetch from the disk before it to the archive.\<close>

lemma tri_fetched:
  "tri (\<lambda>w. is_file w Disk = d0) (and_then (fetch_digest I sum_url read1 missing) (\<lambda>want. and_then (fetch_verified I url want) (\<lambda>_. p)))
     (\<lambda>_. verified_image I sum_url read1 disk kind) (\<lambda>w. is_file w Disk = d0 \<or> verified_image I sum_url read1 disk kind w)"
  if "\<And>want. tri (has_archive I want (ready_to_install d0 sum_url read1 want)) p (\<lambda>_. verified_image I sum_url read1 disk kind)
       (\<lambda>w. is_file w Disk = d0 \<or> verified_image I sum_url read1 disk kind w)"
proof (rule tri_then)
  show "tri (\<lambda>w. is_file w Disk = d0) (fetch_digest I sum_url read1 missing) (ready_to_install d0 sum_url read1)
      (\<lambda>w. is_file w Disk = d0 \<or> verified_image I sum_url read1 disk kind w)"
    by (rule tri_post [OF tri_digest]) (auto simp: ready_to_install_def)
  fix want
  show "tri (ready_to_install d0 sum_url read1 want) (and_then (fetch_verified I url want) (\<lambda>_. p))
      (\<lambda>_. verified_image I sum_url read1 disk kind) (\<lambda>w. is_file w Disk = d0 \<or> verified_image I sum_url read1 disk kind w)"
    by (rule tri_then [OF tri_post [OF tri_fetch_verified [OF blind_ready]] that]) (auto simp: ready_to_install_def)
qed

lemma tri_prebaked:
  fixes I :: "'e ienv" and env_url base version release :: string
  defines "url \<equiv> prebaked_url env_url base version release @ ''.sha256''" and "rd \<equiv> read_sidecar (prebaked_name version release)"
  shows "tri (\<lambda>w. is_file w Disk = d0) (prebaked_fetch I env_url base version release disk)
    (\<lambda>_. verified_image I url rd disk Zst) (\<lambda>w. is_file w Disk = d0 \<or> verified_image I url rd disk Zst w)"
proof -
  let ?E = "\<lambda>w. is_file w Disk = d0 \<or> verified_image I url rd disk Zst w"
  have m: "tri (\<lambda>w. is_file w Disk = d0) (attempt I OMkdir (\<lambda>w. w)) (\<lambda>_ w. is_file w Disk = d0) ?E"
    by (rule tri_post [OF keeps_attempt [OF keeps_disk [of "{}"]]]) auto
  have i: "tri (has_archive I want (ready_to_install d0 url rd want)) (install_raw I disk Zst Archive) (\<lambda>_. verified_image I url rd disk Zst) (\<lambda>w. is_file w Disk = d0)" for want
    unfolding install_raw_def
    by (rule tri_then [OF tri_made tri_else [OF tri_placed tri_drop_tmp [OF keeps_disk]]]) simp
  have t: "tri (has_archive I want (ready_to_install d0 url rd want)) (and_then (install_raw I disk Zst Archive) (\<lambda>_. drop_archive I))
      (\<lambda>_. verified_image I url rd disk Zst) ?E" for want
    by (rule tri_then [OF tri_post [OF i] tri_post [OF tri_drop_archive]]) auto
  show ?thesis unfolding prebaked_fetch_def Let_def fetch_sidecar_def url_def [symmetric] rd_def [symmetric]
    by (rule tri_then [OF m tri_fetched [OF t]])
qed

lemma tri_official:
  fixes I :: "'e ienv" and base release :: string
  defines "url \<equiv> official_dir_url base release @ ''/CHECKSUM.SHA256''"
    and "rd \<equiv> read_checksums (official_file_name (or_default release default_release))"
  shows "tri (\<lambda>w. is_file w Disk = d0) (official_fetch I base release disk)
    (\<lambda>_. verified_image I url rd disk Xz) (\<lambda>w. is_file w Disk = d0 \<or> verified_image I url rd disk Xz w)"
proof -
  let ?E = "\<lambda>w. is_file w Disk = d0 \<or> verified_image I url rd disk Xz w"
  have m: "tri (\<lambda>w. is_file w Disk = d0) (attempt I OMkdir (\<lambda>w. w)) (\<lambda>_ w. is_file w Disk = d0) ?E"
    by (rule tri_post [OF keeps_attempt [OF keeps_disk [of "{}"]]]) auto
  have t: "tri (has_archive I want (ready_to_install d0 url rd want))
      (and_then (produce I disk Xz Archive) (\<lambda>_. and_then (rename I DiskTmp Disk) (\<lambda>_. drop_archive I)))
      (\<lambda>_. verified_image I url rd disk Xz) ?E" for want
    by (rule tri_then [OF tri_post [OF tri_made] tri_then [OF tri_post [OF tri_placed] tri_post [OF tri_drop_archive]]]) auto
  show ?thesis unfolding official_fetch_def fetch_checksum_def url_def [symmetric] rd_def [symmetric]
    by (rule tri_then [OF m tri_fetched [OF t]])
qed

lemma tri_case: "tri (\<lambda>w. is_file w Disk = is_file w0 Disk) p Q E \<Longrightarrow>
    case run_state p w0 of (Inl _, w1) \<Rightarrow> E w1 | (Inr x, w1) \<Rightarrow> Q x w1"
  unfolding tri_def by (drule spec [of _ w0], erule mp, rule refl)

text \<open>C32 (safety): a disk is only ever replaced by a verified image, in one step: whatever the servers send, the decompressors write and the
  file system refuses, and whatever earlier attempts left, fetching a prebaked or an official image ends with the disk as
  it was, or holding the decompressed and grown content of an archive whose SHA-256 is the one the release published for
  it; and it reports success only in the second case.\<close>

theorem disk_verified_or_untouched:
  "(case run_state (prebaked_fetch I env_url base version release disk) w of
      (Inr _, w1) \<Rightarrow> verified_image I (prebaked_url env_url base version release @ ''.sha256'') (read_sidecar (prebaked_name version release)) disk Zst w1
    | (Inl _, w1) \<Rightarrow> is_file w1 Disk = is_file w Disk \<or>
        verified_image I (prebaked_url env_url base version release @ ''.sha256'') (read_sidecar (prebaked_name version release)) disk Zst w1) \<and>
   (case run_state (official_fetch I base release disk) w of
      (Inr _, w1) \<Rightarrow> verified_image I (official_dir_url base release @ ''/CHECKSUM.SHA256'')
        (read_checksums (official_file_name (or_default release default_release))) disk Xz w1
    | (Inl _, w1) \<Rightarrow> is_file w1 Disk = is_file w Disk \<or>
        verified_image I (official_dir_url base release @ ''/CHECKSUM.SHA256'')
          (read_checksums (official_file_name (or_default release default_release))) disk Xz w1)"
  using tri_case [OF tri_prebaked [of "is_file w Disk" I env_url base version release disk]]
    tri_case [OF tri_official [of "is_file w Disk" I base release disk]]
  by (auto split: prod.splits sum.splits)

section \<open>Bring-your-own images\<close>

lemma keeps_read: "unseen fs P \<Longrightarrow> keeps_it P (read_file I f)"
  by (rule tri_post [OF tri_read]) simp_all

lemma keeps_write_tmp:
  assumes b: "unseen {DiskTmp} P"
  shows "keeps_it P (write_tmp I kind a)"
  unfolding write_tmp_def
proof (rule tri_if)
  show "keeps_it P (attempt I OCopy (put_file DiskTmp (Some a)))"
    by (rule keeps_attempt [OF b]) (rule unseen_put [OF b], simp_all)
next
  show "keeps_it P (State (\<lambda>w. case ie_unpack I kind a (is_env w) of
     ((t, err), e) \<Rightarrow> ((case err of None \<Rightarrow> Inr () | Some m \<Rightarrow> Inl (ImgErr m)), put_file DiskTmp (Some t) (w\<lparr>is_env := e\<rparr>))))"
    unfolding tri_def
  proof (intro allI impI)
    fix w assume w: "P w"
    obtain x err e where u: "ie_unpack I kind a (is_env w) = ((x, err), e)" by (metis surj_pair)
    have p: "P (put_file DiskTmp (Some x) (w\<lparr>is_env := e\<rparr>))" by (intro unseen_put [OF b] unseen_env [OF b] w) simp
    show "case run_state (State (\<lambda>w. case ie_unpack I kind a (is_env w) of
     ((t, err), e) \<Rightarrow> ((case err of None \<Rightarrow> Inr () | Some m \<Rightarrow> Inl (ImgErr m)), put_file DiskTmp (Some t) (w\<lparr>is_env := e\<rparr>)))) w of
      (Inl _, w1) \<Rightarrow> P w1 | (Inr _, w1) \<Rightarrow> P w1"
      using p u by (cases err) simp_all
  qed
qed

lemma keeps_unpack: "unseen {DiskTmp} P \<Longrightarrow> keeps_it P (unpack_to I kind src)"
  unfolding unpack_to_def create_tmp_def
  by (intro keeps_then keeps_attempt keeps_read keeps_write_tmp tri_if) (auto intro: unseen_put)

lemma keeps_produce:
  assumes b: "unseen {DiskTmp} P"
  shows "keeps_it P (produce I disk kind src)"
proof -
  have g: "keeps_it P (attempt I (OGrow DiskTmp) (edit DiskTmp (grow_size disk)))"
    by (rule keeps_attempt [OF b]) (rule unseen_edit [OF b], simp)
  show ?thesis unfolding produce_def
    by (rule tri_then [OF tri_else [OF keeps_unpack [OF b] tri_drop_tmp [OF b]]],
        rule tri_if [OF tri_else [OF g tri_drop_tmp [OF b]] keeps_okay])
qed

text \<open>An installation leaves the disk as it was when it fails.\<close>

lemma tri_install_any: "tri (\<lambda>w. is_file w Disk = d0) (install_raw I disk kind src) (\<lambda>_ _. True) (\<lambda>w. is_file w Disk = d0)"
proof -
  have b: "unseen {DiskTmp} (\<lambda>w. is_file w Disk = d0)" by (rule keeps_disk) simp
  have r: "tri (\<lambda>w. is_file w Disk = d0) (rename I DiskTmp Disk) (\<lambda>_ _. True) (\<lambda>w. is_file w Disk = d0)"
    unfolding rename_def by (rule tri_attempt) simp_all
  show ?thesis unfolding install_raw_def by (rule tri_then [OF keeps_produce [OF b] tri_else [OF r tri_drop_tmp [OF b]]])
qed

lemma tri_install_known:
  assumes K: "unseen {DiskTmp, Disk} K" and s: "src \<notin> {DiskTmp, Disk}"
  shows "tri (\<lambda>w. is_file w Disk = d0 \<and> K w \<and> is_file w src = Some a) (install_raw I disk kind src)
    (\<lambda>_ w. K w \<and> (\<exists>d. made I disk kind a d \<and> is_file w Disk = Some d)) (\<lambda>w. is_file w Disk = d0)"
proof -
  let ?P = "\<lambda>w. is_file w Disk = d0 \<and> K w"
  have b: "unseen {DiskTmp} ?P" using K by (auto simp: unseen_def put_file_def)
  have e: "keeps_it (\<lambda>w. is_file w Disk = d0) (drop_tmp I x)" for x :: img_err
    by (rule tri_drop_tmp [OF keeps_disk]) simp
  have p: "tri (\<lambda>w. ?P w \<and> is_file w src = Some a) (produce I disk kind src)
      (\<lambda>_ w. ?P w \<and> (\<exists>d. made I disk kind a d \<and> is_file w DiskTmp = Some d)) (\<lambda>w. is_file w Disk = d0)"
    by (rule tri_post [OF tri_produce [OF b]]) (use s in auto)
  have o: "tri (\<lambda>w. ?P w \<and> (\<exists>d. made I disk kind a d \<and> is_file w DiskTmp = Some d)) (rename I DiskTmp Disk)
      (\<lambda>_ w. K w \<and> (\<exists>d. made I disk kind a d \<and> is_file w Disk = Some d)) (\<lambda>w. is_file w Disk = d0)"
    by (rule tri_post [OF tri_over_disk [OF b K]]) simp_all
  have "tri (\<lambda>w. ?P w \<and> is_file w src = Some a) (install_raw I disk kind src)
    (\<lambda>_ w. K w \<and> (\<exists>d. made I disk kind a d \<and> is_file w Disk = Some d)) (\<lambda>w. is_file w Disk = d0)"
    unfolding install_raw_def by (rule tri_then [OF p tri_else [OF o]]) (rule tri_drop_tmp [OF keeps_disk], simp)
  then show ?thesis by (rule tri_pre [rotated]) blast
qed

text \<open>The archive of a bring-your-own URL: with a published digest, or with none.\<close>

definition url_archive :: "'e ienv \<Rightarrow> string \<Rightarrow> 'e istore \<Rightarrow> bool" where
  "url_archive I url w \<longleftrightarrow> (\<exists>a. is_file w Archive = Some a \<and>
     published_digest (is_served w) (url @ ''.sha256'') (read_sidecar (path_base url)) (ie_sha I a))"

lemma tri_byo_download:
  "tri (\<lambda>w. is_file w Disk = d0) (byo_download I url) (\<lambda>tr w. is_file w Disk = d0 \<and> (if tr then url_archive I url w else True))
     (\<lambda>w. is_file w Disk = d0)"
proof -
  let ?rd = "read_sidecar (path_base url)" and ?u = "url @ ''.sha256''"
  let ?P = "\<lambda>w. is_file w Disk = d0"
  have b: "unseen {Archive, Part} ?P" by (rule keeps_disk) simp
  have s: "tri ?P (and_then (fetch_sidecar I ?u (path_base url)) (\<lambda>want. okay (Some want)))
      (\<lambda>x w. case x of None \<Rightarrow> ?P w | Some want \<Rightarrow> ready_to_install d0 ?u ?rd want w) ?P"
    unfolding fetch_sidecar_def
    by (rule tri_then [OF tri_digest], rule tri_okay) (simp add: ready_to_install_def)
  have n: "tri ?P (case e of Unpublished _ \<Rightarrow> okay None | _ \<Rightarrow> fails e)
      (\<lambda>x w. case x of None \<Rightarrow> ?P w | Some want \<Rightarrow> ready_to_install d0 ?u ?rd want w) ?P" for e
    by (cases e) (auto intro: tri_okay tri_fails)
  have v: "tri (ready_to_install d0 ?u ?rd want) (and_then (fetch_verified I url want) (\<lambda>_. okay True))
      (\<lambda>tr w. ?P w \<and> (if tr then url_archive I url w else True)) ?P" for want
  proof (rule tri_then)
    show "tri (ready_to_install d0 ?u ?rd want) (fetch_verified I url want) (\<lambda>_. has_archive I want (ready_to_install d0 ?u ?rd want)) ?P"
      by (rule tri_post [OF tri_fetch_verified [OF blind_ready]]) (auto simp: ready_to_install_def)
    show "tri (has_archive I want (ready_to_install d0 ?u ?rd want)) (okay True) (\<lambda>tr w. ?P w \<and> (if tr then url_archive I url w else True)) ?P"
      by (rule tri_okay) (auto simp: has_archive_def ready_to_install_def url_archive_def)
  qed
  have k: "keeps_it ?P (rename I Part Archive)"
    unfolding rename_def by (rule keeps_attempt [OF b]) (simp add: put_file_def)
  have d: "tri ?P (and_then (download I url) (\<lambda>_. and_then (rename I Part Archive) (\<lambda>_. okay False)))
      (\<lambda>tr w. ?P w \<and> (if tr then url_archive I url w else True)) ?P"
    by (rule tri_then [OF keeps_download [OF b]], simp) (rule tri_then [OF k], rule tri_okay, simp)
  show ?thesis unfolding byo_download_def
  proof (rule tri_then [OF tri_else [OF s n]])
    fix x
    show "tri (\<lambda>w. case x of None \<Rightarrow> ?P w | Some want \<Rightarrow> ready_to_install d0 ?u ?rd want w)
       (case x of Some want \<Rightarrow> and_then (fetch_verified I url want) (\<lambda>_. okay True)
        | None \<Rightarrow> and_then (download I url) (\<lambda>_. and_then (rename I Part Archive) (\<lambda>_. okay False)))
       (\<lambda>tr w. ?P w \<and> (if tr then url_archive I url w else True)) ?P"
      by (cases x) (simp_all add: v d del: if_True)
  qed
qed

text \<open>A file of the user's with the sidecar beside it, or with none.\<close>

definition user_checked :: "'e ienv \<Rightarrow> string \<Rightarrow> 'e istore \<Rightarrow> bool" where
  "user_checked I path1 w \<longleftrightarrow> (\<exists>a body. is_file w UserImage = Some a \<and> is_file w UserSum = Some body \<and>
     parse_sidecar body None path1 = Inr (ie_sha I a))"

lemma tri_byo_check:
  "tri (\<lambda>w. is_file w Disk = d0) (byo_check I path1)
     (\<lambda>tr w. is_file w Disk = d0 \<and> (if tr then user_checked I path1 w else is_file w UserSum = None)) (\<lambda>w. is_file w Disk = d0)"
proof -
  let ?P = "\<lambda>w. is_file w Disk = d0"
  let ?Q = "\<lambda>tr w. ?P w \<and> (if tr then user_checked I path1 w else is_file w UserSum = None)"
  have b: "unseen {} ?P" by (rule keeps_disk) simp
  have b1: "unseen {} (\<lambda>w. ?P w \<and> is_file w UserSum = Some body)" for body by (simp add: unseen_def)
  have c: "tri (\<lambda>w. ?P w \<and> is_file w UserSum = Some body) (case parse_sidecar body None path1 of Inl e \<Rightarrow> fails e
      | Inr want \<Rightarrow> and_then (read_file I UserImage) (\<lambda>t. if ie_sha I t = want then okay True
          else fails (Mismatch (''image: checksum mismatch: want '' @ want @ '', got '' @ ie_sha I t)))) ?Q ?P" for body
  proof (cases "parse_sidecar body None path1")
    case (Inl e)
    show ?thesis by (simp only: Inl sum.case) (rule tri_fails, blast)
  next
    case (Inr want)
    have "tri (\<lambda>w. ?P w \<and> is_file w UserSum = Some body) (and_then (read_file I UserImage) (\<lambda>t. if ie_sha I t = want then okay True
          else fails (Mismatch (''image: checksum mismatch: want '' @ want @ '', got '' @ ie_sha I t)))) ?Q ?P"
      by (rule tri_then [OF tri_post [OF tri_read [OF b1]]], assumption, simp, rule tri_if, rule tri_okay)
        (auto simp: user_checked_def Inr intro: tri_fails)
    then show ?thesis by (simp add: Inr)
  qed
  have s: "tri (\<lambda>w. ?P w \<and> is_file w UserSum = s) (case s of None \<Rightarrow> okay False
      | Some _ \<Rightarrow> and_then (read_file I UserSum) (\<lambda>body. case parse_sidecar body None path1 of Inl e \<Rightarrow> fails e
          | Inr want \<Rightarrow> and_then (read_file I UserImage) (\<lambda>t. if ie_sha I t = want then okay True
              else fails (Mismatch (''image: checksum mismatch: want '' @ want @ '', got '' @ ie_sha I t))))) ?Q ?P" for s
  proof (rule tri_option)
    show "tri (\<lambda>w. ?P w \<and> is_file w UserSum = s) (okay False) ?Q ?P" if "s = None" using that by (auto intro: tri_okay)
    show "tri (\<lambda>w. ?P w \<and> is_file w UserSum = s) (and_then (read_file I UserSum) (\<lambda>body. case parse_sidecar body None path1 of Inl e \<Rightarrow> fails e
          | Inr want \<Rightarrow> and_then (read_file I UserImage) (\<lambda>t. if ie_sha I t = want then okay True
              else fails (Mismatch (''image: checksum mismatch: want '' @ want @ '', got '' @ ie_sha I t))))) ?Q ?P"
      by (rule tri_then [OF tri_pre [OF _ tri_read [OF b]] c]) simp
  qed
  show ?thesis unfolding byo_check_def
    by (rule tri_then [OF keeps_attempt [OF b]], assumption, rule tri_then [OF keeps_peek], rule tri_if, rule tri_fails, assumption,
        rule tri_then [where R = "\<lambda>s w. ?P w \<and> is_file w UserSum = s"], rule tri_peek, simp, rule s)
qed

text \<open>What trust stands for.\<close>

definition trusted_disk :: "'e ienv \<Rightarrow> string \<Rightarrow> int \<Rightarrow> compression \<Rightarrow> 'e istore \<Rightarrow> bool" where
  "trusted_disk I ref0 disk kind w \<longleftrightarrow>
     (if is_url ref0 then verified_image I (ref0 @ ''.sha256'') (read_sidecar (path_base ref0)) disk kind w
      else user_checked I ref0 w \<and> (\<exists>a d. is_file w UserImage = Some a \<and> made I disk kind a d \<and> is_file w Disk = Some d))"

definition byo_verdict :: "'e ienv \<Rightarrow> string \<Rightarrow> int \<Rightarrow> compression \<Rightarrow> bool \<Rightarrow> 'e istore \<Rightarrow> bool" where
  "byo_verdict I ref0 disk kind tr w \<longleftrightarrow>
     (if tr then trusted_disk I ref0 disk kind w else is_url ref0 \<or> is_file w UserSum = None)"

lemma tri_install_url:
  assumes "is_url ref0"
  shows "tri (\<lambda>w. is_file w Disk = d0 \<and> (if tr then url_archive I ref0 w else True)) (install_raw I disk kind Archive)
    (\<lambda>_. byo_verdict I ref0 disk kind tr) (\<lambda>w. is_file w Disk = d0)"
proof (cases tr)
  case False
  then show ?thesis
    by (simp only: if_False simp_thms) (rule tri_post [OF tri_install_any], simp_all add: byo_verdict_def assms)
next
  case True
  let ?K = "\<lambda>a w. published_digest (is_served w) (ref0 @ ''.sha256'') (read_sidecar (path_base ref0)) (ie_sha I a)"
  have "tri (\<lambda>w. is_file w Disk = d0 \<and> ?K a w \<and> is_file w Archive = Some a) (install_raw I disk kind Archive)
    (\<lambda>_. byo_verdict I ref0 disk kind tr) (\<lambda>w. is_file w Disk = d0)" for a
    by (rule tri_post [OF tri_install_known [OF blind_published]])
      (use True assms in \<open>auto simp: byo_verdict_def trusted_disk_def verified_image_def\<close>)
  then have "tri (\<lambda>w. \<exists>a. is_file w Disk = d0 \<and> ?K a w \<and> is_file w Archive = Some a) (install_raw I disk kind Archive)
    (\<lambda>_. byo_verdict I ref0 disk kind tr) (\<lambda>w. is_file w Disk = d0)"
    by (rule tri_ex)
  then show ?thesis by (rule tri_pre [rotated]) (use True in \<open>auto simp: url_archive_def\<close>)
qed

lemma tri_install_path:
  assumes "\<not> is_url ref0"
  shows "tri (\<lambda>w. is_file w Disk = d0 \<and> (if tr then user_checked I ref0 w else is_file w UserSum = None)) (install_raw I disk kind UserImage)
    (\<lambda>_. byo_verdict I ref0 disk kind tr) (\<lambda>w. is_file w Disk = d0)"
proof (cases tr)
  case False
  let ?K = "\<lambda>w :: 'a istore. is_file w UserSum = None"
  let ?a = "\<lambda>w. text_of (is_file w UserImage)"
  have K: "unseen {DiskTmp, Disk} ?K" by (simp add: unseen_def put_file_def)
  have b: "unseen {DiskTmp} (\<lambda>w. is_file w Disk = d0 \<and> ?K w)" by (simp add: unseen_def put_file_def)
  have e: "keeps_it (\<lambda>w. is_file w Disk = d0) (drop_tmp I x)" for x by (rule tri_drop_tmp [OF keeps_disk]) simp
  have r: "tri (\<lambda>w. is_file w Disk = d0 \<and> ?K w) (rename I DiskTmp Disk) (\<lambda>_. ?K) (\<lambda>w. is_file w Disk = d0)"
    unfolding rename_def by (rule tri_attempt) (simp_all add: put_file_def)
  have "tri (\<lambda>w. is_file w Disk = d0 \<and> ?K w) (install_raw I disk kind UserImage) (\<lambda>_. ?K) (\<lambda>w. is_file w Disk = d0)"
    unfolding install_raw_def
    by (rule tri_then [OF tri_post [OF keeps_produce [OF b]] tri_else [OF r tri_drop_tmp [OF keeps_disk]]]) simp_all
  then show ?thesis using False by (simp only: if_False) (rule tri_post, assumption, simp_all add: byo_verdict_def)
next
  case True
  let ?K = "\<lambda>a w. is_file w UserImage = Some a \<and> user_checked I ref0 w"
  have K: "unseen {DiskTmp, Disk} (?K a)" for a by (auto simp: unseen_def put_file_def user_checked_def)
  have "tri (\<lambda>w. is_file w Disk = d0 \<and> ?K a w \<and> is_file w UserImage = Some a) (install_raw I disk kind UserImage)
    (\<lambda>_. byo_verdict I ref0 disk kind tr) (\<lambda>w. is_file w Disk = d0)" for a
    by (rule tri_post [OF tri_install_known [OF K]]) (use True assms in \<open>auto simp: byo_verdict_def trusted_disk_def\<close>)
  then have "tri (\<lambda>w. \<exists>a. is_file w Disk = d0 \<and> ?K a w \<and> is_file w UserImage = Some a) (install_raw I disk kind UserImage)
    (\<lambda>_. byo_verdict I ref0 disk kind tr) (\<lambda>w. is_file w Disk = d0)"
    by (rule tri_ex)
  then show ?thesis by (rule tri_pre [rotated]) (use True in \<open>auto simp: user_checked_def\<close>)
qed

lemma tri_byo:
  assumes "byo_kind ref0 = Some kind"
  shows "tri (\<lambda>w. is_file w Disk = d0) (byo_fetch I ref0 disk) (byo_verdict I ref0 disk kind) (\<lambda>w. is_file w Disk = d0)"
proof -
  let ?P = "\<lambda>w. is_file w Disk = d0"
  have m: "keeps_it ?P (attempt I OMkdir (\<lambda>w. w))" by (rule keeps_attempt [OF keeps_disk [of "{}"]]) simp_all
  have bv: "unseen {Archive} (byo_verdict I ref0 disk kind tr)" if "is_url ref0" for tr
    using blind_verified [of "{Archive}" I "ref0 @ ''.sha256''" "read_sidecar (path_base ref0)" disk kind] that
    by (cases tr) (simp_all add: byo_verdict_def trusted_disk_def unseen_def)
  have f: "tri (byo_verdict I ref0 disk kind tr) (and_then (if is_url ref0 then remove_quietly I Archive else okay ()) (\<lambda>_. okay tr))
      (byo_verdict I ref0 disk kind) ?P" for tr
    by (rule tri_then [where R = "\<lambda>_. byo_verdict I ref0 disk kind tr"], rule tri_if, rule tri_remove_quietly [OF bv], assumption, simp)
      (rule tri_okay, assumption)+
  show ?thesis
  proof (cases "is_url ref0")
    case True
    then show ?thesis unfolding byo_fetch_def assms option.case
      by (simp only: if_True) (rule tri_then [OF m], rule tri_then [OF tri_byo_download],
        rule tri_then [OF tri_install_url [OF True]], use f in \<open>simp only: True if_True\<close>)
  next
    case False
    then show ?thesis unfolding byo_fetch_def assms option.case
      by (simp only: if_False) (rule tri_then [OF m], rule tri_then [OF tri_byo_check],
        rule tri_then [OF tri_install_path [OF False]], use f in \<open>simp only: False if_False\<close>)
  qed
qed

text \<open>C33 (error): a bring-your-own image is called trusted only when it was verified: a failed fetch leaves the disk as it was, and a success
  says trusted only when the disk holds the image made of bytes whose SHA-256 stands in the sidecar, published beside the
  URL or lying beside the file; an image taken from a file is called untrusted only when no sidecar lies beside it.\<close>

theorem byo_trust_is_verified:
  "case run_state (byo_fetch I ref0 disk) w of
     (Inl _, w1) \<Rightarrow> is_file w1 Disk = is_file w Disk
   | (Inr tr, w1) \<Rightarrow> (\<exists>kind. byo_kind ref0 = Some kind \<and> byo_verdict I ref0 disk kind tr w1)"
proof (cases "byo_kind ref0")
  case None
  then show ?thesis by (simp add: byo_fetch_def fails_def State_Monad.return_def)
next
  case (Some kind)
  show ?thesis using tri_case [OF tri_byo [OF Some, of "is_file w Disk" I disk]] Some by (auto split: prod.splits sum.splits)
qed

section \<open>A resumed download of another file\<close>

text \<open>A server that honours ranges: two images, no checksums, and a first connection that breaks after two bytes.\<close>

definition two_images :: "nat ienv" where
  "two_images = \<lparr>ie_sha = (\<lambda>t. t),
     ie_get = (\<lambda>url from1 n.
       (if url = ''http://h/a.raw'' then (if n = 0 then Reply 200 (Some 4) ''AA'' (Some ''reset'') else Reply 200 (Some 4) ''AAAA'' None)
        else if url = ''http://h/b.raw'' then (case from1 of None \<Rightarrow> Reply 200 (Some 4) ''BCDE'' None
                                                | Some k \<Rightarrow> Reply 206 (Some (4 - k)) (drop k ''BCDE'') None)
        else Reply 404 None [] None, if url = ''http://h/a.raw'' then Suc n else n)),
     ie_fault = (\<lambda>_ n. (None, n)), ie_unpack = (\<lambda>_ a n. ((a, None), n))\<rparr>"

definition empty_store :: "nat istore" where
  "empty_store = \<lparr>is_file = (\<lambda>_. None), is_served = [], is_env = 0\<rparr>"

lemma image_refs:
  "byo_kind ''http://h/a.raw'' = Some Raw" "byo_kind ''http://h/b.raw'' = Some Raw"
  "is_url ''http://h/a.raw''" "is_url ''http://h/b.raw''"
  by code_simp+

lemmas fetch_steps = byo_download_def fetch_sidecar_def fetch_digest_def download_def copy_body_def store_body_def rename_def install_raw_def
  produce_def unpack_to_def create_tmp_def write_tmp_def read_file_def remove_quietly_def and_then_def or_else_def okay_def fails_def State_Monad.bind_def
  State_Monad.return_def attempt_def peek_def get_url_def put_file_def edit_def text_of_def write_at_def zeros_def

text \<open>After the broken download.\<close>

definition after_a :: "nat istore" where
  "after_a = empty_store\<lparr>is_file := (\<lambda>_. None)(Part := Some ''AA''), is_env := 1\<rparr>"

lemma first_breaks: "run_state (byo_fetch two_images ''http://h/a.raw'' 0) empty_store = (Inl (ImgErr ''image: downloading: reset''), after_a)"
  unfolding byo_fetch_def image_refs option.case if_True
  by (simp add: image_refs fetch_steps two_images_def empty_store_def after_a_def fun_eq_iff)

lemma second_mixes:
  "fst (run_state (byo_fetch two_images ''http://h/b.raw'' 0) after_a) = Inr False \<and>
   is_file (snd (run_state (byo_fetch two_images ''http://h/b.raw'' 0) after_a)) Disk = Some ''AADE''"
  unfolding byo_fetch_def image_refs option.case if_True
  by (simp add: image_refs fetch_steps two_images_def empty_store_def after_a_def fun_eq_iff)

text \<open>Fact (error): an interrupted download of one image is continued with another's bytes: the partial file is named after the disk
  and the extension only, so when a download without a checksum breaks and \<^verbatim>\<open>jm init\<close> is run again with another URL of the same
  kind, the second image is asked for from where the first stopped, and the disk gets the head of the one and the tail of
  the other, as a success.\<close>

theorem resume_mixes_images:
  "case run_state (byo_fetch two_images ''http://h/a.raw'' 0) empty_store of
     (Inr _, _) \<Rightarrow> False
   | (Inl _, w1) \<Rightarrow>
       (case run_state (byo_fetch two_images ''http://h/b.raw'' 0) w1 of
          (Inl _, _) \<Rightarrow> False
        | (Inr tr, w2) \<Rightarrow> tr = False \<and> is_file w2 Disk = Some ''AADE'')"
  using second_mixes by (simp add: first_breaks split_beta)

end
