(* ===== verification/Trace.thy ===== *)
theory Trace
  imports Prelude "HOL-Library.State_Monad"
begin

text \<open>
  Programs that act on the world and leave a trace: a state monad over an arbitrary environment \<open>'e\<close>, which answers every
  question, and the list of what was done, in order, with how it ended. A protocol is an automaton over the entries;
  \<open>trail D q p T\<close> says that from phase \<open>q\<close> every run of \<open>p\<close> leads to a phase \<open>T\<close> allows for its result.
\<close>

type_synonym ('e, 'l, 'a) tm = "('e \<times> 'l list, 'a) state"

text \<open>A question that changes nothing worth a trace, an entry, and a question whose answer is an entry.\<close>

definition asks :: "('e \<Rightarrow> 'a \<times> 'e) \<Rightarrow> ('e, 'l, 'a) tm" where
  "asks f = State (\<lambda>w. case f (fst w) of (x, e) \<Rightarrow> (x, (e, snd w)))"

definition emit :: "'l \<Rightarrow> ('e, 'l, unit) tm" where
  "emit l = State (\<lambda>w. ((), (fst w, snd w @ [l])))"

definition acts :: "('a \<Rightarrow> 'l) \<Rightarrow> ('e \<Rightarrow> 'a \<times> 'e) \<Rightarrow> ('e, 'l, 'a) tm" where
  "acts g f = do { x \<leftarrow> asks f; emit (g x); State_Monad.return x }"

text \<open>The entries of a run from \<open>e\<close>, and its result.\<close>

definition trace_of :: "('e, 'l, 'a) tm \<Rightarrow> 'e \<Rightarrow> 'l list" where
  "trace_of p e = snd (snd (run_state p (e, [])))"

definition result_of :: "('e, 'l, 'a) tm \<Rightarrow> 'e \<Rightarrow> 'a" where
  "result_of p e = fst (run_state p (e, []))"

definition trail :: "('q \<Rightarrow> 'l \<Rightarrow> 'q) \<Rightarrow> 'q \<Rightarrow> ('e, 'l, 'a) tm \<Rightarrow> ('a \<Rightarrow> 'q \<Rightarrow> bool) \<Rightarrow> bool" where
  "trail D q p T \<longleftrightarrow>
     (\<forall>w. \<exists>es. snd (snd (run_state p w)) = snd w @ es \<and> T (fst (run_state p w)) (foldl D q es))"

lemma trailD: "trail D q p T \<Longrightarrow> T (result_of p e) (foldl D q (trace_of p e))"
  unfolding trail_def result_of_def trace_of_def by (metis append_Nil snd_conv)

lemma trail_silent:
  "(\<And>w. snd (snd (run_state p w)) = snd w) \<Longrightarrow> (\<And>w. T (fst (run_state p w)) q) \<Longrightarrow> trail D q p T"
  unfolding trail_def by (intro allI exI [of _ "[]"]) simp

lemma trail_ret: "T x q \<Longrightarrow> trail D q (State_Monad.return x) T"
  by (rule trail_silent) (simp_all add: State_Monad.return_def)

lemma trail_bind:
  assumes "trail D q p S" and "\<And>x q'. S x q' \<Longrightarrow> trail D q' (f x) T"
  shows "trail D q (State_Monad.bind p f) T"
  unfolding trail_def
proof
  fix w
  let ?u = "run_state p w"
  obtain es where es: "snd (snd ?u) = snd w @ es" "S (fst ?u) (foldl D q es)"
    using assms(1) unfolding trail_def by blast
  obtain fs where "snd (snd (run_state (f (fst ?u)) (snd ?u))) = snd (snd ?u) @ fs"
    "T (fst (run_state (f (fst ?u)) (snd ?u))) (foldl D (foldl D q es) fs)"
    using assms(2) [OF es(2)] unfolding trail_def by blast
  then show "\<exists>es. snd (snd (run_state (State_Monad.bind p f) w)) = snd w @ es \<and>
      T (fst (run_state (State_Monad.bind p f) w)) (foldl D q es)"
    using es(1) by (intro exI [of _ "es @ fs"]) (simp add: State_Monad.bind_def split_beta)
qed

lemma trail_weaken: "trail D q p S \<Longrightarrow> (\<And>x q'. S x q' \<Longrightarrow> T x q') \<Longrightarrow> trail D q p T"
  unfolding trail_def by blast

lemma trail_then: "trail D q p (\<lambda>x q'. trail D q' (f x) T) \<Longrightarrow> trail D q (State_Monad.bind p f) T"
  by (erule trail_bind)

lemma trail_if: "(b \<Longrightarrow> trail D q p T) \<Longrightarrow> (\<not> b \<Longrightarrow> trail D q p' T) \<Longrightarrow> trail D q (if b then p else p') T"
  by simp

lemma trail_option:
  "(x = None \<Longrightarrow> trail D q p T) \<Longrightarrow> (\<And>y. x = Some y \<Longrightarrow> trail D q (f y) T) \<Longrightarrow>
   trail D q (case x of None \<Rightarrow> p | Some y \<Rightarrow> f y) T"
  by (cases x) auto

lemma trail_sum:
  "(\<And>e. x = Inl e \<Longrightarrow> trail D q (g e) T) \<Longrightarrow> (\<And>y. x = Inr y \<Longrightarrow> trail D q (f y) T) \<Longrightarrow>
   trail D q (case x of Inl e \<Rightarrow> g e | Inr y \<Rightarrow> f y) T"
  by (cases x) auto

lemma trail_prod: "(\<And>a b. x = (a, b) \<Longrightarrow> trail D q (f a b) T) \<Longrightarrow> trail D q (case x of (a, b) \<Rightarrow> f a b) T"
  by (cases x) auto

lemma trail_asks: "(\<And>x. T x q) \<Longrightarrow> trail D q (asks f) T"
  by (rule trail_silent) (auto simp: asks_def split: prod.splits)

lemma trail_emit: "T () (D q l) \<Longrightarrow> trail D q (emit l) T"
  unfolding trail_def emit_def by (intro allI exI [of _ "[l]"]) simp

lemma trail_acts: "(\<And>x. T x (D q (g x))) \<Longrightarrow> trail D q (acts g f) T"
  unfolding acts_def by (intro trail_then trail_asks trail_emit trail_ret) simp

lemmas trail_rules = trail_then trail_ret trail_if trail_option trail_sum trail_prod trail_asks trail_emit trail_acts

section \<open>Programs that only gain\<close>

text \<open>A program whose phases only grow in an order, with what its result then says of the last one.\<close>

definition goes :: "('q \<Rightarrow> 'q \<Rightarrow> bool) \<Rightarrow> ('q \<Rightarrow> 'l \<Rightarrow> 'q) \<Rightarrow> 'q \<Rightarrow> ('e, 'l, 'a) tm \<Rightarrow> ('a \<Rightarrow> 'q \<Rightarrow> bool) \<Rightarrow> bool" where
  "goes le D q p Q \<longleftrightarrow> trail D q p (\<lambda>x q1. le q q1 \<and> Q x q1)"

text \<open>The contract of such an order, and the rules every client of it proves its programs with.\<close>

locale growing =
  fixes le :: "'q \<Rightarrow> 'q \<Rightarrow> bool"
    and D :: "'q \<Rightarrow> 'l \<Rightarrow> 'q"
  assumes le_refl: "le q q"
    and le_trans: "le q r \<Longrightarrow> le r s \<Longrightarrow> le q s"
begin

lemma goes_ret: "Q x q \<Longrightarrow> goes le D q (State_Monad.return x) Q"
  by (simp add: goes_def trail_ret le_refl)

lemma goes_bind:
  "goes le D q p R \<Longrightarrow> (\<And>x r. le q r \<Longrightarrow> R x r \<Longrightarrow> goes le D r (f x) Q) \<Longrightarrow> goes le D q (State_Monad.bind p f) Q"
  unfolding goes_def by (erule trail_bind) (blast intro: trail_weaken le_trans)

lemma goes_then:
  "goes le D q p (\<lambda>_ _. True) \<Longrightarrow> (\<And>x r. le q r \<Longrightarrow> goes le D r (f x) Q) \<Longrightarrow> goes le D q (State_Monad.bind p f) Q"
  by (erule goes_bind) simp

lemma goes_asks: "(\<And>x. Q x q) \<Longrightarrow> goes le D q (asks f) Q"
  by (simp add: goes_def trail_asks le_refl)

lemma goes_acts: "(\<And>x. le q (D q (g x)) \<and> Q x (D q (g x))) \<Longrightarrow> goes le D q (acts g f) Q"
  unfolding goes_def by (rule trail_acts)

lemma goes_emit: "le q (D q l) \<Longrightarrow> Q () (D q l) \<Longrightarrow> goes le D q (emit l) Q"
  by (simp add: goes_def trail_emit)

end

lemma goes_if: "(c \<Longrightarrow> goes le D q p Q) \<Longrightarrow> (\<not> c \<Longrightarrow> goes le D q r Q) \<Longrightarrow> goes le D q (if c then p else r) Q"
  by simp

lemma goes_option:
  "(x = None \<Longrightarrow> goes le D q p Q) \<Longrightarrow> (\<And>y. x = Some y \<Longrightarrow> goes le D q (f y) Q) \<Longrightarrow>
   goes le D q (case x of None \<Rightarrow> p | Some y \<Rightarrow> f y) Q"
  by (cases x) auto

lemma goes_sum:
  "(\<And>y. x = Inl y \<Longrightarrow> goes le D q (f y) Q) \<Longrightarrow> (\<And>y. x = Inr y \<Longrightarrow> goes le D q (g y) Q) \<Longrightarrow>
   goes le D q (case x of Inl y \<Rightarrow> f y | Inr y \<Rightarrow> g y) Q"
  by (cases x) auto

lemma goesD: "goes le D q p Q \<Longrightarrow> le q (foldl D q (trace_of p e)) \<and> Q (result_of p e) (foldl D q (trace_of p e))"
  unfolding goes_def by (drule trailD) simp

end
