(* ===== verification/Cli_Set.thy ===== *)
theory Cli_Set
  imports Trace Cli_Common Machine Forwarder_Desired
begin

text \<open>
  Changing a machine's record (\<^verbatim>\<open>internal/cli/set.go\<close>, \<^verbatim>\<open>share.go\<close>, \<^verbatim>\<open>idle.go\<close>, \<^verbatim>\<open>arc.go\<close>): the flags and their readers, the
  share set they give, which changes which state of the machine allows, and \<^verbatim>\<open>jm set\<close> itself as a program whose trace
  holds every record saved and every growth of the disk, the hypervisor's view of it and the guest's. What is printed is
  left out.
\<close>

section \<open>Reading the flags\<close>

definition min_cpus :: int where "min_cpus = 1"
definition max_cpus :: int where "max_cpus = 256"
definition min_memory_mib :: int where "min_memory_mib = 256"
definition max_memory_mib :: int where "max_memory_mib = 2 ^ 20"
definition min_disk_gib :: int where "min_disk_gib = 1"
definition max_disk_gib :: int where "max_disk_gib = 2 ^ 14"

text \<open>\<^verbatim>\<open>ParseMemoryMiB\<close>: the number ends at the last digit, the rest is the unit.\<close>

definition number_part :: "string \<Rightarrow> string" where
  "number_part s = rev (dropWhile (\<lambda>c. \<not> is_digit c) (rev s))"

definition unit_part :: "string \<Rightarrow> string" where
  "unit_part s = trim_space (rev (takeWhile (\<lambda>c. \<not> is_digit c) (rev s)))"

definition unit_mib :: "string \<Rightarrow> int option" where
  "unit_mib u =
     (if u \<in> {[], ''m'', ''mib'', ''mb''} then Some 1 else if u \<in> {''g'', ''gib'', ''gb''} then Some 1024 else None)"

definition parse_memory :: "string \<Rightarrow> string + int" where
  "parse_memory s0 =
     (let s = trim_space (to_lower s0) in
      if s = [] then Inl ''empty memory size''
      else case atoi (number_part s) of
             None \<Rightarrow> Inl (''invalid memory size '' @ quote s)
           | Some n \<Rightarrow>
               (if n < 0 then Inl (''invalid memory size '' @ quote s)
                else case unit_mib (unit_part s) of
                       None \<Rightarrow> Inl (''invalid memory unit '' @ quote (unit_part s) @ '' in '' @ quote s @ '' (use MiB or GiB)'')
                     | Some mult \<Rightarrow> (if n > max_memory_mib then Inl (''memory size '' @ quote s @ '' is too large'') else Inr (n * mult))))"

definition min_idle_suspend_min :: int where "min_idle_suspend_min = 5"
definition max_idle_suspend_min :: int where "max_idle_suspend_min = 10080"

definition idle_bad :: string where
  "idle_bad = ''--idle-suspend must be 0 (never) or between '' @ itoa min_idle_suspend_min @ ''m and '' @ itoa (max_idle_suspend_min div 60) @ ''h''"

definition idle_unit :: "string \<Rightarrow> string \<times> int" where
  "idle_unit s =
     (if has_suffix s ''min'' then (trim_suffix s ''min'', 1)
      else if has_suffix s ''m'' then (trim_suffix s ''m'', 1)
      else if has_suffix s ''h'' then (trim_suffix s ''h'', 60)
      else (s, 1))"

definition parse_idle_suspend :: "string \<Rightarrow> string + int" where
  "parse_idle_suspend s0 =
     (let s = to_lower (trim_space s0) in
      if s = ''off'' \<or> s = ''never'' then Inr 0
      else case idle_unit s of (num, mult) \<Rightarrow>
        if num = [] \<or> \<not> list_all is_digit num then Inl idle_bad
        else case atoi num of
               None \<Rightarrow> Inl idle_bad
             | Some n \<Rightarrow>
                 (if n > max_idle_suspend_min then Inl idle_bad
                  else if n * mult \<noteq> 0 \<and> (n * mult < min_idle_suspend_min \<or> n * mult > max_idle_suspend_min) then Inl idle_bad
                  else Inr (n * mult)))"

definition validate_arc :: "int \<Rightarrow> int \<Rightarrow> string option" where
  "validate_arc arc memory =
     (if arc = 0 \<or> (arc \<ge> min_arc_mib \<and> arc < memory) then None
      else Some (''--arc must be 0 (the guest's default) or between '' @ itoa min_arc_mib @ '' MiB and '' @ itoa (memory - 1) @ '' MiB (below the memory)''))"

section \<open>The share flags\<close>

text \<open>What the flags need of the host: \<open>fh_home\<close> is \<^verbatim>\<open>os.UserHomeDir\<close>, \<open>fh_join\<close> is \<^verbatim>\<open>filepath.Join\<close>, \<open>fh_parseIP\<close> as in
  \<open>parse_publish_addr\<close>.\<close>

record flag_host =
  fh_host :: host
  fh_home :: "string + string"
  fh_join :: "string \<Rightarrow> string \<Rightarrow> string"
  fh_parseIP :: "string \<Rightarrow> string option"

text \<open>An error of a flag; the texts of the share table's own errors (package \<^verbatim>\<open>machine\<close>) are left out.\<close>

datatype flag_err = FlagErr string | ShareErr

definition expand_tilde :: "flag_host \<Rightarrow> string \<Rightarrow> string + string" where
  "expand_tilde F p =
     (if p \<noteq> ''~'' \<and> \<not> has_prefix p ''~/'' then Inr p
      else case fh_home F of
             Inl t \<Rightarrow> Inl (''cannot expand '' @ quote p @ '': '' @ t)
           | Inr home \<Rightarrow> (if p = ''~'' then Inr home else Inr (fh_join F home (drop 2 p))))"

definition mount_text :: "string \<Rightarrow> flag_err" where
  "mount_text v = FlagErr (''--mount '' @ quote v @
     '': a share is named by its host path alone (it appears in the guest at the same path); the only suffix is :ro'')"

text \<open>The path a \<^verbatim>\<open>--mount\<close> names and whether read-only.\<close>

definition mount_mode :: "string \<Rightarrow> (string \<times> bool) option" where
  "mount_mode v =
     (if has_suffix v '':ro'' then Some (trim_suffix v '':ro'', True)
      else if has_suffix v '':rw'' then Some (trim_suffix v '':rw'', False)
      else if contains v '':'' then None else Some (v, False))"

definition parse_mount :: "flag_host \<Rightarrow> string \<Rightarrow> flag_err + share" where
  "parse_mount F v0 =
     (let v = trim_space v0 in
      case mount_mode v of
        None \<Rightarrow> Inl (mount_text v)
      | Some (w, ro) \<Rightarrow>
          (case expand_tilde F w of
             Inl t \<Rightarrow> Inl (FlagErr t)
           | Inr p \<Rightarrow> (case new_share (fh_host F) p ro of None \<Rightarrow> Inl ShareErr | Some s \<Rightarrow> Inr s)))"

fun parse_mounts :: "flag_host \<Rightarrow> string list \<Rightarrow> flag_err + share list" where
  "parse_mounts F [] = Inr []"
| "parse_mounts F (v # vs) =
     (case parse_mount F v of
        Inl e \<Rightarrow> Inl e
      | Inr s \<Rightarrow> (case parse_mounts F vs of Inl e \<Rightarrow> Inl e | Inr ss \<Rightarrow> Inr (s # ss)))"

fun unmount_all :: "flag_host \<Rightarrow> share list \<Rightarrow> string list \<Rightarrow> flag_err + share list" where
  "unmount_all F out [] = Inr out"
| "unmount_all F out (v # vs) =
     (case expand_tilde F (trim_suffix (trim_suffix v '':ro'') '':rw'') of
        Inl t \<Rightarrow> Inl (FlagErr t)
      | Inr p \<Rightarrow>
          (case remove_share (fh_host F) out p of
             None \<Rightarrow> Inl ShareErr
           | Some (next1, found) \<Rightarrow>
               (if \<not> found then Inl (FlagErr (''--unmount '' @ v @ '': the machine does not share that path (jm inspect lists the shares)''))
                else unmount_all F next1 vs)))"

fun add_all :: "flag_host \<Rightarrow> share list \<Rightarrow> share list \<Rightarrow> flag_err + share list" where
  "add_all F out [] = Inr out"
| "add_all F out (s # ss) =
     (case add_share (fh_host F) out s of None \<Rightarrow> Inl ShareErr | Some out1 \<Rightarrow> add_all F out1 ss)"

definition apply_mounts :: "flag_host \<Rightarrow> share list \<Rightarrow> string list \<Rightarrow> string list \<Rightarrow> flag_err + share list" where
  "apply_mounts F l adds removes =
     (case unmount_all F l removes of
        Inl e \<Rightarrow> Inl e
      | Inr out \<Rightarrow>
          (case parse_mounts F adds of
             Inl e \<Rightarrow> Inl e
           | Inr ss \<Rightarrow>
               (case add_all F out ss of
                  Inl e \<Rightarrow> Inl e
                | Inr out1 \<Rightarrow> (case normalise_shares (fh_host F) out1 of None \<Rightarrow> Inl ShareErr | Some r \<Rightarrow> Inr r))))"

section \<open>The changes\<close>

text \<open>A flag that was not given is \<open>None\<close>: the code's \<^verbatim>\<open>xSet\<close> with its value.\<close>

record set_opts =
  so_cpus :: "int option"
  so_memory :: "string option"
  so_disk :: "int option"
  so_sshPort :: "int option"
  so_publishAddr :: "string option"
  so_arc :: "string option"
  so_idleSuspend :: "string option"
  so_mount :: "string list"
  so_unmount :: "string list"
  so_noMounts :: bool

record changes =
  ch_cpus :: "int option"
  ch_memoryMiB :: "int option"
  ch_diskGiB :: "int option"
  ch_sshPort :: "int option"
  ch_publishAddr :: "string option"
  ch_shares :: "share list option"
  ch_arcMiB :: "int option"
  ch_idleSuspendMin :: "int option"

definition shares_set :: "set_opts \<Rightarrow> bool" where
  "shares_set o1 \<longleftrightarrow> so_mount o1 \<noteq> [] \<or> so_unmount o1 \<noteq> [] \<or> so_noMounts o1"

definition any_change :: "set_opts \<Rightarrow> bool" where
  "any_change o1 \<longleftrightarrow> so_cpus o1 \<noteq> None \<or> so_memory o1 \<noteq> None \<or> so_disk o1 \<noteq> None \<or> so_sshPort o1 \<noteq> None \<or> shares_set o1 \<or>
     so_publishAddr o1 \<noteq> None \<or> so_arc o1 \<noteq> None \<or> so_idleSuspend o1 \<noteq> None"

definition needs_stopped :: "changes \<Rightarrow> bool" where
  "needs_stopped c \<longleftrightarrow> ch_cpus c \<noteq> None \<or> ch_memoryMiB c \<noteq> None \<or> ch_sshPort c \<noteq> None \<or> ch_shares c \<noteq> None"

text \<open>A flag that was given is read by \<open>f\<close>.\<close>

definition flag :: "'a option \<Rightarrow> ('a \<Rightarrow> flag_err + 'b) \<Rightarrow> ('b option \<Rightarrow> flag_err + 'c) \<Rightarrow> flag_err + 'c" where
  "flag x f k = (case x of None \<Rightarrow> k None | Some v \<Rightarrow> (case f v of Inl e \<Rightarrow> Inl e | Inr y \<Rightarrow> k (Some y)))"

definition read_idle :: "string \<Rightarrow> flag_err + int" where
  "read_idle s = (case parse_idle_suspend s of Inl t \<Rightarrow> Inl (FlagErr t) | Inr n \<Rightarrow> Inr n)"

definition read_publish :: "flag_host \<Rightarrow> string \<Rightarrow> flag_err + string" where
  "read_publish F s = (case parse_publish_addr (fh_parseIP F) s of Inl t \<Rightarrow> Inl (FlagErr (''--publish-addr '' @ t)) | Inr a \<Rightarrow> Inr a)"

definition read_shares :: "flag_host \<Rightarrow> set_opts \<Rightarrow> share list \<Rightarrow> flag_err + share list option" where
  "read_shares F o1 l =
     (if \<not> shares_set o1 then Inr None
      else if so_noMounts o1
      then (if so_mount o1 \<noteq> [] \<or> so_unmount o1 \<noteq> [] then Inl (FlagErr ''--no-mounts cannot be combined with --mount or --unmount'')
            else Inr (Some []))
      else case apply_mounts F l (so_mount o1) (so_unmount o1) of Inl e \<Rightarrow> Inl e | Inr ss \<Rightarrow> Inr (Some ss))"

definition read_cpus :: "int \<Rightarrow> flag_err + int" where
  "read_cpus n =
     (if n < min_cpus \<or> n > max_cpus
      then Inl (FlagErr (''--cpus must be between '' @ itoa min_cpus @ '' and '' @ itoa max_cpus)) else Inr n)"

definition read_memory :: "string \<Rightarrow> flag_err + int" where
  "read_memory s =
     (case parse_memory s of
        Inl t \<Rightarrow> Inl (FlagErr (''--memory: '' @ t))
      | Inr mib \<Rightarrow>
          (if mib < min_memory_mib \<or> mib > max_memory_mib
           then Inl (FlagErr (''--memory must be between '' @ itoa min_memory_mib @ '' MiB and '' @ itoa max_memory_mib @ '' MiB''))
           else Inr mib))"

definition read_arc :: "int \<Rightarrow> string \<Rightarrow> flag_err + int" where
  "read_arc memory s =
     (case parse_memory s of
        Inl t \<Rightarrow> Inl (FlagErr (''--arc: '' @ t))
      | Inr mib \<Rightarrow> (case validate_arc mib memory of Some t \<Rightarrow> Inl (FlagErr t) | None \<Rightarrow> Inr mib))"

definition read_disk :: "machine \<Rightarrow> int \<Rightarrow> flag_err + int" where
  "read_disk m n =
     (if n < min_disk_gib \<or> n > max_disk_gib
      then Inl (FlagErr (''--disk must be between '' @ itoa min_disk_gib @ '' and '' @ itoa max_disk_gib @ '' GiB''))
      else if n < mc_diskGiB m
      then Inl (FlagErr (''--disk can only grow: '' @ mc_name m @ '' has '' @ itoa (mc_diskGiB m) @ '' GiB, '' @ itoa n @ '' GiB requested''))
      else Inr n)"

definition read_port :: "int \<Rightarrow> flag_err + int" where
  "read_port n = (if n < 1 \<or> n > 65535 then Inl (FlagErr ''--ssh-port must be between 1 and 65535'') else Inr n)"

text \<open>A smaller memory with the ARC cap left as it is.\<close>

definition room_above_arc :: "set_opts \<Rightarrow> machine \<Rightarrow> int \<Rightarrow> bool" where
  "room_above_arc o1 m memory \<longleftrightarrow>
     \<not> (so_arc o1 = None \<and> so_memory o1 \<noteq> None \<and> mc_arcMiB m \<noteq> 0 \<and> validate_arc (mc_arcMiB m) memory \<noteq> None)"

definition validate :: "flag_host \<Rightarrow> set_opts \<Rightarrow> machine \<Rightarrow> flag_err + changes" where
  "validate F o1 m =
     (if \<not> any_change o1
      then Inl (FlagErr ''nothing to set (use --cpus, --memory, --disk, --ssh-port, --publish-addr, --arc, --idle-suspend, --mount, --unmount or --no-mounts)'')
      else
        flag (so_idleSuspend o1) read_idle (\<lambda>idle.
        flag (so_publishAddr o1) (read_publish F) (\<lambda>pub.
        case read_shares F o1 (mc_shares m) of
          Inl e \<Rightarrow> Inl e
        | Inr shares \<Rightarrow>
        flag (so_cpus o1) read_cpus (\<lambda>cpus.
        flag (so_memory o1) read_memory (\<lambda>mem.
        let memory = (case mem of None \<Rightarrow> mc_memoryMiB m | Some x \<Rightarrow> x) in
        flag (so_arc o1) (read_arc memory) (\<lambda>arc.
        if \<not> room_above_arc o1 m memory
        then Inl (FlagErr (''--memory '' @ itoa memory @ '' MiB leaves no room above the ZFS ARC cap of '' @ itoa (mc_arcMiB m) @
               '' MiB; lower it in the same call with --arc''))
        else
        flag (so_disk o1) (read_disk m) (\<lambda>disk.
        flag (so_sshPort o1) read_port (\<lambda>port.
        Inr \<lparr>ch_cpus = cpus, ch_memoryMiB = mem, ch_diskGiB = disk, ch_sshPort = port, ch_publishAddr = pub, ch_shares = shares,
             ch_arcMiB = arc, ch_idleSuspendMin = idle\<rparr>))))))))"

section \<open>The command\<close>

text \<open>What a run did, in order, with how it ended; and what it learned: the record read under the lock, and the machine's state with
  whether a journal is there (asked only of a running machine).\<close>

datatype sact = SLock | SLoaded machine | SState bstate bool | SForget
  | SGrow int "string option" | SSave machine "string option"
  | SResize machine "string option" | SGuest machine "string option"
  | SSleeper machine | SArc machine "string option" | SUnlock

text \<open>\<open>sn_backend\<close>: the backend of a machine, with whether it can grow a live disk and its name. \<open>sn_sleeper\<close> is the start of the
  sleeper, whose failure is only a warning.\<close>

record 'e set_env =
  sn_flags :: flag_host
  sn_load :: "'e \<Rightarrow> (cerr + machine) \<times> 'e"
  sn_lock :: "'e \<Rightarrow> cerr option \<times> 'e"
  sn_reload :: "string \<Rightarrow> 'e \<Rightarrow> (cerr + machine) \<times> 'e"
  sn_state :: "machine \<Rightarrow> 'e \<Rightarrow> (cerr + bstate) \<times> 'e"
  sn_journal :: "'e \<Rightarrow> bool \<times> 'e"
  sn_backend :: "machine \<Rightarrow> cerr + bool \<times> string"
  sn_grow :: "int \<Rightarrow> 'e \<Rightarrow> string option \<times> 'e"
  sn_save :: "machine \<Rightarrow> 'e \<Rightarrow> string option \<times> 'e"
  sn_resize :: "machine \<Rightarrow> 'e \<Rightarrow> string option \<times> 'e"
  sn_guest :: "machine \<Rightarrow> 'e \<Rightarrow> string option \<times> 'e"
  sn_sleeper :: "machine \<Rightarrow> 'e \<Rightarrow> 'e"
  sn_arc :: "machine \<Rightarrow> 'e \<Rightarrow> string option \<times> 'e"

datatype set_err = UsageErr flag_err | CmdErr cerr

definition state_name :: "bstate \<Rightarrow> string" where
  "state_name b = (case b of Running \<Rightarrow> ''running'' | Stopped \<Rightarrow> ''stopped'' | Suspended \<Rightarrow> ''suspended'' | Broken \<Rightarrow> ''broken'')"

definition stop_hint :: "machine \<Rightarrow> string" where
  "stop_hint m = ''stop the machine first: jm stop'' @ name_hint (mc_name m)"

definition hw_text :: string where
  "hw_text = ''; cpus, memory, the ssh port and the shared directories change only on a stopped machine''"

text \<open>The refusals of a state; \<open>interrupted\<close>: a journal beside a running machine.\<close>

definition set_gate :: "machine \<Rightarrow> changes \<Rightarrow> bstate \<Rightarrow> bool \<Rightarrow> cerr option" where
  "set_gate m c st interrupted =
     (if interrupted \<and> (needs_stopped c \<or> ch_diskGiB c \<noteq> None \<or> ch_arcMiB c \<noteq> None)
      then Some (with_hint (plain_err (''a suspend or wake of '' @ mc_name m @ '' is in progress or was interrupted''))
             (CHR 0x27 # ''jm start'' @ name_hint (mc_name m) @ CHR 0x27 # '' finishes it''))
      else if st = Suspended \<and> needs_stopped c
      then Some (with_hint (plain_err (mc_name m @ '' is suspended'' @ hw_text))
             (CHR 0x27 # ''jm stop'' @ name_hint (mc_name m) @ CHR 0x27 # '' restores it and shuts it down''))
      else if st \<noteq> Stopped \<and> needs_stopped c
      then Some (with_hint (plain_err (mc_name m @ '' is '' @ state_name st @ hw_text)) (stop_hint m))
      else None)"

text \<open>The record's fields that change without asking anything.\<close>

definition put :: "('a \<Rightarrow> machine \<Rightarrow> machine) \<Rightarrow> 'a option \<Rightarrow> machine \<Rightarrow> machine" where
  "put f x m = (case x of None \<Rightarrow> m | Some v \<Rightarrow> f v m)"

definition set_size :: "changes \<Rightarrow> machine \<Rightarrow> machine" where
  "set_size c m = put (\<lambda>v m. m\<lparr>mc_memoryMiB := v\<rparr>) (ch_memoryMiB c) (put (\<lambda>v m. m\<lparr>mc_cpus := v\<rparr>) (ch_cpus c) m)"

definition set_soft :: "changes \<Rightarrow> machine \<Rightarrow> machine" where
  "set_soft c m =
     put (\<lambda>v m. m\<lparr>mc_idleSuspendMin := v\<rparr>) (ch_idleSuspendMin c)
       (put (\<lambda>v m. m\<lparr>mc_arcMiB := v\<rparr>) (ch_arcMiB c) (put (\<lambda>v m. m\<lparr>mc_publishAddr := v\<rparr>) (ch_publishAddr c) m))"

definition set_port :: "changes \<Rightarrow> machine \<Rightarrow> ('e, sact, machine) tm" where
  "set_port c m =
     (case ch_sshPort c of
        Some p \<Rightarrow> (if p \<noteq> mc_sshPort m then do { emit SForget; State_Monad.return (m\<lparr>mc_sshPort := p\<rparr>) } else State_Monad.return m)
      | None \<Rightarrow> State_Monad.return m)"

text \<open>A new share set needs the backend (to warn what it cannot share).\<close>

definition set_shares :: "'e set_env \<Rightarrow> changes \<Rightarrow> machine \<Rightarrow> cerr + machine" where
  "set_shares E c m =
     (case ch_shares c of
        Some ss \<Rightarrow> (if ss \<noteq> mc_shares m then (case sn_backend E m of Inl e \<Rightarrow> Inl e | Inr _ \<Rightarrow> Inr (m\<lparr>mc_shares := ss\<rparr>)) else Inr m)
      | None \<Rightarrow> Inr m)"

text \<open>Whether the disk may grow in this state.\<close>

definition disk_gate :: "'e set_env \<Rightarrow> machine \<Rightarrow> bstate \<Rightarrow> cerr option" where
  "disk_gate E m st =
     (case st of
        Stopped \<Rightarrow> None
      | Suspended \<Rightarrow> Some (with_hint (plain_err (mc_name m @ '' is suspended; its disk grows only while it runs or is stopped''))
          (''run '' @ CHR 0x27 # ''jm start'' @ name_hint (mc_name m) @ CHR 0x27 # '' first (it grows live), or '' @ CHR 0x27 # ''jm stop'' @ name_hint (mc_name m) @ [CHR 0x27]))
      | Running \<Rightarrow>
          (case sn_backend E m of
             Inl e \<Rightarrow> Some e
           | Inr (resizes, b) \<Rightarrow>
               (if resizes then None
                else Some (with_hint (plain_err (mc_name m @ '' is '' @ state_name st @ '' and backend '' @ quote b @ '' cannot grow a live disk'')) (stop_hint m))))
      | Broken \<Rightarrow> Some (with_hint (plain_err (mc_name m @ '' is '' @ state_name st @ ''; the disk grows only on a stopped or running machine'')) (stop_hint m)))"

definition opt_plain :: "string option \<Rightarrow> cerr option" where
  "opt_plain = map_option plain_err"

text \<open>The guest's half of a live growth.\<close>

definition grow_live :: "'e set_env \<Rightarrow> machine \<Rightarrow> ('e, sact, cerr + machine) tm" where
  "grow_live E m = do {
     r \<leftarrow> acts (SResize m) (sn_resize E m);
     case r of
       Some t \<Rightarrow> State_Monad.return (Inl (plain_err (''disk.raw grown but the hypervisor did not pick it up (retried on the next start): '' @ t)))
     | None \<Rightarrow> do {
         g \<leftarrow> acts (SGuest m) (sn_guest E m);
         case g of
           Some t \<Rightarrow> State_Monad.return (Inl (plain_err (''disk.raw grown but the guest did not pick it up (retried on the next start): '' @ t)))
         | None \<Rightarrow> State_Monad.return (Inr (set_pending_grow False m)) } }"

text \<open>The growth: the file, then the record with the growth pending, then the hypervisor and the guest.\<close>

definition set_disk :: "'e set_env \<Rightarrow> changes \<Rightarrow> bstate \<Rightarrow> machine \<Rightarrow> ('e, sact, cerr + machine) tm" where
  "set_disk E c st m =
     (case ch_diskGiB c of
        None \<Rightarrow> State_Monad.return (Inr m)
      | Some d \<Rightarrow>
          (if d = mc_diskGiB m then State_Monad.return (Inr m)
           else case disk_gate E m st of
                  Some e \<Rightarrow> State_Monad.return (Inl e)
                | None \<Rightarrow> do {
                    g \<leftarrow> acts (SGrow d) (sn_grow E d);
                    case g of
                      Some t \<Rightarrow> State_Monad.return (Inl (plain_err t))
                    | None \<Rightarrow> do {
                        let m1 = set_pending_grow True (m\<lparr>mc_diskGiB := d\<rparr>);
                        s \<leftarrow> acts (SSave m1) (sn_save E m1);
                        case s of
                          Some t \<Rightarrow> State_Monad.return (Inl (plain_err t))
                        | None \<Rightarrow> (if st = Running then grow_live E m1 else State_Monad.return (Inr m1)) } }))"

text \<open>After the record is saved: the sleeper and the guest's ARC.\<close>

definition set_apply :: "'e set_env \<Rightarrow> changes \<Rightarrow> bstate \<Rightarrow> bool \<Rightarrow> machine \<Rightarrow> ('e, sact, cerr option) tm" where
  "set_apply E c st arc_changed m = do {
     j \<leftarrow> (if ch_idleSuspendMin c \<noteq> None \<and> st = Running then asks (sn_journal E) else State_Monad.return True);
     (if ch_idleSuspendMin c \<noteq> None \<and> ready_now st j then acts (\<lambda>_. SSleeper m) (\<lambda>e. ((), sn_sleeper E m e)) else State_Monad.return ());
     if arc_changed \<and> st = Running then do {
       r \<leftarrow> acts (SArc m) (sn_arc E m);
       State_Monad.return (opt_plain (map_option (\<lambda>t. ''ZFS ARC cap recorded but not applied to the running guest (retried on the next start): '' @ t) r)) }
     else State_Monad.return None }"

definition set_finish :: "'e set_env \<Rightarrow> changes \<Rightarrow> bstate \<Rightarrow> bool \<Rightarrow> machine \<Rightarrow> ('e, sact, cerr option) tm" where
  "set_finish E c st arc_changed m = do {
     s \<leftarrow> acts (SSave m) (sn_save E m);
     case s of Some t \<Rightarrow> State_Monad.return (Some (plain_err t)) | None \<Rightarrow> set_apply E c st arc_changed m }"

definition set_record :: "'e set_env \<Rightarrow> changes \<Rightarrow> bstate \<Rightarrow> machine \<Rightarrow> ('e, sact, cerr option) tm" where
  "set_record E c st m = do {
     m1 \<leftarrow> set_port c (set_size c m);
     case set_shares E c m1 of
       Inl e \<Rightarrow> State_Monad.return (Some e)
     | Inr m2 \<Rightarrow> do {
         let m3 = set_soft c m2;
         d \<leftarrow> set_disk E c st m3;
         case d of
           Inl e \<Rightarrow> State_Monad.return (Some e)
         | Inr m4 \<Rightarrow> set_finish E c st (mc_arcMiB m3 \<noteq> mc_arcMiB m2) m4 } }"

definition set_locked :: "'e set_env \<Rightarrow> set_opts \<Rightarrow> string \<Rightarrow> ('e, sact, set_err option) tm" where
  "set_locked E o1 name = do {
     r \<leftarrow> asks (sn_reload E name);
     case r of
       Inl e \<Rightarrow> State_Monad.return (Some (CmdErr e))
     | Inr m \<Rightarrow> do {
         emit (SLoaded m);
         case validate (sn_flags E) o1 m of
           Inl e \<Rightarrow> State_Monad.return (Some (UsageErr e))
         | Inr c \<Rightarrow> do {
             s \<leftarrow> asks (sn_state E m);
             case s of
               Inl e \<Rightarrow> State_Monad.return (Some (CmdErr e))
             | Inr st \<Rightarrow> do {
                 j \<leftarrow> (if st = Running then asks (sn_journal E) else State_Monad.return False);
                 emit (SState st j);
                 case set_gate m c st j of
                   Some e \<Rightarrow> State_Monad.return (Some (CmdErr e))
                 | None \<Rightarrow> do { f \<leftarrow> set_record E c st m; State_Monad.return (map_option CmdErr f) } } } } }"

definition run_set :: "'e set_env \<Rightarrow> set_opts \<Rightarrow> ('e, sact, set_err option) tm" where
  "run_set E o1 = do {
     r \<leftarrow> asks (sn_load E);
     case r of
       Inl e \<Rightarrow> State_Monad.return (Some (CmdErr e))
     | Inr m0 \<Rightarrow>
         (case validate (sn_flags E) o1 m0 of
            Inl e \<Rightarrow> State_Monad.return (Some (UsageErr e))
          | Inr _ \<Rightarrow> do {
              l \<leftarrow> asks (sn_lock E);
              case l of
                Some e \<Rightarrow> State_Monad.return (Some (CmdErr e))
              | None \<Rightarrow> do { emit SLock; x \<leftarrow> set_locked E o1 (mc_name m0); emit SUnlock; State_Monad.return x } }) }"

end
