(* ===== verification/Cli_Init.thy ===== *)
theory Cli_Init
  imports Cli_Set Image_Names
begin

text \<open>
  \<^verbatim>\<open>jm init\<close> and \<^verbatim>\<open>jm rm\<close> (\<^verbatim>\<open>internal/cli/init.go\<close>, \<^verbatim>\<open>rm.go\<close> and the default shares of \<^verbatim>\<open>share.go\<close>): the flags and their limits, which image a
  reference names, and the stages, over a host that answers every question as it pleases; the trace holds what was done and
  how it ended. Log lines and warnings are left out.
\<close>

section \<open>The flags of init\<close>

record init_opts =
  io_image :: string
  io_cpus :: int
  io_memory :: int
  io_disk :: int
  io_sshPort :: int
  io_mounts :: "string list"
  io_noMounts :: bool
  io_publishAddr :: string
  io_arc :: string
  io_idleSuspend :: string

text \<open>\<open>tmp\<close> is \<^verbatim>\<open>$TMPDIR\<close> cleaned and \<open>parent\<close> its directory.\<close>

definition user_temp_root :: "string \<Rightarrow> string \<Rightarrow> string" where
  "user_temp_root tmp parent =
     (if \<not> has_prefix tmp ''/var/folders/'' then []
      else if parent = ''/var/folders'' \<or> \<not> has_prefix parent ''/var/folders/'' then [] else parent)"

definition default_mount_roots :: "flag_host \<Rightarrow> string \<Rightarrow> string list" where
  "default_mount_roots F temp_root =
     (case fh_home F of Inr h \<Rightarrow> if h = [] then [] else [h] | Inl _ \<Rightarrow> []) @ [''/Volumes'', ''/private/tmp''] @
     (if temp_root = [] then [] else [temp_root])"

text \<open>\<open>is_dir\<close>: the roots the host has.\<close>

definition default_shares :: "flag_host \<Rightarrow> (string \<Rightarrow> bool) \<Rightarrow> string \<Rightarrow> flag_err + share list" where
  "default_shares F is_dir temp_root =
     (case normalise_shares (fh_host F)
         (map (\<lambda>r. \<lparr>sh_hostPath = r, sh_guestPath = [], sh_readOnly = False, sh_tag = []\<rparr>) (filter is_dir (default_mount_roots F temp_root))) of
        None \<Rightarrow> Inl ShareErr
      | Some ss \<Rightarrow> Inr ss)"

definition init_shares :: "flag_host \<Rightarrow> (string \<Rightarrow> bool) \<Rightarrow> string \<Rightarrow> init_opts \<Rightarrow> flag_err + share list" where
  "init_shares F is_dir temp_root o1 =
     (if io_noMounts o1
      then (if io_mounts o1 \<noteq> [] then Inl (FlagErr ''--no-mounts and --mount are mutually exclusive'') else Inr [])
      else case default_shares F is_dir temp_root of
             Inl e \<Rightarrow> Inl e
           | Inr base \<Rightarrow> (if io_mounts o1 = [] then Inr base else apply_mounts F base (io_mounts o1) []))"

definition init_arc :: "init_opts \<Rightarrow> flag_err + int" where
  "init_arc o1 = (if io_arc o1 = [] then Inr (default_arc_for (io_memory o1)) else read_arc (io_memory o1) (io_arc o1))"

definition init_idle :: "init_opts \<Rightarrow> flag_err + int" where
  "init_idle o1 = (if io_idleSuspend o1 = [] then Inr default_idle_suspend_min else read_idle (io_idleSuspend o1))"

text \<open>The sizes of a new machine: only lower limits.\<close>

definition init_sizes :: "init_opts \<Rightarrow> flag_err option" where
  "init_sizes o1 =
     (if io_cpus o1 < 1 then Some (FlagErr ''--cpus must be at least 1'')
      else if io_memory o1 < 256 then Some (FlagErr ''--memory must be at least 256 MiB'')
      else if io_disk o1 < 1 then Some (FlagErr ''--disk must be at least 1 GiB'')
      else if io_sshPort o1 < 1 \<or> io_sshPort o1 > 65535 then Some (FlagErr ''--ssh-port must be between 1 and 65535'')
      else None)"

text \<open>What \<^verbatim>\<open>validate\<close> accepts: the ARC cap, the idle time and the publish address.\<close>

definition init_validate :: "flag_host \<Rightarrow> init_opts \<Rightarrow> flag_err + int \<times> int \<times> string" where
  "init_validate F o1 =
     (case init_sizes o1 of
        Some e \<Rightarrow> Inl e
      | None \<Rightarrow>
          (case init_arc o1 of
             Inl e \<Rightarrow> Inl e
           | Inr arc \<Rightarrow>
               (case init_idle o1 of
                  Inl e \<Rightarrow> Inl e
                | Inr idle \<Rightarrow> (case read_publish F (io_publishAddr o1) of Inl e \<Rightarrow> Inl e | Inr addr \<Rightarrow> Inr (arc, idle, addr)))))"

section \<open>The image\<close>

datatype img_source = SrcPrebaked string int | SrcOfficial string int | SrcByo string int

definition parse_image :: "string \<Rightarrow> flag_err + image_ref" where
  "parse_image t =
     (if is_byo_ref t then Inr \<lparr>ir_source = ''byo'', ir_release = t\<rparr>
      else case parse_image_ref t of
             None \<Rightarrow> Inl (FlagErr (''invalid image reference '' @ quote t))
           | Some r \<Rightarrow> Inr r)"

definition with_release :: "image_ref \<Rightarrow> string \<Rightarrow> image_ref" where
  "with_release r d = (if ir_release r = [] then r\<lparr>ir_release := d\<rparr> else r)"

definition image_source :: "image_ref \<Rightarrow> int \<Rightarrow> flag_err + img_source \<times> image_ref" where
  "image_source r disk =
     (if ir_source r = ''prebaked'' then (let q = with_release r guest_version in Inr (SrcPrebaked (ir_release q) disk, q))
      else if ir_source r = ''official'' then (let q = with_release r default_release in Inr (SrcOfficial (ir_release q) disk, q))
      else if ir_source r = ''byo'' then Inr (SrcByo (ir_release r) disk, r)
      else Inl (FlagErr (''unknown image source '' @ quote (ir_source r) @
             '' (known: prebaked, official, or a path/URL to a .raw, .raw.xz or .raw.zst)'')))"

definition fetch_hint :: "string \<Rightarrow> image_ref \<Rightarrow> img_err \<Rightarrow> string" where
  "fetch_hint name r e =
     (if ir_source r = ''prebaked'' \<and> (case e of Unpublished _ \<Rightarrow> True | _ \<Rightarrow> False)
      then ''guest release guest-'' @ ir_release r @ '' is not published (or has no .sha256 sidecar); try '' @ CHR 0x27 # ''jm init'' @ name_hint name @
        '' --image official'' @ CHR 0x27 # '' to provision the stock FreeBSD image on first boot''
      else if ir_source r = ''byo'' \<and> \<not> contains (ir_release r) ''://'' then ''check the path, or use --image prebaked''
      else if ir_source r = ''byo''
      then ''check the URL, or use --image prebaked; re-run '' @ CHR 0x27 # ''jm init'' @ name_hint name @ CHR 0x27 # '' to resume a download cut short''
      else ''re-run '' @ CHR 0x27 # ''jm init'' @ name_hint name @ CHR 0x27 # ''; a partial download resumes where it stopped'')"

fun img_text :: "img_err \<Rightarrow> string" where
  "img_text (Unpublished t) = ''image: no published checksum for the file: '' @ t"
| "img_text (Mismatch t) = t"
| "img_text (ImgErr t) = t"

definition image_text :: "img_err \<Rightarrow> string" where
  "image_text e = (if has_prefix (img_text e) ''image:'' then img_text e else ''image: '' @ img_text e)"

section \<open>The stages of init\<close>

text \<open>\<open>IDisk d mark\<close>: whether a disk and the untrusted mark are there; the other entries hold how a stage ended.\<close>

datatype iact = IExists bool | ILock | IKey "string option" | IDisk bool bool | IFetch "img_err + bool" | IMark "string option"
  | ISeed "string option" | ISave machine "string option" | IUnlock

text \<open>\<open>in_host\<close>: the backend and the provider of the host, with their prerequisites. \<open>in_key\<close>: the key's presence, its generation and
  its public half. \<open>in_fetch\<close> says whether the source trusts what it installed; \<open>in_disk_bytes\<close> is the disk's size.\<close>

record 'e init_env =
  in_flags :: flag_host
  in_is_dir :: "string \<Rightarrow> bool"
  in_temp :: string
  in_exists :: "string \<Rightarrow> 'e \<Rightarrow> bool \<times> 'e"
  in_host :: "'e \<Rightarrow> (cerr + string \<times> string) \<times> 'e"
  in_lock :: "string \<Rightarrow> 'e \<Rightarrow> cerr option \<times> 'e"
  in_key :: "'e \<Rightarrow> bool \<times> 'e"
  in_keygen :: "'e \<Rightarrow> string option \<times> 'e"
  in_pub :: "'e \<Rightarrow> (string + string) \<times> 'e"
  in_disk :: "'e \<Rightarrow> bool \<times> 'e"
  in_mark :: "'e \<Rightarrow> bool \<times> 'e"
  in_fetch :: "img_source \<Rightarrow> 'e \<Rightarrow> (img_err + bool) \<times> 'e"
  in_set_mark :: "string \<Rightarrow> 'e \<Rightarrow> string option \<times> 'e"
  in_disk_bytes :: "'e \<Rightarrow> int option \<times> 'e"
  in_seed :: "string \<Rightarrow> string \<Rightarrow> 'e \<Rightarrow> string option \<times> 'e"
  in_save :: "machine \<Rightarrow> 'e \<Rightarrow> string option \<times> 'e"

definition init_machine :: "string \<Rightarrow> string \<Rightarrow> string \<Rightarrow> image_ref \<Rightarrow> init_opts \<Rightarrow> int \<times> int \<times> string \<Rightarrow> share list \<Rightarrow> machine" where
  "init_machine name backend1 network1 r o1 v shares =
     (case v of (arc, idle, addr) \<Rightarrow>
        machine_defaults\<lparr>mc_name := name, mc_backend := backend1, mc_network := network1, mc_image := image_ref_string r,
          mc_cpus := io_cpus o1, mc_memoryMiB := io_memory o1, mc_arcMiB := arc, mc_idleSuspendMin := idle, mc_diskGiB := io_disk o1,
          mc_sshPort := io_sshPort o1, mc_publishAddr := addr, mc_shares := shares\<rparr>)"

text \<open>The key, kept when it is there.\<close>

definition init_key :: "'e init_env \<Rightarrow> ('e, iact, string + string) tm" where
  "init_key E = do {
     k \<leftarrow> asks (in_key E);
     g \<leftarrow> (if k then State_Monad.return None else acts IKey (in_keygen E));
     case g of Some t \<Rightarrow> State_Monad.return (Inl t) | None \<Rightarrow> asks (in_pub E) }"

text \<open>The disk: fetched, or reused; whether the image is trusted.\<close>

definition init_disk :: "'e init_env \<Rightarrow> string \<Rightarrow> image_ref \<Rightarrow> img_source \<Rightarrow> ('e, iact, cerr + bool) tm" where
  "init_disk E name r src = do {
     d \<leftarrow> asks (in_disk E);
     if d then do {
       mark \<leftarrow> asks (in_mark E);
       emit (IDisk True mark);
       State_Monad.return (Inr (\<not> mark)) }
     else do {
       emit (IDisk False False);
       f \<leftarrow> acts IFetch (in_fetch E src);
       case f of
         Inl e \<Rightarrow> State_Monad.return (Inl (with_hint (plain_err (image_text e)) (fetch_hint name r e)))
       | Inr trusted \<Rightarrow>
           (if trusted then State_Monad.return (Inr True)
            else do {
              w \<leftarrow> acts IMark (in_set_mark E (ir_release r));
              State_Monad.return (case w of Some t \<Rightarrow> Inl (plain_err (''image: '' @ t)) | None \<Rightarrow> Inr False) }) } }"

text \<open>The size in GiB, rounded up.\<close>

definition gib_of :: "int \<Rightarrow> int" where
  "gib_of bytes = (bytes + 2 ^ 30 - 1) div 2 ^ 30"

definition real_size :: "int option \<Rightarrow> machine \<Rightarrow> machine" where
  "real_size bytes m =
     (case bytes of
        None \<Rightarrow> m
      | Some n \<Rightarrow> (if gib_of n > mc_diskGiB m then m\<lparr>mc_diskGiB := gib_of n\<rparr> else m))"

text \<open>The seed, then the record.\<close>

definition init_finish :: "'e init_env \<Rightarrow> string \<Rightarrow> machine \<Rightarrow> bool \<Rightarrow> ('e, iact, set_err option) tm" where
  "init_finish E pub m trusted = do {
     n \<leftarrow> asks (in_disk_bytes E);
     s \<leftarrow> acts ISeed (in_seed E (mc_name m) (trim_space pub));
     case s of
       Some t \<Rightarrow> State_Monad.return (Some (CmdErr (plain_err (''seed: '' @ t))))
     | None \<Rightarrow> do {
         let m1 = real_size n (m\<lparr>mc_imageTrusted := trusted\<rparr>);
         w \<leftarrow> acts (ISave m1) (in_save E m1);
         State_Monad.return (map_option (\<lambda>t. CmdErr (plain_err t)) w) } }"

definition init_stages :: "'e init_env \<Rightarrow> image_ref \<Rightarrow> img_source \<Rightarrow> machine \<Rightarrow> ('e, iact, set_err option) tm" where
  "init_stages E r src m = do {
     k \<leftarrow> init_key E;
     case k of
       Inl t \<Rightarrow> State_Monad.return (Some (CmdErr (plain_err t)))
     | Inr pub \<Rightarrow> do {
         d \<leftarrow> init_disk E (mc_name m) r src;
         case d of
           Inl e \<Rightarrow> State_Monad.return (Some (CmdErr e))
         | Inr trusted \<Rightarrow> init_finish E pub m trusted } }"

definition init_create :: "'e init_env \<Rightarrow> init_opts \<Rightarrow> string \<Rightarrow> image_ref \<Rightarrow> img_source \<Rightarrow> int \<times> int \<times> string \<Rightarrow> share list \<Rightarrow> ('e, iact, set_err option) tm" where
  "init_create E o1 name r src v shares = do {
     x \<leftarrow> asks (in_exists E name);
     emit (IExists x);
     if x then State_Monad.return (Some (CmdErr (with_hint (plain_err (''machine '' @ quote name @ '' already exists''))
            (''run '' @ CHR 0x27 # ''jm rm'' @ name_hint name @ CHR 0x27 # '' first, or pick another name''))))
     else do {
       h \<leftarrow> asks (in_host E);
       case h of
         Inl e \<Rightarrow> State_Monad.return (Some (CmdErr e))
       | Inr (backend1, network1) \<Rightarrow> do {
           l \<leftarrow> asks (in_lock E name);
           case l of
             Some e \<Rightarrow> State_Monad.return (Some (CmdErr e))
           | None \<Rightarrow> do {
               emit ILock;
               y \<leftarrow> init_stages E r src (init_machine name backend1 network1 r o1 v shares);
               emit IUnlock;
               State_Monad.return y } } } }"

definition run_init :: "'e init_env \<Rightarrow> string list \<Rightarrow> init_opts \<Rightarrow> ('e, iact, set_err option) tm" where
  "run_init E args o1 =
     (case resolve_name args of
        None \<Rightarrow> State_Monad.return (Some (UsageErr (FlagErr ''invalid machine name'')))
      | Some name \<Rightarrow>
          (case init_validate (in_flags E) o1 of
             Inl e \<Rightarrow> State_Monad.return (Some (UsageErr e))
           | Inr v \<Rightarrow>
               (case parse_image (io_image o1) of
                  Inl e \<Rightarrow> State_Monad.return (Some (UsageErr e))
                | Inr r \<Rightarrow>
                    (case init_shares (in_flags E) (in_is_dir E) (in_temp E) o1 of
                       Inl e \<Rightarrow> State_Monad.return (Some (UsageErr e))
                     | Inr shares \<Rightarrow>
                         (case image_source r (io_disk o1) of
                            Inl e \<Rightarrow> State_Monad.return (Some (UsageErr e))
                          | Inr (src, q) \<Rightarrow> init_create E o1 name q src v shares)))))"

section \<open>jm rm\<close>

text \<open>\<open>RStopped ok\<close>: \<^verbatim>\<open>stopMachine\<close> and whether it succeeded; the entries without a result are stages whose errors are only printed.\<close>

datatype ract = RLock | RLoaded bool | RStopped bool | RSleeper | RForwarder | RResolver | RBackend | RProvider | RConnection | RForget
  | RCleanBackend | RCleanProvider | RCleanSleeper | RDelete "string option" | RUnlock

text \<open>\<open>rn_stop m poweroff discard\<close>; \<open>rn_bare\<close>: the record put together for a directory whose own cannot be read; \<open>rn_backend\<close> and
  \<open>rn_provider\<close>: whether the record's are known here.\<close>

record 'e rm_env =
  rn_dir :: "string \<Rightarrow> 'e \<Rightarrow> bool \<times> 'e"
  rn_guess :: "'e \<Rightarrow> (cerr + string) \<times> 'e"
  rn_lock :: "string \<Rightarrow> 'e \<Rightarrow> cerr option \<times> 'e"
  rn_load :: "string \<Rightarrow> 'e \<Rightarrow> machine option \<times> 'e"
  rn_bare :: "string \<Rightarrow> machine"
  rn_stop :: "machine \<Rightarrow> bool \<Rightarrow> bool \<Rightarrow> 'e \<Rightarrow> cerr option \<times> 'e"
  rn_do :: "ract \<Rightarrow> machine \<Rightarrow> 'e \<Rightarrow> 'e"
  rn_backend :: "machine \<Rightarrow> bool"
  rn_provider :: "machine \<Rightarrow> bool"
  rn_delete :: "string \<Rightarrow> 'e \<Rightarrow> string option \<times> 'e"

definition rm_do :: "'e rm_env \<Rightarrow> machine \<Rightarrow> ract \<Rightarrow> ('e, ract, unit) tm" where
  "rm_do E m a = acts (\<lambda>_. a) (\<lambda>e. ((), rn_do E a m e))"

definition rm_when :: "bool \<Rightarrow> ('e, ract, unit) tm \<Rightarrow> ('e, ract, unit) tm" where
  "rm_when b p = (if b then p else State_Monad.return ())"

definition rm_helpers :: "'e rm_env \<Rightarrow> machine \<Rightarrow> ('e, ract, unit) tm" where
  "rm_helpers E m = do { _ \<leftarrow> rm_do E m RSleeper; _ \<leftarrow> rm_when (rn_provider E m) (rm_do E m RForwarder); rm_do E m RResolver }"

definition rm_unreadable :: "'e rm_env \<Rightarrow> machine \<Rightarrow> ('e, ract, cerr option) tm" where
  "rm_unreadable E m = do {
     _ \<leftarrow> rm_helpers E m;
     _ \<leftarrow> rm_when (rn_backend E m) (rm_do E m RBackend);
     _ \<leftarrow> rm_when (rn_provider E m) (rm_do E m RProvider);
     State_Monad.return None }"

definition rm_forget :: "'e rm_env \<Rightarrow> machine \<Rightarrow> ('e, ract, cerr option) tm" where
  "rm_forget E m = do { _ \<leftarrow> rm_do E m RConnection; _ \<leftarrow> rm_do E m RForget; State_Monad.return None }"

text \<open>A machine with a record: stopped, its saved state discarded; \<open>--force\<close> goes on when that fails.\<close>

definition rm_loaded :: "'e rm_env \<Rightarrow> bool \<Rightarrow> machine \<Rightarrow> ('e, ract, cerr option) tm" where
  "rm_loaded E force m = do {
     s \<leftarrow> acts (\<lambda>r. RStopped (r = None)) (rn_stop E m (\<not> force) True);
     case s of
       None \<Rightarrow> rm_forget E m
     | Some e \<Rightarrow>
         (if \<not> force
          then State_Monad.return (Some (with_hint e (''use '' @ CHR 0x27 # ''jm rm --force'' @ name_hint (mc_name m) @ CHR 0x27 # '' to remove anyway'')))
          else do { _ \<leftarrow> rm_helpers E m; rm_forget E m }) }"

definition rm_clean :: "'e rm_env \<Rightarrow> machine \<Rightarrow> ('e, ract, unit) tm" where
  "rm_clean E m = do {
     _ \<leftarrow> rm_when (rn_backend E m) (rm_do E m RCleanBackend);
     _ \<leftarrow> rm_when (rn_provider E m) (rm_do E m RCleanProvider);
     rm_do E m RCleanSleeper }"

definition rm_delete :: "'e rm_env \<Rightarrow> string \<Rightarrow> machine \<Rightarrow> ('e, ract, cerr option) tm" where
  "rm_delete E name m = do {
     _ \<leftarrow> rm_clean E m;
     d \<leftarrow> acts RDelete (rn_delete E name);
     State_Monad.return (map_option plain_err d) }"

definition rm_locked :: "'e rm_env \<Rightarrow> bool \<Rightarrow> string \<Rightarrow> ('e, ract, cerr option) tm" where
  "rm_locked E force name = do {
     l \<leftarrow> acts (\<lambda>r. RLoaded (r \<noteq> None)) (rn_load E name);
     (case l of
        None \<Rightarrow> do { _ \<leftarrow> rm_unreadable E (rn_bare E name); rm_delete E name (rn_bare E name) }
      | Some m \<Rightarrow> do {
          r \<leftarrow> rm_loaded E force m;
          case r of Some e \<Rightarrow> State_Monad.return (Some e) | None \<Rightarrow> rm_delete E name m }) }"

text \<open>The name: the one given, or the default one when its directory is there, or the only machine.\<close>

definition rm_name :: "'e rm_env \<Rightarrow> string list \<Rightarrow> ('e, ract, cerr + string) tm" where
  "rm_name E args =
     (if args \<noteq> [] then State_Monad.return (case resolve_name args of None \<Rightarrow> Inl (plain_err ''invalid machine name'') | Some n \<Rightarrow> Inr n)
      else do {
        d \<leftarrow> asks (rn_dir E ''jailmachine'');
        if d then State_Monad.return (Inr ''jailmachine'') else asks (rn_guess E) })"

definition run_rm :: "'e rm_env \<Rightarrow> bool \<Rightarrow> string list \<Rightarrow> ('e, ract, cerr option) tm" where
  "run_rm E force args = do {
     n \<leftarrow> rm_name E args;
     case n of
       Inl e \<Rightarrow> State_Monad.return (Some e)
     | Inr name \<Rightarrow> do {
         d \<leftarrow> asks (rn_dir E name);
         if \<not> d then State_Monad.return None
         else do {
           l \<leftarrow> asks (rn_lock E name);
           case l of
             Some e \<Rightarrow> State_Monad.return (Some e)
           | None \<Rightarrow> do { emit RLock; r \<leftarrow> rm_locked E force name; emit RUnlock; State_Monad.return r } } } }"

end
