(* ===== verification/Cli_Set_Laws.thy ===== *)
theory Cli_Set_Laws
  imports Cli_Set
begin

text \<open>
  What \<^verbatim>\<open>jm set\<close> guarantees: the sizes it reads, the ranges a validated change keeps, and the protocol of the command: which record
  may be saved in which state of the machine, and that a growth of the disk is on record before the hypervisor or the
  guest hears of it and until both have taken it.
\<close>

section \<open>Sizes\<close>

lemma unit_mib_cases: "unit_mib u = Some k \<Longrightarrow> k = 1 \<or> k = 1024"
  by (auto simp: unit_mib_def split: if_splits)

lemma parse_memory_bounds:
  assumes "parse_memory s = Inr n"
  shows "0 \<le> n \<and> n \<le> 1024 * max_memory_mib"
  using assms unfolding parse_memory_def Let_def
  by (auto split: option.splits if_splits dest!: unit_mib_cases simp: max_memory_mib_def)

lemma number_part_digits: "ds \<noteq> [] \<Longrightarrow> list_all is_digit ds \<Longrightarrow> list_all (\<lambda>c. \<not> is_digit c) u \<Longrightarrow> number_part (ds @ u) = ds"
  unfolding number_part_def rev_append
  by (subst dropWhile_append2) (auto simp: list_all_iff, cases ds rule: rev_cases, auto)

lemma unit_part_text: "ds \<noteq> [] \<Longrightarrow> list_all is_digit ds \<Longrightarrow> list_all (\<lambda>c. \<not> is_digit c) u \<Longrightarrow> unit_part (ds @ u) = trim_space u"
  unfolding unit_part_def rev_append
  by (subst takeWhile_append2) (auto simp: list_all_iff, cases ds rule: rev_cases, auto)

lemma to_lower_digits: "list_all is_digit ds \<Longrightarrow> to_lower ds = ds"
  by (induction ds) (auto simp: to_lower_def Let_def is_digit_def)

lemma to_lower_append: "to_lower (a @ b) = to_lower a @ to_lower b"
  by (simp add: to_lower_def)

lemma digit_not_space: "is_digit c \<Longrightarrow> \<not> is_space c"
  by (auto simp: is_digit_def is_space_def)

lemma atoi_nat_digits: "int k \<le> max_memory_mib \<Longrightarrow> atoi (nat_digits k) = Some (int k)"
  using hd_nat_digits [of k] nat_digits_digits [of k]
  by (auto simp: atoi_def Let_def digits_val_nat_digits is_digit_def min_int64_def max_int64_def max_memory_mib_def)

text \<open>A number with a unit of the table behind it.\<close>

lemma parse_memory_unit:
  assumes "int k \<le> max_memory_mib" and "to_lower u = v" and "v = [] \<or> \<not> is_space (last v)" and "list_all (\<lambda>c. \<not> is_digit c) v"
    and "unit_mib (trim_space v) = Some mult"
  shows "parse_memory (nat_digits k @ u) = Inr (int k * mult)"
proof -
  let ?d = "nat_digits k"
  have d: "list_all is_digit ?d" "?d \<noteq> []" by (simp_all add: nat_digits_digits)
  have "\<not> is_space (hd (?d @ v))" using hd_nat_digits [of k] by (simp add: digit_not_space)
  moreover have "\<not> is_space (last (?d @ v))"
    using assms(3) d by (cases "v = []") (auto simp: list_all_iff digit_not_space)
  ultimately have t: "trim_space (to_lower (?d @ u)) = ?d @ v"
    using d assms(2) by (simp add: to_lower_append to_lower_digits trim_space_id)
  show ?thesis
    using assms d by (simp add: parse_memory_def Let_def t number_part_digits unit_part_text atoi_nat_digits)
qed

text \<open>Fact (roundtrip): a memory size is read as it is written: a number alone or in MiB is that many MiB, in GiB 1024 times as many, in any
  case and with or without a space, up to the limit of 1 TiB for the number.\<close>

theorem memory_sizes_read:
  assumes "int k \<le> 2 ^ 20"
  shows "parse_memory (nat_digits k) = Inr (int k) \<and> parse_memory (nat_digits k @ ''MiB'') = Inr (int k) \<and>
    parse_memory (nat_digits k @ '' GiB'') = Inr (int k * 1024) \<and> parse_memory (nat_digits k @ ''g'') = Inr (int k * 1024)"
proof -
  have k: "int k \<le> max_memory_mib" using assms by (simp add: max_memory_mib_def)
  have l: "to_lower ''MiB'' = ''mib''" "to_lower '' GiB'' = '' gib''" "to_lower ''g'' = ''g''" "to_lower [] = []" by code_simp+
  have u: "unit_mib (trim_space []) = Some 1" "unit_mib (trim_space ''mib'') = Some 1" "unit_mib (trim_space '' gib'') = Some 1024"
    "unit_mib (trim_space ''g'') = Some 1024" by code_simp+
  have s: "\<not> is_space (last ''mib'')" "\<not> is_space (last '' gib'')" "\<not> is_space (last ''g'')" by code_simp+
  have d: "list_all (\<lambda>c. \<not> is_digit c) ''mib''" "list_all (\<lambda>c. \<not> is_digit c) '' gib''" "list_all (\<lambda>c. \<not> is_digit c) ''g''" by code_simp+
  show ?thesis
    using parse_memory_unit [OF k l(4) _ _ u(1)] parse_memory_unit [OF k l(1) disjI2 [OF s(1)] d(1) u(2)]
      parse_memory_unit [OF k l(2) disjI2 [OF s(2)] d(2) u(3)] parse_memory_unit [OF k l(3) disjI2 [OF s(3)] d(3) u(4)] by simp
qed

section \<open>Validated changes\<close>

definition flag_in :: "'a option \<Rightarrow> ('a \<Rightarrow> bool) \<Rightarrow> bool" where
  "flag_in x P = (case x of None \<Rightarrow> True | Some v \<Rightarrow> P v)"

definition arc_fits :: "int \<Rightarrow> int \<Rightarrow> bool" where
  "arc_fits arc memory \<longleftrightarrow> arc = 0 \<or> (min_arc_mib \<le> arc \<and> arc < memory)"

text \<open>What a change may be, for the record it is made to.\<close>

definition change_ok :: "machine \<Rightarrow> changes \<Rightarrow> bool" where
  "change_ok m c \<longleftrightarrow>
     flag_in (ch_cpus c) (\<lambda>n. 1 \<le> n \<and> n \<le> 256) \<and> flag_in (ch_memoryMiB c) (\<lambda>n. 256 \<le> n \<and> n \<le> 2 ^ 20) \<and>
     flag_in (ch_diskGiB c) (\<lambda>n. mc_diskGiB m \<le> n \<and> 1 \<le> n \<and> n \<le> 2 ^ 14) \<and> flag_in (ch_sshPort c) (\<lambda>n. 1 \<le> n \<and> n \<le> 65535) \<and>
     flag_in (ch_idleSuspendMin c) (\<lambda>n. n = 0 \<or> (5 \<le> n \<and> n \<le> 10080)) \<and>
     flag_in (ch_shares c) (\<lambda>ss. length ss \<le> max_shares)"

text \<open>What a flag was read as.\<close>

definition read_as :: "('a \<Rightarrow> flag_err + 'b) \<Rightarrow> 'a option \<Rightarrow> 'b option \<Rightarrow> bool" where
  "read_as f x y \<longleftrightarrow> (case x of None \<Rightarrow> y = None | Some v \<Rightarrow> (\<exists>z. f v = Inr z \<and> y = Some z))"

lemma flagD: "flag x f k = Inr c \<Longrightarrow> \<exists>y. read_as f x y \<and> k y = Inr c"
  by (auto simp: flag_def read_as_def split: option.splits sum.splits)

lemma read_as_in: "read_as f x y \<Longrightarrow> (\<And>v z. f v = Inr z \<Longrightarrow> P z) \<Longrightarrow> flag_in y P"
  by (auto simp: read_as_def flag_in_def split: option.splits)

lemma read_as_None: "read_as f x y \<Longrightarrow> y = None \<longleftrightarrow> x = None"
  by (auto simp: read_as_def split: option.splits)

lemma parse_idle_range: "parse_idle_suspend s = Inr n \<Longrightarrow> n = 0 \<or> (5 \<le> n \<and> n \<le> 10080)"
  by (auto simp: parse_idle_suspend_def Let_def min_idle_suspend_min_def max_idle_suspend_min_def split: if_splits option.splits prod.splits)

lemma validate_arc_fits: "validate_arc a m = None \<longleftrightarrow> arc_fits a m"
  by (simp add: validate_arc_def arc_fits_def)

lemma apply_mounts_normal: "apply_mounts F l a r = Inr ss \<Longrightarrow> \<exists>x. normalise_shares (fh_host F) x = Some ss"
  by (auto simp: apply_mounts_def split: sum.splits option.splits)

lemma length_assign: "length (assign_tags_loop H used ss) = length ss"
  by (induction ss arbitrary: used) (simp_all add: assign_tags_loop.simps Let_def)

lemma read_shares_few: "read_shares F o1 l = Inr (Some ss) \<Longrightarrow> length ss \<le> max_shares"
proof -
  have n: "normalise_shares H x = Some ss \<Longrightarrow> length ss \<le> max_shares" for H x
    by (auto simp: normalise_shares_def Let_def assign_tags_def length_assign split: option.splits if_splits)
  assume "read_shares F o1 l = Inr (Some ss)"
  then show ?thesis using n by (auto simp: read_shares_def split: if_splits sum.splits dest!: apply_mounts_normal)
qed

definition memory_after :: "machine \<Rightarrow> changes \<Rightarrow> int" where
  "memory_after m c = (case ch_memoryMiB c of None \<Rightarrow> mc_memoryMiB m | Some x \<Rightarrow> x)"

definition arc_after :: "machine \<Rightarrow> changes \<Rightarrow> int" where
  "arc_after m c = (case ch_arcMiB c of None \<Rightarrow> mc_arcMiB m | Some x \<Rightarrow> x)"

lemma read_idle_range: "read_idle s = Inr n \<Longrightarrow> n = 0 \<or> (5 \<le> n \<and> n \<le> 10080)"
  by (auto simp: read_idle_def dest: parse_idle_range split: sum.splits)

lemma read_cpus_range: "read_cpus n = Inr k \<Longrightarrow> 1 \<le> k \<and> k \<le> 256"
  by (auto simp: read_cpus_def min_cpus_def max_cpus_def split: if_splits)

lemma read_memory_range: "read_memory s = Inr k \<Longrightarrow> 256 \<le> k \<and> k \<le> 2 ^ 20"
  by (auto simp: read_memory_def min_memory_mib_def max_memory_mib_def split: if_splits sum.splits)

lemma read_disk_range: "read_disk m n = Inr k \<Longrightarrow> mc_diskGiB m \<le> k \<and> 1 \<le> k \<and> k \<le> 2 ^ 14"
  by (auto simp: read_disk_def min_disk_gib_def max_disk_gib_def split: if_splits)

lemma read_port_range: "read_port n = Inr k \<Longrightarrow> 1 \<le> k \<and> k \<le> 65535"
  by (auto simp: read_port_def split: if_splits)

lemma read_arc_range: "read_arc memory s = Inr k \<Longrightarrow> arc_fits k memory"
  by (auto simp: read_arc_def validate_arc_fits split: sum.splits option.splits)

text \<open>The second half of \<open>validate\<close>.\<close>

definition the_memory :: "machine \<Rightarrow> int option \<Rightarrow> int" where
  "the_memory m mem = (case mem of None \<Rightarrow> mc_memoryMiB m | Some x \<Rightarrow> x)"

definition rest :: "flag_host \<Rightarrow> set_opts \<Rightarrow> machine \<Rightarrow> int option \<Rightarrow> string option \<Rightarrow> share list option \<Rightarrow> flag_err + changes" where
  "rest F o1 m idle pub shares =
     flag (so_cpus o1) read_cpus (\<lambda>cpus. flag (so_memory o1) read_memory (\<lambda>mem. flag (so_arc o1) (read_arc (the_memory m mem)) (\<lambda>arc.
       if \<not> room_above_arc o1 m (the_memory m mem)
       then Inl (FlagErr (''--memory '' @ itoa (the_memory m mem) @ '' MiB leaves no room above the ZFS ARC cap of '' @ itoa (mc_arcMiB m) @
              '' MiB; lower it in the same call with --arc''))
       else flag (so_disk o1) (read_disk m) (\<lambda>disk. flag (so_sshPort o1) read_port (\<lambda>port.
         Inr \<lparr>ch_cpus = cpus, ch_memoryMiB = mem, ch_diskGiB = disk, ch_sshPort = port, ch_publishAddr = pub, ch_shares = shares,
              ch_arcMiB = arc, ch_idleSuspendMin = idle\<rparr>)))))"

lemma validate_rest:
  "validate F o1 m =
     (if \<not> any_change o1
      then Inl (FlagErr ''nothing to set (use --cpus, --memory, --disk, --ssh-port, --publish-addr, --arc, --idle-suspend, --mount, --unmount or --no-mounts)'')
      else flag (so_idleSuspend o1) read_idle (\<lambda>idle. flag (so_publishAddr o1) (read_publish F) (\<lambda>pub.
        case read_shares F o1 (mc_shares m) of Inl e \<Rightarrow> Inl e | Inr shares \<Rightarrow> rest F o1 m idle pub shares)))"
  unfolding validate_def rest_def the_memory_def Let_def ..

lemma validated_change:
  assumes "validate F o1 m = Inr c"
  shows "change_ok m c \<and> (arc_fits (mc_arcMiB m) (mc_memoryMiB m) \<longrightarrow> arc_fits (arc_after m c) (memory_after m c))"
proof -
  obtain idle pub shares where i: "read_as read_idle (so_idleSuspend o1) idle" and s: "read_shares F o1 (mc_shares m) = Inr shares"
    and k2: "rest F o1 m idle pub shares = Inr c"
    using assms(1) unfolding validate_rest by (auto split: if_splits sum.splits dest!: flagD)
  obtain cpus mem arc where p: "read_as read_cpus (so_cpus o1) cpus" "read_as read_memory (so_memory o1) mem" and
    a: "read_as (read_arc (the_memory m mem)) (so_arc o1) arc" and r: "room_above_arc o1 m (the_memory m mem)" and
    k3: "flag (so_disk o1) (read_disk m) (\<lambda>disk. flag (so_sshPort o1) read_port (\<lambda>port.
        Inr \<lparr>ch_cpus = cpus, ch_memoryMiB = mem, ch_diskGiB = disk, ch_sshPort = port, ch_publishAddr = pub, ch_shares = shares,
             ch_arcMiB = arc, ch_idleSuspendMin = idle\<rparr>)) = Inr c"
    using k2 unfolding rest_def by (auto simp: Let_def split: if_splits dest!: flagD)
  obtain disk port where d: "read_as (read_disk m) (so_disk o1) disk" "read_as read_port (so_sshPort o1) port" and
    c: "c = \<lparr>ch_cpus = cpus, ch_memoryMiB = mem, ch_diskGiB = disk, ch_sshPort = port, ch_publishAddr = pub, ch_shares = shares,
             ch_arcMiB = arc, ch_idleSuspendMin = idle\<rparr>"
    using k3 by (auto dest!: flagD)
  have ranges: "flag_in cpus (\<lambda>n. 1 \<le> n \<and> n \<le> 256)" "flag_in mem (\<lambda>n. 256 \<le> n \<and> n \<le> 2 ^ 20)"
    "flag_in disk (\<lambda>n. mc_diskGiB m \<le> n \<and> 1 \<le> n \<and> n \<le> 2 ^ 14)" "flag_in port (\<lambda>n. 1 \<le> n \<and> n \<le> 65535)"
    "flag_in idle (\<lambda>n. n = 0 \<or> (5 \<le> n \<and> n \<le> 10080))" "flag_in shares (\<lambda>ss. length ss \<le> max_shares)"
    using read_as_in [OF p(1) read_cpus_range] read_as_in [OF p(2) read_memory_range] read_as_in [OF d(1) read_disk_range]
      read_as_in [OF d(2) read_port_range] read_as_in [OF i read_idle_range] read_shares_few s
    by (auto simp: flag_in_def split: option.splits)
  have m: "the_memory m mem = memory_after m c" by (simp add: c the_memory_def memory_after_def)
  have "arc_fits (arc_after m c) (memory_after m c)" if fits: "arc_fits (mc_arcMiB m) (mc_memoryMiB m)"
  proof (cases arc)
    case (Some v)
    have "flag_in arc (\<lambda>k. arc_fits k (the_memory m mem))" by (rule read_as_in [OF a]) (rule read_arc_range)
    then show ?thesis using Some m by (simp add: c arc_after_def flag_in_def)
  next
    case None
    then have "so_arc o1 = None" using read_as_None [OF a] by simp
    moreover have "so_memory o1 = None \<longrightarrow> memory_after m c = mc_memoryMiB m"
      using read_as_None [OF p(2)] by (cases mem) (auto simp: c memory_after_def)
    ultimately show ?thesis using r fits None
      by (auto simp: room_above_arc_def validate_arc_fits m c arc_after_def) (simp add: arc_fits_def)
  qed
  then show ?thesis using ranges by (simp add: c change_ok_def)
qed

lemmas validated_ok = validated_change [THEN conjunct1]
lemmas validated_arc = validated_change [THEN conjunct2, THEN mp]

text \<open>C14 (invariant): what \<^verbatim>\<open>jm set\<close> accepts keeps the record in range: processors, memory, disk, port, idle time and the number of shares
  are within their limits, the disk never shrinks, and the ARC cap stays below the memory the machine will have, be it the
  new one or the old, if it was before.\<close>

theorem validate_keeps_ranges:
  assumes "validate F o1 m = Inr c" and "arc_fits (mc_arcMiB m) (mc_memoryMiB m)"
  shows "change_ok m c \<and> arc_fits (arc_after m c) (memory_after m c)"
  using validated_ok [OF assms(1)] validated_arc [OF assms] by simp

section \<open>The protocol of the command\<close>

definition same_hw :: "machine \<Rightarrow> machine \<Rightarrow> bool" where
  "same_hw m m1 \<longleftrightarrow> mc_cpus m1 = mc_cpus m \<and> mc_memoryMiB m1 = mc_memoryMiB m \<and> mc_sshPort m1 = mc_sshPort m \<and> mc_shares m1 = mc_shares m"

text \<open>Started, the lock held, the record \<open>m\<close> read, its state seen; the disk file grown, the growth on record as pending, taken by the
  hypervisor, by the guest; the record saved, a step failed, the lock released (with whether all went well).\<close>

datatype set_phase = SStart | SHeld | SHas machine | SSeen machine bstate bool | SGrown machine bstate int
  | SPending machine bstate machine | SResized machine machine | SInGuest machine machine
  | SSaved machine bstate machine | SFail | SOver bool | SWrong

definition if_ok :: "string option \<Rightarrow> set_phase \<Rightarrow> set_phase" where
  "if_ok r q = (case r of None \<Rightarrow> q | Some _ \<Rightarrow> SFail)"

fun seen_step :: "machine \<Rightarrow> bstate \<Rightarrow> bool \<Rightarrow> sact \<Rightarrow> set_phase" where
  "seen_step m st j SForget = (if st = Stopped then SSeen m st j else SWrong)"
| "seen_step m st j (SGrow d r) =
     (if (st = Stopped \<or> (st = Running \<and> \<not> j)) \<and> mc_diskGiB m < d then if_ok r (SGrown m st d) else SWrong)"
| "seen_step m st j (SSave m1 r) =
     (if (st = Stopped \<or> same_hw m m1) \<and> (mc_arcMiB m1 = mc_arcMiB m \<or> \<not> (st = Running \<and> j)) \<and> mc_diskGiB m1 = mc_diskGiB m
      then if_ok r (SSaved m st m1) else SWrong)"
| "seen_step m st j SUnlock = SOver False"
| "seen_step m st j _ = SWrong"

fun grown_step :: "machine \<Rightarrow> bstate \<Rightarrow> int \<Rightarrow> sact \<Rightarrow> set_phase" where
  "grown_step m st d (SSave m1 r) =
     (if (st = Stopped \<or> same_hw m m1) \<and> mc_diskGiB m1 = d \<and> pending_grow m1 then if_ok r (SPending m st m1) else SWrong)"
| "grown_step m st d _ = SWrong"

fun pending_step :: "machine \<Rightarrow> bstate \<Rightarrow> machine \<Rightarrow> sact \<Rightarrow> set_phase" where
  "pending_step m st m1 (SResize m2 r) = (if st = Running \<and> m2 = m1 then if_ok r (SResized m m1) else SWrong)"
| "pending_step m st m1 (SSave m2 r) = (if st = Stopped \<and> m2 = m1 then if_ok r (SSaved m st m2) else SWrong)"
| "pending_step m st m1 _ = SWrong"

fun resized_step :: "machine \<Rightarrow> machine \<Rightarrow> sact \<Rightarrow> set_phase" where
  "resized_step m m1 (SGuest m2 r) = (if m2 = m1 then if_ok r (SInGuest m m1) else SWrong)"
| "resized_step m m1 _ = SWrong"

fun in_guest_step :: "machine \<Rightarrow> machine \<Rightarrow> sact \<Rightarrow> set_phase" where
  "in_guest_step m m1 (SSave m2 r) = (if m2 = set_pending_grow False m1 then if_ok r (SSaved m Running m2) else SWrong)"
| "in_guest_step m m1 _ = SWrong"

fun saved_step :: "machine \<Rightarrow> bstate \<Rightarrow> machine \<Rightarrow> sact \<Rightarrow> set_phase" where
  "saved_step m st m1 (SSleeper m2) = (if st = Running \<and> m2 = m1 then SSaved m st m1 else SWrong)"
| "saved_step m st m1 (SArc m2 r) =
     (if st = Running \<and> m2 = m1 \<and> mc_arcMiB m1 \<noteq> mc_arcMiB m then if_ok r (SSaved m st m1) else SWrong)"
| "saved_step m st m1 SUnlock = SOver True"
| "saved_step m st m1 _ = SWrong"

definition expects :: "sact \<Rightarrow> set_phase \<Rightarrow> sact \<Rightarrow> set_phase" where
  "expects a q l = (if l = a then q else SWrong)"

lemma expects_it [simp]: "expects a q a = q"
  by (simp add: expects_def)

fun held_step :: "sact \<Rightarrow> set_phase" where
  "held_step (SLoaded m) = SHas m"
| "held_step l = expects SUnlock (SOver False) l"

fun has_step :: "machine \<Rightarrow> sact \<Rightarrow> set_phase" where
  "has_step m (SState st j) = SSeen m st j"
| "has_step m l = expects SUnlock (SOver False) l"

fun set_step :: "set_phase \<Rightarrow> sact \<Rightarrow> set_phase" where
  "set_step SStart l = expects SLock SHeld l"
| "set_step SHeld l = held_step l"
| "set_step (SHas m) l = has_step m l"
| "set_step (SSeen m st j) l = seen_step m st j l"
| "set_step (SGrown m st d) l = grown_step m st d l"
| "set_step (SPending m st m1) l = pending_step m st m1 l"
| "set_step (SResized m m1) l = resized_step m m1 l"
| "set_step (SInGuest m m1) l = in_guest_step m m1 l"
| "set_step (SSaved m st m1) l = saved_step m st m1 l"
| "set_step SFail l = expects SUnlock (SOver False) l"
| "set_step (SOver b) l = SWrong"
| "set_step SWrong l = SWrong"

text \<open>How the command may end: before the lock or with the lock released; and a success has saved the record.\<close>

definition set_ends :: "set_err option \<Rightarrow> set_phase \<Rightarrow> bool" where
  "set_ends r q \<longleftrightarrow> (r \<noteq> None \<and> q = SStart) \<or> (\<exists>b. q = SOver b \<and> (r = None \<longrightarrow> b))"

definition locked_ends :: "set_err option \<Rightarrow> set_phase \<Rightarrow> bool" where
  "locked_ends r q \<longleftrightarrow> (\<exists>b. set_step q SUnlock = SOver b \<and> (r = None \<longrightarrow> b))"

lemma trail_finish:
  assumes "\<And>r. set_step q (SSave m1 r) = if_ok r (SSaved m st m1)"
    and "ac \<Longrightarrow> st = Running \<Longrightarrow> mc_arcMiB m1 \<noteq> mc_arcMiB m"
  shows "trail set_step q (set_finish E c st ac m1) (\<lambda>r q. locked_ends (map_option CmdErr r) q)"
  unfolding set_finish_def set_apply_def opt_plain_def
  by (intro trail_rules) (use assms in \<open>auto simp: if_ok_def locked_ends_def ready_now_def intro!: trail_rules split: option.splits\<close>)

lemma pending_grow_set: "pending_grow (set_pending_grow True m)"
  by (simp add: pending_grow_def set_pending_grow_def map_of_gm_put)

lemma set_pending_fields [simp]:
  "mc_cpus (set_pending_grow b m) = mc_cpus m" "mc_memoryMiB (set_pending_grow b m) = mc_memoryMiB m"
  "mc_sshPort (set_pending_grow b m) = mc_sshPort m" "mc_shares (set_pending_grow b m) = mc_shares m"
  "mc_diskGiB (set_pending_grow b m) = mc_diskGiB m" "mc_arcMiB (set_pending_grow b m) = mc_arcMiB m"
  by (simp_all add: set_pending_grow_def)

text \<open>The disk's part leaves the record ready to be saved, or has failed.\<close>

definition disk_ends :: "machine \<Rightarrow> bstate \<Rightarrow> machine \<Rightarrow> cerr + machine \<Rightarrow> set_phase \<Rightarrow> bool" where
  "disk_ends m st m3 r q \<longleftrightarrow>
     (case r of
        Inl e \<Rightarrow> \<exists>b. set_step q SUnlock = SOver b
      | Inr m4 \<Rightarrow> (\<forall>r. set_step q (SSave m4 r) = if_ok r (SSaved m st m4)) \<and> mc_arcMiB m4 = mc_arcMiB m3)"

lemma trail_live:
  "trail set_step (SPending m Running m1) (grow_live E m1) (disk_ends m Running m1)"
  unfolding grow_live_def by (intro trail_rules) (auto simp: disk_ends_def if_ok_def)

text \<open>The states in which the record read as \<open>m\<close> may become \<open>m3\<close>.\<close>

definition may_become :: "machine \<Rightarrow> bstate \<Rightarrow> bool \<Rightarrow> machine \<Rightarrow> bool" where
  "may_become m st j m3 \<longleftrightarrow> (st = Stopped \<or> same_hw m m3) \<and> (mc_arcMiB m3 = mc_arcMiB m \<or> \<not> (st = Running \<and> j)) \<and> mc_diskGiB m3 = mc_diskGiB m"

lemma trail_disk:
  assumes "may_become m st j m3" and "flag_in (ch_diskGiB c) (\<lambda>d. mc_diskGiB m \<le> d)" and "ch_diskGiB c \<noteq> None \<Longrightarrow> \<not> (st = Running \<and> j)"
  shows "trail set_step (SSeen m st j) (set_disk E c st m3) (disk_ends m st m3)"
proof -
  have g: "disk_gate E m3 st = None \<Longrightarrow> st = Stopped \<or> st = Running"
    by (cases st) (auto simp: disk_gate_def)
  have hw: "same_hw m (set_pending_grow True (m3\<lparr>mc_diskGiB := d\<rparr>)) = same_hw m m3" for d by (simp add: same_hw_def)
  show ?thesis
    unfolding set_disk_def
    by (intro trail_rules trail_weaken [OF trail_live])
      (use assms g in \<open>auto simp: disk_ends_def if_ok_def may_become_def flag_in_def hw pending_grow_set Let_def
         intro!: trail_rules trail_weaken [OF trail_live] split: option.splits sum.splits\<close>)
qed

lemma put_keeps: "(\<And>v m. g (f v m) = g m) \<Longrightarrow> g (put f x m) = g m"
  by (simp add: put_def split: option.split)

lemma size_keeps: "mc_diskGiB (set_size c m) = mc_diskGiB m" "mc_arcMiB (set_size c m) = mc_arcMiB m"
    "mc_sshPort (set_size c m) = mc_sshPort m" "mc_shares (set_size c m) = mc_shares m"
  unfolding set_size_def by (simp_all add: put_keeps)

lemma soft_keeps: "mc_diskGiB (set_soft c m) = mc_diskGiB m" "same_hw m0 (set_soft c m) = same_hw m0 m"
  unfolding set_soft_def by (simp_all add: put_keeps same_hw_def)

lemma soft_arc: "ch_arcMiB c = None \<Longrightarrow> mc_arcMiB (set_soft c m) = mc_arcMiB m"
  unfolding set_soft_def by (simp add: put_keeps put_def split: option.split)

text \<open>The part of the record that only a stopped machine changes.\<close>

definition hw_ends :: "machine \<Rightarrow> bstate \<Rightarrow> machine \<Rightarrow> bool" where
  "hw_ends m st m1 \<longleftrightarrow> (st = Stopped \<or> same_hw m m1) \<and> mc_diskGiB m1 = mc_diskGiB m \<and> mc_arcMiB m1 = mc_arcMiB m"

lemma trail_port:
  assumes "st = Stopped \<or> \<not> needs_stopped c"
  shows "trail set_step (SSeen m st j) (set_port c (set_size c m)) (\<lambda>m1 q. q = SSeen m st j \<and> hw_ends m st m1)"
proof -
  have "st \<noteq> Stopped \<Longrightarrow> ch_sshPort c = None \<and> set_size c m = m"
    using assms by (auto simp: needs_stopped_def set_size_def put_def)
  then show ?thesis
    unfolding set_port_def by (intro trail_rules) (auto simp: hw_ends_def same_hw_def size_keeps)
qed

lemma shares_end:
  "hw_ends m st m1 \<Longrightarrow> st = Stopped \<or> \<not> needs_stopped c \<Longrightarrow> set_shares E c m1 = Inr m2 \<Longrightarrow> hw_ends m st m2"
  by (auto simp: set_shares_def hw_ends_def needs_stopped_def split: option.splits sum.splits if_splits)

lemma disk_failed: "disk_ends m st m3 (Inl e) q \<Longrightarrow> locked_ends (map_option CmdErr (Some e)) q"
  by (auto simp: disk_ends_def locked_ends_def)

lemma trail_record:
  assumes "set_gate m c st j = None" and "change_ok m c" and "st \<noteq> Running \<Longrightarrow> \<not> j"
  shows "trail set_step (SSeen m st j) (set_record E c st m) (\<lambda>r q. locked_ends (map_option CmdErr r) q)"
proof -
  have hw: "st = Stopped \<or> \<not> needs_stopped c" and i: "j \<Longrightarrow> ch_diskGiB c = None \<and> ch_arcMiB c = None"
    using assms(1) by (auto simp: set_gate_def split: if_splits)
  have d: "flag_in (ch_diskGiB c) (\<lambda>d. mc_diskGiB m \<le> d)" using assms(2) by (auto simp: change_ok_def flag_in_def split: option.splits)
  have fail: "locked_ends (map_option CmdErr (Some e)) (SSeen m st j)" for e by (auto simp: locked_ends_def intro: exI [of _ False])
  have become: "may_become m st j (set_soft c m2)" if "hw_ends m st m2" for m2
    using that i soft_arc [of c m2] by (auto simp: may_become_def hw_ends_def soft_keeps)
  have disk: "trail set_step (SSeen m st j) (set_disk E c st (set_soft c m2)) (disk_ends m st (set_soft c m2))" if "hw_ends m st m2" for m2
    by (rule trail_disk [OF become [OF that] d]) (use i in auto)
  have fin: "trail set_step q (set_finish E c st (mc_arcMiB (set_soft c m2) \<noteq> mc_arcMiB m2) m4) (\<lambda>r q. locked_ends (map_option CmdErr r) q)"
    if "hw_ends m st m2" "disk_ends m st (set_soft c m2) (Inr m4) q" for m2 m4 q
    by (rule trail_finish) (use that in \<open>auto simp: disk_ends_def hw_ends_def\<close>)
  show ?thesis
    unfolding set_record_def Let_def
    by (rule trail_then, rule trail_weaken [OF trail_port [OF hw]])
      (auto intro!: trail_sum trail_then trail_ret fail trail_weaken [OF disk] fin
        dest: shares_end [OF _ hw] disk_failed)
qed

lemma trail_set_locked: "trail set_step SHeld (set_locked E o1 name) locked_ends"
proof -
  have e: "locked_ends (Some e) SHeld" "locked_ends (Some e) (SHas m)" "locked_ends (Some e) (SSeen m st j)" for e m st j
    by (auto simp: locked_ends_def intro: exI [of _ False])
  have rec: "trail set_step (SSeen m st j) (set_record E c st m) (\<lambda>r q. locked_ends (map_option CmdErr r) q)"
    if "set_gate m c st j = None" "validate F o1 m = Inr c" "st \<noteq> Running \<Longrightarrow> \<not> j" for m c st j F
    by (rule trail_record [OF that(1) validated_ok [OF that(2)]]) (use that in auto)
  show ?thesis
    unfolding set_locked_def
    by (auto intro!: trail_rules trail_weaken [OF rec] e)
qed

text \<open>C13 (refinement): \<^verbatim>\<open>jm set\<close> follows its protocol, whatever the host, the hypervisor and the guest answer: the processors, the memory, the port
  and the shares it saves differ from the record read under the lock only when the machine was seen stopped; the disk
  file grows only under a stopped machine or a running one no suspend or wake is at work on, and only upwards; a growth is
  on record as pending before the hypervisor and then the guest hear of it, and the mark goes only after both have taken
  it; what touches the running guest comes after the record is saved; a success has saved the record, and the lock is
  released at the end of every run that took it.\<close>

theorem set_follows_protocol:
  "set_ends (result_of (run_set E o1) e) (foldl set_step SStart (trace_of (run_set E o1) e))"
proof (rule trailD)
  show "trail set_step SStart (run_set E o1) set_ends"
    unfolding run_set_def
    by (auto intro!: trail_rules trail_weaken [OF trail_set_locked] simp: set_ends_def locked_ends_def)
qed

section \<open>Witnesses\<close>

theorem memory_sizes_read_witness: "parse_memory ''8 GiB'' = Inr 8192 \<and> parse_memory ''8'' = Inr 8"
proof -
  have d: "nat_digits 8 = ''8''" by (simp add: nat_digits.simps [of 8] digit_char_def) code_simp
  show ?thesis using memory_sizes_read [of 8] by (simp add: d)
qed

definition demo_flags :: flag_host where
  "demo_flags = \<lparr>fh_host = \<lparr>ho_abs = Some, ho_eval = Some, ho_stat = (\<lambda>_. Some True), ho_hash8 = (\<lambda>_. ''00000000'')\<rparr>,
     fh_home = Inr ''/home/me'', fh_join = (\<lambda>a b. a @ ''/'' @ b), fh_parseIP = Some\<rparr>"

definition demo_set_opts :: set_opts where
  "demo_set_opts = \<lparr>so_cpus = Some 8, so_memory = None, so_disk = Some 128, so_sshPort = None, so_publishAddr = None, so_arc = None,
     so_idleSuspend = None, so_mount = [], so_unmount = [], so_noMounts = True\<rparr>"

theorem validate_keeps_ranges_witness:
  "\<exists>c. validate demo_flags demo_set_opts machine_defaults = Inr c \<and> change_ok machine_defaults c \<and>
    arc_fits (arc_after machine_defaults c) (memory_after machine_defaults c)"
proof -
  have "\<exists>c. validate demo_flags demo_set_opts machine_defaults = Inr c"
    by (simp add: validate_def demo_set_opts_def any_change_def flag_def read_shares_def shares_set_def read_cpus_def read_disk_def
        room_above_arc_def min_cpus_def max_cpus_def min_disk_gib_def max_disk_gib_def machine_defaults_def)
  then obtain c where c: "validate demo_flags demo_set_opts machine_defaults = Inr c" ..
  have "arc_fits (mc_arcMiB machine_defaults) (mc_memoryMiB machine_defaults)" by code_simp
  then show ?thesis using validate_keeps_ranges [OF c] c by blast
qed

end
