(* ===== verification/Cli_Init_Laws.thy ===== *)
theory Cli_Init_Laws
  imports Cli_Init Cli_Set_Laws
begin

text \<open>
  The protocol of \<^verbatim>\<open>jm init\<close>, and the record it saves.
\<close>

definition init_record_ok :: "machine \<Rightarrow> bool" where
  "init_record_ok m \<longleftrightarrow> 1 \<le> mc_cpus m \<and> 256 \<le> mc_memoryMiB m \<and> 1 \<le> mc_diskGiB m \<and> 1 \<le> mc_sshPort m \<and> mc_sshPort m \<le> 65535 \<and>
     arc_fits (mc_arcMiB m) (mc_memoryMiB m) \<and> (mc_idleSuspendMin m = 0 \<or> 5 \<le> mc_idleSuspendMin m \<and> mc_idleSuspendMin m \<le> 10080)"

lemma validated_record:
  assumes "init_validate F o1 = Inr v"
  shows "init_record_ok (init_machine name b n r o1 v shares)"
proof -
  obtain arc idle addr where v: "v = (arc, idle, addr)" by (metis surj_pair)
  have s: "init_sizes o1 = None" "init_arc o1 = Inr arc" "init_idle o1 = Inr idle"
    using assms by (auto simp: init_validate_def v split: option.splits sum.splits)
  have z: "1 \<le> io_cpus o1" "256 \<le> io_memory o1" "1 \<le> io_disk o1" "1 \<le> io_sshPort o1" "io_sshPort o1 \<le> 65535"
    using s(1) by (auto simp: init_sizes_def split: if_splits)
  have a: "arc_fits arc (io_memory o1)"
  proof (cases "io_arc o1 = []")
    case True
    then show ?thesis using s(2) z(2) by (auto simp: init_arc_def default_arc_for_def arc_fits_def Let_def default_arc_mib_def min_arc_mib_def)
  next
    case False
    then show ?thesis using s(2) read_arc_range by (auto simp: init_arc_def)
  qed
  have i: "idle = 0 \<or> 5 \<le> idle \<and> idle \<le> 10080"
    using s(3) read_idle_range by (auto simp: init_idle_def default_idle_suspend_min_def split: if_splits)
  show ?thesis using z a i by (simp add: init_record_ok_def init_machine_def v)
qed

lemma real_size_ok: "init_record_ok m \<Longrightarrow> init_record_ok (real_size n (m\<lparr>mc_imageTrusted := t\<rparr>)) \<and>
    mc_imageTrusted (real_size n (m\<lparr>mc_imageTrusted := t\<rparr>)) = t"
  by (auto simp: real_size_def init_record_ok_def split: option.splits)

text \<open>Started, the name seen free, the lock held, the disk missing, fetched but untrusted, there (with whether it is trusted), the seed
  written, the record saved; a stage failed, the name was taken, the lock released (with whether all went well).\<close>

datatype init_phase = IPStart | IPFree | IPHeld | IPNoDisk | IPUnmarked | IPDisk bool | IPSeeded bool | IPSaved | IPFailed | IPTaken | IPOver bool | IPWrong

fun held_init :: "iact \<Rightarrow> init_phase" where
  "held_init (IKey r) = (if r = None then IPHeld else IPFailed)"
| "held_init (IDisk d mark) = (if d then IPDisk (\<not> mark) else IPNoDisk)"
| "held_init IUnlock = IPOver False"
| "held_init _ = IPWrong"

fun no_disk_init :: "iact \<Rightarrow> init_phase" where
  "no_disk_init (IFetch r) = (case r of Inl _ \<Rightarrow> IPFailed | Inr t \<Rightarrow> if t then IPDisk True else IPUnmarked)"
| "no_disk_init _ = IPWrong"

fun unmarked_init :: "iact \<Rightarrow> init_phase" where
  "unmarked_init (IMark r) = (if r = None then IPDisk False else IPFailed)"
| "unmarked_init _ = IPWrong"

fun disk_init :: "bool \<Rightarrow> iact \<Rightarrow> init_phase" where
  "disk_init t (ISeed r) = (if r = None then IPSeeded t else IPFailed)"
| "disk_init t _ = IPWrong"

fun seeded_init :: "bool \<Rightarrow> iact \<Rightarrow> init_phase" where
  "seeded_init t (ISave m r) =
     (if init_record_ok m \<and> mc_imageTrusted m = t then (if r = None then IPSaved else IPFailed) else IPWrong)"
| "seeded_init t _ = IPWrong"

definition on :: "iact \<Rightarrow> init_phase \<Rightarrow> iact \<Rightarrow> init_phase" where
  "on want p a = (if a = want then p else IPWrong)"

fun init_step :: "init_phase \<Rightarrow> iact \<Rightarrow> init_phase" where
  "init_step IPStart a = (if a = IExists False then IPFree else if a = IExists True then IPTaken else IPWrong)"
| "init_step IPFree a = on ILock IPHeld a"
| "init_step IPHeld a = held_init a"
| "init_step IPNoDisk a = no_disk_init a"
| "init_step IPUnmarked a = unmarked_init a"
| "init_step (IPDisk t) a = disk_init t a"
| "init_step (IPSeeded t) a = seeded_init t a"
| "init_step IPSaved a = on IUnlock (IPOver True) a"
| "init_step IPFailed a = on IUnlock (IPOver False) a"
| "init_step _ a = IPWrong"

text \<open>How a run may end: a success with the record saved and the lock released; a failure before the lock, or with the lock released.\<close>

definition init_ends :: "set_err option \<Rightarrow> init_phase \<Rightarrow> bool" where
  "init_ends r q \<longleftrightarrow> (if r = None then q = IPOver True else q \<in> {IPStart, IPFree, IPTaken, IPOver False})"

definition stages_end :: "set_err option \<Rightarrow> init_phase \<Rightarrow> bool" where
  "stages_end r q \<longleftrightarrow> (if r = None then q = IPSaved else q \<in> {IPHeld, IPFailed})"

abbreviation itrail :: "init_phase \<Rightarrow> ('e, iact, 'a) tm \<Rightarrow> ('a \<Rightarrow> init_phase \<Rightarrow> bool) \<Rightarrow> bool" where
  "itrail q p T \<equiv> trail init_step q p T"

lemma itrail_key: "itrail IPHeld (init_key E) (\<lambda>r q. case r of Inl _ \<Rightarrow> q \<in> {IPHeld, IPFailed} | Inr _ \<Rightarrow> q = IPHeld)"
proof -
  have g: "itrail IPHeld (if k then State_Monad.return None else acts IKey (in_keygen E)) (\<lambda>r q. q = (if r = None then IPHeld else IPFailed))" for k
    by (rule trail_if) (auto intro: trail_ret trail_acts)
  show ?thesis unfolding init_key_def
    by (intro trail_then trail_asks trail_weaken [OF g] trail_option trail_ret) (auto split: sum.split)
qed

lemma itrail_disk: "itrail IPHeld (init_disk E name r src) (\<lambda>x q. case x of Inl _ \<Rightarrow> q = IPFailed | Inr t \<Rightarrow> q = IPDisk t)"
  unfolding init_disk_def
  by (intro trail_then trail_asks trail_if trail_emit trail_acts trail_sum trail_ret) (simp_all split: option.split)

lemma itrail_finish:
  assumes "init_record_ok m"
  shows "itrail (IPDisk t) (init_finish E pub m t) stages_end"
proof -
  have "itrail (IPSeeded t) (do {
       let m1 = real_size n (m\<lparr>mc_imageTrusted := t\<rparr>);
       w \<leftarrow> acts (ISave m1) (in_save E m1);
       State_Monad.return (map_option (\<lambda>t. CmdErr (plain_err t)) w) }) stages_end" for n
    unfolding Let_def using real_size_ok [OF assms, of n t]
    by (intro trail_then trail_acts trail_ret) (simp add: stages_end_def)
  then show ?thesis unfolding init_finish_def
    by (intro trail_then trail_asks trail_acts trail_option trail_ret) (simp_all add: stages_end_def)
qed

lemma itrail_stages:
  assumes "init_record_ok m"
  shows "itrail IPHeld (init_stages E r src m) stages_end"
  unfolding init_stages_def
proof (rule trail_bind [OF itrail_key], rule trail_sum)
  fix k :: "string + string" and q t
  assume "case k of Inl _ \<Rightarrow> q \<in> {IPHeld, IPFailed} | Inr _ \<Rightarrow> q = IPHeld" "k = Inl t"
  then show "itrail q (State_Monad.return (Some (CmdErr (plain_err t)))) stages_end"
    by (intro trail_ret) (simp add: stages_end_def)
next
  fix k :: "string + string" and q pub
  assume "case k of Inl _ \<Rightarrow> q \<in> {IPHeld, IPFailed} | Inr _ \<Rightarrow> q = IPHeld" "k = Inr pub"
  then have q: "q = IPHeld" by simp
  have f: "itrail p (case d of Inl e \<Rightarrow> State_Monad.return (Some (CmdErr e)) | Inr trusted \<Rightarrow> init_finish E pub m trusted) stages_end"
    if "case d of Inl _ \<Rightarrow> p = IPFailed | Inr t \<Rightarrow> p = IPDisk t" for d p
    using that itrail_finish [OF assms] by (cases d) (auto intro!: trail_ret simp: stages_end_def)
  show "itrail q (do { d \<leftarrow> init_disk E (mc_name m) r src;
      case d of Inl e \<Rightarrow> State_Monad.return (Some (CmdErr e)) | Inr trusted \<Rightarrow> init_finish E pub m trusted }) stages_end"
    unfolding q by (rule trail_bind [OF itrail_disk]) (rule f)
qed


section \<open>An untrusted image that is remembered as trusted\<close>

text \<open>A host with no disk yet, whose source does not vouch for what it installs and whose directory refuses the mark.\<close>

definition refuses_mark :: "bool init_env" where
  "refuses_mark = \<lparr>in_flags = \<lparr>fh_host = \<lparr>ho_abs = Some, ho_eval = Some, ho_stat = (\<lambda>_. Some True), ho_hash8 = (\<lambda>_. [])\<rparr>, fh_home = Inr [], fh_join = (\<lambda>a b. a @ b),
       fh_parseIP = (\<lambda>_. None)\<rparr>,
     in_is_dir = (\<lambda>_. True), in_temp = [], in_exists = (\<lambda>_ d. (False, d)), in_host = (\<lambda>d. (Inr (''qemu'', ''gvproxy''), d)),
     in_lock = (\<lambda>_ d. (None, d)), in_key = (\<lambda>d. (True, d)), in_keygen = (\<lambda>d. (None, d)), in_pub = (\<lambda>d. (Inr ''key'', d)),
     in_disk = (\<lambda>d. (d, d)), in_mark = (\<lambda>d. (False, d)), in_fetch = (\<lambda>_ d. (Inr False, True)),
     in_set_mark = (\<lambda>_ d. (Some ''no space left on device'', d)), in_disk_bytes = (\<lambda>d. (None, d)), in_seed = (\<lambda>_ _ d. (None, d)),
     in_save = (\<lambda>_ d. (None, d))\<rparr>"

text \<open>Fact (error): an interrupted init can promote an unverified image: the mark that an image was not verified is written only after the
  disk is in place, so when writing it fails (or the process ends between the two), \<^verbatim>\<open>jm init\<close> fails, and the re-run finds a
  disk without a mark and goes on to a record that says trusted, although the only source ever asked did not vouch for it.\<close>

theorem lost_mark_promotes:
  "case run_state (init_disk refuses_mark name r src) (False, []) of
     (Inr _, _) \<Rightarrow> False
   | (Inl _, (e1, l)) \<Rightarrow> l = [IDisk False False, IFetch (Inr False), IMark (Some ''no space left on device'')] \<and>
       result_of (init_disk refuses_mark name r src) e1 = Inr True"
  by (simp add: init_disk_def refuses_mark_def acts_def asks_def emit_def result_of_def State_Monad.bind_def State_Monad.return_def)

section \<open>What rm deletes\<close>

text \<open>\<open>rd_ok\<close> falls when the directory is deleted without the lock, or before the machine is down: a stop that succeeded, or \<open>--force\<close>
  or an unreadable record with the helpers stopped one by one; or before podman and ssh have forgotten a machine that had a
  record.\<close>

record rm_seen =
  rd_locked :: bool
  rd_loaded :: bool
  rd_down :: bool
  rd_sleeper :: bool
  rd_resolver :: bool
  rd_connection :: bool
  rd_forgot :: bool
  rd_deleted :: bool
  rd_ok :: bool

fun rm_judge :: "bool \<Rightarrow> rm_seen \<Rightarrow> ract \<Rightarrow> rm_seen" where
  "rm_judge force k RLock = k\<lparr>rd_locked := True\<rparr>"
| "rm_judge force k (RLoaded b) = k\<lparr>rd_loaded := b\<rparr>"
| "rm_judge force k (RStopped b) = k\<lparr>rd_down := b\<rparr>"
| "rm_judge force k RSleeper = k\<lparr>rd_sleeper := True\<rparr>"
| "rm_judge force k RResolver = k\<lparr>rd_resolver := True\<rparr>"
| "rm_judge force k RConnection = k\<lparr>rd_connection := True\<rparr>"
| "rm_judge force k RForget = k\<lparr>rd_forgot := True\<rparr>"
| "rm_judge force k (RDelete r) =
     k\<lparr>rd_deleted := True, rd_ok := (rd_ok k \<and> rd_locked k \<and>
        (if rd_loaded k then (rd_down k \<or> force \<and> rd_sleeper k \<and> rd_resolver k) \<and> rd_connection k \<and> rd_forgot k
         else rd_sleeper k \<and> rd_resolver k))\<rparr>"
| "rm_judge force k RUnlock = k\<lparr>rd_locked := False\<rparr>"
| "rm_judge force k _ = k"

definition rm_start :: rm_seen where
  "rm_start = \<lparr>rd_locked = False, rd_loaded = False, rd_down = False, rd_sleeper = False, rd_resolver = False, rd_connection = False,
     rd_forgot = False, rd_deleted = False, rd_ok = True\<rparr>"

definition rm_end :: "cerr option \<Rightarrow> rm_seen \<Rightarrow> bool" where
  "rm_end r k \<longleftrightarrow> rd_ok k \<and> \<not> rd_locked k"

lemma trail_do: "T () (rm_judge force k a) \<Longrightarrow> trail (rm_judge force) k (rm_do E m a) T"
  unfolding rm_do_def by (rule trail_acts) simp

lemma trail_when: "(b \<Longrightarrow> trail D k p T) \<Longrightarrow> (\<not> b \<Longrightarrow> T () k) \<Longrightarrow> trail D k (rm_when b p) T"
  unfolding rm_when_def by (auto intro: trail_ret)

lemmas rm_rules = trail_then trail_ret trail_if trail_option trail_sum trail_asks trail_emit trail_acts trail_do trail_when

lemma trail_helpers:
  "trail (rm_judge force) k (rm_helpers E m) (\<lambda>_ k1. k1 = k\<lparr>rd_sleeper := True, rd_resolver := True\<rparr>)"
  unfolding rm_helpers_def by (intro rm_rules) simp_all

lemma trail_delete:
  assumes "rd_ok k" "rd_locked k" and "if rd_loaded k then (rd_down k \<or> force \<and> rd_sleeper k \<and> rd_resolver k) \<and> rd_connection k \<and> rd_forgot k
      else rd_sleeper k \<and> rd_resolver k"
  shows "trail (rm_judge force) k (rm_delete E name m) (\<lambda>_ k1. rd_ok k1 \<and> rd_locked k1)"
  unfolding rm_delete_def rm_clean_def using assms by (intro rm_rules) simp_all

lemma trail_forget:
  "trail (rm_judge force) k (rm_forget E m) (\<lambda>r k1. r = None \<and> k1 = k\<lparr>rd_connection := True, rd_forgot := True\<rparr>)"
  unfolding rm_forget_def by (intro rm_rules) simp_all

lemma trail_unreadable:
  "trail (rm_judge force) k (rm_unreadable E m) (\<lambda>_ k1. k1 = k\<lparr>rd_sleeper := True, rd_resolver := True\<rparr>)"
  unfolding rm_unreadable_def by (intro rm_rules trail_weaken [OF trail_helpers]) simp_all

lemma trail_rm_loaded:
  "trail (rm_judge force) (rm_start\<lparr>rd_locked := True, rd_loaded := True\<rparr>) (rm_loaded E force m)
     (\<lambda>r k1. rd_ok k1 \<and> rd_locked k1 \<and> (r = None \<longrightarrow> rd_loaded k1 \<and> (rd_down k1 \<or> force \<and> rd_sleeper k1 \<and> rd_resolver k1) \<and>
        rd_connection k1 \<and> rd_forgot k1))"
  unfolding rm_loaded_def
  by (intro rm_rules trail_weaken [OF trail_forget] trail_weaken [OF trail_helpers]) (auto simp: rm_start_def)

lemma trail_rm_locked:
  "trail (rm_judge force) (rm_start\<lparr>rd_locked := True\<rparr>) (rm_locked E force name) (\<lambda>_ k. rd_ok k \<and> rd_locked k)"
  unfolding rm_locked_def
proof (rule trail_then, rule trail_acts, rule trail_option)
  fix x :: "machine option" assume "x = None"
  then show "trail (rm_judge force) (rm_judge force (rm_start\<lparr>rd_locked := True\<rparr>) (RLoaded (x \<noteq> None)))
      (do { _ \<leftarrow> rm_unreadable E (rn_bare E name); rm_delete E name (rn_bare E name) }) (\<lambda>_ k. rd_ok k \<and> rd_locked k)"
    by (intro trail_bind [OF trail_unreadable] trail_delete) (auto simp: rm_start_def)
next
  fix x :: "machine option" and m assume x: "x = Some m"
  have d: "trail (rm_judge force) k (case r of Some e \<Rightarrow> State_Monad.return (Some e) | None \<Rightarrow> rm_delete E name m) (\<lambda>_ k. rd_ok k \<and> rd_locked k)"
    if "rd_ok k \<and> rd_locked k \<and> (r = None \<longrightarrow> rd_loaded k \<and> (rd_down k \<or> force \<and> rd_sleeper k \<and> rd_resolver k) \<and> rd_connection k \<and> rd_forgot k)"
    for k and r :: "cerr option"
    using that by (cases r) (auto intro!: trail_ret trail_delete)
  have "rm_judge force (rm_start\<lparr>rd_locked := True\<rparr>) (RLoaded (x \<noteq> None)) = rm_start\<lparr>rd_locked := True, rd_loaded := True\<rparr>"
    by (simp add: x)
  then show "trail (rm_judge force) (rm_judge force (rm_start\<lparr>rd_locked := True\<rparr>) (RLoaded (x \<noteq> None)))
      (do { r \<leftarrow> rm_loaded E force m; case r of Some e \<Rightarrow> State_Monad.return (Some e) | None \<Rightarrow> rm_delete E name m }) (\<lambda>_ k. rd_ok k \<and> rd_locked k)"
    using trail_bind [OF trail_rm_loaded d] by simp
qed


end
