(* ===== verification/Procx.thy ===== *)
theory Procx
  imports Trace GoLib
begin

text \<open>
  Signalling and watching helper processes (\<^verbatim>\<open>internal/procx/procx.go\<close>), for the providers and helpers that start them. The kernel
  is an environment that answers; the trace holds every signal sent, every process spawned, every file written, renamed or
  removed, and what the program learned before it did so (\<open>PKnow\<close>). Files are named by tags \<open>'f\<close>.
\<close>

datatype psig = SIGTERM | SIGKILL

datatype ('f, 'k) pact = PSignal int psig | PSpawned int | PRemove 'f | PWrite 'f string | PRename 'f 'f | PKnow 'k

text \<open>What \<^verbatim>\<open>kill\<close> answers: done, no permission, another error.\<close>

datatype kill_ans = KillOk | KillPerm | KillErr string

text \<open>\<open>pe_probe\<close> is \<^verbatim>\<open>kill -0\<close>; \<open>pe_late\<close> whether the deadline of a wait has passed, \<open>pe_done\<close> whether its context is done.\<close>

record 'e penv =
  pe_self :: int
  pe_group :: int
  pe_kill :: "int \<Rightarrow> psig \<Rightarrow> 'e \<Rightarrow> kill_ans \<times> 'e"
  pe_probe :: "int \<Rightarrow> 'e \<Rightarrow> kill_ans \<times> 'e"
  pe_zombie :: "int \<Rightarrow> 'e \<Rightarrow> bool \<times> 'e"
  pe_getpgid :: "int \<Rightarrow> 'e \<Rightarrow> int option \<times> 'e"
  pe_late :: "'e \<Rightarrow> bool \<times> 'e"
  pe_done :: "'e \<Rightarrow> bool \<times> 'e"

type_synonym ('e, 'f, 'k, 'a) pm = "('e, ('f, 'k) pact, 'a) tm"

definition send_signal :: "'e penv \<Rightarrow> int \<Rightarrow> psig \<Rightarrow> ('e, 'f, 'k, kill_ans) pm" where
  "send_signal P pid s = acts (\<lambda>_. PSignal pid s) (pe_kill P pid s)"

definition proc_alive :: "'e penv \<Rightarrow> int \<Rightarrow> ('e, 'f, 'k, bool) pm" where
  "proc_alive P pid =
     (if pid \<le> 0 then State_Monad.return False
      else do {
        r \<leftarrow> asks (pe_probe P pid);
        case r of
          KillErr _ \<Rightarrow> State_Monad.return False
        | _ \<Rightarrow> do { z \<leftarrow> asks (pe_zombie P pid); State_Monad.return (\<not> z) } })"

text \<open>\<open>n\<close>: the polls the timeout leaves.\<close>

fun wait_exit :: "nat \<Rightarrow> 'e penv \<Rightarrow> int \<Rightarrow> ('e, 'f, 'k, bool) pm" where
  "wait_exit 0 P pid = do { a \<leftarrow> proc_alive P pid; State_Monad.return (\<not> a) }"
| "wait_exit (Suc n) P pid = do {
     a \<leftarrow> proc_alive P pid;
     if \<not> a then State_Monad.return True
     else do {
       l \<leftarrow> asks (pe_late P);
       if l then State_Monad.return False
       else do {
         d \<leftarrow> asks (pe_done P);
         if d then do { b \<leftarrow> proc_alive P pid; State_Monad.return (\<not> b) } else wait_exit n P pid } } }"

datatype sig_err = BadPid | ErrSelf | KillFailed string

definition signal_one :: "'e penv \<Rightarrow> int \<Rightarrow> psig \<Rightarrow> ('e, 'f, 'k, sig_err option) pm" where
  "signal_one P pid s = do {
     r \<leftarrow> send_signal P pid s;
     State_Monad.return (case r of KillOk \<Rightarrow> None | KillPerm \<Rightarrow> Some (KillFailed ''operation not permitted'') | KillErr t \<Rightarrow> Some (KillFailed t)) }"

definition signal_group :: "'e penv \<Rightarrow> int \<Rightarrow> psig \<Rightarrow> ('e, 'f, 'k, sig_err option) pm" where
  "signal_group P pid s =
     (if pid \<le> 0 then State_Monad.return (Some BadPid)
      else if pid = pe_self P then State_Monad.return (Some ErrSelf)
      else do {
        g \<leftarrow> asks (pe_getpgid P pid);
        case g of
          None \<Rightarrow> signal_one P pid s
        | Some pgid \<Rightarrow>
            (if pgid > 1 \<and> pgid \<noteq> pe_group P
             then do { r \<leftarrow> send_signal P (- pgid) s; if r = KillOk then State_Monad.return None else signal_one P pid s }
             else signal_one P pid s) })"

text \<open>The pid a launch prints.\<close>

definition launched :: "string + string \<Rightarrow> string + int" where
  "launched out =
     (case out of
        Inl t \<Rightarrow> Inl (''procx: launching: '' @ t)
      | Inr text1 \<Rightarrow>
          (case atoi (trim_space text1) of
             Some pid \<Rightarrow> (if pid \<le> 0 then Inl (''procx: launching: no pid from the launcher ('' @ quote (trim_space text1) @ '')'') else Inr pid)
           | None \<Rightarrow> Inl (''procx: launching: no pid from the launcher ('' @ quote (trim_space text1) @ '')'')))"

section \<open>Laws\<close>

text \<open>Watching sends nothing.\<close>

lemma trail_alive: "(\<And>a. T a q) \<Longrightarrow> trail D q (proc_alive P pid) T"
  unfolding proc_alive_def by (intro trail_rules) (auto intro!: trail_rules split: kill_ans.split)

lemma trail_wait_exit: "(\<And>a. T a q) \<Longrightarrow> trail D q (wait_exit n P pid) T"
proof (induction n)
  case (Suc n)
  then show ?case by (auto intro!: trail_rules trail_alive)
qed (auto intro!: trail_rules trail_alive)

lemma trail_signal: "(\<And>r. T r (D q (PSignal pid s))) \<Longrightarrow> trail D q (send_signal P pid s) T"
  unfolding send_signal_def by (rule trail_acts)

text \<open>Which targets a signal may have: the process, or a group that is neither everyone's nor the caller's.\<close>

fun fair_signal :: "'e penv \<Rightarrow> int \<Rightarrow> bool \<Rightarrow> ('f, 'k) pact \<Rightarrow> bool" where
  "fair_signal P pid ok (PSignal t s) =
     (ok \<and> (t = pid \<or> t < -1 \<and> t \<noteq> - pe_group P) \<and> pid > 0 \<and> pid \<noteq> pe_self P)"
| "fair_signal P pid ok _ = ok"

text \<open>Fact (safety): signalling a helper's group never hits the caller: whatever the kernel answers, every signal goes to the process named
  or to a process group other than init's, every process's and the caller's own, and none is sent when the process named
  is the caller itself.\<close>

theorem signal_group_spares_caller:
  "foldl (fair_signal P pid) True (trace_of (signal_group P pid s) e)"
proof -
  have "trail (fair_signal P pid) True (signal_group P pid s) (\<lambda>_ ok. ok)"
    unfolding signal_group_def signal_one_def by (auto intro!: trail_rules trail_signal split: kill_ans.split)
  then show ?thesis by (rule trailD)
qed

end
