(* ===== verification/Gvproxy.thy ===== *)
theory Gvproxy
  imports Procx Qemu_Suspend
begin

text \<open>
  The gvproxy provider as a process (\<^verbatim>\<open>internal/netprov/gvproxy/gvproxy.go\<close>, \<^verbatim>\<open>process.go\<close>, \<^verbatim>\<open>forward.go\<close>): its argument vector, its
  state from the pid file and the process behind it, starting, stopping and parking it, and the ssh forward that serves
  \<^verbatim>\<open>podman.sock\<close>. The file system and the process table are an environment that answers every question as it pleases, so
  anything may happen between two of them; the trace holds the signals, the files touched and the answers the code acts on.
\<close>

section \<open>Arguments and state\<close>

datatype gfile = FNet | FApi | FPid | FPodman | FBeside | FFwdPid | FFwdIno

record gpaths =
  gp_net :: string
  gp_api :: string
  gp_podman :: string
  gp_key :: string
  gp_pid :: string
  gp_log :: string
  gp_fwdSock :: string

definition default_mtu :: int where "default_mtu = 9000"
definition max_mtu :: int where "max_mtu = 16384"

text \<open>\<open>v0\<close> is \<^verbatim>\<open>$JM_MTU\<close>, empty when unset.\<close>

definition gv_mtu :: "string \<Rightarrow> int" where
  "gv_mtu v0 =
     (case atoi (trim_space v0) of
        None \<Rightarrow> default_mtu
      | Some v \<Rightarrow> (if v < 576 then default_mtu else if v > max_mtu then max_mtu else v))"

definition gv_args :: "string \<Rightarrow> machine \<Rightarrow> gpaths \<Rightarrow> string list" where
  "gv_args v0 m p =
     (let mtu = (if mc_mtu m \<le> 0 then gv_mtu v0 else mc_mtu m) in
      [''-listen-qemu'', ''unix://'' @ gp_net p, ''-listen'', ''unix://'' @ gp_api p, ''-ssh-port'', itoa (mc_sshPort m),
       ''-pid-file'', gp_pid p, ''-log-file'', gp_log p, ''-mtu'', itoa mtu])"

definition gv_ours :: "gpaths \<Rightarrow> string \<Rightarrow> bool" where
  "gv_ours p argv \<longleftrightarrow> contains argv ''gvproxy'' \<and> contains argv (''unix://'' @ gp_api p)"

definition fwd_ours :: "gpaths \<Rightarrow> string \<Rightarrow> bool" where
  "fwd_ours p argv \<longleftrightarrow> contains argv ''ssh'' \<and> (contains argv (gp_fwdSock p @ '':'') \<or> contains argv (gp_podman p @ '':''))"

text \<open>A file that is not there, cannot be read, or holds a text.\<close>

datatype text_file = NoFile | Unreadable string | Text string

datatype pid_read = GPidNone | GPidBad string | GPidIs int

definition gv_read_pid :: "text_file \<Rightarrow> pid_read" where
  "gv_read_pid f =
     (case f of
        NoFile \<Rightarrow> GPidNone
      | Unreadable t \<Rightarrow> GPidBad t
      | Text t \<Rightarrow>
          (case atoi (trim_space t) of
             None \<Rightarrow> GPidBad (''gvproxy: bad pid file: '' @ quote (trim_space t))
           | Some pid \<Rightarrow> (if pid \<le> 0 then GPidBad (''gvproxy: bad pid file: '' @ quote (trim_space t)) else GPidIs pid)))"

text \<open>\<^verbatim>\<open>ParseUint\<close>: digits only, at most 64 bits.\<close>

definition read_inode :: "text_file \<Rightarrow> nat option" where
  "read_inode f =
     (case f of
        Text t \<Rightarrow>
          (let s = trim_space t in
           if s \<noteq> [] \<and> list_all is_digit s \<and> digits_val s < 2 ^ 64 then Some (digits_val s) else None)
      | _ \<Rightarrow> None)"

text \<open>What the code learned: a pid recognised as gvproxy's or as the forward's, the recorded inode, the inode at \<^verbatim>\<open>podman.sock\<close>, and
  whether a socket is there.\<close>

datatype gknow = KGvproxy int | KForward int | KRecorded "nat option" | KThere "nat option" | KSocket bool

record 'e genv =
  ge_proc :: "'e penv"
  ge_paths :: gpaths
  ge_mtuEnv :: string
  ge_pidfile :: "'e \<Rightarrow> text_file \<times> 'e"
  ge_fwdpid :: "'e \<Rightarrow> text_file \<times> 'e"
  ge_fwdino :: "'e \<Rightarrow> text_file \<times> 'e"
  ge_command :: "int \<Rightarrow> 'e \<Rightarrow> string \<times> 'e"
  ge_inode :: "'e \<Rightarrow> nat option \<times> 'e"
  ge_socket :: "gfile \<Rightarrow> 'e \<Rightarrow> nat option \<times> 'e"
  ge_answers :: "gfile \<Rightarrow> 'e \<Rightarrow> bool \<times> 'e"
  ge_exists :: "gfile \<Rightarrow> 'e \<Rightarrow> bool \<times> 'e"
  ge_remove :: "gfile \<Rightarrow> 'e \<Rightarrow> string option \<times> 'e"
  ge_write :: "gfile \<Rightarrow> 'e \<Rightarrow> string option \<times> 'e"
  ge_rename :: "'e \<Rightarrow> string option \<times> 'e"
  ge_binary :: "'e \<Rightarrow> (string + string) \<times> 'e"
  ge_ssh :: "'e \<Rightarrow> (string + string) \<times> 'e"
  ge_key :: "'e \<Rightarrow> string option \<times> 'e"
  ge_launch :: "string list \<Rightarrow> 'e \<Rightarrow> (string + string) \<times> 'e"
  ge_tail :: "'e \<Rightarrow> string \<times> 'e"

type_synonym ('e, 'a) gm = "('e, gfile, gknow, 'a) pm"

definition know :: "gknow \<Rightarrow> ('e, unit) gm" where
  "know k = emit (PKnow k)"

text \<open>\<^verbatim>\<open>errors.Join\<close>.\<close>

definition join_texts :: "string option list \<Rightarrow> string option" where
  "join_texts es = (let ts = List.map_filter id es in if ts = [] then None else Some (join [CHR 0x0A] ts))"

text \<open>\<open>ge_remove\<close>: the error of \<^verbatim>\<open>os.Remove\<close>, none for a file that is not there.\<close>

fun remove_files :: "'e genv \<Rightarrow> gfile list \<Rightarrow> ('e, string option list) gm" where
  "remove_files G [] = State_Monad.return []"
| "remove_files G (f # fs) = do { r \<leftarrow> acts (\<lambda>_. PRemove f) (ge_remove G f); rs \<leftarrow> remove_files G fs; State_Monad.return (r # rs) }"

definition gv_remove_all :: "'e genv \<Rightarrow> gfile list \<Rightarrow> ('e, string option) gm" where
  "gv_remove_all G fs = do { rs \<leftarrow> remove_files G fs; State_Monad.return (join_texts rs) }"

definition remove_runtime :: "'e genv \<Rightarrow> ('e, string option) gm" where
  "remove_runtime G = gv_remove_all G [FNet, FApi, FPid]"

text \<open>\<^verbatim>\<open>State\<close>: running only while the pid file names a gvproxy started for our API socket.\<close>

definition gv_state :: "'e genv \<Rightarrow> ('e, bstate) gm" where
  "gv_state G = do {
     f \<leftarrow> asks (ge_pidfile G);
     case gv_read_pid f of
       GPidNone \<Rightarrow> State_Monad.return Stopped
     | GPidBad _ \<Rightarrow> State_Monad.return Broken
     | GPidIs pid \<Rightarrow> do {
         c \<leftarrow> asks (ge_command G pid);
         if gv_ours (ge_paths G) c then do { know (KGvproxy pid); State_Monad.return Running } else State_Monad.return Broken } }"

section \<open>The forward of podman.sock\<close>

definition forward_alive :: "'e genv \<Rightarrow> ('e, int option) gm" where
  "forward_alive G = do {
     f \<leftarrow> asks (ge_fwdpid G);
     case gv_read_pid f of
       GPidIs pid \<Rightarrow> do {
         c \<leftarrow> asks (ge_command G pid);
         if fwd_ours (ge_paths G) c then do { know (KForward pid); State_Monad.return (Some pid) } else State_Monad.return None }
     | _ \<Rightarrow> State_Monad.return None }"

definition recorded_inode :: "'e genv \<Rightarrow> ('e, nat option) gm" where
  "recorded_inode G = do { f \<leftarrow> asks (ge_fwdino G); know (KRecorded (read_inode f)); State_Monad.return (read_inode f) }"

definition podman_inode :: "'e genv \<Rightarrow> ('e, nat option) gm" where
  "podman_inode G = acts (\<lambda>x. PKnow (KThere x)) (ge_inode G)"

definition podman_is_socket :: "'e genv \<Rightarrow> ('e, bool) gm" where
  "podman_is_socket G = do { s \<leftarrow> asks (ge_socket G FPodman); know (KSocket (s \<noteq> None)); State_Monad.return (s \<noteq> None) }"

definition stop_turns :: nat where "stop_turns = polls 10000 50"

text \<open>SIGTERM, wait, SIGKILL, wait; \<open>what\<close> names the process in an error. \<open>None\<close>: it has exited.\<close>

definition gv_end_process :: "'e genv \<Rightarrow> string \<Rightarrow> int \<Rightarrow> ('e, string option) gm" where
  "gv_end_process G what pid = do {
     r \<leftarrow> send_signal (ge_proc G) pid SIGTERM;
     a \<leftarrow> (if r = KillOk then State_Monad.return False else proc_alive (ge_proc G) pid);
     if a then State_Monad.return (Some (''gvproxy: SIGTERM '' @ what @ ''pid '' @ itoa pid))
     else do {
       x \<leftarrow> wait_exit stop_turns (ge_proc G) pid;
       if x then State_Monad.return None
       else do {
         _ \<leftarrow> send_signal (ge_proc G) pid SIGKILL;
         y \<leftarrow> wait_exit stop_turns (ge_proc G) pid;
         State_Monad.return (if y then None else Some (''gvproxy: '' @ what @ ''pid '' @ itoa pid @ '' did not exit after SIGKILL'')) } } }"

text \<open>Whose socket it is: the one recorded, the one of a helper of before inodes were recorded, or no socket at all.\<close>

definition may_remove :: "nat option \<Rightarrow> bool \<Rightarrow> nat option \<Rightarrow> bool \<Rightarrow> bool" where
  "may_remove want killed cur is_socket \<longleftrightarrow>
     cur \<noteq> None \<and> ((want \<noteq> None \<and> cur = want) \<or> (want = None \<and> killed) \<or> \<not> is_socket)"

definition drop_socket :: "'e genv \<Rightarrow> bool \<Rightarrow> ('e, string option) gm" where
  "drop_socket G killed = do {
     want \<leftarrow> recorded_inode G;
     cur \<leftarrow> podman_inode G;
     s \<leftarrow> podman_is_socket G;
     if may_remove want killed cur s then gv_remove_all G [FPodman] else State_Monad.return None }"

definition stop_forward :: "'e genv \<Rightarrow> bool \<Rightarrow> ('e, string option) gm" where
  "stop_forward G keep = do {
     live \<leftarrow> forward_alive G;
     e \<leftarrow> (case live of None \<Rightarrow> State_Monad.return None | Some pid \<Rightarrow> gv_end_process G ''forward '' pid);
     case e of
       Some t \<Rightarrow> State_Monad.return (Some t)
     | None \<Rightarrow> do {
         a \<leftarrow> (if keep then State_Monad.return None else drop_socket G (live \<noteq> None));
         b \<leftarrow> gv_remove_all G [FBeside, FFwdPid, FFwdIno];
         State_Monad.return (join_texts [a, b]) } }"

definition forward_turns :: nat where "forward_turns = polls 10000 20"

fun wait_new_socket :: "nat \<Rightarrow> 'e genv \<Rightarrow> int \<Rightarrow> ('e, string + nat) gm" where
  "wait_new_socket n G pid = do {
     s \<leftarrow> asks (ge_socket G FBeside);
     up \<leftarrow> (if s \<noteq> None then asks (ge_answers G FBeside) else State_Monad.return False);
     case (if up then s else None) of
       Some ino \<Rightarrow> State_Monad.return (Inr ino)
     | None \<Rightarrow> do {
         a \<leftarrow> proc_alive (ge_proc G) pid;
         if \<not> a then State_Monad.return (Inl ''exited before serving the socket'')
         else (case n of
                 0 \<Rightarrow> State_Monad.return (Inl ''timed out waiting for a new socket'')
               | Suc k \<Rightarrow> do {
                   l \<leftarrow> asks (pe_late (ge_proc G));
                   if l then State_Monad.return (Inl ''timed out waiting for a new socket'')
                   else do {
                     d \<leftarrow> asks (pe_done (ge_proc G));
                     if d then State_Monad.return (Inl ''context canceled'') else wait_new_socket k G pid } }) } }"

declare wait_new_socket.simps [simp del]

text \<open>The helper's own end after a failure: its files only.\<close>

definition fail_forward :: "'e genv \<Rightarrow> int \<Rightarrow> string \<Rightarrow> ('e, string option) gm" where
  "fail_forward G pid t = do {
     a \<leftarrow> proc_alive (ge_proc G) pid;
     (if a then do { _ \<leftarrow> send_signal (ge_proc G) pid SIGKILL; _ \<leftarrow> wait_exit stop_turns (ge_proc G) pid; State_Monad.return () }
      else State_Monad.return ());
     _ \<leftarrow> gv_remove_all G [FBeside, FFwdPid, FFwdIno];
     log1 \<leftarrow> asks (ge_tail G);
     State_Monad.return (Some (''gvproxy: podman socket forward: '' @ t @ '': '' @ log1)) }"

definition ssh_args :: "string \<Rightarrow> int \<Rightarrow> string \<Rightarrow> string \<Rightarrow> string list \<Rightarrow> string list" where
  "ssh_args host1 port user ident args =
     [''-i'', ident, ''-o'', ''IdentitiesOnly=yes'', ''-o'', ''StrictHostKeyChecking=no'', ''-o'', ''UserKnownHostsFile=/dev/null'',
      ''-o'', ''LogLevel=ERROR'', ''-o'', ''ConnectTimeout=3'', ''-p'', itoa port, user @ ''@'' @ host1] @ args"

definition ssh_forward_args :: "string \<Rightarrow> int \<Rightarrow> string \<Rightarrow> string \<Rightarrow> string \<Rightarrow> string \<Rightarrow> string list" where
  "ssh_forward_args host1 port user ident local remote =
     (let base = ssh_args host1 port user ident [] in
      butlast base @
      [''-N'', ''-n'', ''-T'', ''-o'', ''ExitOnForwardFailure=yes'', ''-o'', ''StreamLocalBindUnlink=yes'', ''-o'', ''ServerAliveInterval=15'',
       ''-o'', ''ServerAliveCountMax=4'', ''-L'', local @ '':'' @ remote] @ [last base])"

definition forward_args :: "machine \<Rightarrow> gpaths \<Rightarrow> string list" where
  "forward_args m p =
     ssh_forward_args ''127.0.0.1'' (mc_sshPort m) (mc_sshUser m) (gp_key p) (gp_fwdSock p) ''/var/run/podman/podman.sock''"

definition spawn :: "'e genv \<Rightarrow> string \<Rightarrow> string list \<Rightarrow> ('e, string + int) gm" where
  "spawn G bin args = do {
     out \<leftarrow> asks (ge_launch G (bin # args));
     case launched out of
       Inl t \<Rightarrow> State_Monad.return (Inl t)
     | Inr pid \<Rightarrow> do { emit (PSpawned pid); State_Monad.return (Inr pid) } }"

text \<open>Whether the forward that runs already serves the socket it bound.\<close>

definition forward_serves :: "'e genv \<Rightarrow> ('e, bool) gm" where
  "forward_serves G = do {
     live \<leftarrow> forward_alive G;
     if live = None then State_Monad.return False
     else do {
       want \<leftarrow> recorded_inode G;
       cur \<leftarrow> asks (ge_socket G FPodman);
       if cur \<noteq> None \<and> want \<noteq> None \<and> cur = want then asks (ge_answers G FPodman) else State_Monad.return False } }"

text \<open>The launched helper: its pid file, its socket beside the path, the rename over it, the inode's record.\<close>

definition serve_socket :: "'e genv \<Rightarrow> int \<Rightarrow> ('e, string option) gm" where
  "serve_socket G pid = do {
     w \<leftarrow> acts (\<lambda>_. PWrite FFwdPid (itoa pid)) (ge_write G FFwdPid);
     case w of
       Some t \<Rightarrow> do { _ \<leftarrow> send_signal (ge_proc G) pid SIGKILL; State_Monad.return (Some (''gvproxy: writing: '' @ t)) }
     | None \<Rightarrow> do {
         r \<leftarrow> wait_new_socket forward_turns G pid;
         case r of
           Inl t \<Rightarrow> fail_forward G pid t
         | Inr ino \<Rightarrow> do {
             n \<leftarrow> acts (\<lambda>_. PRename FBeside FPodman) (ge_rename G);
             case n of
               Some t \<Rightarrow> fail_forward G pid t
             | None \<Rightarrow> do {
                 i \<leftarrow> acts (\<lambda>_. PWrite FFwdIno (nat_digits ino)) (ge_write G FFwdIno);
                 State_Monad.return (map_option (\<lambda>t. ''gvproxy: writing: '' @ t) i) } } } }"

definition start_forward :: "'e genv \<Rightarrow> machine \<Rightarrow> ('e, string option) gm" where
  "start_forward G m = do {
     up \<leftarrow> forward_serves G;
     if up then State_Monad.return None
     else do {
       _ \<leftarrow> stop_forward G False;
       b \<leftarrow> asks (ge_ssh G);
       case b of
         Inl t \<Rightarrow> State_Monad.return (Some (''gvproxy: ssh binary not found for the podman socket forward: '' @ t))
       | Inr bin \<Rightarrow> do {
           l \<leftarrow> gv_remove_all G [FBeside];
           case l of
             Some t \<Rightarrow> State_Monad.return (Some (''gvproxy: '' @ t))
           | None \<Rightarrow> do {
               s \<leftarrow> spawn G bin (forward_args m (ge_paths G));
               case s of
                 Inl t \<Rightarrow> State_Monad.return (Some (''gvproxy: starting podman socket forward: '' @ t))
               | Inr pid \<Rightarrow> serve_socket G pid } } } }"

section \<open>The provider\<close>

definition gv_repair :: "'e genv \<Rightarrow> ('e, string option) gm" where
  "gv_repair G = do { a \<leftarrow> stop_forward G False; b \<leftarrow> remove_runtime G; State_Monad.return (join_texts [a, b]) }"

text \<open>The leftover of a dead forward, before gvproxy starts.\<close>

definition leftover_gone :: "nat option \<Rightarrow> nat option \<Rightarrow> bool \<Rightarrow> bool" where
  "leftover_gone cur want is_socket \<longleftrightarrow> (want \<noteq> None \<and> cur = want) \<or> \<not> is_socket"

definition remove_leftover :: "'e genv \<Rightarrow> ('e, string option) gm" where
  "remove_leftover G = do {
     live \<leftarrow> forward_alive G;
     if live \<noteq> None then State_Monad.return None
     else do {
       cur \<leftarrow> podman_inode G;
       if cur = None then gv_remove_all G [FFwdIno]
       else do {
         want \<leftarrow> recorded_inode G;
         s \<leftarrow> podman_is_socket G;
         if leftover_gone cur want s then gv_remove_all G [FPodman, FFwdIno] else State_Monad.return None } } }"

definition start_poll_turns :: nat where "start_poll_turns = polls 10000 100"

fun wait_sockets :: "nat \<Rightarrow> 'e genv \<Rightarrow> int \<Rightarrow> ('e, string option) gm" where
  "wait_sockets n G pid = do {
     a \<leftarrow> asks (ge_exists G FNet);
     b \<leftarrow> (if a then asks (ge_exists G FApi) else State_Monad.return False);
     if a \<and> b then State_Monad.return None
     else do {
       l \<leftarrow> proc_alive (ge_proc G) pid;
       if \<not> l then State_Monad.return (Some (''exited before creating '' @ (if a then ''api.sock'' else ''net.sock'')))
       else (case n of
               0 \<Rightarrow> State_Monad.return (Some (''timed out waiting for '' @ (if a then ''api.sock'' else ''net.sock'')))
             | Suc k \<Rightarrow> do {
                 t \<leftarrow> asks (pe_late (ge_proc G));
                 if t then State_Monad.return (Some (''timed out waiting for '' @ (if a then ''api.sock'' else ''net.sock'')))
                 else do {
                   d \<leftarrow> asks (pe_done (ge_proc G));
                   if d then State_Monad.return (Some ''context canceled'') else wait_sockets k G pid } }) } }"

declare wait_sockets.simps [simp del]

text \<open>A gvproxy just launched.\<close>

definition gv_launched :: "'e genv \<Rightarrow> int \<Rightarrow> ('e, string option) gm" where
  "gv_launched G pid = do {
     w \<leftarrow> wait_sockets start_poll_turns G pid;
     case w of
       Some t \<Rightarrow> do {
         a \<leftarrow> proc_alive (ge_proc G) pid;
         (if a then do { _ \<leftarrow> send_signal (ge_proc G) pid SIGKILL; _ \<leftarrow> wait_exit stop_turns (ge_proc G) pid; State_Monad.return () }
          else State_Monad.return ());
         _ \<leftarrow> remove_runtime G;
         log1 \<leftarrow> asks (ge_tail G);
         State_Monad.return (Some (''gvproxy: '' @ t @ '': '' @ log1)) }
     | None \<Rightarrow> do {
         f \<leftarrow> asks (ge_pidfile G);
         case gv_read_pid f of
           GPidIs _ \<Rightarrow> State_Monad.return None
         | _ \<Rightarrow> do {
             e \<leftarrow> acts (\<lambda>_. PWrite FPid (itoa pid)) (ge_write G FPid);
             State_Monad.return (map_option (\<lambda>t. ''gvproxy: writing: '' @ t) e) } } }"

definition max_socket_path :: nat where "max_socket_path = 103"

definition path_too_long :: "gpaths \<Rightarrow> string option" where
  "path_too_long p =
     map_option (\<lambda>s. ''gvproxy: socket path '' @ quote s @ '' is '' @ nat_digits (length s) @ '' bytes; unix sockets are limited to '' @
         nat_digits max_socket_path @ '' (use a shorter --state-root or $TMPDIR)'')
       (List.find (\<lambda>s. length s > max_socket_path) [gp_net p, gp_api p, gp_podman p])"

definition gv_boot :: "'e genv \<Rightarrow> machine \<Rightarrow> ('e, string option) gm" where
  "gv_boot G m = do {
     b \<leftarrow> asks (ge_binary G);
     case b of
       Inl t \<Rightarrow> State_Monad.return (Some t)
     | Inr bin \<Rightarrow> do {
         k \<leftarrow> asks (ge_key G);
         case k of
           Some t \<Rightarrow> State_Monad.return (Some (''gvproxy: ssh identity missing (run '' @ CHR 0x27 # ''jm init'' @ CHR 0x27 # ''): '' @ t))
         | None \<Rightarrow>
             (case path_too_long (ge_paths G) of
                Some t \<Rightarrow> State_Monad.return (Some t)
              | None \<Rightarrow> do {
                  r \<leftarrow> remove_runtime G;
                  l \<leftarrow> remove_leftover G;
                  case join_texts [r, l] of
                    Some t \<Rightarrow> State_Monad.return (Some (''gvproxy: removing stale sockets: '' @ t))
                  | None \<Rightarrow> do {
                      s \<leftarrow> spawn G bin (gv_args (ge_mtuEnv G) m (ge_paths G));
                      case s of
                        Inl t \<Rightarrow> State_Monad.return (Some (''gvproxy: failed to start: '' @ t))
                      | Inr pid \<Rightarrow> gv_launched G pid } }) } }"

definition gv_start :: "'e genv \<Rightarrow> machine \<Rightarrow> ('e, string option) gm" where
  "gv_start G m = do {
     st \<leftarrow> gv_state G;
     if st = Running then State_Monad.return None
     else do {
       r \<leftarrow> (if st = Broken then gv_repair G else State_Monad.return None);
       case r of
         Some t \<Rightarrow> State_Monad.return (Some (''gvproxy: repairing stale state: '' @ t))
       | None \<Rightarrow> gv_boot G m } }"

text \<open>The process the pid file names now; the caller has seen that it was ours.\<close>

definition gv_terminate :: "'e genv \<Rightarrow> ('e, string option) gm" where
  "gv_terminate G = do {
     f \<leftarrow> asks (ge_pidfile G);
     case gv_read_pid f of
       GPidIs pid \<Rightarrow> gv_end_process G [] pid
     | GPidBad t \<Rightarrow> State_Monad.return (Some t)
     | GPidNone \<Rightarrow> State_Monad.return (Some ''no such file or directory'') }"

definition gv_stop :: "'e genv \<Rightarrow> ('e, string option) gm" where
  "gv_stop G = do {
     st \<leftarrow> gv_state G;
     if st \<noteq> Running then gv_repair G
     else do {
       t \<leftarrow> gv_terminate G;
       case t of Some x \<Rightarrow> State_Monad.return (Some x) | None \<Rightarrow> gv_repair G } }"

definition gv_park :: "'e genv \<Rightarrow> ('e, string option) gm" where
  "gv_park G = do {
     st \<leftarrow> gv_state G;
     t \<leftarrow> (if st = Running then gv_terminate G else State_Monad.return None);
     case t of
       Some x \<Rightarrow> State_Monad.return (Some x)
     | None \<Rightarrow> do { a \<leftarrow> stop_forward G True; b \<leftarrow> remove_runtime G; State_Monad.return (join_texts [a, b]) } }"

definition stop_api_forward :: "'e genv \<Rightarrow> ('e, string option) gm" where
  "stop_api_forward G = stop_forward G True"

definition start_api_forward :: "'e genv \<Rightarrow> machine \<Rightarrow> ('e, string option) gm" where
  "start_api_forward G m = do {
     st \<leftarrow> gv_state G;
     if st \<noteq> Running then State_Monad.return (Some ''gvproxy: not running; cannot forward the podman socket'')
     else start_forward G m }"

section \<open>Whose process, whose socket\<close>

text \<open>What the code knows when it acts: the processes it recognised or started, the recorded inode, what is at the path, and whether it
  found a forward alive. \<open>kn_socket_ok\<close> falls when \<^verbatim>\<open>podman.sock\<close> is removed without being the forward's own or no socket,
  \<open>kn_signal_ok\<close> when a process is signalled that was neither recognised nor started here, \<open>kn_kept\<close> when \<^verbatim>\<open>podman.sock\<close> is touched
  at all.\<close>

record known =
  kn_procs :: "int set"
  kn_want :: "nat option"
  kn_cur :: "nat option"
  kn_socket :: bool
  kn_forward :: bool
  kn_socket_ok :: bool
  kn_signal_ok :: bool
  kn_kept :: bool

fun justify :: "known \<Rightarrow> (gfile, gknow) pact \<Rightarrow> known" where
  "justify k (PKnow (KGvproxy pid)) = k\<lparr>kn_procs := insert pid (kn_procs k)\<rparr>"
| "justify k (PKnow (KForward pid)) = k\<lparr>kn_procs := insert pid (kn_procs k), kn_forward := True\<rparr>"
| "justify k (PKnow (KRecorded x)) = k\<lparr>kn_want := x\<rparr>"
| "justify k (PKnow (KThere x)) = k\<lparr>kn_cur := x\<rparr>"
| "justify k (PKnow (KSocket b)) = k\<lparr>kn_socket := b\<rparr>"
| "justify k (PSpawned pid) = k\<lparr>kn_procs := insert pid (kn_procs k)\<rparr>"
| "justify k (PSignal pid s) = k\<lparr>kn_signal_ok := (kn_signal_ok k \<and> pid \<in> kn_procs k)\<rparr>"
| "justify k (PRemove f) =
     (if f = FPodman
      then k\<lparr>kn_socket_ok := (kn_socket_ok k \<and> may_remove (kn_want k) (kn_forward k) (kn_cur k) (kn_socket k)), kn_kept := False\<rparr>
      else k)"
| "justify k (PRename f g) = (if g = FPodman then k\<lparr>kn_kept := False\<rparr> else k)"
| "justify k (PWrite f t) = k"

definition nothing_known :: known where
  "nothing_known = \<lparr>kn_procs = {}, kn_want = None, kn_cur = None, kn_socket = False, kn_forward = False,
     kn_socket_ok = True, kn_signal_ok = True, kn_kept = True\<rparr>"

text \<open>The step from one knowledge to a later one: what is justified stays so, processes known stay known, \<open>kept\<close>: and \<^verbatim>\<open>podman.sock\<close> is not
  touched.\<close>

definition later :: "bool \<Rightarrow> known \<Rightarrow> known \<Rightarrow> bool" where
  "later kept k k1 \<longleftrightarrow> kn_procs k \<subseteq> kn_procs k1 \<and> (kn_forward k \<longrightarrow> kn_forward k1) \<and> (kn_socket_ok k \<longrightarrow> kn_socket_ok k1) \<and>
     (kn_signal_ok k \<longrightarrow> kn_signal_ok k1) \<and> (kept \<longrightarrow> kn_kept k \<longrightarrow> kn_kept k1)"

lemma later_refl [simp]: "later b k k"
  by (simp add: later_def)

lemma later_trans: "later b k k1 \<Longrightarrow> later b k1 k2 \<Longrightarrow> later b k k2"
  by (auto simp: later_def)

lemma later_weaken: "later True k k1 \<Longrightarrow> later b k k1"
  by (auto simp: later_def)

interpretation knowing: growing "later b" justify for b
  by unfold_locales (auto simp: later_def)

abbreviation fair :: "bool \<Rightarrow> known \<Rightarrow> ('e, 'a) gm \<Rightarrow> ('a \<Rightarrow> known \<Rightarrow> bool) \<Rightarrow> bool" where
  "fair b k p Q \<equiv> goes (later b) justify k p Q"

abbreviation fairly :: "bool \<Rightarrow> known \<Rightarrow> ('e, 'a) gm \<Rightarrow> bool" where
  "fairly b k p \<equiv> fair b k p (\<lambda>_ _. True)"

lemma fair_pid: "fair b k p Q \<Longrightarrow> (\<And>t. fair b k (f t) Q) \<Longrightarrow> (\<And>pid. x = GPidIs pid \<Longrightarrow> fair b k (g pid) Q) \<Longrightarrow>
    fair b k (case x of GPidNone \<Rightarrow> p | GPidBad t \<Rightarrow> f t | GPidIs pid \<Rightarrow> g pid) Q"
  by (cases x) auto

lemma fairly_weaken: "fairly True k p \<Longrightarrow> fairly b k p"
  unfolding goes_def by (erule trail_weaken) (auto dest: later_weaken)

lemma fairly_alive: "fairly b k (proc_alive P pid)"
  by (simp add: goes_def trail_alive)

lemma fairly_wait: "fairly b k (wait_exit n P pid)"
  by (simp add: goes_def trail_wait_exit)

lemma fairly_signal: "pid \<in> kn_procs k \<Longrightarrow> fairly b k (send_signal P pid s)"
  unfolding goes_def by (rule trail_signal) (auto simp: later_def)

lemma fair_spawn: "fair b k (spawn G bin args) (\<lambda>r k1. \<forall>pid. r = Inr pid \<longrightarrow> pid \<in> kn_procs k1)"
  unfolding goes_def spawn_def by (auto intro!: trail_rules simp: later_def)

lemma fairly_write: "fairly b k (acts (\<lambda>_. PWrite f t) h)"
  unfolding goes_def by (rule trail_acts) simp

lemma fairly_remove_one: "f \<noteq> FPodman \<Longrightarrow> fairly b k (acts (\<lambda>_. PRemove f) h)"
  unfolding goes_def by (rule trail_acts) simp

lemma fairly_remove_files: "FPodman \<notin> set fs \<Longrightarrow> fairly b k (remove_files G fs)"
  by (induction fs arbitrary: k) (auto intro!: knowing.goes_ret knowing.goes_then fairly_remove_one)

lemma fairly_remove: "FPodman \<notin> set fs \<Longrightarrow> fairly b k (gv_remove_all G fs)"
  unfolding gv_remove_all_def by (auto intro!: knowing.goes_then fairly_remove_files knowing.goes_ret)

lemma fair_forward_alive:
  "fair b k (forward_alive G) (\<lambda>r k1. \<forall>pid. r = Some pid \<longrightarrow> pid \<in> kn_procs k1 \<and> kn_forward k1)"
  unfolding goes_def forward_alive_def know_def
  by (intro trail_rules) (auto intro!: trail_rules simp: later_def split: pid_read.split)

lemma fair_gv_state:
  "fairly b k (gv_state G)"
  unfolding goes_def gv_state_def know_def
  by (intro trail_rules) (auto intro!: trail_rules simp: later_def split: pid_read.split)

lemma later_proc: "later b k k1 \<Longrightarrow> pid \<in> kn_procs k \<Longrightarrow> pid \<in> kn_procs k1"
  by (auto simp: later_def)

lemma later_fwd: "later b k k1 \<Longrightarrow> kn_forward k \<Longrightarrow> kn_forward k1"
  by (auto simp: later_def)

lemmas fair_rules = knowing.goes_then goes_if goes_option goes_sum fair_pid knowing.goes_ret knowing.goes_asks fairly_alive fairly_wait fairly_write fairly_remove

lemma fairly_end: "pid \<in> kn_procs k \<Longrightarrow> fairly b k (gv_end_process G what pid)"
  unfolding gv_end_process_def by (intro fair_rules fairly_signal TrueI; (assumption | (rule later_proc, assumption))+)

text \<open>The removal of \<^verbatim>\<open>podman.sock\<close> is decided by the three reads just before it.\<close>

lemma trail_remove_podman:
  "may_remove (kn_want k) (kn_forward k) (kn_cur k) (kn_socket k) \<Longrightarrow> fairly False k (gv_remove_all G [FPodman])"
  unfolding goes_def gv_remove_all_def remove_files.simps
  by (intro trail_then trail_acts trail_ret) (simp add: later_def)

lemma fairly_drop:
  assumes "killed \<Longrightarrow> kn_forward k"
  shows "fairly False k (drop_socket G killed)"
proof -
  have rm: "trail justify k1 (gv_remove_all G [FPodman]) (\<lambda>_ k2. later False k k2 \<and> True)"
    if "later False k k1" "may_remove (kn_want k1) killed (kn_cur k1) (kn_socket k1)" for k1
  proof (rule trail_weaken [OF trail_remove_podman [unfolded goes_def]])
    show "may_remove (kn_want k1) (kn_forward k1) (kn_cur k1) (kn_socket k1)"
      using that assms later_fwd [of False k k1] by (auto simp: may_remove_def)
  qed (use that later_trans in blast)
  show ?thesis
    unfolding goes_def drop_socket_def recorded_inode_def podman_inode_def podman_is_socket_def know_def
    by (intro trail_then trail_asks trail_emit trail_acts trail_ret trail_if rm) (auto simp: later_def)
qed

lemma fairly_stop_forward: "fairly keep k (stop_forward G keep)"
  unfolding stop_forward_def
proof (rule knowing.goes_bind [OF fair_forward_alive])
  fix live :: "int option" and k1 assume l: "later keep k k1" and live: "\<forall>pid. live = Some pid \<longrightarrow> pid \<in> kn_procs k1 \<and> kn_forward k1"
  have e: "fairly keep k1 (case live of None \<Rightarrow> State_Monad.return None | Some pid \<Rightarrow> gv_end_process G ''forward '' pid)"
    using live by (auto intro!: goes_option knowing.goes_ret fairly_end)
  have d: "fairly keep k2 (if keep then State_Monad.return None else drop_socket G (live \<noteq> None))" if "later keep k1 k2" for k2
    using live later_fwd [OF that] by (auto intro!: knowing.goes_ret fairly_drop)
  show "fairly keep k1 (State_Monad.bind (case live of None \<Rightarrow> State_Monad.return None | Some pid \<Rightarrow> gv_end_process G ''forward '' pid)
    (\<lambda>e. case e of Some t \<Rightarrow> State_Monad.return (Some t)
      | None \<Rightarrow> State_Monad.bind (if keep then State_Monad.return None else drop_socket G (live \<noteq> None))
          (\<lambda>a. State_Monad.bind (gv_remove_all G [FBeside, FFwdPid, FFwdIno]) (\<lambda>b. State_Monad.return (join_texts [a, b])))))"
    by (intro knowing.goes_then goes_option knowing.goes_ret e d fairly_remove) simp_all
qed

lemma fairly_runtime: "fairly b k (remove_runtime G)"
  unfolding remove_runtime_def by (rule fairly_remove) simp

lemma fairly_leftover: "fairly False k (remove_leftover G)"
proof -
  have rm: "trail justify k1 (gv_remove_all G [FPodman, FFwdIno]) (\<lambda>_ k2. later False k k2 \<and> True)"
    if "later False k k1" "may_remove (kn_want k1) False (kn_cur k1) (kn_socket k1)" for k k1
  proof -
    have "fairly False k1 (gv_remove_all G [FPodman, FFwdIno])"
      unfolding goes_def gv_remove_all_def remove_files.simps
      by (intro trail_then trail_acts trail_ret) (use that in \<open>auto simp: later_def may_remove_def\<close>)
    then show ?thesis unfolding goes_def by (rule trail_weaken) (use that later_trans in blast)
  qed
  have ino: "trail justify k1 (gv_remove_all G [FFwdIno]) (\<lambda>_ k2. later False k k2 \<and> True)" if "later False k k1" for k k1
    using fairly_remove [of "[FFwdIno]" False k1 G] that unfolding goes_def by (auto intro: trail_weaken later_trans)
  have rest1: "fairly False k1 (do { cur \<leftarrow> podman_inode G;
      if cur = None then gv_remove_all G [FFwdIno]
      else do { want \<leftarrow> recorded_inode G; s \<leftarrow> podman_is_socket G;
        if leftover_gone cur want s then gv_remove_all G [FPodman, FFwdIno] else State_Monad.return None } })" for k1
    unfolding goes_def recorded_inode_def podman_inode_def podman_is_socket_def know_def
    by (intro trail_then trail_asks trail_emit trail_acts trail_ret trail_if ino rm) (auto simp: later_def may_remove_def leftover_gone_def)
  show ?thesis unfolding remove_leftover_def
    by (rule knowing.goes_bind [OF fair_forward_alive]) (auto intro!: goes_if knowing.goes_ret rest1)
qed

lemma fairly_wait_socket: "fairly b k (wait_new_socket n G pid)"
proof (induction n arbitrary: k)
  case 0
  show ?case by (subst wait_new_socket.simps) (auto intro!: fair_rules)
next
  case (Suc n)
  then show ?case by (subst wait_new_socket.simps) (auto intro!: fair_rules)
qed

lemma fairly_wait_sockets: "fairly b k (wait_sockets n G pid)"
proof (induction n arbitrary: k)
  case 0
  show ?case by (subst wait_sockets.simps) (auto intro!: fair_rules)
next
  case (Suc n)
  then show ?case by (subst wait_sockets.simps) (auto intro!: fair_rules)
qed

lemma fairly_end_if:
  "pid \<in> kn_procs k \<Longrightarrow>
   fairly b k (if a then do { _ \<leftarrow> send_signal P pid SIGKILL; _ \<leftarrow> wait_exit n P pid; State_Monad.return () } else State_Monad.return ())"
  by (auto intro!: fair_rules fairly_signal)

lemma fairly_fail: "pid \<in> kn_procs k \<Longrightarrow> fairly b k (fail_forward G pid t)"
  unfolding fail_forward_def
  by (intro knowing.goes_then fairly_alive fairly_end_if fairly_remove knowing.goes_asks knowing.goes_ret TrueI) (auto intro: later_proc)

lemma fairly_rename: "fairly False k (acts (\<lambda>_. PRename FBeside FPodman) h)"
  unfolding goes_def by (rule trail_acts) (simp add: later_def)

lemma fairly_serve: "pid \<in> kn_procs k \<Longrightarrow> fairly False k (serve_socket G pid)"
  unfolding serve_socket_def
  by (intro knowing.goes_then fairly_write goes_option goes_sum fairly_signal fairly_wait_socket fairly_fail fairly_rename knowing.goes_ret)
    (auto dest: later_proc)

lemma fairly_serves: "fairly b k (forward_serves G)"
proof -
  have r: "fairly b k1 (recorded_inode G)" for k1
    unfolding goes_def recorded_inode_def know_def by (intro trail_rules) (simp add: later_def)
  show ?thesis unfolding forward_serves_def
    by (rule knowing.goes_bind [OF fair_forward_alive]) (intro knowing.goes_then goes_if knowing.goes_ret knowing.goes_asks r TrueI)
qed

lemma fairly_start_forward: "fairly False k (start_forward G m)"
  unfolding start_forward_def
  by (intro knowing.goes_then fairly_serves goes_if knowing.goes_ret fairly_stop_forward knowing.goes_asks goes_sum fairly_remove goes_option
      knowing.goes_bind [OF fair_spawn] TrueI) (auto intro: fairly_serve)

lemma fairly_launched: "pid \<in> kn_procs k \<Longrightarrow> fairly b k (gv_launched G pid)"
  unfolding gv_launched_def
  by (intro knowing.goes_then fairly_wait_sockets goes_option fairly_alive fairly_end_if fairly_runtime knowing.goes_asks knowing.goes_ret fair_pid fairly_write TrueI)
    (auto intro: later_proc)

lemma fairly_repair: "fairly False k (gv_repair G)"
  unfolding gv_repair_def by (intro knowing.goes_then fairly_stop_forward fairly_runtime knowing.goes_ret) simp

lemma fairly_boot: "fairly False k (gv_boot G m)"
  unfolding gv_boot_def
  by (intro knowing.goes_then knowing.goes_asks goes_sum knowing.goes_ret goes_option fairly_runtime fairly_leftover knowing.goes_bind [OF fair_spawn] TrueI)
    (auto intro: fairly_launched)

lemma fairly_start: "fairly False k (gv_start G m)"
  unfolding gv_start_def by (intro knowing.goes_then fair_gv_state goes_if goes_option knowing.goes_ret fairly_repair fairly_boot) simp_all

definition knows :: "('e, 'a) gm \<Rightarrow> 'e \<Rightarrow> known" where
  "knows p e = foldl justify nothing_known (trace_of p e)"

lemma fairD: "fairly b nothing_known p \<Longrightarrow> later b nothing_known (knows p e)"
  unfolding goes_def knows_def by (drule trailD) simp


text \<open>A pid file nobody rewrites while the command runs.\<close>

definition steady_pid :: "'e genv \<Rightarrow> bool" where
  "steady_pid G \<longleftrightarrow> (\<exists>f. \<forall>e. fst (ge_pidfile G e) = f)"

lemma fair_asks_known: "(\<And>e. Q (fst (f e)) k) \<Longrightarrow> fair b k (asks f) Q"
  unfolding goes_def by (rule trail_silent) (simp_all add: asks_def split_beta)

lemma fair_state_known:
  assumes "\<And>e. fst (ge_pidfile G e) = f"
  shows "fair b k (gv_state G) (\<lambda>r k1. r = Running \<longrightarrow> (\<exists>pid. gv_read_pid f = GPidIs pid \<and> pid \<in> kn_procs k1))"
  unfolding gv_state_def
proof (rule knowing.goes_bind)
  show "fair b k (asks (ge_pidfile G)) (\<lambda>x _. x = f)" by (rule fair_asks_known) (simp add: assms)
next
  fix x k1 assume "x = f"
  then show "fair b k1 (case gv_read_pid x of GPidNone \<Rightarrow> State_Monad.return Stopped | GPidBad t \<Rightarrow> State_Monad.return Broken
      | GPidIs pid \<Rightarrow> do { c \<leftarrow> asks (ge_command G pid);
          if gv_ours (ge_paths G) c then do { know (KGvproxy pid); State_Monad.return Running } else State_Monad.return Broken })
     (\<lambda>r k1. r = Running \<longrightarrow> (\<exists>pid. gv_read_pid f = GPidIs pid \<and> pid \<in> kn_procs k1))"
    unfolding goes_def know_def by (auto intro!: trail_rules simp: later_def split: pid_read.split)
qed

lemma fairly_terminate:
  assumes "\<And>e. fst (ge_pidfile G e) = f" and "gv_read_pid f = GPidIs pid" and "pid \<in> kn_procs k"
  shows "fairly b k (gv_terminate G)"
  unfolding gv_terminate_def
proof (rule knowing.goes_bind)
  show "fair b k (asks (ge_pidfile G)) (\<lambda>x _. x = f)" by (rule fair_asks_known) (simp add: assms)
next
  fix x k1 assume "later b k k1" "x = f"
  then show "fairly b k1 (case gv_read_pid x of GPidNone \<Rightarrow> State_Monad.return (Some ''no such file or directory'')
      | GPidBad t \<Rightarrow> State_Monad.return (Some t) | GPidIs pid \<Rightarrow> gv_end_process G [] pid)"
    using assms(2,3) by (auto intro: fairly_end later_proc)
qed

text \<open>C27 (safety): parking the provider for a suspend leaves \<^verbatim>\<open>podman.sock\<close> to whoever holds it: while nobody rewrites its pid file, it
  signals only the gvproxy and the forward it recognised and neither removes nor replaces the socket; a stop removes it
  only as its own.\<close>

theorem park_leaves_socket:
  assumes "steady_pid G"
  shows "kn_signal_ok (knows (gv_park G) e) \<and> kn_kept (knows (gv_park G) e) \<and>
    kn_signal_ok (knows (gv_stop G) e) \<and> kn_socket_ok (knows (gv_stop G) e)"
proof -
  obtain f where f: "\<And>e. fst (ge_pidfile G e) = f" using assms by (auto simp: steady_pid_def)
  have t: "fairly b k (gv_terminate G)" if "\<exists>pid. gv_read_pid f = GPidIs pid \<and> pid \<in> kn_procs k" for b k
    using that fairly_terminate [OF f] by blast
  have p: "fairly True nothing_known (gv_park G)"
    unfolding gv_park_def
    by (rule knowing.goes_bind [OF fair_state_known [OF f]])
      (auto intro!: knowing.goes_then goes_if knowing.goes_ret goes_option t fairly_stop_forward fairly_runtime)
  have s: "fairly False nothing_known (gv_stop G)"
    unfolding gv_stop_def
    by (rule knowing.goes_bind [OF fair_state_known [OF f]]) (auto intro!: knowing.goes_then goes_if knowing.goes_ret goes_option t fairly_repair)
  show ?thesis using fairD [OF p, of e] fairD [OF s, of e] by (simp add: later_def nothing_known_def)
qed

text \<open>A host on which gvproxy runs as process 77 and answers to every signal.\<close>

definition demo_penv :: "unit penv" where
  "demo_penv = \<lparr>pe_self = 1, pe_group = 1, pe_kill = (\<lambda>_ _ e. (KillOk, e)), pe_probe = (\<lambda>_ e. (KillErr [], e)),
     pe_zombie = (\<lambda>_ e. (False, e)), pe_getpgid = (\<lambda>_ e. (None, e)), pe_late = (\<lambda>e. (False, e)), pe_done = (\<lambda>e. (False, e))\<rparr>"

definition demo_genv :: "unit genv" where
  "demo_genv = \<lparr>ge_proc = demo_penv, ge_paths = \<lparr>gp_net = ''n'', gp_api = ''a'', gp_podman = ''p'', gp_key = ''k'', gp_pid = ''d'',
       gp_log = ''l'', gp_fwdSock = ''f''\<rparr>,
     ge_mtuEnv = [], ge_pidfile = (\<lambda>e. (Text ''77'', e)), ge_fwdpid = (\<lambda>e. (NoFile, e)), ge_fwdino = (\<lambda>e. (NoFile, e)),
     ge_command = (\<lambda>_ e. (''gvproxy unix://a'', e)), ge_inode = (\<lambda>e. (Some 5, e)), ge_socket = (\<lambda>_ e. (Some 5, e)),
     ge_answers = (\<lambda>_ e. (True, e)), ge_exists = (\<lambda>_ e. (True, e)), ge_remove = (\<lambda>_ e. (None, e)), ge_write = (\<lambda>_ e. (None, e)),
     ge_rename = (\<lambda>e. (None, e)), ge_binary = (\<lambda>e. (Inr ''gvproxy'', e)), ge_ssh = (\<lambda>e. (Inr ''ssh'', e)), ge_key = (\<lambda>e. (None, e)),
     ge_launch = (\<lambda>_ e. (Inr ''78'', e)), ge_tail = (\<lambda>e. ([], e))\<rparr>"

theorem park_leaves_socket_witness:
  "PSignal 77 SIGTERM \<in> set (trace_of (gv_park demo_genv) ()) \<and> kn_signal_ok (knows (gv_park demo_genv) ()) \<and>
   kn_kept (knows (gv_park demo_genv) ())"
proof -
  have s: "steady_pid demo_genv" by (simp add: steady_pid_def demo_genv_def)
  have "PSignal 77 SIGTERM \<in> set (trace_of (gv_park demo_genv) ())" by code_simp
  then show ?thesis using park_leaves_socket [OF s, of "()"] by simp
qed

end
