(* ===== verification/Resolver_Names.thy ===== *)
theory Resolver_Names
  imports GoLib
begin

text \<open>
  The pure parts of the host-side resolver (\<^verbatim>\<open>internal/resolver\<close>): IP addresses as \<^verbatim>\<open>net/netip\<close> has them, names and their
  canonical form, the alias table, which of the host's addresses a guest may be handed, the pieces a TXT record is cut
  into, reverse names, and the readers of \<^verbatim>\<open>scutil\<close>, \<^verbatim>\<open>/etc/hosts\<close> and \<^verbatim>\<open>GODEBUG\<close>.
\<close>

type_synonym octet = "8 word"

section \<open>Addresses\<close>

text \<open>\<^verbatim>\<open>netip.Addr\<close>: the zero value, four octets or sixteen.\<close>

datatype addr = NoAddr | IP4 octet octet octet octet | IP6 "octet list"

text \<open>\<^verbatim>\<open>netip.AddrFromSlice\<close>.\<close>

definition addr_from_slice :: "octet list \<Rightarrow> addr option" where
  "addr_from_slice b =
     (case b of
        [a, b1, c, d] \<Rightarrow> Some (IP4 a b1 c d)
      | _ \<Rightarrow> (if length b = 16 then Some (IP6 b) else None))"

text \<open>\<^verbatim>\<open>Addr.Unmap\<close>: an IPv4 address written as IPv6 becomes an IPv4 address.\<close>

definition mapped_prefix :: "octet list" where
  "mapped_prefix = replicate 10 0 @ [0xFF, 0xFF]"

fun unmap :: "addr \<Rightarrow> addr" where
  "unmap (IP6 b) =
     (if take 12 b = mapped_prefix then (case drop 12 b of [a, b1, c, d] \<Rightarrow> IP4 a b1 c d | _ \<Rightarrow> IP6 b) else IP6 b)"
| "unmap a = a"

fun is4 :: "addr \<Rightarrow> bool" where
  "is4 (IP4 _ _ _ _) = True"
| "is4 _ = False"

fun is_valid :: "addr \<Rightarrow> bool" where
  "is_valid NoAddr = False"
| "is_valid _ = True"

unbundle bit_operations_syntax

fun is_link_local_unicast :: "addr \<Rightarrow> bool" where
  "is_link_local_unicast (IP4 a b _ _) = (a = 169 \<and> b = 254)"
| "is_link_local_unicast (IP6 b) = (case b of x # y # _ \<Rightarrow> x = 0xFE \<and> y AND 0xC0 = 0x80 | _ \<Rightarrow> False)"
| "is_link_local_unicast NoAddr = False"

fun is_multicast :: "addr \<Rightarrow> bool" where
  "is_multicast (IP4 a _ _ _) = (a AND 0xF0 = 0xE0)"
| "is_multicast (IP6 b) = (case b of x # _ \<Rightarrow> x = 0xFF | _ \<Rightarrow> False)"
| "is_multicast NoAddr = False"

fun is_loopback :: "addr \<Rightarrow> bool" where
  "is_loopback (IP4 a _ _ _) = (a = 127)"
| "is_loopback (IP6 b) = (b = replicate 15 0 @ [1])"
| "is_loopback NoAddr = False"

fun is_unspecified :: "addr \<Rightarrow> bool" where
  "is_unspecified (IP4 a b c d) = (a = 0 \<and> b = 0 \<and> c = 0 \<and> d = 0)"
| "is_unspecified (IP6 b) = (b = replicate 16 0)"
| "is_unspecified NoAddr = False"

section \<open>Names and aliases\<close>

definition canonical :: "string \<Rightarrow> string" where
  "canonical name =
     (let n = to_lower (trim_space name) in
      if n = [] then ''.'' else if has_suffix n ''.'' then n else n @ ''.'')"

text \<open>\<^verbatim>\<open>SetAliases\<close>: the Go map in the order a loop happens to visit it; invalid addresses are left out.\<close>

definition set_alias :: "(string, addr) gomap \<Rightarrow> string \<times> addr \<Rightarrow> (string, addr) gomap" where
  "set_alias m p = (if is_valid (snd p) then gm_put (canonical (fst p)) (snd p) m else m)"

definition set_aliases :: "(string \<times> addr) list \<Rightarrow> (string, addr) gomap" where
  "set_aliases as = foldl set_alias [] as"

definition default_aliases :: "addr \<Rightarrow> addr \<Rightarrow> string list \<Rightarrow> (string, addr) gomap" where
  "default_aliases hostAlias gateway hostNames =
     (let host = (if is_valid hostAlias
                  then foldl (\<lambda>m n. if canonical n \<noteq> ''.'' then gm_put (canonical n) hostAlias m else m)
                         (foldl (\<lambda>m n. gm_put n hostAlias m) []
                            [''host.containers.internal.'', ''host.docker.internal.'', ''hostmachine.internal.''])
                         hostNames
                  else [])
      in if is_valid gateway
         then foldl (\<lambda>m n. gm_put n gateway m) host [''gateway.containers.internal.'', ''gateway.docker.internal.'']
         else host)"

section \<open>The addresses a guest may be handed\<close>

text \<open>One address of the host's answer: \<open>None\<close> when it is dropped.\<close>

definition guest_addr :: "addr \<Rightarrow> bool \<Rightarrow> octet list \<Rightarrow> addr option" where
  "guest_addr hostAlias wantV6 ip =
     (case addr_from_slice ip of
        None \<Rightarrow> None
      | Some a0 \<Rightarrow>
          (let a = unmap a0 in
           if is4 a = wantV6 then None
           else if is_link_local_unicast a \<or> is_multicast a then None
           else if is_unspecified a then None
           else if is_loopback a then (if \<not> is_valid hostAlias \<or> wantV6 then None else Some hostAlias)
           else Some a))"

fun guest_addrs_loop :: "addr \<Rightarrow> bool \<Rightarrow> addr list \<Rightarrow> octet list list \<Rightarrow> addr list" where
  "guest_addrs_loop al v6 out [] = out"
| "guest_addrs_loop al v6 out (ip # ips) =
     (case guest_addr al v6 ip of
        None \<Rightarrow> guest_addrs_loop al v6 out ips
      | Some a \<Rightarrow> guest_addrs_loop al v6 (if a \<in> set out then out else out @ [a]) ips)"

definition guest_addrs :: "octet list list \<Rightarrow> addr \<Rightarrow> bool \<Rightarrow> addr list" where
  "guest_addrs ips hostAlias wantV6 = guest_addrs_loop hostAlias wantV6 [] ips"

section \<open>TXT records\<close>

text \<open>\<^verbatim>\<open>splitTXT\<close>: the pieces of at most 255 bytes.\<close>

function split_txt_loop :: "string \<Rightarrow> string list" where
  "split_txt_loop s = (if 255 < length s then take 255 s # split_txt_loop (drop 255 s) else if s \<noteq> [] then [s] else [])"
  by pat_completeness auto
termination
  by (relation "measure length") auto

declare split_txt_loop.simps [simp del]

definition split_txt :: "string \<Rightarrow> string list" where
  "split_txt s = (if length s \<le> 255 then [s] else split_txt_loop s)"

section \<open>Reverse names\<close>

text \<open>The IPv4 half of \<^verbatim>\<open>netip.ParseAddr\<close>: four decimal fields of at most 255, without leading zeros.\<close>

definition dotted_field :: "string \<Rightarrow> octet option" where
  "dotted_field f =
     (if f \<noteq> [] \<and> list_all is_digit f \<and> (1 < length f \<longrightarrow> hd f \<noteq> CHR ''0'') \<and> digits_val f \<le> 255
      then Some (of_nat (digits_val f)) else None)"

definition parse_dotted :: "string \<Rightarrow> addr option" where
  "parse_dotted s =
     (case map dotted_field (split_on CHR ''.'' s) of
        [Some a, Some b, Some c, Some d] \<Rightarrow> Some (IP4 a b c d)
      | _ \<Rightarrow> None)"

definition dotted :: "octet \<Rightarrow> octet \<Rightarrow> octet \<Rightarrow> octet \<Rightarrow> string" where
  "dotted a b c d = join ''.'' (map (\<lambda>x. nat_digits (unat x)) [a, b, c, d])"

text \<open>The groups of an IPv6 address from its thirty-two labels of one character.\<close>

fun nibbles :: "nat \<Rightarrow> string list \<Rightarrow> string option" where
  "nibbles i [] = Some []"
| "nibbles i (l # ls) =
     (if length l \<noteq> 1 then None
      else case nibbles (Suc i) ls of
             None \<Rightarrow> None
           | Some r \<Rightarrow> Some ((if 0 < i \<and> i mod 4 = 0 then '':'' else []) @ l @ r))"

text \<open>\<^verbatim>\<open>arpaToIP\<close>. \<open>ip6\<close> is \<^verbatim>\<open>netip.ParseAddr\<close> on IPv6 literals with the text \<^verbatim>\<open>Addr.String\<close> gives back.\<close>

definition arpa_to_ip :: "(string \<Rightarrow> string option) \<Rightarrow> string \<Rightarrow> string option" where
  "arpa_to_ip ip6 name0 =
     (let name = trim_suffix (canonical name0) ''.'' in
      if has_suffix name ''.in-addr.arpa''
      then (let labels = split_on CHR ''.'' (trim_suffix name ''.in-addr.arpa'') in
            if length labels \<noteq> 4 then None
            else case parse_dotted (join ''.'' (rev labels)) of
                   Some (IP4 a b c d) \<Rightarrow> Some (dotted a b c d)
                 | _ \<Rightarrow> None)
      else if has_suffix name ''.ip6.arpa''
      then (let labels = split_on CHR ''.'' (trim_suffix name ''.ip6.arpa'') in
            if length labels \<noteq> 32 then None
            else case nibbles 0 (rev labels) of None \<Rightarrow> None | Some s \<Rightarrow> ip6 s)
      else None)"

section \<open>Host configuration\<close>

definition domain_char :: "char \<Rightarrow> bool" where
  "domain_char c \<longleftrightarrow>
     (let n = (of_char c :: nat) in (97 \<le> n \<and> n \<le> 122) \<or> (65 \<le> n \<and> n \<le> 90) \<or> (48 \<le> n \<and> n \<le> 57) \<or> c \<in> set ''-._'')"

definition plausible_domain :: "string \<Rightarrow> bool" where
  "plausible_domain d \<longleftrightarrow> length d \<le> 253 \<and> list_all domain_char d"

text \<open>\<^verbatim>\<open>strings.Trim(s, ".")\<close>.\<close>

definition trim_dots :: "string \<Rightarrow> string" where
  "trim_dots s = rev (dropWhile (\<lambda>c. c = CHR ''.'') (rev (dropWhile (\<lambda>c. c = CHR ''.'') s)))"

definition max_search_domains :: nat where "max_search_domains = 6"
definition max_search_length :: nat where "max_search_length = 256"

text \<open>The domain a line of \<^verbatim>\<open>scutil --dns\<close> names.\<close>

definition search_line :: "string \<Rightarrow> string option" where
  "search_line l =
     (let line = trim_space l in
      if \<not> has_prefix line ''search domain['' then None
      else case cut CHR '':'' line of
             (_, None) \<Rightarrow> None
           | (_, Some value) \<Rightarrow> Some (trim_dots (trim_space value)))"

fun search_loop :: "string list \<Rightarrow> nat \<Rightarrow> string list \<Rightarrow> string list" where
  "search_loop domains used [] = domains"
| "search_loop domains used (l # ls) =
     (case search_line l of
        None \<Rightarrow> search_loop domains used ls
      | Some d \<Rightarrow>
          (if d = [] \<or> to_lower d \<in> to_lower ` set domains \<or> \<not> plausible_domain d then search_loop domains used ls
           else if length domains \<ge> max_search_domains \<or> used + length d + 1 > max_search_length then domains
           else search_loop (domains @ [d]) (used + length d + 1) ls))"

definition parse_search_domains :: "string \<Rightarrow> string list" where
  "parse_search_domains out = search_loop [] 0 (split_on CHR 0x0A out)"

text \<open>\<^verbatim>\<open>HostNames\<close>: \<open>host\<close> is \<^verbatim>\<open>os.Hostname\<close>, \<open>bonjour\<close> is \<^verbatim>\<open>scutil --get LocalHostName\<close>, \<open>None\<close> on an error.\<close>

definition add_host_name :: "string list \<Rightarrow> string \<Rightarrow> string list" where
  "add_host_name names n0 =
     (let n = trim_dots (trim_space n0) in
      if n = [] \<or> \<not> plausible_domain n then names
      else if to_lower n \<in> to_lower ` set names then names
      else names @ [n])"

definition host_names :: "string option \<Rightarrow> string option \<Rightarrow> string list" where
  "host_names host bonjour =
     (let n1 = (case host of None \<Rightarrow> [] | Some h \<Rightarrow> add_host_name [] h);
          n2 = (case bonjour of
                  None \<Rightarrow> n1
                | Some l \<Rightarrow>
                    (let local = trim_space l; m = add_host_name n1 local in
                     if local \<noteq> [] then add_host_name m (local @ ''.local'') else m))
      in foldl (\<lambda>names n. if CHR ''.'' \<notin> set n then add_host_name names (n @ ''.local'') else names) n2 n2)"

text \<open>\<^verbatim>\<open>hostsFileNames\<close>, from the lines of \<^verbatim>\<open>/etc/hosts\<close>.\<close>

definition max_probe_candidates :: nat where "max_probe_candidates = 8"

definition hosts_line :: "string \<Rightarrow> string list" where
  "hosts_line l = fields (takeWhile (\<lambda>c. c \<noteq> CHR ''#'') l)"

fun take_host_names :: "string list \<Rightarrow> string list \<Rightarrow> string list" where
  "take_host_names names [] = names"
| "take_host_names names (n # ns) =
     (if to_lower n \<in> to_lower ` set names \<or> \<not> plausible_domain n then take_host_names names ns
      else if length names + 1 \<ge> max_probe_candidates then names @ [n]
      else take_host_names (names @ [n]) ns)"

fun hosts_loop :: "string list \<Rightarrow> string list \<Rightarrow> string list" where
  "hosts_loop names [] = names"
| "hosts_loop names (l # ls) =
     (if length names \<ge> max_probe_candidates then names
      else if length (hosts_line l) < 2 then hosts_loop names ls
      else hosts_loop (take_host_names names (tl (hosts_line l))) ls)"

definition hosts_file_names :: "string list option \<Rightarrow> string list" where
  "hosts_file_names lines0 = (case lines0 of None \<Rightarrow> [] | Some ls \<Rightarrow> hosts_loop [] ls)"

text \<open>\<^verbatim>\<open>netdnsSetting\<close> and \<^verbatim>\<open>SystemMode\<close>: the last \<^verbatim>\<open>netdns=\<close> field, up to a plus sign.\<close>

definition netdns_field :: "string \<Rightarrow> string \<Rightarrow> string" where
  "netdns_field v field =
     (case cut CHR ''='' field of (k, None) \<Rightarrow> v | (k, Some x) \<Rightarrow> (if trim_space k = ''netdns'' then trim_space x else v))"

definition netdns_setting :: "string \<Rightarrow> string" where
  "netdns_setting godebug = takeWhile (\<lambda>c. c \<noteq> CHR ''+'') (foldl netdns_field [] (split_on CHR '','' godebug))"

definition system_mode :: "bool \<Rightarrow> string \<Rightarrow> string" where
  "system_mode hostResolver godebug =
     (if \<not> hostResolver then ''go'' else if netdns_setting godebug = ''go'' then ''go'' else ''host'')"

definition status_prefix :: string where "status_prefix = ''mode=''"

fun parse_status :: "string list \<Rightarrow> string option" where
  "parse_status [] = None"
| "parse_status (t # ts) = (case cut_prefix (trim_space t) status_prefix of Some m \<Rightarrow> Some m | None \<Rightarrow> parse_status ts)"

text \<open>\<^verbatim>\<open>ParityProbe\<close>, over the lookups of the host resolver: \<open>None\<close> is an error.\<close>

definition only_host_alias :: "addr list \<Rightarrow> addr \<Rightarrow> bool" where
  "only_host_alias as alias0 \<longleftrightarrow> list_all (\<lambda>a. a = alias0) as"

fun probe_loop :: "(string \<Rightarrow> octet list list option) \<Rightarrow> addr \<Rightarrow> (string, addr) gomap \<Rightarrow> (string \<times> addr list) option \<Rightarrow> string list \<Rightarrow> (string \<times> addr list) option" where
  "probe_loop lk al as best [] = best"
| "probe_loop lk al as best (c # cs) =
     (if map_of as (canonical c) \<noteq> None then probe_loop lk al as best cs
      else case lk c of
             None \<Rightarrow> probe_loop lk al as best cs
           | Some ips \<Rightarrow>
               (let addrs = guest_addrs ips al False in
                if addrs = [] then probe_loop lk al as best cs
                else if \<not> only_host_alias addrs al then Some (c, addrs)
                else probe_loop lk al as (case best of None \<Rightarrow> Some (c, addrs) | Some b \<Rightarrow> Some b) cs))"

definition parity_probe :: "(string \<Rightarrow> octet list list option) \<Rightarrow> addr \<Rightarrow> (string, addr) gomap \<Rightarrow> string list option \<Rightarrow> (string \<times> addr list) option" where
  "parity_probe lk al as hosts = probe_loop lk al as None (hosts_file_names hosts)"

section \<open>Lemmas\<close>

text \<open>The list without its later repetitions.\<close>

definition first_seen :: "'a list \<Rightarrow> 'a list" where
  "first_seen xs = rev (remdups (rev xs))"

lemma first_seen_snoc: "first_seen (xs @ [x]) = (if x \<in> set xs then first_seen xs else first_seen xs @ [x])"
  by (simp add: first_seen_def)

lemma set_first_seen [simp]: "set (first_seen xs) = set xs"
  by (simp add: first_seen_def)

lemma distinct_first_seen: "distinct (first_seen xs)"
  by (simp add: first_seen_def)

lemma guest_addrs_loop_first_seen:
  "guest_addrs_loop al v6 (first_seen xs) ips = first_seen (xs @ List.map_filter (guest_addr al v6) ips)"
proof (induction ips arbitrary: xs)
  case (Cons ip ips)
  show ?case
  proof (cases "guest_addr al v6 ip")
    case None
    then show ?thesis using Cons.IH by (simp add: map_filter_simps)
  next
    case (Some a)
    have "guest_addrs_loop al v6 (first_seen xs) (ip # ips) = guest_addrs_loop al v6 (first_seen (xs @ [a])) ips"
      using Some by (simp add: first_seen_snoc)
    then show ?thesis using Cons.IH [of "xs @ [a]"] Some by (simp add: map_filter_simps)
  qed
qed (simp add: map_filter_simps)

lemma guest_addrs_first_seen: "guest_addrs ips al v6 = first_seen (List.map_filter (guest_addr al v6) ips)"
  using guest_addrs_loop_first_seen [of al v6 "[]" ips] by (simp add: guest_addrs_def first_seen_def)

lemma set_map_filter: "a \<in> set (List.map_filter f xs) \<longleftrightarrow> (\<exists>x \<in> set xs. f x = Some a)"
  by (induction xs) (auto simp: map_filter_simps split: option.splits)

text \<open>What a guest can route to.\<close>

definition routable :: "bool \<Rightarrow> addr \<Rightarrow> bool" where
  "routable v6 a \<longleftrightarrow> is4 a = (\<not> v6) \<and> is_valid a \<and> \<not> is_link_local_unicast a \<and> \<not> is_multicast a \<and> \<not> is_unspecified a \<and> \<not> is_loopback a"

lemma from_slice_valid: "addr_from_slice ip = Some a \<Longrightarrow> is_valid (unmap a)"
  by (auto simp: addr_from_slice_def split: list.splits if_splits)

lemma guest_addr_routable:
  "guest_addr al v6 ip = Some a \<Longrightarrow> routable v6 a \<or> (a = al \<and> is_valid al \<and> \<not> v6)"
  using from_slice_valid [of ip] by (auto simp: guest_addr_def routable_def Let_def split: option.splits if_splits)

lemma guest_addr_keeps:
  "addr_from_slice ip = Some a \<Longrightarrow> routable v6 (unmap a) \<Longrightarrow> guest_addr al v6 ip = Some (unmap a)"
  by (auto simp: guest_addr_def routable_def)

lemma split_txt_loop_long: "255 < length s \<Longrightarrow> split_txt_loop s = take 255 s # split_txt_loop (drop 255 s)"
  by (subst split_txt_loop.simps) simp

lemma split_txt_loop_short: "length s \<le> 255 \<Longrightarrow> split_txt_loop s = (if s = [] then [] else [s])"
  by (subst split_txt_loop.simps) simp

lemma split_txt_loop_concat: "concat (split_txt_loop s) = s"
proof (induction s rule: split_txt_loop.induct)
  case (1 s)
  then show ?case by (cases "255 < length s") (simp_all only: split_txt_loop_long split_txt_loop_short concat.simps append_take_drop_id not_less split: if_split, simp)
qed

lemma split_txt_loop_sizes: "p \<in> set (split_txt_loop s) \<Longrightarrow> 0 < length p \<and> length p \<le> 255"
proof (induction s rule: split_txt_loop.induct)
  case (1 s)
  show ?case
  proof (cases "255 < length s")
    case True
    then have "p = take 255 s \<or> p \<in> set (split_txt_loop (drop 255 s))" using "1.prems" by (simp only: split_txt_loop_long set_simps insert_iff)
    then show ?thesis using 1(1) [OF True] True by (elim disjE) (simp_all only: length_take min_def split: if_split, simp_all)
  next
    case False
    then show ?thesis using "1.prems" by (simp add: split_txt_loop_short split: if_splits)
  qed
qed

lemma split_txt_loop_full: "p \<in> set (butlast (split_txt_loop s)) \<Longrightarrow> length p = 255"
proof (induction s rule: split_txt_loop.induct)
  case (1 s)
  show ?case
  proof (cases "255 < length s")
    case True
    then have "p = take 255 s \<or> p \<in> set (butlast (split_txt_loop (drop 255 s)))" using "1.prems"
      by (simp only: split_txt_loop_long butlast.simps split: if_splits) (auto simp only: set_simps insert_iff empty_iff)
    then show ?thesis using 1(1) [OF True] True by (elim disjE) (simp_all only: length_take min_def split: if_split, simp_all)
  next
    case False
    then show ?thesis using "1.prems" by (simp add: split_txt_loop_short split: if_splits)
  qed
qed

subsection \<open>Canonical names\<close>

definition lower_char :: "char \<Rightarrow> char" where
  "lower_char c = (let n = (of_char c :: nat) in if 65 \<le> n \<and> n \<le> 90 then char_of (n + 32) else c)"

lemma to_lower_map: "to_lower s = map lower_char s"
  by (simp add: to_lower_def lower_char_def)

lemma of_lower_char: "(of_char (lower_char c) :: nat) = (let n = of_char c in if 65 \<le> n \<and> n \<le> 90 then n + 32 else n)"
  by (simp add: lower_char_def Let_def)

lemma lower_char_idem [simp]: "lower_char (lower_char c) = lower_char c"
  using of_lower_char [of c] by (auto simp: lower_char_def [of "lower_char c"] Let_def split: if_splits)

lemma to_lower_idem [simp]: "to_lower (to_lower s) = to_lower s"
  by (simp add: to_lower_map)

lemma is_space_lower [simp]: "is_space (lower_char c) = is_space c"
proof (cases "65 \<le> (of_char c :: nat) \<and> (of_char c :: nat) \<le> 90")
  case True
  have "\<And>d. is_space d \<Longrightarrow> (of_char d :: nat) \<le> 32" by (auto simp: is_space_def)
  then have "\<not> is_space c" "\<not> is_space (lower_char c)" using True of_lower_char [of c] by (fastforce simp: Let_def)+
  then show ?thesis by simp
next
  case False
  then have "lower_char c = c" by (auto simp: lower_char_def Let_def)
  then show ?thesis by simp
qed

lemma trim_space_lower: "trim_space (to_lower s) = to_lower (trim_space s)"
  by (simp add: trim_space_def to_lower_map rev_map dropWhile_map comp_def)

lemma trim_space_ends:
  assumes "trim_space s \<noteq> []"
  shows "\<not> is_space (hd (trim_space s)) \<and> \<not> is_space (last (trim_space s))"
proof -
  let ?t = "dropWhile is_space s" and ?u = "trim_space s"
  have "rev (dropWhile is_space (rev ?t)) @ rev (takeWhile is_space (rev ?t)) = ?t"
    by (metis rev_append rev_rev_ident takeWhile_dropWhile_id)
  then have t: "?t = ?u @ rev (takeWhile is_space (rev ?t))" by (simp add: trim_space_def)
  then have "?t \<noteq> []" "hd ?t = hd ?u" using assms by (metis append_is_Nil_conv, metis hd_append2)
  moreover have "dropWhile is_space (rev ?t) \<noteq> []" "last ?u = hd (dropWhile is_space (rev ?t))"
    using assms by (auto simp: trim_space_def last_rev)
  ultimately show ?thesis using hd_dropWhile [of is_space s] hd_dropWhile [of is_space "rev ?t"] by metis
qed

lemma trim_space_idem [simp]: "trim_space (trim_space s) = trim_space s"
proof (cases "trim_space s = []")
  case True
  have "trim_space [] = []" by (simp add: trim_space_def)
  then show ?thesis using True by simp
next
  case False
  then show ?thesis using trim_space_ends trim_space_id by blast
qed

lemma last_dot: "n \<noteq> [] \<Longrightarrow> has_suffix n ''.'' \<longleftrightarrow> last n = CHR ''.''"
  by (cases n rule: rev_cases) (auto simp: has_suffix_def has_prefix_def)

lemma canonical_dot: "last (canonical s) = CHR ''.''"
  using last_dot by (auto simp: canonical_def Let_def)

lemma canonical_idem [simp]: "canonical (canonical s) = canonical s"
proof -
  let ?n = "to_lower (trim_space s)"
  have low: "to_lower (canonical s) = canonical s"
    by (auto simp: canonical_def Let_def to_lower_map lower_char_def)
  have "\<not> is_space (hd (canonical s))"
  proof (cases "?n = []")
    case False
    then have "trim_space s \<noteq> []" by (auto simp: to_lower_map)
    then have "\<not> is_space (hd ?n)" using trim_space_ends by (simp add: to_lower_map list.map_sel)
    then show ?thesis using False by (auto simp: canonical_def Let_def)
  qed (simp add: canonical_def is_space_def)
  moreover have "\<not> is_space (last (canonical s))" by (simp add: canonical_dot is_space_def)
  moreover have ne: "canonical s \<noteq> []" by (simp add: canonical_def Let_def)
  ultimately have "trim_space (canonical s) = canonical s" by (rule trim_space_id [rotated 1])
  then show ?thesis using low ne canonical_dot [of s] last_dot [of "canonical s"] by (simp add: canonical_def [of "canonical s"] Let_def)
qed

section \<open>Properties\<close>

text \<open>Fact (safety): the guest is only handed addresses it can use: whatever the host resolver answers, every address is of the family asked
  for and is neither link-local, multicast, unspecified (a name blocked in the hosts file stays without an address) nor the
  loopback, which is replaced by the host's alias; none is given twice; and no address of the host the guest can route to is
  left out.\<close>

theorem guest_addrs_usable:
  "distinct (guest_addrs ips al v6) \<and>
   (\<forall>a. a \<in> set (guest_addrs ips al v6) \<longleftrightarrow> (\<exists>ip \<in> set ips. guest_addr al v6 ip = Some a)) \<and>
   list_all (\<lambda>a. routable v6 a \<or> a = al \<and> is_valid al \<and> v6 = False) (guest_addrs ips al v6) \<and>
   list_all (\<lambda>ip. case addr_from_slice ip of None \<Rightarrow> True
      | Some a \<Rightarrow> (if routable v6 (unmap a) then unmap a \<in> set (guest_addrs ips al v6) else True)) ips"
proof -
  have mem: "a \<in> set (guest_addrs ips al v6) \<longleftrightarrow> (\<exists>ip \<in> set ips. guest_addr al v6 ip = Some a)" for a
    by (auto simp: guest_addrs_first_seen set_map_filter)
  have "distinct (guest_addrs ips al v6)" by (simp add: guest_addrs_first_seen distinct_first_seen)
  moreover have "list_all (\<lambda>a. routable v6 a \<or> a = al \<and> is_valid al \<and> v6 = False) (guest_addrs ips al v6)"
    unfolding list_all_iff
  proof
    fix a assume "a \<in> set (guest_addrs ips al v6)"
    then obtain ip where "guest_addr al v6 ip = Some a" using mem by blast
    from guest_addr_routable [OF this] show "routable v6 a \<or> a = al \<and> is_valid al \<and> v6 = False" by blast
  qed
  moreover have "list_all (\<lambda>ip. case addr_from_slice ip of None \<Rightarrow> True
      | Some a \<Rightarrow> (if routable v6 (unmap a) then unmap a \<in> set (guest_addrs ips al v6) else True)) ips"
    unfolding list_all_iff using guest_addr_keeps mem by (fastforce split: option.splits)
  ultimately show ?thesis using mem by blast
qed

text \<open>Fact (roundtrip): a TXT answer is cut without loss: the pieces joined are the text, every piece fits the wire's 255 bytes, all but the last
  are full, and there is always one.\<close>

theorem split_txt_lossless:
  "concat (split_txt s) = s \<and> split_txt s \<noteq> [] \<and> list_all (\<lambda>p. length p \<le> 255) (split_txt s) \<and>
   list_all (\<lambda>p. length p = 255) (butlast (split_txt s))"
proof (cases "length s \<le> 255")
  case False
  have "split_txt s = split_txt_loop s" using False by (simp only: split_txt_def if_False)
  moreover have "split_txt_loop s \<noteq> []" using False by (simp only: split_txt_loop_long not_le list.distinct simp_thms)
  ultimately show ?thesis using split_txt_loop_concat split_txt_loop_sizes split_txt_loop_full by (simp add: list_all_iff)
qed (simp add: split_txt_def)

lemma search_loop_ok:
  assumes "length ds \<le> 6" "used = sum_list (map (\<lambda>d. length d + 1) ds)" "used \<le> 256" "distinct (map to_lower ds)"
    "list_all (\<lambda>d. d \<noteq> [] \<and> plausible_domain d) ds"
  shows "length (search_loop ds used ls) \<le> 6 \<and> sum_list (map (\<lambda>d. length d + 1) (search_loop ds used ls)) \<le> 256 \<and>
    distinct (map to_lower (search_loop ds used ls)) \<and> list_all (\<lambda>d. d \<noteq> [] \<and> plausible_domain d) (search_loop ds used ls)"
  using assms
proof (induction ls arbitrary: ds used)
  case (Cons l ls)
  show ?case
  proof (cases "search_line l")
    case None
    then show ?thesis using Cons by simp
  next
    case (Some d)
    show ?thesis
    proof (cases "d = [] \<or> to_lower d \<in> to_lower ` set ds \<or> \<not> plausible_domain d")
      case True
      then show ?thesis using Cons Some by simp
    next
      case new: False
      show ?thesis
      proof (cases "length ds \<ge> max_search_domains \<or> used + length d + 1 > max_search_length")
        case True
        then show ?thesis using Cons.prems Some new by simp
      next
        case False
        have "length (ds @ [d]) \<le> 6" "used + length d + 1 = sum_list (map (\<lambda>d. length d + 1) (ds @ [d]))" "used + length d + 1 \<le> 256"
          "distinct (map to_lower (ds @ [d]))" "list_all (\<lambda>d. d \<noteq> [] \<and> plausible_domain d) (ds @ [d])"
          using False Cons.prems new by (simp_all add: max_search_domains_def max_search_length_def)
        from Cons.IH [OF this] show ?thesis using Some new False by simp
      qed
    qed
  qed
qed simp


lemma digit_char_zero: "d < 10 \<Longrightarrow> digit_char d = CHR ''0'' \<longleftrightarrow> d = 0"
proof -
  assume "d < 10"
  moreover have "digit_char 0 = CHR ''0''" by code_simp
  moreover have "(of_char (CHR ''0'') :: nat) = 48" by simp
  ultimately show ?thesis using of_char_digit [of d] by (metis add_cancel_right_right)
qed

lemma nat_digits_lead: "1 < length (nat_digits n) \<Longrightarrow> hd (nat_digits n) \<noteq> CHR ''0''"
proof (induction n rule: nat_digits.induct)
  case (1 n)
  show ?case
  proof (cases "n < 10")
    case True
    then show ?thesis using "1.prems" by (simp add: nat_digits.simps [of n])
  next
    case False
    have e: "nat_digits n = nat_digits (n div 10) @ [digit_char (n mod 10)]" using False by (simp add: nat_digits.simps [of n])
    show ?thesis
    proof (cases "n div 10 < 10")
      case True
      then have "nat_digits (n div 10) = [digit_char (n div 10)]" by (simp add: nat_digits.simps [of "n div 10"])
      then show ?thesis using True False by (simp add: e digit_char_zero)
    next
      case two: False
      then have "1 < length (nat_digits (n div 10))" by (simp add: nat_digits.simps [of "n div 10"])
      then show ?thesis using "1.IH" [OF False] by (simp add: e)
    qed
  qed
qed

lemma octet_field: "dotted_field (nat_digits (unat (x :: octet))) = Some x"
proof -
  have "unat x < 256" using unsigned_less [of x] by simp
  then show ?thesis
    using nat_digits_lead [of "unat x"] by (auto simp: dotted_field_def digits_val_nat_digits nat_digits_digits)
qed

lemma decimal_free: "\<not> is_digit c \<Longrightarrow> c \<notin> set (nat_digits n)"
  using nat_digits_digits [of n] by (auto simp: list_all_iff)

lemma parse_dotted_dotted: "parse_dotted (dotted a b c d) = Some (IP4 a b c d)"
proof -
  have dot: "\<not> is_digit (CHR ''.'')" by (simp add: is_digit_def)
  have "split_on CHR ''.'' (dotted a b c d) = map (\<lambda>x. nat_digits (unat x)) [a, b, c, d]"
    unfolding dotted_def by (rule split_on_join) (auto simp: decimal_free [OF dot])
  then show ?thesis by (simp add: parse_dotted_def octet_field)
qed

text \<open>A reverse name of an IPv4 address, as \<^verbatim>\<open>dig -x\<close> asks for it.\<close>

definition reverse_name :: "octet \<Rightarrow> octet \<Rightarrow> octet \<Rightarrow> octet \<Rightarrow> string" where
  "reverse_name a b c d = dotted d c b a @ ''.in-addr.arpa.''"

lemma lower_digit: "is_digit c \<Longrightarrow> lower_char c = c"
  by (auto simp: is_digit_def lower_char_def Let_def)

lemma dotted_chars: "c \<in> set (dotted a b c1 d) \<Longrightarrow> is_digit c \<or> c = CHR ''.''"
  using nat_digits_digits by (auto simp: dotted_def list_all_iff)

lemma to_lower_dotted: "to_lower (dotted a b c d) = dotted a b c d"
proof -
  have "lower_char x = x" if "x \<in> set (dotted a b c d)" for x
    using dotted_chars [OF that] lower_digit [of x] by (elim disjE) (simp_all add: lower_char_def)
  then show ?thesis by (simp add: to_lower_map map_idI)
qed

lemma dotted_ends: "dotted a b c d \<noteq> [] \<and> is_digit (hd (dotted a b c d))"
  by (simp add: dotted_def hd_nat_digits)

lemma canonical_id:
  assumes "n \<noteq> []" "\<not> is_space (hd n)" "last n = CHR ''.''" "to_lower n = n"
  shows "canonical n = n"
proof -
  have "\<not> is_space (last n)" using assms(3) by (simp add: is_space_def)
  then have "trim_space n = n" using assms(1,2) by (rule trim_space_id [rotated 2])
  then show ?thesis using assms last_dot [of n] by (simp add: canonical_def Let_def)
qed

lemma canonical_reverse: "canonical (reverse_name a b c d) = reverse_name a b c d"
proof (rule canonical_id)
  have "\<And>x. is_digit x \<Longrightarrow> \<not> is_space x" by (auto simp: is_digit_def is_space_def)
  then show "\<not> is_space (hd (reverse_name a b c d))" using dotted_ends by (simp add: reverse_name_def)
  show "to_lower (reverse_name a b c d) = reverse_name a b c d"
    using to_lower_dotted [of d c b a] by (simp add: reverse_name_def to_lower_map lower_char_def)
qed (simp_all add: reverse_name_def)

lemma trim_suffix_append: "trim_suffix (s @ t) t = s"
  by (simp add: trim_suffix_def has_suffix_def)

text \<open>Fact (roundtrip): a reverse lookup reaches the host resolver as the address it is about: the reverse name of an IPv4 address is
  turned back into that address's text.\<close>

theorem arpa_roundtrip:
  "arpa_to_ip ip6 (reverse_name a b c d) = Some (dotted a b c d)"
proof -
  have n: "trim_suffix (canonical (reverse_name a b c d)) ''.'' = dotted d c b a @ ''.in-addr.arpa''"
    using trim_suffix_append [of "dotted d c b a @ ''.in-addr.arpa''" "''.''"] unfolding canonical_reverse by (simp add: reverse_name_def)
  have t: "trim_suffix (dotted d c b a @ ''.in-addr.arpa'') ''.in-addr.arpa'' = dotted d c b a"
    by (rule trim_suffix_append)
  have h: "has_suffix (dotted d c b a @ ''.in-addr.arpa'') ''.in-addr.arpa''"
    by (simp add: has_suffix_def has_prefix_def)
  have dot: "\<not> is_digit (CHR ''.'')" by (simp add: is_digit_def)
  have l: "split_on CHR ''.'' (dotted d c b a) = map (\<lambda>x. nat_digits (unat x)) [d, c, b, a]"
    unfolding dotted_def by (rule split_on_join) (auto simp: decimal_free [OF dot])
  have r: "join ''.'' (rev (map (\<lambda>x. nat_digits (unat x)) [d, c, b, a])) = dotted a b c d"
    by (simp add: dotted_def)
  show ?thesis
    unfolding arpa_to_ip_def Let_def n if_P [OF h] t l r parse_dotted_dotted by simp
qed

end
