(* ===== verification/Resolver_Handler.thy ===== *)
theory Resolver_Handler
  imports Resolver_Names "HOL-Library.State_Monad"
begin

text \<open>
  The handler of the host-side resolver (\<^verbatim>\<open>internal/resolver/resolver.go\<close>, \<^verbatim>\<open>serve.go\<close> and \<^verbatim>\<open>client.go\<close>): one query in wire form to one
  reply. The host's own resolver is a record of lookups on a state \<open>'e\<close>; the wire format (package \<^verbatim>\<open>dnsmessage\<close>, not part
  of the repository) is a record of parser operations on a state \<open>'p\<close> and a builder that is given the calls made to it.
  A Go panic is the value \<open>None\<close>.
\<close>


section \<open>Messages\<close>

datatype qtype = TA | TNS | TCNAME | TPTR | TMX | TTXT | TAAAA | TSRV | TALL | TOther nat

datatype rcode = RSuccess | RFormatError | RServerFailure | RNameError | RNotImplemented | RRefused | ROther nat

record question =
  qn_name :: string
  qn_type :: qtype
  qn_class :: nat

record dns_header =
  dh_id :: nat
  dh_response :: bool
  dh_opcode :: nat
  dh_recursionDesired :: bool
  dh_recursionAvailable :: bool
  dh_truncated :: bool
  dh_rcode :: rcode

datatype rbody = BA "octet list" | BAAAA "octet list" | BCNAME string | BPTR string | BTXT "string list"
  | BSRV nat nat nat string | BMX nat string | BNS string

record rr =
  rr_name :: string
  rr_type :: qtype
  rr_class :: nat
  rr_ttl :: nat
  rr_body :: rbody

definition class_inet :: nat where "class_inet = 1"
definition class_any :: nat where "class_any = 255"
definition answer_ttl :: nat where "answer_ttl = 0"
definition min_udp_size :: nat where "min_udp_size = 512"
definition max_udp_size :: nat where "max_udp_size = 4096"

definition rr_of :: "question \<Rightarrow> qtype \<Rightarrow> rbody \<Rightarrow> rr" where
  "rr_of q t b = \<lparr>rr_name = qn_name q, rr_type = t, rr_class = class_inet, rr_ttl = answer_ttl, rr_body = b\<rparr>"

section \<open>The host's resolver\<close>

datatype serr = NotFound string | Failed string

record 'e sys =
  sy_ip :: "string \<Rightarrow> 'e \<Rightarrow> (serr + octet list list) \<times> 'e"
  sy_cname :: "string \<Rightarrow> 'e \<Rightarrow> (serr + string) \<times> 'e"
  sy_ptr :: "string \<Rightarrow> 'e \<Rightarrow> (serr + string list) \<times> 'e"
  sy_txt :: "string \<Rightarrow> 'e \<Rightarrow> (serr + string list) \<times> 'e"
  sy_srv :: "string \<Rightarrow> 'e \<Rightarrow> (serr + (nat \<times> nat \<times> nat \<times> string) list) \<times> 'e"
  sy_mx :: "string \<Rightarrow> 'e \<Rightarrow> (serr + (nat \<times> string) list) \<times> 'e"
  sy_ns :: "string \<Rightarrow> 'e \<Rightarrow> (serr + string list) \<times> 'e"

text \<open>The configuration with its alias table. \<open>cf_name\<close> is \<^verbatim>\<open>dnsmessage.NewName\<close> (\<open>None\<close> for a name the wire cannot carry), \<open>cf_ip6\<close> as in
  \<open>arpa_to_ip\<close>.\<close>

record dns_config =
  cf_hostAlias :: addr
  cf_allowIPv6 :: bool
  cf_mode :: string
  cf_aliases :: "(string, addr) gomap"
  cf_name :: "string \<Rightarrow> string option"
  cf_ip6 :: "string \<Rightarrow> string option"

type_synonym ('e, 'a) rm = "('e, 'a) state"

type_synonym answered = "(rr list \<times> rcode) option"

definition to_name :: "dns_config \<Rightarrow> string \<Rightarrow> string option" where
  "to_name C s = cf_name C (canonical s)"

definition fail_code :: "serr \<Rightarrow> rcode" where
  "fail_code e = (case e of NotFound _ \<Rightarrow> RNameError | Failed _ \<Rightarrow> RServerFailure)"

section \<open>Answers\<close>

text \<open>\<^verbatim>\<open>Addr.As4\<close> panics on an address that is not IPv4; \<^verbatim>\<open>Addr.As16\<close> never does.\<close>

fun as4 :: "addr \<Rightarrow> octet list option" where
  "as4 (IP4 a b c d) = Some [a, b, c, d]"
| "as4 (IP6 b) = (if take 12 b = mapped_prefix then Some (drop 12 b) else None)"
| "as4 NoAddr = None"

fun as16 :: "addr \<Rightarrow> octet list" where
  "as16 (IP4 a b c d) = mapped_prefix @ [a, b, c, d]"
| "as16 (IP6 b) = b"
| "as16 NoAddr = replicate 16 0"

definition status_fqdn :: string where
  "status_fqdn = canonical ''resolver.jailmachine.internal''"

definition status_answer :: "dns_config \<Rightarrow> question \<Rightarrow> rr list" where
  "status_answer C q =
     (if qn_type q \<noteq> TTXT \<and> qn_type q \<noteq> TALL then []
      else [rr_of q TTXT (BTXT [status_prefix @ cf_mode C])])"

fun alias_answer :: "question \<Rightarrow> addr \<Rightarrow> rr list" where
  "alias_answer q (IP4 a b c d) = (if qn_type q \<noteq> TA \<and> qn_type q \<noteq> TALL then [] else [rr_of q TA (BA [a, b, c, d])])"
| "alias_answer q _ = []"

fun address_records :: "question \<Rightarrow> bool \<Rightarrow> addr list \<Rightarrow> rr list option" where
  "address_records q v6 [] = Some []"
| "address_records q v6 (a # as) =
     (if v6 then map_option ((#) (rr_of q TAAAA (BAAAA (as16 a)))) (address_records q v6 as)
      else case as4 a of
             None \<Rightarrow> None
           | Some b \<Rightarrow> map_option ((#) (rr_of q TA (BA b))) (address_records q v6 as))"

definition address_answer :: "dns_config \<Rightarrow> 'e sys \<Rightarrow> question \<Rightarrow> string \<Rightarrow> bool \<Rightarrow> ('e, answered) rm" where
  "address_answer C S q host v6 = do {
     r \<leftarrow> State (sy_ip S host);
     case r of
       Inl e \<Rightarrow> State_Monad.return (Some ([], fail_code e))
     | Inr ips \<Rightarrow>
         (if v6 \<and> \<not> cf_allowIPv6 C then State_Monad.return (Some ([], RSuccess))
          else State_Monad.return (map_option (\<lambda>as. (as, RSuccess)) (address_records q v6 (guest_addrs ips (cf_hostAlias C) v6)))) }"

text \<open>The records of one lookup, each turned into a body or dropped.\<close>

definition list_answer :: "question \<Rightarrow> qtype \<Rightarrow> ('a \<Rightarrow> rbody option) \<Rightarrow> (serr + 'a list) \<Rightarrow> answered" where
  "list_answer q t f r =
     (case r of
        Inl e \<Rightarrow> Some ([], fail_code e)
      | Inr xs \<Rightarrow> Some (map (rr_of q t) (List.map_filter f xs), RSuccess))"

definition cname_answer :: "dns_config \<Rightarrow> question \<Rightarrow> (serr + string) \<Rightarrow> answered" where
  "cname_answer C q r =
     (case r of
        Inl e \<Rightarrow> Some ([], fail_code e)
      | Inr cname \<Rightarrow>
          (case to_name C cname of
             None \<Rightarrow> Some ([], RSuccess)
           | Some target \<Rightarrow>
               (if canonical cname = canonical (qn_name q) then Some ([], RSuccess)
                else Some ([rr_of q TCNAME (BCNAME target)], RSuccess))))"

definition ptr_answer :: "dns_config \<Rightarrow> 'e sys \<Rightarrow> question \<Rightarrow> ('e, answered) rm" where
  "ptr_answer C S q =
     (case arpa_to_ip (cf_ip6 C) (canonical (qn_name q)) of
        None \<Rightarrow> State_Monad.return (Some ([], RSuccess))
      | Some a \<Rightarrow> do {
          r \<leftarrow> State (sy_ptr S a);
          State_Monad.return (list_answer q TPTR (\<lambda>n. map_option BPTR (to_name C n)) r) })"

text \<open>The lookup for one type.\<close>

definition typed_answer :: "dns_config \<Rightarrow> 'e sys \<Rightarrow> question \<Rightarrow> string \<Rightarrow> ('e, answered) rm" where
  "typed_answer C S q host =
     (case qn_type q of
        TA \<Rightarrow> address_answer C S q host False
      | TAAAA \<Rightarrow> address_answer C S q host True
      | TCNAME \<Rightarrow> do { r \<leftarrow> State (sy_cname S host); State_Monad.return (cname_answer C q r) }
      | TPTR \<Rightarrow> ptr_answer C S q
      | TTXT \<Rightarrow> do { r \<leftarrow> State (sy_txt S host); State_Monad.return (list_answer q TTXT (\<lambda>t. Some (BTXT (split_txt t))) r) }
      | TSRV \<Rightarrow> do {
          r \<leftarrow> State (sy_srv S host);
          State_Monad.return (list_answer q TSRV (\<lambda>(p, w, port, t). map_option (BSRV p w port) (to_name C t)) r) }
      | TMX \<Rightarrow> do {
          r \<leftarrow> State (sy_mx S host);
          State_Monad.return (list_answer q TMX (\<lambda>(p, h). map_option (BMX p) (to_name C h)) r) }
      | TNS \<Rightarrow> do { r \<leftarrow> State (sy_ns S host); State_Monad.return (list_answer q TNS (\<lambda>h. map_option BNS (to_name C h)) r) }
      | TALL \<Rightarrow> State_Monad.return (Some ([], RNotImplemented))
      | TOther n \<Rightarrow> State_Monad.return (Some ([], RNotImplemented)))"

definition resolve_query :: "dns_config \<Rightarrow> 'e sys \<Rightarrow> question \<Rightarrow> ('e, answered) rm" where
  "resolve_query C S q =
     (let name = canonical (qn_name q) in
      if name = status_fqdn then State_Monad.return (Some (status_answer C q, RSuccess))
      else case map_of (cf_aliases C) name of
             Some ip \<Rightarrow> State_Monad.return (Some (alias_answer q ip, RSuccess))
           | None \<Rightarrow> typed_answer C S q (trim_suffix name ''.''))"

section \<open>The wire\<close>

text \<open>What the builder is told, in order.\<close>

datatype bcall = StartQuestions | AddQuestion question | StartAnswers | AddAnswer rr | StartAdditionals | AddOpt nat bool

text \<open>\<open>wi_question\<close> gives the question or whether the section is done; \<open>wi_additional\<close> the next header: \<open>None\<close> on an error, else whether
  it is an OPT record, its class and its DNSSEC bit. \<open>wi_build\<close> is the message, or \<open>None\<close> when a call failed.\<close>

record 'p wire_lib =
  wi_start :: "octet list \<Rightarrow> (dns_header \<times> 'p) option"
  wi_question :: "'p \<Rightarrow> (bool + question) \<times> 'p"
  wi_skipQuestions :: "'p \<Rightarrow> bool \<times> 'p"
  wi_skipAnswers :: "'p \<Rightarrow> bool \<times> 'p"
  wi_skipAuthorities :: "'p \<Rightarrow> bool \<times> 'p"
  wi_additional :: "'p \<Rightarrow> (bool \<times> nat \<times> bool) option \<times> 'p"
  wi_skipAdditional :: "'p \<Rightarrow> bool \<times> 'p"
  wi_build :: "dns_header \<Rightarrow> bcall list \<Rightarrow> octet list option"

record edns =
  ed_present :: bool
  ed_size :: nat
  ed_dnssec :: bool

definition no_edns :: edns where "no_edns = \<lparr>ed_present = False, ed_size = 0, ed_dnssec = False\<rparr>"

definition udp_size :: "edns \<Rightarrow> nat" where
  "udp_size e =
     (if \<not> ed_present e \<or> ed_size e < min_udp_size then min_udp_size
      else if max_udp_size < ed_size e then max_udp_size else ed_size e)"

text \<open>The scan of the additional section; a message has fewer than \<open>2 ^ 16\<close> of them.\<close>

fun edns_loop :: "nat \<Rightarrow> 'p wire_lib \<Rightarrow> 'p \<Rightarrow> edns" where
  "edns_loop 0 D p = no_edns"
| "edns_loop (Suc n) D p =
     (case wi_additional D p of
        (None, _) \<Rightarrow> no_edns
      | (Some (opt, sz, sec), p1) \<Rightarrow>
          (if opt then \<lparr>ed_present = True, ed_size = sz, ed_dnssec = sec\<rparr>
           else case wi_skipAdditional D p1 of (ok, p2) \<Rightarrow> (if ok then edns_loop n D p2 else no_edns)))"

definition edns_of :: "'p wire_lib \<Rightarrow> 'p \<Rightarrow> edns" where
  "edns_of D p =
     (case wi_skipQuestions D p of (a, p1) \<Rightarrow>
        if \<not> a then no_edns
        else case wi_skipAnswers D p1 of (b, p2) \<Rightarrow>
          if \<not> b then no_edns
          else case wi_skipAuthorities D p2 of (c, p3) \<Rightarrow> (if \<not> c then no_edns else edns_loop (2 ^ 16) D p3))"

definition render_calls :: "question option \<Rightarrow> rr list \<Rightarrow> edns \<Rightarrow> bcall list" where
  "render_calls q answers e =
     (case q of None \<Rightarrow> [] | Some x \<Rightarrow> [StartQuestions, AddQuestion x]) @ [StartAnswers] @ map AddAnswer answers @
     (if ed_present e then [StartAdditionals, AddOpt max_udp_size (ed_dnssec e)] else [])"

definition reply_header :: "dns_header \<Rightarrow> rcode \<Rightarrow> bool \<Rightarrow> dns_header" where
  "reply_header hdr rc tc =
     \<lparr>dh_id = dh_id hdr, dh_response = True, dh_opcode = dh_opcode hdr, dh_recursionDesired = dh_recursionDesired hdr,
      dh_recursionAvailable = True, dh_truncated = tc, dh_rcode = rc\<rparr>"

definition render :: "'p wire_lib \<Rightarrow> dns_header \<Rightarrow> question option \<Rightarrow> rcode \<Rightarrow> rr list \<Rightarrow> edns \<Rightarrow> bool \<Rightarrow> octet list option" where
  "render D hdr q rc answers e tc = wi_build D (reply_header hdr rc tc) (render_calls q answers e)"

definition render_or_nil :: "'p wire_lib \<Rightarrow> dns_header \<Rightarrow> question option \<Rightarrow> rcode \<Rightarrow> rr list \<Rightarrow> edns \<Rightarrow> octet list option" where
  "render_or_nil D hdr q rc answers e =
     (case render D hdr q rc answers e False of
        Some m \<Rightarrow> Some m
      | None \<Rightarrow> render D hdr q RServerFailure [] e False)"

definition build_reply :: "'p wire_lib \<Rightarrow> dns_header \<Rightarrow> question option \<Rightarrow> rcode \<Rightarrow> rr list \<Rightarrow> edns \<Rightarrow> octet list option" where
  "build_reply D hdr q rc answers e =
     (case render_or_nil D hdr q rc answers e of
        None \<Rightarrow> None
      | Some m \<Rightarrow>
          (if length m \<le> udp_size e then Some m
           else case render D hdr q rc [] e True of Some t \<Rightarrow> Some t | None \<Rightarrow> Some m))"

text \<open>A query once parsed: not a query at all, one that is refused with a code, or a question to resolve.\<close>

datatype parsed = Drop | Broken_question dns_header | Two_questions dns_header edns
  | Refuse dns_header question rcode edns | Resolve dns_header question edns

definition parse_query :: "'p wire_lib \<Rightarrow> octet list \<Rightarrow> parsed" where
  "parse_query D query =
     (case wi_start D query of
        None \<Rightarrow> Drop
      | Some (hdr, p) \<Rightarrow>
          (if dh_response hdr then Drop
           else case wi_question D p of
                  (Inl _, _) \<Rightarrow> Broken_question hdr
                | (Inr q, p1) \<Rightarrow>
                    (case wi_question D p1 of (second, p2) \<Rightarrow>
                       let e = edns_of D p2 in
                       if second \<noteq> Inl True then Two_questions hdr e
                       else if qn_class q \<noteq> class_inet \<and> qn_class q \<noteq> class_any then Refuse hdr q RRefused e
                       else if dh_opcode hdr \<noteq> 0 then Refuse hdr q RNotImplemented e
                       else Resolve hdr q e)))"

definition full_edns :: edns where "full_edns = \<lparr>ed_present = True, ed_size = max_udp_size, ed_dnssec = False\<rparr>"

text \<open>\<open>None\<close> is a panic, \<open>Some None\<close> no reply.\<close>

definition answer_udp :: "dns_config \<Rightarrow> 'e sys \<Rightarrow> 'p wire_lib \<Rightarrow> octet list \<Rightarrow> ('e, octet list option option) rm" where
  "answer_udp C S D query =
     (case parse_query D query of
        Drop \<Rightarrow> State_Monad.return (Some None)
      | Broken_question hdr \<Rightarrow> State_Monad.return (Some (build_reply D hdr None RFormatError [] no_edns))
      | Two_questions hdr e \<Rightarrow> State_Monad.return (Some (build_reply D hdr None RFormatError [] e))
      | Refuse hdr q rc e \<Rightarrow> State_Monad.return (Some (build_reply D hdr (Some q) rc [] e))
      | Resolve hdr q e \<Rightarrow> do {
          r \<leftarrow> resolve_query C S q;
          State_Monad.return (map_option (\<lambda>(as, rc). build_reply D hdr (Some q) rc as e) r) })"

definition answer_tcp :: "dns_config \<Rightarrow> 'e sys \<Rightarrow> 'p wire_lib \<Rightarrow> octet list \<Rightarrow> ('e, octet list option option) rm" where
  "answer_tcp C S D query =
     (case parse_query D query of
        Drop \<Rightarrow> State_Monad.return (Some None)
      | Broken_question hdr \<Rightarrow> State_Monad.return (Some (build_reply D hdr None RFormatError [] full_edns))
      | Two_questions hdr e \<Rightarrow> State_Monad.return (Some (build_reply D hdr None RFormatError [] full_edns))
      | Refuse hdr q rc e \<Rightarrow> State_Monad.return (Some (render_or_nil D hdr (Some q) rc [] e))
      | Resolve hdr q e \<Rightarrow> do {
          r \<leftarrow> resolve_query C S q;
          State_Monad.return (map_option (\<lambda>(as, rc). render_or_nil D hdr (Some q) rc as e) r) })"

section \<open>The TCP server\<close>

text \<open>\<^verbatim>\<open>BigEndian.Uint16\<close>, and \<^verbatim>\<open>BigEndian.PutUint16\<close> of \<^verbatim>\<open>uint16(n)\<close>.\<close>

definition be16 :: "octet \<Rightarrow> octet \<Rightarrow> nat" where
  "be16 a b = unat a * 256 + unat b"

definition put16 :: "nat \<Rightarrow> octet list" where
  "put16 n = [of_nat (n mod 2 ^ 16 div 256), of_nat (n mod 2 ^ 16 mod 256)]"

definition frame :: "octet list \<Rightarrow> octet list" where
  "frame m = put16 (length m) @ m"

text \<open>One connection: what it sent, and what it gets back. A short read ends it.\<close>

function tcp_loop :: "(octet list \<Rightarrow> 'e \<Rightarrow> octet list option \<times> 'e) \<Rightarrow> octet list \<Rightarrow> 'e \<Rightarrow> octet list" where
  "tcp_loop f input s =
     (case input of
        a # b # rest \<Rightarrow>
          (let n = be16 a b in
           if n = 0 \<or> length rest < n then []
           else case f (take n rest) s of
                  (None, s1) \<Rightarrow> []
                | (Some r, s1) \<Rightarrow> frame r @ tcp_loop f (drop n rest) s1)
      | _ \<Rightarrow> [])"
  by pat_completeness auto
termination
  by (relation "measure (\<lambda>(f, input, s). length input)") auto

declare tcp_loop.simps [simp del]

section \<open>Lemmas\<close>

text \<open>An answer that is sound for a question: nothing but records when it succeeded, each about the question's name, of class IN, not to be
  cached, and no IPv6 address where the network carries none.\<close>

definition record_ok :: "dns_config \<Rightarrow> question \<Rightarrow> rr \<Rightarrow> bool" where
  "record_ok C q r \<longleftrightarrow> rr_name r = qn_name q \<and> rr_class r = class_inet \<and> rr_ttl r = answer_ttl \<and> (rr_type r = TAAAA \<longrightarrow> cf_allowIPv6 C)"

definition answer_ok :: "dns_config \<Rightarrow> question \<Rightarrow> answered \<Rightarrow> bool" where
  "answer_ok C q r \<longleftrightarrow> (\<exists>as rc. r = Some (as, rc) \<and> (rc = RSuccess \<or> as = []) \<and> list_all (record_ok C q) as)"

definition settles :: "dns_config \<Rightarrow> question \<Rightarrow> ('e, answered) rm \<Rightarrow> bool" where
  "settles C q p \<longleftrightarrow> (\<forall>s. answer_ok C q (fst (run_state p s)))"

lemma settles_ret: "answer_ok C q r \<Longrightarrow> settles C q (State_Monad.return r)"
  by (simp add: settles_def State_Monad.return_def)

lemma settled_bind: "(\<And>x. settles C q (f x)) \<Longrightarrow> settles C q (State_Monad.bind p f)"
  by (simp add: settles_def State_Monad.bind_def split_beta)

lemma settled_sum:
  "(\<And>e. r = Inl e \<Longrightarrow> settles C q (f e)) \<Longrightarrow> (\<And>x. r = Inr x \<Longrightarrow> settles C q (g x)) \<Longrightarrow>
   settles C q (case r of Inl e \<Rightarrow> f e | Inr x \<Rightarrow> g x)"
  by (cases r) simp_all

lemma record_ok_of [simp]: "record_ok C q (rr_of q t b) \<longleftrightarrow> t \<noteq> TAAAA \<or> cf_allowIPv6 C"
  by (auto simp: record_ok_def rr_of_def)

lemma ok_none [simp]: "answer_ok C q (Some ([], rc))"
  by (simp add: answer_ok_def)

lemma list_answer_ok: "t \<noteq> TAAAA \<Longrightarrow> answer_ok C q (list_answer q t f r)"
  by (auto simp: list_answer_def answer_ok_def list_all_iff split: sum.splits)

lemma cname_answer_ok: "answer_ok C q (cname_answer C q r)"
  by (auto simp: cname_answer_def answer_ok_def split: sum.splits option.splits)

text \<open>Every address handed out has the family's form, so \<^verbatim>\<open>As4\<close> never panics with an IPv4 host alias.\<close>

lemma address_records_some:
  assumes "v6 \<longrightarrow> cf_allowIPv6 C" "\<forall>a \<in> set as. v6 \<or> is4 a"
  shows "\<exists>rs. address_records q v6 as = Some rs \<and> list_all (record_ok C q) rs"
  using assms
proof (induction as)
  case (Cons a as)
  then obtain rs where "address_records q v6 as = Some rs" "list_all (record_ok C q) rs" by auto
  moreover have "v6 \<or> (\<exists>b. as4 a = Some b)" using Cons.prems by (cases a) auto
  ultimately show ?case using Cons.prems by auto
qed simp

lemma guest_addrs_is4: "is4 al \<or> \<not> is_valid al \<Longrightarrow> a \<in> set (guest_addrs ips al False) \<Longrightarrow> is4 a"
  using guest_addr_routable [of al False] by (fastforce simp: guest_addrs_first_seen set_map_filter routable_def)

lemma settled_address:
  assumes "is4 (cf_hostAlias C) \<or> \<not> is_valid (cf_hostAlias C)"
  shows "settles C q (address_answer C S q host v6)"
  unfolding address_answer_def
proof (intro settled_bind settled_sum settles_ret ok_none)
  fix ips
  show "settles C q (if v6 \<and> \<not> cf_allowIPv6 C then State_Monad.return (Some ([], RSuccess))
      else State_Monad.return (map_option (\<lambda>as. (as, RSuccess)) (address_records q v6 (guest_addrs ips (cf_hostAlias C) v6))))"
  proof (cases "v6 \<and> \<not> cf_allowIPv6 C")
    case False
    obtain rs where "address_records q v6 (guest_addrs ips (cf_hostAlias C) v6) = Some rs" "list_all (record_ok C q) rs"
      using address_records_some [of v6 C "guest_addrs ips (cf_hostAlias C) v6" q] guest_addrs_is4 [OF assms] False by (cases v6) auto
    then have "answer_ok C q (map_option (\<lambda>as. (as, RSuccess)) (address_records q v6 (guest_addrs ips (cf_hostAlias C) v6)))"
      by (simp add: answer_ok_def)
    then show ?thesis unfolding if_not_P [OF False] by (rule settles_ret)
  qed (simp add: settles_ret)
qed

lemma settled_typed:
  assumes "is4 (cf_hostAlias C) \<or> \<not> is_valid (cf_hostAlias C)"
  shows "settles C q (typed_answer C S q host)"
proof (cases "qn_type q")
  case TPTR
  have "settles C q (ptr_answer C S q)"
    unfolding ptr_answer_def
    by (cases "arpa_to_ip (cf_ip6 C) (canonical (qn_name q))") (auto intro!: settles_ret settled_bind list_answer_ok)
  then show ?thesis by (simp add: typed_answer_def TPTR)
qed (auto simp: typed_answer_def intro!: settled_bind settles_ret list_answer_ok cname_answer_ok settled_address [OF assms])

lemma alias_answer_ok: "answer_ok C q (Some (alias_answer q ip, RSuccess))"
  by (cases ip) (auto simp: answer_ok_def)

lemma status_answer_ok: "answer_ok C q (Some (status_answer C q, RSuccess))"
  by (auto simp: answer_ok_def status_answer_def)

lemma settled_resolve:
  assumes "is4 (cf_hostAlias C) \<or> \<not> is_valid (cf_hostAlias C)"
  shows "settles C q (resolve_query C S q)"
  unfolding resolve_query_def Let_def
  by (cases "map_of (cf_aliases C) (canonical (qn_name q))")
    (auto intro!: settles_ret alias_answer_ok status_answer_ok settled_typed [OF assms])

section \<open>Properties\<close>


lemma set_alias_keys: "map_of (foldl set_alias m as) k = None \<longleftrightarrow> map_of m k = None \<and> (\<forall>(n, ip) \<in> set as. is_valid ip \<longrightarrow> canonical n \<noteq> k)"
proof (induction as arbitrary: m)
  case (Cons p as)
  obtain n ip where p: "p = (n, ip)" by fastforce
  show ?case unfolding p using Cons.IH [of "set_alias m (n, ip)"] by (auto simp: set_alias_def)
qed simp

text \<open>Fact (functional): the names jm answers itself never reach the host's resolver: a question for a name in the alias table, however it is
  spelled, or for the resolver's own status, succeeds without a lookup, whatever type it asks for.\<close>

theorem alias_never_forwarded:
  assumes "cf_aliases C = set_aliases as" "(n, ip) \<in> set as" "is_valid ip" "canonical n = canonical (qn_name q)"
  shows "\<exists>rs. run_state (resolve_query C S q) s = (Some (rs, RSuccess), s)"
proof -
  have "map_of (cf_aliases C) (canonical (qn_name q)) \<noteq> None"
    using assms by (auto simp: set_aliases_def set_alias_keys)
  then show ?thesis by (auto simp: resolve_query_def Let_def State_Monad.return_def)
qed

text \<open>Fact (error): a failure of the host's resolver stays a failure: an address lookup that fails answers NXDOMAIN when the host says that
  there is no such name and SERVFAIL otherwise, with no record from any other source, for both address families.\<close>

theorem lookup_failure_reported:
  assumes "sy_ip S (trim_suffix (canonical (qn_name q)) ''.'') s = (Inl e, s')" "qn_type q \<in> {TA, TAAAA}"
    and "canonical (qn_name q) \<noteq> status_fqdn" "map_of (cf_aliases C) (canonical (qn_name q)) = None"
  shows "run_state (resolve_query C S q) s = (Some ([], case e of NotFound _ \<Rightarrow> RNameError | Failed _ \<Rightarrow> RServerFailure), s')"
  using assms
  by (auto simp: resolve_query_def Let_def typed_answer_def address_answer_def State_Monad.bind_def State_Monad.return_def fail_code_def)

lemma udp_size_bounds: "512 \<le> udp_size e \<and> udp_size e \<le> 4096"
  by (simp add: udp_size_def min_udp_size_def max_udp_size_def)

text \<open>Fact (bounds): a UDP reply fits what the client said it can take: whatever the answer, the reply is at most the client's EDNS size kept
  between 512 and 4096 bytes, or it is the question alone with the TC bit, which tells the client to ask over TCP; given that
  the wire library renders at most 512 bytes for a message without records.\<close>

theorem udp_reply_fits:
  assumes "\<And>hdr q e m. wi_build D hdr (render_calls q [] e) = Some m \<Longrightarrow> length m \<le> 512"
    and "\<And>hdr q rc as e. wi_build D (reply_header hdr rc False) (render_calls q as e) \<noteq> None \<Longrightarrow>
      wi_build D (reply_header hdr rc True) (render_calls q [] e) \<noteq> None"
    and "build_reply D hdr q rc as e = Some m"
  shows "length m \<le> udp_size e \<and> udp_size e \<le> 4096"
proof -
  obtain m0 where m0: "render_or_nil D hdr q rc as e = Some m0" using assms(3) by (auto simp: build_reply_def split: option.splits)
  show ?thesis
  proof (cases "length m0 \<le> udp_size e")
    case True
    then show ?thesis using assms(3) m0 udp_size_bounds by (simp add: build_reply_def)
  next
    case False
    have full: "render D hdr q rc as e False \<noteq> None"
    proof
      assume "render D hdr q rc as e False = None"
      then have "render D hdr q RServerFailure [] e False = Some m0" using m0 by (simp add: render_or_nil_def)
      then have "length m0 \<le> 512" using assms(1) by (simp add: render_def)
      then show False using False udp_size_bounds [of e] by simp
    qed
    then have "render D hdr q rc [] e True \<noteq> None" unfolding render_def by (rule assms(2))
    then obtain t where t: "render D hdr q rc [] e True = Some t" by blast
    then have "m = t" using assms(3) m0 False by (simp add: build_reply_def)
    moreover have "length t \<le> 512" using assms(1) t by (simp add: render_def)
    ultimately show ?thesis using udp_size_bounds [of e] by simp
  qed
qed

text \<open>The client's side of a TCP connection: the messages in what it reads.\<close>

function unframe :: "octet list \<Rightarrow> octet list list" where
  "unframe input =
     (case input of
        a # b # rest \<Rightarrow>
          (let n = be16 a b in
           if n = 0 \<or> length rest < n then [] else take n rest # unframe (drop n rest))
      | _ \<Rightarrow> [])"
  by pat_completeness auto
termination
  by (relation "measure length") auto

declare unframe.simps [simp del]

text \<open>The replies to a list of queries, up to the first that gets none.\<close>

fun replies :: "(octet list \<Rightarrow> 'e \<Rightarrow> octet list option \<times> 'e) \<Rightarrow> octet list list \<Rightarrow> 'e \<Rightarrow> octet list list" where
  "replies f [] s = []"
| "replies f (q # qs) s = (case f q s of (None, s1) \<Rightarrow> [] | (Some r, s1) \<Rightarrow> r # replies f qs s1)"

lemma put16_be16: "\<exists>a b. put16 n = [a, b] \<and> be16 a b = n mod 2 ^ 16"
proof -
  define k where "k = n mod 2 ^ 16"
  have k: "k < 2 ^ 16" by (simp add: k_def)
  have "unat (of_nat (k div 256) :: octet) = k div 256" "unat (of_nat (k mod 256) :: octet) = k mod 256"
    using k by (simp_all add: unat_of_nat take_bit_eq_mod)
  then have "be16 (of_nat (k div 256)) (of_nat (k mod 256)) = k" by (simp add: be16_def)
  then show ?thesis unfolding put16_def k_def by blast
qed

lemma frame_head: "\<exists>a b. frame m = a # b # m \<and> be16 a b = length m mod 2 ^ 16"
  using put16_be16 [of "length m"] by (auto simp: frame_def)

lemma tcp_loop_frame:
  assumes "0 < length q" "length q < 2 ^ 16"
  shows "tcp_loop f (frame q @ rest) s = (case f q s of (None, s1) \<Rightarrow> [] | (Some r, s1) \<Rightarrow> frame r @ tcp_loop f rest s1)"
proof -
  obtain a b where ab: "frame q = a # b # q" "be16 a b = length q" using frame_head [of q] assms(2) by (metis mod_less)
  show ?thesis
    by (subst tcp_loop.simps) (use assms(1) in \<open>simp add: ab(1) ab(2) Let_def split: prod.split option.split\<close>)
qed

lemma tcp_loop_frames:
  "list_all (\<lambda>q. 0 < length q \<and> length q < 2 ^ 16) qs \<Longrightarrow> tcp_loop f (concat (map frame qs)) s = concat (map frame (replies f qs s))"
proof (induction qs arbitrary: s)
  case (Cons q qs)
  then show ?case using tcp_loop_frame [of q f "concat (map frame qs)" s] by (auto split: prod.splits option.splits)
qed (subst tcp_loop.simps, simp)

lemma unframe_frame:
  assumes "0 < length r" "length r < 2 ^ 16"
  shows "unframe (frame r @ rest) = r # unframe rest"
proof -
  obtain a b where ab: "frame r = a # b # r" "be16 a b = length r" using frame_head [of r] assms(2) by (metis mod_less)
  show ?thesis by (subst unframe.simps) (use assms(1) in \<open>simp add: ab(1) ab(2) Let_def\<close>)
qed

lemma unframe_frames: "list_all (\<lambda>r. 0 < length r \<and> length r < 2 ^ 16) rs \<Longrightarrow> unframe (concat (map frame rs)) = rs"
proof (induction rs)
  case (Cons r rs)
  then show ?case using unframe_frame [of r "concat (map frame rs)"] by simp
qed (subst unframe.simps, simp)

text \<open>Fact (roundtrip): a TCP connection carries every exchange in order: when a client sends queries one after another, what it reads back is
  the replies to them in that order, up to the first query that gets none, where the connection closes; for queries and replies
  that fit the 16-bit length.\<close>

theorem tcp_in_order:
  assumes "list_all (\<lambda>q. 0 < length q \<and> length q < 2 ^ 16) qs"
    and "list_all (\<lambda>r. 0 < length r \<and> length r < 2 ^ 16) (replies f qs s)"
  shows "unframe (tcp_loop f (concat (map frame qs)) s) = replies f qs s"
  unfolding tcp_loop_frames [OF assms(1)] by (rule unframe_frames [OF assms(2)])

lemma take_mod_iff: "0 < k \<Longrightarrow> take (length r mod k) r = r \<longleftrightarrow> length r < k"
  by (cases "length r < k") (simp_all add: take_all_iff not_le less_le_trans [OF mod_less_divisor])


text \<open>Fact (roundtrip): \<^verbatim>\<open>jm doctor\<close> learns how the serving process resolves: the status record the resolver answers with, read back by
  \<^verbatim>\<open>ParseStatus\<close>, is its mode, and no lookup is made for it.\<close>

theorem status_roundtrip:
  assumes "canonical (qn_name q) = status_fqdn" "qn_type q = TTXT" "trim_space (status_prefix @ cf_mode C) = status_prefix @ cf_mode C"
  shows "\<exists>r t. run_state (resolve_query C S q) s = (Some ([r], RSuccess), s) \<and> rr_body r = BTXT t \<and> parse_status t = Some (cf_mode C)"
  using assms
  by (simp add: resolve_query_def State_Monad.return_def status_answer_def rr_of_def cut_prefix_def)

section \<open>Witnesses\<close>

text \<open>A host that knows one name with three addresses (one of them the loopback), and a wire library that writes a byte per call.\<close>

definition demo_sys :: "unit sys" where
  "demo_sys =
     \<lparr>sy_ip = (\<lambda>h s. (if h = ''db.corp'' then Inr [[10, 0, 0, 7], [127, 0, 0, 1], [0, 0, 0, 0]] else Inl (NotFound h), s)),
      sy_cname = (\<lambda>h s. (Inl (Failed h), s)), sy_ptr = (\<lambda>h s. (Inr [], s)), sy_txt = (\<lambda>h s. (Inr [], s)), sy_srv = (\<lambda>h s. (Inr [], s)),
      sy_mx = (\<lambda>h s. (Inr [], s)), sy_ns = (\<lambda>h s. (Inr [], s))\<rparr>"

definition demo_dns :: dns_config where
  "demo_dns =
     \<lparr>cf_hostAlias = IP4 192 168 127 254, cf_allowIPv6 = False, cf_mode = ''host'',
      cf_aliases = set_aliases [(''Host.Docker.Internal'', IP4 192 168 127 254)], cf_name = Some, cf_ip6 = (\<lambda>t. None)\<rparr>"

definition demo_question :: "string \<Rightarrow> qtype \<Rightarrow> question" where
  "demo_question n t = \<lparr>qn_name = n, qn_type = t, qn_class = 1\<rparr>"

lemma demo_name: "qn_name (demo_question n t) = n"
  by (simp add: demo_question_def)

definition demo_wire :: "unit wire_lib" where
  "demo_wire =
     \<lparr>wi_start = (\<lambda>m. None), wi_question = (\<lambda>p. (Inl True, p)), wi_skipQuestions = (\<lambda>p. (True, p)), wi_skipAnswers = (\<lambda>p. (True, p)),
      wi_skipAuthorities = (\<lambda>p. (True, p)), wi_additional = (\<lambda>p. (None, p)), wi_skipAdditional = (\<lambda>p. (True, p)),
      wi_build = (\<lambda>h cs. Some (replicate (length cs) 0))\<rparr>"

definition demo_header :: dns_header where
  "demo_header = \<lparr>dh_id = 7, dh_response = False, dh_opcode = 0, dh_recursionDesired = True, dh_recursionAvailable = False,
     dh_truncated = False, dh_rcode = RSuccess\<rparr>"


theorem alias_never_forwarded_witness:
  "\<exists>rs. run_state (resolve_query demo_dns demo_sys (demo_question ''host.docker.internal.'' TAAAA)) () = (Some (rs, RSuccess), ())"
  by (rule alias_never_forwarded [of demo_dns "[(''Host.Docker.Internal'', IP4 192 168 127 254)]" "''Host.Docker.Internal''" "IP4 192 168 127 254"])
    (simp_all add: demo_dns_def, code_simp)

theorem lookup_failure_reported_witness:
  "run_state (resolve_query demo_dns demo_sys (demo_question ''no.such.'' TA)) () = (Some ([], RNameError), ())"
proof -
  have n: "trim_suffix (canonical ''no.such.'') ''.'' = ''no.such''" "canonical ''no.such.'' \<noteq> status_fqdn"
    "map_of (cf_aliases demo_dns) (canonical ''no.such.'') = None" by code_simp+
  have "run_state (resolve_query demo_dns demo_sys (demo_question ''no.such.'' TA)) () =
      (Some ([], case NotFound ''no.such'' of NotFound _ \<Rightarrow> RNameError | Failed _ \<Rightarrow> RServerFailure), ())"
    by (rule lookup_failure_reported) (simp_all add: demo_question_def n demo_sys_def)
  then show ?thesis by simp
qed

theorem udp_reply_fits_witness:
  "length (replicate 4 0 :: octet list) \<le> udp_size no_edns \<and> udp_size no_edns \<le> 4096"
proof (rule udp_reply_fits [where D = demo_wire and hdr = demo_header and q = "Some (demo_question ''db.corp.'' TA)" and rc = RSuccess and as = "[rr_of (demo_question ''db.corp.'' TA) TA (BA [1])]"])
  show "build_reply demo_wire demo_header (Some (demo_question ''db.corp.'' TA)) RSuccess [rr_of (demo_question ''db.corp.'' TA) TA (BA [1])] no_edns =
      Some (replicate 4 0)" by code_simp
qed (auto simp: demo_wire_def render_calls_def split: option.splits)

theorem tcp_in_order_witness:
  "unframe (tcp_loop (\<lambda>q s. (Some (rev q), s)) (concat (map frame [[1, 2], [3 :: octet]])) ()) = [[2, 1], [3]]"
  using tcp_in_order [of "[[1, 2], [3 :: octet]]" "\<lambda>q s. (Some (rev q), s)" "()"] by simp

theorem status_roundtrip_witness:
  "\<exists>r t. run_state (resolve_query demo_dns demo_sys (demo_question ''resolver.jailmachine.internal.'' TTXT)) () = (Some ([r], RSuccess), ()) \<and>
    rr_body r = BTXT t \<and> parse_status t = Some (cf_mode demo_dns)"
proof -
  have "canonical ''resolver.jailmachine.internal.'' = status_fqdn" "trim_space (status_prefix @ cf_mode demo_dns) = status_prefix @ cf_mode demo_dns"
    by code_simp+
  then show ?thesis by (intro status_roundtrip) (simp_all add: demo_question_def)
qed

end
