(* ===== verification/Resolver_Process.thy ===== *)
theory Resolver_Process
  imports Procx Resolver_Handler
begin

text \<open>
  The resolver as a process and its clients (\<^verbatim>\<open>internal/resolver/process.go\<close>, \<^verbatim>\<open>client.go\<close> and the listeners of \<^verbatim>\<open>serve.go\<close>): how it is
  recognised, the files it publishes its address and its port in, starting and stopping it, binding one port on UDP and
  TCP, and the queries \<^verbatim>\<open>jm doctor\<close> asks a running one.
\<close>

section \<open>Command line and files\<close>

record rproc =
  rp_name :: string
  rp_root :: string

definition resolver_command :: string where "resolver_command = ''_resolver''"

definition resolver_args :: "rproc \<Rightarrow> string list" where
  "resolver_args p = [''--state-root'', rp_root p, resolver_command, rp_name p]"

definition resolver_is_ours :: "string \<Rightarrow> rproc \<Rightarrow> bool" where
  "resolver_is_ours argv0 p =
     (let argv = '' '' @ argv0 @ '' '' in
      contains argv ('' --state-root '' @ rp_root p @ '' '') \<and>
      contains argv ('' '' @ resolver_command @ '' '' @ rp_name p @ '' ''))"

datatype res_file = RPid | RAddr | RPort

text \<open>A file's text, \<open>None\<close> when it cannot be read.\<close>

definition res_read_pid :: "string option \<Rightarrow> int option" where
  "res_read_pid f =
     (case f of
        None \<Rightarrow> None
      | Some t \<Rightarrow> (case atoi (trim_space t) of None \<Rightarrow> None | Some pid \<Rightarrow> (if pid \<le> 0 then None else Some pid)))"

definition res_addr :: "string option \<Rightarrow> string" where
  "res_addr f = (case f of None \<Rightarrow> [] | Some t \<Rightarrow> trim_space t)"

text \<open>\<^verbatim>\<open>net.SplitHostPort\<close>: a host in brackets or without a colon, a colon, a port.\<close>

definition split_host_port :: "string \<Rightarrow> (string \<times> string) option" where
  "split_host_port s =
     (case cut CHR '':'' (rev s) of
        (_, None) \<Rightarrow> None
      | (p, Some h) \<Rightarrow>
          (if hd s = CHR ''['' then
             (case cut CHR '']'' s of
                (b, Some r) \<Rightarrow>
                  (if r = CHR '':'' # rev p \<and> CHR ''['' \<notin> set (tl s) \<and> CHR '']'' \<notin> set r then Some (tl b, rev p) else None)
              | (_, None) \<Rightarrow> None)
           else if CHR '':'' \<in> set h \<or> CHR ''['' \<in> set s \<or> CHR '']'' \<in> set s then None
           else Some (rev h, rev p)))"

definition res_port :: "string option \<Rightarrow> int" where
  "res_port f =
     (case split_host_port (res_addr f) of None \<Rightarrow> 0 | Some (_, port) \<Rightarrow> (case atoi port of None \<Rightarrow> 0 | Some n \<Rightarrow> n))"

definition last_port :: "string option \<Rightarrow> int" where
  "last_port f =
     (case f of
        None \<Rightarrow> 0
      | Some t \<Rightarrow> (case atoi (trim_space t) of None \<Rightarrow> 0 | Some n \<Rightarrow> (if n < 1 \<or> n > 65535 then 0 else n)))"

section \<open>The process\<close>

datatype rknow = KResolver int

record 'e renv =
  re_proc :: "'e penv"
  re_self :: rproc
  re_read :: "res_file \<Rightarrow> 'e \<Rightarrow> string option \<times> 'e"
  re_command :: "int \<Rightarrow> 'e \<Rightarrow> string \<times> 'e"
  re_write :: "res_file \<Rightarrow> string \<Rightarrow> 'e \<Rightarrow> string option \<times> 'e"
  re_remove :: "res_file \<Rightarrow> 'e \<Rightarrow> string option \<times> 'e"
  re_launch :: "string list \<Rightarrow> 'e \<Rightarrow> (string + string) \<times> 'e"
  re_tail :: "'e \<Rightarrow> string \<times> 'e"

type_synonym ('e, 'a) resm = "('e, res_file, rknow, 'a) pm"

definition res_write :: "'e renv \<Rightarrow> res_file \<Rightarrow> string \<Rightarrow> ('e, string option) resm" where
  "res_write R f t = acts (\<lambda>_. PWrite f t) (re_write R f t)"

definition res_remove :: "'e renv \<Rightarrow> res_file \<Rightarrow> ('e, string option) resm" where
  "res_remove R f = acts (\<lambda>_. PRemove f) (re_remove R f)"

definition res_alive :: "'e renv \<Rightarrow> ('e, int option) resm" where
  "res_alive R = do {
     f \<leftarrow> asks (re_read R RPid);
     case res_read_pid f of
       None \<Rightarrow> State_Monad.return None
     | Some pid \<Rightarrow> do {
         c \<leftarrow> asks (re_command R pid);
         if resolver_is_ours c (re_self R) then do { emit (PKnow (KResolver pid)); State_Monad.return (Some pid) }
         else State_Monad.return None } }"

definition published_addr :: "'e renv \<Rightarrow> ('e, string) resm" where
  "published_addr R = do { f \<leftarrow> asks (re_read R RAddr); State_Monad.return (res_addr f) }"

definition publish_addr :: "'e renv \<Rightarrow> string \<Rightarrow> ('e, string option) resm" where
  "publish_addr R addr = do {
     e \<leftarrow> (case split_host_port addr of None \<Rightarrow> State_Monad.return None | Some (_, port) \<Rightarrow> res_write R RPort (port @ [CHR 0x0A]));
     case e of Some t \<Rightarrow> State_Monad.return (Some t) | None \<Rightarrow> res_write R RAddr (addr @ [CHR 0x0A]) }"

definition res_turns :: nat where "res_turns = 5000 div 50 + 1"

definition res_end :: "'e renv \<Rightarrow> int \<Rightarrow> ('e, string option) resm" where
  "res_end R pid = do {
     s \<leftarrow> signal_group (re_proc R) pid SIGTERM;
     a \<leftarrow> (if s = None \<or> s = Some ErrSelf then State_Monad.return False else proc_alive (re_proc R) pid);
     if s = Some ErrSelf then State_Monad.return (Some (''resolver: resolver.pid names this process (pid '' @ itoa pid @ ''); refusing to signal it''))
     else if a then State_Monad.return (Some (''resolver: SIGTERM pid '' @ itoa pid))
     else do {
       x \<leftarrow> wait_exit res_turns (re_proc R) pid;
       if x then State_Monad.return None
       else do {
         _ \<leftarrow> signal_group (re_proc R) pid SIGKILL;
         y \<leftarrow> wait_exit res_turns (re_proc R) pid;
         State_Monad.return (if y then None else Some (''resolver: pid '' @ itoa pid @ '' did not exit after SIGKILL'')) } } }"

definition res_stop :: "'e renv \<Rightarrow> ('e, string option) resm" where
  "res_stop R = do {
     live \<leftarrow> res_alive R;
     e \<leftarrow> (case live of None \<Rightarrow> State_Monad.return None | Some pid \<Rightarrow> res_end R pid);
     case e of Some t \<Rightarrow> State_Monad.return (Some t) | None \<Rightarrow> res_remove R RPid }"

definition res_start_turns :: nat where "res_start_turns = 10000 div 100 + 1"

text \<open>A resolver just launched: until it publishes its address.\<close>

fun res_wait :: "nat \<Rightarrow> 'e renv \<Rightarrow> int \<Rightarrow> ('e, string option) resm" where
  "res_wait n R pid = do {
     a \<leftarrow> published_addr R;
     if a \<noteq> [] then State_Monad.return None
     else do {
       l \<leftarrow> proc_alive (re_proc R) pid;
       if \<not> l then do {
         _ \<leftarrow> res_remove R RPid;
         t \<leftarrow> asks (re_tail R);
         State_Monad.return (Some (''resolver: exited before publishing its address: '' @ t)) }
       else do {
         late \<leftarrow> (case n of 0 \<Rightarrow> State_Monad.return True | Suc k \<Rightarrow> asks (pe_late (re_proc R)));
         if late then do {
           _ \<leftarrow> send_signal (re_proc R) pid SIGKILL;
           _ \<leftarrow> res_remove R RPid;
           t \<leftarrow> asks (re_tail R);
           State_Monad.return (Some (''resolver: timed out waiting for it to publish its address: '' @ t)) }
         else do {
           d \<leftarrow> asks (pe_done (re_proc R));
           if d then State_Monad.return (Some ''context canceled'')
           else (case n of 0 \<Rightarrow> State_Monad.return None | Suc k \<Rightarrow> res_wait k R pid) } } } }"

declare res_wait.simps [simp del]

definition res_launched :: "'e renv \<Rightarrow> int \<Rightarrow> ('e, string option) resm" where
  "res_launched R pid = do {
     emit (PSpawned pid);
     w \<leftarrow> res_write R RPid (itoa pid @ [CHR 0x0A]);
     case w of
       Some t \<Rightarrow> do { _ \<leftarrow> send_signal (re_proc R) pid SIGKILL; State_Monad.return (Some (''resolver: writing: '' @ t)) }
     | None \<Rightarrow> res_wait res_start_turns R pid }"

definition res_start :: "'e renv \<Rightarrow> string \<Rightarrow> ('e, string option) resm" where
  "res_start R exe = do {
     live \<leftarrow> res_alive R;
     a \<leftarrow> (if live = None then State_Monad.return [] else published_addr R);
     if a \<noteq> [] then State_Monad.return None
     else do {
       e \<leftarrow> res_stop R;
       case e of
         Some t \<Rightarrow> State_Monad.return (Some t)
       | None \<Rightarrow> do {
           _ \<leftarrow> res_remove R RAddr;
           l \<leftarrow> asks (re_launch R (exe # resolver_args (re_self R)));
           case launched l of
             Inl t \<Rightarrow> State_Monad.return (Some (''resolver: failed to start: '' @ t))
           | Inr pid \<Rightarrow> res_launched R pid } } }"

section \<open>The listeners\<close>

text \<open>\<open>udp p\<close> binds UDP on port \<open>p\<close> (0: any) and gives the port bound; \<open>tcp p\<close> binds TCP on \<open>p\<close>.\<close>

datatype lact = Bound_udp int | Bound_tcp int | Closed_udp int

definition listen_port :: "(int \<Rightarrow> 'e \<Rightarrow> (string + int) \<times> 'e) \<Rightarrow> (int \<Rightarrow> 'e \<Rightarrow> string option \<times> 'e) \<Rightarrow> int \<Rightarrow> ('e, lact, string + int) tm" where
  "listen_port udp tcp port = do {
     u \<leftarrow> asks (udp port);
     case u of
       Inl t \<Rightarrow> State_Monad.return (Inl t)
     | Inr p \<Rightarrow> do {
         emit (Bound_udp p);
         c \<leftarrow> asks (tcp port);
         case c of
           Some t \<Rightarrow> do { emit (Closed_udp p); State_Monad.return (Inl t) }
         | None \<Rightarrow> do { emit (Bound_tcp port); State_Monad.return (Inr p) } } }"

definition port_attempts :: nat where "port_attempts = 16"

fun listen_any :: "nat \<Rightarrow> string \<Rightarrow> (int \<Rightarrow> 'e \<Rightarrow> (string + int) \<times> 'e) \<Rightarrow> (int \<Rightarrow> 'e \<Rightarrow> string option \<times> 'e) \<Rightarrow> ('e, lact, string + int) tm" where
  "listen_any 0 lastErr udp tcp = State_Monad.return (Inl (''resolver: no port free on both udp and tcp after 16 tries: '' @ lastErr))"
| "listen_any (Suc n) lastErr udp tcp = do {
     u \<leftarrow> asks (udp 0);
     case u of
       Inl t \<Rightarrow> State_Monad.return (Inl (''resolver: listening: '' @ t))
     | Inr p \<Rightarrow> do {
         emit (Bound_udp p);
         c \<leftarrow> asks (tcp p);
         case c of
           Some t \<Rightarrow> do { emit (Closed_udp p); listen_any n t udp tcp }
         | None \<Rightarrow> do { emit (Bound_tcp p); State_Monad.return (Inr p) } } }"

definition listen :: "(int \<Rightarrow> 'e \<Rightarrow> (string + int) \<times> 'e) \<Rightarrow> (int \<Rightarrow> 'e \<Rightarrow> string option \<times> 'e) \<Rightarrow> int \<Rightarrow> ('e, lact, string + int) tm" where
  "listen udp tcp preferred = do {
     r \<leftarrow> (if preferred > 0 then listen_port udp tcp preferred else State_Monad.return (Inl []));
     case r of Inr p \<Rightarrow> State_Monad.return (Inr p) | Inl _ \<Rightarrow> listen_any port_attempts [] udp tcp }"

section \<open>The client\<close>

text \<open>A reply once parsed: \<open>pr_questions\<close> whether its questions could be skipped, \<open>pr_answers\<close> its answers or the parser's error.\<close>

record parsed_reply =
  pr_header :: dns_header
  pr_questions :: "string option"
  pr_answers :: "string + rr list"

datatype ask_err = AskErr string | NoSuchHost string | AskCode rcode

definition parse_reply :: "(octet list \<Rightarrow> string + parsed_reply) \<Rightarrow> octet list \<Rightarrow> nat \<Rightarrow> string \<Rightarrow> (ask_err + rr list) \<times> bool" where
  "parse_reply P msg ident name =
     (case P msg of
        Inl t \<Rightarrow> (Inl (AskErr (''resolver: unparsable reply: '' @ t)), False)
      | Inr r \<Rightarrow>
          (let h = pr_header r in
           if dh_id h \<noteq> ident \<or> \<not> dh_response h then (Inl (AskErr ''resolver: reply does not answer the query''), False)
           else case pr_questions r of
                  Some t \<Rightarrow> (Inl (AskErr t), dh_truncated h)
                | None \<Rightarrow>
                    (if dh_rcode h \<noteq> RSuccess
                     then (Inl (if dh_rcode h = RNameError then NoSuchHost name else AskCode (dh_rcode h)), dh_truncated h)
                     else case pr_answers r of
                            Inl t \<Rightarrow> (Inl (AskErr t), dh_truncated h)
                          | Inr as \<Rightarrow> (Inr as, dh_truncated h))))"

text \<open>The datagrams that arrive before the first read error, each with whether the deadline has passed after it.\<close>

fun ask_udp :: "nat \<Rightarrow> string \<Rightarrow> (octet list \<times> bool) list \<Rightarrow> ask_err + octet list" where
  "ask_udp ident err [] = Inl (AskErr err)"
| "ask_udp ident err ((d, late) # ds) =
     (if length d \<ge> 2 \<and> be16 (d ! 0) (d ! 1) = ident then Inr d
      else if late then Inl (AskErr ''resolver: no reply matching the query'')
      else ask_udp ident err ds)"

text \<open>What comes back over TCP: the length, then as many bytes.\<close>

definition ask_tcp :: "string \<Rightarrow> octet list \<Rightarrow> ask_err + octet list" where
  "ask_tcp err input =
     (case input of
        a # b # rest \<Rightarrow> (if length rest < be16 a b then Inl (AskErr err) else Inr (take (be16 a b) rest))
      | _ \<Rightarrow> Inl (AskErr err))"

text \<open>\<open>udp\<close> is the outcome of the datagram exchange, \<open>tcp\<close> of the retry.\<close>

definition ask_resolver :: "(octet list \<Rightarrow> string + parsed_reply) \<Rightarrow> nat \<Rightarrow> string \<Rightarrow> ask_err + octet list \<Rightarrow> ask_err + octet list \<Rightarrow> ask_err + rr list" where
  "ask_resolver P ident name udp tcp =
     (case udp of
        Inl e \<Rightarrow> Inl e
      | Inr reply \<Rightarrow>
          (case parse_reply P reply ident name of
             (Inl e, _) \<Rightarrow> Inl e
           | (Inr as, False) \<Rightarrow> Inr as
           | (Inr as, True) \<Rightarrow> (case tcp of Inl e \<Rightarrow> Inl e | Inr reply1 \<Rightarrow> fst (parse_reply P reply1 ident name))))"

definition addrs_of :: "rr list \<Rightarrow> addr list" where
  "addrs_of as = List.map_filter (\<lambda>r. case rr_body r of
     BA b \<Rightarrow> addr_from_slice b | BAAAA b \<Rightarrow> map_option unmap (addr_from_slice b) | _ \<Rightarrow> None) as"

definition txt_of :: "rr list \<Rightarrow> string list" where
  "txt_of as = concat (map (\<lambda>r. case rr_body r of BTXT t \<Rightarrow> t | _ \<Rightarrow> []) as)"

definition ask_mode :: "ask_err + rr list \<Rightarrow> ask_err + string" where
  "ask_mode r =
     (case r of
        Inl e \<Rightarrow> Inl e
      | Inr as \<Rightarrow>
          (case parse_status (txt_of as) of
             None \<Rightarrow> Inl (AskErr (''resolver.jailmachine.internal answered nothing that names a resolution path''))
           | Some m \<Rightarrow> Inr m))"

section \<open>What it signals and what it forgets\<close>

text \<open>What a command has learned: the processes recognised or started, and whether the published address was dropped.
  \<open>rs_ok\<close> falls when a signal goes to another process, or to the group of none of them, of everyone or of the caller, or when a
  resolver is started while an old address may still be read; \<open>rs_kept\<close> when the published address or port is touched.\<close>

record rseen =
  rs_procs :: "int set"
  rs_clear :: bool
  rs_ok :: bool
  rs_kept :: bool

fun res_judge :: "'e penv \<Rightarrow> rseen \<Rightarrow> (res_file, rknow) pact \<Rightarrow> rseen" where
  "res_judge P k (PKnow (KResolver pid)) = k\<lparr>rs_procs := insert pid (rs_procs k)\<rparr>"
| "res_judge P k (PSpawned pid) = k\<lparr>rs_procs := insert pid (rs_procs k), rs_ok := (rs_ok k \<and> rs_clear k)\<rparr>"
| "res_judge P k (PSignal t s) =
     k\<lparr>rs_ok := (rs_ok k \<and> (t \<in> rs_procs k \<or> rs_procs k \<noteq> {} \<and> t < -1 \<and> t \<noteq> - pe_group P))\<rparr>"
| "res_judge P k (PRemove f) = k\<lparr>rs_clear := (rs_clear k \<or> f = RAddr), rs_kept := (rs_kept k \<and> f = RPid)\<rparr>"
| "res_judge P k (PWrite f t) = k\<lparr>rs_kept := (rs_kept k \<and> f = RPid)\<rparr>"
| "res_judge P k (PRename f g) = k\<lparr>rs_kept := False\<rparr>"

definition res_nothing :: rseen where
  "res_nothing = \<lparr>rs_procs = {}, rs_clear = False, rs_ok = True, rs_kept = True\<rparr>"

definition rlater :: "bool \<Rightarrow> rseen \<Rightarrow> rseen \<Rightarrow> bool" where
  "rlater kept k k1 \<longleftrightarrow> rs_procs k \<subseteq> rs_procs k1 \<and> (rs_clear k \<longrightarrow> rs_clear k1) \<and> (rs_ok k \<longrightarrow> rs_ok k1) \<and>
     (kept \<longrightarrow> rs_kept k \<longrightarrow> rs_kept k1)"

interpretation seeing: growing "rlater b" "res_judge P" for b P
  by unfold_locales (auto simp: rlater_def)

abbreviation rfair :: "bool \<Rightarrow> 'e penv \<Rightarrow> rseen \<Rightarrow> ('e, 'a) resm \<Rightarrow> ('a \<Rightarrow> rseen \<Rightarrow> bool) \<Rightarrow> bool" where
  "rfair b P k p Q \<equiv> goes (rlater b) (res_judge P) k p Q"

abbreviation rfairly :: "bool \<Rightarrow> 'e penv \<Rightarrow> rseen \<Rightarrow> ('e, 'a) resm \<Rightarrow> bool" where
  "rfairly b P k p \<equiv> rfair b P k p (\<lambda>_ _. True)"

lemma rlater_proc: "rlater b k k1 \<Longrightarrow> pid \<in> rs_procs k \<Longrightarrow> pid \<in> rs_procs k1"
  by (auto simp: rlater_def)

lemma rfairly_alive: "rfairly b P k (proc_alive Q pid)"
  by (simp add: goes_def trail_alive rlater_def)

lemma rfairly_wait: "rfairly b P k (wait_exit n Q pid)"
  by (simp add: goes_def trail_wait_exit rlater_def)

lemma rfairly_signal: "t \<in> rs_procs k \<or> rs_procs k \<noteq> {} \<and> t < -1 \<and> t \<noteq> - pe_group P \<Longrightarrow> rfairly b P k (send_signal Q t s)"
  unfolding send_signal_def by (rule seeing.goes_acts) (auto simp: rlater_def)

lemma rfairly_one: "pid \<in> rs_procs k \<Longrightarrow> rfairly b P k (signal_one Q pid s)"
  unfolding signal_one_def by (intro seeing.goes_then rfairly_signal seeing.goes_ret) simp_all

lemma rfairly_group: "pid \<in> rs_procs k \<Longrightarrow> rfairly b P k (signal_group P pid s)"
  unfolding signal_group_def
  by (intro goes_if seeing.goes_then seeing.goes_ret seeing.goes_asks goes_option rfairly_one rfairly_signal TrueI)
    (auto dest: rlater_proc)

lemma rfairly_remove_pid: "rfairly b P k (res_remove R RPid)"
  unfolding res_remove_def by (rule seeing.goes_acts) (simp add: rlater_def)

lemma rfairly_write_pid: "rfairly b P k (res_write R RPid t)"
  unfolding res_write_def by (rule seeing.goes_acts) (simp add: rlater_def)

lemma rfair_remove_addr: "rfair False P k (res_remove R RAddr) (\<lambda>_ k1. rs_clear k1)"
  unfolding res_remove_def by (rule seeing.goes_acts) (simp add: rlater_def)

lemma rfairly_published: "rfairly b P k (published_addr R)"
  unfolding published_addr_def by (intro seeing.goes_then seeing.goes_asks seeing.goes_ret TrueI)

lemma rfair_alive: "rfair b P k (res_alive R) (\<lambda>r k1. \<forall>pid. r = Some pid \<longrightarrow> pid \<in> rs_procs k1)"
  unfolding goes_def res_alive_def by (intro trail_rules) (auto intro!: trail_rules simp: rlater_def)

lemma rfairly_end: "pid \<in> rs_procs k \<Longrightarrow> rfairly b (re_proc R) k (res_end R pid)"
  unfolding res_end_def
  by (intro seeing.goes_then rfairly_group goes_if seeing.goes_ret rfairly_alive rfairly_wait TrueI) (auto dest: rlater_proc)

lemma rfairly_stop: "rfairly b (re_proc R) k (res_stop R)"
  unfolding res_stop_def
  by (rule seeing.goes_bind [OF rfair_alive])
    (auto intro!: seeing.goes_then goes_option seeing.goes_ret rfairly_end rfairly_remove_pid)

lemma rfairly_res_wait: "pid \<in> rs_procs k \<Longrightarrow> rfairly b P k (res_wait n R pid)"
proof (induction n arbitrary: k)
  case 0
  show ?case
    by (subst res_wait.simps)
      (intro seeing.goes_then rfairly_published goes_if seeing.goes_ret rfairly_alive rfairly_remove_pid seeing.goes_asks rfairly_signal TrueI;
       use 0 in \<open>auto intro!: seeing.goes_ret rfairly_signal dest: rlater_proc\<close>)
next
  case (Suc n)
  show ?case
    by (subst res_wait.simps)
      (intro seeing.goes_then rfairly_published goes_if seeing.goes_ret rfairly_alive rfairly_remove_pid seeing.goes_asks rfairly_signal TrueI;
       use Suc in \<open>(auto intro!: seeing.goes_ret seeing.goes_asks rfairly_signal Suc.IH dest: rlater_proc)[1]\<close>)
qed

lemma rfairly_launched: "rs_clear k \<Longrightarrow> rfairly b P k (res_launched R pid)"
  unfolding res_launched_def
proof (rule seeing.goes_bind)
  show "rs_clear k \<Longrightarrow> rfair b P k (emit (PSpawned pid)) (\<lambda>_ k1. pid \<in> rs_procs k1)"
    by (rule seeing.goes_emit) (auto simp: rlater_def)
qed (intro seeing.goes_then rfairly_write_pid goes_option rfairly_signal rfairly_res_wait seeing.goes_ret TrueI; auto dest: rlater_proc)

lemma rfairly_start: "rfairly False (re_proc R) k (res_start R exe)"
proof -
  have go: "rfairly False (re_proc R) k1 (do {
      _ \<leftarrow> res_remove R RAddr;
      l \<leftarrow> asks (re_launch R (exe # resolver_args (re_self R)));
      case launched l of Inl t \<Rightarrow> State_Monad.return (Some (''resolver: failed to start: '' @ t)) | Inr pid \<Rightarrow> res_launched R pid })" for k1
  proof (rule seeing.goes_bind [OF rfair_remove_addr])
    fix x and k2 :: rseen assume c: "rs_clear k2"
    have "rfair False (re_proc R) k2 (asks (re_launch R (exe # resolver_args (re_self R)))) (\<lambda>_ k3. rs_clear k3)"
      by (rule seeing.goes_asks) (rule c)
    then show "rfairly False (re_proc R) k2 (do {
        l \<leftarrow> asks (re_launch R (exe # resolver_args (re_self R)));
        case launched l of Inl t \<Rightarrow> State_Monad.return (Some (''resolver: failed to start: '' @ t)) | Inr pid \<Rightarrow> res_launched R pid })"
      by (rule seeing.goes_bind) (auto intro!: goes_sum seeing.goes_ret rfairly_launched)
  qed
  show ?thesis unfolding res_start_def
    by (rule seeing.goes_bind [OF rfair_alive])
      (intro seeing.goes_then goes_if seeing.goes_ret rfairly_published rfairly_stop goes_option go TrueI)
qed

definition sees :: "'e renv \<Rightarrow> ('e, 'a) resm \<Rightarrow> 'e \<Rightarrow> rseen" where
  "sees R p e = foldl (res_judge (re_proc R)) res_nothing (trace_of p e)"


section \<open>The port\<close>

lemma trim_line: "w \<noteq> [] \<Longrightarrow> \<not> is_space (hd w) \<Longrightarrow> \<not> is_space (last w) \<Longrightarrow> trim_space (w @ [CHR 0x0A]) = w"
proof -
  assume w: "w \<noteq> []" "\<not> is_space (hd w)" "\<not> is_space (last w)"
  have "is_space (CHR 0x0A)" by (simp add: is_space_def)
  moreover have "dropWhile is_space (w @ [CHR 0x0A]) = w @ [CHR 0x0A]" using w by (cases w) auto
  moreover have "dropWhile is_space (rev w) = rev w" using w by (cases w rule: rev_cases) auto
  ultimately show ?thesis by (simp add: trim_space_def)
qed

text \<open>A port published on a line of its own reads back for the next start.\<close>

lemma itoa_ends: "0 \<le> n \<Longrightarrow> itoa n \<noteq> [] \<and> \<not> is_space (hd (itoa n)) \<and> \<not> is_space (last (itoa n))"
proof -
  assume n: "0 \<le> n"
  have s: "is_digit c \<Longrightarrow> \<not> is_space c" for c by (auto simp: is_digit_def is_space_def)
  have d: "\<And>c. c \<in> set (nat_digits (nat n)) \<Longrightarrow> is_digit c" using nat_digits_digits by (simp add: list_all_iff)
  show ?thesis using n s d by (simp add: itoa_def)
qed

lemma last_port_back: "1 \<le> p \<Longrightarrow> p \<le> 65535 \<Longrightarrow> last_port (Some (itoa p @ [CHR 0x0A])) = p"
  using itoa_ends [of p] atoi_itoa [of p]
  by (simp add: last_port_def trim_line min_int64_def max_int64_def)

text \<open>An address of a host without colons and brackets.\<close>

definition bare_host :: "string \<Rightarrow> bool" where
  "bare_host h \<longleftrightarrow> h \<noteq> [] \<and> \<not> is_space (hd h) \<and> set h \<inter> {CHR '':'', CHR ''['', CHR '']''} = {}"

lemma split_joined:
  assumes "bare_host h" and "list_all is_digit p"
  shows "split_host_port (join_host_port h p) = Some (h, p)"
proof -
  have d: "set p \<inter> {CHR '':'', CHR ''['', CHR '']''} = {}" using assms(2) by (auto simp: list_all_iff is_digit_def)
  have "cut CHR '':'' (rev p @ CHR '':'' # rev h) = (rev p, Some (rev h))" by (rule cut_join) (use d in auto)
  moreover have "hd (h @ CHR '':'' # p) \<noteq> CHR ''[''" using assms(1) by (cases h) (auto simp: bare_host_def)
  ultimately show ?thesis using assms d by (auto simp: split_host_port_def join_host_port_def bare_host_def)
qed

text \<open>Fact (roundtrip): what a resolver publishes reads back: publishing the address of a host and a port writes the port before the
  address, stops at the first write that fails, and the texts written give the port for the next start, and the address
  and its port to whoever asks the resolver.\<close>

theorem published_reads_back:
  assumes "bare_host h" and "1 \<le> p" and "p \<le> 65535"
  shows "\<exists>port a. trace_of (publish_addr R (join_host_port h (itoa p))) e \<in> {[PWrite RPort port], [PWrite RPort port, PWrite RAddr a]} \<and>
    (result_of (publish_addr R (join_host_port h (itoa p))) e = None \<longrightarrow>
      trace_of (publish_addr R (join_host_port h (itoa p))) e = [PWrite RPort port, PWrite RAddr a]) \<and>
    last_port (Some port) = p \<and> res_addr (Some a) = join_host_port h (itoa p) \<and> res_port (Some a) = p"
proof -
  let ?a = "join_host_port h (itoa p)"
  have s: "split_host_port ?a = Some (h, itoa p)"
    using assms nat_digits_digits by (intro split_joined) (simp_all add: itoa_def)
  have a: "res_addr (Some (?a @ [CHR 0x0A])) = ?a"
    unfolding res_addr_def option.case
    by (rule trim_line) (use assms itoa_ends [of p] in \<open>auto simp: join_host_port_def bare_host_def hd_append\<close>)
  have p: "res_port (Some (?a @ [CHR 0x0A])) = p"
    using assms atoi_itoa [of p] unfolding res_port_def a s by (simp add: min_int64_def max_int64_def)
  have t: "trace_of (publish_addr R ?a) e \<in> {[PWrite RPort (itoa p @ [CHR 0x0A])], [PWrite RPort (itoa p @ [CHR 0x0A]), PWrite RAddr (?a @ [CHR 0x0A])]} \<and>
    (result_of (publish_addr R ?a) e = None \<longrightarrow>
      trace_of (publish_addr R ?a) e = [PWrite RPort (itoa p @ [CHR 0x0A]), PWrite RAddr (?a @ [CHR 0x0A])])"
    unfolding publish_addr_def s
    by (simp add: res_write_def acts_def asks_def emit_def trace_of_def result_of_def State_Monad.bind_def State_Monad.return_def
        split: prod.splits option.splits)
  have l: "last_port (Some (itoa p @ [CHR 0x0A])) = p" by (rule last_port_back [OF assms(2,3)])
  show ?thesis
    by (rule exI [of _ "itoa p @ [CHR 0x0A]"], rule exI [of _ "?a @ [CHR 0x0A]"])
      (intro conjI; (rule conjunct1 [OF t] | rule conjunct2 [OF t] | rule l | rule a | rule p))
qed

definition demo_renv :: "unit renv" where
  "demo_renv = \<lparr>re_proc = \<lparr>pe_self = 1, pe_group = 1, pe_kill = (\<lambda>_ _ e. (KillOk, e)), pe_probe = (\<lambda>_ e. (KillErr [], e)),
       pe_zombie = (\<lambda>_ e. (False, e)), pe_getpgid = (\<lambda>_ e. (None, e)), pe_late = (\<lambda>e. (False, e)), pe_done = (\<lambda>e. (False, e))\<rparr>,
     re_self = \<lparr>rp_name = ''m'', rp_root = ''r''\<rparr>, re_read = (\<lambda>_ e. (None, e)), re_command = (\<lambda>_ e. ([], e)),
     re_write = (\<lambda>f _ e. (if f = RAddr then Some ''disk full'' else None, e)), re_remove = (\<lambda>_ e. (None, e)),
     re_launch = (\<lambda>_ e. (Inr ''78'', e)), re_tail = (\<lambda>e. ([], e))\<rparr>"

theorem published_reads_back_witness:
  "\<exists>port a. trace_of (publish_addr demo_renv (join_host_port ''127.0.0.1'' (itoa 5353))) () \<in>
       {[PWrite RPort port], [PWrite RPort port, PWrite RAddr a]} \<and> last_port (Some port) = 5353 \<and> res_port (Some a) = 5353"
proof -
  have h: "bare_host ''127.0.0.1''" by (simp add: bare_host_def is_space_def)
  show ?thesis using published_reads_back [OF h, of 5353 demo_renv "()"] by auto
qed

section \<open>Both sockets or none\<close>

text \<open>The UDP and the TCP ports bound and not closed again.\<close>

fun sockets :: "int list \<times> int list \<Rightarrow> lact \<Rightarrow> int list \<times> int list" where
  "sockets (us, ts) (Bound_udp p) = (p # us, ts)"
| "sockets (us, ts) (Bound_tcp p) = (us, p # ts)"
| "sockets (us, ts) (Closed_udp p) = (remove1 p us, ts)"

definition one_port :: "string + int \<Rightarrow> int list \<times> int list \<Rightarrow> bool" where
  "one_port r s \<longleftrightarrow> (case r of Inl _ \<Rightarrow> s = ([], []) | Inr p \<Rightarrow> s = ([p], [p]))"

text \<open>A port asked for is the port bound.\<close>

definition honest_bind :: "(int \<Rightarrow> 'e \<Rightarrow> (string + int) \<times> 'e) \<Rightarrow> bool" where
  "honest_bind udp \<longleftrightarrow> (\<forall>port e p. port > 0 \<longrightarrow> fst (udp port e) = Inr p \<longrightarrow> p = port)"

lemma trail_asks_known: "(\<And>e. T (fst (f e)) q) \<Longrightarrow> trail D q (asks f) T"
  by (rule trail_silent) (simp_all add: asks_def split_beta)

lemma one_port_ends: "one_port (Inl t) ([], [])" "one_port (Inr p) ([p], [p])"
  by (simp_all add: one_port_def)

lemma sockets_back:
  "sockets (sockets ([], []) (Bound_udp p)) (Closed_udp p) = ([], [])"
  "sockets (sockets ([], []) (Bound_udp p)) (Bound_tcp p) = ([p], [p])"
  by simp_all

lemma trail_listen_port:
  assumes "honest_bind udp" and "port > 0"
  shows "trail sockets ([], []) (listen_port udp tcp port) one_port"
proof -
  have u: "trail sockets ([], []) (asks (udp port)) (\<lambda>u s. s = ([], []) \<and> (\<forall>p. u = Inr p \<longrightarrow> p = port))"
    by (rule trail_asks_known) (use assms in \<open>auto simp: honest_bind_def\<close>)
  show ?thesis unfolding listen_port_def
    by (rule trail_bind [OF u]) (elim conjE, hypsubst, intro trail_then trail_asks trail_sum trail_option trail_emit trail_ret one_port_ends,
      auto simp: one_port_def)
qed

lemma trail_listen_any: "trail sockets ([], []) (listen_any n t udp tcp) one_port"
proof (induction n arbitrary: t)
  case 0
  show ?case unfolding listen_any.simps by (rule trail_ret) (rule one_port_ends)
next
  case (Suc n)
  show ?case unfolding listen_any.simps
    by (intro trail_then trail_asks trail_sum trail_option trail_emit trail_ret one_port_ends; unfold sockets_back;
        intro trail_ret one_port_ends Suc.IH)
qed

text \<open>Fact (safety): the resolver listens on one port or on none: whichever binds fail, for the preferred port or for the ones the kernel picks,
  \<^verbatim>\<open>Listen\<close> ends with exactly one UDP and one TCP socket open, on the port it returns, or with an error and no socket left.\<close>

theorem listen_one_port:
  assumes "honest_bind udp"
  shows "one_port (result_of (listen udp tcp preferred) e) (foldl sockets ([], []) (trace_of (listen udp tcp preferred) e))"
proof -
  have go: "trail sockets s (case r of Inl _ \<Rightarrow> listen_any port_attempts [] udp tcp | Inr p \<Rightarrow> State_Monad.return (Inr p)) one_port"
    if "one_port r s" for r s
    using that trail_listen_any by (cases r) (auto simp: one_port_def intro!: trail_ret)
  have first: "trail sockets ([], []) (if preferred > 0 then listen_port udp tcp preferred else State_Monad.return (Inl [])) one_port"
    using trail_listen_port [OF assms] by (auto simp: one_port_def intro!: trail_ret)
  show ?thesis
    by (rule trailD) (unfold listen_def, rule trail_bind [OF first], rule go)
qed

theorem listen_one_port_witness:
  "trace_of (listen (\<lambda>p e. (Inr (if p > 0 then p else 4000), e)) (\<lambda>p e. (if p = 53 then Some ''in use'' else None, e)) 53) () =
     [Bound_udp 53, Closed_udp 53, Bound_udp 4000, Bound_tcp 4000] \<and>
   one_port (result_of (listen (\<lambda>p e. (Inr (if p > 0 then p else 4000), e)) (\<lambda>p e. (if p = 53 then Some ''in use'' else None, e)) 53) ())
     ([4000], [4000])"
proof -
  let ?u = "\<lambda>p e. (Inr (if p > 0 then p else 4000), e) :: (string + int) \<times> unit"
  let ?t = "\<lambda>p e. (if p = 53 then Some ''in use'' else None, e) :: string option \<times> unit"
  have t: "trace_of (listen ?u ?t 53) () = [Bound_udp 53, Closed_udp 53, Bound_udp 4000, Bound_tcp 4000]"
    by code_simp
  have "honest_bind ?u" by (simp add: honest_bind_def)
  from listen_one_port [OF this, of ?t 53 "()"] t show ?thesis by simp
qed

end
