(* ===== verification/Resolver_Guest.thy ===== *)
theory Resolver_Guest
  imports Resolver_Names
begin

text \<open>
  The guest's half of name resolution (\<^verbatim>\<open>internal/resolver/guest.go\<close>): the files jm writes into the guest and the shell program that
  installs them. Files are lists of lines; \<open>unlines\<close> ends each with a newline.
\<close>

section \<open>The files\<close>

definition lf :: char where "lf = CHR 0x0A"
definition htab :: char where "htab = CHR 0x09"

definition unlines :: "string list \<Rightarrow> string" where
  "unlines ls = concat (map (\<lambda>l. l @ [lf]) ls)"

record guest_config =
  gc_upstreamIP :: string
  gc_upstreamPort :: int
  gc_nameserver :: string
  gc_hostAlias :: string
  gc_search :: "string list"

text \<open>\<open>perr\<close> is \<^verbatim>\<open>netip.ParseAddr\<close>: the error's text, or \<open>None\<close> for an address.\<close>

definition bad_addr :: "(string \<Rightarrow> string option) \<Rightarrow> string \<Rightarrow> string \<Rightarrow> string option" where
  "bad_addr perr what a = (case perr a of None \<Rightarrow> None | Some t \<Rightarrow> Some (''resolver: bad '' @ what @ '' '' @ quote a @ '': '' @ t))"

definition gc_validate :: "(string \<Rightarrow> string option) \<Rightarrow> guest_config \<Rightarrow> string option" where
  "gc_validate perr g =
     (case bad_addr perr ''upstream address'' (gc_upstreamIP g) of
        Some t \<Rightarrow> Some t
      | None \<Rightarrow>
          if gc_upstreamPort g < 1 \<or> gc_upstreamPort g > 65535 then Some (''resolver: bad upstream port '' @ itoa (gc_upstreamPort g))
          else case bad_addr perr ''nameserver address'' (gc_nameserver g) of
                 Some t \<Rightarrow> Some t
               | None \<Rightarrow>
                   (case bad_addr perr ''host alias'' (gc_hostAlias g) of
                      Some t \<Rightarrow> Some t
                    | None \<Rightarrow>
                        (case List.find (\<lambda>d. \<not> plausible_domain d) (gc_search g) of
                           Some d \<Rightarrow> Some (''resolver: bad search domain '' @ quote d)
                         | None \<Rightarrow> None)))"

definition generated_tag :: string where "generated_tag = ''Generated by jailmachine (jm)''"

definition generated_header :: string where
  "generated_header = ''# '' @ generated_tag @ ''; ADR 0008, name resolution parity.''"

definition special_use_zones :: "string list" where
  "special_use_zones = [''test.'', ''invalid.'', ''home.arpa.'', ''onion.'']"

definition unbound_lines :: "guest_config \<Rightarrow> string list" where
  "unbound_lines g =
     [generated_header,
      ''# Every query is forwarded to the host resolver, which answers through'',
      ''# the host operating system's own resolution API. Do not edit: jm start'',
      ''# rewrites this file, and the upstream port changes between runs.'',
      ''server:''] @
     map ((#) htab)
       ([''verbosity: 0'', ''username: unbound'', ''directory: '' @ quote ''/var/unbound'', ''chroot: '' @ quote [],
         ''pidfile: '' @ quote ''/var/run/local_unbound.pid'', ''port: 53'', ''interface: 127.0.0.1'', ''interface: '' @ gc_nameserver g,
         ''access-control: 0.0.0.0/0 allow'', ''do-ip6: no'', ''module-config: '' @ quote ''iterator'', ''cache-max-ttl: 0'',
         ''cache-max-negative-ttl: 0'', ''prefetch: no'', ''qname-minimisation: no'', ''unblock-lan-zones: yes'',
         ''insecure-lan-zones: yes'', ''domain-insecure: '' @ quote ''.'', ''local-zone: '' @ quote ''local.'' @ '' nodefault'',
         ''local-zone: '' @ quote ''254.169.in-addr.arpa.'' @ '' nodefault''] @
        map (\<lambda>z. ''local-zone: '' @ quote z @ '' nodefault'') special_use_zones @
        [''hide-identity: yes'', ''hide-version: yes'']) @
     [''forward-zone:'', htab # ''name: '' @ quote ''.'',
      htab # ''forward-addr: '' @ gc_upstreamIP g @ ''@'' @ itoa (gc_upstreamPort g)]"

definition containers_lines :: "guest_config \<Rightarrow> string list" where
  "containers_lines g = [generated_header, ''[containers]'', ''host_containers_internal_ip = '' @ quote (gc_hostAlias g)]"

definition resolv_lines :: "guest_config \<Rightarrow> string list" where
  "resolv_lines g =
     [generated_header, ''# The single nameserver forwards every query to the host resolver.''] @
     (if gc_search g \<noteq> [] then [''search '' @ join '' '' (gc_search g)] else []) @
     [''nameserver '' @ gc_nameserver g]"

section \<open>The program\<close>

text \<open>\<^verbatim>\<open>writeFile\<close>: a here-document, then the file in place when it differs.\<close>

definition write_file :: "string \<Rightarrow> string \<Rightarrow> string list \<Rightarrow> string \<Rightarrow> string list" where
  "write_file marker path content on_change =
     [''cat > '' @ path @ ''.jm <<'' @ CHR 0x27 # marker @ ''_EOF'' @ [CHR 0x27]] @ content @ [marker @ ''_EOF''] @
     [''if cmp -s '' @ path @ ''.jm '' @ path @ ''; then'', htab # ''rm -f '' @ path @ ''.jm'', ''else'', htab # ''mv '' @ path @ ''.jm '' @ path] @
     (if on_change \<noteq> [] then [htab # on_change] else []) @
     [''fi'']"

definition shell_single_quote :: "string \<Rightarrow> string" where
  "shell_single_quote s = CHR 0x27 # concat (map (\<lambda>c. if c = CHR 0x27 then [CHR 0x27, CHR 0x5C, CHR 0x27, CHR 0x27] else [c]) s) @ [CHR 0x27]"

definition owns_resolv_conf_cmd :: string where
  "owns_resolv_conf_cmd = ''grep -q '' @ shell_single_quote generated_tag @ '' /etc/resolv.conf''"

definition verify_command :: "string \<Rightarrow> string \<Rightarrow> string" where
  "verify_command name server =
     ''host -W 5 -t A '' @ shell_single_quote name @ '' '' @ shell_single_quote server @ '' 2>&1 | awk '' @ CHR 0x27 # ''/has address/ {print $NF}'' @ [CHR 0x27]"

definition probe_cmd :: string where
  "probe_cmd = ''host -W 2 -t A host.containers.internal 127.0.0.1 >/dev/null 2>&1''"

definition unbound_conf_path :: string where "unbound_conf_path = ''/var/unbound/unbound.conf''"
definition resolv_conf_path :: string where "resolv_conf_path = ''/etc/resolv.conf''"
definition resolvconf_conf_path :: string where "resolvconf_conf_path = ''/etc/resolvconf.conf''"
definition containers_dir :: string where "containers_dir = ''/usr/local/etc/containers/containers.conf.d''"

text \<open>The lines before, between and after the three files.\<close>

definition service_lines :: "string list" where
  "service_lines =
     [''sysrc local_unbound_enable=YES >/dev/null'',
      ''if [ '' @ quote ''$changed'' @ '' = yes ] || ! service local_unbound status >/dev/null 2>&1; then'',
      htab # ''service local_unbound stop >/dev/null 2>&1 || true'',
      htab # ''i=0'',
      htab # ''while [ $i -lt 15 ] && pgrep -qx local-unbound >/dev/null 2>&1; do sleep 1; i=$((i+1)); done'',
      htab # ''pkill -9 -x local-unbound >/dev/null 2>&1 || true'',
      htab # ''service local_unbound start >/dev/null 2>&1 || true'',
      ''fi'',
      ''i=0'',
      ''while [ $i -lt 20 ] && ! '' @ probe_cmd @ ''; do sleep 1; i=$((i+1)); done'',
      probe_cmd,
      ''if [ ! -f '' @ resolvconf_conf_path @ '' ] || ! grep -q '' @ CHR 0x27 # ''^resolv_conf='' @ CHR 0x27 # '' '' @ resolvconf_conf_path @ ''; then'',
      htab # ''echo '' @ CHR 0x27 # ''resolv_conf='' @ quote ''/dev/null'' @ '' # jailmachine owns '' @ resolv_conf_path @ CHR 0x27 # '' >> '' @ resolvconf_conf_path,
      ''fi'']"

definition engine_lines :: "string list" where
  "engine_lines =
     [''if [ '' @ quote ''$engine_changed'' @ '' = yes ]; then'',
      htab # ''service podman_service status >/dev/null 2>&1 && service podman_service restart >/dev/null 2>&1 || true'',
      htab # ''i=0'',
      htab # ''while [ $i -lt 30 ] && [ ! -S /var/run/podman/podman.sock ]; do sleep 1; i=$((i+1)); done'',
      ''fi'']"

definition gc_script :: "(string \<Rightarrow> string option) \<Rightarrow> guest_config \<Rightarrow> string + string" where
  "gc_script perr g =
     (case gc_validate perr g of
        Some t \<Rightarrow> Inl t
      | None \<Rightarrow> Inr (unlines
          ([''set -e'', ''umask 022'', ''changed=no'', ''engine_changed=no'', ''mkdir -p /var/unbound''] @
           write_file ''JM_UNBOUND'' unbound_conf_path (unbound_lines g) ''changed=yes'' @
           service_lines @
           write_file ''JM_RESOLV'' resolv_conf_path (resolv_lines g) [] @
           [''chmod 644 '' @ resolv_conf_path, ''mkdir -p '' @ containers_dir] @
           write_file ''JM_CONTAINERS'' (containers_dir @ ''/50-jailmachine-dns.conf'') (containers_lines g) ''engine_changed=yes'' @
           engine_lines)))"

section \<open>What the shell reads\<close>

text \<open>One word of \<^verbatim>\<open>/bin/sh\<close> from the start of a text, with what follows it: quotes and backslashes taken away, blanks before it skipped;
  \<open>None\<close> when a quote is left open. The flag says whether the reader is inside single quotes.\<close>

fun sh_word :: "bool \<Rightarrow> string \<Rightarrow> (string \<times> string) option" where
  "sh_word True [] = None"
| "sh_word False [] = Some ([], [])"
| "sh_word True (c # s) =
     (if c = CHR 0x27 then sh_word False s else map_option (\<lambda>(w, r). (c # w, r)) (sh_word True s))"
| "sh_word False (c # s) =
     (if c = CHR 0x27 then sh_word True s
      else if c = CHR '' '' then Some ([], c # s)
      else if c = CHR 0x5C then (case s of [] \<Rightarrow> None | d # t \<Rightarrow> map_option (\<lambda>(w, r). (d # w, r)) (sh_word False t))
      else map_option (\<lambda>(w, r). (c # w, r)) (sh_word False s))"

definition sh_next :: "string \<Rightarrow> (string \<times> string) option" where
  "sh_next s = sh_word False (dropWhile (\<lambda>c. c = CHR '' '') s)"

text \<open>The here-documents a script holds: for each, the file its \<^verbatim>\<open>cat >\<close> writes and the lines up to the terminator.\<close>

definition here_start :: "string \<Rightarrow> (string \<times> string) option" where
  "here_start l =
     (case cut_prefix l ''cat > '' of
        None \<Rightarrow> None
      | Some r \<Rightarrow>
          (let path = takeWhile (\<lambda>c. c \<noteq> CHR '' '') r in
           case cut_prefix (drop (length path) r) ('' <<'' @ [CHR 0x27]) of
             None \<Rightarrow> None
           | Some t \<Rightarrow> Some (path, takeWhile (\<lambda>c. c \<noteq> CHR 0x27) t)))"

fun here_docs :: "(string \<times> string \<times> string list) option \<Rightarrow> string list \<Rightarrow> (string \<times> string list) list" where
  "here_docs _ [] = []"
| "here_docs None (l # ls) =
     (case here_start l of None \<Rightarrow> here_docs None ls | Some (p, t) \<Rightarrow> here_docs (Some (p, t, [])) ls)"
| "here_docs (Some (p, t, acc)) (l # ls) =
     (if l = t then (p, acc) # here_docs None ls else here_docs (Some (p, t, acc @ [l])) ls)"

section \<open>Lemmas\<close>

lemma sh_word_quoted:
  "sh_word True (concat (map (\<lambda>c. if c = CHR 0x27 then [CHR 0x27, CHR 0x5C, CHR 0x27, CHR 0x27] else [c]) s) @ CHR 0x27 # r) =
     map_option (\<lambda>(w, t). (s @ w, t)) (sh_word False r)"
  by (induction s) (auto simp: option.map_comp option.map_ident comp_def case_prod_unfold)

lemma sh_next_quoted: "sh_next ('' '' @ shell_single_quote s @ '' '' @ r) = Some (s, '' '' @ r)"
  by (simp add: sh_next_def shell_single_quote_def sh_word_quoted)

lemma here_docs_skip: "list_all (\<lambda>l. here_start l = None) ls \<Longrightarrow> here_docs None (ls @ rest) = here_docs None rest"
  by (induction ls) auto

lemma here_docs_body: "t \<notin> set ls \<Longrightarrow> here_docs (Some (p, t, acc)) (ls @ t # rest) = (p, acc @ ls) # here_docs None rest"
  by (induction ls arbitrary: acc) auto

lemma split_unlines:
  assumes "\<forall>l \<in> set ls. lf \<notin> set l"
  shows "split_on lf (unlines ls) = ls @ [[]]"
  using assms by (induction ls) (auto simp: unlines_def split_on_append)

text \<open>The lines of a file: none breaks a line, none begins like a terminator.\<close>

definition tame :: "string \<Rightarrow> bool" where
  "tame l \<longleftrightarrow> lf \<notin> set l \<and> take 1 l \<noteq> ''J''"

lemma nat_digits_no_lf: "lf \<notin> set (nat_digits n)"
  using nat_digits_digits [of n] by (auto simp: list_all_iff is_digit_def lf_def)

lemma itoa_no_lf: "lf \<notin> set (itoa i)"
  using nat_digits_no_lf by (auto simp: itoa_def lf_def)

lemma plausible_no_lf: "plausible_domain d \<Longrightarrow> lf \<notin> set d"
  by (auto simp: plausible_domain_def list_all_iff domain_char_def lf_def Let_def)

lemma tame_tabbed: "lf \<notin> set a \<Longrightarrow> lf \<notin> set b \<Longrightarrow> tame (htab # a @ b)"
  by (simp add: tame_def lf_def htab_def)

lemma tame_append: "tame a \<Longrightarrow> a \<noteq> [] \<Longrightarrow> lf \<notin> set b \<Longrightarrow> tame (a @ b)"
  by (cases a) (auto simp: tame_def)

lemma tame_unbound:
  assumes "lf \<notin> set (gc_nameserver g)" "lf \<notin> set (gc_upstreamIP g)"
  shows "list_all tame (unbound_lines g)"
proof -
  have i: "tame (htab # ''interface: '' @ gc_nameserver g)" using assms(1) by (intro tame_tabbed) (simp_all add: lf_def)
  have f: "tame (htab # ''forward-addr: '' @ gc_upstreamIP g @ ''@'' @ itoa (gc_upstreamPort g))"
    using assms(2) itoa_no_lf by (intro tame_tabbed) (simp_all add: lf_def)
  show ?thesis
    apply (simp only: unbound_lines_def list_all_append list.pred_map list.pred_inject comp_apply i f simp_thms)
    apply (intro conjI; code_simp)
    done
qed

lemma tame_resolv:
  assumes "lf \<notin> set (gc_nameserver g)" "list_all plausible_domain (gc_search g)"
  shows "list_all tame (resolv_lines g)"
proof -
  have j: "lf \<notin> set (join sep ds)" if "lf \<notin> set sep" "list_all plausible_domain ds" for sep ds
    using that by (induction sep ds rule: join.induct) (auto simp: plausible_no_lf)
  have d: "tame (''search '' @ join '' '' (gc_search g))" by (rule tame_append) (code_simp, simp, rule j [OF _ assms(2)], simp add: lf_def)
  have n: "tame (''nameserver '' @ gc_nameserver g)" by (rule tame_append) (code_simp, simp, rule assms(1))
  have c: "tame generated_header" "tame ''# The single nameserver forwards every query to the host resolver.''" by code_simp+
  show ?thesis by (simp only: resolv_lines_def list_all_append c d n list.pred_inject simp_thms split: if_split)
qed

lemma tame_containers: "lf \<notin> set (gc_hostAlias g) \<Longrightarrow> list_all tame (containers_lines g)"
proof -
  assume a: "lf \<notin> set (gc_hostAlias g)"
  have i: "tame (''host_containers_internal_ip = '' @ quote (gc_hostAlias g))"
    using a by (intro tame_append) (code_simp, simp, simp add: quote_def lf_def)
  have c: "tame generated_header" "tame ''[containers]''" by code_simp+
  show ?thesis by (simp only: containers_lines_def list.pred_inject c i simp_thms)
qed

lemma bad_addr_ok: "bad_addr perr what a = None \<Longrightarrow> perr a = None"
  by (auto simp: bad_addr_def split: option.splits)

lemma validated:
  assumes "gc_validate perr g = None"
  shows "perr (gc_upstreamIP g) = None" "perr (gc_nameserver g) = None" "perr (gc_hostAlias g) = None" "list_all plausible_domain (gc_search g)"
  using assms by (auto simp: gc_validate_def find_None_iff list_all_iff split: option.splits if_splits dest!: bad_addr_ok)

text \<open>The lines of a \<^verbatim>\<open>writeFile\<close> after its here-document.\<close>

definition install_lines :: "string \<Rightarrow> string \<Rightarrow> string list" where
  "install_lines path on_change =
     [''if cmp -s '' @ path @ ''.jm '' @ path @ ''; then'', htab # ''rm -f '' @ path @ ''.jm'', ''else'', htab # ''mv '' @ path @ ''.jm '' @ path] @
     (if on_change \<noteq> [] then [htab # on_change] else []) @ [''fi'']"

definition here_line :: "string \<Rightarrow> string \<Rightarrow> string" where
  "here_line p m = ''cat > '' @ p @ ''.jm <<'' @ CHR 0x27 # m @ ''_EOF'' @ [CHR 0x27]"

lemma write_file_lines:
  "write_file m p c oc = here_line p m # c @ (m @ ''_EOF'') # install_lines p oc"
  by (simp only: write_file_def here_line_def install_lines_def append_Cons append_Nil append_assoc)

lemma here_docs_write:
  assumes "here_start (here_line p m) = Some (f, m @ ''_EOF'')"
    "take 1 m = ''J''" "list_all tame c" "list_all (\<lambda>l. here_start l = None) (install_lines p oc)"
  shows "here_docs None (write_file m p c oc @ rest) = (f, c) # here_docs None rest"
proof -
  have "take 1 (m @ ''_EOF'') = ''J''" using assms(2) by (cases m) auto
  then have t: "m @ ''_EOF'' \<notin> set c" using assms(3) by (auto simp only: list_all_iff tame_def)
  have "here_docs None (write_file m p c oc @ rest) = here_docs (Some (f, m @ ''_EOF'', [])) (c @ (m @ ''_EOF'') # install_lines p oc @ rest)"
    by (simp only: write_file_lines append_Cons append_assoc here_docs.simps assms(1) option.case prod.case)
  then show ?thesis by (simp only: here_docs_body [OF t] here_docs_skip [OF assms(4)] append_Nil)
qed

text \<open>The lines of the program outside the files, in four groups.\<close>

definition script_head :: "string list" where
  "script_head = [''set -e'', ''umask 022'', ''changed=no'', ''engine_changed=no'', ''mkdir -p /var/unbound'']"

definition script_middle :: "string list" where
  "script_middle = [''chmod 644 '' @ resolv_conf_path, ''mkdir -p '' @ containers_dir]"

definition script_lines :: "guest_config \<Rightarrow> string list" where
  "script_lines g =
     script_head @ write_file ''JM_UNBOUND'' unbound_conf_path (unbound_lines g) ''changed=yes'' @ service_lines @
     write_file ''JM_RESOLV'' resolv_conf_path (resolv_lines g) [] @ script_middle @
     write_file ''JM_CONTAINERS'' (containers_dir @ ''/50-jailmachine-dns.conf'') (containers_lines g) ''engine_changed=yes'' @ engine_lines"

lemma gc_script_lines: "gc_script perr g = (case gc_validate perr g of Some t \<Rightarrow> Inl t | None \<Rightarrow> Inr (unlines (script_lines g)))"
  by (simp only: gc_script_def script_lines_def script_head_def script_middle_def append_assoc)

definition plain :: "string list \<Rightarrow> bool" where
  "plain ls \<longleftrightarrow> list_all (\<lambda>l. lf \<notin> set l) ls \<and> list_all (\<lambda>l. here_start l = None) ls"

lemma plain_parts: "plain script_head" "plain service_lines" "plain script_middle" "plain engine_lines"
  by code_simp+

lemma plain_installs: "plain (install_lines unbound_conf_path ''changed=yes'')" "plain (install_lines resolv_conf_path [])"
    "plain (install_lines (containers_dir @ ''/50-jailmachine-dns.conf'') ''engine_changed=yes'')"
  by code_simp+

lemma here_lines:
  "here_start (here_line unbound_conf_path ''JM_UNBOUND'') = Some (unbound_conf_path @ ''.jm'', ''JM_UNBOUND'' @ ''_EOF'')"
  "here_start (here_line resolv_conf_path ''JM_RESOLV'') = Some (resolv_conf_path @ ''.jm'', ''JM_RESOLV'' @ ''_EOF'')"
  "here_start (here_line (containers_dir @ ''/50-jailmachine-dns.conf'') ''JM_CONTAINERS'') =
     Some ((containers_dir @ ''/50-jailmachine-dns.conf'') @ ''.jm'', ''JM_CONTAINERS'' @ ''_EOF'')"
  by code_simp+

lemma whole_lines:
  "\<forall>l \<in> {here_line unbound_conf_path ''JM_UNBOUND'', here_line resolv_conf_path ''JM_RESOLV'',
     here_line (containers_dir @ ''/50-jailmachine-dns.conf'') ''JM_CONTAINERS'',
     ''JM_UNBOUND'' @ ''_EOF'', ''JM_RESOLV'' @ ''_EOF'', ''JM_CONTAINERS'' @ ''_EOF''}. lf \<notin> set l"
  by code_simp

lemma tame_lines: "list_all tame ls \<Longrightarrow> list_all (\<lambda>l. lf \<notin> set l) ls"
  by (simp add: list_all_iff tame_def)

lemma script_lines_whole:
  assumes "list_all tame (unbound_lines g)" "list_all tame (resolv_lines g)" "list_all tame (containers_lines g)"
  shows "\<forall>l \<in> set (script_lines g). lf \<notin> set l"
proof -
  have "list_all (\<lambda>l. lf \<notin> set l) (script_lines g)"
    using whole_lines plain_parts plain_installs assms [THEN tame_lines]
    by (simp only: script_lines_def write_file_lines list_all_append list.pred_inject plain_def ball_simps simp_thms)
  then show ?thesis by (simp add: list_all_iff)
qed


text \<open>Fact (roundtrip): a name reaches the guest's \<^verbatim>\<open>host\<close> command as one argument, whatever it holds: the shell reads the name and the
  server back from the command \<^verbatim>\<open>jm start\<close> and \<^verbatim>\<open>jm doctor\<close> verify resolution with.\<close>

theorem verify_reads_back:
  "\<exists>a b. verify_command name server = ''host -W 5 -t A'' @ a \<and> sh_next a = Some (name, b) \<and>
     sh_next b = Some (server, '' 2>&1 | awk '' @ shell_single_quote ''/has address/ {print $NF}'')"
proof -
  let ?e = "''2>&1 | awk '' @ shell_single_quote ''/has address/ {print $NF}''"
  have "verify_command name server = ''host -W 5 -t A'' @ ('' '' @ shell_single_quote name @ '' '' @ shell_single_quote server @ '' '' @ ?e)"
    by (simp add: verify_command_def shell_single_quote_def)
  then show ?thesis using sh_next_quoted [of name "shell_single_quote server @ '' '' @ ?e"] sh_next_quoted [of server ?e] by fastforce
qed

section \<open>Witnesses\<close>

definition digits_or_dots :: "string \<Rightarrow> string option" where
  "digits_or_dots a = (if list_all (\<lambda>c. is_digit c \<or> c = CHR ''.'') a then None else Some ''unexpected character'')"

definition demo_guest :: guest_config where
  "demo_guest = \<lparr>gc_upstreamIP = ''192.168.127.254'', gc_upstreamPort = 53535, gc_nameserver = ''192.168.127.2'',
     gc_hostAlias = ''192.168.127.254'', gc_search = [''corp.example'', ''JM_RESOLV_EOF'']\<rparr>"


end
