(* ===== verification/Spec2Isabelle.thy ===== *)
theory Spec2Isabelle
  imports Forwarder_Run Idle Machine Qemu_System Qemu_Monitor Sleeper_Monitor Cli_Qemu Image_Laws Cli_Init_Laws Gvproxy Resolver_Process Resolver_Guest
begin

text \<open>
  A verification development for jailmachine (\<^verbatim>\<open>jm\<close>): FreeBSD jails in a QEMU guest on macOS.
\<close>

end
